(* ===== verification/Prelude.thy ===== *)
theory Prelude
  imports Main "HOL-Library.Word" "HOL-Library.List_Lexorder" "HOL-Library.Char_ord"
begin

text \<open>
  Shared vocabulary of the development: the names of the Rust machine types, checked and
  saturating arithmetic on them, the \<open>Result\<close> type with its \<open>?\<close> operator, the named theorem
  collections the component theories feed, the generic invariant rule for step relations, and
  the list lemmas that several components use.
\<close>

section \<open>Machine types and results\<close>

type_synonym u8 = "8 word"
type_synonym u16 = "16 word"
type_synonym u32 = "32 word"
type_synonym u64 = "64 word"
type_synonym ('e, 'a) result = "'e + 'a"

named_theorems codec_simps \<open>equations that evaluate the byte and text codecs\<close>
named_theorems frame_simps \<open>fields that an operation leaves unchanged\<close>
named_theorems step_inv \<open>an operation keeps the invariant of its component\<close>

text \<open>
  Rust's \<open>u64\<close> and \<open>usize\<close> values that take part in no bit operation are natural numbers with
  the overflow behaviour of the operation written out: \<open>checked_add\<close>, \<open>saturating_add\<close> and
  \<open>saturating_sub\<close> as the standard library defines them.
\<close>

definition u64_max :: nat where
  "u64_max = 2 ^ 64 - 1"

definition i64_max :: nat where
  "i64_max = 2 ^ 63 - 1"

definition checked_add :: "nat \<Rightarrow> nat \<Rightarrow> nat option" where
  "checked_add a b = (if a + b \<le> u64_max then Some (a + b) else None)"

definition saturating_add :: "nat \<Rightarrow> nat \<Rightarrow> nat" where
  "saturating_add a b = min (a + b) u64_max"

definition checked_sub :: "nat \<Rightarrow> nat \<Rightarrow> nat option" where
  "checked_sub a b = (if b \<le> a then Some (a - b) else None)"

text \<open>\<open>n -= 1\<close> on a \<open>usize\<close> wraps below zero.\<close>

definition usize_dec :: "nat \<Rightarrow> nat" where
  "usize_dec n = (if n = 0 then u64_max else n - 1)"

text \<open>The \<open>?\<close> operator: an error leaves the function, a value goes on.\<close>

definition try_bind :: "('e, 'a) result \<Rightarrow> ('a \<Rightarrow> ('e, 'b) result) \<Rightarrow> ('e, 'b) result" where
  "try_bind r f = (case r of Inl e \<Rightarrow> Inl e | Inr x \<Rightarrow> f x)"

definition ok_or :: "'e \<Rightarrow> 'a option \<Rightarrow> ('e, 'a) result" where
  "ok_or e v = (case v of None \<Rightarrow> Inl e | Some x \<Rightarrow> Inr x)"

definition is_ok :: "('e, 'a) result \<Rightarrow> bool" where
  "is_ok r = (case r of Inl _ \<Rightarrow> False | Inr _ \<Rightarrow> True)"

definition ok :: "('e, 'a) result \<Rightarrow> 'a option" where
  "ok r = (case r of Inl _ \<Rightarrow> None | Inr x \<Rightarrow> Some x)"

lemma try_bind_simps [simp]:
  "try_bind (Inl e) f = Inl e"
  "try_bind (Inr x) f = f x"
  by (simp_all add: try_bind_def)

lemma try_bind_eq_Inr:
  "try_bind r f = Inr y \<longleftrightarrow> (\<exists>x. r = Inr x \<and> f x = Inr y)"
  by (cases r) auto

lemma ok_or_simps [simp]:
  "ok_or e None = Inl e"
  "ok_or e (Some x) = Inr x"
  by (simp_all add: ok_or_def)

lemma ok_or_eq_Inr: "ok_or e v = Inr x \<longleftrightarrow> v = Some x"
  by (cases v) auto

lemma ok_simps [simp]:
  "ok (Inl e) = None"
  "ok (Inr x) = Some x"
  "is_ok (Inl e) = False"
  "is_ok (Inr x) = True"
  by (simp_all add: ok_def is_ok_def)

lemma checked_add_SomeD: "checked_add a b = Some c \<Longrightarrow> c = a + b \<and> a + b \<le> u64_max"
  by (simp add: checked_add_def split: if_splits)

lemma checked_sub_SomeD: "checked_sub a b = Some c \<Longrightarrow> c = a - b \<and> b \<le> a"
  by (simp add: checked_sub_def split: if_splits)

section \<open>Invariants of step relations\<close>

text \<open>
  Every stateful component is an initial state and a step relation. The rule below is the only
  induction the components need: an invariant that holds initially and is kept by every step
  holds in every reachable state.
\<close>

inductive reachable_from :: "('s \<Rightarrow> 's \<Rightarrow> bool) \<Rightarrow> 's \<Rightarrow> 's \<Rightarrow> bool"
  for step :: "'s \<Rightarrow> 's \<Rightarrow> bool" and s0 :: 's where
  reach_start: "reachable_from step s0 s0"
| reach_step: "reachable_from step s0 s \<Longrightarrow> step s t \<Longrightarrow> reachable_from step s0 t"

lemma reach_one: "step s t \<Longrightarrow> reachable_from step s t"
  by (rule reach_step [OF reach_start])

locale transition_system =
  fixes initial :: 's
    and step :: "'s \<Rightarrow> 's \<Rightarrow> bool"
    and inv :: "'s \<Rightarrow> bool"
  assumes inv_initial: "inv initial"
    and inv_step: "inv s \<Longrightarrow> step s t \<Longrightarrow> inv t"
begin

lemma inv_reachable: "reachable_from step initial s \<Longrightarrow> inv s"
  by (induction rule: reachable_from.induct) (auto intro: inv_initial inv_step)

lemma inv_run: "inv s \<Longrightarrow> reachable_from step s t \<Longrightarrow> inv t"
  by (rotate_tac, induction rule: reachable_from.induct) (auto intro: inv_step)

end

section \<open>Lists\<close>

text \<open>\<open>Iterator::position\<close>.\<close>

fun position :: "('a \<Rightarrow> bool) \<Rightarrow> 'a list \<Rightarrow> nat option" where
  "position p [] = None"
| "position p (x # xs) = (if p x then Some 0 else map_option Suc (position p xs))"

lemma position_lt: "position p xs = Some i \<Longrightarrow> i < length xs"
  by (induction xs arbitrary: i) (auto split: if_splits)

lemma position_Some:
  "position p xs = Some i \<Longrightarrow> p (xs ! i) \<and> (\<forall>x \<in> set (take i xs). \<not> p x)"
  by (induction xs arbitrary: i) (auto split: if_splits)

lemma position_append: "\<forall>x \<in> set xs. \<not> p x \<Longrightarrow> p y \<Longrightarrow> position p (xs @ y # ys) = Some (length xs)"
  by (induction xs) auto

lemma nth_append_fresh [simp]: "(xs @ [x]) ! length xs = x"
  by simp

lemma list_update_same_length: "i < length xs \<Longrightarrow> length (xs[i := v]) = length xs"
  by simp

lemma filter_length_update:
  assumes "i < length xs" "P (xs ! i)" "\<not> P v"
  shows "length (filter P (xs[i := v])) + 1 = length (filter P xs)"
  using assms
proof (induction xs arbitrary: i)
  case Nil
  then show ?case by simp
next
  case (Cons x xs)
  then show ?case by (cases i) auto
qed

lemma filter_length_update_same:
  assumes "i < length xs" "P (xs ! i) = P v"
  shows "length (filter P (xs[i := v])) = length (filter P xs)"
  using assms
proof (induction xs arbitrary: i)
  case Nil
  then show ?case by simp
next
  case (Cons x xs)
  then show ?case by (cases i) auto
qed

end
