(* ===== verification/BTree_Map.thy ===== *)
theory BTree_Map
  imports Prelude
begin

text \<open>
  The standard library's \<open>BTreeMap\<close>, which the registries of the program iterate in key order:
  an association list with strictly ascending keys. The locale \<open>ordered_map\<close> is the contract
  the components rely on; the interpretation \<open>bt\<close> discharges it for the definitions below.
\<close>

section \<open>The operations\<close>

type_synonym ('k, 'v) btmap = "('k \<times> 'v) list"

definition bt_empty :: "('k, 'v) btmap" where
  "bt_empty = []"

definition bt_get :: "('k, 'v) btmap \<Rightarrow> 'k \<Rightarrow> 'v option" where
  "bt_get m k = map_of m k"

fun bt_insert :: "'k::linorder \<Rightarrow> 'v \<Rightarrow> ('k, 'v) btmap \<Rightarrow> ('k, 'v) btmap" where
  "bt_insert k v [] = [(k, v)]"
| "bt_insert k v ((k', v') # m) =
     (if k < k' then (k, v) # (k', v') # m
      else if k = k' then (k, v) # m
      else (k', v') # bt_insert k v m)"

definition bt_remove :: "'k \<Rightarrow> ('k, 'v) btmap \<Rightarrow> ('k, 'v) btmap" where
  "bt_remove k m = filter (\<lambda>(k', _). k' \<noteq> k) m"

definition bt_retain :: "('k \<Rightarrow> 'v \<Rightarrow> bool) \<Rightarrow> ('k, 'v) btmap \<Rightarrow> ('k, 'v) btmap" where
  "bt_retain p m = filter (\<lambda>(k, v). p k v) m"

definition bt_keys :: "('k, 'v) btmap \<Rightarrow> 'k list" where
  "bt_keys m = map fst m"

definition bt_wf :: "('k::linorder, 'v) btmap \<Rightarrow> bool" where
  "bt_wf m = sorted_wrt (<) (map fst m)"

section \<open>The contract\<close>

locale ordered_map =
  fixes empty :: 'm
    and get :: "'m \<Rightarrow> 'k::linorder \<Rightarrow> 'v option"
    and insert_at :: "'k \<Rightarrow> 'v \<Rightarrow> 'm \<Rightarrow> 'm"
    and remove :: "'k \<Rightarrow> 'm \<Rightarrow> 'm"
    and keys :: "'m \<Rightarrow> 'k list"
    and wf :: "'m \<Rightarrow> bool"
  assumes get_empty: "get empty k = None"
    and get_insert: "wf m \<Longrightarrow> get (insert_at k v m) k' = (if k' = k then Some v else get m k')"
    and get_remove: "wf m \<Longrightarrow> get (remove k m) k' = (if k' = k then None else get m k')"
    and set_keys: "wf m \<Longrightarrow> k \<in> set (keys m) \<longleftrightarrow> get m k \<noteq> None"
    and sorted_keys: "wf m \<Longrightarrow> sorted_wrt (<) (keys m)"
    and wf_empty: "wf empty"
    and wf_insert: "wf m \<Longrightarrow> wf (insert_at k v m)"
    and wf_remove: "wf m \<Longrightarrow> wf (remove k m)"
begin

lemma insert_remove_other:
  "wf m \<Longrightarrow> k \<noteq> k' \<Longrightarrow> get (insert_at k v (remove k' m)) k = Some v"
  by (simp add: get_insert wf_remove)

lemma remove_insert_get:
  "wf m \<Longrightarrow> get (remove k (insert_at k v m)) k' = get (remove k m) k'"
  by (simp add: get_insert get_remove wf_insert)

lemma wf_fold_remove: "wf m \<Longrightarrow> wf (fold remove ks m)"
  by (induction ks arbitrary: m) (auto simp: wf_remove)

lemma get_fold_remove:
  "wf m \<Longrightarrow> get (fold remove ks m) k = (if k \<in> set ks then None else get m k)"
  by (induction ks arbitrary: m) (auto simp: get_remove wf_remove)

end

lemma fst_set_bt_insert: "fst ` set (bt_insert k v m) = insert k (fst ` set m)"
  by (induction k v m rule: bt_insert.induct) (simp_all add: insert_commute)

lemma bt_wf_Nil [simp]: "bt_wf []"
  by (simp add: bt_wf_def)

lemma bt_wf_Cons: "bt_wf ((k, v) # m) \<longleftrightarrow> (\<forall>k' \<in> fst ` set m. k < k') \<and> bt_wf m"
  by (auto simp: bt_wf_def)

lemma bt_wf_insert: "bt_wf m \<Longrightarrow> bt_wf (bt_insert k v m)"
proof (induction m)
  case Nil
  then show ?case by (simp add: bt_wf_def)
next
  case (Cons p m)
  obtain k' v' where p: "p = (k', v')" by force
  show ?case
  proof (cases k k' rule: linorder_cases)
    case less
    with Cons.prems p show ?thesis by (fastforce simp: bt_wf_Cons)
  next
    case equal
    with Cons.prems p show ?thesis by (simp add: bt_wf_Cons)
  next
    case greater
    with Cons p show ?thesis
      by (auto simp: bt_wf_Cons fst_set_bt_insert simp del: fst_conv)
  qed
qed

lemma bt_wf_filter: "bt_wf m \<Longrightarrow> bt_wf (filter p m)"
  by (induction m) (auto simp: bt_wf_Cons image_iff)

lemma bt_get_insert: "bt_get (bt_insert k v m) k' = (if k' = k then Some v else bt_get m k')"
  if "bt_wf m"
  using that by (induction k v m rule: bt_insert.induct) (auto simp: bt_get_def bt_wf_Cons)

lemma bt_get_remove: "bt_get (bt_remove k m) k' = (if k' = k then None else bt_get m k')"
  by (induction m) (auto simp: bt_get_def bt_remove_def)

lemma bt_get_Some_in: "bt_get m k = Some v \<Longrightarrow> (k, v) \<in> set m"
  by (simp add: bt_get_def map_of_SomeD)

lemma bt_wf_distinct: "bt_wf m \<Longrightarrow> distinct (map fst m)"
  by (simp add: bt_wf_def strict_sorted_iff)

lemma bt_insert_length: "length (bt_insert k v m) \<le> Suc (length m)"
  by (induction k v m rule: bt_insert.induct) auto

lemma bt_get_iff: "bt_wf m \<Longrightarrow> bt_get m k = Some v \<longleftrightarrow> (k, v) \<in> set m"
  by (simp add: bt_get_def bt_wf_distinct)

lemma bt_get_retain:
  "bt_wf m \<Longrightarrow> bt_get (bt_retain p m) k =
     (case bt_get m k of None \<Rightarrow> None | Some v \<Rightarrow> if p k v then Some v else None)"
proof (induction m)
  case Nil
  then show ?case by (simp add: bt_get_def bt_retain_def)
next
  case (Cons q m)
  obtain k' v' where q: "q = (k', v')" by force
  have fresh: "k' \<notin> fst ` set m" and wf: "bt_wf m"
    using Cons.prems q by (auto simp: bt_wf_Cons)
  have "map_of (filter (\<lambda>(k, v). p k v) m) k' = None"
    using fresh by (auto simp: map_of_eq_None_iff)
  with Cons.IH [OF wf] q show ?case
    by (auto simp: bt_get_def bt_retain_def split: option.splits)
qed

lemma bt_wf_retain: "bt_wf m \<Longrightarrow> bt_wf (bt_retain p m)"
  by (simp add: bt_retain_def bt_wf_filter)

interpretation bt: ordered_map bt_empty bt_get bt_insert bt_remove bt_keys bt_wf
proof unfold_locales
  show "bt_get bt_empty k = None" for k :: 'a
    by (simp add: bt_get_def bt_empty_def)
  show "bt_wf m \<Longrightarrow> (k \<in> set (bt_keys m)) = (bt_get m k \<noteq> None)"
    for m :: "('a, 'b) btmap" and k
    by (simp add: bt_get_def bt_keys_def map_of_eq_None_iff)
  show "bt_wf m \<Longrightarrow> sorted_wrt (<) (bt_keys m)" for m :: "('a, 'b) btmap"
    by (simp add: bt_wf_def bt_keys_def)
  show "bt_wf m \<Longrightarrow> bt_wf (bt_remove k m)" for m :: "('a, 'b) btmap" and k
    by (simp add: bt_remove_def bt_wf_filter)
qed (simp_all add: bt_get_insert bt_get_remove bt_wf_insert bt_empty_def)

lemmas bt_get_simps = bt_get_insert bt_get_remove bt_get_retain bt.get_empty
lemmas bt_wf_intros [intro, simp] = bt_wf_insert bt.wf_remove bt_wf_retain bt.wf_empty

end
