(* ===== verification/Rust_Text.thy ===== *)
theory Rust_Text
  imports Prelude
begin

text \<open>
  The operations of Rust's \<open>str\<close>, \<open>char\<close> and byte slices that the program uses. A Rust string
  is its UTF-8 byte sequence; a HOL \<open>char\<close> is one byte, so \<open>string\<close> is exactly that sequence
  and \<open>length\<close> is \<open>str::len\<close>. Byte buffers that are handled bit by bit are \<open>u8 list\<close>;
  \<open>as_bytes\<close> and \<open>of_bytes\<close> convert between the two views.
\<close>

section \<open>Bytes and ASCII classes\<close>

definition byte_of :: "char \<Rightarrow> nat" where
  "byte_of c = of_char c"

definition as_bytes :: "string \<Rightarrow> u8 list" where
  "as_bytes s = map (\<lambda>c. word_of_nat (byte_of c)) s"

definition of_bytes :: "u8 list \<Rightarrow> string" where
  "of_bytes bs = map (\<lambda>b. char_of (unat b)) bs"

definition is_ascii_digit :: "char \<Rightarrow> bool" where
  "is_ascii_digit c \<longleftrightarrow> 48 \<le> byte_of c \<and> byte_of c \<le> 57"

definition is_ascii_uppercase :: "char \<Rightarrow> bool" where
  "is_ascii_uppercase c \<longleftrightarrow> 65 \<le> byte_of c \<and> byte_of c \<le> 90"

definition is_ascii_lowercase :: "char \<Rightarrow> bool" where
  "is_ascii_lowercase c \<longleftrightarrow> 97 \<le> byte_of c \<and> byte_of c \<le> 122"

definition is_ascii_alphabetic :: "char \<Rightarrow> bool" where
  "is_ascii_alphabetic c \<longleftrightarrow> is_ascii_uppercase c \<or> is_ascii_lowercase c"

definition is_ascii_alphanumeric :: "char \<Rightarrow> bool" where
  "is_ascii_alphanumeric c \<longleftrightarrow> is_ascii_alphabetic c \<or> is_ascii_digit c"

definition ascii_lower :: "char \<Rightarrow> char" where
  "ascii_lower c = (if is_ascii_uppercase c then char_of (byte_of c + 32) else c)"

definition ascii_upper :: "char \<Rightarrow> char" where
  "ascii_upper c = (if is_ascii_lowercase c then char_of (byte_of c - 32) else c)"

definition to_ascii_lowercase :: "string \<Rightarrow> string" where
  "to_ascii_lowercase s = map ascii_lower s"

definition to_ascii_uppercase :: "string \<Rightarrow> string" where
  "to_ascii_uppercase s = map ascii_upper s"

definition eq_ignore_ascii_case :: "string \<Rightarrow> string \<Rightarrow> bool" where
  "eq_ignore_ascii_case a b \<longleftrightarrow> to_ascii_lowercase a = to_ascii_lowercase b"

definition is_ascii :: "string \<Rightarrow> bool" where
  "is_ascii s \<longleftrightarrow> list_all (\<lambda>c. byte_of c < 128) s"

section \<open>Searching, splitting and stripping\<close>

fun find_char :: "char \<Rightarrow> string \<Rightarrow> nat option" where
  "find_char c [] = None"
| "find_char c (x # xs) = (if x = c then Some 0 else map_option Suc (find_char c xs))"

fun rfind_char :: "char \<Rightarrow> string \<Rightarrow> nat option" where
  "rfind_char c [] = None"
| "rfind_char c (x # xs) =
     (case rfind_char c xs of Some i \<Rightarrow> Some (Suc i) | None \<Rightarrow> if x = c then Some 0 else None)"

definition split_once :: "char \<Rightarrow> string \<Rightarrow> (string \<times> string) option" where
  "split_once c s =
     (case find_char c s of None \<Rightarrow> None | Some i \<Rightarrow> Some (take i s, drop (Suc i) s))"

definition rsplit_once :: "char \<Rightarrow> string \<Rightarrow> (string \<times> string) option" where
  "rsplit_once c s =
     (case rfind_char c s of None \<Rightarrow> None | Some i \<Rightarrow> Some (take i s, drop (Suc i) s))"

fun split_by :: "(char \<Rightarrow> bool) \<Rightarrow> string \<Rightarrow> string list" where
  "split_by p [] = [[]]"
| "split_by p (x # xs) =
     (if p x then [] # split_by p xs
      else (case split_by p xs of [] \<Rightarrow> [[x]] | w # ws \<Rightarrow> (x # w) # ws))"

abbreviation split_char :: "char \<Rightarrow> string \<Rightarrow> string list" where
  "split_char c \<equiv> split_by (\<lambda>x. x = c)"

fun starts_with :: "string \<Rightarrow> string \<Rightarrow> bool" where
  "starts_with s [] = True"
| "starts_with [] (p # ps) = False"
| "starts_with (c # s) (p # ps) = (c = p \<and> starts_with s ps)"

definition ends_with :: "string \<Rightarrow> string \<Rightarrow> bool" where
  "ends_with s p = starts_with (rev s) (rev p)"

definition strip_prefix :: "string \<Rightarrow> string \<Rightarrow> string option" where
  "strip_prefix p s = (if starts_with s p then Some (drop (length p) s) else None)"

definition strip_suffix :: "string \<Rightarrow> string \<Rightarrow> string option" where
  "strip_suffix p s = (if ends_with s p then Some (take (length s - length p) s) else None)"

definition trim_start_matches :: "(char \<Rightarrow> bool) \<Rightarrow> string \<Rightarrow> string" where
  "trim_start_matches p s = dropWhile p s"

definition trim_end_matches :: "(char \<Rightarrow> bool) \<Rightarrow> string \<Rightarrow> string" where
  "trim_end_matches p s = rev (dropWhile p (rev s))"

text \<open>The position of a substring, as \<open>str::find\<close> with a string pattern.\<close>

fun find_str :: "string \<Rightarrow> string \<Rightarrow> nat option" where
  "find_str p [] = (if p = [] then Some 0 else None)"
| "find_str p (x # xs) = (if starts_with (x # xs) p then Some 0 else map_option Suc (find_str p xs))"

text \<open>\<open>[T]::join\<close> with a one-byte separator.\<close>

fun join_char :: "char \<Rightarrow> string list \<Rightarrow> string" where
  "join_char c [] = []"
| "join_char c [w] = w"
| "join_char c (w # ws) = w @ c # join_char c ws"

definition split_once_str :: "string \<Rightarrow> string \<Rightarrow> (string \<times> string) option" where
  "split_once_str p s =
     (case find_str p s of None \<Rightarrow> None | Some i \<Rightarrow> Some (take i s, drop (i + length p) s))"

definition contains_char :: "string \<Rightarrow> char \<Rightarrow> bool" where
  "contains_char s c \<longleftrightarrow> c \<in> set s"

section \<open>Whitespace\<close>

text \<open>
  \<open>str::trim\<close> strips the characters with the Unicode property White\_Space. In UTF-8 these are
  six single bytes, two two-byte sequences and the three-byte sequences listed here.
\<close>

definition is_ws1 :: "nat \<Rightarrow> bool" where
  "is_ws1 a \<longleftrightarrow> (9 \<le> a \<and> a \<le> 13) \<or> a = 32"

definition is_ws2 :: "nat \<Rightarrow> nat \<Rightarrow> bool" where
  "is_ws2 a b \<longleftrightarrow> a = 0xC2 \<and> (b = 0x85 \<or> b = 0xA0)"

definition is_ws3 :: "nat \<Rightarrow> nat \<Rightarrow> nat \<Rightarrow> bool" where
  "is_ws3 a b c \<longleftrightarrow>
     (a = 0xE1 \<and> b = 0x9A \<and> c = 0x80) \<or>
     (a = 0xE2 \<and> b = 0x80 \<and> (0x80 \<le> c \<and> c \<le> 0x8A \<or> c = 0xA8 \<or> c = 0xA9 \<or> c = 0xAF)) \<or>
     (a = 0xE2 \<and> b = 0x81 \<and> c = 0x9F) \<or>
     (a = 0xE3 \<and> b = 0x80 \<and> c = 0x80)"

fun trim_start :: "string \<Rightarrow> string" where
  "trim_start [] = []"
| "trim_start [a] = (if is_ws1 (byte_of a) then [] else [a])"
| "trim_start [a, b] =
     (if is_ws1 (byte_of a) then trim_start [b]
      else if is_ws2 (byte_of a) (byte_of b) then [] else [a, b])"
| "trim_start (a # b # c # s) =
     (if is_ws1 (byte_of a) then trim_start (b # c # s)
      else if is_ws2 (byte_of a) (byte_of b) then trim_start (c # s)
      else if is_ws3 (byte_of a) (byte_of b) (byte_of c) then trim_start s
      else a # b # c # s)"

text \<open>\<open>trim_end\<close> walks the reversed bytes, so the last byte of a sequence comes first.\<close>

fun trim_end_rev :: "string \<Rightarrow> string" where
  "trim_end_rev [] = []"
| "trim_end_rev [a] = (if is_ws1 (byte_of a) then [] else [a])"
| "trim_end_rev [a, b] =
     (if is_ws1 (byte_of a) then trim_end_rev [b]
      else if is_ws2 (byte_of b) (byte_of a) then [] else [a, b])"
| "trim_end_rev (a # b # c # s) =
     (if is_ws1 (byte_of a) then trim_end_rev (b # c # s)
      else if is_ws2 (byte_of b) (byte_of a) then trim_end_rev (c # s)
      else if is_ws3 (byte_of c) (byte_of b) (byte_of a) then trim_end_rev s
      else a # b # c # s)"

definition trim_end :: "string \<Rightarrow> string" where
  "trim_end s = rev (trim_end_rev (rev s))"

definition trim :: "string \<Rightarrow> string" where
  "trim s = trim_end (trim_start s)"

section \<open>Numbers\<close>

definition to_digit16 :: "char \<Rightarrow> nat option" where
  "to_digit16 c =
     (if is_ascii_digit c then Some (byte_of c - 48)
      else if 65 \<le> byte_of c \<and> byte_of c \<le> 70 then Some (byte_of c - 55)
      else if 97 \<le> byte_of c \<and> byte_of c \<le> 102 then Some (byte_of c - 87)
      else None)"

definition upper_hex_digit :: "nat \<Rightarrow> char" where
  "upper_hex_digit n = (if n < 10 then char_of (n + 48) else char_of (n + 55))"

definition lower_hex_digit :: "nat \<Rightarrow> char" where
  "lower_hex_digit n = (if n < 10 then char_of (n + 48) else char_of (n + 87))"

fun digits_value :: "nat \<Rightarrow> string \<Rightarrow> nat option" where
  "digits_value acc [] = Some acc"
| "digits_value acc (c # cs) =
     (if is_ascii_digit c then digits_value (10 * acc + (byte_of c - 48)) cs else None)"

text \<open>
  \<open>str::parse\<close> for an unsigned type with maximum \<open>m\<close>: an optional plus sign, then at least one
  digit and nothing else, and the value fits.
\<close>

definition parse_unsigned :: "nat \<Rightarrow> string \<Rightarrow> nat option" where
  "parse_unsigned m s =
     (let d = (case s of CHR ''+'' # r \<Rightarrow> r | _ \<Rightarrow> s) in
      if d = [] then None
      else case digits_value 0 d of
        None \<Rightarrow> None
      | Some v \<Rightarrow> if v \<le> m then Some v else None)"

text \<open>The error kinds of the signed parser, of which \<open>tags::number\<close> tells three apart.\<close>

datatype int_error = IntInvalid | PosOverflow | NegOverflow

definition parse_i64 :: "string \<Rightarrow> (int_error, int) result" where
  "parse_i64 s =
     (let (neg, d) = (case s of CHR ''+'' # r \<Rightarrow> (False, r) | CHR ''-'' # r \<Rightarrow> (True, r) | _ \<Rightarrow> (False, s)) in
      if d = [] then Inl IntInvalid
      else case digits_value 0 d of
        None \<Rightarrow> Inl IntInvalid
      | Some v \<Rightarrow>
          if neg then (if v \<le> 2 ^ 63 then Inr (- int v) else Inl NegOverflow)
          else (if v \<le> i64_max then Inr (int v) else Inl PosOverflow))"

fun show_nat :: "nat \<Rightarrow> string" where
  "show_nat n = (if n < 10 then [char_of (n + 48)] else show_nat (n div 10) @ [char_of (n mod 10 + 48)])"

declare show_nat.simps [simp del]

definition show_int :: "int \<Rightarrow> string" where
  "show_int i = (if i < 0 then ''-'' @ show_nat (nat (- i)) else show_nat (nat i))"

section \<open>Integers as bytes\<close>

text \<open>\<open>from_le_bytes\<close>, \<open>to_le_bytes\<close>, \<open>from_be_bytes\<close> and \<open>to_be_bytes\<close> of a \<open>u32\<close>; the writers cast with \<open>as u32\<close>.\<close>

definition u32_from_le_bytes :: "u8 list \<Rightarrow> nat" where
  "u32_from_le_bytes bs = foldr (\<lambda>b acc. unat b + 256 * acc) bs 0"

definition u32_to_le_bytes :: "nat \<Rightarrow> u8 list" where
  "u32_to_le_bytes n = [word_of_nat n, word_of_nat (n div 256), word_of_nat (n div 65536), word_of_nat (n div 16777216)]"

definition be_number :: "u8 list \<Rightarrow> nat" where
  "be_number bs = foldl (\<lambda>acc b. 256 * acc + unat b) 0 bs"

definition be_bytes4 :: "nat \<Rightarrow> u8 list" where
  "be_bytes4 n = rev (u32_to_le_bytes n)"

section \<open>UTF-8\<close>

text \<open>
  The length of the well-formed UTF-8 sequence at the head of a byte list (Unicode table 3-7, as
  \<open>core::str::from_utf8\<close> checks it), or \<open>None\<close>.
\<close>

definition is_cont :: "u8 \<Rightarrow> bool" where
  "is_cont b \<longleftrightarrow> 0x80 \<le> b \<and> b \<le> 0xBF"

fun utf8_head :: "u8 list \<Rightarrow> nat option" where
  "utf8_head [] = None"
| "utf8_head (a # r) =
     (if a < 0x80 then Some 1
      else case r of
        [] \<Rightarrow> None
      | b # r2 \<Rightarrow>
          if 0xC2 \<le> a \<and> a \<le> 0xDF then (if is_cont b then Some 2 else None)
          else (case r2 of
            [] \<Rightarrow> None
          | c # r3 \<Rightarrow>
              if 0xE0 \<le> a \<and> a \<le> 0xEF then
                (if is_cont b \<and> is_cont c \<and> (a = 0xE0 \<longrightarrow> 0xA0 \<le> b) \<and> (a = 0xED \<longrightarrow> b \<le> 0x9F)
                 then Some 3 else None)
              else (case r3 of
                [] \<Rightarrow> None
              | d # _ \<Rightarrow>
                  if 0xF0 \<le> a \<and> a \<le> 0xF4 \<and> is_cont b \<and> is_cont c \<and> is_cont d
                     \<and> (a = 0xF0 \<longrightarrow> 0x90 \<le> b) \<and> (a = 0xF4 \<longrightarrow> b \<le> 0x8F)
                  then Some 4 else None)))"

lemma utf8_head_bounds: "utf8_head bs = Some n \<Longrightarrow> 0 < n \<and> n \<le> length bs"
  by (cases bs rule: utf8_head.cases) (auto split: if_splits list.splits)

function valid_utf8 :: "u8 list \<Rightarrow> bool" where
  "valid_utf8 bs =
     (if bs = [] then True
      else case utf8_head bs of None \<Rightarrow> False | Some n \<Rightarrow> valid_utf8 (drop n bs))"
  by pat_completeness auto
termination
  by (relation "measure length") (auto dest!: utf8_head_bounds)

declare valid_utf8.simps [simp del]

definition from_utf8 :: "u8 list \<Rightarrow> string option" where
  "from_utf8 bs = (if valid_utf8 bs then Some (of_bytes bs) else None)"

text \<open>
  \<open>String::from_utf8_lossy\<close>: each maximal ill-formed prefix of a sequence becomes one U+FFFD.
  \<open>utf8_bad_len\<close> is its length at the head of a list that \<open>utf8_head\<close> rejects.
\<close>

definition utf8_second_ok :: "u8 \<Rightarrow> u8 \<Rightarrow> bool" where
  "utf8_second_ok a b \<longleftrightarrow> is_cont b \<and>
     (a = 0xE0 \<longrightarrow> 0xA0 \<le> b) \<and> (a = 0xED \<longrightarrow> b \<le> 0x9F) \<and> (a = 0xF0 \<longrightarrow> 0x90 \<le> b) \<and> (a = 0xF4 \<longrightarrow> b \<le> 0x8F)"

fun utf8_bad_len :: "u8 list \<Rightarrow> nat" where
  "utf8_bad_len (a # b # r) =
     (if 0xE0 \<le> a \<and> a \<le> 0xF4 \<and> utf8_second_ok a b then
        (if a \<le> 0xEF then 2
         else case r of [] \<Rightarrow> 2 | c # _ \<Rightarrow> if is_cont c then 3 else 2)
      else 1)"
| "utf8_bad_len _ = 1"

function utf8_lossy_bytes :: "u8 list \<Rightarrow> u8 list" where
  "utf8_lossy_bytes bs =
     (if bs = [] then []
      else case utf8_head bs of
             Some n \<Rightarrow> take n bs @ utf8_lossy_bytes (drop n bs)
           | None \<Rightarrow> [0xEF, 0xBF, 0xBD] @ utf8_lossy_bytes (drop (utf8_bad_len bs) bs))"
  by pat_completeness auto
termination
proof (relation "measure length")
  fix bs :: "u8 list" assume "bs \<noteq> []"
  moreover have "0 < utf8_bad_len bs" by (cases bs rule: utf8_bad_len.cases) (auto split: list.splits)
  ultimately show "(drop (utf8_bad_len bs) bs, bs) \<in> measure length" by simp
qed (auto dest!: utf8_head_bounds)

declare utf8_lossy_bytes.simps [simp del]

definition from_utf8_lossy :: "string \<Rightarrow> string" where
  "from_utf8_lossy s = of_bytes (utf8_lossy_bytes (as_bytes s))"

section \<open>IP address text\<close>

text \<open>
  \<open>Ipv6Addr::from_str\<close>. Each reader returns what it read and the text behind it;
  \<open>read_number\<close> takes the radix, the digit limit, whether leading zeros are allowed and the
  largest value of the target type.
\<close>

definition digit_in :: "nat \<Rightarrow> char \<Rightarrow> nat option" where
  "digit_in radix c = (case to_digit16 c of None \<Rightarrow> None | Some d \<Rightarrow> if d < radix then Some d else None)"

definition read_number :: "nat \<Rightarrow> nat \<Rightarrow> bool \<Rightarrow> nat \<Rightarrow> string \<Rightarrow> (nat \<times> string) option" where
  "read_number radix max_digits allow_zero_prefix largest s =
     (let ds = takeWhile (\<lambda>c. digit_in radix c \<noteq> None) s;
          v = foldl (\<lambda>acc c. radix * acc + the (digit_in radix c)) 0 ds
      in if ds = [] \<or> length ds > max_digits \<or> v > largest \<or>
            (\<not> allow_zero_prefix \<and> hd ds = CHR ''0'' \<and> length ds > 1)
         then None else Some (v, drop (length ds) s))"

definition read_given_char :: "char \<Rightarrow> string \<Rightarrow> string option" where
  "read_given_char c s = (case s of [] \<Rightarrow> None | x # r \<Rightarrow> if x = c then Some r else None)"

definition read_separator ::
  "char \<Rightarrow> bool \<Rightarrow> (string \<Rightarrow> ('a \<times> string) option) \<Rightarrow> string \<Rightarrow> ('a \<times> string) option" where
  "read_separator sep needed inner s =
     (if needed then Option.bind (read_given_char sep s) inner else inner s)"

definition read_octet :: "bool \<Rightarrow> string \<Rightarrow> (nat \<times> string) option" where
  "read_octet dotted = read_separator (CHR ''.'') dotted (read_number 10 3 False 255)"

definition read_ipv4 :: "string \<Rightarrow> (nat list \<times> string) option" where
  "read_ipv4 s =
     Option.bind (read_octet False s) (\<lambda>(a, s). Option.bind (read_octet True s) (\<lambda>(b, s).
     Option.bind (read_octet True s) (\<lambda>(c, s). Option.bind (read_octet True s) (\<lambda>(d, s).
       Some ([a, b, c, d], s)))))"

text \<open>\<open>read_groups n\<close> with \<open>n\<close> groups left; the flag tells that an IPv4 tail was read.\<close>

fun read_groups :: "nat \<Rightarrow> bool \<Rightarrow> string \<Rightarrow> nat list \<times> bool \<times> string" where
  "read_groups 0 sep s = ([], False, s)"
| "read_groups (Suc n) sep s =
     (case (if n > 0 then read_separator (CHR '':'') sep read_ipv4 s else None) of
        Some (os, r) \<Rightarrow> ([256 * os ! 0 + os ! 1, 256 * os ! 2 + os ! 3], True, r)
      | None \<Rightarrow>
          (case read_separator (CHR '':'') sep (read_number 16 4 True 65535) s of
             None \<Rightarrow> ([], False, s)
           | Some (g, r) \<Rightarrow> (let (gs, v4, r') = read_groups n True r in (g # gs, v4, r'))))"

definition parse_ipv6 :: "string \<Rightarrow> nat list option" where
  "parse_ipv6 s =
     (let (head, head_v4, r) = read_groups 8 False s in
      if length head = 8 then (if r = [] then Some head else None)
      else if head_v4 then None
      else Option.bind (read_given_char (CHR '':'') r) (\<lambda>r. Option.bind (read_given_char (CHR '':'') r) (\<lambda>r.
        let (tail, _, r') = read_groups (8 - (length head + 1)) False r in
        if r' = [] then Some (head @ replicate (8 - length head - length tail) 0 @ tail) else None)))"

section \<open>Lemmas\<close>

lemma byte_of_less [simp]: "byte_of c < 256"
  by (simp add: byte_of_def)

lemma byte_of_nibbles [simp]: "byte_of c div 16 < 16"
  using byte_of_less [of c] by linarith

lemma char_of_byte_of [simp]: "char_of (byte_of c) = c"
  by (simp add: byte_of_def)

lemma byte_of_char_of [simp]: "n < 256 \<Longrightarrow> byte_of (char_of n) = n"
  by (simp add: byte_of_def)

lemma of_bytes_as_bytes [simp]: "of_bytes (as_bytes s) = s"
  by (induction s) (simp_all add: as_bytes_def of_bytes_def unat_of_nat)

lemma as_bytes_of_bytes [simp]: "as_bytes (of_bytes bs) = bs"
proof (induction bs)
  case (Cons b bs)
  have "unat b < 256" using unsigned_less [of b] by simp
  with Cons show ?case by (simp add: as_bytes_def of_bytes_def)
qed (simp add: as_bytes_def of_bytes_def)

lemma length_as_bytes [simp]: "length (as_bytes s) = length s"
  by (simp add: as_bytes_def)

lemma as_bytes_inject [simp]: "as_bytes a = as_bytes b \<longleftrightarrow> a = b"
  by (metis of_bytes_as_bytes)

lemma as_bytes_append [simp]: "as_bytes (a @ b) = as_bytes a @ as_bytes b"
  by (simp add: as_bytes_def)

lemma find_char_None: "find_char c s = None \<longleftrightarrow> c \<notin> set s"
  by (induction s) auto

lemma find_char_Some:
  "find_char c s = Some i \<Longrightarrow> i < length s \<and> s ! i = c \<and> c \<notin> set (take i s)"
  by (induction s arbitrary: i) (auto split: if_splits)

lemma find_char_append: "c \<notin> set a \<Longrightarrow> find_char c (a @ c # b) = Some (length a)"
  by (induction a) auto

lemma rfind_char_None: "rfind_char c s = None \<longleftrightarrow> c \<notin> set s"
  by (induction s) (auto split: option.splits)

lemma rfind_char_Some:
  "rfind_char c s = Some i \<Longrightarrow> i < length s \<and> s ! i = c \<and> c \<notin> set (drop (Suc i) s)"
proof (induction s arbitrary: i)
  case (Cons x s)
  then show ?case
    by (auto split: option.splits if_splits simp: rfind_char_None)
qed simp

lemma split_once_Some:
  assumes "split_once c s = Some (a, b)"
  shows "s = a @ c # b \<and> c \<notin> set a"
proof -
  obtain i where i: "find_char c s = Some i" and ab: "a = take i s" "b = drop (Suc i) s"
    using assms by (auto simp: split_once_def split: option.splits)
  from find_char_Some [OF i] have "i < length s" "s ! i = c" "c \<notin> set (take i s)" by auto
  then show ?thesis using ab by (metis id_take_nth_drop)
qed

lemma split_once_append: "c \<notin> set a \<Longrightarrow> split_once c (a @ c # b) = Some (a, b)"
  by (simp add: split_once_def find_char_append)

lemma split_once_None: "split_once c s = None \<longleftrightarrow> c \<notin> set s"
  by (simp add: split_once_def flip: find_char_None split: option.splits)

lemma rsplit_once_Some:
  assumes "rsplit_once c s = Some (a, b)"
  shows "s = a @ c # b \<and> c \<notin> set b"
proof -
  obtain i where i: "rfind_char c s = Some i" and ab: "a = take i s" "b = drop (Suc i) s"
    using assms by (auto simp: rsplit_once_def split: option.splits)
  from rfind_char_Some [OF i] have "i < length s" "s ! i = c" "c \<notin> set (drop (Suc i) s)" by auto
  then show ?thesis using ab by (metis id_take_nth_drop)
qed

lemma starts_with_iff: "starts_with s p \<longleftrightarrow> (\<exists>t. s = p @ t)"
  by (induction s p rule: starts_with.induct) auto

lemma ends_with_iff: "ends_with s p \<longleftrightarrow> (\<exists>t. s = t @ p)"
  unfolding ends_with_def starts_with_iff
  by (metis rev_append rev_rev_ident)

lemma starts_with_append [simp]: "starts_with (p @ t) p"
  by (auto simp: starts_with_iff)

lemma strip_prefix_Some: "strip_prefix p s = Some t \<longleftrightarrow> s = p @ t"
  by (auto simp: strip_prefix_def starts_with_iff)

lemma split_by_nonempty [simp]: "split_by p s \<noteq> []"
  by (induction s) (auto split: list.splits)

lemma split_by_no_sep: "w \<in> set (split_by p s) \<Longrightarrow> c \<in> set w \<Longrightarrow> \<not> p c"
proof (induction s arbitrary: w)
  case (Cons x s)
  then show ?case
    by (cases "split_by p s") (fastforce split: if_splits)+
qed simp

lemma set_split_by: "w \<in> set (split_by p s) \<Longrightarrow> set w \<subseteq> set s"
proof (induction s arbitrary: w)
  case (Cons x s)
  then show ?case
    by (cases "split_by p s") (fastforce split: if_splits)+
qed simp

lemma concat_split_char:
  "concat (map (\<lambda>w. c # w) (split_char c s)) = c # s"
proof (induction s)
  case (Cons x s)
  then show ?case by (cases "split_char c s") auto
qed simp

lemma set_trim_start: "set (trim_start s) \<subseteq> set s"
  by (induction s rule: trim_start.induct) auto

lemma set_trim_end_rev: "set (trim_end_rev s) \<subseteq> set s"
  by (induction s rule: trim_end_rev.induct) auto

lemma set_trim: "set (trim s) \<subseteq> set s"
  unfolding trim_def trim_end_def using set_trim_start set_trim_end_rev by fastforce

text \<open>Text of printable ASCII without spaces is not changed by \<open>trim\<close>.\<close>

definition graphic :: "char \<Rightarrow> bool" where
  "graphic c \<longleftrightarrow> 32 < byte_of c \<and> byte_of c < 127"

lemma trim_start_graphic: "graphic c \<Longrightarrow> trim_start (c # s) = c # s"
  by (cases "c # s" rule: trim_start.cases)
     (auto simp: graphic_def is_ws1_def is_ws2_def is_ws3_def)

lemma trim_end_rev_graphic: "graphic c \<Longrightarrow> trim_end_rev (c # s) = c # s"
  by (cases "c # s" rule: trim_end_rev.cases)
     (auto simp: graphic_def is_ws1_def is_ws2_def is_ws3_def)

lemma trim_graphic: "graphic (hd s) \<Longrightarrow> graphic (last s) \<Longrightarrow> trim s = s"
proof (cases s rule: rev_cases)
  case Nil
  then show ?thesis by (simp add: trim_def trim_end_def)
next
  case (snoc ys y)
  assume g: "graphic (hd s)" "graphic (last s)"
  from g(1) snoc have "trim_start s = s" by (metis append_is_Nil_conv list.collapse not_Cons_self2 trim_start_graphic)
  moreover from g(2) snoc have "trim_end s = s" by (simp add: trim_end_def trim_end_rev_graphic)
  ultimately show ?thesis by (simp add: trim_def)
qed

lemma trim_all_graphic: "list_all graphic s \<Longrightarrow> trim s = s"
  by (cases "s = []") (auto simp: trim_def trim_end_def list_all_iff intro: trim_graphic [unfolded trim_def trim_end_def])

lemma length_trim_start: "length (trim_start s) \<le> length s"
  by (induction s rule: trim_start.induct) auto

lemma to_digit16_bound: "to_digit16 c = Some n \<Longrightarrow> n < 16"
  by (auto simp: to_digit16_def is_ascii_digit_def split: if_splits)

lemma to_digit16_upper [simp]: "n < 16 \<Longrightarrow> to_digit16 (upper_hex_digit n) = Some n"
  by (auto simp: to_digit16_def upper_hex_digit_def is_ascii_digit_def)

lemma to_digit16_lower [simp]: "n < 16 \<Longrightarrow> to_digit16 (lower_hex_digit n) = Some n"
  by (auto simp: to_digit16_def lower_hex_digit_def is_ascii_digit_def)

lemma digits_value_append:
  "digits_value acc (a @ b) = (case digits_value acc a of None \<Rightarrow> None | Some v \<Rightarrow> digits_value v b)"
  by (induction a arbitrary: acc) auto

lemma show_nat_digits: "digits_value 0 (show_nat n) = Some n \<and> show_nat n \<noteq> []"
proof (induction n rule: show_nat.induct)
  case (1 n)
  show ?case
  proof (cases "n < 10")
    case True
    then show ?thesis by (simp add: show_nat.simps [of n] is_ascii_digit_def)
  next
    case False
    with "1" have "digits_value 0 (show_nat (n div 10)) = Some (n div 10)" by simp
    moreover have "n mod 10 < 10" by simp
    ultimately show ?thesis using False
      by (simp add: show_nat.simps [of n] digits_value_append is_ascii_digit_def)
  qed
qed

lemma length_show_nat: "n < 10 ^ k \<Longrightarrow> 0 < k \<Longrightarrow> length (show_nat n) \<le> k"
proof (induction n arbitrary: k rule: show_nat.induct)
  case (1 n)
  show ?case
  proof (cases "n < 10")
    case True
    with "1.prems" show ?thesis by (simp add: show_nat.simps [of n])
  next
    case False
    obtain j where k: "k = Suc j" using "1.prems"(2) by (cases k) auto
    have "0 < j" using False "1.prems"(1) k by (cases j) auto
    moreover have "n div 10 < 10 ^ j" using "1.prems"(1) k by (simp add: less_mult_imp_div_less mult.commute)
    ultimately show ?thesis using "1.IH" [OF False] False k by (simp add: show_nat.simps [of n])
  qed
qed

lemma show_nat_all_digits: "list_all is_ascii_digit (show_nat n)"
proof (induction n rule: show_nat.induct)
  case (1 n)
  have "is_ascii_digit (char_of (d + 48))" if "d < 10" for d :: nat
    using that by (simp add: is_ascii_digit_def)
  with 1 show ?case by (cases "n < 10") (simp_all add: show_nat.simps [of n])
qed

lemma valid_utf8_Nil [simp]: "valid_utf8 []"
  by (simp add: valid_utf8.simps)

lemma valid_utf8_step:
  "utf8_head bs = Some n \<Longrightarrow> valid_utf8 bs = valid_utf8 (drop n bs)"
  by (subst valid_utf8.simps) auto

lemma from_utf8_as_bytes: "valid_utf8 (as_bytes s) \<Longrightarrow> from_utf8 (as_bytes s) = Some s"
  by (simp add: from_utf8_def)

lemma valid_utf8_ascii: "\<forall>b \<in> set bs. b < 0x80 \<Longrightarrow> valid_utf8 bs"
proof (induction bs)
  case (Cons b bs)
  then have "utf8_head (b # bs) = Some 1" by simp
  with Cons show ?case by (simp add: valid_utf8_step)
qed simp

lemma valid_utf8_is_ascii: "is_ascii s \<Longrightarrow> valid_utf8 (as_bytes s)"
  by (rule valid_utf8_ascii) (auto simp: is_ascii_def list_all_iff as_bytes_def word_less_nat_alt unat_of_nat)

lemma split_char_sep: "c \<notin> set w \<Longrightarrow> split_char c (w @ c # s) = w # split_char c s"
  by (induction w) auto

lemma split_char_none: "c \<notin> set w \<Longrightarrow> split_char c w = [w]"
  by (induction w) auto

lemma join_char_Cons: "ws \<noteq> [] \<Longrightarrow> join_char c (w # ws) = w @ c # join_char c ws"
  by (cases ws) auto

lemma join_char_snoc: "ws \<noteq> [] \<Longrightarrow> join_char c (ws @ [w]) = join_char c ws @ c # w"
  by (induction c ws rule: join_char.induct) (auto simp: join_char_Cons)

lemma split_join_char:
  "ws \<noteq> [] \<Longrightarrow> \<forall>w \<in> set ws. c \<notin> set w \<Longrightarrow> split_char c (join_char c ws) = ws"
  by (induction c ws rule: join_char.induct) (auto simp: split_char_sep split_char_none)

lemma join_char_eq_Nil: "join_char c ws = [] \<longleftrightarrow> ws = [] \<or> ws = [[]]"
  by (induction c ws rule: join_char.induct) auto

lemma rfind_char_append: "c \<notin> set b \<Longrightarrow> rfind_char c (a @ c # b) = Some (length a)"
proof (induction a)
  case Nil
  then show ?case by (simp add: rfind_char_None [THEN iffD2])
qed simp

lemma set_utf8_lossy: "set (utf8_lossy_bytes bs) \<subseteq> set bs \<union> {0xEF, 0xBF, 0xBD}"
proof (induction bs rule: utf8_lossy_bytes.induct)
  case (1 bs)
  show ?case
  proof (cases "bs = []")
    case True
    then show ?thesis by (simp add: utf8_lossy_bytes.simps)
  next
    case ne: False
    show ?thesis
    proof (cases "utf8_head bs")
      case None
      with "1.IH"(1) [OF ne None] ne show ?thesis
        by (subst utf8_lossy_bytes.simps) (auto dest: in_set_dropD)
    next
      case (Some n)
      with "1.IH"(2) [OF ne Some] ne show ?thesis
        by (subst utf8_lossy_bytes.simps) (auto dest: in_set_dropD in_set_takeD)
    qed
  qed
qed

lemma from_utf8_lossy_chars:
  assumes "c \<in> set (from_utf8_lossy s)"
  shows "c \<in> set s \<or> 128 \<le> byte_of c"
proof -
  obtain b where b: "b \<in> set (utf8_lossy_bytes (as_bytes s))" "c = char_of (unat b)"
    using assms by (auto simp: from_utf8_lossy_def of_bytes_def)
  from b(1) set_utf8_lossy [of "as_bytes s"] have "b \<in> set (as_bytes s) \<or> b \<in> {0xEF, 0xBF, 0xBD}" by blast
  then show ?thesis
  proof
    assume "b \<in> set (as_bytes s)"
    then obtain d where "d \<in> set s" "b = word_of_nat (byte_of d)" by (auto simp: as_bytes_def)
    with b(2) show ?thesis by (simp add: unat_of_nat)
  qed (use b(2) in auto)
qed

lemma unat_word_of_nat8: "unat (word_of_nat n :: u8) = n mod 256"
  by (simp add: unat_of_nat)

lemma length_u32_bytes [simp]: "length (u32_to_le_bytes n) = 4" "length (be_bytes4 n) = 4"
  by (simp_all add: u32_to_le_bytes_def be_bytes4_def)

lemma le_bytes_round_trip: "u32_from_le_bytes (u32_to_le_bytes n) = n mod 2 ^ 32"
proof -
  have split: "n mod (256 * m) = n mod 256 + 256 * (n div 256 mod m)" for n m :: nat
    by (simp add: mod_mult2_eq)
  have "n mod 4294967296 = n mod (256 * (256 * (256 * 256)))" by simp
  also have "\<dots> = n mod 256 + 256 * (n div 256 mod 256 + 256 * (n div 65536 mod 256 + 256 * (n div 16777216 mod 256)))"
    unfolding split by (simp add: div_mult2_eq [symmetric])
  finally show ?thesis by (simp add: u32_from_le_bytes_def u32_to_le_bytes_def unat_word_of_nat8)
qed

lemma be_number_append: "be_number (xs @ [x]) = 256 * be_number xs + unat x"
  by (simp add: be_number_def)

lemma be_number_rev: "be_number (rev bs) = u32_from_le_bytes bs"
  by (induction bs) (simp_all add: be_number_append, simp_all add: u32_from_le_bytes_def be_number_def)

lemma be_bytes_number: "be_number (be_bytes4 n) = n mod 2 ^ 32"
  by (simp add: be_bytes4_def be_number_rev le_bytes_round_trip)

lemma be_number_zero: "be_number (0 # bs) = be_number bs"
  by (simp add: be_number_def)

lemma u32_from_le_bound: "u32_from_le_bytes bs < 256 ^ length bs"
proof (induction bs)
  case (Cons b bs)
  have "unat b < 256" using unsigned_less [of b] by simp
  with Cons show ?case by (simp add: u32_from_le_bytes_def)
qed (simp add: u32_from_le_bytes_def)

end
