(* ===== verification/Request_Cancellation.thy ===== *)
theory Request_Cancellation
  imports BTree_Map Rust_Text
begin

text \<open>
  Request cancellation (\<open>crates/core/src/cancellation.rs\<close>): a registry of reference-counted
  entries and the leases handed out to requests. The cancellation flag of an entry is an
  \<open>Arc<AtomicBool>\<close> that every lease of the entry shares and that outlives the entry, so flags
  live in an explicit store \<open>reg_flags\<close> and an \<open>Arc\<close> is an index into it. Every operation runs
  under the registry lock and is therefore one atomic step; \<open>notify\<close> runs after the lock is
  released and only touches the observed threads.
\<close>

section \<open>State\<close>

datatype cancellation_domain = Download | ExtensionRequest

datatype cancellation_error =
  DownloadCancelled | ExtensionRequestCancelled | RegistryClosed | LeaseReleased

record cxl_entry =
  ce_cancelled :: nat
  ce_references :: nat

record request_lease =
  lease_id :: string
  lease_domain :: cancellation_domain
  lease_cancelled :: nat
  lease_released :: bool

text \<open>
  \<open>reg_leases\<close> lists every lease ever handed out; a lease is referred to by its position.
  \<open>reg_threads\<close> are the weak thread handles of \<open>Shared::threads\<close>, \<open>reg_unparked\<close> logs the
  \<open>unpark\<close> calls and \<open>reg_notified\<close> counts the condition-variable broadcasts.
\<close>

record cxl_registry =
  reg_domain :: cancellation_domain
  reg_closed :: bool
  reg_entries :: "(string, cxl_entry) btmap"
  reg_flags :: "bool list"
  reg_leases :: "request_lease list"
  reg_threads :: "nat list"
  reg_unparked :: "nat list"
  reg_notified :: nat

definition registry_new :: "cancellation_domain \<Rightarrow> cxl_registry" where
  "registry_new d =
     \<lparr>reg_domain = d, reg_closed = False, reg_entries = bt_empty, reg_flags = [],
      reg_leases = [], reg_threads = [], reg_unparked = [], reg_notified = 0\<rparr>"

section \<open>Registry operations\<close>

definition check_open :: "cxl_registry \<Rightarrow> (cancellation_error, unit) result" where
  "check_open r = (if reg_closed r then Inl RegistryClosed else Inr ())"

text \<open>\<open>alive\<close> tells which weak handles still upgrade; the dead ones are dropped.\<close>

definition notify :: "(nat \<Rightarrow> bool) \<Rightarrow> cxl_registry \<Rightarrow> cxl_registry" where
  "notify alive r = r\<lparr>reg_notified := reg_notified r + 1,
     reg_unparked := reg_unparked r @ filter alive (reg_threads r),
     reg_threads := filter alive (reg_threads r)\<rparr>"

definition observe_thread :: "(nat \<Rightarrow> bool) \<Rightarrow> nat \<Rightarrow> cxl_registry \<Rightarrow> cxl_registry" where
  "observe_thread alive t r = r\<lparr>reg_threads := filter alive (reg_threads r) @ [t]\<rparr>"

text \<open>\<open>entries.entry(rid).or_default()\<close>: a fresh entry has a fresh flag and no reference.\<close>

definition entry_or_default :: "string \<Rightarrow> cxl_registry \<Rightarrow> cxl_entry \<times> cxl_registry" where
  "entry_or_default rid r =
     (case bt_get (reg_entries r) rid of
        Some e \<Rightarrow> (e, r)
      | None \<Rightarrow>
          (let e = \<lparr>ce_cancelled = length (reg_flags r), ce_references = 0\<rparr> in
           (e, r\<lparr>reg_flags := reg_flags r @ [False],
                reg_entries := bt_insert rid e (reg_entries r)\<rparr>)))"

definition hand_out :: "string \<Rightarrow> nat \<Rightarrow> cxl_registry \<Rightarrow> cxl_registry" where
  "hand_out rid flag r = r\<lparr>reg_leases := reg_leases r @
     [\<lparr>lease_id = rid, lease_domain = reg_domain r, lease_cancelled = flag,
       lease_released = False\<rparr>]\<rparr>"

definition acquire :: "string \<Rightarrow> cxl_registry \<Rightarrow> (cancellation_error, nat) result \<times> cxl_registry" where
  "acquire rid r =
     (if reg_closed r then (Inl RegistryClosed, r)
      else if rid = [] then
        (Inr (length (reg_leases r)),
         hand_out rid (length (reg_flags r)) (r\<lparr>reg_flags := reg_flags r @ [False]\<rparr>))
      else
        (let (e, r1) = entry_or_default rid r;
             e' = e\<lparr>ce_references := ce_references e + 1\<rparr>;
             r2 = r1\<lparr>reg_entries := bt_insert rid e' (reg_entries r1)\<rparr>
         in (Inr (length (reg_leases r)), hand_out rid (ce_cancelled e) r2)))"

definition set_cancelled :: "string \<Rightarrow> cxl_registry \<Rightarrow> cxl_registry" where
  "set_cancelled rid r =
     (let (e, r1) = entry_or_default rid r
      in r1\<lparr>reg_flags := (reg_flags r1)[ce_cancelled e := True]\<rparr>)"

definition cancel_many ::
  "(nat \<Rightarrow> bool) \<Rightarrow> string list \<Rightarrow> cxl_registry \<Rightarrow> (cancellation_error, unit) result \<times> cxl_registry" where
  "cancel_many alive rids r =
     (if reg_closed r then (Inl RegistryClosed, r)
      else
        (let named = filter (\<lambda>rid. rid \<noteq> []) rids;
             r1 = fold set_cancelled named r
         in (Inr (), if named \<noteq> [] then notify alive r1 else r1)))"

definition cancel ::
  "(nat \<Rightarrow> bool) \<Rightarrow> string \<Rightarrow> cxl_registry \<Rightarrow> (cancellation_error, unit) result \<times> cxl_registry" where
  "cancel alive rid r = cancel_many alive [rid] r"

definition cancel_active ::
  "(nat \<Rightarrow> bool) \<Rightarrow> cxl_registry \<Rightarrow> (cancellation_error, string list) result \<times> cxl_registry" where
  "cancel_active alive r =
     (if reg_closed r then (Inl RegistryClosed, r)
      else
        (let active = filter (\<lambda>(_, e). ce_references e > 0) (reg_entries r);
             r1 = r\<lparr>reg_flags := fold (\<lambda>(_, e) fs. fs[ce_cancelled e := True]) active (reg_flags r)\<rparr>
         in (Inr (map fst active), notify alive r1)))"

definition registry_is_cancelled :: "string \<Rightarrow> cxl_registry \<Rightarrow> (cancellation_error, bool) result" where
  "registry_is_cancelled rid r =
     (if reg_closed r then Inl RegistryClosed
      else Inr (case bt_get (reg_entries r) rid of
                  None \<Rightarrow> False | Some e \<Rightarrow> reg_flags r ! ce_cancelled e))"

definition drop_idle :: "string \<Rightarrow> cxl_registry \<Rightarrow> cxl_registry" where
  "drop_idle rid r =
     (case bt_get (reg_entries r) rid of
        Some e \<Rightarrow> if ce_references e = 0 then r\<lparr>reg_entries := bt_remove rid (reg_entries r)\<rparr> else r
      | None \<Rightarrow> r)"

definition reset_many_if_idle ::
  "string list \<Rightarrow> cxl_registry \<Rightarrow> (cancellation_error, unit) result \<times> cxl_registry" where
  "reset_many_if_idle rids r =
     (if reg_closed r then (Inl RegistryClosed, r) else (Inr (), fold drop_idle rids r))"

definition reset_if_idle ::
  "string \<Rightarrow> cxl_registry \<Rightarrow> (cancellation_error, unit) result \<times> cxl_registry" where
  "reset_if_idle rid r = reset_many_if_idle [rid] r"

definition shutdown :: "(nat \<Rightarrow> bool) \<Rightarrow> cxl_registry \<Rightarrow> cxl_registry" where
  "shutdown alive r = notify alive (r\<lparr>reg_closed := True, reg_entries := bt_empty\<rparr>)"

section \<open>Lease operations\<close>

definition active_request_cancelled :: "request_lease \<Rightarrow> cxl_registry \<Rightarrow> bool" where
  "active_request_cancelled l r =
     (if lease_domain l \<noteq> ExtensionRequest \<or> trim (lease_id l) = [] then False
      else case bt_get (reg_entries r) (trim (lease_id l)) of
             None \<Rightarrow> False | Some e \<Rightarrow> reg_flags r ! ce_cancelled e)"

definition check_live :: "request_lease \<Rightarrow> cxl_registry \<Rightarrow> (cancellation_error, unit) result" where
  "check_live l r =
     try_bind (check_open r) (\<lambda>_. if lease_released l then Inl LeaseReleased else Inr ())"

definition lease_is_cancelled :: "request_lease \<Rightarrow> cxl_registry \<Rightarrow> (cancellation_error, bool) result" where
  "lease_is_cancelled l r = try_bind (check_live l r) (\<lambda>_. Inr (reg_flags r ! lease_cancelled l))"

definition check_active :: "request_lease \<Rightarrow> cxl_registry \<Rightarrow> (cancellation_error, unit) result" where
  "check_active l r =
     try_bind (lease_is_cancelled l r) (\<lambda>c.
       if c then Inl (case lease_domain l of
                        Download \<Rightarrow> DownloadCancelled
                      | ExtensionRequest \<Rightarrow> ExtensionRequestCancelled)
       else Inr ())"

text \<open>\<open>references -= 1\<close> on a \<open>usize\<close> wraps below zero, which the invariant excludes.\<close>

definition release :: "(nat \<Rightarrow> bool) \<Rightarrow> nat \<Rightarrow> cxl_registry \<Rightarrow> cxl_registry" where
  "release alive i r =
     (let l = reg_leases r ! i in
      if lease_released l then r
      else
        (let r1 = r\<lparr>reg_leases := (reg_leases r)[i := l\<lparr>lease_released := True\<rparr>]\<rparr>;
             r2 = (case bt_get (reg_entries r1) (lease_id l) of
                     None \<Rightarrow> r1
                   | Some e \<Rightarrow>
                       (let n = usize_dec (ce_references e) in
                        r1\<lparr>reg_entries :=
                          (if n = 0 then bt_remove (lease_id l) (reg_entries r1)
                           else bt_insert (lease_id l) (e\<lparr>ce_references := n\<rparr>) (reg_entries r1))\<rparr>))
         in notify alive r2))"

definition wait_timeout :: "int \<Rightarrow> nat" where
  "wait_timeout timeout_ms = (if timeout_ms \<le> 0 then 15000 else nat (min timeout_ms 60000))"

text \<open>
  The wait loop sees the registry once per wake-up. \<open>obs\<close> lists what it sees: the lease and the
  registry under the lock, and the milliseconds elapsed since the call. \<open>None\<close>: still blocked
  when the observations end.
\<close>

fun wait_cancelled ::
  "int \<Rightarrow> (request_lease \<times> cxl_registry \<times> nat) list \<Rightarrow> (cancellation_error, bool) result option" where
  "wait_cancelled timeout_ms [] = None"
| "wait_cancelled timeout_ms ((l, r, elapsed) # obs) =
     (case check_live l r of
        Inl e \<Rightarrow> Some (Inl e)
      | Inr _ \<Rightarrow>
          if reg_flags r ! lease_cancelled l then Some (Inr True)
          else if wait_timeout timeout_ms - elapsed = 0 then Some (Inr False)
          else wait_cancelled timeout_ms obs)"

section \<open>The registry as a transition system\<close>

inductive registry_step :: "cxl_registry \<Rightarrow> cxl_registry \<Rightarrow> bool" where
  step_acquire: "registry_step r (snd (acquire rid r))"
| step_cancel: "registry_step r (snd (cancel_many alive rids r))"
| step_cancel_active: "registry_step r (snd (cancel_active alive r))"
| step_reset: "registry_step r (snd (reset_many_if_idle rids r))"
| step_release: "i < length (reg_leases r) \<Longrightarrow> registry_step r (release alive i r)"
| step_observe: "registry_step r (observe_thread alive t r)"
| step_shutdown: "registry_step r (shutdown alive r)"

definition live_leases :: "string \<Rightarrow> cxl_registry \<Rightarrow> request_lease list" where
  "live_leases rid r = filter (\<lambda>l. \<not> lease_released l \<and> lease_id l = rid) (reg_leases r)"

text \<open>
  The invariant. A tracked entry counts exactly the live leases of its ID; a live lease of an
  open registry shares the flag of its entry; flags are never shared between different IDs.
\<close>

definition registry_inv :: "cxl_registry \<Rightarrow> bool" where
  "registry_inv r \<longleftrightarrow>
     bt_wf (reg_entries r) \<and>
     (reg_closed r \<longrightarrow> reg_entries r = bt_empty) \<and>
     bt_get (reg_entries r) [] = None \<and>
     (\<forall>rid e. bt_get (reg_entries r) rid = Some e \<longrightarrow>
        ce_cancelled e < length (reg_flags r) \<and>
        ce_references e = length (live_leases rid r)) \<and>
     (\<forall>l \<in> set (reg_leases r). lease_cancelled l < length (reg_flags r) \<and> lease_domain l = reg_domain r) \<and>
     (\<not> reg_closed r \<longrightarrow>
        (\<forall>l \<in> set (reg_leases r). \<not> lease_released l \<and> lease_id l \<noteq> [] \<longrightarrow>
           (\<exists>e. bt_get (reg_entries r) (lease_id l) = Some e \<and> ce_cancelled e = lease_cancelled l))) \<and>
     (\<forall>rid e rid' e'. bt_get (reg_entries r) rid = Some e \<and> bt_get (reg_entries r) rid' = Some e' \<and>
        ce_cancelled e = ce_cancelled e' \<longrightarrow> rid = rid') \<and>
     (\<forall>l \<in> set (reg_leases r). \<forall>rid e. bt_get (reg_entries r) rid = Some e \<and>
        ce_cancelled e = lease_cancelled l \<longrightarrow> lease_id l = rid)"


section \<open>The invariant is kept\<close>

lemma registry_inv_cong:
  assumes "registry_inv r"
    and "reg_entries r' = reg_entries r" "reg_leases r' = reg_leases r" "reg_domain r' = reg_domain r"
    and "reg_closed r' = reg_closed r" "length (reg_flags r') = length (reg_flags r)"
  shows "registry_inv r'"
  using assms(1) unfolding registry_inv_def live_leases_def assms(2-) .

lemma notify_frame [frame_simps, simp]:
  "reg_entries (notify alive r) = reg_entries r"
  "reg_leases (notify alive r) = reg_leases r"
  "reg_domain (notify alive r) = reg_domain r"
  "reg_closed (notify alive r) = reg_closed r"
  "reg_flags (notify alive r) = reg_flags r"
  by (simp_all add: notify_def)

lemma notify_inv [step_inv]: "registry_inv r \<Longrightarrow> registry_inv (notify alive r)"
  by (rule registry_inv_cong) simp_all

lemma observe_inv [step_inv]: "registry_inv r \<Longrightarrow> registry_inv (observe_thread alive t r)"
  by (rule registry_inv_cong) (simp_all add: observe_thread_def)

lemma registry_new_inv: "registry_inv (registry_new d)"
  by (simp add: registry_inv_def registry_new_def live_leases_def bt.get_empty)

lemma shutdown_inv [step_inv]: "registry_inv r \<Longrightarrow> registry_inv (shutdown alive r)"
  unfolding shutdown_def
  by (rule notify_inv) (simp add: registry_inv_def live_leases_def bt.get_empty)

lemma live_leases_frame [simp]:
  "live_leases rid (r\<lparr>reg_flags := fs\<rparr>) = live_leases rid r"
  "live_leases rid (r\<lparr>reg_entries := es\<rparr>) = live_leases rid r"
  "live_leases rid (r\<lparr>reg_flags := fs, reg_entries := es\<rparr>) = live_leases rid r"
  by (simp_all add: live_leases_def)

lemma registry_invD:
  assumes "registry_inv r"
  shows "bt_wf (reg_entries r)"
    and "bt_get (reg_entries r) [] = None"
    and "bt_get (reg_entries r) rid = Some e \<Longrightarrow> ce_cancelled e < length (reg_flags r)"
    and "bt_get (reg_entries r) rid = Some e \<Longrightarrow> ce_references e = length (live_leases rid r)"
    and "l \<in> set (reg_leases r) \<Longrightarrow> lease_cancelled l < length (reg_flags r)"
    and "l \<in> set (reg_leases r) \<Longrightarrow> lease_domain l = reg_domain r"
    and "\<not> reg_closed r \<Longrightarrow> l \<in> set (reg_leases r) \<Longrightarrow> \<not> lease_released l \<Longrightarrow> lease_id l \<noteq> [] \<Longrightarrow>
           \<exists>e. bt_get (reg_entries r) (lease_id l) = Some e \<and> ce_cancelled e = lease_cancelled l"
    and "l \<in> set (reg_leases r) \<Longrightarrow> bt_get (reg_entries r) rid = Some e \<Longrightarrow>
           ce_cancelled e = lease_cancelled l \<Longrightarrow> lease_id l = rid"
    and "bt_get (reg_entries r) rid = Some e \<Longrightarrow> bt_get (reg_entries r) rid' = Some e' \<Longrightarrow>
           ce_cancelled e = ce_cancelled e' \<Longrightarrow> rid = rid'"
    and "reg_closed r \<Longrightarrow> reg_entries r = bt_empty"
  using assms unfolding registry_inv_def by blast+

lemma registry_invI:
  assumes "bt_wf (reg_entries r)"
    and "reg_closed r \<Longrightarrow> reg_entries r = bt_empty"
    and "bt_get (reg_entries r) [] = None"
    and "\<And>rid e. bt_get (reg_entries r) rid = Some e \<Longrightarrow>
           ce_cancelled e < length (reg_flags r) \<and> ce_references e = length (live_leases rid r)"
    and "\<And>l. l \<in> set (reg_leases r) \<Longrightarrow>
           lease_cancelled l < length (reg_flags r) \<and> lease_domain l = reg_domain r"
    and "\<And>l. \<not> reg_closed r \<Longrightarrow> l \<in> set (reg_leases r) \<Longrightarrow> \<not> lease_released l \<Longrightarrow> lease_id l \<noteq> [] \<Longrightarrow>
           \<exists>e. bt_get (reg_entries r) (lease_id l) = Some e \<and> ce_cancelled e = lease_cancelled l"
    and "\<And>rid e rid' e'. bt_get (reg_entries r) rid = Some e \<Longrightarrow> bt_get (reg_entries r) rid' = Some e' \<Longrightarrow>
           ce_cancelled e = ce_cancelled e' \<Longrightarrow> rid = rid'"
    and "\<And>l rid e. l \<in> set (reg_leases r) \<Longrightarrow> bt_get (reg_entries r) rid = Some e \<Longrightarrow>
           ce_cancelled e = lease_cancelled l \<Longrightarrow> lease_id l = rid"
  shows "registry_inv r"
  using assms unfolding registry_inv_def by blast

text \<open>An ID without an entry has no live lease in an open registry.\<close>

lemma no_entry_no_live:
  assumes "registry_inv r" "\<not> reg_closed r" "rid \<noteq> []" "bt_get (reg_entries r) rid = None"
  shows "live_leases rid r = []"
  using registry_invD(7) [OF assms(1,2)] assms(3,4)
  by (fastforce simp: live_leases_def filter_empty_conv)

text \<open>Registering a new ID: a fresh flag and an entry without references.\<close>

lemma fresh_entry_inv:
  assumes "registry_inv r" "\<not> reg_closed r" "rid \<noteq> []" and None: "bt_get (reg_entries r) rid = None"
    and e: "e = \<lparr>ce_cancelled = length (reg_flags r), ce_references = 0\<rparr>"
    and r': "r' = r\<lparr>reg_flags := reg_flags r @ [False], reg_entries := bt_insert rid e (reg_entries r)\<rparr>"
  shows "registry_inv r'"
proof -
  note inv = registry_invD [OF assms(1)]
  have live: "live_leases rid r' = []"
    using no_entry_no_live [OF assms(1-3) None] by (simp add: r')
  have get: "bt_get (reg_entries r') x = (if x = rid then Some e else bt_get (reg_entries r) x)" for x
    by (simp add: r' bt_get_insert inv(1))
  show ?thesis
  proof (rule registry_invI)
    show "bt_get (reg_entries r') [] = None" using get assms(3) inv(2) by simp
    show "reg_closed r' \<Longrightarrow> reg_entries r' = bt_empty" using r' assms(2) by simp
    show "bt_wf (reg_entries r')" by (simp add: r' inv(1))
  next
    fix x e'
    assume "bt_get (reg_entries r') x = Some e'"
    then show "ce_cancelled e' < length (reg_flags r') \<and> ce_references e' = length (live_leases x r')"
      using get live inv(3,4) e by (fastforce simp: r' less_Suc_eq split: if_splits)
  next
    fix l assume "l \<in> set (reg_leases r')"
    then show "lease_cancelled l < length (reg_flags r') \<and> lease_domain l = reg_domain r'"
      using inv(5,6) by (fastforce simp: r')
  next
    fix l assume "\<not> reg_closed r'" "l \<in> set (reg_leases r')" "\<not> lease_released l" "lease_id l \<noteq> []"
    then show "\<exists>e. bt_get (reg_entries r') (lease_id l) = Some e \<and> ce_cancelled e = lease_cancelled l"
      using inv(7) None get by (fastforce simp: r')
  next
    fix x e1 y e2
    assume "bt_get (reg_entries r') x = Some e1" "bt_get (reg_entries r') y = Some e2"
      "ce_cancelled e1 = ce_cancelled e2"
    then show "x = y" using get inv(3,9) e by (fastforce split: if_splits)
  next
    fix l x e1
    assume "l \<in> set (reg_leases r')" "bt_get (reg_entries r') x = Some e1" "ce_cancelled e1 = lease_cancelled l"
    then show "lease_id l = x" using get inv(5,8) e by (fastforce simp: r' split: if_splits)
  qed
qed

lemma entry_or_default_frame [frame_simps]:
  assumes "entry_or_default rid r = (e, r')"
  shows "reg_leases r' = reg_leases r" "reg_domain r' = reg_domain r" "reg_closed r' = reg_closed r"
    and "live_leases x r' = live_leases x r"
  using assms by (auto simp: entry_or_default_def Let_def split: option.splits)

lemma entry_or_default_inv:
  assumes "registry_inv r" "\<not> reg_closed r" "rid \<noteq> []" "entry_or_default rid r = (e, r')"
  shows "registry_inv r'" and "bt_get (reg_entries r') rid = Some e"
proof -
  show "registry_inv r'"
    using assms fresh_entry_inv [OF assms(1-3)]
    by (auto simp: entry_or_default_def Let_def split: option.splits)
  show "bt_get (reg_entries r') rid = Some e"
    using assms(4) registry_invD(1) [OF assms(1)]
    by (auto simp: entry_or_default_def Let_def bt_get_insert split: option.splits)
qed

lemma set_flag_inv: "registry_inv r \<Longrightarrow> registry_inv (r\<lparr>reg_flags := (reg_flags r)[i := b]\<rparr>)"
  by (rule registry_inv_cong) simp_all

lemma set_cancelled_inv:
  assumes "registry_inv r" "\<not> reg_closed r" "rid \<noteq> []"
  shows "registry_inv (set_cancelled rid r)" "reg_closed (set_cancelled rid r) = reg_closed r"
    "reg_leases (set_cancelled rid r) = reg_leases r"
proof -
  obtain e r' where er: "entry_or_default rid r = (e, r')" by force
  show "registry_inv (set_cancelled rid r)" "reg_closed (set_cancelled rid r) = reg_closed r"
    "reg_leases (set_cancelled rid r) = reg_leases r"
    using entry_or_default_inv [OF assms er] set_flag_inv entry_or_default_frame [OF er]
    by (simp_all add: set_cancelled_def er)
qed

lemma fold_set_cancelled_inv:
  assumes "registry_inv r" "\<not> reg_closed r" "\<forall>rid \<in> set rids. rid \<noteq> []"
  shows "registry_inv (fold set_cancelled rids r)" "\<not> reg_closed (fold set_cancelled rids r)"
    "reg_leases (fold set_cancelled rids r) = reg_leases r"
proof -
  have "registry_inv (fold set_cancelled rids r) \<and> \<not> reg_closed (fold set_cancelled rids r) \<and>
        reg_leases (fold set_cancelled rids r) = reg_leases r"
    using assms by (induction rids arbitrary: r) (simp_all add: set_cancelled_inv)
  then show "registry_inv (fold set_cancelled rids r)" "\<not> reg_closed (fold set_cancelled rids r)"
    "reg_leases (fold set_cancelled rids r) = reg_leases r" by auto
qed

lemma cancel_many_inv [step_inv]: "registry_inv r \<Longrightarrow> registry_inv (snd (cancel_many alive rids r))"
  by (cases "reg_closed r")
     (simp_all add: cancel_many_def Let_def fold_set_cancelled_inv notify_inv)

lemma fold_set_flags_length:
  "length (fold (\<lambda>(_, e) fs. fs[ce_cancelled e := True]) es fs) = length fs"
  by (induction es arbitrary: fs) auto

lemma cancel_active_inv [step_inv]: "registry_inv r \<Longrightarrow> registry_inv (snd (cancel_active alive r))"
  by (rule registry_inv_cong [of r])
     (simp_all add: cancel_active_def Let_def fold_set_flags_length)

lemma drop_idle_inv: "registry_inv r \<Longrightarrow> registry_inv (drop_idle rid r)"
proof (cases "\<exists>e. bt_get (reg_entries r) rid = Some e \<and> ce_references e = 0")
  case False
  then have "drop_idle rid r = r" by (auto simp: drop_idle_def split: option.splits)
  then show "registry_inv r \<Longrightarrow> ?thesis" by simp
next
  case True
  assume inv: "registry_inv r"
  note D = registry_invD [OF inv]
  let ?r' = "r\<lparr>reg_entries := bt_remove rid (reg_entries r)\<rparr>"
  from True D(4) have live: "live_leases rid r = []" by auto
  then have idle: "l \<in> set (reg_leases r) \<Longrightarrow> \<not> lease_released l \<Longrightarrow> lease_id l \<noteq> rid" for l
    by (auto simp: live_leases_def filter_empty_conv)
  have "registry_inv ?r'"
  proof (rule registry_invI)
    show "reg_closed ?r' \<Longrightarrow> reg_entries ?r' = bt_empty"
      using D(10) by (simp add: bt_remove_def bt_empty_def)
    fix l assume "\<not> reg_closed ?r'" "l \<in> set (reg_leases ?r')" "\<not> lease_released l" "lease_id l \<noteq> []"
    then show "\<exists>e. bt_get (reg_entries ?r') (lease_id l) = Some e \<and> ce_cancelled e = lease_cancelled l"
      using D(7) idle by (simp add: bt_get_remove)
  next
    fix x e1 y e2
    assume "bt_get (reg_entries ?r') x = Some e1" "bt_get (reg_entries ?r') y = Some e2"
      "ce_cancelled e1 = ce_cancelled e2"
    then show "x = y" using D(9) [of x e1 y e2] by (simp add: bt_get_remove split: if_splits)
  next
    fix l x e1
    assume "l \<in> set (reg_leases ?r')" "bt_get (reg_entries ?r') x = Some e1" "ce_cancelled e1 = lease_cancelled l"
    then show "lease_id l = x" using D(8) [of l x e1] by (simp add: bt_get_remove split: if_splits)
  qed (use D(1-6) in \<open>simp_all add: bt_get_remove split: if_splits\<close>)
  with True show ?thesis by (auto simp: drop_idle_def split: option.splits)
qed

lemma fold_drop_idle_inv: "registry_inv r \<Longrightarrow> registry_inv (fold drop_idle rids r)"
  by (induction rids arbitrary: r) (auto intro: drop_idle_inv)

lemma reset_many_inv [step_inv]: "registry_inv r \<Longrightarrow> registry_inv (snd (reset_many_if_idle rids r))"
  by (simp add: reset_many_if_idle_def fold_drop_idle_inv)


lemma live_leases_hand_out:
  "live_leases x (hand_out rid flag r) =
     live_leases x r @ (if x = rid
       then [\<lparr>lease_id = rid, lease_domain = reg_domain r, lease_cancelled = flag, lease_released = False\<rparr>]
       else [])"
  by (simp add: live_leases_def hand_out_def)

text \<open>Handing out a lease on an entry whose count was raised for it.\<close>

lemma hand_out_inv:
  assumes "registry_inv r" "\<not> reg_closed r" "rid \<noteq> []" and e: "bt_get (reg_entries r) rid = Some e"
    and r': "r' = hand_out rid (ce_cancelled e)
               (r\<lparr>reg_entries := bt_insert rid (e\<lparr>ce_references := ce_references e + 1\<rparr>) (reg_entries r)\<rparr>)"
  shows "registry_inv r'"
proof -
  note D = registry_invD [OF assms(1)]
  let ?e = "e\<lparr>ce_references := ce_references e + 1\<rparr>"
  let ?l = "\<lparr>lease_id = rid, lease_domain = reg_domain r, lease_cancelled = ce_cancelled e, lease_released = False\<rparr>"
  have fields: "reg_leases r' = reg_leases r @ [?l]" "reg_flags r' = reg_flags r"
    "reg_domain r' = reg_domain r" "reg_closed r' = reg_closed r"
    "reg_entries r' = bt_insert rid ?e (reg_entries r)"
    by (simp_all add: r' hand_out_def)
  have get: "bt_get (reg_entries r') x = (if x = rid then Some ?e else bt_get (reg_entries r) x)" for x
    by (simp add: fields bt_get_insert D(1))
  have live: "length (live_leases x r') = length (live_leases x r) + (if x = rid then 1 else 0)" for x
    by (simp add: r' live_leases_hand_out)
  show ?thesis
  proof (rule registry_invI)
    show "bt_get (reg_entries r') [] = None" using get assms(3) D(2) by simp
    show "reg_closed r' \<Longrightarrow> reg_entries r' = bt_empty" using assms(2) by (simp add: fields)
    show "bt_wf (reg_entries r')" by (simp add: fields D(1))
  next
    fix x e' assume "bt_get (reg_entries r') x = Some e'"
    then show "ce_cancelled e' < length (reg_flags r') \<and> ce_references e' = length (live_leases x r')"
      using get live D(3,4) e by (auto simp: fields split: if_splits)
  next
    fix l assume "l \<in> set (reg_leases r')"
    then show "lease_cancelled l < length (reg_flags r') \<and> lease_domain l = reg_domain r'"
      using D(3) [OF e] D(5,6) by (auto simp: fields)
  next
    fix l assume "\<not> reg_closed r'" "l \<in> set (reg_leases r')" "\<not> lease_released l" "lease_id l \<noteq> []"
    then show "\<exists>e. bt_get (reg_entries r') (lease_id l) = Some e \<and> ce_cancelled e = lease_cancelled l"
      using D(7) [of l] e get by (auto simp: fields)
  next
    fix x e1 y e2
    assume "bt_get (reg_entries r') x = Some e1" "bt_get (reg_entries r') y = Some e2"
      "ce_cancelled e1 = ce_cancelled e2"
    then show "x = y" using get D(9) e by (auto split: if_splits)
  next
    fix l x e1
    assume "l \<in> set (reg_leases r')" "bt_get (reg_entries r') x = Some e1" "ce_cancelled e1 = lease_cancelled l"
    then show "lease_id l = x" using get D(8,9) e by (auto simp: fields split: if_splits)
  qed
qed

text \<open>A lease with the empty ID gets a flag of its own and no entry.\<close>

lemma untracked_inv:
  assumes "registry_inv r"
  shows "registry_inv (hand_out [] (length (reg_flags r)) (r\<lparr>reg_flags := reg_flags r @ [False]\<rparr>))"
proof -
  note D = registry_invD [OF assms]
  let ?r = "hand_out [] (length (reg_flags r)) (r\<lparr>reg_flags := reg_flags r @ [False]\<rparr>)"
  have fields: "reg_flags ?r = reg_flags r @ [False]" "reg_entries ?r = reg_entries r"
    "reg_domain ?r = reg_domain r" "reg_closed ?r = reg_closed r"
    "reg_leases ?r = reg_leases r @ [\<lparr>lease_id = [], lease_domain = reg_domain r,
       lease_cancelled = length (reg_flags r), lease_released = False\<rparr>]"
    by (simp_all add: hand_out_def)
  have live: "x \<noteq> [] \<Longrightarrow> live_leases x ?r = live_leases x r" for x
    by (simp add: live_leases_hand_out)
  show ?thesis
  proof (rule registry_invI)
    fix x e assume e: "bt_get (reg_entries ?r) x = Some e"
    then have "x \<noteq> []" using D(2) by (auto simp: fields)
    then show "ce_cancelled e < length (reg_flags ?r) \<and> ce_references e = length (live_leases x ?r)"
      using e D(3,4) live by (fastforce simp: fields)
  next
    fix l x e assume "l \<in> set (reg_leases ?r)" "bt_get (reg_entries ?r) x = Some e" "ce_cancelled e = lease_cancelled l"
    then show "lease_id l = x" using D(3) [of x e] D(8) by (auto simp: fields)
  next
    fix l assume "l \<in> set (reg_leases ?r)"
    then show "lease_cancelled l < length (reg_flags ?r) \<and> lease_domain l = reg_domain ?r"
      using D(5,6) by (fastforce simp: fields)
  next
    fix l assume "\<not> reg_closed ?r" "l \<in> set (reg_leases ?r)" "\<not> lease_released l" "lease_id l \<noteq> []"
    then show "\<exists>e. bt_get (reg_entries ?r) (lease_id l) = Some e \<and> ce_cancelled e = lease_cancelled l"
      using D(7) [of l] by (auto simp: fields)
  qed (use D(1,2,9,10) in \<open>simp_all add: fields\<close>)
qed

lemma acquire_tracked:
  assumes "\<not> reg_closed r" "rid \<noteq> []" "entry_or_default rid r = (e, r1)"
  shows "acquire rid r = (Inr (length (reg_leases r)), hand_out rid (ce_cancelled e)
     (r1\<lparr>reg_entries := bt_insert rid (e\<lparr>ce_references := ce_references e + 1\<rparr>) (reg_entries r1)\<rparr>))"
  using assms by (simp add: acquire_def Let_def)

lemma acquire_inv [step_inv]:
  assumes "registry_inv r"
  shows "registry_inv (snd (acquire rid r))"
proof (cases "reg_closed r \<or> rid = []")
  case True
  with assms show ?thesis by (auto simp: acquire_def untracked_inv)
next
  case False
  obtain e r1 where er: "entry_or_default rid r = (e, r1)" by force
  have "registry_inv r1" "bt_get (reg_entries r1) rid = Some e" "\<not> reg_closed r1"
    using entry_or_default_inv [OF assms _ _ er] entry_or_default_frame [OF er] False by auto
  then show ?thesis
    using hand_out_inv [of r1 rid e] acquire_tracked [OF _ _ er] False by simp
qed


lemma live_leases_release:
  assumes "i < length (reg_leases r)" "l = reg_leases r ! i" "\<not> lease_released l"
    and "reg_leases r' = (reg_leases r)[i := l\<lparr>lease_released := True\<rparr>]"
  shows "length (live_leases x r') + (if x = lease_id l then 1 else 0) = length (live_leases x r)"
proof (cases "x = lease_id l")
  case True
  then show ?thesis
    using assms filter_length_update [of i "reg_leases r" "\<lambda>l. \<not> lease_released l \<and> lease_id l = x"
        "l\<lparr>lease_released := True\<rparr>"]
    by (simp add: live_leases_def)
next
  case False
  then show ?thesis
    using assms filter_length_update_same [of i "reg_leases r" "\<lambda>l. \<not> lease_released l \<and> lease_id l = x"
        "l\<lparr>lease_released := True\<rparr>"]
    by (simp add: live_leases_def)
qed

lemma in_set_released:
  "l' \<in> set (ls[i := (ls ! i)\<lparr>lease_released := True\<rparr>]) \<Longrightarrow> i < length ls \<Longrightarrow>
     \<exists>l \<in> set ls. lease_id l' = lease_id l \<and> lease_cancelled l' = lease_cancelled l \<and>
       lease_domain l' = lease_domain l \<and> (\<not> lease_released l' \<longrightarrow> l' = l)"
  by (auto simp: in_set_conv_nth nth_list_update split: if_splits) (metis nth_mem)+

text \<open>
  What \<open>release\<close> does to the entries, with the count written as a number of live leases: the
  entry of the last live lease goes, every other entry keeps its flag.
\<close>

lemma release_entries:
  assumes "registry_inv r" "i < length (reg_leases r)" "\<not> lease_released (reg_leases r ! i)"
  shows "bt_wf (reg_entries (release alive i r))"
    and "bt_get (reg_entries (release alive i r)) x =
      (case bt_get (reg_entries r) x of
         None \<Rightarrow> None
       | Some e \<Rightarrow> if x \<noteq> lease_id (reg_leases r ! i) then Some e
                   else if ce_references e = 1 then None
                   else Some (e\<lparr>ce_references := ce_references e - 1\<rparr>))"
proof -
  note D = registry_invD [OF assms(1)]
  let ?l = "reg_leases r ! i"
  have "?l \<in> set (live_leases (lease_id ?l) r)"
    using assms by (auto simp: live_leases_def)
  then have pos: "bt_get (reg_entries r) (lease_id ?l) = Some e \<Longrightarrow> 0 < ce_references e" for e
    using D(4) by (metis length_pos_if_in_set)
  show "bt_wf (reg_entries (release alive i r))"
    using D(1) by (simp add: release_def Let_def split: option.splits)
  show "bt_get (reg_entries (release alive i r)) x =
      (case bt_get (reg_entries r) x of
         None \<Rightarrow> None
       | Some e \<Rightarrow> if x \<noteq> lease_id (reg_leases r ! i) then Some e
                   else if ce_references e = 1 then None
                   else Some (e\<lparr>ce_references := ce_references e - 1\<rparr>))"
    using assms(3) pos D(1)
    by (auto simp: release_def Let_def usize_dec_def bt_get_insert bt_get_remove split: option.splits)
qed

lemma release_frame [frame_simps]:
  assumes "\<not> lease_released (reg_leases r ! i)"
  shows "reg_leases (release alive i r) = (reg_leases r)[i := (reg_leases r ! i)\<lparr>lease_released := True\<rparr>]"
    and "reg_flags (release alive i r) = reg_flags r"
    and "reg_domain (release alive i r) = reg_domain r" "reg_closed (release alive i r) = reg_closed r"
  using assms by (simp_all add: release_def Let_def split: option.splits)

lemma release_inv [step_inv]:
  assumes "registry_inv r" "i < length (reg_leases r)"
  shows "registry_inv (release alive i r)"
proof (cases "lease_released (reg_leases r ! i)")
  case True
  with assms show ?thesis by (simp add: release_def)
next
  case False
  let ?l = "reg_leases r ! i" and ?r = "release alive i r"
  note D = registry_invD [OF assms(1)]
  note get = release_entries [OF assms False, of alive]
  note f = release_frame [OF False, of alive]
  have live: "length (live_leases x ?r) + (if x = lease_id ?l then 1 else 0) = length (live_leases x r)" for x
    by (rule live_leases_release [OF assms(2) refl False]) (simp add: f)
  have flag: "bt_get (reg_entries ?r) x = Some e \<Longrightarrow>
      \<exists>e0. bt_get (reg_entries r) x = Some e0 \<and> ce_cancelled e = ce_cancelled e0" for x e
    by (auto simp: get split: option.splits if_splits)
  show ?thesis
  proof (rule registry_invI)
    show "bt_wf (reg_entries ?r)" "bt_get (reg_entries ?r) [] = None"
      using get D(2) by simp_all
  next
    assume "reg_closed ?r"
    then have "reg_entries r = bt_empty" using D(10) by (simp add: f)
    then show "reg_entries ?r = bt_empty" using False by (simp add: release_def Let_def bt.get_empty)
  next
    fix x e assume e: "bt_get (reg_entries ?r) x = Some e"
    have "ce_references e = length (live_leases x ?r)"
      using e live [of x] D(4) [of x] by (auto simp: get split: option.splits if_splits)
    then show "ce_cancelled e < length (reg_flags ?r) \<and> ce_references e = length (live_leases x ?r)"
      using flag [OF e] D(3) by (auto simp: f)
  next
    fix l' assume "l' \<in> set (reg_leases ?r)"
    then show "lease_cancelled l' < length (reg_flags ?r) \<and> lease_domain l' = reg_domain ?r"
      using in_set_released [of l' "reg_leases r" i] assms(2) D(5,6) by (fastforce simp: f)
  next
    fix l' assume l': "\<not> reg_closed ?r" "l' \<in> set (reg_leases ?r)" "\<not> lease_released l'" "lease_id l' \<noteq> []"
    then have "l' \<in> set (reg_leases r)"
      using in_set_released [of l' "reg_leases r" i] assms(2) by (auto simp: f)
    then obtain e where e: "bt_get (reg_entries r) (lease_id l') = Some e" "ce_cancelled e = lease_cancelled l'"
      using D(7) l' by (auto simp: f)
    have "l' \<in> set (live_leases (lease_id l') ?r)" using l' by (simp add: live_leases_def)
    then have "0 < length (live_leases (lease_id l') ?r)" by (rule length_pos_if_in_set)
    then have "lease_id l' = lease_id ?l \<Longrightarrow> ce_references e \<noteq> 1"
      using live [of "lease_id l'"] D(4) [OF e(1)] by auto
    then show "\<exists>e. bt_get (reg_entries ?r) (lease_id l') = Some e \<and> ce_cancelled e = lease_cancelled l'"
      using e by (simp add: get)
  next
    fix x e1 y e2
    assume "bt_get (reg_entries ?r) x = Some e1" "bt_get (reg_entries ?r) y = Some e2"
      "ce_cancelled e1 = ce_cancelled e2"
    then show "x = y" using flag D(9) by metis
  next
    fix l' x e1
    assume "l' \<in> set (reg_leases ?r)" "bt_get (reg_entries ?r) x = Some e1" "ce_cancelled e1 = lease_cancelled l'"
    then show "lease_id l' = x"
      using flag [of x e1] in_set_released [of l' "reg_leases r" i] assms(2) D(8) by (fastforce simp: f)
  qed
qed

lemma registry_step_inv: "registry_inv r \<Longrightarrow> registry_step r r' \<Longrightarrow> registry_inv r'"
  by (auto elim!: registry_step.cases intro: step_inv)

interpretation creg: transition_system "registry_new d" registry_step registry_inv
  by unfold_locales (auto intro: registry_new_inv registry_step_inv)


section \<open>Helper facts for the properties\<close>

lemma reach_inv: "reachable_from registry_step (registry_new d) r \<Longrightarrow> registry_inv r"
  by (rule creg.inv_reachable)

lemma lease_is_cancelled_open:
  "\<not> reg_closed r \<Longrightarrow> \<not> lease_released l \<Longrightarrow> lease_is_cancelled l r = Inr (reg_flags r ! lease_cancelled l)"
  by (simp add: lease_is_cancelled_def check_live_def check_open_def)

lemma set_cancelled_flags:
  assumes "registry_inv r" "\<not> reg_closed r" "rid \<noteq> []"
  obtains e where "bt_get (reg_entries (set_cancelled rid r)) rid = Some e"
    and "reg_flags (set_cancelled rid r) ! ce_cancelled e = True"
    and "\<And>k. k < length (reg_flags r) \<Longrightarrow> k \<noteq> ce_cancelled e \<Longrightarrow>
           reg_flags (set_cancelled rid r) ! k = reg_flags r ! k"
proof -
  obtain e r1 where er: "entry_or_default rid r = (e, r1)" by force
  have r1: "registry_inv r1" "bt_get (reg_entries r1) rid = Some e"
    using entry_or_default_inv [OF assms er] by auto
  have flags: "k < length (reg_flags r) \<Longrightarrow> reg_flags r1 ! k = reg_flags r ! k" for k
    using er by (auto simp: entry_or_default_def Let_def nth_append split: option.splits)
  have "set_cancelled rid r = r1\<lparr>reg_flags := (reg_flags r1)[ce_cancelled e := True]\<rparr>"
    by (simp add: set_cancelled_def er)
  then show thesis
    using that [of e] r1 registry_invD(3) [OF r1] flags by simp
qed

lemma cancel_eq:
  "\<not> reg_closed r \<Longrightarrow> rid \<noteq> [] \<Longrightarrow> cancel alive rid r = (Inr (), notify alive (set_cancelled rid r))"
  by (simp add: cancel_def cancel_many_def)

lemma acquire_succeeds: "\<not> reg_closed r \<Longrightarrow> \<exists>j r'. acquire rid r = (Inr j, r')"
  by (simp add: acquire_def Let_def split: prod.splits)

lemma acquire_existing:
  assumes "registry_inv r" "\<not> reg_closed r" "rid \<noteq> []" "bt_get (reg_entries r) rid = Some e"
    and "acquire rid r = (Inr i, r')"
  shows "lease_is_cancelled (reg_leases r' ! i) r' = Inr (reg_flags r ! ce_cancelled e)"
proof -
  have "entry_or_default rid r = (e, r)" using assms(4) by (simp add: entry_or_default_def)
  from acquire_tracked [OF assms(2,3) this] assms(5)
  show ?thesis
    using assms(2)
    by (auto simp: hand_out_def lease_is_cancelled_def check_live_def check_open_def)
qed

lemma acquire_fresh:
  assumes "registry_inv r" "\<not> reg_closed r" "rid \<noteq> []" "bt_get (reg_entries r) rid = None"
    and "acquire rid r = (Inr i, r')"
  shows "lease_is_cancelled (reg_leases r' ! i) r' = Inr False"
    and "i = length (reg_leases r)" "reg_leases r' ! k = reg_leases r ! k \<or> k \<ge> length (reg_leases r)"
proof -
  let ?e = "\<lparr>ce_cancelled = length (reg_flags r), ce_references = 0\<rparr>"
  let ?r = "r\<lparr>reg_flags := reg_flags r @ [False], reg_entries := bt_insert rid ?e (reg_entries r)\<rparr>"
  have "entry_or_default rid r = (?e, ?r)" using assms(4) by (simp add: entry_or_default_def Let_def)
  from acquire_tracked [OF assms(2,3) this] assms(5)
  show "lease_is_cancelled (reg_leases r' ! i) r' = Inr False" "i = length (reg_leases r)"
    "reg_leases r' ! k = reg_leases r ! k \<or> k \<ge> length (reg_leases r)"
    using assms(2)
    by (auto simp: hand_out_def lease_is_cancelled_def check_live_def check_open_def nth_append)
qed

lemma drop_idle_frame [frame_simps, simp]:
  "reg_flags (drop_idle rid r) = reg_flags r" "reg_leases (drop_idle rid r) = reg_leases r"
  "reg_closed (drop_idle rid r) = reg_closed r"
  by (simp_all add: drop_idle_def split: option.splits)

lemma fold_drop_idle_frame [simp]:
  "reg_flags (fold drop_idle rids r) = reg_flags r" "reg_leases (fold drop_idle rids r) = reg_leases r"
  "reg_closed (fold drop_idle rids r) = reg_closed r"
  by (induction rids arbitrary: r) simp_all

lemma closed_step: "registry_step r r' \<Longrightarrow> reg_closed r \<Longrightarrow> reg_closed r'"
  by (cases rule: registry_step.cases)
     (auto simp: acquire_def cancel_many_def cancel_active_def reset_many_if_idle_def release_def
        observe_thread_def shutdown_def Let_def split: option.splits)

lemma one_lease_reachable:
  "reachable_from registry_step (registry_new Download) (snd (acquire ''a'' (registry_new Download)))"
  by (rule reach_step, rule reach_start, rule step_acquire)

lemma one_lease_state:
  "snd (acquire ''a'' (registry_new Download)) =
     \<lparr>reg_domain = Download, reg_closed = False, reg_entries = [(''a'', \<lparr>ce_cancelled = 0, ce_references = 1\<rparr>)],
      reg_flags = [False], reg_leases = [\<lparr>lease_id = ''a'', lease_domain = Download, lease_cancelled = 0,
      lease_released = False\<rparr>], reg_threads = [], reg_unparked = [], reg_notified = 0\<rparr>"
  by (simp add: acquire_def registry_new_def entry_or_default_def hand_out_def bt_get_def bt_empty_def Let_def)

lemma wait_cancelled_returns:
  "\<exists>(l, r, t) \<in> set obs. wait_timeout ms \<le> t \<Longrightarrow> wait_cancelled ms obs \<noteq> None"
  by (induction ms obs rule: wait_cancelled.induct) (auto split: sum.splits)

lemma wait_cancelled_sound:
  "wait_cancelled ms obs = Some (Inr b) \<Longrightarrow>
     \<exists>(l, r, t) \<in> set obs. lease_is_cancelled l r = Inr b \<and> (\<not> b \<longrightarrow> wait_timeout ms \<le> t)"
  by (induction ms obs rule: wait_cancelled.induct)
     (auto simp: lease_is_cancelled_def split: sum.splits if_splits)

section \<open>Properties\<close>

text \<open>
  C19. In every reachable registry the reference count of an entry is the number of live leases of
  its ID. Releasing a live lease therefore finds a positive count and \<open>references -= 1\<close> never
  wraps around.
\<close>

theorem references_count_live_leases:
  assumes "reachable_from registry_step (registry_new d) r"
    and "i < length (reg_leases r)" "\<not> lease_released (reg_leases r ! i)"
    and "bt_get (reg_entries r) (lease_id (reg_leases r ! i)) = Some e"
  shows "ce_references e = length (live_leases (lease_id (reg_leases r ! i)) r)
     \<and> usize_dec (ce_references e) + 1 = ce_references e"
proof -
  let ?l = "reg_leases r ! i"
  have "ce_references e = length (live_leases (lease_id ?l) r)"
    using registry_invD(4) [OF reach_inv [OF assms(1)] assms(4)] .
  moreover have "?l \<in> set (live_leases (lease_id ?l) r)"
    using assms(2,3) by (simp add: live_leases_def)
  ultimately show ?thesis by (auto simp: usize_dec_def dest: length_pos_if_in_set)
qed

theorem references_count_live_leases_witness:
  "length (live_leases ''a'' (snd (acquire ''a'' (registry_new Download)))) = 1
     \<and> usize_dec 1 + 1 = 1"
  using references_count_live_leases [OF one_lease_reachable, of 0 "\<lparr>ce_cancelled = 0, ce_references = 1\<rparr>"]
  by (simp add: one_lease_state bt_get_def)

text \<open>
  C29. Cancelling an ID of an open registry reaches every lease of that ID that is live at that moment and, if the
  next acquisition of the ID follows with nothing in between, the lease that this acquisition gives; it reaches no
  lease of another ID. (Once the last lease is released or the idle entry is reset the ID starts afresh.)
\<close>

theorem cancel_reaches_exactly_its_leases:
  assumes "reachable_from registry_step (registry_new d) r" "\<not> reg_closed r" "rid \<noteq> []"
    and "cancel alive rid r = (res, r')"
  shows "res = Inr ()
     \<and> (\<forall>l \<in> set (live_leases rid r'). lease_is_cancelled l r' = Inr True)
     \<and> (\<forall>i r''. acquire rid r' = (Inr i, r'') \<longrightarrow> lease_is_cancelled (reg_leases r'' ! i) r'' = Inr True)
     \<and> (\<forall>l \<in> set (reg_leases r). lease_id l \<noteq> rid \<longrightarrow> lease_is_cancelled l r' = lease_is_cancelled l r)"
proof -
  note inv = reach_inv [OF assms(1)]
  obtain e where e: "bt_get (reg_entries (set_cancelled rid r)) rid = Some e"
    "reg_flags (set_cancelled rid r) ! ce_cancelled e = True"
    "\<And>k. k < length (reg_flags r) \<Longrightarrow> k \<noteq> ce_cancelled e \<Longrightarrow>
       reg_flags (set_cancelled rid r) ! k = reg_flags r ! k"
    using set_cancelled_flags [OF inv assms(2,3)] by blast
  have r': "res = Inr ()" "r' = notify alive (set_cancelled rid r)"
    using assms(4) cancel_eq [OF assms(2,3)] by auto
  have inv': "registry_inv r'" and op: "\<not> reg_closed r'"
    and leases: "reg_leases r' = reg_leases r"
    using set_cancelled_inv [OF inv assms(2,3)] assms(2) by (simp_all add: r' notify_inv)
  note D = registry_invD [OF inv']
  have e': "bt_get (reg_entries r') rid = Some e" "reg_flags r' ! ce_cancelled e" using e by (simp_all add: r')
  have mine: "lease_is_cancelled l r' = Inr True" if "l \<in> set (live_leases rid r')" for l
    using that D(7) [of l] op assms(3) e' by (auto simp: live_leases_def lease_is_cancelled_open)
  have other: "lease_is_cancelled l r' = lease_is_cancelled l r"
    if "l \<in> set (reg_leases r)" "lease_id l \<noteq> rid" for l
  proof -
    have "ce_cancelled e \<noteq> lease_cancelled l"
      using D(8) [of l rid e] e'(1) that leases by auto
    then have "reg_flags r' ! lease_cancelled l = reg_flags r ! lease_cancelled l"
      using e(3) [of "lease_cancelled l"] registry_invD(5) [OF inv that(1)] by (simp add: r')
    then show ?thesis using assms(2) op by (simp add: lease_is_cancelled_def check_live_def check_open_def)
  qed
  show ?thesis
    using mine other acquire_existing [OF inv' op assms(3) e'(1)] e'(2) r'(1) by auto
qed

theorem cancel_reaches_exactly_its_leases_witness:
  "\<exists>r'. cancel (\<lambda>_. True) ''a'' (snd (acquire ''a'' (registry_new Download))) = (Inr (), r')
     \<and> (\<forall>l \<in> set (live_leases ''a'' r'). lease_is_cancelled l r' = Inr True) \<and> live_leases ''a'' r' \<noteq> []"
proof -
  let ?r = "snd (acquire ''a'' (registry_new Download))"
  obtain res r' where r': "cancel (\<lambda>_. True) ''a'' ?r = (res, r')" by force
  have "live_leases ''a'' r' \<noteq> []"
    using r' by (auto simp: one_lease_state cancel_eq set_cancelled_def entry_or_default_def bt_get_def live_leases_def)
  with cancel_reaches_exactly_its_leases [OF one_lease_reachable _ _ r'] r' show ?thesis
    by (simp add: one_lease_state)
qed

text \<open>
  Once the last live lease of an ID is released, a retry of the same ID starts uncancelled,
  whatever was cancelled before, and releasing (or dropping) the old lease again changes nothing.
\<close>

theorem retry_after_release_is_fresh:
  assumes "reachable_from registry_step (registry_new d) r" "\<not> reg_closed r" "rid \<noteq> []"
    and "i < length (reg_leases r)" "live_leases rid r = [reg_leases r ! i]"
    and "acquire rid (release alive i r) = (Inr j, r')"
  shows "lease_is_cancelled (reg_leases r' ! j) r' = Inr False \<and> release alive i r' = r' \<and> i \<noteq> j"
proof -
  note inv = reach_inv [OF assms(1)]
  have "reg_leases r ! i \<in> set (live_leases rid r)" by (simp add: assms(5))
  then have live: "\<not> lease_released (reg_leases r ! i)" "lease_id (reg_leases r ! i) = rid"
    by (auto simp: live_leases_def)
  note f = release_frame [OF live(1), of alive]
  have one: "bt_get (reg_entries r) rid = Some e \<Longrightarrow> ce_references e = 1" for e
    using registry_invD(4) [OF inv] assms(5) by fastforce
  have gone: "bt_get (reg_entries (release alive i r)) rid = None"
    using release_entries(2) [OF inv assms(4) live(1), of alive rid] one live(2)
    by (auto split: option.splits)
  have op: "\<not> reg_closed (release alive i r)" using assms(2) by (simp add: f)
  note fresh = acquire_fresh [OF release_inv [OF inv assms(4)] op assms(3) gone assms(6)]
  have "lease_released (reg_leases r' ! i)"
    using fresh(3) [of i] assms(4) by (auto simp: f)
  then have "release alive i r' = r'" by (simp add: release_def)
  moreover have "i \<noteq> j" using fresh(2) assms(4) by (simp add: f)
  ultimately show ?thesis using fresh(1) by simp
qed

theorem retry_after_release_is_fresh_witness:
  "\<exists>j r'. acquire ''a'' (release (\<lambda>_. True) 0 (snd (acquire ''a'' (registry_new Download)))) = (Inr j, r')
     \<and> lease_is_cancelled (reg_leases r' ! j) r' = Inr False"
proof -
  let ?r = "snd (acquire ''a'' (registry_new Download))"
  have op: "\<not> reg_closed (release (\<lambda>_. True) 0 ?r)"
    by (simp add: one_lease_state release_def bt_get_def usize_dec_def Let_def)
  obtain j r' where a: "acquire ''a'' (release (\<lambda>_. True) 0 ?r) = (Inr j, r')"
    using acquire_succeeds [OF op] by blast
  have "live_leases ''a'' ?r = [reg_leases ?r ! 0]" by (simp add: one_lease_state live_leases_def)
  with retry_after_release_is_fresh [OF one_lease_reachable, of "''a''" 0 "\<lambda>_. True" j r'] a show ?thesis
    by (simp add: one_lease_state)
qed

text \<open>
  A batch reset is the sequence of its single resets, and it never touches work that is still
  unwinding: every live lease of a reachable open registry keeps its entry and its state.
\<close>

theorem batch_reset_spares_live_leases:
  assumes "reachable_from registry_step (registry_new d) r" "\<not> reg_closed r"
  shows "snd (reset_many_if_idle rids r) = fold (\<lambda>rid r. snd (reset_if_idle rid r)) rids r
     \<and> (\<forall>l \<in> set (reg_leases r). \<not> lease_released l \<and> lease_id l \<noteq> [] \<longrightarrow>
          (let r' = snd (reset_many_if_idle rids r) in
           lease_is_cancelled l r' = lease_is_cancelled l r
           \<and> (\<exists>e. bt_get (reg_entries r') (lease_id l) = Some e \<and> ce_cancelled e = lease_cancelled l)))"
proof -
  let ?r = "snd (reset_many_if_idle rids r)"
  have batch: "\<not> reg_closed s \<Longrightarrow>
      snd (reset_many_if_idle rids s) = fold (\<lambda>rid r. snd (reset_if_idle rid r)) rids s" for s
    by (induction rids arbitrary: s) (simp_all add: reset_many_if_idle_def reset_if_idle_def)
  have inv': "registry_inv ?r" using reset_many_inv [OF reach_inv [OF assms(1)]] .
  have f: "reg_leases ?r = reg_leases r" "reg_flags ?r = reg_flags r" "reg_closed ?r = reg_closed r"
    using assms(2) by (simp_all add: reset_many_if_idle_def)
  have "lease_is_cancelled l ?r = lease_is_cancelled l r" for l
    by (simp add: f lease_is_cancelled_def check_live_def check_open_def)
  moreover have "\<not> lease_released l \<Longrightarrow> lease_id l \<noteq> [] \<Longrightarrow> l \<in> set (reg_leases r) \<Longrightarrow>
      \<exists>e. bt_get (reg_entries ?r) (lease_id l) = Some e \<and> ce_cancelled e = lease_cancelled l" for l
    using registry_invD(7) [OF inv'] assms(2) by (simp add: f)
  ultimately show ?thesis unfolding Let_def by (intro conjI batch [OF assms(2)] ballI impI) auto
qed

theorem batch_reset_spares_live_leases_witness:
  "\<exists>e. bt_get (reg_entries (snd (reset_many_if_idle [''a'', ''b''] (snd (acquire ''a'' (registry_new Download)))))) ''a'' = Some e"
  using batch_reset_spares_live_leases [OF one_lease_reachable, of "[''a'', ''b'']"]
  by (auto simp: one_lease_state Let_def)

text \<open>
  Shutdown is terminal: whatever runs afterwards, the registry stays closed, hands out no
  lease and reports \<open>RegistryClosed\<close> to every query and to every lease, untracked ones included.
\<close>

theorem shutdown_is_terminal:
  assumes "reachable_from registry_step (shutdown alive r) r'"
  shows "reg_closed r' \<and> acquire rid r' = (Inl RegistryClosed, r')
     \<and> cancel_many alive' rids r' = (Inl RegistryClosed, r')
     \<and> reset_many_if_idle rids r' = (Inl RegistryClosed, r')
     \<and> registry_is_cancelled rid r' = Inl RegistryClosed
     \<and> lease_is_cancelled l r' = Inl RegistryClosed"
proof -
  have "reg_closed r'"
    using assms by (induction rule: reachable_from.induct) (auto simp: shutdown_def dest: closed_step)
  then show ?thesis
    by (simp add: acquire_def cancel_many_def reset_many_if_idle_def registry_is_cancelled_def
        lease_is_cancelled_def check_live_def check_open_def)
qed

theorem shutdown_is_terminal_witness:
  "acquire ''a'' (shutdown (\<lambda>_. True) (registry_new Download)) =
     (Inl RegistryClosed, shutdown (\<lambda>_. True) (registry_new Download))"
  using shutdown_is_terminal [OF reach_start] by blast

text \<open>
  A waiter never blocks past its bounded timeout: as soon as one observation reports the
  timeout (at most 60 s, 15 s for a non-positive argument) as elapsed, the wait has returned;
  it returns \<open>true\<close> only if it saw the flag set on a live lease and \<open>false\<close> only if it saw a
  live, uncancelled lease at an elapsed time past the bound.
\<close>

theorem wait_cancelled_bounded:
  "((\<exists>(l, r, t) \<in> set obs. wait_timeout ms \<le> t) \<longrightarrow> wait_cancelled ms obs \<noteq> None)
   \<and> (wait_cancelled ms obs = Some (Inr b) \<longrightarrow>
       (\<exists>(l, r, t) \<in> set obs. lease_is_cancelled l r = Inr b \<and> (\<not> b \<longrightarrow> wait_timeout ms \<le> t)))
   \<and> 0 < wait_timeout ms \<and> wait_timeout ms \<le> 60000"
  using wait_cancelled_returns wait_cancelled_sound by (auto simp: wait_timeout_def)

theorem wait_cancelled_bounded_witness:
  "wait_cancelled 10 [(\<lparr>lease_id = ''a'', lease_domain = Download, lease_cancelled = 0, lease_released = False\<rparr>,
      snd (acquire ''a'' (registry_new Download)), 10)] = Some (Inr False)"
  using wait_cancelled_bounded [of "[(\<lparr>lease_id = ''a'', lease_domain = Download, lease_cancelled = 0,
      lease_released = False\<rparr>, snd (acquire ''a'' (registry_new Download)), 10)]" 10 True]
  by (simp add: one_lease_state check_live_def check_open_def wait_timeout_def split: if_splits)

end
