(* ===== verification/Float64.thy ===== *)
theory Float64
  imports Complex_Main Prelude
begin

text \<open>
  Signed 64-bit and floating-point values. A finite \<open>f64\<close> is the rational number it stands for; an
  operation computes the exact result and then rounds it with \<open>rnd\<close>, the rounding of the hardware,
  which is a parameter. Only what the code uses is here.
\<close>

section \<open>Signed integers\<close>

definition isize_min :: int where
  "isize_min = - (2 ^ 63)"

definition isize_max :: int where
  "isize_max = 2 ^ 63 - 1"

definition wrap_i64 :: "int \<Rightarrow> int" where
  "wrap_i64 x = (x + 2 ^ 63) mod 2 ^ 64 - 2 ^ 63"

text \<open>Division truncates towards zero.\<close>

definition trunc_div :: "int \<Rightarrow> int \<Rightarrow> int" where
  "trunc_div a b = (if a \<ge> 0 then a div b else - (- a div b))"

lemma wrap_i64_small: "isize_min \<le> x \<Longrightarrow> x \<le> isize_max \<Longrightarrow> wrap_i64 x = x"
  by (simp add: wrap_i64_def isize_min_def isize_max_def)

section \<open>Floating point\<close>

text \<open>\<open>f64::round\<close>: halves go away from zero.\<close>

definition round_half_away :: "rat \<Rightarrow> int" where
  "round_half_away x = (if x \<ge> 0 then \<lfloor>x + 1 / 2\<rfloor> else \<lceil>x - 1 / 2\<rceil>)"

datatype f64 = NaN | Infinite bool | Finite rat

definition f64_is_finite :: "f64 \<Rightarrow> bool" where
  "f64_is_finite x = (case x of Finite _ \<Rightarrow> True | _ \<Rightarrow> False)"

text \<open>\<open>Infinite True\<close> is the positive infinity; comparisons with \<open>NaN\<close> are false.\<close>

definition f64_ge :: "f64 \<Rightarrow> rat \<Rightarrow> bool" where
  "f64_ge x c = (case x of NaN \<Rightarrow> False | Infinite pos \<Rightarrow> pos | Finite v \<Rightarrow> c \<le> v)"

definition f64_le :: "f64 \<Rightarrow> rat \<Rightarrow> bool" where
  "f64_le x c = (case x of NaN \<Rightarrow> False | Infinite pos \<Rightarrow> \<not> pos | Finite v \<Rightarrow> v \<le> c)"

definition f64_min :: "f64 \<Rightarrow> rat \<Rightarrow> f64" where
  "f64_min x c = (case x of NaN \<Rightarrow> Finite c | Infinite pos \<Rightarrow> if pos then Finite c else x | Finite v \<Rightarrow> Finite (min v c))"

text \<open>The product with a positive constant.\<close>

definition f64_scale :: "(rat \<Rightarrow> f64) \<Rightarrow> f64 \<Rightarrow> rat \<Rightarrow> f64" where
  "f64_scale rnd x c = (case x of Finite v \<Rightarrow> rnd (v * c) | _ \<Rightarrow> x)"

definition f64_round :: "f64 \<Rightarrow> f64" where
  "f64_round x = (case x of Finite v \<Rightarrow> Finite (of_int (round_half_away v)) | _ \<Rightarrow> x)"

text \<open>\<open>as\<close> conversions saturate and send \<open>NaN\<close> to zero.\<close>

definition f64_saturate :: "int \<Rightarrow> int \<Rightarrow> f64 \<Rightarrow> int" where
  "f64_saturate lo hi x =
     (case x of
        NaN \<Rightarrow> 0
      | Infinite pos \<Rightarrow> if pos then hi else lo
      | Finite v \<Rightarrow> max lo (min hi (if v \<ge> 0 then \<lfloor>v\<rfloor> else \<lceil>v\<rceil>)))"

text \<open>The quotient of two integers, each converted first.\<close>

definition f64_quotient :: "(rat \<Rightarrow> f64) \<Rightarrow> int \<Rightarrow> int \<Rightarrow> f64" where
  "f64_quotient rnd a b =
     (case (rnd (of_int a), rnd (of_int b)) of
        (Finite x, Finite y) \<Rightarrow> if y = 0 then (if x = 0 then NaN else Infinite (x > 0)) else rnd (x / y)
      | (Infinite pos, Finite y) \<Rightarrow> Infinite (pos = (y \<ge> 0))
      | (Finite x, Infinite pos) \<Rightarrow> Finite 0
      | _ \<Rightarrow> NaN)"

end
