(* ===== verification/Progress.thy ===== *)
theory Progress
  imports Float64 BTree_Map
begin

text \<open>
  The download progress registry (\<open>crates/core/src/progress.rs\<close> and \<open>progress/\<close>). Items carry the
  revision at which their visible state last changed, removals leave tombstones, and a listener asks
  for what changed since the sequence number it has. A document is kept as its fields; its JSON
  text is not modelled. Each operation is one critical section of the registry's lock.
\<close>

section \<open>Items\<close>

record item_progress =
  ip_item_id :: string
  ip_bytes_total :: int
  ip_bytes_received :: int
  ip_progress :: f64
  ip_speed_mbps :: f64
  ip_is_downloading :: bool
  ip_status :: string
  ip_stage :: string
  ip_revision :: int

record bridge_state =
  br_bytes_bucket :: int
  br_total :: int
  br_percent :: int
  br_speed_tenths :: int
  br_downloading :: bool
  br_status :: string
  br_stage :: string

definition UPDATE_BYTES :: int where
  "UPDATE_BYTES = 128 * 1024"

text \<open>The conversions that differ between targets, and the rounding of the floating-point unit.\<close>

datatype target_arch = X86 | Arm32 | OtherArch

record machine =
  mc_arch :: target_arch
  mc_round :: "rat \<Rightarrow> f64"

definition rounded_speed :: "machine \<Rightarrow> f64 \<Rightarrow> int" where
  "rounded_speed m x =
     (let v = f64_round x in
      if mc_arch m = X86 \<and> f64_ge v (2 ^ 63) then isize_min
      else if mc_arch m = Arm32 \<and> (f64_ge v (2 ^ 64) \<or> \<not> f64_is_finite v)
      then wrap_i64 (f64_saturate 0 (2 ^ 32 - 1) v * 2 ^ 32)
      else if mc_arch m = Arm32 \<and> f64_ge v (2 ^ 63) then wrap_i64 (f64_saturate 0 (2 ^ 64 - 1) v)
      else f64_saturate isize_min isize_max v)"

definition bridge :: "machine \<Rightarrow> item_progress \<Rightarrow> bridge_state" where
  "bridge m i =
     (let progress = (if ip_progress i = NaN \<or> f64_le (ip_progress i) 0 then Finite 0 else f64_min (ip_progress i) 1);
          speed = (if ip_speed_mbps i = NaN \<or> f64_le (ip_speed_mbps i) 0 then Finite 0 else ip_speed_mbps i)
      in \<lparr>br_bytes_bucket = trunc_div (ip_bytes_received i) UPDATE_BYTES, br_total = ip_bytes_total i,
          br_percent = f64_saturate isize_min isize_max (f64_round (f64_scale (mc_round m) progress 100)),
          br_speed_tenths = rounded_speed m (f64_scale (mc_round m) speed 10),
          br_downloading = ip_is_downloading i, br_status = ip_status i, br_stage = ip_stage i\<rparr>)"

definition item_finite :: "item_progress \<Rightarrow> bool" where
  "item_finite i \<longleftrightarrow> f64_is_finite (ip_progress i) \<and> f64_is_finite (ip_speed_mbps i)"

section \<open>The registry\<close>

datatype progress_error = ProgressClosed | SubscriptionClosed

text \<open>\<open>pg_cached\<close> is the cached snapshot document, \<open>None\<close> once it is cleared.\<close>

record progress_state =
  pg_items :: "(string, item_progress) btmap"
  pg_removed :: "(string, int) btmap"
  pg_seq :: int
  pg_reset :: int
  pg_dirty :: bool
  pg_cached :: "(string, item_progress) btmap option"
  pg_closed :: bool

definition progress_new :: progress_state where
  "progress_new =
     \<lparr>pg_items = [], pg_removed = [], pg_seq = 0, pg_reset = 0, pg_dirty = True, pg_cached = Some [], pg_closed = False\<rparr>"

definition progress_check :: "progress_state \<Rightarrow> (progress_error, unit) result" where
  "progress_check s = (if pg_closed s then Inl ProgressClosed else Inr ())"

text \<open>\<open>advance\<close>; \<open>next\<close> also wakes the waiters.\<close>

definition progress_advance :: "progress_state \<Rightarrow> int \<times> progress_state" where
  "progress_advance s =
     (let seq = wrap_i64 (pg_seq s + 1) in (seq, s\<lparr>pg_seq := seq, pg_dirty := True\<rparr>))"

definition progress_start :: "string \<Rightarrow> progress_state \<Rightarrow> (progress_error, unit) result \<times> progress_state" where
  "progress_start item s =
     (case progress_check s of
        Inl e \<Rightarrow> (Inl e, s)
      | Inr _ \<Rightarrow>
          (let (revision, s1) = progress_advance s in
           (Inr (), s1\<lparr>pg_items := bt_insert item
               \<lparr>ip_item_id = item, ip_bytes_total = 0, ip_bytes_received = 0, ip_progress = Finite 0,
                ip_speed_mbps = Finite 0, ip_is_downloading = False, ip_status = ''preparing'', ip_stage = [],
                ip_revision = revision\<rparr> (pg_items s1),
             pg_removed := bt_remove item (pg_removed s1)\<rparr>)))"

definition progress_update ::
  "machine \<Rightarrow> string \<Rightarrow> (item_progress \<Rightarrow> item_progress) \<Rightarrow> progress_state \<Rightarrow>
   (progress_error, unit) result \<times> progress_state" where
  "progress_update m item update s =
     (case progress_check s of
        Inl e \<Rightarrow> (Inl e, s)
      | Inr _ \<Rightarrow>
          (case bt_get (pg_items s) item of
             None \<Rightarrow> (Inr (), s)
           | Some i \<Rightarrow>
               (let i1 = update i in
                if bridge m i1 \<noteq> bridge m i
                then (let (revision, s1) = progress_advance s in
                      (Inr (), s1\<lparr>pg_items := bt_insert item (i1\<lparr>ip_revision := revision\<rparr>) (pg_items s1)\<rparr>))
                else (Inr (), s\<lparr>pg_items := bt_insert item i1 (pg_items s)\<rparr>))))"

definition mark_downloading :: "item_progress \<Rightarrow> item_progress" where
  "mark_downloading i = i\<lparr>ip_is_downloading := True, ip_status := ''downloading'', ip_stage := []\<rparr>"

definition item_set_received :: "machine \<Rightarrow> int \<Rightarrow> item_progress \<Rightarrow> item_progress" where
  "item_set_received m received i =
     (let i1 = i\<lparr>ip_bytes_received := received\<rparr>;
          i2 = (if ip_bytes_total i1 > 0 then i1\<lparr>ip_progress := f64_quotient (mc_round m) received (ip_bytes_total i1)\<rparr> else i1)
      in if received > 0 then mark_downloading i2 else i2)"

text \<open>The changes that the update operations make to an item.\<close>

datatype item_change =
    Preparing string
  | Downloading
  | SetReceived int
  | SetReceivedWithSpeed int f64
  | SetProgress f64 int int
  | Finalizing
  | Complete

definition set_progress_item :: "f64 \<Rightarrow> int \<Rightarrow> int \<Rightarrow> item_progress \<Rightarrow> item_progress" where
  "set_progress_item progress received tot i =
     (let has_bytes = (received > 0 \<or> tot > 0);
          i1 = i\<lparr>ip_progress := (if ip_status i \<noteq> ''preparing'' \<or> has_bytes \<or> f64_ge progress 1 then progress else Finite 0)\<rparr>;
          i2 = (if received > 0 then i1\<lparr>ip_bytes_received := received\<rparr> else i1);
          i3 = (if tot > 0 then i2\<lparr>ip_bytes_total := tot\<rparr> else i2)
      in if has_bytes \<or> f64_ge progress 1 \<or> ip_status i3 = ''downloading'' then mark_downloading i3 else i3)"

definition change_item :: "machine \<Rightarrow> item_change \<Rightarrow> item_progress \<Rightarrow> item_progress" where
  "change_item m c i =
     (case c of
        Preparing stage \<Rightarrow>
          i\<lparr>ip_progress := Finite 0, ip_bytes_received := 0, ip_bytes_total := 0, ip_speed_mbps := Finite 0,
            ip_is_downloading := True, ip_status := ''preparing'', ip_stage := stage\<rparr>
      | Downloading \<Rightarrow> mark_downloading i
      | SetReceived received \<Rightarrow> item_set_received m received i
      | SetReceivedWithSpeed received speed \<Rightarrow> item_set_received m received (i\<lparr>ip_speed_mbps := speed\<rparr>)
      | SetProgress progress received tot \<Rightarrow> set_progress_item progress received tot i
      | Finalizing \<Rightarrow> i\<lparr>ip_progress := Finite 1, ip_status := ''finalizing'', ip_stage := []\<rparr>
      | Complete \<Rightarrow> i\<lparr>ip_progress := Finite 1, ip_is_downloading := False, ip_status := ''completed'', ip_stage := []\<rparr>)"

definition progress_change ::
  "machine \<Rightarrow> string \<Rightarrow> item_change \<Rightarrow> progress_state \<Rightarrow> (progress_error, unit) result \<times> progress_state" where
  "progress_change m item c = progress_update m item (change_item m c)"

text \<open>More than 512 tombstones: the older half is dropped, and listeners behind it start again.\<close>

definition prune_removed :: "progress_state \<Rightarrow> progress_state" where
  "prune_removed s =
     (if length (pg_removed s) > 512
      then (let revisions = sort (map snd (pg_removed s));
                cutoff = revisions ! (length revisions div 2)
            in s\<lparr>pg_removed := bt_retain (\<lambda>_ revision. revision > cutoff) (pg_removed s),
                 pg_reset := max (pg_reset s) cutoff\<rparr>)
      else s)"

definition remove_item :: "string \<Rightarrow> progress_state \<Rightarrow> progress_state" where
  "remove_item item s =
     (case bt_get (pg_items s) item of
        None \<Rightarrow> s\<lparr>pg_dirty := True\<rparr>
      | Some _ \<Rightarrow>
          (let (seq, s1) = progress_advance (s\<lparr>pg_items := bt_remove item (pg_items s)\<rparr>) in
           (prune_removed (s1\<lparr>pg_removed := bt_insert item seq (pg_removed s1)\<rparr>))\<lparr>pg_dirty := True\<rparr>))"

definition remove_many :: "string list \<Rightarrow> progress_state \<Rightarrow> (progress_error, unit) result \<times> progress_state" where
  "remove_many ids s =
     (case progress_check s of
        Inl e \<Rightarrow> (Inl e, s)
      | Inr _ \<Rightarrow> (Inr (), fold remove_item ids s))"

definition progress_remove :: "string \<Rightarrow> progress_state \<Rightarrow> (progress_error, unit) result \<times> progress_state" where
  "progress_remove item = remove_many [item]"

definition progress_shutdown :: "progress_state \<Rightarrow> progress_state" where
  "progress_shutdown s = s\<lparr>pg_closed := True, pg_items := [], pg_removed := [], pg_cached := None\<rparr>"

section \<open>Documents\<close>

record delta_doc =
  dd_seq :: int
  dd_reset :: bool
  dd_items :: "(string, item_progress) btmap"
  dd_removed :: "string list"

text \<open>\<open>delta\<close>: \<open>None\<close> is the empty answer.\<close>

definition progress_delta :: "int \<Rightarrow> progress_state \<Rightarrow> delta_doc option" where
  "progress_delta since s =
     (if since \<ge> pg_seq s then None
      else
        (let reset = (since \<le> 0 \<or> since < pg_reset s);
             items = bt_retain (\<lambda>_ i. reset \<or> ip_revision i > since) (pg_items s)
         in if list_ex (\<lambda>(_, i). \<not> item_finite i) items then None
            else Some \<lparr>dd_seq = pg_seq s, dd_reset = reset, dd_items = items,
                       dd_removed = (if reset then [] else map fst (bt_retain (\<lambda>_ r. r > since) (pg_removed s)))\<rparr>))"

text \<open>\<open>item\<close>: \<open>None\<close> is an unknown item, \<open>Some None\<close> one that cannot be written.\<close>

definition progress_item :: "string \<Rightarrow> progress_state \<Rightarrow> (progress_error, item_progress option option) result" where
  "progress_item item s =
     try_bind (progress_check s) (\<lambda>_. Inr
       (case bt_get (pg_items s) item of
          None \<Rightarrow> None
        | Some i \<Rightarrow> if item_finite i then Some (Some i) else Some None))"

definition progress_snapshot ::
  "progress_state \<Rightarrow> (progress_error, (string, item_progress) btmap option) result \<times> progress_state" where
  "progress_snapshot s =
     (case progress_check s of
        Inl e \<Rightarrow> (Inl e, s)
      | Inr _ \<Rightarrow>
          if pg_dirty s
          then if list_ex (\<lambda>(_, i). \<not> item_finite i) (pg_items s) then (Inr (Some []), s)
               else (Inr (Some (pg_items s)), s\<lparr>pg_cached := Some (pg_items s), pg_dirty := False\<rparr>)
          else (Inr (pg_cached s), s))"

definition delta_timeout :: "int \<Rightarrow> nat" where
  "delta_timeout timeout_ms = (if timeout_ms \<le> 0 then 15000 else nat (min timeout_ms 60000))"

text \<open>
  \<open>wait_delta\<close> as a function of what it observes when it holds the lock: whether the subscription is
  closed, the registry, and the milliseconds since the call. \<open>None\<close>: still waiting when the
  observations end.
\<close>

fun wait_delta ::
  "int \<Rightarrow> int \<Rightarrow> (bool \<times> progress_state \<times> nat) list \<Rightarrow> (progress_error, delta_doc option) result option" where
  "wait_delta since timeout_ms [] = None"
| "wait_delta since timeout_ms ((shut, s, elapsed) # obs) =
     (case progress_check s of
        Inl e \<Rightarrow> Some (Inl e)
      | Inr _ \<Rightarrow>
          if shut then Some (Inl SubscriptionClosed)
          else if since < pg_seq s then Some (Inr (progress_delta since s))
          else if delta_timeout timeout_ms - elapsed = 0 then Some (Inr None)
          else wait_delta since timeout_ms obs)"

section \<open>Reporters\<close>

record report_state =
  rp_received :: int
  rp_total :: int
  rp_at :: nat

text \<open>\<open>report_at\<close>: the reporter, and the change it makes to its item, if any.\<close>

definition report_at ::
  "machine \<Rightarrow> string \<Rightarrow> int \<Rightarrow> int \<Rightarrow> nat \<Rightarrow> report_state \<Rightarrow> item_change option \<times> report_state" where
  "report_at m item received tot now st =
     (if item = [] then (None, st)
      else
        (let delta = wrap_i64 (received - rp_received st) in
         if 0 \<le> delta \<and> delta < UPDATE_BYTES \<and> tot = rp_total st \<and> now - rp_at st < 250 then (None, st)
         else (Some (if tot > 0 then SetProgress (f64_quotient (mc_round m) received tot) received tot
                     else SetReceived received),
               \<lparr>rp_received = received, rp_total = tot, rp_at = now\<rparr>)))"

text \<open>The target of an extension's download (\<open>crates/extensions/src/download/progress.rs\<close>): its changes, if any.\<close>

definition target_start :: "string \<Rightarrow> item_change option" where
  "target_start item = (if item \<noteq> [] then Some Downloading else None)"

definition target_set :: "bool \<Rightarrow> string \<Rightarrow> f64 \<Rightarrow> nat \<Rightarrow> int \<Rightarrow> item_change option" where
  "target_set track item progress bytes tot =
     (if track \<and> item \<noteq> [] then Some (SetProgress progress (wrap_i64 (int bytes)) tot) else None)"

definition target_received :: "bool \<Rightarrow> string \<Rightarrow> nat \<Rightarrow> item_change option" where
  "target_received track item bytes =
     (if track \<and> item \<noteq> [] \<and> bytes > 0 then Some (SetReceived (wrap_i64 (int bytes))) else None)"

definition target_initial :: "machine \<Rightarrow> bool \<Rightarrow> string \<Rightarrow> nat \<Rightarrow> int \<Rightarrow> item_change option" where
  "target_initial m track item bytes tot =
     (if tot > 0 then target_set track item (f64_quotient (mc_round m) (int bytes) tot) bytes tot
      else target_received track item bytes)"

definition target_reporter :: "bool \<Rightarrow> string \<Rightarrow> nat \<Rightarrow> int \<Rightarrow> nat \<Rightarrow> string \<times> report_state" where
  "target_reporter track item bytes tot now =
     (if track then item else [], \<lparr>rp_received = wrap_i64 (int bytes), rp_total = tot, rp_at = now\<rparr>)"

section \<open>Listeners\<close>

text \<open>
  A listener keeps what it has shown and applies the documents it is sent. It sees an item through its
  bridge state, because changes below that resolution are not announced.
\<close>

record listener =
  li_seq :: int
  li_view :: "string \<Rightarrow> bridge_state option"

definition listener_new :: listener where
  "listener_new = \<lparr>li_seq = 0, li_view = (\<lambda>_. None)\<rparr>"

definition listener_apply :: "machine \<Rightarrow> delta_doc option \<Rightarrow> listener \<Rightarrow> listener" where
  "listener_apply m d c =
     (case d of
        None \<Rightarrow> c
      | Some doc \<Rightarrow>
          \<lparr>li_seq = dd_seq doc,
           li_view = (\<lambda>x. case bt_get (dd_items doc) x of
               Some i \<Rightarrow> Some (bridge m i)
             | None \<Rightarrow> if dd_reset doc \<or> x \<in> set (dd_removed doc) then None else li_view c x)\<rparr>)"

definition registry_view :: "machine \<Rightarrow> progress_state \<Rightarrow> string \<Rightarrow> bridge_state option" where
  "registry_view m s x = map_option (bridge m) (bt_get (pg_items s) x)"

datatype progress_op =
    StartItem string
  | ChangeItem string item_change
  | RemoveItems "string list"
  | TakeSnapshot
  | Shutdown

definition progress_apply :: "machine \<Rightarrow> progress_op \<Rightarrow> progress_state \<Rightarrow> progress_state" where
  "progress_apply m op s =
     (case op of
        StartItem x \<Rightarrow> snd (progress_start x s)
      | ChangeItem x c \<Rightarrow> snd (progress_change m x c s)
      | RemoveItems xs \<Rightarrow> snd (remove_many xs s)
      | TakeSnapshot \<Rightarrow> snd (progress_snapshot s)
      | Shutdown \<Rightarrow> progress_shutdown s)"

text \<open>The most an operation can advance the sequence number.\<close>

definition progress_cost :: "progress_op \<Rightarrow> nat" where
  "progress_cost op = (case op of RemoveItems xs \<Rightarrow> length xs | _ \<Rightarrow> 1)"

text \<open>A registry and a listener: operations and synchronisations in any order, before the counter wraps.\<close>

inductive sync_run :: "machine \<Rightarrow> progress_state \<Rightarrow> listener \<Rightarrow> bool" for m where
  sync_new: "sync_run m progress_new listener_new"
| sync_op: "sync_run m s c \<Longrightarrow> pg_seq s + int (progress_cost op) \<le> isize_max \<Longrightarrow> sync_run m (progress_apply m op s) c"
| sync_delta: "sync_run m s c \<Longrightarrow> \<not> pg_closed s \<Longrightarrow>
    sync_run m s (listener_apply m (progress_delta (li_seq c) s) c)"

definition registry_ok :: "progress_state \<Rightarrow> bool" where
  "registry_ok s \<longleftrightarrow>
     bt_wf (pg_items s) \<and> bt_wf (pg_removed s) \<and> 0 \<le> pg_seq s \<and> pg_reset s \<le> pg_seq s \<and> length (pg_removed s) \<le> 512 \<and>
     (\<forall>x i. bt_get (pg_items s) x = Some i \<longrightarrow> 1 \<le> ip_revision i \<and> ip_revision i \<le> pg_seq s) \<and>
     (\<forall>x r. bt_get (pg_removed s) x = Some r \<longrightarrow> 1 \<le> r \<and> r \<le> pg_seq s \<and> bt_get (pg_items s) x = None)"

definition tracks :: "machine \<Rightarrow> progress_state \<Rightarrow> listener \<Rightarrow> bool" where
  "tracks m s c \<longleftrightarrow>
     0 \<le> li_seq c \<and> li_seq c \<le> pg_seq s \<and> (li_seq c = 0 \<longrightarrow> li_view c = (\<lambda>_. None)) \<and>
     (\<not> pg_closed s \<and> pg_reset s \<le> li_seq c \<longrightarrow>
        (\<forall>x. case bt_get (pg_items s) x of
               Some i \<Rightarrow> ip_revision i \<le> li_seq c \<longrightarrow> li_view c x = Some (bridge m i)
             | None \<Rightarrow> (\<forall>r. bt_get (pg_removed s) x = Some r \<longrightarrow> r \<le> li_seq c) \<longrightarrow> li_view c x = None))"

lemma tracks_get:
  assumes "tracks m s c" "\<not> pg_closed s" "pg_reset s \<le> li_seq c"
  shows "bt_get (pg_items s) x = Some i \<Longrightarrow> ip_revision i \<le> li_seq c \<Longrightarrow> li_view c x = Some (bridge m i)"
    and "bt_get (pg_items s) x = None \<Longrightarrow> (\<And>r. bt_get (pg_removed s) x = Some r \<Longrightarrow> r \<le> li_seq c) \<Longrightarrow> li_view c x = None"
proof -
  have "case bt_get (pg_items s) x of
          Some i \<Rightarrow> ip_revision i \<le> li_seq c \<longrightarrow> li_view c x = Some (bridge m i)
        | None \<Rightarrow> (\<forall>r. bt_get (pg_removed s) x = Some r \<longrightarrow> r \<le> li_seq c) \<longrightarrow> li_view c x = None"
    using assms unfolding tracks_def by blast
  then show "bt_get (pg_items s) x = Some i \<Longrightarrow> ip_revision i \<le> li_seq c \<Longrightarrow> li_view c x = Some (bridge m i)"
    "bt_get (pg_items s) x = None \<Longrightarrow> (\<And>r. bt_get (pg_removed s) x = Some r \<Longrightarrow> r \<le> li_seq c) \<Longrightarrow> li_view c x = None"
    by simp_all
qed

text \<open>A new state of the registry is tracked when what the listener may rely on is unchanged.\<close>

lemma tracksI:
  assumes "tracks m s c" "pg_seq s \<le> pg_seq s'" "pg_reset s \<le> pg_reset s'" "pg_closed s \<longrightarrow> pg_closed s'"
    and "\<And>x i. \<not> pg_closed s' \<Longrightarrow> pg_reset s' \<le> li_seq c \<Longrightarrow> bt_get (pg_items s') x = Some i \<Longrightarrow> ip_revision i \<le> li_seq c \<Longrightarrow>
           \<exists>j. bt_get (pg_items s) x = Some j \<and> ip_revision j \<le> li_seq c \<and> bridge m j = bridge m i"
    and "\<And>x. \<not> pg_closed s' \<Longrightarrow> pg_reset s' \<le> li_seq c \<Longrightarrow> bt_get (pg_items s') x = None \<Longrightarrow>
           (\<And>r. bt_get (pg_removed s') x = Some r \<Longrightarrow> r \<le> li_seq c) \<Longrightarrow>
           bt_get (pg_items s) x = None \<and> (\<forall>r. bt_get (pg_removed s) x = Some r \<longrightarrow> r \<le> li_seq c)"
  shows "tracks m s' c"
proof -
  have "case bt_get (pg_items s') x of
          Some i \<Rightarrow> ip_revision i \<le> li_seq c \<longrightarrow> li_view c x = Some (bridge m i)
        | None \<Rightarrow> (\<forall>r. bt_get (pg_removed s') x = Some r \<longrightarrow> r \<le> li_seq c) \<longrightarrow> li_view c x = None"
    if live: "\<not> pg_closed s'" and reset: "pg_reset s' \<le> li_seq c" for x
  proof -
    have old: "\<not> pg_closed s" "pg_reset s \<le> li_seq c" using assms(3,4) live reset by auto
    note get = tracks_get [OF assms(1) old]
    show ?thesis
    proof (cases "bt_get (pg_items s') x")
      case None
      then show ?thesis using assms(6) [OF live reset None] get(2) by auto
    next
      case (Some i)
      then show ?thesis using assms(5) [OF live reset Some] get(1) by fastforce
    qed
  qed
  with assms(1,2) show ?thesis by (auto simp: tracks_def)
qed

section \<open>Every operation keeps the registry tracked\<close>

lemma registry_disjoint: "registry_ok s \<Longrightarrow> bt_get (pg_items s) x = Some i \<Longrightarrow> bt_get (pg_removed s) x = None"
  by (cases "bt_get (pg_removed s) x") (auto simp: registry_ok_def)

lemma cache_frame [simp]:
  "registry_ok (s\<lparr>pg_dirty := b\<rparr>) = registry_ok s" "registry_ok (s\<lparr>pg_cached := d\<rparr>) = registry_ok s"
  "tracks m (s\<lparr>pg_dirty := b\<rparr>) c = tracks m s c" "tracks m (s\<lparr>pg_cached := d\<rparr>) c = tracks m s c"
  by (simp_all add: registry_ok_def tracks_def cong: option.case_cong)

lemma advance_small:
  assumes "registry_ok s" "pg_seq s + 1 \<le> isize_max"
  shows "progress_advance s = (pg_seq s + 1, s\<lparr>pg_seq := pg_seq s + 1, pg_dirty := True\<rparr>)"
  using assms by (simp add: progress_advance_def wrap_i64_small registry_ok_def isize_min_def Let_def)

lemma start_ok:
  assumes "registry_ok s" "tracks m s c" "pg_seq s + 1 \<le> isize_max" "\<not> pg_closed s"
  shows "registry_ok (snd (progress_start x s)) \<and> tracks m (snd (progress_start x s)) c"
proof -
  have wf: "bt_wf (pg_items s)" "bt_wf (pg_removed s)" using assms(1) by (simp_all add: registry_ok_def)
  have len: "length (bt_remove x (pg_removed s)) \<le> 512"
    using assms(1) by (auto simp: registry_ok_def bt_remove_def intro: le_trans [OF length_filter_le])
  define i where "i = \<lparr>ip_item_id = x, ip_bytes_total = 0, ip_bytes_received = 0, ip_progress = Finite 0,
    ip_speed_mbps = Finite 0, ip_is_downloading = False, ip_status = ''preparing'', ip_stage = [], ip_revision = pg_seq s + 1\<rparr>"
  have i: "ip_revision i = pg_seq s + 1" by (simp add: i_def)
  have eq: "snd (progress_start x s) = s\<lparr>pg_seq := pg_seq s + 1, pg_dirty := True, pg_items := bt_insert x i (pg_items s),
      pg_removed := bt_remove x (pg_removed s)\<rparr>"
    using assms(4) by (simp add: progress_start_def progress_check_def advance_small [OF assms(1,3)] i_def)
  have "registry_ok (snd (progress_start x s))"
    using assms(1) len i unfolding eq by (auto simp: registry_ok_def bt_get_simps split: if_splits) fastforce+
  moreover have "tracks m (snd (progress_start x s)) c"
  proof (rule tracksI [OF assms(2)])
    have "li_seq c \<le> pg_seq s" using assms(2) by (simp add: tracks_def)
    then show "\<exists>j. bt_get (pg_items s) y = Some j \<and> ip_revision j \<le> li_seq c \<and> bridge m j = bridge m k"
      if "bt_get (pg_items (snd (progress_start x s))) y = Some k" "ip_revision k \<le> li_seq c" for y k
      using that i wf unfolding eq by (auto simp: bt_get_simps split: if_splits)
  qed (use wf in \<open>auto simp: eq bt_get_simps split: if_splits\<close>)
  ultimately show ?thesis ..
qed

lemma change_ok:
  assumes "registry_ok s" "tracks m s c" "pg_seq s + 1 \<le> isize_max" "\<not> pg_closed s"
    and rev: "\<And>i. ip_revision (f i) = ip_revision i"
  shows "registry_ok (snd (progress_update m x f s)) \<and> tracks m (snd (progress_update m x f s)) c"
proof (cases "bt_get (pg_items s) x")
  case None
  with assms show ?thesis by (simp add: progress_update_def progress_check_def)
next
  case (Some i)
  have wf: "bt_wf (pg_items s)" using assms(1) by (simp add: registry_ok_def)
  have gone: "bt_get (pg_removed s) x = None" using registry_disjoint [OF assms(1) Some] .
  have seq: "li_seq c \<le> pg_seq s" using assms(2) by (simp add: tracks_def)
  show ?thesis
  proof (cases "bridge m (f i) = bridge m i")
    case True
    then have eq: "snd (progress_update m x f s) = s\<lparr>pg_items := bt_insert x (f i) (pg_items s)\<rparr>"
      using Some assms(4) by (simp add: progress_update_def progress_check_def Let_def)
    have "registry_ok (snd (progress_update m x f s))"
      using assms(1) Some gone unfolding eq by (auto simp: registry_ok_def bt_get_simps rev split: if_splits)
    moreover have "tracks m (snd (progress_update m x f s)) c"
      using Some True wf by (intro tracksI [OF assms(2)]) (auto simp: eq bt_get_simps rev split: if_splits)
    ultimately show ?thesis ..
  next
    case False
    then have eq: "snd (progress_update m x f s) = s\<lparr>pg_seq := pg_seq s + 1, pg_dirty := True,
        pg_items := bt_insert x ((f i)\<lparr>ip_revision := pg_seq s + 1\<rparr>) (pg_items s)\<rparr>"
      using Some assms(4) by (simp add: progress_update_def progress_check_def advance_small [OF assms(1,3)] Let_def)
    have "registry_ok (snd (progress_update m x f s))"
      using assms(1) gone unfolding eq by (auto simp: registry_ok_def bt_get_simps split: if_splits) fastforce+
    moreover have "tracks m (snd (progress_update m x f s)) c"
      using seq Some wf by (intro tracksI [OF assms(2)]) (auto simp: eq bt_get_simps split: if_splits)
    ultimately show ?thesis ..
  qed
qed

lemma change_item_revision [simp]: "ip_revision (change_item m c i) = ip_revision i"
  by (simp add: change_item_def mark_downloading_def item_set_received_def set_progress_item_def Let_def split: item_change.splits)

lemma prune_ok:
  assumes wf: "bt_wf (pg_items s)" "bt_wf (pg_removed s)" and "0 \<le> pg_seq s" "pg_reset s \<le> pg_seq s"
    and len: "length (pg_removed s) \<le> 513"
    and items: "\<And>x i. bt_get (pg_items s) x = Some i \<Longrightarrow> 1 \<le> ip_revision i \<and> ip_revision i \<le> pg_seq s"
    and removed: "\<And>x r. bt_get (pg_removed s) x = Some r \<Longrightarrow> 1 \<le> r \<and> r \<le> pg_seq s \<and> bt_get (pg_items s) x = None"
    and tracks: "tracks m s c"
  shows "registry_ok (prune_removed s) \<and> tracks m (prune_removed s) c"
proof (cases "length (pg_removed s) > 512")
  case False
  with assms show ?thesis by (auto simp: prune_removed_def registry_ok_def)
next
  case True
  define revisions where "revisions = sort (map snd (pg_removed s))"
  define cutoff where "cutoff = revisions ! (length revisions div 2)"
  have eq: "prune_removed s = s\<lparr>pg_removed := bt_retain (\<lambda>_ r. r > cutoff) (pg_removed s), pg_reset := max (pg_reset s) cutoff\<rparr>"
    using True by (simp add: prune_removed_def revisions_def cutoff_def Let_def)
  have "length revisions div 2 < length revisions" using True by (simp add: revisions_def)
  then have "cutoff \<in> set revisions" unfolding cutoff_def by (rule nth_mem)
  then obtain x where x: "(x, cutoff) \<in> set (pg_removed s)" by (auto simp: revisions_def)
  then have c: "1 \<le> cutoff" "cutoff \<le> pg_seq s" using removed bt_get_iff [OF wf(2)] by blast+
  have "length (bt_retain (\<lambda>_ r. r > cutoff) (pg_removed s)) < length (pg_removed s)"
    unfolding bt_retain_def by (rule length_filter_less [OF x]) simp
  then have "registry_ok (prune_removed s)"
    using assms c unfolding eq by (auto simp: registry_ok_def bt_get_simps split: option.splits if_splits)
  moreover have "tracks m (prune_removed s) c"
  proof (rule tracksI [OF tracks])
    fix x
    assume p: "pg_reset (prune_removed s) \<le> li_seq c" "bt_get (pg_items (prune_removed s)) x = None"
      "\<And>r. bt_get (pg_removed (prune_removed s)) x = Some r \<Longrightarrow> r \<le> li_seq c"
    have "r \<le> li_seq c" if "bt_get (pg_removed s) x = Some r" for r
      using p(1,3) that wf by (cases "cutoff < r") (simp_all add: eq bt_get_simps)
    with p(2) show "bt_get (pg_items s) x = None \<and> (\<forall>r. bt_get (pg_removed s) x = Some r \<longrightarrow> r \<le> li_seq c)"
      by (simp add: eq)
  qed (auto simp: eq)
  ultimately show ?thesis ..
qed

lemma remove_item_ok:
  assumes "registry_ok s" "tracks m s c" "pg_seq s + 1 \<le> isize_max" "\<not> pg_closed s"
  shows "registry_ok (remove_item x s) \<and> tracks m (remove_item x s) c \<and> pg_seq (remove_item x s) \<le> pg_seq s + 1 \<and>
         \<not> pg_closed (remove_item x s)"
proof (cases "bt_get (pg_items s) x")
  case None
  with assms show ?thesis by (simp add: remove_item_def)
next
  case (Some i)
  let ?s = "s\<lparr>pg_items := bt_remove x (pg_items s), pg_seq := pg_seq s + 1, pg_dirty := True,
    pg_removed := bt_insert x (pg_seq s + 1) (pg_removed s)\<rparr>"
  have wf: "bt_wf (pg_items s)" "bt_wf (pg_removed s)" using assms(1) by (simp_all add: registry_ok_def)
  have seq: "li_seq c \<le> pg_seq s" using assms(2) by (simp add: tracks_def)
  have ok: "registry_ok (s\<lparr>pg_items := bt_remove x (pg_items s)\<rparr>)"
    using assms(1) by (auto simp: registry_ok_def bt_get_simps split: if_splits)
  have eq: "remove_item x s = (prune_removed ?s)\<lparr>pg_dirty := True\<rparr>"
    using Some assms(3) by (simp add: remove_item_def advance_small [OF ok] Let_def)
  have "registry_ok (prune_removed ?s) \<and> tracks m (prune_removed ?s) c"
  proof (rule prune_ok)
    show "tracks m ?s c"
      using seq wf Some by (intro tracksI [OF assms(2)]) (auto simp: bt_get_simps split: if_splits)
    show "length (pg_removed ?s) \<le> 513"
      using bt_insert_length [of x "pg_seq s + 1" "pg_removed s"] assms(1) by (simp add: registry_ok_def)
    show "1 \<le> ip_revision k \<and> ip_revision k \<le> pg_seq ?s" if "bt_get (pg_items ?s) y = Some k" for y k
      using that assms(1) wf by (fastforce simp: registry_ok_def bt_get_simps split: if_splits)
    show "1 \<le> r \<and> r \<le> pg_seq ?s \<and> bt_get (pg_items ?s) y = None" if "bt_get (pg_removed ?s) y = Some r" for y r
      using that assms(1) wf by (fastforce simp: registry_ok_def bt_get_simps split: if_splits)
  qed (use assms(1) wf in \<open>simp_all add: registry_ok_def\<close>)
  moreover have "pg_seq (prune_removed ?s) = pg_seq s + 1" "pg_closed (prune_removed ?s) = pg_closed s"
    by (simp_all add: prune_removed_def Let_def)
  ultimately show ?thesis
    using assms(4) unfolding eq by simp
qed

lemma remove_many_ok:
  assumes "registry_ok s" "tracks m s c" "pg_seq s + int (length xs) \<le> isize_max" "\<not> pg_closed s"
  shows "registry_ok (fold remove_item xs s) \<and> tracks m (fold remove_item xs s) c"
  using assms
proof (induction xs arbitrary: s)
  case (Cons x xs)
  from remove_item_ok [OF Cons.prems(1,2) _ Cons.prems(4), of x] Cons.prems(3) Cons.IH [of "remove_item x s"]
  show ?case by simp
qed simp

lemma closed_ops:
  assumes "pg_closed s" "registry_ok s" "tracks m s c"
  shows "registry_ok (progress_apply m op s) \<and> tracks m (progress_apply m op s) c"
  using assms
  by (cases op) (auto simp: progress_apply_def progress_start_def progress_change_def progress_update_def remove_many_def
      progress_snapshot_def progress_check_def progress_shutdown_def registry_ok_def tracks_def bt_get_def)

lemma progress_apply_ok:
  assumes "registry_ok s" "tracks m s c" "pg_seq s + int (progress_cost op) \<le> isize_max"
  shows "registry_ok (progress_apply m op s) \<and> tracks m (progress_apply m op s) c"
proof (cases "pg_closed s")
  case True
  then show ?thesis using closed_ops assms by blast
next
  case False
  show ?thesis
  proof (cases op)
    case (StartItem x)
    with start_ok [OF assms(1,2) _ False, of x] assms(3) show ?thesis by (simp add: progress_apply_def progress_cost_def)
  next
    case (ChangeItem x ch)
    with change_ok [OF assms(1,2) _ False, of "change_item m ch" x] assms(3) show ?thesis
      by (simp add: progress_apply_def progress_cost_def progress_change_def)
  next
    case (RemoveItems xs)
    with remove_many_ok [OF assms(1,2) _ False, of xs] assms(3) False show ?thesis
      by (simp add: progress_apply_def progress_cost_def remove_many_def progress_check_def)
  next
    case TakeSnapshot
    with assms False show ?thesis
      by (simp add: progress_apply_def progress_snapshot_def progress_check_def)
  next
    case Shutdown
    with assms show ?thesis by (auto simp: progress_apply_def progress_shutdown_def registry_ok_def tracks_def bt_get_def)
  qed
qed

definition synced :: "machine \<Rightarrow> progress_state \<Rightarrow> listener \<Rightarrow> bool" where
  "synced m s c \<longleftrightarrow> li_seq c = pg_seq s \<and> (\<forall>x. li_view c x = registry_view m s x)"

lemma current_synced:
  assumes ok: "registry_ok s" and tracks: "tracks m s c" and live: "\<not> pg_closed s" and "pg_seq s \<le> li_seq c"
  shows "synced m s c"
proof -
  have seq: "li_seq c = pg_seq s" using tracks assms(4) by (simp add: tracks_def)
  have reset: "pg_reset s \<le> li_seq c" using ok seq by (simp add: registry_ok_def)
  have "li_view c x = registry_view m s x" for x
    using tracks_get [OF tracks live reset, of x] ok seq
    by (cases "bt_get (pg_items s) x") (simp_all add: registry_view_def registry_ok_def)
  with seq show ?thesis by (simp add: synced_def)
qed

lemma delta_synced:
  assumes ok: "registry_ok s" and tracks: "tracks m s c" and live: "\<not> pg_closed s"
    and d: "progress_delta (li_seq c) s = Some d"
  shows "synced m s (listener_apply m (Some d) c)"
proof -
  have wf: "bt_wf (pg_items s)" "bt_wf (pg_removed s)" using ok by (simp_all add: registry_ok_def)
  let ?reset = "li_seq c \<le> 0 \<or> li_seq c < pg_reset s"
  let ?items = "bt_retain (\<lambda>_ i. ?reset \<or> ip_revision i > li_seq c) (pg_items s)"
  have doc: "d = \<lparr>dd_seq = pg_seq s, dd_reset = ?reset, dd_items = ?items,
      dd_removed = (if ?reset then [] else map fst (bt_retain (\<lambda>_ r. r > li_seq c) (pg_removed s)))\<rparr>"
    using d unfolding progress_delta_def Let_def by (auto simp only: option.inject option.distinct split: if_split_asm)
  have rem: "x \<in> fst ` set (bt_retain (\<lambda>_ r. r > li_seq c) (pg_removed s)) \<longleftrightarrow>
      (\<exists>r. bt_get (pg_removed s) x = Some r \<and> r > li_seq c)" for x
    using bt_get_iff [OF wf(2)] by (force simp: bt_retain_def)
  have "li_view (listener_apply m (Some d) c) x = registry_view m s x" for x
  proof (cases ?reset)
    case True
    then show ?thesis
      using wf by (auto simp: doc listener_apply_def registry_view_def bt_get_simps split: option.splits)
  next
    case incremental: False
    then have reset: "pg_reset s \<le> li_seq c" by simp
    show ?thesis
    proof (cases "bt_get (pg_items s) x")
      case None
      have "li_view c x = None" if "\<not> (\<exists>r. bt_get (pg_removed s) x = Some r \<and> r > li_seq c)"
        using tracks_get(2) [OF tracks live reset None] that by force
      with None show ?thesis
        using incremental wf rem by (simp add: doc listener_apply_def registry_view_def bt_get_simps)
    next
      case (Some i)
      then have "bt_get (pg_removed s) x = None" using registry_disjoint [OF ok] by blast
      with Some rem show ?thesis
        using tracks_get(1) [OF tracks live reset Some] incremental wf
        by (simp add: doc listener_apply_def registry_view_def bt_get_simps)
    qed
  qed
  then show ?thesis by (simp add: synced_def doc listener_apply_def)
qed

lemma delta_tracks:
  assumes "registry_ok s" "tracks m s c" "\<not> pg_closed s"
  shows "tracks m s (listener_apply m (progress_delta (li_seq c) s) c)"
proof (cases "progress_delta (li_seq c) s")
  case None
  with assms show ?thesis by (simp add: listener_apply_def)
next
  case (Some d)
  then have "li_seq c < pg_seq s" by (auto simp: progress_delta_def split: if_splits)
  with delta_synced [OF assms Some] assms(2) Some show ?thesis
    unfolding tracks_def by (auto simp: synced_def registry_view_def split: option.splits)
qed

lemma sync_run_ok:
  assumes "sync_run m s c"
  shows "registry_ok s \<and> tracks m s c"
  using assms
proof induction
  case sync_new
  show ?case by (simp add: registry_ok_def progress_new_def tracks_def listener_new_def bt_get_def)
next
  case (sync_op s c op)
  then show ?case using progress_apply_ok by blast
next
  case (sync_delta s c)
  then show ?case using delta_tracks by blast
qed

text \<open>
  C21. Listeners converge. Items may be started, changed, removed (also in batches that overflow the
  tombstones) and snapshots taken in any order, and a listener may ask for changes as rarely as it
  likes: as long as the registry is open and its numbers can be written, one document brings it to the
  registry's current sequence number and to exactly the visible state of every item, with nothing
  stale left. The tombstones stay within their limit.
\<close>

theorem progress_listeners_converge:
  assumes "sync_run m s c" "\<not> pg_closed s" "list_all (\<lambda>(_, i). item_finite i) (pg_items s)"
  shows "(let c' = listener_apply m (progress_delta (li_seq c) s) c in
          li_seq c' = pg_seq s \<and> (\<forall>x. li_view c' x = registry_view m s x)) \<and>
         length (pg_removed s) \<le> 512"
proof -
  have ok: "registry_ok s" "tracks m s c" using sync_run_ok [OF assms(1)] by simp_all
  have "synced m s (listener_apply m (progress_delta (li_seq c) s) c)"
  proof (cases "progress_delta (li_seq c) s")
    case None
    have "\<not> list_ex (\<lambda>(_, i). \<not> item_finite i) (bt_retain p (pg_items s))" for p
      using assms(3) by (auto simp: list_ex_iff list_all_iff bt_retain_def)
    with None have "pg_seq s \<le> li_seq c" by (auto simp: progress_delta_def Let_def split: if_splits)
    from current_synced [OF ok assms(2) this] None show ?thesis by (simp add: listener_apply_def)
  next
    case (Some d)
    with delta_synced [OF ok assms(2)] show ?thesis by simp
  qed
  then show ?thesis using ok(1) by (simp add: synced_def registry_ok_def Let_def)
qed

text \<open>Two items are started and shown, then the first is removed.\<close>

definition plain_machine :: machine where
  "plain_machine = \<lparr>mc_arch = OtherArch, mc_round = Finite\<rparr>"

definition fresh_item :: "string \<Rightarrow> int \<Rightarrow> item_progress" where
  "fresh_item x revision =
     \<lparr>ip_item_id = x, ip_bytes_total = 0, ip_bytes_received = 0, ip_progress = Finite 0, ip_speed_mbps = Finite 0,
      ip_is_downloading = False, ip_status = ''preparing'', ip_stage = [], ip_revision = revision\<rparr>"

definition two_items :: progress_state where
  "two_items =
     \<lparr>pg_items = [(''a'', fresh_item ''a'' 1), (''b'', fresh_item ''b'' 2)], pg_removed = [], pg_seq = 2, pg_reset = 0,
      pg_dirty = True, pg_cached = Some [], pg_closed = False\<rparr>"

definition one_item :: progress_state where
  "one_item =
     two_items\<lparr>pg_items := [(''b'', fresh_item ''b'' 2)], pg_removed := [(''a'', 3)], pg_seq := 3\<rparr>"

lemma two_items_run:
  "progress_apply m (StartItem ''b'') (progress_apply m (StartItem ''a'') progress_new) = two_items"
  "progress_apply m (RemoveItems [''a'']) two_items = one_item"
  by (simp_all add: progress_apply_def progress_start_def progress_check_def progress_advance_def wrap_i64_def progress_new_def
      two_items_def one_item_def fresh_item_def remove_many_def remove_item_def prune_removed_def bt_remove_def bt_get_def Let_def
      less_list_code)

theorem progress_listeners_converge_witness:
  "\<exists>c. sync_run plain_machine one_item c \<and> li_view c ''a'' \<noteq> None \<and>
       (let c' = listener_apply plain_machine (progress_delta (li_seq c) one_item) c in
        li_seq c' = 3 \<and> li_view c' ''a'' = None \<and> li_view c' ''b'' \<noteq> None)"
proof -
  let ?m = plain_machine
  let ?c = "listener_apply ?m (progress_delta (li_seq listener_new) two_items) listener_new"
  have "sync_run ?m (progress_apply ?m (StartItem ''b'') (progress_apply ?m (StartItem ''a'') progress_new)) listener_new"
    by (intro sync_run.sync_op sync_run.sync_new)
      (simp_all add: progress_apply_def progress_start_def progress_check_def progress_advance_def wrap_i64_def
        progress_new_def progress_cost_def isize_max_def Let_def)
  then have "sync_run ?m two_items listener_new" by (simp add: two_items_run)
  then have "sync_run ?m two_items ?c" by (rule sync_run.sync_delta) (simp add: two_items_def)
  then have "sync_run ?m (progress_apply ?m (RemoveItems [''a'']) two_items) ?c"
    by (rule sync_run.sync_op) (simp add: two_items_def progress_cost_def isize_max_def)
  then have run: "sync_run ?m one_item ?c" by (simp add: two_items_run)
  have seen: "li_view ?c ''a'' \<noteq> None"
    by (simp add: listener_apply_def listener_new_def progress_delta_def two_items_def fresh_item_def bt_retain_def
        item_finite_def f64_is_finite_def bt_get_def Let_def)
  have "\<not> pg_closed one_item" "list_all (\<lambda>(_, i). item_finite i) (pg_items one_item)"
    by (simp_all add: one_item_def two_items_def fresh_item_def item_finite_def f64_is_finite_def)
  from progress_listeners_converge [OF run this] run seen show ?thesis
    by (intro exI [of _ ?c]) (simp add: Let_def registry_view_def one_item_def two_items_def bt_get_def)
qed

end
