(* ===== verification/Coalescer.thy ===== *)
theory Coalescer
  imports BTree_Map Rust_Text
begin

text \<open>
  Single-flight request coalescing (\<open>crates/providers/src/coalescer.rs\<close>). Flights are shared
  through \<open>Arc\<close>, so they live in a store (a list) and an \<open>Arc<Flight>\<close> is an index into it;
  \<open>Arc::ptr_eq\<close> is equality of indices. The flight table is the \<open>Coalescer\<close> kept inside a
  service's state mutex.
\<close>

section \<open>Flights\<close>

record ('v, 't) flight =
  fl_tag :: 't
  fl_waiters :: nat
  fl_result :: "'v option"

definition flight_new :: "'t \<Rightarrow> ('v, 't) flight" where
  "flight_new t = \<lparr>fl_tag = t, fl_waiters = 0, fl_result = None\<rparr>"

definition flight_join :: "nat \<Rightarrow> ('v, 't) flight list \<Rightarrow> ('v, 't) flight list" where
  "flight_join f heap = heap[f := (heap ! f)\<lparr>fl_waiters := fl_waiters (heap ! f) + 1\<rparr>]"

text \<open>Worker-side liveness: closed is reported before cancellation.\<close>

definition flight_check :: "('v, 't) flight \<Rightarrow> bool \<Rightarrow> 'e \<Rightarrow> 'e \<Rightarrow> ('e, unit) result" where
  "flight_check fl closed closed_message cancelled_message =
     (if closed then Inl closed_message
      else if fl_waiters fl = 0 then Inl cancelled_message
      else Inr ())"

text \<open>
  The wait loop polls. One round is the caller's check, the result cell under its lock, and the
  caller's check again after the value was cloned; \<open>None\<close>: still waiting after the rounds given.
\<close>

fun flight_wait ::
  "(('e, unit) result \<times> 'v option \<times> ('e, unit) result) list \<Rightarrow> ('e, 'v) result option" where
  "flight_wait [] = None"
| "flight_wait ((before, cell, after) # rounds) =
     (case before of
        Inl e \<Rightarrow> Some (Inl e)
      | Inr _ \<Rightarrow>
          (case cell of
             None \<Rightarrow> flight_wait rounds
           | Some v \<Rightarrow> (case after of Inl e \<Rightarrow> Some (Inl e) | Inr _ \<Rightarrow> Some (Inr v))))"

text \<open>Dropping a \<open>Waiter\<close> guard: \<open>fetch_sub\<close> wraps on underflow.\<close>

definition waiter_drop :: "nat \<Rightarrow> ('v, 't) flight list \<Rightarrow> ('v, 't) flight list" where
  "waiter_drop f heap = heap[f := (heap ! f)\<lparr>fl_waiters :=
     usize_dec (fl_waiters (heap ! f))\<rparr>]"

section \<open>The flight table\<close>

definition max_flights :: nat where
  "max_flights = 64"

record 'k coalescer =
  co_flights :: "('k, nat) btmap"
  co_active :: nat

definition coalescer_default :: "'k coalescer" where
  "coalescer_default = \<lparr>co_flights = bt_empty, co_active = 0\<rparr>"

definition is_full :: "'k coalescer \<Rightarrow> bool" where
  "is_full c \<longleftrightarrow> co_active c \<ge> max_flights"

text \<open>\<open>try_update\<close> raises the count only while it is nonzero, in one atomic step.\<close>

definition try_join ::
  "'k \<Rightarrow> 'k coalescer \<Rightarrow> ('v, 't) flight list \<Rightarrow> nat option \<times> ('v, 't) flight list" where
  "try_join k c heap =
     (case bt_get (co_flights c) k of
        None \<Rightarrow> (None, heap)
      | Some f \<Rightarrow>
          if fl_waiters (heap ! f) > 0
          then (Some f, flight_join f heap)
          else (None, heap))"

definition coalescer_insert :: "'k::linorder \<Rightarrow> nat \<Rightarrow> 'k coalescer \<Rightarrow> 'k coalescer" where
  "coalescer_insert k f c = c\<lparr>co_flights := bt_insert k f (co_flights c), co_active := co_active c + 1\<rparr>"

definition is_current :: "'k \<Rightarrow> nat \<Rightarrow> 'k coalescer \<Rightarrow> bool" where
  "is_current k f c \<longleftrightarrow> bt_get (co_flights c) k = Some f"

definition publish_result :: "nat \<Rightarrow> 'v \<Rightarrow> ('v, 't) flight list \<Rightarrow> ('v, 't) flight list" where
  "publish_result f v heap = heap[f := (heap ! f)\<lparr>fl_result := Some v\<rparr>]"

text \<open>\<open>finish\<close>: the table half and the flight half; \<open>active -= 1\<close> wraps below zero.\<close>

definition retire_flight :: "'k \<Rightarrow> nat \<Rightarrow> 'k coalescer \<Rightarrow> 'k coalescer" where
  "retire_flight k f c = c\<lparr>
     co_flights := (if is_current k f c then bt_remove k (co_flights c) else co_flights c),
     co_active := usize_dec (co_active c)\<rparr>"

definition coalescer_finish ::
  "'k \<Rightarrow> nat \<Rightarrow> 'v \<Rightarrow> 'k coalescer \<times> ('v, 't) flight list \<Rightarrow> 'k coalescer \<times> ('v, 't) flight list" where
  "coalescer_finish k f v = (\<lambda>(c, heap). (retire_flight k f c, publish_result f v heap))"

section \<open>The contract of the table\<close>

text \<open>
  What a service relies on: which flight a key points to, and how many workers count as active.
\<close>

locale flight_table =
  fixes current :: "'c \<Rightarrow> 'k \<Rightarrow> nat option"
    and active :: "'c \<Rightarrow> nat"
    and insert_flight :: "'k \<Rightarrow> nat \<Rightarrow> 'c \<Rightarrow> 'c"
    and retire :: "'k \<Rightarrow> nat \<Rightarrow> 'c \<Rightarrow> 'c"
    and ok_table :: "'c \<Rightarrow> bool"
  assumes current_insert: "ok_table c \<Longrightarrow>
      current (insert_flight k f c) k' = (if k' = k then Some f else current c k')"
    and current_retire: "ok_table c \<Longrightarrow>
      current (retire k f c) k' = (if k' = k \<and> current c k = Some f then None else current c k')"
    and active_insert: "active (insert_flight k f c) = active c + 1"
    and active_retire: "0 < active c \<Longrightarrow> active (retire k f c) = active c - 1"
    and ok_insert: "ok_table c \<Longrightarrow> ok_table (insert_flight k f c)"
    and ok_retire: "ok_table c \<Longrightarrow> ok_table (retire k f c)"
begin

text \<open>Finishing an abandoned flight leaves the flight that replaced it in place.\<close>

lemma stale_finish_keeps_replacement:
  "ok_table c \<Longrightarrow> f \<noteq> g \<Longrightarrow> current c k = Some g \<Longrightarrow> current (retire k f c) k = Some g"
  by (simp add: current_retire)

lemma replace_then_finish_both:
  assumes "ok_table c" "f \<noteq> g" "current c k = None"
  shows "current (retire k g (retire k f (insert_flight k g (insert_flight k f c)))) k = None"
    and "active (retire k g (retire k f (insert_flight k g (insert_flight k f c)))) = active c"
  using assms by (simp_all add: current_insert current_retire active_insert active_retire ok_insert ok_retire)

end

lemma retire_current:
  "bt_wf (co_flights c) \<Longrightarrow> bt_get (co_flights (retire_flight k f c)) k' =
     (if k' = k \<and> bt_get (co_flights c) k = Some f then None else bt_get (co_flights c) k')"
  by (auto simp: retire_flight_def is_current_def bt_get_remove)

lemma retire_wf: "bt_wf (co_flights c) \<Longrightarrow> bt_wf (co_flights (retire_flight k f c))"
  by (simp add: retire_flight_def)

interpretation table: flight_table
  "\<lambda>c. bt_get (co_flights c)" co_active coalescer_insert retire_flight "\<lambda>c. bt_wf (co_flights c)"
proof unfold_locales
  fix c :: "'a::linorder coalescer" and k k' f
  show "bt_wf (co_flights c) \<Longrightarrow> bt_get (co_flights (retire_flight k f c)) k' =
      (if k' = k \<and> bt_get (co_flights c) k = Some f then None else bt_get (co_flights c) k')"
    by (rule retire_current)
  show "bt_wf (co_flights c) \<Longrightarrow> bt_wf (co_flights (retire_flight k f c))"
    by (rule retire_wf)
  show "0 < co_active c \<Longrightarrow> co_active (retire_flight k f c) = co_active c - 1"
    by (simp add: retire_flight_def usize_dec_def)
qed (simp_all add: coalescer_insert_def bt_get_insert)

section \<open>Flight lemmas\<close>

lemma length_flight_join [simp]: "length (flight_join f heap) = length heap"
  by (simp add: flight_join_def)

lemma length_waiter_drop [simp]: "length (waiter_drop f heap) = length heap"
  by (simp add: waiter_drop_def)

lemma length_publish_result [simp]: "length (publish_result f v heap) = length heap"
  by (simp add: publish_result_def)

lemma flight_join_nth:
  "f < length heap \<Longrightarrow> flight_join f heap ! g =
     (if g = f then (heap ! f)\<lparr>fl_waiters := fl_waiters (heap ! f) + 1\<rparr> else heap ! g)"
  by (simp add: flight_join_def)

lemma waiter_drop_nth:
  "f < length heap \<Longrightarrow> waiter_drop f heap ! g =
     (if g = f then (heap ! f)\<lparr>fl_waiters :=
        (if fl_waiters (heap ! f) = 0 then u64_max else fl_waiters (heap ! f) - 1)\<rparr> else heap ! g)"
  by (simp add: waiter_drop_def usize_dec_def)

lemma publish_result_nth:
  "f < length heap \<Longrightarrow> publish_result f v heap ! g =
     (if g = f then (heap ! f)\<lparr>fl_result := Some v\<rparr> else heap ! g)"
  by (simp add: publish_result_def)

lemmas flight_nth = flight_join_nth waiter_drop_nth publish_result_nth

text \<open>A wait returns a value only if that value was published and both checks around it passed.\<close>

lemma flight_wait_value:
  "flight_wait rounds = Some (Inr v) \<Longrightarrow>
     \<exists>b a. (Inr b, Some v, Inr a) \<in> set rounds"
  by (induction rounds rule: flight_wait.induct) (auto split: sum.splits option.splits)

lemma flight_wait_returns:
  assumes "(b, c, a) \<in> set rounds" "c \<noteq> None \<or> \<not> is_ok b"
  shows "flight_wait rounds \<noteq> None"
  using assms by (induction rounds rule: flight_wait.induct) (auto split: sum.splits option.splits)

end
