(* ===== verification/Ttl_Cache.thy ===== *)
theory Ttl_Cache
  imports BTree_Map
begin

text \<open>
  The contract of the bounded caches with a time to live that several services keep (the
  MusicBrainz snapshots, the DNS-over-HTTPS answers). Storing may evict other keys but never
  alters what they hold; what a stored value shows is served until its time to live has passed.
\<close>

locale bounded_cache =
  fixes entries :: "'c \<Rightarrow> nat"
    and lookup :: "string \<Rightarrow> nat \<Rightarrow> 'c \<Rightarrow> 'w option"
    and store :: "nat \<Rightarrow> string \<Rightarrow> 'v \<Rightarrow> 'c \<Rightarrow> 'c"
    and shown :: "'v \<Rightarrow> 'w"
    and ttl :: "'v \<Rightarrow> nat"
    and ok_cache :: "'c \<Rightarrow> bool"
    and cap :: nat
  assumes lookup_store_same: "ok_cache c \<Longrightarrow>
      lookup k later (store now k v c) = (if later < now + ttl v then Some (shown v) else None)"
    and lookup_store_other: "ok_cache c \<Longrightarrow> k' \<noteq> k \<Longrightarrow>
      lookup k' later (store now k v c) = None \<or> lookup k' later (store now k v c) = lookup k' later c"
    and store_bounded: "ok_cache c \<Longrightarrow> entries (store now k v c) \<le> cap"
    and ok_store: "ok_cache c \<Longrightarrow> ok_cache (store now k v c)"
begin

definition store_all :: "(nat \<times> string \<times> 'v) list \<Rightarrow> 'c \<Rightarrow> 'c" where
  "store_all ops c = fold (\<lambda>(now, k, v). store now k v) ops c"

lemma ok_store_all: "ok_cache c \<Longrightarrow> ok_cache (store_all ops c)"
  by (induction ops arbitrary: c) (auto simp: store_all_def ok_store)

text \<open>Every answer is a value stored under that key within its time to live.\<close>

lemma answers_are_fresh:
  assumes "ok_cache c" "\<And>k t. lookup k t c = None" "lookup k later (store_all ops c) = Some w"
  shows "\<exists>now v. (now, k, v) \<in> set ops \<and> w = shown v \<and> later < now + ttl v"
  using assms(3)
proof (induction ops rule: rev_induct)
  case Nil
  with assms(2) show ?case by (simp add: store_all_def)
next
  case (snoc op ops)
  obtain now k' v' where op: "op = (now, k', v')" by (cases op) auto
  have last: "store_all (ops @ [op]) c = store now k' v' (store_all ops c)"
    by (simp add: store_all_def op)
  have okc: "ok_cache (store_all ops c)" by (rule ok_store_all [OF assms(1)])
  show ?case
  proof (cases "k' = k")
    case True
    with snoc.prems last lookup_store_same [OF okc] op show ?thesis by (auto split: if_splits)
  next
    case False
    with snoc last lookup_store_other [OF okc, of k k' later now v'] show ?thesis by fastforce
  qed
qed

end

end
