(* ===== verification/Musicbrainz_Client.thy ===== *)
theory Musicbrainz_Client
  imports Coalescer Ttl_Cache
begin

text \<open>
  The recording snapshot client (\<open>crates/providers/src/musicbrainz.rs\<close>), the smallest of the
  services built on the coalescer: a TTL cache, the flight table and the detached worker
  threads. Each definition below is one critical section of the state mutex, one atomic access,
  or the code between two of them; \<open>client_step\<close> interleaves them freely. The fetcher, the
  clock, \<open>thread::spawn\<close> and the caller's check callback are arguments, as is \<open>upper\<close>, the
  Unicode upper-casing of the ISRC.
\<close>

section \<open>Errors, options and the cache\<close>

datatype resolver_error =
  RFailed string | RTransport string | RCancelled string | RClosed | RBusy

type_synonym 'r mb_outcome = "(resolver_error, 'r) result"

record mb_options =
  mo_endpoint :: string
  mo_http_timeout :: nat
  mo_retry_delay :: nat
  mo_positive_ttl :: nat
  mo_negative_ttl :: nat

definition mb_options_default :: mb_options where
  "mb_options_default = \<lparr>mo_endpoint = ''https://musicbrainz.org'', mo_http_timeout = 10,
     mo_retry_delay = 2, mo_positive_ttl = 6 * 60 * 60, mo_negative_ttl = 10 * 60\<rparr>"

record 'r mb_entry =
  me_outcome :: "'r mb_outcome"
  me_expires :: nat

type_synonym 'r mb_cache = "(string, 'r mb_entry) btmap"

definition max_cache :: nat where
  "max_cache = 256"

definition cache_get :: "string \<Rightarrow> nat \<Rightarrow> 'r mb_cache \<Rightarrow> 'r mb_outcome option" where
  "cache_get k now cache =
     (case bt_get cache k of
        None \<Rightarrow> None
      | Some e \<Rightarrow> if now < me_expires e then Some (me_outcome e) else None)"

definition cache_make_room :: "nat \<Rightarrow> 'r mb_cache \<Rightarrow> 'r mb_cache" where
  "cache_make_room now cache =
     (if length cache \<ge> max_cache then
        (let kept = bt_retain (\<lambda>_ e. now \<le> me_expires e) cache in
         if length kept \<ge> max_cache then bt_empty else kept)
      else cache)"

definition cache_put :: "mb_options \<Rightarrow> nat \<Rightarrow> string \<Rightarrow> 'r mb_outcome \<Rightarrow> 'r mb_cache \<Rightarrow> 'r mb_cache" where
  "cache_put opts now k out cache =
     (let ttl = (if is_ok out then mo_positive_ttl opts else mo_negative_ttl opts) in
      bt_insert k \<lparr>me_outcome = out, me_expires = now + ttl\<rparr> (cache_make_room now cache))"

section \<open>The client\<close>

datatype 'r worker_phase = Running | Resolved "'r mb_outcome" | Finished

record 'r mb_worker =
  mw_key :: string
  mw_flight :: nat
  mw_phase :: "'r worker_phase"

text \<open>
  \<open>mb_workers\<close> are the threads ever spawned and \<open>mb_handles\<close> the join handles retained in
  \<open>State::workers\<close>; \<open>mb_guards\<close> are the \<open>Waiter\<close> drop guards alive.
\<close>

record 'r mb_client =
  mb_options :: mb_options
  mb_closed :: bool
  mb_flights :: "string coalescer"
  mb_handles :: "nat list"
  mb_cache :: "'r mb_cache"
  mb_heap :: "('r mb_outcome, unit) flight list"
  mb_workers :: "'r mb_worker list"
  mb_guards :: "nat list"

definition with_fetcher :: "mb_options \<Rightarrow> 'r mb_client" where
  "with_fetcher opts = \<lparr>mb_options = opts, mb_closed = False, mb_flights = coalescer_default,
     mb_handles = [], mb_cache = bt_empty, mb_heap = [], mb_workers = [], mb_guards = []\<rparr>"

definition closed_message :: string where
  "closed_message = ''MusicBrainz client closed''"

definition inner_check :: "bool \<Rightarrow> (string, unit) result \<Rightarrow> (resolver_error, unit) result" where
  "inner_check closed caller =
     (if closed then Inl (RCancelled closed_message)
      else case caller of Inl e \<Rightarrow> Inl (RCancelled e) | Inr u \<Rightarrow> Inr u)"

definition is_finished :: "'r mb_worker \<Rightarrow> bool" where
  "is_finished w \<longleftrightarrow> (case mw_phase w of Finished \<Rightarrow> True | _ \<Rightarrow> False)"

definition reap :: "'r mb_client \<Rightarrow> 'r mb_client" where
  "reap s = s\<lparr>mb_handles := filter (\<lambda>i. \<not> is_finished (mb_workers s ! i)) (mb_handles s)\<rparr>"

datatype 'r admission = Refused resolver_error | CacheHit "'r mb_outcome" | Waiting nat

text \<open>Starting a flight; \<open>spawn\<close> is what \<open>thread::Builder::spawn\<close> answers.\<close>

definition start_flight :: "(string, unit) result \<Rightarrow> string \<Rightarrow> 'r mb_client \<Rightarrow> 'r mb_client" where
  "start_flight spawn k s =
     (let f = length (mb_heap s);
          heap = flight_join f (mb_heap s @ [flight_new ()]);
          c = coalescer_insert k f (mb_flights s)
      in case spawn of
           Inr _ \<Rightarrow> s\<lparr>mb_flights := c, mb_heap := heap,
             mb_workers := mb_workers s @ [\<lparr>mw_key = k, mw_flight = f, mw_phase = Running\<rparr>],
             mb_handles := mb_handles s @ [length (mb_workers s)], mb_guards := f # mb_guards s\<rparr>
         | Inl e \<Rightarrow>
             (let (c', heap') = coalescer_finish k f (Inl (RFailed e)) (c, heap)
              in s\<lparr>mb_flights := c', mb_heap := heap', mb_guards := f # mb_guards s\<rparr>))"

text \<open>
  The critical section of \<open>snapshot\<close>. A flight that is joined or started has its waiter
  registered inside the section, and its guard is created with nothing fallible in between.
\<close>

definition admit ::
  "(string, unit) result \<Rightarrow> nat \<Rightarrow> string \<Rightarrow> 'r mb_client \<Rightarrow> 'r admission \<times> 'r mb_client" where
  "admit spawn now k s =
     (case inner_check (mb_closed s) (Inr ()) of
        Inl e \<Rightarrow> (Refused e, s)
      | Inr _ \<Rightarrow>
          (let s1 = reap s in
           case cache_get k now (mb_cache s1) of
             Some v \<Rightarrow> (CacheHit v, s1)
           | None \<Rightarrow>
               (case try_join k (mb_flights s1) (mb_heap s1) of
                  (Some f, heap) \<Rightarrow> (Waiting f, s1\<lparr>mb_heap := heap, mb_guards := f # mb_guards s1\<rparr>)
                | (None, _) \<Rightarrow>
                    if is_full (mb_flights s1)
                    then (Refused (RFailed ''MusicBrainz lookup limit reached''), s1)
                    else (Waiting (length (mb_heap s1)), start_flight spawn k s1))))"

text \<open>\<open>snapshot\<close> up to the end of its critical section.\<close>

definition snapshot_begin ::
  "(string \<Rightarrow> string) \<Rightarrow> (string, unit) result \<Rightarrow> (string, unit) result \<Rightarrow> nat \<Rightarrow> string \<Rightarrow>
   'r mb_client \<Rightarrow> 'r admission \<times> 'r mb_client" where
  "snapshot_begin upper caller spawn now isrc s =
     (case inner_check (mb_closed s) caller of
        Inl e \<Rightarrow> (Refused e, s)
      | Inr _ \<Rightarrow>
          if length isrc > 65536
          then (Refused (RFailed ''MusicBrainz ISRC exceeds limit''), s)
          else admit spawn now (upper (trim isrc)) s)"

text \<open>The rest of \<open>snapshot\<close>: what the caller gets for an admission and what the wait saw.\<close>

definition snapshot_end ::
  "string \<Rightarrow> (resolver_error, unit) result \<Rightarrow>
   ((resolver_error, unit) result \<times> 'r mb_outcome option \<times> (resolver_error, unit) result) list \<Rightarrow>
   'r admission \<Rightarrow> (resolver_error, string \<times> 'r) result option" where
  "snapshot_end k check rounds adm =
     (case adm of
        Refused e \<Rightarrow> Some (Inl e)
      | CacheHit v \<Rightarrow> Some (try_bind check (\<lambda>_. try_bind v (\<lambda>r. Inr (k, r))))
      | Waiting f \<Rightarrow>
          map_option (\<lambda>res. try_bind res (\<lambda>v. try_bind v (\<lambda>r. Inr (k, r)))) (flight_wait rounds))"

text \<open>The drop of the \<open>Waiter\<close> guard when \<open>snapshot\<close> returns.\<close>

definition drop_guard :: "nat \<Rightarrow> 'r mb_client \<Rightarrow> 'r mb_client" where
  "drop_guard f s = s\<lparr>mb_heap := waiter_drop f (mb_heap s), mb_guards := remove1 f (mb_guards s)\<rparr>"

section \<open>The worker thread and shutdown\<close>

text \<open>\<open>fetched\<close> is the fetcher's answer, \<open>None\<close> when it panicked.\<close>

definition worker_fetch :: "string \<Rightarrow> 'r mb_outcome option \<Rightarrow> 'r mb_outcome" where
  "worker_fetch k fetched =
     (if k = [] then Inl (RFailed ''no ISRC provided'')
      else case fetched of
             None \<Rightarrow> Inl (RFailed ''MusicBrainz request panicked'')
           | Some out \<Rightarrow> out)"

definition worker_resolve :: "'r mb_outcome option \<Rightarrow> nat \<Rightarrow> 'r mb_client \<Rightarrow> 'r mb_client" where
  "worker_resolve fetched i s =
     (let w = mb_workers s ! i;
          alive = flight_check (mb_heap s ! mw_flight w) (mb_closed s) closed_message
                    ''MusicBrainz request cancelled'';
          out = (case alive of Inl e \<Rightarrow> Inl (RCancelled e) | Inr _ \<Rightarrow> worker_fetch (mw_key w) fetched)
      in s\<lparr>mb_workers := (mb_workers s)[i := w\<lparr>mw_phase := Resolved out\<rparr>]\<rparr>)"

definition cacheable :: "'r mb_outcome \<Rightarrow> bool" where
  "cacheable out \<longleftrightarrow>
     (case out of Inl (RCancelled _) \<Rightarrow> False | Inl RClosed \<Rightarrow> False | Inl RBusy \<Rightarrow> False | _ \<Rightarrow> True)"

definition inner_finish :: "nat \<Rightarrow> string \<Rightarrow> nat \<Rightarrow> 'r mb_outcome \<Rightarrow> 'r mb_client \<Rightarrow> 'r mb_client" where
  "inner_finish now k f out s =
     (let cache = (if is_current k f (mb_flights s) \<and> \<not> mb_closed s \<and>
                      fl_waiters (mb_heap s ! f) > 0 \<and> cacheable out
                   then cache_put (mb_options s) now k out (mb_cache s) else mb_cache s);
          (c, heap) = coalescer_finish k f out (mb_flights s, mb_heap s)
      in s\<lparr>mb_cache := cache, mb_flights := c, mb_heap := heap\<rparr>)"

definition worker_finish :: "nat \<Rightarrow> nat \<Rightarrow> 'r mb_client \<Rightarrow> 'r mb_client" where
  "worker_finish now i s =
     (let w = mb_workers s ! i in
      case mw_phase w of
        Resolved out \<Rightarrow>
          (inner_finish now (mw_key w) (mw_flight w) out s)
            \<lparr>mb_workers := (mb_workers s)[i := w\<lparr>mw_phase := Finished\<rparr>]\<rparr>
      | _ \<Rightarrow> s)"

definition close_client :: "'r mb_client \<Rightarrow> 'r mb_client" where
  "close_client s = s\<lparr>mb_closed := True\<rparr>"

text \<open>The second half of \<open>shutdown\<close>, past its wait for \<open>active = 0\<close>.\<close>

definition drain_client :: "'r mb_client \<Rightarrow> 'r mb_client" where
  "drain_client s = s\<lparr>mb_cache := bt_empty, mb_handles := []\<rparr>"

inductive client_step :: "'r mb_client \<Rightarrow> 'r mb_client \<Rightarrow> bool" where
  step_admit: "client_step s (snd (snapshot_begin upper caller spawn now isrc s))"
| step_drop: "f \<in> set (mb_guards s) \<Longrightarrow> client_step s (drop_guard f s)"
| step_resolve: "i < length (mb_workers s) \<Longrightarrow> mw_phase (mb_workers s ! i) = Running \<Longrightarrow>
    client_step s (worker_resolve fetched i s)"
| step_finish: "i < length (mb_workers s) \<Longrightarrow> mw_phase (mb_workers s ! i) = Resolved out \<Longrightarrow>
    client_step s (worker_finish now i s)"
| step_close: "client_step s (close_client s)"
| step_drain: "mb_closed s \<Longrightarrow> co_active (mb_flights s) = 0 \<Longrightarrow> client_step s (drain_client s)"

section \<open>The invariant\<close>

definition unfinished :: "'r mb_client \<Rightarrow> 'r mb_worker list" where
  "unfinished s = filter (\<lambda>w. \<not> is_finished w) (mb_workers s)"

definition cache_ok :: "'r mb_cache \<Rightarrow> bool" where
  "cache_ok cache \<longleftrightarrow> bt_wf cache \<and> length cache \<le> max_cache \<and>
     (\<forall>e \<in> snd ` set cache. cacheable (me_outcome e))"

text \<open>
  Guards are counted exactly; workers own pairwise different flights whose result is open until
  they finish; a table entry belongs to an unfinished worker of that key; and an unfinished
  worker that lost its table entry has no waiter left.
\<close>

definition client_inv :: "'r mb_client \<Rightarrow> bool" where
  "client_inv s \<longleftrightarrow>
     bt_wf (co_flights (mb_flights s)) \<and>
     co_active (mb_flights s) = length (unfinished s) \<and>
     co_active (mb_flights s) \<le> max_flights \<and>
     (\<forall>f < length (mb_heap s). fl_waiters (mb_heap s ! f) = count_list (mb_guards s) f) \<and>
     (\<forall>f \<in> set (mb_guards s). f < length (mb_heap s)) \<and>
     (\<forall>w \<in> set (mb_workers s). mw_flight w < length (mb_heap s)) \<and>
     distinct (map mw_flight (mb_workers s)) \<and>
     (\<forall>w \<in> set (unfinished s). fl_result (mb_heap s ! mw_flight w) = None) \<and>
     (\<forall>k f. bt_get (co_flights (mb_flights s)) k = Some f \<longrightarrow>
        (\<exists>w \<in> set (unfinished s). mw_key w = k \<and> mw_flight w = f)) \<and>
     (\<forall>w \<in> set (unfinished s). fl_waiters (mb_heap s ! mw_flight w) > 0 \<longrightarrow>
        bt_get (co_flights (mb_flights s)) (mw_key w) = Some (mw_flight w)) \<and>
     cache_ok (mb_cache s)"

lemma client_invD:
  assumes "client_inv s"
  shows "bt_wf (co_flights (mb_flights s))"
    and "co_active (mb_flights s) = length (unfinished s)"
    and "co_active (mb_flights s) \<le> max_flights"
    and "f < length (mb_heap s) \<Longrightarrow> fl_waiters (mb_heap s ! f) = count_list (mb_guards s) f"
    and "f \<in> set (mb_guards s) \<Longrightarrow> f < length (mb_heap s)"
    and "w \<in> set (mb_workers s) \<Longrightarrow> mw_flight w < length (mb_heap s)"
    and "distinct (map mw_flight (mb_workers s))"
    and "w \<in> set (unfinished s) \<Longrightarrow> fl_result (mb_heap s ! mw_flight w) = None"
    and "bt_get (co_flights (mb_flights s)) k = Some f \<Longrightarrow>
           \<exists>w \<in> set (unfinished s). mw_key w = k \<and> mw_flight w = f"
    and "w \<in> set (unfinished s) \<Longrightarrow> fl_waiters (mb_heap s ! mw_flight w) > 0 \<Longrightarrow>
           bt_get (co_flights (mb_flights s)) (mw_key w) = Some (mw_flight w)"
    and "cache_ok (mb_cache s)"
  using assms unfolding client_inv_def by blast+

lemma client_invI:
  assumes "bt_wf (co_flights (mb_flights s))"
    and "co_active (mb_flights s) = length (unfinished s)"
    and "co_active (mb_flights s) \<le> max_flights"
    and "\<And>f. f < length (mb_heap s) \<Longrightarrow> fl_waiters (mb_heap s ! f) = count_list (mb_guards s) f"
    and "\<And>f. f \<in> set (mb_guards s) \<Longrightarrow> f < length (mb_heap s)"
    and "\<And>w. w \<in> set (mb_workers s) \<Longrightarrow> mw_flight w < length (mb_heap s)"
    and "distinct (map mw_flight (mb_workers s))"
    and "\<And>w. w \<in> set (unfinished s) \<Longrightarrow> fl_result (mb_heap s ! mw_flight w) = None"
    and "\<And>k f. bt_get (co_flights (mb_flights s)) k = Some f \<Longrightarrow>
           \<exists>w \<in> set (unfinished s). mw_key w = k \<and> mw_flight w = f"
    and "\<And>w. w \<in> set (unfinished s) \<Longrightarrow> fl_waiters (mb_heap s ! mw_flight w) > 0 \<Longrightarrow>
           bt_get (co_flights (mb_flights s)) (mw_key w) = Some (mw_flight w)"
    and "cache_ok (mb_cache s)"
  shows "client_inv s"
  using assms unfolding client_inv_def by blast

lemma client_inv_cong:
  assumes "client_inv s"
    and "mb_flights s' = mb_flights s" "mb_heap s' = mb_heap s" "mb_workers s' = mb_workers s"
    and "mb_guards s' = mb_guards s" "cache_ok (mb_cache s')"
  shows "client_inv s'"
  using assms(1,6) unfolding client_inv_def unfinished_def assms(2-5) by blast

section \<open>The cache\<close>

lemma snd_set_bt_insert: "snd ` set (bt_insert k v m) \<subseteq> insert v (snd ` set m)"
  by (induction k v m rule: bt_insert.induct) auto

lemma make_room_ok:
  assumes "cache_ok cache"
  shows "cache_ok (cache_make_room now cache)" and "length (cache_make_room now cache) < max_cache"
proof -
  have "length (bt_retain p cache) \<le> max_cache" and "set (bt_retain p cache) \<subseteq> set cache" for p
    using assms le_trans [OF length_filter_le]
    by (auto simp: bt_retain_def cache_ok_def)
  with assms show "cache_ok (cache_make_room now cache)"
    by (fastforce simp: cache_ok_def cache_make_room_def Let_def bt_empty_def)
  show "length (cache_make_room now cache) < max_cache"
    by (simp add: cache_make_room_def Let_def bt_empty_def max_cache_def)
qed

lemma cache_put_ok:
  assumes "cache_ok cache" "cacheable out"
  shows "cache_ok (cache_put opts now k out cache)"
proof -
  let ?c = "cache_make_room now cache"
  have "cache_ok ?c" "length ?c < max_cache" using assms(1) by (rule make_room_ok)+
  moreover have "length (bt_insert k e ?c) \<le> max_cache" for e
    using bt_insert_length [of k e ?c] \<open>length ?c < max_cache\<close> by simp
  ultimately show ?thesis
    using assms(2) snd_set_bt_insert [of k _ ?c]
    by (fastforce simp: cache_ok_def cache_put_def Let_def)
qed

lemma make_room_get:
  assumes "bt_wf cache"
  shows "bt_get (cache_make_room now cache) k = None \<or> bt_get (cache_make_room now cache) k = bt_get cache k"
  using bt_get_retain [OF assms, of _ k]
  by (auto simp: cache_make_room_def Let_def bt.get_empty split: option.splits)

lemma make_room_wf: "bt_wf cache \<Longrightarrow> bt_wf (cache_make_room now cache)"
  by (simp add: cache_make_room_def Let_def)

interpretation snapshots: bounded_cache length cache_get "\<lambda>now k out. cache_put opts now k out"
  "\<lambda>out. out" "\<lambda>out. if is_ok out then mo_positive_ttl opts else mo_negative_ttl opts" bt_wf max_cache for opts
proof unfold_locales
  fix c :: "'a mb_cache" and k k' later now and out :: "'a mb_outcome"
  assume wf: "bt_wf c"
  note wfr = make_room_wf [OF wf, of now]
  show "cache_get k later (cache_put opts now k out c) =
      (if later < now + (if is_ok out then mo_positive_ttl opts else mo_negative_ttl opts) then Some out else None)"
    using wfr by (auto simp: cache_get_def cache_put_def Let_def bt_get_insert)
  show "bt_wf (cache_put opts now k out c)" using wfr by (simp add: cache_put_def Let_def)
  show "length (cache_put opts now k out c) \<le> max_cache"
  proof -
    have "length (cache_make_room now c) < max_cache"
      by (simp add: cache_make_room_def Let_def bt_empty_def max_cache_def)
    then show ?thesis unfolding cache_put_def Let_def
      by (meson bt_insert_length le_trans Suc_leI)
  qed
  assume "k' \<noteq> k"
  then show "cache_get k' later (cache_put opts now k out c) = None \<or>
      cache_get k' later (cache_put opts now k out c) = cache_get k' later c"
    using wfr make_room_get [OF wf, of now k'] by (auto simp: cache_get_def cache_put_def Let_def bt_get_insert)
qed

text \<open>
  What storing does to what is served: it drops the other outcomes only when the cache is full of outcomes
  that have not expired. A finished lookup is stored when a caller still waits for it, the client is open and
  the outcome may be cached.
\<close>

definition full_of_live :: "nat \<Rightarrow> 'r mb_cache \<Rightarrow> bool" where
  "full_of_live now cache \<longleftrightarrow> max_cache \<le> length (filter (\<lambda>(_, e). now \<le> me_expires e) cache)"

definition keeps_outcome :: "'r mb_client \<Rightarrow> 'r mb_worker \<Rightarrow> 'r mb_outcome \<Rightarrow> bool" where
  "keeps_outcome s w out \<longleftrightarrow> fl_waiters (mb_heap s ! mw_flight w) > 0 \<and> \<not> mb_closed s \<and> cacheable out"

lemma make_room_later:
  assumes "bt_wf cache" "now \<le> later"
  shows "cache_get k later (cache_make_room now cache) = (if full_of_live now cache then None else cache_get k later cache)"
proof -
  have full: "full_of_live now cache \<longleftrightarrow> max_cache \<le> length (bt_retain (\<lambda>_ e. now \<le> me_expires e) cache)"
    by (simp add: full_of_live_def bt_retain_def)
  have "length (bt_retain (\<lambda>_ e. now \<le> me_expires e) cache) \<le> length cache" by (simp add: bt_retain_def)
  moreover have "cache_get k later (bt_retain (\<lambda>_ e. now \<le> me_expires e) cache) = cache_get k later cache"
    using assms(2) by (auto simp: cache_get_def bt_get_retain [OF assms(1)] split: option.splits)
  moreover have "cache_get k later bt_empty = None" by (simp add: cache_get_def bt.get_empty)
  ultimately show ?thesis unfolding cache_make_room_def Let_def full by auto
qed

lemma cache_put_later:
  assumes "bt_wf cache" "now \<le> later"
  shows "cache_get k' later (cache_put opts now k out cache) =
    (if k' = k then if later < now + (if is_ok out then mo_positive_ttl opts else mo_negative_ttl opts) then Some out else None
     else if full_of_live now cache then None else cache_get k' later cache)"
proof (cases "k' = k")
  case True
  then show ?thesis using snapshots.lookup_store_same [OF assms(1)] by simp
next
  case False
  have "cache_get k' later (cache_put opts now k out cache) = cache_get k' later (cache_make_room now cache)"
    using False make_room_wf [OF assms(1)] by (simp add: cache_get_def cache_put_def Let_def bt_get_insert)
  then show ?thesis using False make_room_later [OF assms] by simp
qed

section \<open>Each step keeps the invariant\<close>

lemma unfinished_frame [simp]:
  "unfinished (s\<lparr>mb_heap := h\<rparr>) = unfinished s"
  "unfinished (s\<lparr>mb_handles := hs\<rparr>) = unfinished s"
  "unfinished (s\<lparr>mb_guards := gs\<rparr>) = unfinished s"
  "unfinished (s\<lparr>mb_flights := c\<rparr>) = unfinished s"
  "unfinished (s\<lparr>mb_cache := ca\<rparr>) = unfinished s"
  by (simp_all add: unfinished_def)

lemma reap_inv [step_inv]: "client_inv s \<Longrightarrow> client_inv (reap s)"
  by (rule client_inv_cong) (auto simp: reap_def client_inv_def)

lemma close_inv [step_inv]: "client_inv s \<Longrightarrow> client_inv (close_client s)"
  by (rule client_inv_cong) (auto simp: close_client_def client_inv_def)

lemma drain_inv [step_inv]: "client_inv s \<Longrightarrow> client_inv (drain_client s)"
  by (rule client_inv_cong) (auto simp: drain_client_def cache_ok_def bt_empty_def)

lemma with_fetcher_inv: "client_inv (with_fetcher opts)"
  by (simp add: client_inv_def with_fetcher_def coalescer_default_def unfinished_def bt.get_empty
      cache_ok_def bt_empty_def bt_get_def)

text \<open>Steps that only move waiters: what has to be shown about the counts.\<close>

lemma waiters_change_inv:
  assumes inv: "client_inv s" and len: "length h = length (mb_heap s)"
    and res: "\<And>g. fl_result (h ! g) = fl_result (mb_heap s ! g)"
    and count: "\<And>g. g < length (mb_heap s) \<Longrightarrow> fl_waiters (h ! g) = count_list gs g"
    and gs: "\<And>g. g \<in> set gs \<Longrightarrow> g < length (mb_heap s)"
    and live: "\<And>w. w \<in> set (unfinished s) \<Longrightarrow> fl_waiters (h ! mw_flight w) > 0 \<Longrightarrow>
      bt_get (co_flights (mb_flights s)) (mw_key w) = Some (mw_flight w)"
  shows "client_inv (s\<lparr>mb_heap := h, mb_guards := gs\<rparr>)"
  using inv len res count gs live unfolding client_inv_def unfinished_def by simp

lemma unfinished_unique:
  assumes "client_inv s" "v \<in> set (unfinished s)" "w \<in> set (unfinished s)" "mw_flight v = mw_flight w"
  shows "v = w"
  using client_invD(7) [OF assms(1)] assms(2-)
  by (auto simp: unfinished_def distinct_map dest: inj_onD)

lemma current_in_heap:
  assumes "client_inv s" "bt_get (co_flights (mb_flights s)) k = Some f"
  shows "f < length (mb_heap s)"
  using client_invD(9) [OF assms] client_invD(6) [OF assms(1)] by (auto simp: unfinished_def)

text \<open>A caller that joins the live flight of its key.\<close>

lemma join_inv:
  assumes inv: "client_inv s" and cur: "bt_get (co_flights (mb_flights s)) k = Some f"
  shows "client_inv (s\<lparr>mb_heap := flight_join f (mb_heap s), mb_guards := f # mb_guards s\<rparr>)"
proof (rule waiters_change_inv [OF inv])
  note f = current_in_heap [OF inv cur]
  fix w assume w: "w \<in> set (unfinished s)" "0 < fl_waiters (flight_join f (mb_heap s) ! mw_flight w)"
  show "bt_get (co_flights (mb_flights s)) (mw_key w) = Some (mw_flight w)"
  proof (cases "mw_flight w = f")
    case True
    with client_invD(9) [OF inv cur] unfinished_unique [OF inv w(1)] cur show ?thesis by metis
  next
    case False
    with w client_invD(10) [OF inv w(1)] f show ?thesis by (simp add: flight_join_nth)
  qed
qed (use inv current_in_heap [OF inv cur] in \<open>auto simp: flight_join_nth dest: client_invD\<close>)

text \<open>A waiter leaves; nobody joins a flight without waiters again.\<close>

lemma count_list_remove1:
  "count_list (remove1 x xs) y = (if y = x then count_list xs y - 1 else count_list xs y)"
  by (induction xs) (auto simp: neq0_conv [symmetric])

lemma drop_inv [step_inv]:
  assumes inv: "client_inv s" and f: "f \<in> set (mb_guards s)"
  shows "client_inv (drop_guard f s)"
  unfolding drop_guard_def
proof (rule waiters_change_inv [OF inv])
  have len: "f < length (mb_heap s)" using client_invD(5) [OF inv f] .
  have pos: "0 < fl_waiters (mb_heap s ! f)"
    using client_invD(4) [OF inv len] f by (metis count_list_0_iff neq0_conv)
  show "fl_waiters (waiter_drop f (mb_heap s) ! g) = count_list (remove1 f (mb_guards s)) g"
    if "g < length (mb_heap s)" for g
    using client_invD(4) [OF inv that] pos len by (auto simp: waiter_drop_nth count_list_remove1)
  show "bt_get (co_flights (mb_flights s)) (mw_key w) = Some (mw_flight w)"
    if "w \<in> set (unfinished s)" "0 < fl_waiters (waiter_drop f (mb_heap s) ! mw_flight w)" for w
    using client_invD(10) [OF inv that(1)] that pos len by (auto simp: waiter_drop_nth split: if_splits)
  show "fl_result (waiter_drop f (mb_heap s) ! g) = fl_result (mb_heap s ! g)" for g
    using len by (simp add: waiter_drop_nth)
  show "g < length (mb_heap s)" if "g \<in> set (remove1 f (mb_guards s))" for g
    using client_invD(5) [OF inv] that by (meson notin_set_remove1)
qed simp

text \<open>A flight that is started: spawned, or published at once because the spawn failed.\<close>

lemma spawn_inv:
  assumes inv: "client_inv s" and room: "\<not> is_full (mb_flights s)"
    and dead: "\<And>f. bt_get (co_flights (mb_flights s)) k = Some f \<Longrightarrow> fl_waiters (mb_heap s ! f) = 0"
  shows "client_inv (start_flight (Inr ()) k s)"
proof -
  let ?f = "length (mb_heap s)"
  let ?w = "\<lparr>mw_key = k, mw_flight = ?f, mw_phase = Running\<rparr> :: 'a mb_worker"
  let ?t = "start_flight (Inr ()) k s"
  have un: "unfinished ?t = unfinished s @ [?w]"
    by (simp add: unfinished_def start_flight_def Let_def is_finished_def)
  have heap: "mb_heap ?t ! g = (if g = ?f then (flight_new ())\<lparr>fl_waiters := 1\<rparr> else mb_heap s ! g)"
    if "g \<le> ?f" for g
    using that by (auto simp: start_flight_def Let_def flight_join_nth flight_new_def nth_append)
  have get: "bt_get (co_flights (mb_flights ?t)) k' =
      (if k' = k then Some ?f else bt_get (co_flights (mb_flights s)) k')" for k'
    using client_invD(1) [OF inv]
    by (simp add: start_flight_def Let_def coalescer_insert_def bt_get_insert)
  have fields: "mb_guards ?t = ?f # mb_guards s" "length (mb_heap ?t) = Suc ?f" "mb_cache ?t = mb_cache s"
    "mb_workers ?t = mb_workers s @ [?w]" "co_active (mb_flights ?t) = Suc (co_active (mb_flights s))"
    "co_flights (mb_flights ?t) = bt_insert k ?f (co_flights (mb_flights s))"
    by (simp_all add: start_flight_def Let_def coalescer_insert_def)
  have small: "mw_flight w < ?f" if "w \<in> set (unfinished s)" for w
    using client_invD(6) [OF inv, of w] that by (simp add: unfinished_def)
  have fresh: "?f \<notin> set (mb_guards s)" using client_invD(5) [OF inv] by blast
  show ?thesis
  proof (rule client_invI)
    show "fl_waiters (mb_heap ?t ! f) = count_list (mb_guards ?t) f" if "f < length (mb_heap ?t)" for f
      using that fresh client_invD(4) [OF inv] by (auto simp: heap fields count_list_0_iff)
    show "distinct (map mw_flight (mb_workers ?t))"
      using client_invD(6,7) [OF inv] by (fastforce simp: fields)
    show "fl_result (mb_heap ?t ! mw_flight w) = None" if "w \<in> set (unfinished ?t)" for w
      using that small client_invD(8) [OF inv] by (auto simp: un heap flight_new_def less_imp_le)
    show "\<exists>w \<in> set (unfinished ?t). mw_key w = k' \<and> mw_flight w = f"
      if "bt_get (co_flights (mb_flights ?t)) k' = Some f" for k' f
      using that client_invD(9) [OF inv, of k' f] by (auto simp: un get split: if_splits)
    show "bt_get (co_flights (mb_flights ?t)) (mw_key w) = Some (mw_flight w)"
      if w: "w \<in> set (unfinished ?t)" "0 < fl_waiters (mb_heap ?t ! mw_flight w)" for w
    proof (cases "w = ?w")
      case False
      with w have old: "w \<in> set (unfinished s)" by (simp add: un)
      with w small [OF old] have "bt_get (co_flights (mb_flights s)) (mw_key w) = Some (mw_flight w)"
        and "0 < fl_waiters (mb_heap s ! mw_flight w)"
        by (auto simp: heap less_imp_le intro: client_invD(10) [OF inv])
      with dead show ?thesis by (auto simp: get)
    qed (simp add: get)
  qed (use client_invD [OF inv] room in \<open>auto simp: fields un is_full_def less_Suc_eq\<close>)
qed

lemma spawn_failed_inv:
  assumes inv: "client_inv s"
    and dead: "\<And>f. bt_get (co_flights (mb_flights s)) k = Some f \<Longrightarrow> fl_waiters (mb_heap s ! f) = 0"
  shows "client_inv (start_flight (Inl e) k s)"
proof -
  let ?f = "length (mb_heap s)"
  let ?t = "start_flight (Inl e) k s"
  have heap: "mb_heap ?t ! g = (if g = ?f then (flight_new ())\<lparr>fl_waiters := 1, fl_result := Some (Inl (RFailed e))\<rparr>
      else mb_heap s ! g)" if "g \<le> ?f" for g
    using that
    by (auto simp: start_flight_def Let_def coalescer_finish_def flight_nth flight_new_def nth_append)
  have fields: "mb_guards ?t = ?f # mb_guards s" "length (mb_heap ?t) = Suc ?f" "mb_cache ?t = mb_cache s"
    "mb_workers ?t = mb_workers s" "co_active (mb_flights ?t) = co_active (mb_flights s)"
    "mb_flights ?t = retire_flight k ?f (coalescer_insert k ?f (mb_flights s))"
    by (simp_all add: start_flight_def Let_def coalescer_finish_def table.active_insert retire_flight_def
        usize_dec_def coalescer_insert_def)
  have un: "unfinished ?t = unfinished s" by (simp add: unfinished_def fields)
  have wf: "bt_wf (co_flights (mb_flights s))" using client_invD(1) [OF inv] .
  have get: "bt_get (co_flights (mb_flights ?t)) k' =
      (if k' = k then None else bt_get (co_flights (mb_flights s)) k')" for k'
    using wf by (simp add: fields(6) table.current_retire table.current_insert table.ok_insert)
  have small: "mw_flight w < ?f" if "w \<in> set (mb_workers s)" for w
    using client_invD(6) [OF inv that] .
  have fresh: "?f \<notin> set (mb_guards s)" using client_invD(5) [OF inv] by blast
  show ?thesis
  proof (rule client_invI)
    show "fl_waiters (mb_heap ?t ! f) = count_list (mb_guards ?t) f" if "f < length (mb_heap ?t)" for f
      using that fresh client_invD(4) [OF inv] by (auto simp: heap fields count_list_0_iff)
    show "fl_result (mb_heap ?t ! mw_flight w) = None" if "w \<in> set (unfinished ?t)" for w
      using that small [of w] client_invD(8) [OF inv, of w]
      by (simp add: un heap less_imp_le unfinished_def fields(4))
    show "\<exists>w \<in> set (unfinished ?t). mw_key w = k' \<and> mw_flight w = f"
      if "bt_get (co_flights (mb_flights ?t)) k' = Some f" for k' f
      using that client_invD(9) [OF inv, of k' f] by (auto simp: un get split: if_splits)
    show "bt_get (co_flights (mb_flights ?t)) (mw_key w) = Some (mw_flight w)"
      if w: "w \<in> set (unfinished ?t)" "0 < fl_waiters (mb_heap ?t ! mw_flight w)" for w
    proof -
      have old: "w \<in> set (unfinished s)" and "mw_flight w < ?f" using w small [of w]
        by (simp_all add: un unfinished_def fields(4))
      with w have pos: "0 < fl_waiters (mb_heap s ! mw_flight w)" by (simp add: heap less_imp_le)
      with client_invD(10) [OF inv old] dead show ?thesis by (auto simp: get)
    qed
    show "bt_wf (co_flights (mb_flights ?t))"
      unfolding fields(6) by (intro table.ok_retire table.ok_insert wf)
  qed (use client_invD [OF inv] in \<open>auto simp: fields(1-5) un less_Suc_eq\<close>)
qed

lemma try_join_cases:
  "(case try_join k c heap of (Some f, heap') \<Rightarrow>
       bt_get (co_flights c) k = Some f \<and> fl_waiters (heap ! f) > 0 \<and> heap' = flight_join f heap
     | (None, heap') \<Rightarrow> heap' = heap \<and>
         (\<forall>f. bt_get (co_flights c) k = Some f \<longrightarrow> fl_waiters (heap ! f) = 0))"
  by (simp add: try_join_def split: option.splits)

lemma admit_inv [step_inv]:
  assumes inv: "client_inv s"
  shows "client_inv (snd (admit spawn now k s))"
proof -
  have r: "client_inv (reap s)" using inv by (rule reap_inv)
  have start: "client_inv (start_flight spawn k (reap s))"
    if "\<not> is_full (mb_flights (reap s))"
       "\<forall>f. bt_get (co_flights (mb_flights (reap s))) k = Some f \<longrightarrow> fl_waiters (mb_heap (reap s) ! f) = 0"
    using that spawn_inv [OF r] spawn_failed_inv [OF r] by (cases spawn) auto
  show ?thesis
    using inv r start join_inv [OF r, of k] try_join_cases [where k = k and c = "mb_flights (reap s)" and heap = "mb_heap (reap s)"]
    by (auto simp: admit_def Let_def split: sum.splits option.splits prod.splits)
qed

lemma begin_inv [step_inv]:
  "client_inv s \<Longrightarrow> client_inv (snd (snapshot_begin upper caller spawn now isrc s))"
  by (auto simp: snapshot_begin_def split: sum.splits intro: admit_inv)

text \<open>The worker computes its outcome, and later publishes it.\<close>

definition worker_sig :: "'r mb_worker \<Rightarrow> string \<times> nat \<times> bool" where
  "worker_sig w = (mw_key w, mw_flight w, is_finished w)"

lemma same_sigs_inv:
  assumes inv: "client_inv s" and sigs: "map worker_sig ws = map worker_sig (mb_workers s)"
  shows "client_inv (s\<lparr>mb_workers := ws\<rparr>)"
proof -
  let ?t = "s\<lparr>mb_workers := ws\<rparr>"
  have twin: "\<exists>v \<in> set ys. mw_key v = mw_key w \<and> mw_flight v = mw_flight w \<and> is_finished v = is_finished w"
    if "map worker_sig xs = map worker_sig ys" "w \<in> set xs" for w :: "'a mb_worker" and xs ys
  proof -
    have "worker_sig w \<in> worker_sig ` set ys" using that by (metis image_eqI list.set_map)
    then show ?thesis by (auto simp: worker_sig_def)
  qed
  have old: "\<exists>v \<in> set (unfinished s). mw_key v = mw_key w \<and> mw_flight v = mw_flight w"
    if "w \<in> set (unfinished ?t)" for w
    using twin [OF sigs, of w] that by (auto simp: unfinished_def)
  have new: "\<exists>v \<in> set (unfinished ?t). mw_key v = mw_key w \<and> mw_flight v = mw_flight w"
    if "w \<in> set (unfinished s)" for w
    using twin [OF sigs [symmetric], of w] that by (auto simp: unfinished_def)
  have "map (fst \<circ> snd) (map worker_sig ws) = map (fst \<circ> snd) (map worker_sig (mb_workers s))"
    by (simp only: sigs)
  then have flights: "map mw_flight ws = map mw_flight (mb_workers s)"
    by (simp add: worker_sig_def comp_def)
  have "length (filter (Not \<circ> snd \<circ> snd) (map worker_sig ws)) =
      length (filter (Not \<circ> snd \<circ> snd) (map worker_sig (mb_workers s)))"
    by (simp only: sigs)
  then have len: "length (unfinished ?t) = length (unfinished s)"
    by (simp add: unfinished_def filter_map comp_def worker_sig_def)
  show ?thesis
  proof (rule client_invI)
    show "mw_flight w < length (mb_heap ?t)" if "w \<in> set (mb_workers ?t)" for w
      using twin [OF sigs, of w] that client_invD(6) [OF inv] by fastforce
    show "fl_result (mb_heap ?t ! mw_flight w) = None" if "w \<in> set (unfinished ?t)" for w
      using old [OF that] client_invD(8) [OF inv] by fastforce
    show "\<exists>w \<in> set (unfinished ?t). mw_key w = k \<and> mw_flight w = f"
      if "bt_get (co_flights (mb_flights ?t)) k = Some f" for k f
      using client_invD(9) [OF inv, of k f] that new by fastforce
    show "bt_get (co_flights (mb_flights ?t)) (mw_key w) = Some (mw_flight w)"
      if "w \<in> set (unfinished ?t)" "0 < fl_waiters (mb_heap ?t ! mw_flight w)" for w
      using old [OF that(1)] that(2) client_invD(10) [OF inv] by fastforce
  qed (use client_invD [OF inv] flights len in auto)
qed

lemma resolve_inv [step_inv]:
  assumes "client_inv s" "i < length (mb_workers s)" "mw_phase (mb_workers s ! i) = Running"
  shows "client_inv (worker_resolve fetched i s)"
  unfolding worker_resolve_def Let_def
proof (rule same_sigs_inv [OF assms(1)])
  show "map worker_sig ((mb_workers s)[i := (mb_workers s ! i)\<lparr>mw_phase := Resolved out\<rparr>]) =
      map worker_sig (mb_workers s)" for out
    using assms(2,3)
    by (intro nth_equalityI) (auto simp: nth_list_update worker_sig_def is_finished_def)
qed

lemma in_filter_update:
  assumes "i < length xs" "\<not> P v"
  shows "x \<in> set (filter P (xs[i := v])) \<longleftrightarrow> (\<exists>j < length xs. j \<noteq> i \<and> xs ! j = x \<and> P x)"
  using assms by (auto simp: in_set_conv_nth nth_list_update)

lemma finish_inv [step_inv]:
  assumes inv: "client_inv s" and i: "i < length (mb_workers s)"
    and ph: "mw_phase (mb_workers s ! i) = Resolved out"
  shows "client_inv (worker_finish now i s)"
proof -
  let ?w = "mb_workers s ! i"
  let ?f = "mw_flight ?w"
  let ?ws = "(mb_workers s)[i := ?w\<lparr>mw_phase := Finished\<rparr>]"
  let ?t = "worker_finish now i s"
  have w: "?w \<in> set (unfinished s)" using i ph by (simp add: unfinished_def is_finished_def)
  have f: "?f < length (mb_heap s)" using client_invD(6) [OF inv] i by simp
  have fields: "mb_workers ?t = ?ws" "mb_heap ?t = publish_result ?f out (mb_heap s)"
    "mb_flights ?t = retire_flight (mw_key ?w) ?f (mb_flights s)" "mb_guards ?t = mb_guards s"
    by (simp_all add: worker_finish_def inner_finish_def coalescer_finish_def ph Let_def)
  have cache: "cache_ok (mb_cache ?t)"
    using client_invD(11) [OF inv]
    by (auto simp: worker_finish_def inner_finish_def coalescer_finish_def ph Let_def cache_put_ok)
  have dist: "mw_flight (mb_workers s ! j) \<noteq> ?f" if "j < length (mb_workers s)" "j \<noteq> i" for j
    using client_invD(7) [OF inv] that i by (auto simp: distinct_conv_nth)
  have un: "v \<in> set (unfinished ?t) \<longleftrightarrow> v \<in> set (unfinished s) \<and> mw_flight v \<noteq> ?f" for v
  proof -
    have "v \<in> set (unfinished ?t) \<longleftrightarrow>
        (\<exists>j < length (mb_workers s). j \<noteq> i \<and> mb_workers s ! j = v \<and> \<not> is_finished v)"
      unfolding unfinished_def fields by (rule in_filter_update [OF i]) (simp add: is_finished_def)
    also have "\<dots> \<longleftrightarrow> v \<in> set (unfinished s) \<and> mw_flight v \<noteq> ?f"
      using dist by (auto simp: unfinished_def in_set_conv_nth)
    finally show ?thesis .
  qed
  have len: "length (unfinished ?t) + 1 = length (unfinished s)"
    unfolding unfinished_def fields
    by (rule filter_length_update [OF i]) (use w in \<open>auto simp: unfinished_def is_finished_def\<close>)
  have heap: "mb_heap ?t ! g = (if g = ?f then (mb_heap s ! ?f)\<lparr>fl_result := Some out\<rparr> else mb_heap s ! g)" for g
    using f by (simp add: fields publish_result_nth)
  have wf: "bt_wf (co_flights (mb_flights s))" by (rule client_invD(1) [OF inv])
  have get: "bt_get (co_flights (mb_flights ?t)) k = (if k = mw_key ?w \<and>
      bt_get (co_flights (mb_flights s)) (mw_key ?w) = Some ?f then None else bt_get (co_flights (mb_flights s)) k)" for k
    using wf by (simp add: fields table.current_retire)
  have act: "co_active (mb_flights ?t) = co_active (mb_flights s) - 1"
    unfolding fields(3) by (rule table.active_retire) (use client_invD(2) [OF inv] len in linarith)
  have flights: "map mw_flight ?ws = map mw_flight (mb_workers s)"
    using i by (simp add: map_update list_update_same_conv)
  show ?thesis
  proof (rule client_invI)
    show "\<exists>w \<in> set (unfinished ?t). mw_key w = k \<and> mw_flight w = f"
      if "bt_get (co_flights (mb_flights ?t)) k = Some f" for k f
    proof -
      from that have old: "bt_get (co_flights (mb_flights s)) k = Some f" by (simp add: get split: if_splits)
      from client_invD(9) [OF inv old] obtain v
        where v: "v \<in> set (unfinished s)" "mw_key v = k" "mw_flight v = f" by blast
      have "f \<noteq> ?f" using that v old unfinished_unique [OF inv v(1) w] by (auto simp: get)
      with v show ?thesis using un by blast
    qed
    show "bt_wf (co_flights (mb_flights ?t))" unfolding fields by (rule table.ok_retire [OF wf])
    show "bt_get (co_flights (mb_flights ?t)) (mw_key v) = Some (mw_flight v)"
      if "v \<in> set (unfinished ?t)" "0 < fl_waiters (mb_heap ?t ! mw_flight v)" for v
      using that client_invD(10) [OF inv, of v] by (auto simp: un heap get)
    show "mw_flight v < length (mb_heap ?t)" if "v \<in> set (mb_workers ?t)" for v
      using that client_invD(6) [OF inv] f
      by (auto simp: fields dest!: set_update_subset_insert [THEN subsetD])
    show "fl_waiters (mb_heap ?t ! g) = count_list (mb_guards ?t) g" if "g < length (mb_heap ?t)" for g
      using that client_invD(4) [OF inv, of g] by (auto simp: heap fields(4)) (simp_all add: fields(2))
    show "fl_result (mb_heap ?t ! mw_flight v) = None" if "v \<in> set (unfinished ?t)" for v
      using that client_invD(8) [OF inv, of v] by (simp add: un heap)
    show "distinct (map mw_flight (mb_workers ?t))"
      using client_invD(7) [OF inv] by (simp add: fields(1) flights)
    show "g < length (mb_heap ?t)" if "g \<in> set (mb_guards ?t)" for g
      using that client_invD(5) [OF inv] by (simp add: fields)
  qed (use client_invD(2,3) [OF inv] act len cache in auto)
qed

interpretation mbc: transition_system "with_fetcher opts" client_step client_inv
proof unfold_locales
  fix s t :: "'a mb_client"
  assume "client_inv s" "client_step s t"
  from this(2,1) show "client_inv t"
    by (cases rule: client_step.cases) (auto intro: step_inv)
qed (rule with_fetcher_inv)

inductive_cases client_stepE: "client_step s t"

section \<open>What a step does to an existing flight\<close>

definition settled_step :: "('v, 't) flight \<Rightarrow> ('v, 't) flight \<Rightarrow> bool" where
  "settled_step x y \<longleftrightarrow>
     (fl_result x \<noteq> None \<longrightarrow> fl_result y = fl_result x) \<and> (fl_waiters x = 0 \<longrightarrow> fl_waiters y = 0)"

lemma settled_refl [simp]: "settled_step x x"
  by (simp add: settled_step_def)

lemma start_flight_settled:
  "f < length (mb_heap s) \<Longrightarrow> settled_step (mb_heap s ! f) (mb_heap (start_flight spawn k s) ! f)"
  by (auto simp: start_flight_def Let_def coalescer_finish_def flight_nth nth_append settled_step_def
      split: sum.splits)

lemma admit_settled:
  assumes "client_inv s" "f < length (mb_heap s)"
  shows "settled_step (mb_heap s ! f) (mb_heap (snd (admit spawn now k s)) ! f)"
proof -
  have r: "mb_heap (reap s) = mb_heap s" "mb_flights (reap s) = mb_flights s" by (simp_all add: reap_def)
  have join: "settled_step (mb_heap s ! f) (flight_join g (mb_heap s) ! f)"
    if "bt_get (co_flights (mb_flights s)) k = Some g" "fl_waiters (mb_heap s ! g) > 0" for g
    using current_in_heap [OF assms(1) that(1)] that(2) by (auto simp: flight_join_nth settled_step_def)
  show ?thesis
    using assms(2) join start_flight_settled [of f "reap s" spawn k]
      try_join_cases [where k = k and c = "mb_flights (reap s)" and heap = "mb_heap (reap s)"]
    by (auto simp: admit_def Let_def r split: sum.splits option.splits prod.splits)
qed

lemma begin_settled:
  assumes "client_inv s" "f < length (mb_heap s)"
  shows "settled_step (mb_heap s ! f) (mb_heap (snd (snapshot_begin upper caller spawn now isrc s)) ! f)"
  using admit_settled [OF assms] by (auto simp: snapshot_begin_def split: sum.splits)

lemma finish_settled:
  assumes inv: "client_inv s" and i: "i < length (mb_workers s)"
    and ph: "mw_phase (mb_workers s ! i) = Resolved out"
  shows "settled_step (mb_heap s ! f) (mb_heap (worker_finish now i s) ! f)"
proof -
  have "fl_result (mb_heap s ! mw_flight (mb_workers s ! i)) = None" "mw_flight (mb_workers s ! i) < length (mb_heap s)"
    using client_invD(6,8) [OF inv, of "mb_workers s ! i"] i ph by (simp_all add: unfinished_def is_finished_def)
  then show ?thesis
    by (auto simp: worker_finish_def inner_finish_def coalescer_finish_def ph Let_def publish_result_nth
        settled_step_def)
qed

lemma drop_settled:
  assumes inv: "client_inv s" and g: "g \<in> set (mb_guards s)"
  shows "settled_step (mb_heap s ! f) (mb_heap (drop_guard g s) ! f)"
proof -
  have "g < length (mb_heap s)" using client_invD(5) [OF inv g] .
  moreover from this have "fl_waiters (mb_heap s ! g) \<noteq> 0"
    using client_invD(4) [OF inv] g by (simp add: count_list_0_iff)
  ultimately show ?thesis by (simp add: drop_guard_def waiter_drop_nth settled_step_def)
qed

lemmas settled_intros = begin_settled finish_settled drop_settled

lemma step_settled:
  assumes "client_inv s" "client_step s t" "f < length (mb_heap s)"
  shows "settled_step (mb_heap s ! f) (mb_heap t ! f)"
  using assms(2,1,3)
  by (cases rule: client_step.cases)
     (auto intro: settled_intros simp: worker_resolve_def Let_def close_client_def drain_client_def)

lemma options_kept: "client_step s t \<Longrightarrow> mb_options t = mb_options s"
  by (cases rule: client_step.cases)
    (auto simp: snapshot_begin_def admit_def reap_def start_flight_def drop_guard_def worker_resolve_def worker_finish_def
      inner_finish_def close_client_def drain_client_def coalescer_finish_def Let_def
      split: sum.splits option.splits prod.splits worker_phase.splits)

lemma options_reachable: "reachable_from client_step (with_fetcher opts) s \<Longrightarrow> mb_options s = opts"
  by (induction rule: reachable_from.induct) (simp_all add: with_fetcher_def options_kept)

lemma admit_hit:
  "fst (admit spawn now k s) = CacheHit out \<longleftrightarrow> \<not> mb_closed s \<and> cache_get k now (mb_cache s) = Some out"
  by (auto simp: admit_def inner_check_def reap_def Let_def split: option.splits prod.splits)


lemma cache_steps:
  assumes "client_step s t"
  shows "mb_cache t = mb_cache s \<or> mb_closed s \<and> mb_cache t = bt_empty \<or>
    (\<exists>i now out. i < length (mb_workers s) \<and> mw_phase (mb_workers s ! i) = Resolved out \<and> t = worker_finish now i s)"
  using assms
proof (cases rule: client_step.cases)
  case step_finish
  then show ?thesis by blast
qed (auto simp: snapshot_begin_def admit_def reap_def start_flight_def drop_guard_def worker_resolve_def close_client_def
      drain_client_def coalescer_finish_def Let_def split: sum.splits option.splits prod.splits)

lemma finish_stores:
  assumes "client_inv s" "i < length (mb_workers s)" "mw_phase (mb_workers s ! i) = Resolved out"
  shows "mb_cache (worker_finish now i s) =
    (if keeps_outcome s (mb_workers s ! i) out
     then cache_put (mb_options s) now (mw_key (mb_workers s ! i)) out (mb_cache s) else mb_cache s)"
proof -
  let ?w = "mb_workers s ! i"
  have "?w \<in> set (unfinished s)" using assms(2,3) by (simp add: unfinished_def is_finished_def)
  then have "is_current (mw_key ?w) (mw_flight ?w) (mb_flights s)" if "fl_waiters (mb_heap s ! mw_flight ?w) > 0"
    using client_invD(10) [OF assms(1) _ that] by (simp add: is_current_def)
  then show ?thesis
    by (auto simp: worker_finish_def assms(3) inner_finish_def keeps_outcome_def Let_def split: prod.splits)
qed

section \<open>Properties\<close>

text \<open>
  C20. Single flight under every interleaving of callers, workers and shutdown: the number of
  active workers is the number of unfinished threads and never exceeds the flight limit, and
  two unfinished workers for one key that both still have waiters are the same worker.
\<close>

theorem one_live_flight_per_key:
  assumes "reachable_from client_step (with_fetcher opts) s"
  shows "co_active (mb_flights s) = length (unfinished s) \<and> length (unfinished s) \<le> max_flights \<and>
    (\<forall>v \<in> set (unfinished s). \<forall>w \<in> set (unfinished s).
       mw_key v = mw_key w \<and> fl_waiters (mb_heap s ! mw_flight v) > 0 \<and>
       fl_waiters (mb_heap s ! mw_flight w) > 0 \<longrightarrow> v = w)"
proof -
  have inv: "client_inv s" using mbc.inv_reachable [OF assms] .
  have "v = w" if "v \<in> set (unfinished s)" "w \<in> set (unfinished s)" "mw_key v = mw_key w"
    "fl_waiters (mb_heap s ! mw_flight v) > 0" "fl_waiters (mb_heap s ! mw_flight w) > 0" for v w
    using client_invD(10) [OF inv that(1,4)] client_invD(10) [OF inv that(2,5)] that
      unfinished_unique [OF inv that(1,2)] by simp
  then show ?thesis using client_invD(2,3) [OF inv] by auto
qed

text \<open>Two callers of one key share the one worker that the first of them started.\<close>

definition demo_client :: "nat mb_client" where
  "demo_client =
     snd (snapshot_begin (\<lambda>x. x) (Inr ()) (Inr ()) 0 ''K''
       (snd (snapshot_begin (\<lambda>x. x) (Inr ()) (Inr ()) 0 ''K'' (with_fetcher mb_options_default))))"

lemma demo_client_reachable:
  "reachable_from client_step (with_fetcher mb_options_default) demo_client"
  unfolding demo_client_def 
  by (rule reach_step [rotated], rule step_admit, rule reach_step [rotated], rule step_admit, rule reach_start)

lemma demo_client_eval:
  "mb_workers demo_client = [\<lparr>mw_key = ''K'', mw_flight = 0, mw_phase = Running\<rparr>]"
  "mb_guards demo_client = [0, 0]"
  "co_active (mb_flights demo_client) = 1"
  "fl_waiters (mb_heap demo_client ! 0) = 2"
  "length (mb_heap demo_client) = 1"
  by (simp_all add: demo_client_def snapshot_begin_def with_fetcher_def inner_check_def admit_def reap_def
      cache_get_def try_join_def is_full_def max_flights_def start_flight_def coalescer_default_def
      coalescer_insert_def flight_join_def flight_new_def bt_get_def bt_empty_def trim_def
      trim_end_def is_ws1_def byte_of_def Let_def)

theorem one_live_flight_per_key_witness:
  "length (unfinished demo_client) = 1 \<and> mb_guards demo_client = [0, 0] \<and>
   fl_waiters (mb_heap demo_client ! 0) = 2"
  using one_live_flight_per_key [OF demo_client_reachable] by (simp add: demo_client_eval)

text \<open>
  C30. Results are shared and final: once a flight has published its result no later step changes
  it, and a flight that its last waiter left is never joined again, so the worker's liveness
  check keeps failing.
\<close>

theorem flights_settle_once:
  assumes "reachable_from client_step (with_fetcher opts) s" "client_step s t" "f < length (mb_heap s)"
  shows "(fl_result (mb_heap s ! f) \<noteq> None \<longrightarrow> fl_result (mb_heap t ! f) = fl_result (mb_heap s ! f)) \<and>
    (fl_waiters (mb_heap s ! f) = 0 \<longrightarrow> fl_waiters (mb_heap t ! f) = 0)"
  using step_settled [OF mbc.inv_reachable [OF assms(1)] assms(2,3)] by (simp add: settled_step_def)

text \<open>The demonstration after both callers gave up, before and after the client is closed.\<close>

lemma demo_abandoned: "reachable_from client_step (with_fetcher mb_options_default) (drop_guard 0 (drop_guard 0 demo_client))"
  by (rule reach_step [OF reach_step [OF demo_client_reachable]]; rule step_drop)
    (simp_all add: demo_client_eval drop_guard_def)

theorem flights_settle_once_witness:
  "fl_waiters (mb_heap (drop_guard 0 (drop_guard 0 demo_client)) ! 0) = 0 \<and>
   fl_waiters (mb_heap (close_client (drop_guard 0 (drop_guard 0 demo_client))) ! 0) = 0"
  using flights_settle_once [OF demo_abandoned step_close, of 0]
  by (simp add: demo_client_eval drop_guard_def waiter_drop_def usize_dec_def)

text \<open>
  C31. The cache of every reachable client holds at most 256 outcomes and none that is cancelled, closed or
  busy, and an admission is answered from it exactly when the client is open and the cache has a live outcome
  for the key. Finishing a lookup stores its outcome exactly when a caller still waits for it, the client is
  open and the outcome may be cached; it is then served exactly until its positive or negative time to live has
  passed, as far as no later step changes the cache. At any later instant the other keys are served what they
  were before, unless the cache was full of outcomes that had not expired: then they are all dropped. No other
  step changes the cache, except that a closed client empties it.
\<close>

theorem cache_serves_fresh_outcomes:
  assumes "reachable_from client_step (with_fetcher opts) s"
  shows "length (mb_cache s) \<le> max_cache \<and>
    (\<forall>spawn k now out. fst (admit spawn now k s) = CacheHit out \<longleftrightarrow>
       \<not> mb_closed s \<and> cache_get k now (mb_cache s) = Some out) \<and>
    (\<forall>k now out. cache_get k now (mb_cache s) = Some out \<longrightarrow> cacheable out) \<and>
    (\<forall>i now out k later. i < length (mb_workers s) \<longrightarrow> mw_phase (mb_workers s ! i) = Resolved out \<longrightarrow> now \<le> later \<longrightarrow>
       cache_get k later (mb_cache (worker_finish now i s)) =
         (if \<not> keeps_outcome s (mb_workers s ! i) out then cache_get k later (mb_cache s)
          else if k = mw_key (mb_workers s ! i)
          then if later < now + (if is_ok out then mo_positive_ttl opts else mo_negative_ttl opts) then Some out else None
          else if full_of_live now (mb_cache s) then None else cache_get k later (mb_cache s))) \<and>
    (\<forall>t. client_step s t \<longrightarrow> mb_cache t = mb_cache s \<or> mb_closed s \<and> mb_cache t = bt_empty \<or>
       (\<exists>i now out. i < length (mb_workers s) \<and> mw_phase (mb_workers s ! i) = Resolved out \<and> t = worker_finish now i s))"
proof (intro conjI allI impI)
  have inv: "client_inv s" by (rule mbc.inv_reachable [OF assms])
  then have ok: "cache_ok (mb_cache s)" by (rule client_invD)
  then show "length (mb_cache s) \<le> max_cache" by (simp add: cache_ok_def)
  show "cacheable out" if "cache_get k now (mb_cache s) = Some out" for k now out
    using that ok bt_get_Some_in [of "mb_cache s" k]
    by (force simp: cache_ok_def cache_get_def split: option.splits if_splits)
  have wf: "bt_wf (mb_cache s)" using ok by (simp add: cache_ok_def)
  show "cache_get k later (mb_cache (worker_finish now i s)) =
         (if \<not> keeps_outcome s (mb_workers s ! i) out then cache_get k later (mb_cache s)
          else if k = mw_key (mb_workers s ! i)
          then if later < now + (if is_ok out then mo_positive_ttl opts else mo_negative_ttl opts) then Some out else None
          else if full_of_live now (mb_cache s) then None else cache_get k later (mb_cache s))"
    if "i < length (mb_workers s)" "mw_phase (mb_workers s ! i) = Resolved out" "now \<le> later" for i now out k later
    unfolding finish_stores [OF inv that(1,2)] options_reachable [OF assms]
    using cache_put_later [OF wf that(3)] by simp
qed (rule admit_hit, erule cache_steps)

text \<open>The worker of the demonstration fetched the answer 7; stored at time 0 it is served for six hours.\<close>

definition demo_resolved :: "nat mb_client" where
  "demo_resolved = worker_resolve (Some (Inr 7)) 0 demo_client"

lemma demo_open: "mb_closed demo_client = False"
  by (simp add: demo_client_def snapshot_begin_def with_fetcher_def inner_check_def admit_def reap_def
      cache_get_def try_join_def is_full_def max_flights_def start_flight_def coalescer_default_def
      coalescer_insert_def flight_join_def flight_new_def bt_get_def bt_empty_def trim_def
      trim_end_def is_ws1_def byte_of_def Let_def)

lemma demo_resolved_reachable: "reachable_from client_step (with_fetcher mb_options_default) demo_resolved"
  unfolding demo_resolved_def
  by (rule reach_step [OF demo_client_reachable], rule step_resolve) (simp_all add: demo_client_eval)

lemma demo_resolved_eval:
  "mb_workers demo_resolved = [\<lparr>mw_key = ''K'', mw_flight = 0, mw_phase = Resolved (Inr 7)\<rparr>]"
  "keeps_outcome demo_resolved (mb_workers demo_resolved ! 0) (Inr 7)"
  by (simp_all add: demo_resolved_def worker_resolve_def Let_def flight_check_def demo_client_eval demo_open
      worker_fetch_def keeps_outcome_def cacheable_def)

theorem cache_serves_fresh_outcomes_witness:
  "cache_get ''K'' 21599 (mb_cache (worker_finish 0 0 demo_resolved)) = Some (Inr 7) \<and>
   cache_get ''K'' 21600 (mb_cache (worker_finish 0 0 demo_resolved)) = None"
proof -
  have hyps: "0 < length (mb_workers demo_resolved)" "mw_phase (mb_workers demo_resolved ! 0) = Resolved (Inr 7)"
    by (simp_all add: demo_resolved_eval)
  have served: "cache_get ''K'' later (mb_cache (worker_finish 0 0 demo_resolved)) =
      (if later < 21600 then Some (Inr 7) else None)" for later
    using cache_serves_fresh_outcomes [OF demo_resolved_reachable, THEN conjunct2, THEN conjunct2, THEN conjunct2,
        THEN conjunct1, rule_format, OF hyps, of 0 later "''K''"] demo_resolved_eval
    by (simp add: mb_options_default_def)
  show ?thesis by (simp add: served)
qed

text \<open>
  Shutdown: once the client is closed no step starts a worker, adds to the cache or raises
  the number of active workers, the client stays closed, and every snapshot is refused with the
  closed error.
\<close>

theorem closed_client_only_drains:
  assumes "reachable_from client_step (with_fetcher opts) s" "mb_closed s" "client_step s t"
  shows "mb_closed t \<and> map mw_flight (mb_workers t) = map mw_flight (mb_workers s) \<and>
    (mb_cache t = mb_cache s \<or> mb_cache t = bt_empty) \<and>
    co_active (mb_flights t) \<le> co_active (mb_flights s) \<and>
    snapshot_begin upper caller spawn now isrc t = (Refused (RCancelled closed_message), t)"
proof -
  have inv: "client_inv s" using mbc.inv_reachable [OF assms(1)] .
  have refuse: "snapshot_begin upper caller spawn now isrc u = (Refused (RCancelled closed_message), u)"
    if "mb_closed u" for upper caller spawn now isrc and u :: "'a mb_client"
    using that by (simp add: snapshot_begin_def inner_check_def)
  have act: "co_active (mb_flights s) > 0" if "i < length (mb_workers s)" "mw_phase (mb_workers s ! i) = Resolved out" for i out
  proof -
    have "mb_workers s ! i \<in> set (unfinished s)" using that by (simp add: unfinished_def is_finished_def)
    then show ?thesis using client_invD(2) [OF inv] by (auto intro: length_pos_if_in_set)
  qed
  show ?thesis using assms(3,2)
    by (cases rule: client_step.cases)
       (auto simp: refuse drop_guard_def worker_resolve_def worker_finish_def inner_finish_def
          coalescer_finish_def retire_flight_def usize_dec_def close_client_def drain_client_def Let_def map_update
          list_update_same_conv dest: act)
qed

theorem closed_client_only_drains_witness:
  "snapshot_begin (\<lambda>x. x) (Inr ()) (Inr ()) 5 ''J'' (drop_guard 0 (close_client demo_client)) =
     (Refused (RCancelled closed_message), drop_guard 0 (close_client demo_client)) \<and>
   mb_workers (drop_guard 0 (close_client demo_client)) \<noteq> []"
proof -
  have r: "reachable_from client_step (with_fetcher mb_options_default) (close_client demo_client)"
    by (rule reach_step [OF demo_client_reachable step_close])
  have step: "client_step (close_client demo_client) (drop_guard 0 (close_client demo_client))"
    by (rule step_drop) (simp add: close_client_def demo_client_eval)
  have closed: "mb_closed (close_client demo_client)" by (simp add: close_client_def)
  from closed_client_only_drains [OF r closed step] show ?thesis
    by (auto simp: close_client_def demo_client_eval)
qed

end
