(* ===== verification/Rate_Limiter.thy ===== *)
theory Rate_Limiter
  imports Musicbrainz_Client
begin

text \<open>
  The sliding-window rate limiter of the link resolver (\<open>crates/providers/src/resolver/rate.rs\<close>).
  Instants are natural numbers on the monotonic clock and \<open>duration_since\<close> saturates at zero.
  The timestamps are shared by all callers, so one round of the wait loop is one critical
  section and callers interleave between rounds.
\<close>

record rate_limiter =
  rl_timestamps :: "nat list"
  rl_maximum :: nat
  rl_window :: nat

definition rate_limiter_new :: "nat \<Rightarrow> nat \<Rightarrow> rate_limiter" where
  "rate_limiter_new maximum window = \<lparr>rl_timestamps = [], rl_maximum = maximum, rl_window = window\<rparr>"

text \<open>
  The possible ends of a round; \<open>Panicked\<close> is the \<open>unwrap\<close> of an empty queue, which a limiter of
  maximum zero runs into.
\<close>

datatype round_end = Rejected resolver_error | Admitted | Sleeping nat | Panicked

definition expire_stamps :: "nat \<Rightarrow> rate_limiter \<Rightarrow> rate_limiter" where
  "expire_stamps now r =
     r\<lparr>rl_timestamps := dropWhile (\<lambda>stamp. now - stamp \<ge> rl_window r) (rl_timestamps r)\<rparr>"

definition wait_round :: "(string, unit) result \<Rightarrow> nat \<Rightarrow> rate_limiter \<Rightarrow> round_end \<times> rate_limiter" where
  "wait_round check now r =
     (case check of
        Inl e \<Rightarrow> (Rejected (RCancelled e), r)
      | Inr _ \<Rightarrow>
          (let r1 = expire_stamps now r in
           if length (rl_timestamps r1) < rl_maximum r1
           then (Admitted, r1\<lparr>rl_timestamps := rl_timestamps r1 @ [now]\<rparr>)
           else case rl_timestamps r1 of
                  [] \<Rightarrow> (Panicked, r1)
                | front # _ \<Rightarrow> (Sleeping (min (rl_window r1 - (now - front)) 25), r1)))"

text \<open>
  A run of the limiter is the rounds of all its callers in lock order, each with its caller's
  check and the clock; the result logs the instants of the admissions.
\<close>

fun limiter_run :: "((string, unit) result \<times> nat) list \<Rightarrow> rate_limiter \<Rightarrow> nat list \<times> rate_limiter" where
  "limiter_run [] r = ([], r)"
| "limiter_run ((check, now) # rounds) r =
     (let (res, r1) = wait_round check now r;
          (log, r2) = limiter_run rounds r1
      in (if res = Admitted then now # log else log, r2))"

text \<open>
  \<open>limiter_inv r adm\<close>: the queue is the tail of the admissions so far, every admission that left
  the queue is a whole window in the past, and the queue is not longer than the maximum.
\<close>

definition limiter_inv :: "nat \<Rightarrow> rate_limiter \<Rightarrow> nat list \<Rightarrow> bool" where
  "limiter_inv now r adm \<longleftrightarrow>
     (\<exists>old. adm = old @ rl_timestamps r \<and> (\<forall>a \<in> set old. a + rl_window r \<le> now)) \<and>
     (\<forall>a \<in> set adm. a \<le> now) \<and> length (rl_timestamps r) \<le> rl_maximum r \<and>
     (\<forall>i. i + rl_maximum r < length adm \<longrightarrow> adm ! i + rl_window r \<le> adm ! (i + rl_maximum r))"

lemma expire_inv:
  assumes "limiter_inv past r adm" "past \<le> now"
  shows "limiter_inv now (expire_stamps now r) adm"
proof -
  let ?p = "\<lambda>stamp. now - stamp \<ge> rl_window r"
  from assms obtain old where old: "adm = old @ rl_timestamps r" "\<forall>a \<in> set old. a + rl_window r \<le> past"
    and le: "\<forall>a \<in> set adm. a \<le> past" by (auto simp: limiter_inv_def)
  have "rl_timestamps r = takeWhile ?p (rl_timestamps r) @ rl_timestamps (expire_stamps now r)"
    by (simp add: expire_stamps_def)
  then have split: "adm = (old @ takeWhile ?p (rl_timestamps r)) @ rl_timestamps (expire_stamps now r)"
    using old(1) by simp
  have past: "a + rl_window r \<le> now" if "a \<in> set (old @ takeWhile ?p (rl_timestamps r))" for a
  proof (cases "a \<in> set old")
    case True
    with old(2) assms(2) show ?thesis by fastforce
  next
    case False
    with that have "a \<in> set (rl_timestamps r)" "rl_window r \<le> now - a" by (auto dest: set_takeWhileD)
    moreover from this(1) have "a \<le> past" using le old(1) by simp
    ultimately show ?thesis using assms(2) by simp
  qed
  have "length (rl_timestamps (expire_stamps now r)) \<le> rl_maximum r"
    using assms(1) le_trans [OF length_dropWhile_le] by (auto simp: limiter_inv_def expire_stamps_def)
  moreover have "rl_window (expire_stamps now r) = rl_window r" "rl_maximum (expire_stamps now r) = rl_maximum r"
    by (simp_all add: expire_stamps_def)
  moreover have "\<forall>a \<in> set adm. a \<le> now" using le assms(2) by auto
  moreover have "\<exists>o'. adm = o' @ rl_timestamps (expire_stamps now r) \<and> (\<forall>a \<in> set o'. a + rl_window r \<le> now)"
    using split past by blast
  ultimately show ?thesis using assms(1) unfolding limiter_inv_def by simp
qed

lemma admit_stamp_inv:
  assumes inv: "limiter_inv now r adm" and room: "length (rl_timestamps r) < rl_maximum r"
  shows "limiter_inv now (r\<lparr>rl_timestamps := rl_timestamps r @ [now]\<rparr>) (adm @ [now])"
proof -
  from inv obtain old where old: "adm = old @ rl_timestamps r" "\<forall>a \<in> set old. a + rl_window r \<le> now"
    and gap: "\<And>i. i + rl_maximum r < length adm \<Longrightarrow> adm ! i + rl_window r \<le> adm ! (i + rl_maximum r)"
    by (auto simp: limiter_inv_def)
  have "(adm @ [now]) ! i + rl_window r \<le> (adm @ [now]) ! (i + rl_maximum r)"
    if i: "i + rl_maximum r < length (adm @ [now])" for i
  proof (cases "i + rl_maximum r = length adm")
    case True
    then have "i < length old" using old room by simp
    then have "(adm @ [now]) ! i \<in> set old" using old by (simp add: nth_append)
    with True old show ?thesis by simp
  next
    case False
    with i gap [of i] show ?thesis by (simp add: nth_append)
  qed
  with inv old room show ?thesis unfolding limiter_inv_def by auto
qed

lemma round_inv:
  assumes "limiter_inv past r adm" "past \<le> now"
  shows "limiter_inv now (snd (wait_round check now r))
    (if fst (wait_round check now r) = Admitted then adm @ [now] else adm)"
proof -
  have "limiter_inv now r adm" using assms unfolding limiter_inv_def by fastforce
  with expire_inv [OF assms] admit_stamp_inv [OF expire_inv [OF assms]] show ?thesis
    by (auto simp: wait_round_def Let_def split: sum.splits list.splits)
qed

lemma wait_round_params [simp]:
  "rl_maximum (snd (wait_round check now r)) = rl_maximum r"
  "rl_window (snd (wait_round check now r)) = rl_window r"
  by (simp_all add: wait_round_def expire_stamps_def Let_def split: sum.splits list.splits)

lemma run_inv:
  assumes "limiter_inv past r adm" "sorted (past # map snd rounds)"
  shows "\<exists>end. limiter_inv end (snd (limiter_run rounds r)) (adm @ fst (limiter_run rounds r)) \<and>
    rl_maximum (snd (limiter_run rounds r)) = rl_maximum r \<and>
    rl_window (snd (limiter_run rounds r)) = rl_window r"
  using assms
proof (induction rounds r arbitrary: past adm rule: limiter_run.induct)
  case (1 r)
  then show ?case by auto
next
  case (2 check now rounds r)
  obtain res r1 where r1: "wait_round check now r = (res, r1)" by fastforce
  have "limiter_inv now r1 (if res = Admitted then adm @ [now] else adm)"
    using round_inv [OF 2(2), of now check] 2(3) r1 by simp
  with 2(1) [OF r1 [symmetric] refl, where past = now and adm = "if res = Admitted then adm @ [now] else adm"] 2(3)
    wait_round_params [of check now r] r1
  show ?case by (auto split: prod.splits if_splits)
qed

section \<open>Properties\<close>

text \<open>
  C32. However the callers interleave, no window of the configured length contains more than the
  maximum number of admissions: the admission \<open>maximum\<close> places after any admission comes at least
  one window later.
\<close>

theorem rate_limit_holds_in_every_window:
  assumes "sorted (map snd rounds)"
    and "i + maximum < length (fst (limiter_run rounds (rate_limiter_new maximum window)))"
  shows "fst (limiter_run rounds (rate_limiter_new maximum window)) ! i + window
    \<le> fst (limiter_run rounds (rate_limiter_new maximum window)) ! (i + maximum)"
proof -
  have "limiter_inv 0 (rate_limiter_new maximum window) []"
    by (simp add: limiter_inv_def rate_limiter_new_def)
  from run_inv [OF this, of rounds] assms show ?thesis
    by (auto simp: limiter_inv_def rate_limiter_new_def)
qed

theorem rate_limit_holds_in_every_window_witness:
  "fst (limiter_run [(Inr (), 0), (Inr (), 3), (Inr (), 5), (Inr (), 10)] (rate_limiter_new 2 10)) = [0, 3, 10] \<and>
   (0::nat) + 10 \<le> [0, 3, 10] ! (0 + 2)"
proof -
  let ?rounds = "[(Inr (), 0), (Inr (), 3), (Inr (), 5), (Inr (), 10)] :: ((string, unit) result \<times> nat) list"
  have log: "fst (limiter_run ?rounds (rate_limiter_new 2 10)) = [0, 3, 10]"
    by (simp add: rate_limiter_new_def wait_round_def expire_stamps_def Let_def)
  from rate_limit_holds_in_every_window [of ?rounds 0 2 10] log show ?thesis by simp
qed

text \<open>
  The wait ends: a caller whose check passes and who sees the clock a full window after the
  newest queued admission is admitted, provided the maximum is not zero; a caller that is not
  admitted sleeps at most 25 milliseconds, and never past the moment a slot frees.
\<close>

theorem limiter_wait_progress:
  assumes "0 < rl_maximum r"
  shows "((\<forall>a \<in> set (rl_timestamps r). a + rl_window r \<le> now) \<longrightarrow>
      fst (wait_round (Inr ()) now r) = Admitted) \<and>
    fst (wait_round (Inr ()) now r) \<noteq> Panicked \<and>
    (\<forall>d. fst (wait_round (Inr ()) now r) = Sleeping d \<longrightarrow> d \<le> 25 \<and>
       (\<exists>front \<in> set (rl_timestamps r). now + d \<le> max now (front + rl_window r)))"
proof -
  let ?left = "dropWhile (\<lambda>stamp. now - stamp \<ge> rl_window r) (rl_timestamps r)"
  have gone: "?left = []" if "\<forall>a \<in> set (rl_timestamps r). a + rl_window r \<le> now"
    using that by (fastforce simp: dropWhile_eq_Nil_conv)
  have front: "a \<in> set (rl_timestamps r) \<and> now < a + rl_window r" if "?left = a # rest" for a rest
    using that by (auto simp: dropWhile_eq_Cons_conv) (metis in_set_conv_decomp takeWhile_dropWhile_id)
  show ?thesis
  proof (cases ?left)
    case Nil
    with assms show ?thesis
      by (simp add: wait_round_def expire_stamps_def Let_def del: dropWhile_eq_Nil_conv)
  next
    case (Cons a rest)
    with gone have "\<not> (\<forall>a \<in> set (rl_timestamps r). a + rl_window r \<le> now)" by auto
    with Cons front [OF Cons] assms show ?thesis
      by (auto simp: wait_round_def expire_stamps_def Let_def intro!: bexI [of _ a])
  qed
qed

theorem limiter_wait_progress_witness:
  "fst (wait_round (Inr ()) 50 \<lparr>rl_timestamps = [3, 7], rl_maximum = 2, rl_window = 40\<rparr>) = Admitted"
  using limiter_wait_progress [of "\<lparr>rl_timestamps = [3, 7], rl_maximum = 2, rl_window = 40\<rparr>" 50]
  by simp

end
