(* ===== verification/Resolution_Budget.thy ===== *)
theory Resolution_Budget
  imports Prelude
begin

text \<open>
  The resolver allowance shared by a download call and its segment workers
  (\<open>crates/extensions/src/resolution.rs\<close>). Every method runs under the budget's lock with the
  clock as an argument; a guard is the flag it was entered with.
\<close>

section \<open>The budget\<close>

record budget_state =
  bs_remaining :: nat
  bs_started :: nat
  bs_pauses :: nat
  bs_charges :: nat

definition state_remaining :: "nat \<Rightarrow> budget_state \<Rightarrow> nat" where
  "state_remaining now b =
     (if bs_pauses b = 0 \<or> bs_charges b > 0
      then bs_remaining b - (now - bs_started b) else bs_remaining b)"

definition settle :: "nat \<Rightarrow> budget_state \<Rightarrow> budget_state" where
  "settle now b = b\<lparr>bs_remaining := state_remaining now b, bs_started := now\<rparr>"

definition budget_new :: "nat \<Rightarrow> nat \<Rightarrow> budget_state" where
  "budget_new allowance now =
     \<lparr>bs_remaining = allowance, bs_started = now, bs_pauses = 0, bs_charges = 0\<rparr>"

definition budget_enter :: "bool \<Rightarrow> nat \<Rightarrow> budget_state \<Rightarrow> budget_state" where
  "budget_enter charge now b =
     (let b1 = settle now b in
      if charge then b1\<lparr>bs_charges := bs_charges b1 + 1\<rparr> else b1\<lparr>bs_pauses := bs_pauses b1 + 1\<rparr>)"

definition guard_drop :: "bool \<Rightarrow> nat \<Rightarrow> budget_state \<Rightarrow> budget_state" where
  "guard_drop charge now b =
     (let b1 = settle now b in
      if charge then b1\<lparr>bs_charges := usize_dec (bs_charges b1)\<rparr>
      else b1\<lparr>bs_pauses := usize_dec (bs_pauses b1)\<rparr>)"

section \<open>Runs and their specification\<close>

datatype budget_event = Enter bool | Leave bool

fun apply_event :: "nat \<times> budget_event \<Rightarrow> budget_state \<Rightarrow> budget_state" where
  "apply_event (now, Enter charge) b = budget_enter charge now b"
| "apply_event (now, Leave charge) b = guard_drop charge now b"

definition budget_run :: "nat \<Rightarrow> nat \<Rightarrow> (nat \<times> budget_event) list \<Rightarrow> budget_state" where
  "budget_run allowance start evs = fold apply_event evs (budget_new allowance start)"

text \<open>
  The specification does not look at the state: at instant \<open>t\<close> the guards that are open are the
  ones entered and not left by then, and the clock runs unless something pauses it and nothing
  charges.
\<close>

definition seen :: "budget_event \<Rightarrow> nat \<Rightarrow> (nat \<times> budget_event) list \<Rightarrow> nat" where
  "seen e t evs = length (filter (\<lambda>(u, e'). u \<le> t \<and> e' = e) evs)"

definition open_guards :: "bool \<Rightarrow> nat \<Rightarrow> (nat \<times> budget_event) list \<Rightarrow> nat" where
  "open_guards charge t evs = seen (Enter charge) t evs - seen (Leave charge) t evs"

definition ticking :: "nat \<Rightarrow> (nat \<times> budget_event) list \<Rightarrow> bool" where
  "ticking t evs \<longleftrightarrow> open_guards False t evs = 0 \<or> open_guards True t evs > 0"

definition charged_time :: "nat \<Rightarrow> nat \<Rightarrow> (nat \<times> budget_event) list \<Rightarrow> nat" where
  "charged_time start now evs = length (filter (\<lambda>t. ticking t evs) [start..<now])"

text \<open>Guards are dropped once each, after they were created.\<close>

fun guards_matched :: "nat \<Rightarrow> nat \<Rightarrow> (nat \<times> budget_event) list \<Rightarrow> bool" where
  "guards_matched p c [] = True"
| "guards_matched p c ((_, Enter charge) # evs) =
     (if charge then guards_matched p (c + 1) evs else guards_matched (p + 1) c evs)"
| "guards_matched p c ((_, Leave charge) # evs) =
     (if charge then 0 < c \<and> guards_matched p (c - 1) evs else 0 < p \<and> guards_matched (p - 1) c evs)"

fun open_after :: "(nat \<times> budget_event) list \<Rightarrow> nat \<times> nat \<Rightarrow> nat \<times> nat" where
  "open_after [] pc = pc"
| "open_after ((_, Enter charge) # evs) (p, c) = open_after evs (if charge then (p, c + 1) else (p + 1, c))"
| "open_after ((_, Leave charge) # evs) (p, c) = open_after evs (if charge then (p, c - 1) else (p - 1, c))"

lemma run_snoc: "budget_run a start (evs @ [e]) = apply_event e (budget_run a start evs)"
  by (simp add: budget_run_def)

lemma matched_snoc:
  "guards_matched p c (evs @ [(u, e)]) \<longleftrightarrow> guards_matched p c evs \<and>
     (case e of Enter _ \<Rightarrow> True
      | Leave charge \<Rightarrow> 0 < (if charge then snd (open_after evs (p, c)) else fst (open_after evs (p, c))))"
  by (induction p c evs rule: guards_matched.induct) (auto split: budget_event.splits)

lemma open_after_snoc: "open_after (evs @ [e]) pc = open_after [e] (open_after evs pc)"
  by (induction evs pc rule: open_after.induct) simp_all

text \<open>The counters are the open guards, and they count the events.\<close>

lemma run_counters:
  "guards_matched 0 0 evs \<Longrightarrow>
     (bs_pauses (budget_run a start evs), bs_charges (budget_run a start evs)) = open_after evs (0, 0)"
proof (induction evs rule: rev_induct)
  case Nil
  then show ?case by (simp add: budget_run_def budget_new_def)
next
  case (snoc x evs)
  obtain u e where x: "x = (u, e)" by force
  obtain p c where pc: "open_after evs (0, 0) = (p, c)" by force
  from snoc x have m: "guards_matched 0 0 evs" by (simp add: matched_snoc)
  from snoc.IH [OF m] snoc.prems pc x show ?case
    by (cases e) (auto simp: run_snoc open_after_snoc matched_snoc budget_enter_def guard_drop_def
        settle_def Let_def usize_dec_def split: if_splits)
qed

lemma seen_snoc: "seen e t (evs @ [(u, e')]) = seen e t evs + (if u \<le> t \<and> e' = e then 1 else 0)"
  by (simp add: seen_def)

lemma seen_counts:
  assumes "guards_matched 0 0 evs" "\<forall>(u, e) \<in> set evs. u \<le> t"
  shows "seen (Enter False) t evs = fst (open_after evs (0, 0)) + seen (Leave False) t evs"
    and "seen (Enter True) t evs = snd (open_after evs (0, 0)) + seen (Leave True) t evs"
proof -
  have "seen (Enter False) t evs = fst (open_after evs (0, 0)) + seen (Leave False) t evs \<and>
    seen (Enter True) t evs = snd (open_after evs (0, 0)) + seen (Leave True) t evs"
    using assms
  proof (induction evs rule: rev_induct)
    case Nil
    then show ?case by (simp add: seen_def)
  next
    case (snoc x evs)
    obtain u e where x: "x = (u, e)" by force
    obtain p c where pc: "open_after evs (0, 0) = (p, c)" by force
    from snoc x have "guards_matched 0 0 evs" "\<forall>(u, e) \<in> set evs. u \<le> t" by (auto simp: matched_snoc)
    with snoc pc x show ?case
      by (cases e) (auto simp: seen_snoc open_after_snoc matched_snoc split: if_splits)
  qed
  then show "seen (Enter False) t evs = fst (open_after evs (0, 0)) + seen (Leave False) t evs"
    and "seen (Enter True) t evs = snd (open_after evs (0, 0)) + seen (Leave True) t evs" by simp_all
qed

lemma ticking_now:
  assumes "guards_matched 0 0 evs" "\<forall>(u, e) \<in> set evs. u \<le> t"
  shows "ticking t evs \<longleftrightarrow>
    bs_pauses (budget_run a start evs) = 0 \<or> bs_charges (budget_run a start evs) > 0"
  using seen_counts [OF assms] run_counters [OF assms(1), of a start]
  by (auto simp: ticking_def open_guards_def prod_eq_iff)

lemma ticking_before: "t < u \<Longrightarrow> ticking t (evs @ [(u, e)]) = ticking t evs"
  by (simp add: ticking_def open_guards_def seen_snoc)

lemma charged_time_split:
  "start \<le> u \<Longrightarrow> u \<le> now \<Longrightarrow> charged_time start now evs = charged_time start u evs + charged_time u now evs"
  using upt_add_eq_append [of start u "now - u"] by (simp add: charged_time_def)

lemma charged_time_const:
  assumes "\<And>t. start \<le> t \<Longrightarrow> t < now \<Longrightarrow> ticking t evs = b"
  shows "charged_time start now evs = (if b then now - start else 0)"
proof -
  have "filter (\<lambda>t. ticking t evs) [start..<now] = (if b then [start..<now] else [])"
    using assms by (auto intro: filter_True filter_False)
  then show ?thesis by (simp add: charged_time_def)
qed

lemma charged_time_before: "charged_time start u (evs @ [(u, e)]) = charged_time start u evs"
  unfolding charged_time_def by (intro arg_cong [where f = length] filter_cong) (auto simp: ticking_before)

section \<open>Properties\<close>

lemma budget_refines_spec:
  assumes "guards_matched 0 0 evs" "sorted (start # map fst evs)" "last (start # map fst evs) \<le> now"
  shows "bs_started (budget_run a start evs) = last (start # map fst evs) \<and>
    state_remaining now (budget_run a start evs) = a - charged_time start now evs"
  using assms
proof (induction evs arbitrary: now rule: rev_induct)
  case Nil
  have "charged_time start now [] = now - start"
    using charged_time_const [of start now "[]" True] by (simp add: ticking_def open_guards_def seen_def)
  then show ?case by (simp add: budget_run_def budget_new_def state_remaining_def)
next
  case (snoc x evs)
  obtain u e where x: "x = (u, e)" by force
  let ?b = "budget_run a start evs" and ?evs = "evs @ [(u, e)]"
  let ?b' = "budget_run a start ?evs"
  have m: "guards_matched 0 0 evs" and m': "guards_matched 0 0 ?evs" and le: "u \<le> now"
    and srt: "sorted (start # map fst evs)" "last (start # map fst evs) \<le> u" "start \<le> u"
    and all: "\<forall>(v, e) \<in> set ?evs. v \<le> u"
    using snoc.prems x by (auto simp: matched_snoc sorted_append last_map)
  have IH: "state_remaining u ?b = a - charged_time start u evs"
    using snoc.IH [OF m srt(1,2)] by simp
  have settled: "bs_remaining ?b' = state_remaining u ?b" "bs_started ?b' = u"
    by (cases e; simp add: run_snoc budget_enter_def guard_drop_def settle_def Let_def)+
  have "ticking t ?evs = (bs_pauses ?b' = 0 \<or> bs_charges ?b' > 0)" if "u \<le> t" for t
    by (rule ticking_now [OF m']) (use all that in auto)
  then have tail: "charged_time u now ?evs =
      (if bs_pauses ?b' = 0 \<or> bs_charges ?b' > 0 then now - u else 0)"
    by (intro charged_time_const) auto
  have "charged_time start now ?evs = charged_time start u evs + charged_time u now ?evs"
    using charged_time_split [OF srt(3) le, of ?evs] by (simp add: charged_time_before)
  with IH settled tail show ?case by (simp add: x state_remaining_def)
qed

text \<open>
  C33. The budget is exact: whatever calls enter and leave, the remaining allowance is the
  allowance minus the number of instants at which the clock should have run, namely those with
  no open pause or with an open charge, and it stops at zero instead of wrapping.
\<close>

theorem budget_charges_exactly_unpaused_time:
  assumes "guards_matched 0 0 evs" "sorted (start # map fst evs)" "last (start # map fst evs) \<le> now"
  shows "state_remaining now (budget_run allowance start evs) = allowance - charged_time start now evs"
  using budget_refines_spec [OF assms] by simp

text \<open>A pause from 10 to 30 with a charge from 15 to 20 inside it: 15 of the 40 instants are free.\<close>

theorem budget_charges_exactly_unpaused_time_witness:
  "state_remaining 40 (budget_run 100 0 [(10, Enter False), (15, Enter True), (20, Leave True), (30, Leave False)])
     = 100 - 25"
proof -
  let ?evs = "[(10, Enter False), (15, Enter True), (20, Leave True), (30, Leave False)]"
  have "charged_time 0 40 ?evs = 25" by code_simp
  with budget_charges_exactly_unpaused_time [of ?evs 0 40 100] show ?thesis by simp
qed

end
