(* ===== verification/Link_Store.thy ===== *)
theory Link_Store
  imports Rust_Text "HOL-Library.Char_ord"
begin

text \<open>
  The persistent state of the link server (\<open>crates/link/src/store.rs\<close>): the server file, the
  paired devices and their API keys, in memory and on disk. A file is missing, readable or
  garbled; whether a write, a read or a rename succeeds, the clock and the random bytes are
  arguments. \<open>write_private\<close> renames a complete temporary file over the target, so a write
  replaces the whole value or nothing.
\<close>

section \<open>Lowercase hex\<close>

unbundle bit_operations_syntax

definition hex :: "u8 list \<Rightarrow> string" where
  "hex bytes = concat (map (\<lambda>b. [lower_hex_digit (unat (drop_bit 4 b)), lower_hex_digit (unat (b AND 0x0f))]) bytes)"

section \<open>Files\<close>

datatype 'a json_file = Missing | Readable 'a | Garbled

record server_file =
  sf_server_id :: string
  sf_port :: u16
  sf_name :: string

record device_record =
  dr_device_id :: string
  dr_name :: string
  dr_platform :: string
  dr_api_key :: string
  dr_paired_ms :: int
  dr_last_seen_ms :: "int option"

record link_dir =
  ld_server :: "server_file json_file"
  ld_devices :: "device_record list json_file"

text \<open>
  \<open>read_json\<close>: \<open>readable\<close> is an I/O error of the read other than \<open>NotFound\<close>, \<open>aside\<close> the answer
  of the rename to \<open>.bad\<close>. The second component is the file left behind.
\<close>

definition read_json ::
  "(string, unit) result \<Rightarrow> (string, unit) result \<Rightarrow> 'a json_file \<Rightarrow> (string, 'a option) result \<times> 'a json_file" where
  "read_json readable aside f =
     (case f of
        Missing \<Rightarrow> (Inr None, Missing)
      | _ \<Rightarrow>
          (case readable of
             Inl e \<Rightarrow> (Inl e, f)
           | Inr _ \<Rightarrow>
               (case f of
                  Readable v \<Rightarrow> (Inr (Some v), f)
                | _ \<Rightarrow> (case aside of Inl e \<Rightarrow> (Inl e, f) | Inr _ \<Rightarrow> (Inr None, Missing)))))"

definition write_json :: "(string, unit) result \<Rightarrow> 'a \<Rightarrow> 'a json_file \<Rightarrow> (string, unit) result \<times> 'a json_file" where
  "write_json io v f = (case io of Inl e \<Rightarrow> (Inl e, f) | Inr _ \<Rightarrow> (Inr (), Readable v))"

text \<open>A random UUID version 4: the version and variant bits are forced.\<close>

definition new_uuid :: "u8 list \<Rightarrow> string" where
  "new_uuid bytes =
     (let b1 = bytes[6 := (bytes ! 6 AND 0x0f) OR 0x40];
          b2 = b1[8 := (b1 ! 8 AND 0x3f) OR 0x80];
          h = hex b2
      in take 8 h @ ''-'' @ take 4 (drop 8 h) @ ''-'' @ take 4 (drop 12 h) @ ''-'' @
         take 4 (drop 16 h) @ ''-'' @ take 12 (drop 20 h))"

section \<open>The store\<close>

record link_store =
  ls_dir :: link_dir
  ls_server :: server_file
  ls_devices :: "device_record list"

definition load_devices ::
  "(string, unit) result \<Rightarrow> (string, unit) result \<Rightarrow> link_dir \<Rightarrow> (string, device_record list) result \<times> link_dir" where
  "load_devices readable aside d =
     (let (r, f) = read_json readable aside (ld_devices d)
      in (try_bind r (\<lambda>v. Inr (case v of None \<Rightarrow> [] | Some ds \<Rightarrow> ds)), d\<lparr>ld_devices := f\<rparr>))"

definition save_devices ::
  "(string, unit) result \<Rightarrow> device_record list \<Rightarrow> link_dir \<Rightarrow> (string, unit) result \<times> link_dir" where
  "save_devices io ds d =
     (let (r, f) = write_json io ds (ld_devices d) in (r, d\<lparr>ld_devices := f\<rparr>))"

definition fresh_server ::
  "(string, u8 list) result \<Rightarrow> (string, unit) result \<Rightarrow> link_dir \<Rightarrow> (string, server_file) result \<times> link_dir" where
  "fresh_server random io d =
     (case random of
        Inl e \<Rightarrow> (Inl e, d)
      | Inr bytes \<Rightarrow>
          (let sf = \<lparr>sf_server_id = new_uuid bytes, sf_port = 0, sf_name = []\<rparr>;
               (r, f) = write_json io sf (ld_server d)
           in (try_bind r (\<lambda>_. Inr sf), d\<lparr>ld_server := f\<rparr>)))"

definition store_open ::
  "(string, unit) result \<Rightarrow> (string, unit) result \<Rightarrow> (string, unit) result \<Rightarrow> (string, u8 list) result \<Rightarrow>
   (string, unit) result \<Rightarrow> link_dir \<Rightarrow> (string, link_store) result \<times> link_dir" where
  "store_open mkdir readable aside random io d =
     (case mkdir of
        Inl e \<Rightarrow> (Inl e, d)
      | Inr _ \<Rightarrow>
          (let (r, f) = read_json readable aside (ld_server d);
               d1 = d\<lparr>ld_server := f\<rparr>;
               (server, d2) =
                 (case r of
                    Inl e \<Rightarrow> (Inl e, d1)
                  | Inr v \<Rightarrow>
                      (case v of
                         Some sf \<Rightarrow> if sf_server_id sf \<noteq> [] then (Inr sf, d1) else fresh_server random io d1
                       | None \<Rightarrow> fresh_server random io d1))
           in case server of
                Inl e \<Rightarrow> (Inl e, d2)
              | Inr sf \<Rightarrow>
                  (let (ds, d3) = load_devices readable aside d2
                   in (try_bind ds (\<lambda>ds. Inr \<lparr>ls_dir = d3, ls_server = sf, ls_devices = ds\<rparr>), d3))))"

definition set_server ::
  "(string, unit) result \<Rightarrow> u16 \<Rightarrow> string \<Rightarrow> link_store \<Rightarrow> (string, unit) result \<times> link_store" where
  "set_server io port name s =
     (if sf_port (ls_server s) = port \<and> sf_name (ls_server s) = name then (Inr (), s)
      else
        (let updated = \<lparr>sf_server_id = sf_server_id (ls_server s), sf_port = port, sf_name = name\<rparr>;
             (r, f) = write_json io updated (ld_server (ls_dir s));
             s1 = s\<lparr>ls_dir := (ls_dir s)\<lparr>ld_server := f\<rparr>\<rparr>
         in case r of Inl e \<Rightarrow> (Inl e, s1) | Inr _ \<Rightarrow> (Inr (), s1\<lparr>ls_server := updated\<rparr>)))"

text \<open>\<open>find\<close> looks at every record and keeps the first match.\<close>

definition store_find :: "link_store \<Rightarrow> (string \<Rightarrow> bool) \<Rightarrow> device_record option" where
  "store_find s matches =
     fold (\<lambda>r found. if matches (dr_api_key r) \<and> found = None then Some r else found) (ls_devices s) None"

text \<open>Writing the updated list and, when that succeeded, adopting it.\<close>

definition commit_devices ::
  "(string, unit) result \<Rightarrow> device_record list \<Rightarrow> link_store \<Rightarrow> (string, unit) result \<times> link_store" where
  "commit_devices io updated s =
     (let (r, d) = save_devices io updated (ls_dir s);
          s1 = s\<lparr>ls_dir := d\<rparr>
      in case r of Inl e \<Rightarrow> (Inl e, s1) | Inr _ \<Rightarrow> (Inr (), s1\<lparr>ls_devices := updated\<rparr>))"

text \<open>\<open>new_key\<close> is the answer of \<open>new_api_key\<close>, 32 random bytes in base64url.\<close>

definition store_upsert ::
  "(string, string) result \<Rightarrow> (string, unit) result \<Rightarrow> int \<Rightarrow> string \<Rightarrow> string \<Rightarrow> string \<Rightarrow> bool \<Rightarrow>
   link_store \<Rightarrow> (string, device_record) result \<times> link_store" where
  "store_upsert new_key io now device_id name platform was_seen s =
     (case new_key of
        Inl e \<Rightarrow> (Inl e, s)
      | Inr key \<Rightarrow>
          (let rec = \<lparr>dr_device_id = device_id, dr_name = name, dr_platform = platform, dr_api_key = key,
                      dr_paired_ms = now, dr_last_seen_ms = (if was_seen then Some now else None)\<rparr>;
               updated = filter (\<lambda>r. dr_device_id r \<noteq> device_id) (ls_devices s) @ [rec];
               (r, s1) = commit_devices io updated s
           in (try_bind r (\<lambda>_. Inr rec), s1)))"

definition store_remove ::
  "(string, unit) result \<Rightarrow> string \<Rightarrow> link_store \<Rightarrow> (string, bool) result \<times> link_store" where
  "store_remove io device_id s =
     (let updated = filter (\<lambda>r. dr_device_id r \<noteq> device_id) (ls_devices s) in
      if length updated = length (ls_devices s) then (Inr False, s)
      else (let (r, s1) = commit_devices io updated s in (try_bind r (\<lambda>_. Inr True), s1)))"

definition touch_interval_ms :: int where
  "touch_interval_ms = 60000"

definition store_touch :: "(string, unit) result \<Rightarrow> int \<Rightarrow> string \<Rightarrow> link_store \<Rightarrow> link_store" where
  "store_touch io now device_id s =
     (case position (\<lambda>r. dr_device_id r = device_id) (ls_devices s) of
        None \<Rightarrow> s
      | Some i \<Rightarrow>
          if (case dr_last_seen_ms (ls_devices s ! i) of
                None \<Rightarrow> False | Some t \<Rightarrow> now - t < touch_interval_ms)
          then s
          else snd (commit_devices io
                 ((ls_devices s)[i := (ls_devices s ! i)\<lparr>dr_last_seen_ms := Some now\<rparr>]) s))"

definition stored_devices ::
  "(string, unit) result \<Rightarrow> (string, unit) result \<Rightarrow> link_dir \<Rightarrow> (string, device_record list) result \<times> link_dir" where
  "stored_devices readable aside d =
     (if ld_devices d = Missing then (Inr [], d) else load_devices readable aside d)"

definition revoke_stored ::
  "(string, unit) result \<Rightarrow> (string, unit) result \<Rightarrow> (string, unit) result \<Rightarrow> string \<Rightarrow> link_dir \<Rightarrow>
   (string, unit) result \<times> link_dir" where
  "revoke_stored readable aside io device_id d =
     (let (r, d1) = stored_devices readable aside d in
      case r of
        Inl e \<Rightarrow> (Inl e, d1)
      | Inr ds \<Rightarrow>
          if list_ex (\<lambda>r. dr_device_id r = device_id) ds
          then save_devices io (filter (\<lambda>r. dr_device_id r \<noteq> device_id) ds) d1
          else (Inr (), d1))"

inductive store_step :: "link_store \<Rightarrow> link_store \<Rightarrow> bool" where
  step_set_server: "store_step s (snd (set_server io port name s))"
| step_upsert: "store_step s (snd (store_upsert key io now did name platform was_seen s))"
| step_remove: "store_step s (snd (store_remove io did s))"
| step_touch: "store_step s (store_touch io now did s)"

section \<open>The directory of keys\<close>

text \<open>What request authentication needs of a store.\<close>

locale key_directory =
  fixes records :: "'s \<Rightarrow> 'd list"
    and key_of :: "'d \<Rightarrow> string"
    and find_key :: "'s \<Rightarrow> (string \<Rightarrow> bool) \<Rightarrow> 'd option"
  assumes find_sound: "find_key s p = Some d \<Longrightarrow> d \<in> set (records s) \<and> p (key_of d)"
    and find_complete: "d \<in> set (records s) \<Longrightarrow> p (key_of d) \<Longrightarrow> find_key s p \<noteq> None"
begin

lemma find_exact:
  assumes "d \<in> set (records s)" "\<And>e. e \<in> set (records s) \<Longrightarrow> p (key_of e) \<longleftrightarrow> e = d"
  shows "find_key s p = Some d"
  using find_complete [OF assms(1), of p] find_sound [of s p] assms by fastforce

lemma find_none: "(\<And>d. d \<in> set (records s) \<Longrightarrow> \<not> p (key_of d)) \<Longrightarrow> find_key s p = None"
  using find_sound by (cases "find_key s p") auto

end

lemma find_fold_Some:
  "fold (\<lambda>r found. if p (dr_api_key r) \<and> found = None then Some r else found) rs (Some d) = Some d"
  by (induction rs) auto

lemma store_find_eq: "store_find s p = List.find (\<lambda>r. p (dr_api_key r)) (ls_devices s)"
proof -
  have "fold (\<lambda>r found. if p (dr_api_key r) \<and> found = None then Some r else found) rs None =
      List.find (\<lambda>r. p (dr_api_key r)) rs" for rs
    by (induction rs) (auto simp: find_fold_Some)
  then show ?thesis by (simp add: store_find_def)
qed

interpretation keys: key_directory ls_devices dr_api_key store_find
  by unfold_locales (auto simp: store_find_eq find_Some_iff find_None_iff)

section \<open>Memory and disk agree\<close>

definition store_synced :: "link_store \<Rightarrow> bool" where
  "store_synced s \<longleftrightarrow>
     (ld_devices (ls_dir s) = Readable (ls_devices s) \<or>
      ld_devices (ls_dir s) = Missing \<and> ls_devices s = []) \<and>
     ld_server (ls_dir s) = Readable (ls_server s) \<and> sf_server_id (ls_server s) \<noteq> []"

lemma commit_synced: "store_synced s \<Longrightarrow> store_synced (snd (commit_devices io updated s))"
  by (auto simp: store_synced_def commit_devices_def save_devices_def write_json_def Let_def
      split: sum.splits prod.splits)

lemma step_synced:
  assumes "store_step s t" "store_synced s"
  shows "store_synced t"
  using assms
proof (cases rule: store_step.cases)
  case (step_set_server io port name)
  with assms(2) show ?thesis
    by (auto simp: store_synced_def set_server_def write_json_def Let_def split: sum.splits)
qed (use assms(2) in \<open>auto simp: store_upsert_def store_remove_def store_touch_def Let_def split_beta
      commit_synced split: sum.splits option.splits\<close>)

lemma hex_Nil [simp]: "hex [] = []"
  by (simp add: hex_def)

lemma hex_Cons [simp]:
  "hex (b # bs) = lower_hex_digit (unat (drop_bit 4 b)) # lower_hex_digit (unat (b AND 0x0f)) # hex bs"
  by (simp add: hex_def)

lemma length_hex [simp]: "length (hex bs) = 2 * length bs"
  by (induction bs) simp_all

end
