(* ===== verification/Link_Auth.thy ===== *)
theory Link_Auth
  imports Link_Store
begin

text \<open>
  Request authentication of the link server (\<open>crates/link/src/auth.rs\<close>): the Subsonic credential
  forms and the bearer token. \<open>digest\<close> is the digest function, an argument; the store is reached
  only through its \<open>find\<close>, which the functions take as an argument and which
  \<open>key_directory\<close> specifies.
\<close>

section \<open>Comparison and hex\<close>

definition constant_time_eq :: "u8 list \<Rightarrow> u8 list \<Rightarrow> bool" where
  "constant_time_eq left right =
     (if length left \<noteq> length right then False
      else fold (\<lambda>(a, b) diff. diff OR (a XOR b)) (zip left right) 0 = 0)"

text \<open>
  \<open>u8::from_str_radix\<close> on a two-byte slice: a leading plus sign is accepted. A slice that is not
  on character boundaries contains no hex digit, so both failures are \<open>None\<close>.
\<close>

definition hex_pair :: "char \<Rightarrow> char \<Rightarrow> u8 option" where
  "hex_pair a b =
     (if a = CHR ''+'' then map_option word_of_nat (to_digit16 b)
      else case (to_digit16 a, to_digit16 b) of
             (Some x, Some y) \<Rightarrow> Some (word_of_nat (16 * x + y))
           | _ \<Rightarrow> None)"

fun decode_hex :: "string \<Rightarrow> u8 list option" where
  "decode_hex [] = Some []"
| "decode_hex [_] = None"
| "decode_hex (a # b # s) =
     (case (hex_pair a b, decode_hex s) of (Some x, Some xs) \<Rightarrow> Some (x # xs) | _ \<Rightarrow> None)"

section \<open>Credentials\<close>

type_synonym subsonic_error = "nat \<times> string"

definition MISSING :: subsonic_error where
  "MISSING = (10, ''Required parameter is missing'')"

definition WRONG_CREDENTIALS :: subsonic_error where
  "WRONG_CREDENTIALS = (40, ''Wrong username or password'')"

definition INVALID_KEY :: subsonic_error where
  "INVALID_KEY = (44, ''Invalid API key'')"

definition param :: "(string \<times> string) list \<Rightarrow> string \<Rightarrow> string option" where
  "param params name = map_option snd (List.find (\<lambda>(k, _). k = name) params)"

definition by_key :: "((string \<Rightarrow> bool) \<Rightarrow> 'd option) \<Rightarrow> string \<Rightarrow> 'd option" where
  "by_key lookup candidate =
     (if candidate = [] then None
      else lookup (\<lambda>key. constant_time_eq (as_bytes key) (as_bytes candidate)))"

definition token_matches :: "(u8 list \<Rightarrow> u8 list) \<Rightarrow> string \<Rightarrow> string \<Rightarrow> string \<Rightarrow> bool" where
  "token_matches digest token salt key =
     constant_time_eq (as_bytes (hex (digest (as_bytes (key @ salt))))) (as_bytes (to_ascii_lowercase token))"

definition decode_password :: "string \<Rightarrow> (subsonic_error, string) result" where
  "decode_password password =
     (case strip_prefix ''enc:'' password of
        Some encoded \<Rightarrow>
          ok_or WRONG_CREDENTIALS (Option.bind (decode_hex encoded) from_utf8)
      | None \<Rightarrow> Inr password)"

definition subsonic ::
  "(u8 list \<Rightarrow> u8 list) \<Rightarrow> ((string \<Rightarrow> bool) \<Rightarrow> 'd option) \<Rightarrow> (string \<times> string) list \<Rightarrow>
   (subsonic_error, 'd) result" where
  "subsonic digest lookup params =
     (case param params ''apiKey'' of
        Some key \<Rightarrow> ok_or INVALID_KEY (by_key lookup key)
      | None \<Rightarrow>
          (case (param params ''t'', param params ''s'') of
             (Some token, Some salt) \<Rightarrow> ok_or WRONG_CREDENTIALS (lookup (token_matches digest token salt))
           | _ \<Rightarrow>
               (case param params ''p'' of
                  Some password \<Rightarrow>
                    try_bind (decode_password password) (\<lambda>pw. ok_or WRONG_CREDENTIALS (by_key lookup pw))
                | None \<Rightarrow> Inl MISSING)))"

text \<open>\<open>header\<close> is the Authorization header when it is present and readable as text.\<close>

definition bearer :: "((string \<Rightarrow> bool) \<Rightarrow> 'd option) \<Rightarrow> string option \<Rightarrow> 'd option" where
  "bearer lookup header =
     (case header of
        None \<Rightarrow> None
      | Some value \<Rightarrow>
          (case split_once (CHR '' '') (trim value) of
             None \<Rightarrow> None
           | Some (scheme, key) \<Rightarrow>
               if \<not> eq_ignore_ascii_case scheme ''bearer'' then None else by_key lookup (trim key)))"

section \<open>Lemmas\<close>

lemma fold_diff_zero:
  "fold (\<lambda>(a, b) diff. diff OR (a XOR b)) ps (acc :: u8) = 0 \<longleftrightarrow> acc = 0 \<and> (\<forall>(a, b) \<in> set ps. a = b)"
proof (induction ps arbitrary: acc)
  case (Cons p ps)
  have "(a :: u8) XOR b = 0 \<longleftrightarrow> a = b" for a b
    by (auto simp: bit_eq_iff bit_simps)
  with Cons show ?case by (cases p) (auto simp: or_eq_0_iff)
qed simp

lemma constant_time_eq_iff [simp]: "constant_time_eq l r \<longleftrightarrow> l = r"
proof (cases "length l = length r")
  case True
  then have "(\<forall>(a, b) \<in> set (zip l r). a = b) \<longleftrightarrow> l = r"
    by (auto simp: set_zip list_eq_iff_nth_eq)
  with True show ?thesis by (simp add: constant_time_eq_def fold_diff_zero)
qed (auto simp: constant_time_eq_def)

lemma nibbles: "unat (drop_bit 4 b) < 16" "unat (b AND 0x0f) < 16"
  "16 * unat (drop_bit 4 b) + unat (b AND 0x0f) = unat b" for b :: u8
proof -
  have d: "unat (drop_bit 4 b) = unat b div 16" by (simp add: drop_bit_eq_div unat_div)
  have "b AND 0x0f = take_bit 4 b" by (simp add: take_bit_eq_mask mask_eq_exp_minus_1)
  then have m: "unat (b AND 0x0f) = unat b mod 16" by (simp add: take_bit_eq_mod unat_mod)
  have "unat b < 256" using unsigned_less [of b] by simp
  with d m show "unat (drop_bit 4 b) < 16" "unat (b AND 0x0f) < 16"
    "16 * unat (drop_bit 4 b) + unat (b AND 0x0f) = unat b" by auto
qed

lemma lower_hex_digit_props:
  assumes "n < 16"
  shows "lower_hex_digit n \<noteq> CHR ''+''" and "graphic (lower_hex_digit n)"
    and "ascii_lower (lower_hex_digit n) = lower_hex_digit n"
proof -
  have "byte_of (lower_hex_digit n) = (if n < 10 then n + 48 else n + 87)"
    using assms by (simp add: lower_hex_digit_def)
  with assms show "graphic (lower_hex_digit n)" "ascii_lower (lower_hex_digit n) = lower_hex_digit n"
    "lower_hex_digit n \<noteq> CHR ''+''"
    by (auto simp: graphic_def ascii_lower_def is_ascii_uppercase_def byte_of_def split: if_splits)
qed

lemma decode_hex_hex: "decode_hex (hex bs) = Some bs"
proof (induction bs)
  case (Cons b bs)
  have "hex_pair (lower_hex_digit (unat (drop_bit 4 b))) (lower_hex_digit (unat (b AND 0x0f))) = Some b"
    using nibbles [of b] lower_hex_digit_props(1) [OF nibbles(1) [of b]]
    by (simp add: hex_pair_def del: of_nat_add of_nat_mult)
  with Cons show ?case by simp
qed simp

lemma hex_inject: "hex a = hex b \<longleftrightarrow> a = b"
  by (metis decode_hex_hex option.inject)

lemma hex_graphic: "list_all graphic (hex bs)"
  by (induction bs) (simp_all add: lower_hex_digit_props nibbles)

lemma hex_lowercase: "to_ascii_lowercase (hex bs) = hex bs"
  by (induction bs) (simp_all add: to_ascii_lowercase_def lower_hex_digit_props nibbles)

text \<open>The store's \<open>find\<close> seen through \<open>by_key\<close>.\<close>

context key_directory
begin

lemma by_key_sound:
  "by_key (find_key s) k = Some d \<Longrightarrow> d \<in> set (records s) \<and> key_of d = k \<and> k \<noteq> []"
  using find_sound [of s _ d] by (auto simp: by_key_def split: if_splits)

lemma by_key_exact:
  "distinct (map key_of (records s)) \<Longrightarrow> d \<in> set (records s) \<Longrightarrow> key_of d \<noteq> [] \<Longrightarrow>
     by_key (find_key s) (key_of d) = Some d"
  unfolding by_key_def by (simp, intro find_exact) (auto simp: distinct_map dest: inj_onD)

lemma bearer_sound:
  "bearer (find_key s) h = Some d \<Longrightarrow>
     d \<in> set (records s) \<and> key_of d \<noteq> [] \<and> (\<exists>v scheme k. h = Some v \<and>
       split_once (CHR '' '') (trim v) = Some (scheme, k) \<and>
       eq_ignore_ascii_case scheme ''bearer'' \<and> trim k = key_of d)"
  by (auto simp: bearer_def dest!: by_key_sound split: option.splits if_splits)

lemma subsonic_sound:
  assumes "subsonic digest (find_key s) params = Inr d"
  shows "d \<in> set (records s) \<and>
    (param params ''apiKey'' = Some (key_of d) \<or>
     (\<exists>t salt. param params ''t'' = Some t \<and> param params ''s'' = Some salt \<and>
        hex (digest (as_bytes (key_of d @ salt))) = to_ascii_lowercase t) \<or>
     (\<exists>p. param params ''p'' = Some p \<and> decode_password p = Inr (key_of d)))"
  using assms find_sound [of s "token_matches digest _ _" d]
  by (auto simp: subsonic_def ok_or_eq_Inr token_matches_def try_bind_eq_Inr dest!: by_key_sound
      split: option.splits prod.splits)

end

section \<open>Properties\<close>

text \<open>
  C17. No request is accepted without a device's key: a Subsonic request that authenticates names
  a stored device, and its \<open>apiKey\<close> is that device's key, or its token is the salted digest of
  that key, or its plain or hex-encoded password is that key; a bearer token that
  authenticates is the nonempty key of a stored device.
\<close>

theorem authentication_needs_the_key:
  "(\<forall>params d. subsonic digest (store_find s) params = Inr d \<longrightarrow> d \<in> set (ls_devices s) \<and>
      (param params ''apiKey'' = Some (dr_api_key d) \<or>
       (\<exists>t salt. param params ''t'' = Some t \<and> param params ''s'' = Some salt \<and>
          hex (digest (as_bytes (dr_api_key d @ salt))) = to_ascii_lowercase t) \<or>
       (\<exists>p. param params ''p'' = Some p \<and> decode_password p = Inr (dr_api_key d)))) \<and>
   (\<forall>h d. bearer (store_find s) h = Some d \<longrightarrow> d \<in> set (ls_devices s) \<and> dr_api_key d \<noteq> [] \<and>
      (\<exists>v scheme k. h = Some v \<and> split_once (CHR '' '') (trim v) = Some (scheme, k) \<and>
         eq_ignore_ascii_case scheme ''bearer'' \<and> trim k = dr_api_key d))"
  using keys.subsonic_sound [where digest = digest and s = s] keys.bearer_sound [where s = s] by blast

definition demo_phone :: device_record where
  "demo_phone = \<lparr>dr_device_id = ''d1'', dr_name = ''Phone'', dr_platform = ''android'',
     dr_api_key = ''Kf-7'', dr_paired_ms = 5, dr_last_seen_ms = None\<rparr>"

definition demo_store :: link_store where
  "demo_store = \<lparr>ls_dir = \<lparr>ld_server = Readable \<lparr>sf_server_id = ''id'', sf_port = 0, sf_name = []\<rparr>,
       ld_devices = Readable [demo_phone]\<rparr>,
     ls_server = \<lparr>sf_server_id = ''id'', sf_port = 0, sf_name = []\<rparr>, ls_devices = [demo_phone]\<rparr>"

lemma demo_find: "store_find demo_store p = (if p ''Kf-7'' then Some demo_phone else None)"
  by (simp add: store_find_def demo_store_def demo_phone_def)

theorem authentication_needs_the_key_witness:
  "subsonic (\<lambda>b. b) (store_find demo_store) [(''apiKey'', ''Kf-7'')] = Inr demo_phone \<and>
   demo_phone \<in> set (ls_devices demo_store)"
proof -
  have "subsonic (\<lambda>b. b) (store_find demo_store) [(''apiKey'', ''Kf-7'')] = Inr demo_phone"
    by (simp add: subsonic_def param_def by_key_def demo_find)
  with authentication_needs_the_key [of "\<lambda>b. b" demo_store] show ?thesis by blast
qed

lemma bearer_header:
  assumes "list_all graphic k" "k \<noteq> []"
  shows "split_once (CHR '' '') (trim (''Bearer '' @ k)) = Some (''Bearer'', k)"
proof -
  have "graphic (last k)" using assms by (metis last_in_set list_all_iff)
  then have "trim (''Bearer '' @ k) = ''Bearer'' @ CHR '' '' # k"
    using assms by (subst trim_graphic) (auto simp: graphic_def byte_of_def)
  then show ?thesis using split_once_append [of "CHR '' ''" "''Bearer''" k] by simp
qed

lemma valid_utf8_graphic: "list_all graphic k \<Longrightarrow> valid_utf8 (as_bytes k)"
  by (rule valid_utf8_is_ascii) (auto simp: is_ascii_def graphic_def list_all_iff)

lemma decode_password_enc: "list_all graphic k \<Longrightarrow> decode_password (''enc:'' @ hex (as_bytes k)) = Inr k"
  by (simp add: decode_password_def strip_prefix_def decode_hex_hex from_utf8_as_bytes valid_utf8_graphic)

text \<open>
  Every credential form the contract names accepts a stored device's key: \<open>apiKey\<close>, the
  salted token in any letter case, the plain and the hex-encoded password, and the bearer
  header. Keys are nonempty printable ASCII (base64url), do not start with the \<open>enc:\<close> marker and
  differ between devices; for the token no other key may collide under the digest.
\<close>

theorem every_credential_form_works:
  assumes "distinct (map dr_api_key (ls_devices s))" "d \<in> set (ls_devices s)"
    and "list_all graphic (dr_api_key d)" "dr_api_key d \<noteq> []" "strip_prefix ''enc:'' (dr_api_key d) = None"
    and "\<forall>e \<in> set (ls_devices s). digest (as_bytes (dr_api_key e @ salt)) = digest (as_bytes (dr_api_key d @ salt)) \<longrightarrow> e = d"
    and "to_ascii_lowercase token = hex (digest (as_bytes (dr_api_key d @ salt)))"
  shows "subsonic digest (store_find s) [(''apiKey'', dr_api_key d)] = Inr d \<and>
    subsonic digest (store_find s) [(''u'', user), (''t'', token), (''s'', salt)] = Inr d \<and>
    subsonic digest (store_find s) [(''u'', user), (''p'', dr_api_key d)] = Inr d \<and>
    subsonic digest (store_find s) [(''u'', user), (''p'', ''enc:'' @ hex (as_bytes (dr_api_key d)))] = Inr d \<and>
    bearer (store_find s) (Some (''Bearer '' @ dr_api_key d)) = Some d"
proof -
  have key: "by_key (store_find s) (dr_api_key d) = Some d"
    using assms by (intro keys.by_key_exact)
  have "token_matches digest token salt (dr_api_key e) \<longleftrightarrow> e = d" if "e \<in> set (ls_devices s)" for e
    using that assms(6,7) by (auto simp: token_matches_def hex_inject)
  then have tok: "store_find s (token_matches digest token salt) = Some d"
    using assms(2) by (rule keys.find_exact [rotated])
  have "decode_password (dr_api_key d) = Inr (dr_api_key d)"
    using assms(5) by (simp add: decode_password_def)
  moreover have "eq_ignore_ascii_case ''Bearer'' ''bearer''" by code_simp
  ultimately show ?thesis
    using key tok assms(3) bearer_header [OF assms(3,4)] decode_password_enc [OF assms(3)]
    by (simp add: subsonic_def param_def bearer_def trim_all_graphic)
qed

theorem every_credential_form_works_witness:
  "subsonic (\<lambda>b. b) (store_find demo_store) [(''u'', ''anyone''), (''p'', ''enc:4b662d37'')] = Inr demo_phone"
proof -
  have hex: "hex (as_bytes ''Kf-7'') = ''4b662d37''" by code_simp
  have ascii: "list_all graphic ''Kf-7''" "strip_prefix ''enc:'' ''Kf-7'' = None" by code_simp+
  have phone: "ls_devices demo_store = [demo_phone]" "dr_api_key demo_phone = ''Kf-7''"
    by (simp_all add: demo_store_def demo_phone_def)
  show ?thesis
    using every_credential_form_works [of demo_store demo_phone "\<lambda>b. b" "[]" "hex (as_bytes ''Kf-7'')" "''anyone''"]
    by (simp only: phone ascii hex_lowercase append_Nil2) (simp add: ascii hex)
qed

lemma commit_cases:
  obtains (failed) e where "commit_devices io updated s = (Inl e, s)"
  | (stored) t where "commit_devices io updated s = (Inr (), t)" "ls_devices t = updated"
  by (cases io) (auto simp: commit_devices_def save_devices_def write_json_def Let_def)

lemma authenticated_is_stored:
  "subsonic digest (store_find t) params = Inr d \<Longrightarrow> d \<in> set (ls_devices t)"
  "bearer (store_find t) h = Some d \<Longrightarrow> d \<in> set (ls_devices t)"
  using keys.subsonic_sound keys.bearer_sound by blast+

lemma remove_cases:
  obtains (failed) e where "store_remove io did s = (Inl e, s)"
  | (gone) b t where "store_remove io did s = (Inr b, t)"
      "ls_devices t = filter (\<lambda>r. dr_device_id r \<noteq> did) (ls_devices s)"
proof (cases "length (filter (\<lambda>r. dr_device_id r \<noteq> did) (ls_devices s)) = length (ls_devices s)")
  case True
  then have "filter (\<lambda>r. dr_device_id r \<noteq> did) (ls_devices s) = ls_devices s"
    by (metis length_filter_less filter_True nat_less_le)
  with True gone [of False s] show ?thesis by (simp add: store_remove_def)
next
  case False
  show ?thesis
    by (rule commit_cases [of io "filter (\<lambda>r. dr_device_id r \<noteq> did) (ls_devices s)" s])
       (use False failed gone in \<open>auto simp: store_remove_def Let_def\<close>)
qed

lemma upsert_cases:
  obtains (failed) e where "store_upsert key io now did name platform was_seen s = (Inl e, s)"
  | (stored) rec t where "store_upsert key io now did name platform was_seen s = (Inr rec, t)"
      "ls_devices t = filter (\<lambda>r. dr_device_id r \<noteq> did) (ls_devices s) @ [rec]"
      "key = Inr (dr_api_key rec)" "dr_device_id rec = did"
proof (cases key)
  case (Inl e)
  with failed show ?thesis by (simp add: store_upsert_def)
next
  case (Inr k)
  let ?rec = "\<lparr>dr_device_id = did, dr_name = name, dr_platform = platform, dr_api_key = k,
    dr_paired_ms = now, dr_last_seen_ms = (if was_seen then Some now else None)\<rparr>"
  show ?thesis
    by (rule commit_cases [of io "filter (\<lambda>r. dr_device_id r \<noteq> did) (ls_devices s) @ [?rec]" s])
       (use Inr failed stored [of ?rec] in \<open>auto simp: store_upsert_def Let_def\<close>)
qed

text \<open>
  C26. Revocation and re-pairing take effect at once: after a device was removed no credential of
  any form authenticates as it, and after a device was paired again it is known only under its
  new key. A failed write changes neither.
\<close>

theorem revocation_is_immediate:
  "(case store_remove io did s of
      (Inr _, t) \<Rightarrow>
        (\<forall>params d. subsonic digest (store_find t) params = Inr d \<longrightarrow> dr_device_id d \<noteq> did) \<and>
        (\<forall>h d. bearer (store_find t) h = Some d \<longrightarrow> dr_device_id d \<noteq> did)
    | (Inl _, t) \<Rightarrow> t = s) \<and>
   (case store_upsert key io now did name platform was_seen s of
      (Inr rec, t) \<Rightarrow>
        key = Inr (dr_api_key rec) \<and> dr_device_id rec = did \<and>
        filter (\<lambda>r. dr_device_id r = did) (ls_devices t) = [rec] \<and>
        (\<forall>h d. bearer (store_find t) h = Some d \<and> dr_device_id d = did \<longrightarrow> d = rec) \<and>
        (\<forall>params d. subsonic digest (store_find t) params = Inr d \<and> dr_device_id d = did \<longrightarrow> d = rec)
    | (Inl _, t) \<Rightarrow> t = s)"
proof -
  have "case store_remove io did s of
      (Inr _, t) \<Rightarrow>
        (\<forall>params d. subsonic digest (store_find t) params = Inr d \<longrightarrow> dr_device_id d \<noteq> did) \<and>
        (\<forall>h d. bearer (store_find t) h = Some d \<longrightarrow> dr_device_id d \<noteq> did)
    | (Inl _, t) \<Rightarrow> t = s"
    by (rule remove_cases [of io did s]) (auto dest!: authenticated_is_stored)
  moreover have "case store_upsert key io now did name platform was_seen s of
      (Inr rec, t) \<Rightarrow>
        key = Inr (dr_api_key rec) \<and> dr_device_id rec = did \<and>
        filter (\<lambda>r. dr_device_id r = did) (ls_devices t) = [rec] \<and>
        (\<forall>h d. bearer (store_find t) h = Some d \<and> dr_device_id d = did \<longrightarrow> d = rec) \<and>
        (\<forall>params d. subsonic digest (store_find t) params = Inr d \<and> dr_device_id d = did \<longrightarrow> d = rec)
    | (Inl _, t) \<Rightarrow> t = s"
    by (rule upsert_cases [of key io now did name platform was_seen s]) (auto dest!: authenticated_is_stored)
  ultimately show ?thesis by blast
qed

theorem revocation_is_immediate_witness:
  "fst (store_remove (Inr ()) ''d1'' demo_store) = Inr True \<and>
   bearer (store_find (snd (store_remove (Inr ()) ''d1'' demo_store))) (Some ''Bearer Kf-7'') \<noteq> Some demo_phone"
proof -
  obtain t where t: "store_remove (Inr ()) ''d1'' demo_store = (Inr True, t)"
    by (simp add: store_remove_def demo_store_def demo_phone_def commit_devices_def save_devices_def write_json_def)
  have "dr_device_id demo_phone = ''d1''" by (simp add: demo_phone_def)
  with revocation_is_immediate [where io = "Inr ()" and did = "''d1''" and s = demo_store] t show ?thesis by auto
qed

text \<open>
  The store is durable: after any sequence of operations, failed writes included, memory and
  disk agree, so opening the directory again gives the same server identity and the same
  devices.
\<close>

theorem store_survives_restart:
  assumes "store_synced s" "reachable_from store_step s t"
  shows "fst (store_open (Inr ()) (Inr ()) aside random io (ls_dir t)) = Inr t"
proof -
  have "store_synced t" using assms(2,1) by (induction rule: reachable_from.induct) (auto intro: step_synced)
  then show ?thesis
    by (auto simp: store_synced_def store_open_def load_devices_def read_json_def Let_def)
qed

theorem store_survives_restart_witness:
  "fst (store_open (Inr ()) (Inr ()) (Inr ()) (Inr []) (Inr ())
      (ls_dir (snd (store_upsert (Inr ''K2'') (Inl ''disk full'') 9 ''d2'' ''Tab'' ''ios'' True demo_store)))) =
   Inr (snd (store_upsert (Inr ''K2'') (Inl ''disk full'') 9 ''d2'' ''Tab'' ''ios'' True demo_store))"
proof -
  have "store_synced demo_store" by (simp add: store_synced_def demo_store_def)
  then show ?thesis by (rule store_survives_restart) (rule reach_one, rule step_upsert)
qed

end
