(* ===== verification/Pairing.thy ===== *)
theory Pairing
  imports Link_Auth
begin

text \<open>
  The pairing window (\<open>crates/link/src/pairing.rs\<close>). Every method locks the state once, so each is
  one step; the clock, the random bytes, the callback that stores the device and HMAC-SHA256
  (\<open>hmac key message\<close>) are arguments. Peers are of an arbitrary type \<open>'ip\<close>.
\<close>

section \<open>The window\<close>

definition MAX_ATTEMPTS :: nat where
  "MAX_ATTEMPTS = 5"

datatype end_reason = PAIRED | EXPIRED | ATTEMPTS | CANCELLED

datatype pair_error = RateLimited | PairingClosed | BadProof | PairFailed string

record opened =
  op_pin :: string
  op_expires_ms :: int
  op_generation :: nat

record pair_window =
  pw_pin :: string
  pw_expires_at :: nat
  pw_attempts :: nat
  pw_generation :: nat

record 'ip pairing =
  pg_window :: "pair_window option"
  pg_generation :: nat
  pg_recent :: "('ip \<times> nat) list"
  pg_ttl :: nat
  pg_interval :: nat

definition pairing_new :: "nat \<Rightarrow> nat \<Rightarrow> 'ip pairing" where
  "pairing_new ttl interval =
     \<lparr>pg_window = None, pg_generation = 0, pg_recent = [], pg_ttl = ttl, pg_interval = interval\<rparr>"

definition pin_limit :: nat where
  "pin_limit = 4294000000"

definition pad6 :: "nat \<Rightarrow> string" where
  "pad6 n = replicate (6 - length (show_nat n)) (CHR ''0'') @ show_nat n"

text \<open>\<open>None\<close>: every drawn value was rejected so far.\<close>

fun new_pin :: "(string, u8 list) result list \<Rightarrow> (string, string) result option" where
  "new_pin [] = None"
| "new_pin (draw # draws) =
     (case draw of
        Inl e \<Rightarrow> Some (Inl e)
      | Inr bytes \<Rightarrow>
          (let value = u32_from_le_bytes bytes in
           if value < pin_limit then Some (Inr (pad6 (value mod 1000000))) else new_pin draws))"

definition pairing_begin ::
  "(string, string) result \<Rightarrow> nat \<Rightarrow> int \<Rightarrow> 'ip pairing \<Rightarrow> (string, opened) result \<times> 'ip pairing" where
  "pairing_begin pin now now_ms p =
     (case pin of
        Inl e \<Rightarrow> (Inl e, p)
      | Inr pin \<Rightarrow>
          (let generation = pg_generation p + 1 in
           (Inr \<lparr>op_pin = pin, op_expires_ms = now_ms + int (pg_ttl p), op_generation = generation\<rparr>,
            p\<lparr>pg_generation := generation,
              pg_window := Some \<lparr>pw_pin = pin, pw_expires_at = now + pg_ttl p, pw_attempts = 0,
                                 pw_generation = generation\<rparr>\<rparr>)))"

definition pairing_end :: "'ip pairing \<Rightarrow> bool \<times> 'ip pairing" where
  "pairing_end p = (pg_window p \<noteq> None, p\<lparr>pg_window := None\<rparr>)"

definition pairing_expire :: "nat \<Rightarrow> 'ip pairing \<Rightarrow> bool \<times> 'ip pairing" where
  "pairing_expire generation p =
     (case pg_window p of
        None \<Rightarrow> (False, p)
      | Some w \<Rightarrow> if pw_generation w = generation then (True, p\<lparr>pg_window := None\<rparr>) else (False, p))"

definition is_open :: "nat \<Rightarrow> 'ip pairing \<Rightarrow> bool" where
  "is_open now p = (case pg_window p of None \<Rightarrow> False | Some w \<Rightarrow> now < pw_expires_at w)"

definition proof_context :: string where
  "proof_context = ''mornye-link-pair-v1:''"

definition pair_proof :: "(u8 list \<Rightarrow> u8 list \<Rightarrow> u8 list) \<Rightarrow> string \<Rightarrow> string \<Rightarrow> string \<Rightarrow> string" where
  "pair_proof hmac pin fingerprint device_id =
     hex (hmac (as_bytes pin) (as_bytes (proof_context @ fingerprint @ '':'' @ device_id)))"

definition attempt ::
  "(u8 list \<Rightarrow> u8 list \<Rightarrow> u8 list) \<Rightarrow> nat \<Rightarrow> 'ip \<Rightarrow> string \<Rightarrow> string \<Rightarrow> string \<Rightarrow> (string, 't) result \<Rightarrow>
   'ip pairing \<Rightarrow> ((pair_error, 't) result \<times> end_reason option) \<times> 'ip pairing" where
  "attempt hmac now peer fingerprint device_id proof store p =
     (let p1 = p\<lparr>pg_recent := filter (\<lambda>(_, at). now - at < pg_interval p) (pg_recent p)\<rparr> in
      if peer \<in> fst ` set (pg_recent p1) then ((Inl RateLimited, None), p1)
      else
        (let p2 = (if pg_interval p \<noteq> 0 then p1\<lparr>pg_recent := (peer, now) # pg_recent p1\<rparr> else p1) in
         case pg_window p2 of
           None \<Rightarrow> ((Inl PairingClosed, None), p2)
         | Some w \<Rightarrow>
             if now \<ge> pw_expires_at w
             then ((Inl PairingClosed, Some EXPIRED), p2\<lparr>pg_window := None\<rparr>)
             else if \<not> constant_time_eq (as_bytes (pair_proof hmac (pw_pin w) fingerprint device_id))
                          (as_bytes (to_ascii_lowercase (trim proof)))
             then (let w1 = w\<lparr>pw_attempts := pw_attempts w + 1\<rparr> in
                   if pw_attempts w1 \<ge> MAX_ATTEMPTS
                   then ((Inl BadProof, Some ATTEMPTS), p2\<lparr>pg_window := None\<rparr>)
                   else ((Inl BadProof, None), p2\<lparr>pg_window := Some w1\<rparr>))
             else (case store of
                     Inr v \<Rightarrow> ((Inr v, Some PAIRED), p2\<lparr>pg_window := None\<rparr>)
                   | Inl e \<Rightarrow> ((Inl (PairFailed e), None), p2))))"

section \<open>Runs\<close>

datatype ('ip, 't) pair_event =
  PBegin "(string, string) result" nat int
| PEnd
| PExpire nat
| PAttempt nat 'ip string string string "(string, 't) result"

fun pair_step ::
  "(u8 list \<Rightarrow> u8 list \<Rightarrow> u8 list) \<Rightarrow> ('ip, 't) pair_event \<Rightarrow> 'ip pairing \<Rightarrow>
   (pair_error, 't) result option \<times> 'ip pairing" where
  "pair_step hmac (PBegin pin now now_ms) p = (None, snd (pairing_begin pin now now_ms p))"
| "pair_step hmac PEnd p = (None, snd (pairing_end p))"
| "pair_step hmac (PExpire g) p = (None, snd (pairing_expire g p))"
| "pair_step hmac (PAttempt now peer fp did proof store) p =
     (let ((r, _), p1) = attempt hmac now peer fp did proof store p in (Some r, p1))"

fun pair_run ::
  "(u8 list \<Rightarrow> u8 list \<Rightarrow> u8 list) \<Rightarrow> ('ip, 't) pair_event list \<Rightarrow> 'ip pairing \<Rightarrow>
   (pair_error, 't) result option list \<times> 'ip pairing" where
  "pair_run hmac [] p = ([], p)"
| "pair_run hmac (e # es) p =
     (let (r, p1) = pair_step hmac e p; (rs, p2) = pair_run hmac es p1 in (r # rs, p2))"

definition opens_window :: "('ip, 't) pair_event \<Rightarrow> bool" where
  "opens_window e = (case e of PBegin _ _ _ \<Rightarrow> True | _ \<Rightarrow> False)"

definition event_time :: "('ip, 't) pair_event \<Rightarrow> nat" where
  "event_time e = (case e of PAttempt now _ _ _ _ _ \<Rightarrow> now | _ \<Rightarrow> 0)"

definition guesses_left :: "'ip pairing \<Rightarrow> nat" where
  "guesses_left p = (case pg_window p of None \<Rightarrow> 0 | Some w \<Rightarrow> MAX_ATTEMPTS - pw_attempts w)"

definition bad_proofs :: "(pair_error, 't) result option list \<Rightarrow> nat" where
  "bad_proofs rs = length (filter (\<lambda>r. case r of Some (Inl BadProof) \<Rightarrow> True | _ \<Rightarrow> False) rs)"


text \<open>An open window has guesses left and carries the newest generation.\<close>

definition pairing_ok :: "'ip pairing \<Rightarrow> bool" where
  "pairing_ok p \<longleftrightarrow>
     (case pg_window p of
        None \<Rightarrow> True
      | Some w \<Rightarrow> pw_attempts w < MAX_ATTEMPTS \<and> pw_generation w = pg_generation p)"

section \<open>What an attempt does\<close>

definition proof_accepted ::
  "(u8 list \<Rightarrow> u8 list \<Rightarrow> u8 list) \<Rightarrow> pair_window \<Rightarrow> string \<Rightarrow> string \<Rightarrow> string \<Rightarrow> bool" where
  "proof_accepted hmac w fp did proof \<longleftrightarrow>
     to_ascii_lowercase (trim proof) = pair_proof hmac (pw_pin w) fp did"

definition rate_limited :: "nat \<Rightarrow> 'ip \<Rightarrow> 'ip pairing \<Rightarrow> bool" where
  "rate_limited now peer p \<longleftrightarrow> (\<exists>at. (peer, at) \<in> set (pg_recent p) \<and> now - at < pg_interval p)"

text \<open>The window after an attempt and its answer, without the bookkeeping of the rate limit.\<close>

lemma attempt_result:
  "fst (attempt hmac now peer fp did proof store p) =
     (if rate_limited now peer p then (Inl RateLimited, None)
      else case pg_window p of
        None \<Rightarrow> (Inl PairingClosed, None)
      | Some w \<Rightarrow>
          if pw_expires_at w \<le> now then (Inl PairingClosed, Some EXPIRED)
          else if \<not> proof_accepted hmac w fp did proof
          then (Inl BadProof, if MAX_ATTEMPTS \<le> pw_attempts w + 1 then Some ATTEMPTS else None)
          else case store of Inr v \<Rightarrow> (Inr v, Some PAIRED) | Inl e \<Rightarrow> (Inl (PairFailed e), None))"
  by (auto simp: attempt_def rate_limited_def proof_accepted_def Let_def image_iff split: option.splits sum.splits)

lemma attempt_window:
  "pg_window (snd (attempt hmac now peer fp did proof store p)) =
     (if rate_limited now peer p then pg_window p
      else case pg_window p of
        None \<Rightarrow> None
      | Some w \<Rightarrow>
          if pw_expires_at w \<le> now then None
          else if \<not> proof_accepted hmac w fp did proof
          then (if MAX_ATTEMPTS \<le> pw_attempts w + 1 then None else Some (w\<lparr>pw_attempts := pw_attempts w + 1\<rparr>))
          else case store of Inr v \<Rightarrow> None | Inl e \<Rightarrow> Some w)"
  by (auto simp: attempt_def rate_limited_def proof_accepted_def Let_def image_iff split: option.splits sum.splits)

lemma attempt_frame [frame_simps, simp]:
  "pg_generation (snd (attempt hmac now peer fp did proof store p)) = pg_generation p"
  "pg_ttl (snd (attempt hmac now peer fp did proof store p)) = pg_ttl p"
  "pg_interval (snd (attempt hmac now peer fp did proof store p)) = pg_interval p"
  by (auto simp: attempt_def Let_def split: option.splits sum.splits)

lemma pair_step_attempt:
  "pair_step hmac (PAttempt now peer fp did proof store) p =
     (Some (fst (fst (attempt hmac now peer fp did proof store p))),
      snd (attempt hmac now peer fp did proof store p))"
  by (simp add: split_beta Let_def)

lemma pair_step_ok [step_inv]: "pairing_ok p \<Longrightarrow> pairing_ok (snd (pair_step hmac e p))"
proof (cases e)
  case (PAttempt now peer fp did pf store)
  assume "pairing_ok p"
  then show ?thesis unfolding PAttempt pair_step_attempt pairing_ok_def
    by (auto simp: attempt_window split: option.splits sum.splits)
qed (auto simp: pairing_ok_def pairing_begin_def pairing_end_def pairing_expire_def MAX_ATTEMPTS_def Let_def
      split: option.splits sum.splits)

lemma pair_step_guesses:
  assumes "pairing_ok p" "\<not> opens_window e"
  shows "bad_proofs [fst (pair_step hmac e p)] + guesses_left (snd (pair_step hmac e p)) \<le> guesses_left p"
proof (cases e)
  case (PAttempt now peer fp did pf store)
  then show ?thesis unfolding PAttempt pair_step_attempt using assms(1)
    by (auto simp: bad_proofs_def guesses_left_def pairing_ok_def attempt_window attempt_result
        split: option.splits sum.splits pair_error.splits)
qed (use assms in \<open>auto simp: bad_proofs_def guesses_left_def pairing_end_def pairing_expire_def opens_window_def
      split: option.splits\<close>)

lemma bad_proofs_Cons: "bad_proofs (r # rs) = bad_proofs [r] + bad_proofs rs"
  by (simp add: bad_proofs_def)

lemma pair_run_guesses:
  assumes "pairing_ok p" "\<forall>e \<in> set es. \<not> opens_window e"
  shows "bad_proofs (fst (pair_run hmac es p)) \<le> guesses_left p"
  using assms
proof (induction es arbitrary: p)
  case Nil
  then show ?case by (simp add: bad_proofs_def)
next
  case (Cons e es)
  have "bad_proofs [fst (pair_step hmac e p)] + guesses_left (snd (pair_step hmac e p)) \<le> guesses_left p"
    using Cons.prems by (intro pair_step_guesses) auto
  moreover have "bad_proofs (fst (pair_run hmac es (snd (pair_step hmac e p)))) \<le> guesses_left (snd (pair_step hmac e p))"
    using Cons.prems by (intro Cons.IH pair_step_ok) auto
  moreover have "fst (pair_run hmac (e # es) p) =
      fst (pair_step hmac e p) # fst (pair_run hmac es (snd (pair_step hmac e p)))"
    by (simp add: split_beta Let_def)
  ultimately show ?case by (subst \<open>fst (pair_run hmac (e # es) p) = _\<close>, subst bad_proofs_Cons) linarith
qed

lemma pair_run_ok: "pairing_ok p \<Longrightarrow> pairing_ok (snd (pair_run hmac es p))"
proof (induction es arbitrary: p)
  case (Cons e es)
  from Cons.IH [OF pair_step_ok [OF Cons.prems]] show ?case by (simp add: split_beta Let_def)
qed simp

lemma pairing_new_ok: "pairing_ok (pairing_new ttl interval)"
  by (simp add: pairing_ok_def pairing_new_def)

section \<open>Properties\<close>

text \<open>
  C16. A pairing window allows at most five wrong proofs: whatever happened before, between two
  openings of a window at most \<open>MAX_ATTEMPTS\<close> requests are answered with \<open>bad_proof\<close>, however
  requests, expiry timers and cancellations are ordered.
\<close>

theorem pin_guesses_are_bounded:
  assumes "\<forall>e \<in> set es. \<not> opens_window e"
  shows "bad_proofs (fst (pair_run hmac es
      (snd (pairing_begin pin now now_ms (snd (pair_run hmac before (pairing_new ttl interval))))))) \<le> MAX_ATTEMPTS"
proof -
  let ?p = "snd (pairing_begin pin now now_ms (snd (pair_run hmac before (pairing_new ttl interval))))"
  have "pairing_ok (snd (pair_step hmac (PBegin pin now now_ms) (snd (pair_run hmac before (pairing_new ttl interval)))))"
    by (intro pair_step_ok pair_run_ok pairing_new_ok)
  then have "bad_proofs (fst (pair_run hmac es ?p)) \<le> guesses_left ?p"
    using assms by (intro pair_run_guesses) simp_all
  also have "\<dots> \<le> MAX_ATTEMPTS" by (simp add: guesses_left_def split: option.splits)
  finally show ?thesis .
qed

text \<open>Six wrong proofs against a fresh window: five are answered \<open>bad_proof\<close>, then it is closed.\<close>

definition demo_guess :: "nat \<Rightarrow> (nat, unit) pair_event" where
  "demo_guess t = PAttempt t t ''fp'' ''dev'' ''00'' (Inr ())"

theorem pin_guesses_are_bounded_witness:
  "bad_proofs (fst (pair_run (\<lambda>k m. k @ m) (map demo_guess [1, 2, 3, 4, 5, 6])
      (snd (pairing_begin (Inr ''123456'') 0 0 (snd (pair_run (\<lambda>k m. k @ m) [] (pairing_new 100 1))))))) \<le> MAX_ATTEMPTS"
  by (rule pin_guesses_are_bounded) (simp add: demo_guess_def opens_window_def)

text \<open>
  C25. Pairing needs the PIN: a request is accepted exactly when it is not rate limited, the
  window is open and not expired, its proof is the HMAC of this server's fingerprint and the
  device ID under the window's PIN, and the device was stored; an accepted request closes the
  window. The proof the phone computes is always recognised.
\<close>

theorem pairing_needs_the_pin:
  "(fst (attempt hmac now peer fp did pf store p) = (Inr v, why) \<longleftrightarrow>
      \<not> rate_limited now peer p \<and> why = Some PAIRED \<and> store = Inr v \<and>
      (\<exists>w. pg_window p = Some w \<and> now < pw_expires_at w \<and>
         to_ascii_lowercase (trim pf) = pair_proof hmac (pw_pin w) fp did)) \<and>
   (is_ok (fst (fst (attempt hmac now peer fp did pf store p))) \<longrightarrow>
      pg_window (snd (attempt hmac now peer fp did pf store p)) = None) \<and>
   to_ascii_lowercase (trim (pair_proof hmac pin fp did)) = pair_proof hmac pin fp did"
  by (auto simp: attempt_result attempt_window proof_accepted_def pair_proof_def hex_lowercase hex_graphic
      trim_all_graphic split: option.splits sum.splits if_splits)

theorem pairing_needs_the_pin_witness:
  "fst (attempt (\<lambda>k m. k @ m) 5 (7::nat) ''fp'' ''dev'' (pair_proof (\<lambda>k m. k @ m) ''123456'' ''fp'' ''dev'') (Inr ''key'')
      (snd (pairing_begin (Inr ''123456'') 0 0 (pairing_new 100 1)))) = (Inr ''key'', Some PAIRED)"
  using pairing_needs_the_pin [where hmac = "\<lambda>k m. k @ m" and now = 5 and peer = "7::nat" and fp = "''fp''"
      and did = "''dev''" and pf = "pair_proof (\<lambda>k m. k @ m) ''123456'' ''fp'' ''dev''" and pin = "''123456''"
      and store = "Inr ''key''" and v = "''key''" and why = "Some PAIRED"
      and p = "snd (pairing_begin (Inr ''123456'') 0 0 (pairing_new 100 1))"]
  by (simp add: pairing_begin_def pairing_new_def rate_limited_def)

lemma recent_kept:
  assumes "(peer, at) \<in> set (pg_recent p)" "event_time e - at < pg_interval p"
  shows "(peer, at) \<in> set (pg_recent (snd (pair_step hmac e p))) \<and>
    pg_interval (snd (pair_step hmac e p)) = pg_interval p"
proof (cases e)
  case (PAttempt now q fp did pf store)
  show ?thesis using assms unfolding PAttempt pair_step_attempt
    by (auto simp: attempt_def event_time_def Let_def split: option.splits sum.splits)
qed (use assms in \<open>auto simp: pairing_begin_def pairing_end_def pairing_expire_def Let_def split: option.splits sum.splits\<close>)

lemma recent_kept_run:
  assumes "(peer, at) \<in> set (pg_recent p)" "\<forall>e \<in> set es. event_time e - at < pg_interval p"
  shows "(peer, at) \<in> set (pg_recent (snd (pair_run hmac es p))) \<and>
    pg_interval (snd (pair_run hmac es p)) = pg_interval p"
  using assms
proof (induction es arbitrary: p)
  case (Cons e es)
  from Cons.prems have "(peer, at) \<in> set (pg_recent (snd (pair_step hmac e p)))"
    "pg_interval (snd (pair_step hmac e p)) = pg_interval p"
    using recent_kept [of peer at p e hmac] by auto
  with Cons.IH [of "snd (pair_step hmac e p)"] Cons.prems show ?case by (simp add: split_beta Let_def)
qed simp

lemma admitted_is_recent:
  "\<not> rate_limited now peer p \<Longrightarrow> 0 < pg_interval p \<Longrightarrow>
     (peer, now) \<in> set (pg_recent (snd (attempt hmac now peer fp did pf store p)))"
  by (auto simp: attempt_def rate_limited_def Let_def split: option.splits sum.splits)

text \<open>
  One request per interval and address: after an attempt that was not rate limited, every
  attempt from the same address before the interval has passed is refused, whatever other
  requests, openings and expiries happen in between.
\<close>

theorem attempts_are_rate_limited:
  assumes "\<not> rate_limited now peer p" "0 < pg_interval p" "later < now + pg_interval p"
    and "\<forall>e \<in> set es. event_time e \<le> later"
  shows "fst (attempt hmac later peer fp' did' pf' store'
      (snd (pair_run hmac es (snd (attempt hmac now peer fp did pf store p))))) = (Inl RateLimited, None)"
proof -
  let ?p = "snd (attempt hmac now peer fp did pf store p)"
  have "(peer, now) \<in> set (pg_recent ?p)" using assms by (intro admitted_is_recent)
  moreover have "\<forall>e \<in> set es. event_time e - now < pg_interval ?p" using assms by fastforce
  ultimately have "(peer, now) \<in> set (pg_recent (snd (pair_run hmac es ?p)))"
    "pg_interval (snd (pair_run hmac es ?p)) = pg_interval p"
    using recent_kept_run [of peer now ?p es hmac] by auto
  then have "rate_limited later peer (snd (pair_run hmac es ?p))"
    using assms unfolding rate_limited_def by (metis add_diff_cancel_left' add_less_cancel_left less_diff_conv2
        linorder_not_less nat_diff_split)
  then show ?thesis by (simp add: attempt_result)
qed

theorem attempts_are_rate_limited_witness:
  "fst (attempt (\<lambda>k m. k @ m) 9 (1::nat) ''fp'' ''dev'' ''11'' (Inr ())
     (snd (pair_run (\<lambda>k m. k @ m) [PBegin (Inr ''654321'') 6 0, PAttempt 7 2 ''fp'' ''dev'' ''00'' (Inr ())]
       (snd (attempt (\<lambda>k m. k @ m) 5 1 ''fp'' ''dev'' ''00'' (Inr ()) (pairing_new 100 10)))))) = (Inl RateLimited, None)"
  by (rule attempts_are_rate_limited) (simp_all add: rate_limited_def pairing_new_def event_time_def)

lemma pad6_props:
  assumes "n < 1000000"
  shows "length (pad6 n) = 6" "list_all is_ascii_digit (pad6 n)" "digits_value 0 (pad6 n) = Some n"
proof -
  have "length (show_nat n) \<le> 6" using length_show_nat [of n 6] assms by simp
  then show "length (pad6 n) = 6" by (simp add: pad6_def)
  show "list_all is_ascii_digit (pad6 n)"
    using show_nat_all_digits [of n] by (auto simp: pad6_def list_all_iff is_ascii_digit_def byte_of_def)
  have "digits_value 0 (replicate k (CHR ''0'')) = Some 0" for k
    by (induction k) (simp_all add: is_ascii_digit_def byte_of_def)
  then show "digits_value 0 (pad6 n) = Some n"
    using show_nat_digits [of n] by (simp add: pad6_def digits_value_append)
qed

lemma pin_preimages: "k < 1000000 \<Longrightarrow> card {v. v < pin_limit \<and> v mod 1000000 = k} = 4294"
proof -
  assume k: "k < 1000000"
  have "{v. v < pin_limit \<and> v mod 1000000 = k} = (\<lambda>q. q * 1000000 + k) ` {..<4294}"
  proof (intro equalityI subsetI)
    fix v assume "v \<in> {v. v < pin_limit \<and> v mod 1000000 = k}"
    then have "v < 4294000000" "v = v div 1000000 * 1000000 + k" by (auto simp: pin_limit_def)
    then show "v \<in> (\<lambda>q. q * 1000000 + k) ` {..<4294}" by (intro image_eqI [of _ _ "v div 1000000"]) auto
  qed (use k in \<open>auto simp: pin_limit_def\<close>)
  moreover have "inj_on (\<lambda>q. q * 1000000 + k) {..<4294}" by (auto simp: inj_on_def)
  ultimately show ?thesis by (simp add: card_image)
qed

text \<open>
  PINs are six digits and uniform: the accepted range of the 32-bit draw maps exactly 4294
  values to each of the million PINs, the printed PIN has six digits and determines the number,
  and the loop ends with the first draw below the limit.
\<close>

theorem pins_are_six_uniform_digits:
  assumes "new_pin (map Inr rejected @ Inr bytes # draws) = Some (Inr pin)"
    and "\<forall>bs \<in> set rejected. pin_limit \<le> u32_from_le_bytes bs" "u32_from_le_bytes bytes < pin_limit"
  shows "length pin = 6 \<and> list_all is_ascii_digit pin \<and>
    digits_value 0 pin = Some (u32_from_le_bytes bytes mod 1000000) \<and>
    card {v. v < pin_limit \<and> pad6 (v mod 1000000) = pin} = 4294"
proof -
  have "new_pin (map Inr rejected @ Inr bytes # draws) = Some (Inr (pad6 (u32_from_le_bytes bytes mod 1000000)))"
    using assms(2,3) by (induction rejected) (auto simp: Let_def)
  then have pin: "pin = pad6 (u32_from_le_bytes bytes mod 1000000)" using assms(1) by simp
  have "{v. v < pin_limit \<and> pad6 (v mod 1000000) = pin} =
      {v. v < pin_limit \<and> v mod 1000000 = u32_from_le_bytes bytes mod 1000000}"
    unfolding pin using pad6_props(3) by (metis (mono_tags, lifting) mod_less_divisor option.inject zero_less_numeral)
  then show ?thesis using pin pin_preimages pad6_props by simp
qed

theorem pins_are_six_uniform_digits_witness:
  "new_pin [Inr [255, 255, 255, 255], Inr [42, 0, 0, 0]] = Some (Inr ''000042'') \<and>
   card {v. v < pin_limit \<and> pad6 (v mod 1000000) = ''000042''} = 4294"
proof -
  have v: "u32_from_le_bytes [255, 255, 255, 255] = 4294967295" "u32_from_le_bytes [42, 0, 0, 0] = 42"
    by (simp_all add: u32_from_le_bytes_def)
  have pin: "pad6 42 = ''000042''"
    by code_simp
  have run: "new_pin [Inr [255, 255, 255, 255], Inr [42, 0, 0, 0]] = Some (Inr ''000042'')"
    by (simp add: v pin pin_limit_def)
  from pins_are_six_uniform_digits [of "[[255, 255, 255, 255]]" "[42, 0, 0, 0]" "[]" "''000042''"] run
  show ?thesis by (simp add: v pin_limit_def)
qed

end
