(* ===== verification/Received_Files.thy ===== *)
theory Received_Files
  imports Rust_Text "HOL-Library.Product_Lexorder"
begin

text \<open>
  Song files a phone sends to the desktop (\<open>crates/link/src/files.rs\<close>): the name rule, the
  streaming of a body into a part file that is renamed into place, and the pruning that bounds the
  folder. Answers of the file system are arguments.
\<close>

section \<open>Names\<close>

definition RECEIVED_EXTENSIONS :: "string list" where
  "RECEIVED_EXTENSIONS =
     [''flac'', ''mp3'', ''m4a'', ''mp4'', ''aac'', ''ogg'', ''oga'', ''opus'', ''wav'', ''aif'', ''aiff'', ''aifc'',
      ''wv'', ''ape'', ''dsf'', ''dff'', ''mka'', ''wma'', ''webm'']"

definition PART_SUFFIX :: string where
  "PART_SUFFIX = ''.part''"

definition MAX_UPLOAD :: nat where
  "MAX_UPLOAD = 2 * 2 ^ 30"

definition MAX_RECEIVED :: nat where
  "MAX_RECEIVED = 4 * 2 ^ 30"

definition STALE_PART :: nat where
  "STALE_PART = 3600"

definition lower_hex_char :: "char \<Rightarrow> bool" where
  "lower_hex_char c \<longleftrightarrow> is_ascii_digit c \<or> 97 \<le> byte_of c \<and> byte_of c \<le> 102"

definition valid_name :: "string \<Rightarrow> bool" where
  "valid_name name =
     (case split_once (CHR ''.'') name of
        None \<Rightarrow> False
      | Some (stem, extension) \<Rightarrow>
          length stem = 32 \<and> list_all lower_hex_char stem \<and> extension \<in> set RECEIVED_EXTENSIONS)"

section \<open>Receiving a body\<close>

datatype receive_error = TooLarge | Unreadable | Storage string

datatype body_frame = Data "u8 list" "(string, unit) result" | Trailers | Broken

text \<open>The copy loop: the bytes written so far and the outcome. A data frame comes with the answer of its write.\<close>

fun copy_body :: "nat \<Rightarrow> u8 list \<Rightarrow> body_frame list \<Rightarrow> (receive_error, u8 list) result" where
  "copy_body limit written [] = Inr written"
| "copy_body limit written (Broken # frames) = Inl Unreadable"
| "copy_body limit written (Trailers # frames) = copy_body limit written frames"
| "copy_body limit written (Data bs io # frames) =
     (if length written + length bs > limit then Inl TooLarge
      else case io of Inl e \<Rightarrow> Inl (Storage e) | Inr _ \<Rightarrow> copy_body limit (written @ bs) frames)"

type_synonym received_dir = "string \<Rightarrow> u8 list option"

text \<open>What the file system answers to one upload; \<open>io_removed\<close>: the removal of the part file on drop.\<close>

record receive_io =
  io_mkdir :: "(string, unit) result"
  io_unique :: string
  io_create :: "(string, unit) result"
  io_flush :: "(string, unit) result"
  io_rename :: "(string, unit) result"
  io_removed :: bool

definition part_name :: "string \<Rightarrow> string \<Rightarrow> string" where
  "part_name name unique = ''.'' @ name @ ''.'' @ unique @ PART_SUFFIX"

text \<open>
  \<open>receive\<close>. \<open>left\<close> is what an unremoved part file holds: the bytes that reached it.
\<close>

definition receive_file ::
  "receive_io \<Rightarrow> u8 list \<Rightarrow> string \<Rightarrow> body_frame list \<Rightarrow> nat \<Rightarrow> received_dir \<Rightarrow> (receive_error, nat) result \<times> received_dir" where
  "receive_file io left name body limit dir =
     (case io_mkdir io of
        Inl e \<Rightarrow> (Inl (Storage e), dir)
      | Inr _ \<Rightarrow>
          (case io_create io of
             Inl e \<Rightarrow> (Inl (Storage e), dir)
           | Inr _ \<Rightarrow>
               (let part = part_name name (io_unique io);
                    dropped = (if io_removed io then dir(part := None) else dir(part \<mapsto> left))
                in case copy_body limit [] body of
                     Inl e \<Rightarrow> (Inl e, dropped)
                   | Inr written \<Rightarrow>
                       (case io_flush io of
                          Inl e \<Rightarrow> (Inl (Storage e), dropped)
                        | Inr _ \<Rightarrow>
                            (case io_rename io of
                               Inl e \<Rightarrow> (Inl (Storage e), dropped)
                             | Inr _ \<Rightarrow> (Inr (length written), dir(part := None, name \<mapsto> written)))))))"

section \<open>Pruning\<close>

text \<open>A directory entry; \<open>de_name\<close> is \<open>None\<close> when the name is not text, \<open>de_modified\<close> when the time is unknown.\<close>

record dir_entry =
  de_name :: "string option"
  de_file :: bool
  de_metadata :: bool
  de_modified :: "nat option"
  de_len :: nat

definition modified_or :: "nat \<Rightarrow> dir_entry \<Rightarrow> nat" where
  "modified_or now e = (case de_modified e of None \<Rightarrow> now | Some t \<Rightarrow> t)"

datatype entry_kind = Ignored | Part | Complete

definition entry_kind :: "dir_entry \<Rightarrow> entry_kind" where
  "entry_kind e =
     (if \<not> de_metadata e \<or> \<not> de_file e then Ignored
      else case de_name e of
             None \<Rightarrow> Ignored
           | Some name \<Rightarrow>
               if starts_with name ''.'' \<and> ends_with name PART_SUFFIX then Part
               else if valid_name name then Complete else Ignored)"

text \<open>A part file is stale when it is older than the limit; a modification time in the future has no age.\<close>

definition stale_part :: "nat \<Rightarrow> nat \<Rightarrow> dir_entry \<Rightarrow> bool" where
  "stale_part now stale_after e \<longleftrightarrow>
     entry_kind e = Part \<and> modified_or now e \<le> now \<and> now - modified_or now e > stale_after"

definition age_key :: "nat \<Rightarrow> dir_entry \<Rightarrow> nat \<times> nat \<times> string" where
  "age_key now e = (modified_or now e, de_len e, case de_name e of None \<Rightarrow> [] | Some n \<Rightarrow> n)"

text \<open>The removal loop over the sorted files; \<open>removable\<close> tells which removals the file system grants.\<close>

fun remove_oldest :: "(dir_entry \<Rightarrow> bool) \<Rightarrow> nat \<Rightarrow> nat \<Rightarrow> dir_entry list \<Rightarrow> dir_entry list" where
  "remove_oldest removable max_bytes held [] = []"
| "remove_oldest removable max_bytes held (e # es) =
     (if held \<le> max_bytes then []
      else if removable e then e # remove_oldest removable max_bytes (held - de_len e) es
      else remove_oldest removable max_bytes held es)"

definition completed :: "dir_entry list \<Rightarrow> dir_entry list" where
  "completed es = filter (\<lambda>e. entry_kind e = Complete) es"

definition total_len :: "dir_entry list \<Rightarrow> nat" where
  "total_len es = sum_list (map de_len es)"

text \<open>The completed files \<open>prune\<close> removes, oldest first, and the entries it leaves.\<close>

definition pruned ::
  "(dir_entry \<Rightarrow> bool) \<Rightarrow> nat \<Rightarrow> nat \<Rightarrow> string \<Rightarrow> dir_entry list \<Rightarrow> dir_entry list" where
  "pruned removable now max_bytes keep es =
     remove_oldest removable max_bytes (total_len (completed es))
       (sort_key (age_key now) (filter (\<lambda>e. de_name e \<noteq> Some keep) (completed es)))"

definition prune ::
  "bool \<Rightarrow> (dir_entry \<Rightarrow> bool) \<Rightarrow> nat \<Rightarrow> nat \<Rightarrow> nat \<Rightarrow> string \<Rightarrow> dir_entry list \<Rightarrow> dir_entry list" where
  "prune readable removable now max_bytes stale_after keep es =
     (if \<not> readable then es
      else filter (\<lambda>e. \<not> (stale_part now stale_after e \<and> removable e) \<and>
                       e \<notin> set (pruned removable now max_bytes keep es)) es)"

section \<open>An upload is all or nothing\<close>

fun body_bytes :: "body_frame list \<Rightarrow> u8 list" where
  "body_bytes [] = []"
| "body_bytes (Data bs _ # frames) = bs @ body_bytes frames"
| "body_bytes (_ # frames) = body_bytes frames"

lemma copy_body_ok:
  "copy_body limit written body = Inr all \<Longrightarrow> length written \<le> limit \<Longrightarrow>
   all = written @ body_bytes body \<and> length all \<le> limit \<and> Broken \<notin> set body"
  by (induction limit written body rule: copy_body.induct) (auto split: if_splits sum.splits)

lemma receive_file_atomic:
  assumes "receive_file io left name body limit dir = (r, dir')" "k \<noteq> part_name name (io_unique io)"
  shows "case r of
           Inl _ \<Rightarrow> dir' k = dir k
         | Inr n \<Rightarrow> Broken \<notin> set body \<and> n = length (body_bytes body) \<and> n \<le> limit \<and>
                    dir' k = (if k = name then Some (body_bytes body) else dir k)"
proof (cases "copy_body limit [] body")
  case (Inl e)
  with assms show ?thesis by (auto simp: receive_file_def Let_def split: sum.splits if_splits)
next
  case (Inr written)
  with copy_body_ok [OF Inr] have "written = body_bytes body" "length written \<le> limit" "Broken \<notin> set body" by auto
  with Inr assms show ?thesis by (auto simp: receive_file_def Let_def split: sum.splits if_splits)
qed

section \<open>Pruning bounds the folder\<close>

lemma remove_oldest_subset: "set (remove_oldest removable m held fs) \<subseteq> {e \<in> set fs. removable e}"
  by (induction removable m held fs rule: remove_oldest.induct) auto

lemma remove_oldest_distinct: "distinct fs \<Longrightarrow> distinct (remove_oldest removable m held fs)"
proof (induction fs arbitrary: held)
  case (Cons e fs)
  then show ?case using remove_oldest_subset [of removable m "held - de_len e" fs] by auto
qed simp

lemma remove_oldest_enough:
  assumes "list_all removable fs" "total_len fs \<le> held"
  shows "held - total_len (remove_oldest removable m held fs) \<le> m \<or> remove_oldest removable m held fs = fs"
  using assms
  by (induction removable m held fs rule: remove_oldest.induct) (auto simp: total_len_def)

lemma remove_oldest_order:
  assumes "sorted_wrt R fs" "r \<in> set (remove_oldest removable m held fs)" "k \<in> set fs"
    and "k \<notin> set (remove_oldest removable m held fs)" "removable k"
  shows "R r k"
  using assms
proof (induction fs arbitrary: held)
  case (Cons e fs)
  then show ?case
    using remove_oldest_subset [of removable m "held - de_len e" fs] remove_oldest_subset [of removable m held fs]
    by (auto split: if_splits)
qed simp

lemma total_len_set: "distinct es \<Longrightarrow> total_len es = sum de_len (set es)"
  by (simp add: total_len_def sum_list_distinct_conv_sum_set)

lemma pruned_members:
  "e \<in> set (pruned removable now m keep es) \<Longrightarrow> e \<in> set es \<and> entry_kind e = Complete \<and> de_name e \<noteq> Some keep \<and> removable e"
  using remove_oldest_subset by (fastforce simp: pruned_def completed_def)

lemma completed_prune:
  "completed (prune True removable now m stale keep es) =
   filter (\<lambda>e. e \<notin> set (pruned removable now m keep es)) (completed es)"
  by (auto simp: prune_def completed_def stale_part_def intro!: filter_cong)

lemma prune_enough:
  assumes d: "distinct (completed es)" and all: "\<forall>e. removable e"
  shows "total_len (completed (prune True removable now m stale keep es)) \<le> m \<or>
         (\<forall>e \<in> set (completed (prune True removable now m stale keep es)). de_name e = Some keep)"
proof -
  let ?fs = "sort_key (age_key now) (filter (\<lambda>e. de_name e \<noteq> Some keep) (completed es))"
  let ?r = "pruned removable now m keep es" and ?left = "completed (prune True removable now m stale keep es)"
  have "total_len ?fs \<le> total_len (completed es)"
    using d by (simp add: total_len_set sum_mono2)
  with all remove_oldest_enough [of removable ?fs "total_len (completed es)" m]
  consider "total_len (completed es) - total_len ?r \<le> m" | "?r = ?fs"
    by (auto simp: pruned_def list_all_iff)
  then show ?thesis
  proof cases
    case 1
    have rd: "distinct ?r" using d by (simp add: pruned_def remove_oldest_distinct)
    have sub: "set ?r \<subseteq> set (completed es)" using pruned_members by (fastforce simp: completed_def)
    have "total_len ?left = sum de_len (set (completed es) - set ?r)"
      using d by (simp add: completed_prune total_len_set set_diff_eq)
    also have "\<dots> = total_len (completed es) - total_len ?r"
      using d rd sub by (simp add: total_len_set sum_diff_nat)
    finally show ?thesis using 1 by simp
  next
    case 2
    then have "set ?r = {e \<in> set (completed es). de_name e \<noteq> Some keep}" by auto
    then show ?thesis by (auto simp: completed_prune)
  qed
qed

text \<open>
  Pruning after an upload bounds the folder of received files: when removals succeed, the
  completed files left total at most the limit, unless only the file just received is left. Only
  stale part files and completed files other than that one are ever removed, completed files go
  oldest first, and none goes while the total is within the limit.
\<close>

theorem pruning_bounds_received_files:
  assumes "distinct (completed es)"
  shows "((\<forall>e. removable e) \<longrightarrow>
            total_len (completed (prune True removable now m stale keep es)) \<le> m \<or>
            (\<forall>e \<in> set (completed (prune True removable now m stale keep es)). de_name e = Some keep)) \<and>
         (\<forall>e \<in> set es - set (prune True removable now m stale keep es).
            stale_part now stale e \<or>
            entry_kind e = Complete \<and> de_name e \<noteq> Some keep \<and> m < total_len (completed es) \<and>
            (\<forall>k \<in> set (completed (prune True removable now m stale keep es)).
               de_name k \<noteq> Some keep \<and> removable k \<longrightarrow> age_key now e \<le> age_key now k))"
proof (intro conjI impI ballI)
  assume "\<forall>e. removable e"
  then show "total_len (completed (prune True removable now m stale keep es)) \<le> m \<or>
      (\<forall>e \<in> set (completed (prune True removable now m stale keep es)). de_name e = Some keep)"
    by (rule prune_enough [OF assms])
next
  fix e assume e: "e \<in> set es - set (prune True removable now m stale keep es)"
  let ?r = "pruned removable now m keep es"
  let ?fs = "sort_key (age_key now) (filter (\<lambda>e. de_name e \<noteq> Some keep) (completed es))"
  show "stale_part now stale e \<or>
      entry_kind e = Complete \<and> de_name e \<noteq> Some keep \<and> m < total_len (completed es) \<and>
      (\<forall>k \<in> set (completed (prune True removable now m stale keep es)).
         de_name k \<noteq> Some keep \<and> removable k \<longrightarrow> age_key now e \<le> age_key now k)"
  proof (cases "stale_part now stale e")
    case False
    with e have er: "e \<in> set ?r" by (auto simp: prune_def)
    have "m < total_len (completed es)"
      using er by (cases ?fs) (auto simp: pruned_def not_le split: if_splits)
    moreover have "age_key now e \<le> age_key now k"
      if k: "k \<in> set (completed (prune True removable now m stale keep es))" "de_name k \<noteq> Some keep" "removable k" for k
    proof (rule remove_oldest_order [where R = "\<lambda>a b. age_key now a \<le> age_key now b"])
      show "sorted_wrt (\<lambda>a b. age_key now a \<le> age_key now b) ?fs"
        by (metis sorted_map sorted_sort_key)
      show "e \<in> set (remove_oldest removable m (total_len (completed es)) ?fs)" using er by (simp add: pruned_def)
      show "k \<in> set ?fs" using k by (simp add: completed_prune)
      show "k \<notin> set (remove_oldest removable m (total_len (completed es)) ?fs)"
        using k by (simp add: completed_prune pruned_def)
    qed (rule k(3))
    ultimately show ?thesis using pruned_members [OF er] by blast
  qed simp
qed

definition demo_song :: "string \<Rightarrow> nat \<Rightarrow> dir_entry" where
  "demo_song name t = \<lparr>de_name = Some name, de_file = True, de_metadata = True, de_modified = Some t, de_len = 6\<rparr>"

definition demo_name :: "char \<Rightarrow> string" where
  "demo_name c = replicate 32 c @ ''.flac''"

definition demo_folder :: "dir_entry list" where
  "demo_folder =
     [demo_song (demo_name CHR ''a'') 5, demo_song (demo_name CHR ''b'') 3, demo_song (demo_name CHR ''c'') 9]"

theorem pruning_bounds_received_files_witness:
  "prune True (\<lambda>_. True) 10 12 100 (demo_name CHR ''c'') demo_folder =
     [demo_song (demo_name CHR ''a'') 5, demo_song (demo_name CHR ''c'') 9] \<and>
   total_len (completed (prune True (\<lambda>_. True) 10 12 100 (demo_name CHR ''c'') demo_folder)) \<le> 12"
proof -
  have d: "distinct (completed demo_folder)" by code_simp
  have left: "prune True (\<lambda>_. True) 10 12 100 (demo_name CHR ''c'') demo_folder =
      [demo_song (demo_name CHR ''a'') 5, demo_song (demo_name CHR ''c'') 9]" by code_simp
  have "\<not> list_all (\<lambda>e. de_name e = Some (demo_name CHR ''c''))
      (completed [demo_song (demo_name CHR ''a'') 5, demo_song (demo_name CHR ''c'') 9])" by code_simp
  with pruning_bounds_received_files [OF d, of "\<lambda>_. True" 10 12 100 "demo_name CHR ''c''"] left show ?thesis
    by (auto simp: list_all_iff)
qed

end
