(* ===== verification/Link_Api.thy ===== *)
theory Link_Api
  imports Pairing Received_Files Json_Value
begin

text \<open>
  The request router of the link server (\<open>crates/link/src/api.rs\<close>). A request is handled as a whole:
  its answer, the calls it makes into the app, and the state it leaves. What the surrounding libraries
  answer (form and JSON parsers, digests, the clock, the file system, the app itself) are the fields
  of an environment; header values are those readable as text.
\<close>

section \<open>Requests, replies and state\<close>

record api_request =
  rq_method :: string
  rq_path :: string
  rq_query :: "string option"
  rq_header :: "string \<Rightarrow> string option"
  rq_body :: "body_frame list"

datatype api_reply =
    JsonReply nat json
  | SubsonicReply
  | SubsonicError nat string
  | WebSocketReply

record host_error =
  he_code :: string
  he_message :: string

text \<open>The calls a request makes: the Subsonic layer, the app, the WebSocket upgrade, and the folder's pruning.\<close>

datatype api_action =
    CallSubsonic string "(string \<times> string) list" string
  | CallHost string string json
  | Event string json
  | Upgrade device_record
  | PruneReceived string

record api_env =
  en_form :: "string \<Rightarrow> (string \<times> string) list"
  en_json :: "u8 list \<Rightarrow> json option"
  en_digest :: "u8 list \<Rightarrow> u8 list"
  en_hmac :: "u8 list \<Rightarrow> u8 list \<Rightarrow> u8 list"
  en_now :: nat
  en_now_ms :: int
  en_new_key :: "(string, string) result"
  en_store_io :: "(string, unit) result"
  en_host :: "string \<Rightarrow> string \<Rightarrow> json \<Rightarrow> (host_error, json) result"
  en_receive :: receive_io
  en_left :: "u8 list"

record link_config =
  lc_server_id :: string
  lc_name :: string
  lc_app_version :: string
  lc_fingerprint :: string

record 'ip link_state =
  la_store :: link_store
  la_pairing :: "'ip pairing"
  la_received :: received_dir

type_synonym 'ip api_result = "api_reply \<times> api_action list \<times> 'ip link_state"

definition MAX_BODY :: nat where
  "MAX_BODY = 8 * 2 ^ 20"

definition MAX_DEVICE_ID :: nat where
  "MAX_DEVICE_ID = 200"

section \<open>Replies\<close>

definition error_reply :: "nat \<Rightarrow> string \<Rightarrow> api_reply" where
  "error_reply status code = JsonReply status (JObj [(''error'', JStr code)])"

definition unauthorized :: api_reply where
  "unauthorized = error_reply 401 ''unauthorized''"

definition not_found :: api_reply where
  "not_found = error_reply 404 ''not_found''"

definition method_not_allowed :: api_reply where
  "method_not_allowed = error_reply 405 ''method_not_allowed''"

definition invalid :: "string \<Rightarrow> api_reply" where
  "invalid message = JsonReply 400 (JObj [(''error'', JStr ''invalid''), (''message'', JStr message)])"

definition http_status :: "host_error \<Rightarrow> nat" where
  "http_status e =
     (if he_code e = ''invalid'' then 400 else if he_code e = ''not_found'' then 404
      else if he_code e = ''unavailable'' then 503 else if he_code e = ''timeout'' then 504 else 500)"

section \<open>Bodies\<close>

datatype body_error = BodyTooLarge | BodyUnreadable

definition body_reply :: "body_error \<Rightarrow> api_reply" where
  "body_reply e =
     (case e of BodyTooLarge \<Rightarrow> error_reply 413 ''too_large'' | BodyUnreadable \<Rightarrow> invalid ''The body could not be read'')"

definition declared_length :: "(string \<Rightarrow> string option) \<Rightarrow> nat option" where
  "declared_length header = Option.bind (header ''content-length'') (parse_unsigned u64_max)"

text \<open>\<open>Limited\<close> and \<open>collect\<close> of \<open>http_body_util\<close>: the first data frame past the limit is the error.\<close>

fun collect_body :: "nat \<Rightarrow> u8 list \<Rightarrow> body_frame list \<Rightarrow> (body_error, u8 list) result" where
  "collect_body limit got [] = Inr got"
| "collect_body limit got (Broken # frames) = Inl BodyUnreadable"
| "collect_body limit got (Trailers # frames) = collect_body limit got frames"
| "collect_body limit got (Data bs _ # frames) =
     (if length got + length bs > limit then Inl BodyTooLarge else collect_body limit (got @ bs) frames)"

definition api_read_body :: "(string \<Rightarrow> string option) \<Rightarrow> body_frame list \<Rightarrow> (body_error, u8 list) result" where
  "api_read_body header body =
     (case declared_length header of
        Some n \<Rightarrow> if n > MAX_BODY then Inl BodyTooLarge else collect_body MAX_BODY [] body
      | None \<Rightarrow> collect_body MAX_BODY [] body)"

definition is_form :: "(string \<Rightarrow> string option) \<Rightarrow> bool" where
  "is_form header =
     (case header ''content-type'' of
        None \<Rightarrow> False
      | Some v \<Rightarrow> eq_ignore_ascii_case (trim (hd (split_char (CHR '';'') v))) ''application/x-www-form-urlencoded'')"

definition form_params :: "api_env \<Rightarrow> string option \<Rightarrow> (string \<times> string) list" where
  "form_params env query = (case query of None \<Rightarrow> [] | Some q \<Rightarrow> en_form env q)"

definition query_map :: "api_env \<Rightarrow> string option \<Rightarrow> (string \<times> json) list" where
  "query_map env query = fold (\<lambda>(k, v). bt_insert k (JStr v)) (form_params env query) []"

section \<open>The handlers\<close>

definition touched :: "api_env \<Rightarrow> string \<Rightarrow> 'ip link_state \<Rightarrow> 'ip link_state" where
  "touched env device_id st = st\<lparr>la_store := store_touch (en_store_io env) (en_now_ms env) device_id (la_store st)\<rparr>"

text \<open>The parameters of a \<open>/rest\<close> call: the query, then a form body.\<close>

definition rest_params :: "api_env \<Rightarrow> api_request \<Rightarrow> (body_error, (string \<times> string) list) result" where
  "rest_params env rq =
     (let params = form_params env (rq_query rq) in
      if rq_method rq = ''POST'' \<and> is_form (rq_header rq)
      then try_bind (api_read_body (rq_header rq) (rq_body rq)) (\<lambda>bytes. Inr (params @ en_form env (of_bytes bytes)))
      else Inr params)"

definition api_rest :: "api_env \<Rightarrow> string \<Rightarrow> api_request \<Rightarrow> 'ip link_state \<Rightarrow> 'ip api_result" where
  "api_rest env meth rq st =
     (if contains_char meth (CHR ''/'') then (not_found, [], st)
      else if rq_method rq \<notin> {''GET'', ''HEAD'', ''POST''} then (method_not_allowed, [], st)
      else
        (let name = (case strip_suffix ''.view'' meth of None \<Rightarrow> meth | Some m \<Rightarrow> m) in
         case rest_params env rq of
           Inl e \<Rightarrow> (body_reply e, [], st)
         | Inr params \<Rightarrow>
             (case subsonic (en_digest env) (store_find (la_store st)) params of
                Inr d \<Rightarrow> (SubsonicReply, [CallSubsonic name params (dr_device_id d)], touched env (dr_device_id d) st)
              | Inl (code, message) \<Rightarrow>
                  if name = ''getOpenSubsonicExtensions'' then (SubsonicReply, [CallSubsonic name params []], st)
                  else (SubsonicError code message, [], st))))"

definition api_info :: "api_env \<Rightarrow> link_config \<Rightarrow> 'ip link_state \<Rightarrow> 'ip api_result" where
  "api_info env cfg st =
     (JsonReply 200 (JObj
        [(''appVersion'', JStr (lc_app_version cfg)), (''fingerprint'', JStr (lc_fingerprint cfg)),
         (''name'', JStr (lc_name cfg)), (''pairing'', JBool (is_open (en_now env) (la_pairing st))),
         (''protocol'', JNum 1), (''serverId'', JStr (lc_server_id cfg))]), [], st)"

definition body_text :: "string \<Rightarrow> json \<Rightarrow> string option" where
  "body_text k body =
     Option.bind (Option.bind (json_get k body) as_str) (\<lambda>v. if trim v = [] then None else Some (trim v))"

definition reason_text :: "end_reason \<Rightarrow> string" where
  "reason_text r = (case r of PAIRED \<Rightarrow> ''paired'' | EXPIRED \<Rightarrow> ''expired'' | ATTEMPTS \<Rightarrow> ''attempts'' | CANCELLED \<Rightarrow> ''cancelled'')"

text \<open>The callback that stores the device runs only when the proof was right.\<close>

definition callback_ran :: "(pair_error, 't) result \<Rightarrow> bool" where
  "callback_ran r \<longleftrightarrow> (case r of Inr _ \<Rightarrow> True | Inl (PairFailed _) \<Rightarrow> True | Inl _ \<Rightarrow> False)"

definition pair_reply :: "link_config \<Rightarrow> (pair_error, device_record) result \<Rightarrow> api_reply" where
  "pair_reply cfg r =
     (case r of
        Inr d \<Rightarrow> JsonReply 200 (JObj [(''apiKey'', JStr (dr_api_key d)), (''fingerprint'', JStr (lc_fingerprint cfg)),
                    (''name'', JStr (lc_name cfg)), (''serverId'', JStr (lc_server_id cfg))])
      | Inl RateLimited \<Rightarrow> error_reply 429 ''rate_limited''
      | Inl PairingClosed \<Rightarrow> error_reply 403 ''pairing_closed''
      | Inl BadProof \<Rightarrow> error_reply 403 ''bad_proof''
      | Inl (PairFailed m) \<Rightarrow> JsonReply 500 (JObj [(''error'', JStr ''internal''), (''message'', JStr m)]))"

definition pair_events :: "string \<Rightarrow> string \<Rightarrow> string \<Rightarrow> end_reason option \<Rightarrow> api_action list" where
  "pair_events device_id name platform ended =
     (case ended of
        None \<Rightarrow> []
      | Some reason \<Rightarrow>
          (if reason = PAIRED
           then [Event ''linkPaired'' (JObj [(''deviceId'', JStr device_id), (''name'', JStr name), (''platform'', JStr platform)])]
           else []) @
          [Event ''linkPairingEnded'' (JObj [(''reason'', JStr (reason_text reason))])])"

definition pair_device ::
  "api_env \<Rightarrow> link_config \<Rightarrow> 'ip \<Rightarrow> string \<Rightarrow> string \<Rightarrow> string \<Rightarrow> string \<Rightarrow> 'ip link_state \<Rightarrow> 'ip api_result" where
  "pair_device env cfg peer device_id pf name platform st =
     (let (stored, store1) =
            store_upsert (en_new_key env) (en_store_io env) (en_now_ms env) device_id name platform True (la_store st);
          ((r, ended), p1) =
            attempt (en_hmac env) (en_now env) peer (lc_fingerprint cfg) device_id pf stored (la_pairing st)
      in (pair_reply cfg r, pair_events device_id name platform ended,
          st\<lparr>la_store := (if callback_ran r then store1 else la_store st), la_pairing := p1\<rparr>))"

definition api_pair :: "api_env \<Rightarrow> link_config \<Rightarrow> 'ip \<Rightarrow> api_request \<Rightarrow> 'ip link_state \<Rightarrow> 'ip api_result" where
  "api_pair env cfg peer rq st =
     (case api_read_body (rq_header rq) (rq_body rq) of
        Inl e \<Rightarrow> (body_reply e, [], st)
      | Inr bytes \<Rightarrow>
          (case en_json env bytes of
             None \<Rightarrow> (invalid ''The body must be a JSON object'', [], st)
           | Some body \<Rightarrow>
               (case (body_text ''deviceId'' body, body_text ''proof'' body) of
                  (Some device_id, Some pf) \<Rightarrow>
                    if length device_id > MAX_DEVICE_ID then (invalid ''deviceId is too long'', [], st)
                    else pair_device env cfg peer device_id pf
                           (case body_text ''name'' body of None \<Rightarrow> device_id | Some n \<Rightarrow> n)
                           (case body_text ''platform'' body of None \<Rightarrow> ''unknown'' | Some n \<Rightarrow> n) st
                | _ \<Rightarrow> (invalid ''deviceId and proof are required'', [], st))))"

definition clean_op :: "string \<Rightarrow> bool" where
  "clean_op op \<longleftrightarrow> list_all (\<lambda>s. s \<noteq> [] \<and> s \<noteq> ''.'' \<and> s \<noteq> ''..'') (split_char (CHR ''/'') op)"

definition is_ascii_whitespace :: "u8 \<Rightarrow> bool" where
  "is_ascii_whitespace b \<longleftrightarrow> b \<in> {9, 10, 12, 13, 32}"

text \<open>The arguments of a forwarded request.\<close>

definition forward_args :: "api_env \<Rightarrow> api_request \<Rightarrow> (api_reply, (string \<times> json) list) result" where
  "forward_args env rq =
     (if rq_method rq = ''GET'' then Inr (bt_insert ''_method'' (JStr ''GET'') (query_map env (rq_query rq)))
      else if rq_method rq = ''POST''
      then (case api_read_body (rq_header rq) (rq_body rq) of
              Inl e \<Rightarrow> Inl (body_reply e)
            | Inr bytes \<Rightarrow>
                if list_all is_ascii_whitespace bytes then Inr (bt_insert ''_method'' (JStr ''POST'') [])
                else (case en_json env bytes of
                        Some (JObj m) \<Rightarrow> Inr (bt_insert ''_method'' (JStr ''POST'') m)
                      | _ \<Rightarrow> Inl (invalid ''The body must be a JSON object'')))
      else Inl method_not_allowed)"

definition host_reply :: "(host_error, json) result \<Rightarrow> api_reply" where
  "host_reply r =
     (case r of
        Inr reply \<Rightarrow> JsonReply 200 reply
      | Inl e \<Rightarrow> JsonReply (http_status e) (JObj [(''error'', JStr (he_code e)), (''message'', JStr (he_message e))]))"

definition api_forward :: "api_env \<Rightarrow> string \<Rightarrow> api_request \<Rightarrow> 'ip link_state \<Rightarrow> 'ip api_result" where
  "api_forward env op rq st =
     (case bearer (store_find (la_store st)) (rq_header rq ''authorization'') of
        None \<Rightarrow> (unauthorized, [], st)
      | Some d \<Rightarrow>
          if \<not> clean_op op then (not_found, [], st)
          else
            (case forward_args env rq of
               Inl reply \<Rightarrow> (reply, [], st)
             | Inr args \<Rightarrow>
                 (host_reply (en_host env op (dr_device_id d) (JObj args)), [CallHost op (dr_device_id d) (JObj args)],
                  touched env (dr_device_id d) st)))"

definition upload_reply :: "string \<Rightarrow> (receive_error, nat) result \<Rightarrow> api_reply" where
  "upload_reply name r =
     (case r of
        Inr n \<Rightarrow> JsonReply 200 (JObj [(''name'', JStr name), (''size'', JNum (of_nat n))])
      | Inl TooLarge \<Rightarrow> body_reply BodyTooLarge
      | Inl Unreadable \<Rightarrow> body_reply BodyUnreadable
      | Inl (Storage e) \<Rightarrow> JsonReply 500 (JObj [(''error'', JStr ''internal''),
                             (''message'', JStr (''The file could not be saved: '' @ e))]))"

definition api_upload :: "api_env \<Rightarrow> string \<Rightarrow> api_request \<Rightarrow> 'ip link_state \<Rightarrow> 'ip api_result" where
  "api_upload env name rq st =
     (case bearer (store_find (la_store st)) (rq_header rq ''authorization'') of
        None \<Rightarrow> (unauthorized, [], st)
      | Some d \<Rightarrow>
          if rq_method rq \<noteq> ''PUT'' then (method_not_allowed, [], st)
          else if \<not> valid_name name
          then (invalid ''The name must be 32 lowercase hex digits and an audio extension'', [], st)
          else if (case declared_length (rq_header rq) of None \<Rightarrow> False | Some n \<Rightarrow> n > MAX_UPLOAD)
          then (body_reply BodyTooLarge, [], st)
          else
            (let st1 = touched env (dr_device_id d) st;
                 (r, dir) = receive_file (en_receive env) (en_left env) name (rq_body rq) MAX_UPLOAD (la_received st1)
             in (upload_reply name r, if is_ok r then [PruneReceived name] else [], st1\<lparr>la_received := dir\<rparr>)))"

definition api_ws :: "api_request \<Rightarrow> 'ip link_state \<Rightarrow> 'ip api_result" where
  "api_ws rq st =
     (case bearer (store_find (la_store st)) (rq_header rq ''authorization'') of
        None \<Rightarrow> (unauthorized, [], st)
      | Some d \<Rightarrow> (WebSocketReply, [Upgrade d], st))"

definition route_op :: "api_env \<Rightarrow> link_config \<Rightarrow> 'ip \<Rightarrow> string \<Rightarrow> api_request \<Rightarrow> 'ip link_state \<Rightarrow> 'ip api_result" where
  "route_op env cfg peer op rq st =
     (if op = ''info'' \<and> rq_method rq = ''GET'' then api_info env cfg st
      else if op = ''pair'' \<and> rq_method rq = ''POST'' then api_pair env cfg peer rq st
      else if op = ''ws'' \<and> rq_method rq = ''GET'' then api_ws rq st
      else if op \<in> {''info'', ''pair'', ''ws''} then (method_not_allowed, [], st)
      else api_forward env op rq st)"

definition route :: "api_env \<Rightarrow> link_config \<Rightarrow> 'ip \<Rightarrow> api_request \<Rightarrow> 'ip link_state \<Rightarrow> 'ip api_result" where
  "route env cfg peer rq st =
     (case strip_prefix ''/rest/'' (rq_path rq) of
        Some meth \<Rightarrow> api_rest env meth rq st
      | None \<Rightarrow>
          (case strip_prefix ''/mornye/v1/'' (rq_path rq) of
             None \<Rightarrow> (not_found, [], st)
           | Some op \<Rightarrow>
               (case strip_prefix ''files/'' op of
                  Some name \<Rightarrow> api_upload env name rq st
                | None \<Rightarrow> route_op env cfg peer op rq st)))"

section \<open>What a request may do\<close>

definition bearer_device :: "api_request \<Rightarrow> 'ip link_state \<Rightarrow> device_record option" where
  "bearer_device rq st = bearer (store_find (la_store st)) (rq_header rq ''authorization'')"

definition proves_pin :: "api_env \<Rightarrow> link_config \<Rightarrow> api_request \<Rightarrow> 'ip link_state \<Rightarrow> bool" where
  "proves_pin env cfg rq st \<longleftrightarrow>
     (case (pg_window (la_pairing st), api_read_body (rq_header rq) (rq_body rq)) of
        (Some w, Inr bytes) \<Rightarrow>
          (case en_json env bytes of
             Some body \<Rightarrow>
               (case (body_text ''deviceId'' body, body_text ''proof'' body) of
                  (Some did, Some pf) \<Rightarrow>
                    en_now env < pw_expires_at w \<and> proof_accepted (en_hmac env) w (lc_fingerprint cfg) did pf
                | _ \<Rightarrow> False)
           | None \<Rightarrow> False)
      | _ \<Rightarrow> False)"

text \<open>
  What the code does for a request beyond its answer, and when it may. Without a proof of the PIN a pairing
  request tells the host at most that the open window has ended, by its time or by too many attempts.
\<close>

definition authorized :: "api_env \<Rightarrow> link_config \<Rightarrow> api_request \<Rightarrow> 'ip link_state \<Rightarrow> api_action \<Rightarrow> bool" where
  "authorized env cfg rq st a =
     (case a of
        CallHost op did _ \<Rightarrow> clean_op op \<and> map_option dr_device_id (bearer_device rq st) = Some did
      | CallSubsonic name params did \<Rightarrow>
          rest_params env rq = Inr params \<and>
          (ok (try_bind (subsonic (en_digest env) (store_find (la_store st)) params) (\<lambda>d. Inr (dr_device_id d))) = Some did \<or>
           name = ''getOpenSubsonicExtensions'' \<and> did = [])
      | Upgrade d \<Rightarrow> bearer_device rq st = Some d
      | PruneReceived name \<Rightarrow> valid_name name \<and> bearer_device rq st \<noteq> None
      | Event m v \<Rightarrow>
          rq_path rq = ''/mornye/v1/pair'' \<and> rq_method rq = ''POST'' \<and> pg_window (la_pairing st) \<noteq> None \<and>
          (proves_pin env cfg rq st \<or>
           m = ''linkPairingEnded'' \<and>
           v \<in> (\<lambda>reason. JObj [(''reason'', JStr (reason_text reason))]) ` {EXPIRED, ATTEMPTS}))"

text \<open>The devices and their keys; the time a device was last seen is not part of it.\<close>

definition credentials :: "'ip link_state \<Rightarrow> (string \<times> string) list" where
  "credentials st = map (\<lambda>r. (dr_device_id r, dr_api_key r)) (ls_devices (la_store st))"

definition confined :: "api_env \<Rightarrow> link_config \<Rightarrow> api_request \<Rightarrow> 'ip link_state \<Rightarrow> 'ip api_result \<Rightarrow> bool" where
  "confined env cfg rq st out \<longleftrightarrow>
     (case out of (_, acts, st') \<Rightarrow>
        list_all (authorized env cfg rq st) acts \<and>
        (la_received st' \<noteq> la_received st \<longrightarrow> bearer_device rq st \<noteq> None) \<and>
        (credentials st' \<noteq> credentials st \<longrightarrow>
           rq_path rq = ''/mornye/v1/pair'' \<and> rq_method rq = ''POST'' \<and> proves_pin env cfg rq st))"

lemma confined_quiet [simp]: "confined env cfg rq st (reply, [], st)"
  by (simp add: confined_def)

lemma touched_frame [simp]:
  "credentials (touched env did st) = credentials st" "la_received (touched env did st) = la_received st"
  "la_pairing (touched env did st) = la_pairing st"
proof -
  have "map (\<lambda>r. (dr_device_id r, dr_api_key r)) (ls_devices (store_touch io now did s)) =
        map (\<lambda>r. (dr_device_id r, dr_api_key r)) (ls_devices s)" for io now s
  proof (cases "position (\<lambda>r. dr_device_id r = did) (ls_devices s)")
    case (Some i)
    let ?new = "(ls_devices s)[i := (ls_devices s ! i)\<lparr>dr_last_seen_ms := Some now\<rparr>]"
    have new: "map (\<lambda>r. (dr_device_id r, dr_api_key r)) ?new = map (\<lambda>r. (dr_device_id r, dr_api_key r)) (ls_devices s)"
      using position_lt [OF Some] by (simp add: map_update list_update_same_conv)
    show ?thesis
      by (rule commit_cases [of io ?new s]) (use Some new in \<open>simp_all add: store_touch_def\<close>)
  qed (simp add: store_touch_def)
  then show "credentials (touched env did st) = credentials st" by (simp add: credentials_def touched_def)
qed (simp_all add: touched_def)

lemma rest_confined: "confined env cfg rq st (api_rest env meth rq st)"
  by (auto simp: api_rest_def Let_def confined_def [of _ _ _ _ "(_, _ # _, _)"] authorized_def split: sum.splits)

lemma forward_confined: "confined env cfg rq st (api_forward env op rq st)"
  by (auto simp: api_forward_def confined_def [of _ _ _ _ "(_, _ # _, _)"] authorized_def bearer_device_def
      split: sum.splits option.splits)

lemma ws_confined: "confined env cfg rq st (api_ws rq st)"
  by (auto simp: api_ws_def confined_def authorized_def bearer_device_def split: option.splits)

lemma upload_confined: "confined env cfg rq st (api_upload env name rq st)"
proof (cases "bearer_device rq st")
  case None
  then show ?thesis by (simp add: api_upload_def bearer_device_def)
next
  case (Some d)
  obtain r dir where r: "receive_file (en_receive env) (en_left env) name (rq_body rq) MAX_UPLOAD (la_received st) = (r, dir)"
    by force
  have "credentials (touched env (dr_device_id d) st\<lparr>la_received := dir\<rparr>) = credentials st"
    using touched_frame(1) [of env "dr_device_id d" st] by (simp add: credentials_def)
  with Some r show ?thesis
    by (auto simp: api_upload_def bearer_device_def confined_def authorized_def Let_def)
qed

lemma attempt_ended:
  assumes "snd (fst (attempt hmac now peer fp did pf stored p)) = Some reason"
  obtains w where "pg_window p = Some w"
    "reason \<in> {EXPIRED, ATTEMPTS} \<or> now < pw_expires_at w \<and> proof_accepted hmac w fp did pf"
  using assms by (auto simp: attempt_result split: if_splits option.splits sum.splits)

lemma pair_events_only:
  assumes "a \<in> set (pair_events did name platform ended)"
  obtains reason m v where "ended = Some reason" "a = Event m v"
    "reason = PAIRED \<or> m = ''linkPairingEnded'' \<and> v = JObj [(''reason'', JStr (reason_text reason))]"
  using assms by (auto simp: pair_events_def split: option.splits if_splits)

lemma callback_ran_accepted:
  assumes "callback_ran (fst (fst (attempt hmac now peer fp did pf stored p)))"
  obtains w where "pg_window p = Some w" "now < pw_expires_at w" "proof_accepted hmac w fp did pf"
  using assms by (auto simp: attempt_result callback_ran_def split: if_splits option.splits)

lemma pair_confined:
  assumes "rq_path rq = ''/mornye/v1/pair''" "rq_method rq = ''POST''"
  shows "confined env cfg rq st (api_pair env cfg peer rq st)"
proof -
  have "confined env cfg rq st (pair_device env cfg peer did pf name platform st)"
    if b: "api_read_body (rq_header rq) (rq_body rq) = Inr bytes" "en_json env bytes = Some body"
      "body_text ''deviceId'' body = Some did" "body_text ''proof'' body = Some pf" for bytes body did pf name platform
  proof -
    obtain stored store1 where u: "store_upsert (en_new_key env) (en_store_io env) (en_now_ms env) did name platform True (la_store st) =
        (stored, store1)" by force
    obtain r ended p1 where a: "attempt (en_hmac env) (en_now env) peer (lc_fingerprint cfg) did pf stored (la_pairing st) =
        ((r, ended), p1)" by (metis surj_pair)
    have "proves_pin env cfg rq st" if ran: "callback_ran r"
    proof (rule callback_ran_accepted)
      show "callback_ran (fst (fst (attempt (en_hmac env) (en_now env) peer (lc_fingerprint cfg) did pf stored (la_pairing st))))"
        using ran a by simp
    next
      fix w
      assume "pg_window (la_pairing st) = Some w" "en_now env < pw_expires_at w"
        "proof_accepted (en_hmac env) w (lc_fingerprint cfg) did pf"
      then show ?thesis using b by (simp add: proves_pin_def)
    qed
    moreover have "list_all (authorized env cfg rq st) (pair_events did name platform ended)"
      unfolding list_all_iff
    proof
      fix act
      assume "act \<in> set (pair_events did name platform ended)"
      then obtain reason m v where e: "ended = Some reason" "act = Event m v"
        "reason = PAIRED \<or> m = ''linkPairingEnded'' \<and> v = JObj [(''reason'', JStr (reason_text reason))]"
        by (rule pair_events_only)
      have "snd (fst (attempt (en_hmac env) (en_now env) peer (lc_fingerprint cfg) did pf stored (la_pairing st))) = Some reason"
        using a e(1) by simp
      then obtain w where w: "pg_window (la_pairing st) = Some w"
        "reason \<in> {EXPIRED, ATTEMPTS} \<or>
         en_now env < pw_expires_at w \<and> proof_accepted (en_hmac env) w (lc_fingerprint cfg) did pf"
        by (rule attempt_ended)
      then have "reason \<in> {EXPIRED, ATTEMPTS} \<or> proves_pin env cfg rq st" using b by (auto simp: proves_pin_def)
      then show "authorized env cfg rq st act" using e(2,3) assms w(1) by (auto simp: authorized_def)
    qed
    moreover have "pair_device env cfg peer did pf name platform st =
        (pair_reply cfg r, pair_events did name platform ended,
         st\<lparr>la_pairing := p1, la_store := (if callback_ran r then store1 else la_store st)\<rparr>)"
      using u a by (simp add: pair_device_def)
    ultimately show ?thesis using assms by (simp add: confined_def credentials_def)
  qed
  then show ?thesis by (auto simp: api_pair_def split: sum.splits option.splits)
qed

text \<open>
  C18. The router is closed to strangers. Whatever a request holds, the app and the WebSocket are
  reached only with the bearer key of a stored device and under a clean operation name, files are
  received only from a bearer of a key, and the Subsonic layer is reached only with a device's credentials,
  except for one method, the public list \<open>getOpenSubsonicExtensions\<close>, which anybody may ask for and which is
  then called for no device. The stored keys change only through a pairing request that proves the PIN of
  the open window. The host gets events from pairing requests only and while a window is open: with a proof
  of the PIN that a device was paired, and also without one that the window has ended, by its time or by too
  many attempts.
\<close>

theorem link_requests_need_credentials:
  "confined env cfg rq st (route env cfg peer rq st)"
proof -
  have prefix: "op = ''pair'' \<Longrightarrow> rq_path rq = ''/mornye/v1/pair''" if "strip_prefix ''/mornye/v1/'' (rq_path rq) = Some op" for op
    using that by (simp add: strip_prefix_Some)
  show ?thesis
    using rest_confined forward_confined ws_confined upload_confined pair_confined prefix
    by (auto simp: route_def route_op_def api_info_def split: option.splits)
qed

end
