(* ===== verification/Cast_Proto.thy ===== *)
theory Cast_Proto
  imports Rust_Text
begin

text \<open>
  The Cast v2 channel messages (\<open>crates/cast/src/proto.rs\<close>): variable-length integers on 64-bit
  words, length-delimited fields, and the message encoder and decoder. The locale
  \<open>prefix_codec\<close> is what the decoder relies on for each building block.
\<close>

unbundle bit_operations_syntax

section \<open>Variable-length integers\<close>

function put_varint :: "u64 \<Rightarrow> u8 list" where
  "put_varint value =
     (if value \<ge> 0x80 then (ucast value OR 0x80) # put_varint (drop_bit 7 value) else [ucast value])"
  by pat_completeness auto
termination
proof (relation "measure unat")
  fix v :: u64 assume "v \<ge> 0x80"
  then have "128 \<le> unat v" by (simp add: word_le_nat_alt)
  then show "(drop_bit 7 v, v) \<in> measure unat" by (simp add: drop_bit_eq_div unat_div)
qed simp

declare put_varint.simps [simp del]

text \<open>The loop over \<open>(0..64).step_by(7)\<close>; the slice that is left is returned with the value.\<close>

fun varint_from :: "nat \<Rightarrow> u64 \<Rightarrow> u8 list \<Rightarrow> (u64 \<times> u8 list) option" where
  "varint_from shift value [] = None"
| "varint_from shift value (byte # rest) =
     (if 64 \<le> shift then None
      else (let value' = value OR push_bit shift (ucast (byte AND 0x7f)) in
            if byte < 0x80 then Some (value', rest) else varint_from (shift + 7) value' rest))"

definition varint :: "u8 list \<Rightarrow> (u64 \<times> u8 list) option" where
  "varint bytes = varint_from 0 0 bytes"

definition field :: "u64 \<Rightarrow> u8 list \<Rightarrow> u8 list" where
  "field number value =
     put_varint (push_bit 3 number OR 2) @ put_varint (word_of_nat (length value)) @ value"

section \<open>Messages\<close>

record cast_message =
  cm_source :: string
  cm_destination :: string
  cm_namespace :: string
  cm_payload :: string

definition cast_new :: "string \<Rightarrow> string \<Rightarrow> string \<Rightarrow> string \<Rightarrow> cast_message" where
  "cast_new source destination namespace payload =
     \<lparr>cm_source = source, cm_destination = destination, cm_namespace = namespace, cm_payload = payload\<rparr>"

definition u32_to_be_bytes :: "u32 \<Rightarrow> u8 list" where
  "u32_to_be_bytes w = [ucast (drop_bit 24 w), ucast (drop_bit 16 w), ucast (drop_bit 8 w), ucast w]"

definition message_body :: "cast_message \<Rightarrow> u8 list" where
  "message_body m =
     [0x08, 0x00] @ field 2 (as_bytes (cm_source m)) @ field 3 (as_bytes (cm_destination m)) @
     field 4 (as_bytes (cm_namespace m)) @ [0x28, 0x00] @ field 6 (as_bytes (cm_payload m))"

definition message_encode :: "cast_message \<Rightarrow> u8 list" where
  "message_encode m = u32_to_be_bytes (word_of_nat (length (message_body m))) @ message_body m"

datatype cast_error = MalformedCast

definition get_from :: "nat \<Rightarrow> u8 list \<Rightarrow> (cast_error, u8 list) result" where
  "get_from n bytes = (if n \<le> length bytes then Inr (drop n bytes) else Inl MalformedCast)"

definition get_to :: "nat \<Rightarrow> u8 list \<Rightarrow> (cast_error, u8 list) result" where
  "get_to n bytes = (if n \<le> length bytes then Inr (take n bytes) else Inl MalformedCast)"

text \<open>A length-delimited value: the known field numbers are stored, others are dropped.\<close>

definition set_field :: "u64 \<Rightarrow> u8 list \<Rightarrow> cast_message \<Rightarrow> (cast_error, cast_message) result" where
  "set_field number value m =
     (if number = 2 then try_bind (ok_or MalformedCast (from_utf8 value)) (\<lambda>t. Inr (m\<lparr>cm_source := t\<rparr>))
      else if number = 3 then try_bind (ok_or MalformedCast (from_utf8 value)) (\<lambda>t. Inr (m\<lparr>cm_destination := t\<rparr>))
      else if number = 4 then try_bind (ok_or MalformedCast (from_utf8 value)) (\<lambda>t. Inr (m\<lparr>cm_namespace := t\<rparr>))
      else if number = 6 then try_bind (ok_or MalformedCast (from_utf8 value)) (\<lambda>t. Inr (m\<lparr>cm_payload := t\<rparr>))
      else Inr m)"

text \<open>One round of the decoding loop: a key and the value it announces.\<close>

definition decode_field :: "cast_message \<Rightarrow> u8 list \<Rightarrow> (cast_error, cast_message \<times> u8 list) result" where
  "decode_field m bytes =
     try_bind (ok_or MalformedCast (varint bytes)) (\<lambda>(key, bytes).
       if key AND 7 = 0 then
         try_bind (ok_or MalformedCast (varint bytes)) (\<lambda>(_, bytes). Inr (m, bytes))
       else if key AND 7 = 2 then
         try_bind (ok_or MalformedCast (varint bytes)) (\<lambda>(len, bytes).
           try_bind (get_to (unat len) bytes) (\<lambda>value.
             try_bind (set_field (drop_bit 3 key) value m) (\<lambda>m'. Inr (m', drop (unat len) bytes))))
       else if key AND 7 = 5 then try_bind (get_from 4 bytes) (\<lambda>bytes. Inr (m, bytes))
       else if key AND 7 = 1 then try_bind (get_from 8 bytes) (\<lambda>bytes. Inr (m, bytes))
       else Inl MalformedCast)"

lemma varint_from_shrinks: "varint_from s v bytes = Some (w, rest) \<Longrightarrow> length rest < length bytes"
  by (induction s v bytes rule: varint_from.induct) (auto simp: Let_def split: if_splits)

lemma varint_shrinks: "varint bytes = Some (w, rest) \<Longrightarrow> length rest < length bytes"
  by (simp add: varint_def varint_from_shrinks)

lemma decode_field_shrinks:
  assumes "decode_field m bytes = Inr (m', rest)"
  shows "length rest < length bytes"
proof -
  obtain key b1 where b1: "varint bytes = Some (key, b1)"
    using assms by (cases "varint bytes") (auto simp: decode_field_def)
  have "length rest \<le> length b1"
    using assms b1 by (auto simp: decode_field_def try_bind_eq_Inr ok_or_eq_Inr get_from_def get_to_def
        split: if_splits dest: varint_shrinks)
  with varint_shrinks [OF b1] show ?thesis by simp
qed

function decode_loop :: "cast_message \<Rightarrow> u8 list \<Rightarrow> (cast_error, cast_message) result" where
  "decode_loop m bytes =
     (if bytes = [] then Inr m
      else case decode_field m bytes of
             Inl e \<Rightarrow> Inl e
           | Inr (m', rest) \<Rightarrow> decode_loop m' rest)"
  by pat_completeness auto
termination
  by (relation "measure (\<lambda>(m, bytes). length bytes)") (auto dest: decode_field_shrinks)

declare decode_loop.simps [simp del]

definition message_decode :: "u8 list \<Rightarrow> (cast_error, cast_message) result" where
  "message_decode bytes = decode_loop (cast_new [] [] [] []) bytes"

section \<open>Reading frames\<close>

definition max_frame :: nat where
  "max_frame = 64 * 1024"

definition u32_from_be_bytes :: "u8 list \<Rightarrow> u32" where
  "u32_from_be_bytes bs = foldl (\<lambda>acc b. push_bit 8 acc OR ucast b) 0 bs"

text \<open>
  The reader task of \<open>crates/cast/src/sender.rs\<close> over the bytes the connection delivers before it
  ends; \<open>capacity\<close> is the number of messages the receiving channel takes before it closes.
\<close>

fun read_frames :: "nat \<Rightarrow> u8 list \<Rightarrow> cast_message list" where
  "read_frames 0 stream = []"
| "read_frames (Suc capacity) stream =
     (if length stream < 4 then []
      else (let len = unat (u32_from_be_bytes (take 4 stream)); stream = drop 4 stream in
            if len > max_frame then []
            else if length stream < len then []
            else case message_decode (take len stream) of
                   Inl _ \<Rightarrow> []
                 | Inr message \<Rightarrow> message # read_frames capacity (drop len stream)))"

section \<open>Prefix codecs\<close>

text \<open>
  An encoder and a decoder that reads one value off the front of a buffer: the decoder returns
  the value and exactly the bytes behind it, and always consumes something.
\<close>

locale prefix_codec =
  fixes enc :: "'a \<Rightarrow> u8 list"
    and dec :: "u8 list \<Rightarrow> ('a \<times> u8 list) option"
    and codable :: "'a \<Rightarrow> bool"
  assumes dec_enc: "codable x \<Longrightarrow> dec (enc x @ rest) = Some (x, rest)"
    and dec_shrinks: "dec bytes = Some (x, rest) \<Longrightarrow> length rest < length bytes"
begin

lemma enc_nonempty: "codable x \<Longrightarrow> enc x \<noteq> []"
  using dec_enc [of x "[]"] dec_shrinks [of "enc x"] by fastforce

lemma enc_prefix_free:
  "codable x \<Longrightarrow> codable y \<Longrightarrow> enc x @ r = enc y @ r' \<Longrightarrow> x = y \<and> r = r'"
  by (metis dec_enc option.inject prod.inject)

lemma dec_empty: "dec [] = None"
  using dec_shrinks by (cases "dec []") fastforce+

end

lemma low_bits_byte:
  "ucast ((ucast v OR 0x80 :: u8) AND 0x7f) = (take_bit 7 v :: u64)"
  "v < 0x80 \<Longrightarrow> ucast ((ucast v :: u8) AND 0x7f) = (v :: u64)"
proof -
  have mask: "x AND 0x7f = take_bit 7 x" for x :: u8 by (simp add: take_bit_eq_mask mask_eq_exp_minus_1)
  have cast: "ucast (take_bit 7 (ucast v :: u8)) = (take_bit 7 v :: u64)"
    by (rule bit_eqI) (auto simp: bit_simps)
  have "take_bit 7 (0x80 :: u8) = 0" by (simp add: take_bit_eq_mod)
  with cast show "ucast ((ucast v OR 0x80 :: u8) AND 0x7f) = (take_bit 7 v :: u64)"
    by (simp add: mask take_bit_or)
  assume "v < 0x80"
  then have "take_bit 7 v = v" by (simp add: take_bit_eq_mod word_less_nat_alt word_arith_nat_mod)
  with cast show "ucast ((ucast v :: u8) AND 0x7f) = (v :: u64)" by (simp add: mask)
qed

lemma high_bit_byte: "\<not> (ucast v OR 0x80 :: u8) < 0x80" "v < 0x80 \<Longrightarrow> (ucast (v :: u64) :: u8) < 0x80"
proof -
  have "(0x80 :: u8) \<le> ucast v OR 0x80" by (rule le_word_or1)
  then show "\<not> (ucast v OR 0x80 :: u8) < 0x80" by simp
  show "v < 0x80 \<Longrightarrow> (ucast v :: u8) < 0x80"
    by (simp add: word_less_nat_alt unsigned_ucast_eq take_bit_nat_eq_self)
qed

lemma push_bit_split:
  "push_bit s (take_bit 7 v) OR push_bit (s + 7) (drop_bit 7 v) = push_bit s (v :: u64)"
proof (rule bit_eqI)
  fix n
  show "bit (push_bit s (take_bit 7 v) OR push_bit (s + 7) (drop_bit 7 v)) n = bit (push_bit s v) n"
  proof (cases "n < s + 7")
    case False
    then have "7 + (n - (s + 7)) = n - s" by simp
    with False show ?thesis by (auto simp: bit_simps)
  qed (auto simp: bit_simps)
qed

lemma varint_put_varint:
  assumes "unat v < 2 ^ (7 * k)" "shift + 7 * k < 71" "0 < k"
  shows "varint_from shift acc (put_varint v @ rest) = Some (acc OR push_bit shift v, rest)"
  using assms
proof (induction v arbitrary: shift acc k rule: put_varint.induct)
  case (1 v)
  have sh: "shift < 64" using "1.prems"(2,3) by simp
  show ?case
  proof (cases "v \<ge> 0x80")
    case False
    then have "put_varint v = [ucast v]" by (subst put_varint.simps) (simp only: if_False)
    then show ?thesis using sh False by (simp add: low_bits_byte high_bit_byte not_le Let_def)
  next
    case True
    obtain j where k: "k = Suc j" using "1.prems"(3) by (cases k) auto
    have big: "128 \<le> unat v" using True by (simp add: word_le_nat_alt)
    then have j: "0 < j" using "1.prems"(1) k by (cases j) auto
    have "unat (drop_bit 7 v) = unat v div 128" by (simp add: drop_bit_eq_div unat_div)
    also have "\<dots> < 2 ^ (7 * j)" using "1.prems"(1) k by (simp add: power_add less_mult_imp_div_less mult.commute)
    finally have "varint_from (shift + 7) acc' (put_varint (drop_bit 7 v) @ rest) =
        Some (acc' OR push_bit (shift + 7) (drop_bit 7 v), rest)" for acc'
      using "1.prems"(2) k j by (intro "1.IH" [OF True]) auto
    then show ?thesis using True sh
      by (simp add: put_varint.simps [of v] low_bits_byte high_bit_byte Let_def or.assoc push_bit_split)
  qed
qed

interpretation varint_codec: prefix_codec put_varint varint "\<lambda>_. True"
proof
  show "varint (put_varint v @ rest) = Some (v, rest)" for v rest
    using varint_put_varint [of v 10 0 0 rest] unsigned_less [of v, where ?'a = nat] by (simp add: varint_def)
qed (rule varint_shrinks)

section \<open>Decoding what was encoded\<close>

lemma decode_loop_Nil [simp]: "decode_loop m [] = Inr m"
  by (simp add: decode_loop.simps)

lemma decode_loop_step:
  "decode_field m bytes = Inr (m', rest) \<Longrightarrow> decode_loop m bytes = decode_loop m' rest"
  using decode_field_shrinks [of m bytes m' rest] by (subst decode_loop.simps) auto

definition field_key :: "u64 \<Rightarrow> u64" where
  "field_key number = push_bit 3 number OR 2"

lemma field_key_parts:
  assumes "take_bit 61 number = number"
  shows "field_key number AND 7 = 2" and "drop_bit 3 (field_key number) = number"
proof -
  have "field_key number AND 7 = take_bit 3 (field_key number)" by (simp add: take_bit_eq_mask mask_eq_exp_minus_1)
  also have "\<dots> = 2" by (simp add: field_key_def take_bit_or take_bit_push_bit)
  finally show "field_key number AND 7 = 2" .
  have "drop_bit 3 (push_bit 3 number) = take_bit 61 number"
    by (rule bit_eqI) (auto simp: bit_simps)
  then show "drop_bit 3 (field_key number) = number"
    using assms by (simp add: field_key_def drop_bit_or)
qed

lemma decode_length_delimited:
  assumes "take_bit 61 number = number" "length bytes < 2 ^ 64"
    and "set_field number bytes m = Inr m'"
  shows "decode_loop m (field number bytes @ rest) = decode_loop m' rest"
proof (rule decode_loop_step)
  have "unat (word_of_nat (length bytes) :: u64) = length bytes"
    using assms(2) by (simp add: unat_of_nat)
  then show "decode_field m (field number bytes @ rest) = Inr (m', rest)"
    using assms(3) field_key_parts [OF assms(1)]
    by (simp add: decode_field_def field_def field_key_def varint_codec.dec_enc get_to_def)
qed

lemma decode_varint_field:
  "key AND 7 = 0 \<Longrightarrow> decode_loop m (put_varint key @ put_varint v @ rest) = decode_loop m rest"
  by (rule decode_loop_step) (simp add: decode_field_def varint_codec.dec_enc)

lemma small_varint: "put_varint 0x08 = [0x08]" "put_varint 0x28 = [0x28]" "put_varint 0 = [0]"
  by (simp_all add: put_varint.simps)

definition sendable :: "cast_message \<Rightarrow> bool" where
  "sendable m \<longleftrightarrow> list_all (\<lambda>t. valid_utf8 (as_bytes t) \<and> length t < 2 ^ 64)
     [cm_source m, cm_destination m, cm_namespace m, cm_payload m]"

lemma decode_body:
  assumes "sendable m"
  shows "message_decode (message_body m) = Inr m"
proof -
  have utf: "from_utf8 (as_bytes (cm_source m)) = Some (cm_source m)"
    "from_utf8 (as_bytes (cm_destination m)) = Some (cm_destination m)"
    "from_utf8 (as_bytes (cm_namespace m)) = Some (cm_namespace m)"
    "from_utf8 (as_bytes (cm_payload m)) = Some (cm_payload m)"
    using assms by (simp_all add: sendable_def from_utf8_as_bytes)
  have nums: "take_bit 61 (2::u64) = 2" "take_bit 61 (3::u64) = 3" "take_bit 61 (4::u64) = 4" "take_bit 61 (6::u64) = 6"
    by (simp_all add: take_bit_eq_mod)
  have key: "decode_loop x (0x08 # 0 # rest) = decode_loop x rest"
    "decode_loop x (0x28 # 0 # rest) = decode_loop x rest" for x rest
    using decode_varint_field [where key = "0x08" and v = "0"] decode_varint_field [where key = "0x28" and v = "0"]
    by (simp_all add: small_varint)
  have f: "decode_loop x (field 2 (as_bytes (cm_source m)) @ r) = decode_loop (x\<lparr>cm_source := cm_source m\<rparr>) r"
    "decode_loop x (field 3 (as_bytes (cm_destination m)) @ r) = decode_loop (x\<lparr>cm_destination := cm_destination m\<rparr>) r"
    "decode_loop x (field 4 (as_bytes (cm_namespace m)) @ r) = decode_loop (x\<lparr>cm_namespace := cm_namespace m\<rparr>) r"
    "decode_loop x (field 6 (as_bytes (cm_payload m)) @ r) = decode_loop (x\<lparr>cm_payload := cm_payload m\<rparr>) r" for x r
    using assms by (intro decode_length_delimited nums, simp add: sendable_def, simp add: set_field_def utf)+
  show ?thesis
    using f(4) [where r = "[]"] by (simp add: message_decode_def message_body_def key f(1-3) cast_new_def)
qed

text \<open>The length prefix.\<close>

lemma be_bytes_round_trip: "u32_from_be_bytes (u32_to_be_bytes w) = w"
proof (rule bit_word_eqI)
  fix n assume "n < LENGTH(32)"
  then have "n < 32" by simp
  then consider "n < 8" | "8 \<le> n" "n < 16" | "16 \<le> n" "n < 24" | "24 \<le> n" "n < 32" by linarith
  then show "bit (u32_from_be_bytes (u32_to_be_bytes w)) n = bit w n"
    by cases (auto simp: u32_from_be_bytes_def u32_to_be_bytes_def bit_simps)
qed

lemma decode_frame:
  assumes "sendable m" "length (message_body m) \<le> max_frame"
  shows "read_frames (Suc capacity) (message_encode m @ rest) = m # read_frames capacity rest"
proof -
  have "unat (word_of_nat (length (message_body m)) :: u32) = length (message_body m)"
    using assms(2) by (simp add: max_frame_def unat_of_nat)
  moreover have "length (u32_to_be_bytes w) = 4" for w by (simp add: u32_to_be_bytes_def)
  ultimately show ?thesis
    using assms by (simp add: message_encode_def be_bytes_round_trip decode_body Let_def)
qed

section \<open>Properties\<close>

text \<open>
  C34. Messages survive the channel: the frames of any sequence of messages within the frame limit,
  sent back to back, are read as exactly that sequence, whatever bytes follow.
\<close>

theorem frames_round_trip:
  assumes "\<forall>m \<in> set ms. sendable m \<and> length (message_body m) \<le> max_frame"
  shows "read_frames (length ms) (concat (map message_encode ms) @ rest) = ms"
  using assms by (induction ms) (simp_all add: decode_frame del: read_frames.simps(2))

definition demo_message :: cast_message where
  "demo_message = cast_new ''sender-0'' ''receiver-0'' ''urn:x-cast:com.google.cast.receiver'' ''{}''"

lemma demo_sendable: "sendable demo_message" "length (message_body demo_message) \<le> max_frame"
proof -
  have "is_ascii (cm_source demo_message)" "is_ascii (cm_destination demo_message)"
    "is_ascii (cm_namespace demo_message)" "is_ascii (cm_payload demo_message)" by code_simp+
  then show "sendable demo_message"
    by (simp add: sendable_def valid_utf8_is_ascii) (simp add: demo_message_def cast_new_def)
  show "length (message_body demo_message) \<le> max_frame"
    by (simp add: message_body_def field_def demo_message_def cast_new_def put_varint.simps max_frame_def)
qed

theorem frames_round_trip_witness:
  "read_frames 2 (message_encode demo_message @ message_encode demo_message @ [0, 0]) = [demo_message, demo_message]"
  using frames_round_trip [of "[demo_message, demo_message]" "[0, 0]"] demo_sendable
  by (simp add: numeral_2_eq_2)

lemma decode_fixed_field:
  "key AND 7 = 5 \<Longrightarrow> length skipped = 4 \<Longrightarrow> decode_loop m (put_varint key @ skipped @ rest) = decode_loop m rest"
  "key AND 7 = 1 \<Longrightarrow> length skipped = 8 \<Longrightarrow> decode_loop m (put_varint key @ skipped @ rest) = decode_loop m rest"
  by (rule decode_loop_step; simp add: decode_field_def varint_codec.dec_enc get_from_def)+

text \<open>
  Unknown fields are skipped: a well-formed field with a number the program does not use,
  of any of the four wire types, leaves the decoded message unchanged.
\<close>

theorem unknown_fields_are_skipped:
  assumes "length bytes < 2 ^ 64" "take_bit 61 number = number" "number \<notin> {2, 3, 4, 6}"
    and "key0 AND 7 = 0" "key5 AND 7 = 5" "length w4 = 4" "key1 AND 7 = 1" "length w8 = 8"
  shows "decode_loop m (field number bytes @ rest) = decode_loop m rest \<and>
    decode_loop m (put_varint key0 @ put_varint v @ rest) = decode_loop m rest \<and>
    decode_loop m (put_varint key5 @ w4 @ rest) = decode_loop m rest \<and>
    decode_loop m (put_varint key1 @ w8 @ rest) = decode_loop m rest"
  using assms by (simp add: decode_length_delimited set_field_def decode_varint_field decode_fixed_field)

theorem unknown_fields_are_skipped_witness:
  "decode_loop demo_message (field 9 [1, 2, 3] @ []) = decode_loop demo_message []"
proof -
  have "take_bit 61 (9 :: u64) = 9" by (simp add: take_bit_eq_mod)
  moreover have "(8 :: u64) AND 7 = 0" "(13 :: u64) AND 7 = 5" "(9 :: u64) AND 7 = 1" by simp_all
  ultimately show ?thesis
    using unknown_fields_are_skipped [of "[1, 2, 3]" 9 8 13 "[0, 0, 0, 0]" 9 "replicate 8 0" demo_message "[]"] by simp
qed

end
