(* ===== verification/Url.thy ===== *)
theory Url
  imports Rust_Text
begin

text \<open>
  The net/url compatible URL parser (\<open>crates/network/src/url.rs\<close>). Both \<open>String\<close> and \<open>Vec<u8>\<close>
  fields are byte strings. The scheme is ASCII by the scan that finds it, so \<open>to_lowercase\<close> on it
  is ASCII lower-casing. The IDNA host parser and the URI builder of \<open>request_uri\<close> are third-party
  code and are arguments of that function.
\<close>

section \<open>Percent escapes\<close>

datatype escape_mode = EscPath | EscHost | EscZone

definition valid_host_byte :: "char \<Rightarrow> bool" where
  "valid_host_byte c \<longleftrightarrow> byte_of c \<ge> 128 \<or> is_ascii_alphanumeric c \<or>
     c \<in> set (''-._~!$&()*+,;=:[]<>'' @ [CHR 0x27, CHR 0x22])"

definition escape_rejected :: "escape_mode \<Rightarrow> char \<Rightarrow> bool" where
  "escape_rejected mode v =
     (case mode of
        EscPath \<Rightarrow> False
      | EscHost \<Rightarrow> byte_of v < 128 \<and> v \<noteq> CHR ''%''
      | EscZone \<Rightarrow> v \<noteq> CHR ''%'' \<and> v \<noteq> CHR '' '' \<and> \<not> valid_host_byte v)"

definition hex_byte :: "char \<Rightarrow> char \<Rightarrow> char option" where
  "hex_byte h l =
     (case (to_digit16 h, to_digit16 l) of
        (Some a, Some b) \<Rightarrow> Some (char_of (a * 16 + b))
      | _ \<Rightarrow> None)"

fun url_decode :: "escape_mode \<Rightarrow> string \<Rightarrow> string option" where
  "url_decode mode [] = Some []"
| "url_decode mode (c # rest) =
     (if c = CHR ''%'' then
        (case rest of
           h # l # rest' \<Rightarrow>
             (case hex_byte h l of
                None \<Rightarrow> None
              | Some v \<Rightarrow> if escape_rejected mode v then None else map_option (Cons v) (url_decode mode rest'))
         | _ \<Rightarrow> None)
      else if mode \<noteq> EscPath \<and> \<not> valid_host_byte c then None
      else map_option (Cons c) (url_decode mode rest))"

definition unescape_path :: "string \<Rightarrow> string option" where
  "unescape_path s = url_decode EscPath s"

definition percent :: "char \<Rightarrow> string" where
  "percent c = [CHR ''%'', upper_hex_digit (byte_of c div 16), upper_hex_digit (byte_of c mod 16)]"

definition escape_with :: "(char \<Rightarrow> bool) \<Rightarrow> string \<Rightarrow> string" where
  "escape_with keep s = concat (map (\<lambda>c. if keep c then [c] else percent c) s)"

definition escape_component :: "string \<Rightarrow> string \<Rightarrow> string" where
  "escape_component v reserved =
     escape_with (\<lambda>c. is_ascii_alphanumeric c \<or> c \<in> set ''-._~'' \<or> c \<in> set reserved) v"

definition url_escape :: "string \<Rightarrow> bool \<Rightarrow> string" where
  "url_escape v host =
     escape_with (\<lambda>c. is_ascii_alphanumeric c \<or> c \<in> set (''-._~!$&()*+,;=:[]'' @ [CHR 0x27]) \<or>
       (\<not> host \<and> c \<in> set ''/%@?'')) v"

section \<open>Host and port\<close>

definition valid_port :: "string \<Rightarrow> bool" where
  "valid_port p \<longleftrightarrow> p = [] \<or>
     (case strip_prefix '':'' p of None \<Rightarrow> False | Some d \<Rightarrow> list_all is_ascii_digit d)"

definition decode_bracket :: "string \<Rightarrow> string option" where
  "decode_bracket raw =
     (case split_once_str ''%25'' raw of
        Some (address, zone) \<Rightarrow>
          Option.bind (url_decode EscHost address) (\<lambda>a.
            map_option (\<lambda>z. a @ z) (url_decode EscZone (''%25'' @ zone)))
      | None \<Rightarrow> url_decode EscHost raw)"

definition check_address :: "string \<Rightarrow> string option" where
  "check_address hostname =
     (case split_once (CHR ''%'') hostname of
        Some (address, zone) \<Rightarrow> if zone = [] then None else map_option (\<lambda>_. hostname) (parse_ipv6 address)
      | None \<Rightarrow> map_option (\<lambda>_. hostname) (parse_ipv6 hostname))"

definition parse_bracket_host :: "string \<Rightarrow> string option" where
  "parse_bracket_host host =
     Option.bind (rfind_char (CHR '']'') host) (\<lambda>close.
       if \<not> valid_port (drop (close + 1) host) then None
       else Option.bind (decode_bracket (take (close - 1) (drop 1 host))) (\<lambda>decoded.
              check_address (from_utf8_lossy decoded)))"

definition parse_host :: "string \<Rightarrow> string \<Rightarrow> string option" where
  "parse_host host scheme =
     (case rfind_char (CHR ''['') host of
        Some at \<Rightarrow> if at \<noteq> 0 then None else parse_bracket_host host
      | None \<Rightarrow>
          Option.bind
            (case find_char (CHR '':'') host of
               None \<Rightarrow> Some host
             | Some first \<Rightarrow>
                 Option.bind
                   (if eq_ignore_ascii_case scheme ''http'' \<or> eq_ignore_ascii_case scheme ''https''
                    then Some first else rfind_char (CHR '':'') host)
                   (\<lambda>index. if valid_port (drop index host) then Some (take index host) else None))
            (\<lambda>hostname. map_option from_utf8_lossy (url_decode EscHost hostname)))"

section \<open>Parsing\<close>

record url_parts =
  u_scheme :: string
  u_hostname :: string
  u_path :: string
  u_raw_path :: string
  u_raw_query :: string
  u_force_query :: bool
  u_fragment :: string
  u_port :: "string option"
  u_has_credentials :: bool
  u_host :: string
  u_username :: string
  u_password :: "string option"
  u_opaque :: string
  u_omit_host :: bool

datatype scheme_scan = NoScheme | EmptyScheme | SchemeAt nat

fun scan_scheme :: "nat \<Rightarrow> string \<Rightarrow> scheme_scan" where
  "scan_scheme i [] = NoScheme"
| "scan_scheme i (c # cs) =
     (if c = CHR '':'' then (if i = 0 then EmptyScheme else SchemeAt i)
      else if \<not> is_ascii_alphabetic c \<and> \<not> (i > 0 \<and> (is_ascii_digit c \<or> c \<in> set ''+-.''))
      then NoScheme
      else scan_scheme (Suc i) cs)"

record url_authority =
  ua_credentials :: bool
  ua_username :: string
  ua_password :: "string option"
  ua_hostname :: string
  ua_host :: string
  ua_port :: "string option"

definition no_authority :: url_authority where
  "no_authority = \<lparr>ua_credentials = False, ua_username = [], ua_password = None, ua_hostname = [],
     ua_host = [], ua_port = None\<rparr>"

definition userinfo_char :: "char \<Rightarrow> bool" where
  "userinfo_char c \<longleftrightarrow> is_ascii_alphanumeric c \<or> c \<in> set (''-._~!$&()*+,;=:%@'' @ [CHR 0x27])"

text \<open>The credentials before the last \<open>@\<close>: user name and password.\<close>

definition parse_userinfo :: "string \<Rightarrow> (string \<times> string option) option" where
  "parse_userinfo user =
     (if \<not> list_all userinfo_char user then None
      else Option.bind (url_decode EscPath user) (\<lambda>_.
        (case split_once (CHR '':'') user of
           None \<Rightarrow> map_option (\<lambda>n. (n, None)) (url_decode EscPath user)
         | Some (name, secret) \<Rightarrow>
             Option.bind (url_decode EscPath name) (\<lambda>n.
               map_option (\<lambda>p. (n, Some p)) (url_decode EscPath secret)))))"

definition port_part :: "string \<Rightarrow> string option" where
  "port_part host =
     (if starts_with host ''['' then map_option (\<lambda>i. drop (i + 1) host) (rfind_char (CHR '']'') host)
      else Some (case rfind_char (CHR '':'') host of None \<Rightarrow> [] | Some i \<Rightarrow> drop i host))"

definition parse_authority :: "string \<Rightarrow> string \<Rightarrow> url_authority option" where
  "parse_authority scheme authority =
     (let (credentials, host) =
        (case rsplit_once (CHR ''@'') authority of
           Some (user, host) \<Rightarrow> (map_option Some (parse_userinfo user), host)
         | None \<Rightarrow> (Some None, authority))
      in Option.bind credentials (\<lambda>cred.
         Option.bind (parse_host host scheme) (\<lambda>hostname.
         Option.bind (url_decode EscPath host) (\<lambda>raw_host.
         Option.bind (port_part host) (\<lambda>pp.
           Some \<lparr>ua_credentials = (cred \<noteq> None),
                 ua_username = (case cred of None \<Rightarrow> [] | Some (n, _) \<Rightarrow> n),
                 ua_password = (case cred of None \<Rightarrow> None | Some (_, p) \<Rightarrow> p),
                 ua_hostname = hostname, ua_host = raw_host, ua_port = strip_prefix '':'' pp\<rparr>)))))"

definition split_or :: "char \<Rightarrow> string \<Rightarrow> string \<times> string" where
  "split_or c s = (case split_once c s of None \<Rightarrow> (s, []) | Some p \<Rightarrow> p)"

definition is_control :: "char \<Rightarrow> bool" where
  "is_control c \<longleftrightarrow> byte_of c < 32 \<or> byte_of c = 127"

definition split_scheme :: "string \<Rightarrow> (string \<times> string) option" where
  "split_scheme input =
     (case scan_scheme 0 input of
        EmptyScheme \<Rightarrow> None
      | SchemeAt i \<Rightarrow> Some (take i input, drop (i + 1) input)
      | NoScheme \<Rightarrow> Some ([], input))"

definition split_authority :: "string \<Rightarrow> string \<Rightarrow> (url_authority \<times> string) option" where
  "split_authority scheme path =
     (if starts_with path ''//'' \<and> (scheme \<noteq> [] \<or> \<not> starts_with path ''///'')
      then (let ap = drop 2 path;
                cut = (case find_char (CHR ''/'') ap of None \<Rightarrow> length ap | Some i \<Rightarrow> i)
            in map_option (\<lambda>a. (a, drop cut ap)) (parse_authority scheme (take cut ap)))
      else Some (no_authority, path))"

definition url_parse :: "string \<Rightarrow> url_parts option" where
  "url_parse text =
     (let (input, fragment) = split_or (CHR ''#'') text in
      Option.bind (url_decode EscPath fragment) (\<lambda>_.
      if list_ex is_control input then None
      else Option.bind (split_scheme input) (\<lambda>(scheme, rest).
        let (path, query) = split_or (CHR ''?'') rest;
            force_query = (ends_with rest ''?'' \<and> query = []) in
        if \<not> starts_with path ''/'' \<and> scheme \<noteq> [] then
          Some \<lparr>u_scheme = to_ascii_lowercase scheme, u_hostname = [], u_path = [], u_raw_path = path,
                u_raw_query = query, u_force_query = force_query, u_fragment = fragment, u_port = None,
                u_has_credentials = False, u_host = [], u_username = [], u_password = None,
                u_opaque = path, u_omit_host = False\<rparr>
        else if \<not> starts_with path ''/'' \<and> CHR '':'' \<in> set (takeWhile (\<lambda>c. c \<noteq> CHR ''/'') path) then None
        else
          Option.bind (split_authority scheme path) (\<lambda>(a, rest).
               Option.bind (if rest = [] then Some ''/'' else url_decode EscPath rest) (\<lambda>decoded.
                 Some \<lparr>u_scheme = to_ascii_lowercase scheme, u_hostname = ua_hostname a, u_path = decoded,
                   u_raw_path = rest, u_raw_query = query, u_force_query = force_query,
                   u_fragment = fragment, u_port = ua_port a, u_has_credentials = ua_credentials a,
                   u_host = ua_host a, u_username = ua_username a, u_password = ua_password a,
                   u_opaque = [],
                   u_omit_host = (scheme \<noteq> [] \<and> starts_with path ''/'' \<and> \<not> starts_with path ''//'')\<rparr>)))))"

section \<open>Dot segments\<close>

definition push_segment :: "string \<Rightarrow> string \<times> bool \<Rightarrow> string \<times> bool" where
  "push_segment part = (\<lambda>(result, first).
     if part = ''.'' then (result, False)
     else if part = ''..'' then
       (let cut = (case rfind_char (CHR ''/'') (drop 1 result) of None \<Rightarrow> 1 | Some i \<Rightarrow> i + 1);
            result' = take cut result
        in (result', length result' = 1))
     else ((if first then result else result @ ''/'') @ part, False))"

definition merge_reference :: "string \<Rightarrow> string \<Rightarrow> string" where
  "merge_reference base reference =
     (if reference = [] then base
      else if starts_with reference ''/'' then reference
      else take (case rfind_char (CHR ''/'') base of None \<Rightarrow> 0 | Some i \<Rightarrow> i + 1) base @ reference)"

definition resolve_path :: "string \<Rightarrow> string \<Rightarrow> string" where
  "resolve_path base reference =
     (let full = merge_reference base reference in
      if full = [] then full
      else
        (let parts = split_char (CHR ''/'') full;
             result = fst (fold push_segment parts (''/'', True));
             result = (if last parts = ''.'' \<or> last parts = ''..'' then result @ ''/'' else result)
         in if starts_with result ''//'' then drop 1 result else result))"

section \<open>Serialising and resolving\<close>

definition path_safe :: "char \<Rightarrow> bool" where
  "path_safe c \<longleftrightarrow> is_ascii_alphanumeric c \<or> c \<in> set (''-._~!$&()*+,;=:[]/%@'' @ [CHR 0x27])"

definition path_unescaped :: "char \<Rightarrow> bool" where
  "path_unescaped c \<longleftrightarrow> is_ascii_alphanumeric c \<or> c \<in> set ''-._~$&+,/:;=@''"

definition escaped_path :: "url_parts \<Rightarrow> string" where
  "escaped_path u =
     (if list_all path_safe (u_raw_path u) then u_raw_path u
      else escape_with path_unescaped (case url_decode EscPath (u_raw_path u) of None \<Rightarrow> [] | Some d \<Rightarrow> d))"

definition query_suffix :: "url_parts \<Rightarrow> string" where
  "query_suffix u = (if u_force_query u \<or> u_raw_query u \<noteq> [] then ''?'' @ u_raw_query u else [])"

definition fragment_safe :: "char \<Rightarrow> bool" where
  "fragment_safe c \<longleftrightarrow> is_ascii_alphanumeric c \<or> c \<in> set (''-._~!$&()*+,;=:[]/%@?'' @ [CHR 0x27])"

definition fragment_suffix :: "url_parts \<Rightarrow> string" where
  "fragment_suffix u =
     (if u_fragment u = [] then []
      else ''#'' @
        (if list_all fragment_safe (u_fragment u) then u_fragment u
         else escape_component (case unescape_path (u_fragment u) of None \<Rightarrow> [] | Some d \<Rightarrow> d) ''!$&()*+,/:;=?@''))"

definition credentials_prefix :: "url_parts \<Rightarrow> string" where
  "credentials_prefix u =
     (if u_has_credentials u then
        escape_component (u_username u) ''$&+,;='' @
        (case u_password u of None \<Rightarrow> [] | Some p \<Rightarrow> '':'' @ escape_component p ''$&+,;='') @ ''@''
      else [])"

definition authority_prefix :: "url_parts \<Rightarrow> string" where
  "authority_prefix u =
     (if (u_scheme u \<noteq> [] \<or> u_host u \<noteq> [] \<or> u_has_credentials u) \<and>
         \<not> (u_omit_host u \<and> u_host u = [] \<and> \<not> u_has_credentials u)
      then (if u_host u \<noteq> [] \<or> u_raw_path u \<noteq> [] \<or> u_has_credentials u then ''//'' else []) @
           credentials_prefix u @
           escape_component (u_host u) (''!$&()*+,;=:[]<>'' @ [CHR 0x27, CHR 0x22])
      else [])"

definition reference_string :: "url_parts \<Rightarrow> string" where
  "reference_string u =
     (let start = (if u_scheme u \<noteq> [] then u_scheme u @ '':'' else []);
          body =
            (if u_opaque u \<noteq> [] then start @ u_opaque u
             else
               (let result = start @ authority_prefix u;
                    path = escaped_path u;
                    result = (if path \<noteq> [] \<and> \<not> starts_with path ''/'' \<and> u_host u \<noteq> [] then result @ ''/'' else result);
                    result = (if result = [] \<and> CHR '':'' \<in> set (takeWhile (\<lambda>c. c \<noteq> CHR ''/'') path)
                              then result @ ''./'' else result)
                in result @ path))
      in body @ query_suffix u @ fragment_suffix u)"

definition resolve_reference :: "url_parts \<Rightarrow> string \<Rightarrow> url_parts option" where
  "resolve_reference base reference =
     Option.bind (url_parse reference) (\<lambda>t.
       let absolute = (u_scheme t \<noteq> [] \<or> u_host t \<noteq> [] \<or> u_has_credentials t);
           t1 = (if u_scheme t = [] then t\<lparr>u_scheme := u_scheme base\<rparr> else t);
           t2 =
             (if absolute then
                (if u_opaque t1 = [] then t1\<lparr>u_raw_path := resolve_path (escaped_path t1) []\<rparr> else t1)
              else
                (let t3 = (if u_raw_path t1 = [] \<and> \<not> u_force_query t1 \<and> u_raw_query t1 = []
                           then (let t4 = t1\<lparr>u_raw_query := u_raw_query base\<rparr> in
                                 if u_fragment t4 = [] then t4\<lparr>u_fragment := u_fragment base\<rparr> else t4)
                           else t1)
                 in if u_raw_path t3 = [] \<and> u_opaque base \<noteq> [] then t3\<lparr>u_opaque := u_opaque base\<rparr>
                    else
                      (let t5 = t3\<lparr>u_host := u_host base, u_hostname := u_hostname base, u_port := u_port base,
                                   u_has_credentials := u_has_credentials base,
                                   u_username := u_username base, u_password := u_password base\<rparr>
                       in t5\<lparr>u_raw_path :=
                            resolve_path (if u_opaque base = [] then escaped_path base else []) (escaped_path t5)\<rparr>)))
       in url_parse (reference_string t2))"

definition bracketed :: "string \<Rightarrow> string" where
  "bracketed hostname = ''['' @ hostname @ '']''"

definition authority :: "url_parts \<Rightarrow> string" where
  "authority u =
     (let host = (if CHR '':'' \<in> set (u_hostname u) then bracketed (u_hostname u) else u_hostname u) in
      case u_port u of
        Some port \<Rightarrow> if port \<noteq> [] then host @ '':'' @ port else host
      | None \<Rightarrow> host)"

definition display_url :: "url_parts \<Rightarrow> string" where
  "display_url u =
     u_scheme u @ ''://'' @ url_escape (authority u) True @ escaped_path u @ query_suffix u @
     (if u_fragment u \<noteq> [] then ''#'' @ url_escape (u_fragment u) False else [])"

text \<open>
  \<open>request_uri\<close>: \<open>idna\<close> is the domain parser of the \<open>url\<close> crate and \<open>build\<close> the URI builder of the
  \<open>http\<close> crate on scheme, authority and path.
\<close>

definition request_path :: "url_parts \<Rightarrow> string" where
  "request_path u = (if u_raw_path u = [] then ''/'' else escaped_path u) @ query_suffix u"

definition request_uri ::
  "(string \<Rightarrow> (string, string) result) \<Rightarrow> (string \<Rightarrow> string \<Rightarrow> string \<Rightarrow> (string, 'uri) result) \<Rightarrow>
   url_parts \<Rightarrow> (string, 'uri) result" where
  "request_uri idna build u =
     (let port = (case u_port u of Some p \<Rightarrow> if p \<noteq> [] then Some p else None | None \<Rightarrow> None) in
      try_bind (case port of
                  Some p \<Rightarrow> (case parse_unsigned 65535 p of None \<Rightarrow> Inl ''invalid URL port'' | Some _ \<Rightarrow> Inr ())
                | None \<Rightarrow> Inr ()) (\<lambda>_.
      try_bind (if CHR '':'' \<in> set (u_hostname u) then Inr (bracketed (u_hostname u)) else idna (u_hostname u))
        (\<lambda>hostname.
           build (u_scheme u) (case port of Some p \<Rightarrow> hostname @ '':'' @ p | None \<Rightarrow> hostname) (request_path u))))"

definition url_resolve :: "url_parts \<Rightarrow> string \<Rightarrow> url_parts option" where
  "url_resolve base location =
     Option.bind (url_parse location) (\<lambda>t.
       let absolute = (u_scheme t \<noteq> [] \<or> u_hostname t \<noteq> [] \<or> u_has_credentials t);
           t1 = (if u_scheme t = [] then t\<lparr>u_scheme := u_scheme base\<rparr> else t);
           t2 =
             (if absolute then t1\<lparr>u_raw_path := resolve_path (escaped_path t1) []\<rparr>
              else
                (let t3 = (if u_raw_path t1 = [] \<and> \<not> u_force_query t1 \<and> u_raw_query t1 = []
                           then (let t4 = t1\<lparr>u_raw_query := u_raw_query base\<rparr> in
                                 if u_fragment t4 = [] then t4\<lparr>u_fragment := u_fragment base\<rparr> else t4)
                           else t1);
                     t5 = t3\<lparr>u_hostname := u_hostname base, u_port := u_port base,
                             u_has_credentials := u_has_credentials base\<rparr>
                 in t5\<lparr>u_raw_path := resolve_path (escaped_path base) (escaped_path t5)\<rparr>))
       in map_option (\<lambda>d. t2\<lparr>u_path := d\<rparr>) (url_decode EscPath (u_raw_path t2)))"

section \<open>Escaping and unescaping\<close>

text \<open>
  The contract of an escaper: unescaping inverts it and its output stays inside an alphabet, so
  that separators outside that alphabet can be put around escaped text.
\<close>

locale escape_codec =
  fixes esc :: "string \<Rightarrow> string"
    and unesc :: "string \<Rightarrow> string option"
    and safe :: "char \<Rightarrow> bool"
  assumes unesc_esc: "unesc (esc v) = Some v"
    and esc_safe: "c \<in> set (esc v) \<Longrightarrow> safe c"
begin

lemma esc_inject: "esc v = esc w \<longleftrightarrow> v = w"
  by (metis unesc_esc option.inject)

lemma no_separator: "\<not> safe c \<Longrightarrow> c \<notin> set (esc v)"
  using esc_safe by blast

lemma split_escaped: "\<not> safe c \<Longrightarrow> split_once c (esc v @ c # r) = Some (esc v, r)"
  by (simp add: no_separator split_once_append)

end

lemma hex_byte_percent:
  "hex_byte (upper_hex_digit (byte_of c div 16)) (upper_hex_digit (byte_of c mod 16)) = Some c"
  by (simp add: hex_byte_def)

lemma url_decode_percent: "url_decode EscPath (percent c @ s) = map_option (Cons c) (url_decode EscPath s)"
  by (simp add: percent_def hex_byte_percent escape_rejected_def)

lemma decode_escape_with:
  assumes "\<not> keep (CHR ''%'')"
  shows "url_decode EscPath (escape_with keep v) = Some v"
proof (induction v)
  case (Cons c v)
  show ?case
  proof (cases "keep c")
    case True
    with assms have "c \<noteq> CHR ''%''" by auto
    with True Cons show ?thesis by (simp add: escape_with_def)
  next
    case False
    with Cons url_decode_percent [of c "escape_with keep v"] show ?thesis by (simp add: escape_with_def)
  qed
qed (simp add: escape_with_def)

lemma upper_hex_digit_alnum: "n < 16 \<Longrightarrow> is_ascii_alphanumeric (upper_hex_digit n)"
  by (auto simp: upper_hex_digit_def is_ascii_alphanumeric_def is_ascii_alphabetic_def is_ascii_uppercase_def
      is_ascii_digit_def)

lemma set_escape_with:
  "c \<in> set (escape_with keep v) \<Longrightarrow> keep c \<or> c = CHR ''%'' \<or> is_ascii_alphanumeric c"
proof -
  assume "c \<in> set (escape_with keep v)"
  then obtain d where "d \<in> set v" "c \<in> set (if keep d then [d] else percent d)" by (auto simp: escape_with_def)
  then show ?thesis by (auto simp: percent_def upper_hex_digit_alnum split: if_splits)
qed

definition component_safe :: "string \<Rightarrow> char \<Rightarrow> bool" where
  "component_safe reserved c \<longleftrightarrow> is_ascii_alphanumeric c \<or> c \<in> set ''-._~%'' \<or> c \<in> set reserved"

lemma component_codec:
  assumes "CHR ''%'' \<notin> set reserved"
  shows "escape_codec (\<lambda>v. escape_component v reserved) unescape_path (component_safe reserved)"
proof
  have "\<not> is_ascii_alphanumeric (CHR ''%'')" by code_simp
  with assms show "unescape_path (escape_component v reserved) = Some v" for v
    unfolding unescape_path_def escape_component_def by (intro decode_escape_with) auto
  show "component_safe reserved c" if "c \<in> set (escape_component v reserved)" for c v
    using set_escape_with [OF that [unfolded escape_component_def]] by (auto simp: component_safe_def)
qed

interpretation userinfo: escape_codec "\<lambda>v. escape_component v ''$&+,;=''" unescape_path "component_safe ''$&+,;=''"
  by (rule component_codec) simp

section \<open>Dot segments against a stack of segments\<close>

text \<open>The specification: segments on a stack, where going up to the root empties the stack.\<close>

definition stack_push :: "string \<Rightarrow> string list \<Rightarrow> string list" where
  "stack_push part st =
     (if part = ''.'' then (if st = [] then [[]] else st)
      else if part = ''..'' then (if butlast st = [[]] then [] else butlast st)
      else st @ [part])"

definition stack_ok :: "string list \<Rightarrow> bool" where
  "stack_ok st \<longleftrightarrow> (\<forall>p \<in> set st. CHR ''/'' \<notin> set p \<and> p \<noteq> ''.'' \<and> p \<noteq> ''..'')"

definition stack_view :: "string list \<Rightarrow> string \<times> bool" where
  "stack_view st = (''/'' @ join_char (CHR ''/'') st, st = [])"

lemma stack_push_ok: "stack_ok st \<Longrightarrow> CHR ''/'' \<notin> set part \<Longrightarrow> stack_ok (stack_push part st)"
  by (auto simp: stack_ok_def stack_push_def dest: in_set_butlastD)

lemma push_segment_refines:
  assumes "stack_ok st" "CHR ''/'' \<notin> set part"
  shows "push_segment part (stack_view st) = stack_view (stack_push part st)"
proof -
  consider "part = ''.''" | "part = ''..''" "st = []" | p where "part = ''..''" "st = [p]"
    | ys p where "part = ''..''" "st = ys @ [p]" "ys \<noteq> []" | "part \<noteq> ''.''" "part \<noteq> ''..''"
    by (cases st rule: rev_cases) auto
  then show ?thesis
  proof cases
    case (3 p)
    with assms have "rfind_char (CHR ''/'') p = None" by (simp add: stack_ok_def rfind_char_None)
    with 3 show ?thesis by (simp add: push_segment_def stack_view_def stack_push_def Let_def)
  next
    case (4 ys p)
    with assms have "rfind_char (CHR ''/'') (join_char (CHR ''/'') st) = Some (length (join_char (CHR ''/'') ys))"
      by (simp add: stack_ok_def join_char_snoc rfind_char_append)
    with 4 show ?thesis
      by (auto simp: push_segment_def stack_view_def stack_push_def Let_def join_char_snoc join_char_eq_Nil)
  qed (auto simp: push_segment_def stack_view_def stack_push_def join_char_snoc rfind_char_None Let_def)
qed

lemma fold_push_refines:
  assumes "stack_ok st" "\<forall>p \<in> set parts. CHR ''/'' \<notin> set p"
  shows "fold push_segment parts (stack_view st) = stack_view (fold stack_push parts st) \<and>
    stack_ok (fold stack_push parts st)"
  using assms
  by (induction parts arbitrary: st) (simp_all add: push_segment_refines stack_push_ok)

definition stack_path :: "string \<Rightarrow> string" where
  "stack_path full =
     (if full = [] then []
      else (let parts = split_char (CHR ''/'') full;
                st = fold stack_push parts [];
                result = ''/'' @ join_char (CHR ''/'') st @ (if last parts \<in> {''.'', ''..''} then ''/'' else [])
            in if starts_with result ''//'' then drop 1 result else result))"

lemma fold_parts:
  "fst (fold push_segment (split_char (CHR ''/'') full) (''/'', True)) =
     ''/'' @ join_char (CHR ''/'') (fold stack_push (split_char (CHR ''/'') full) [])"
  "stack_ok (fold stack_push (split_char (CHR ''/'') full) [])"
proof -
  have "\<forall>p \<in> set (split_char (CHR ''/'') full). CHR ''/'' \<notin> set p" using split_by_no_sep by blast
  from fold_push_refines [of "[]", OF _ this]
  show "fst (fold push_segment (split_char (CHR ''/'') full) (''/'', True)) =
     ''/'' @ join_char (CHR ''/'') (fold stack_push (split_char (CHR ''/'') full) [])"
    "stack_ok (fold stack_push (split_char (CHR ''/'') full) [])"
    by (simp_all add: stack_ok_def stack_view_def)
qed

lemma resolve_path_refines: "resolve_path base reference = stack_path (merge_reference base reference)"
  by (simp add: resolve_path_def stack_path_def fold_parts Let_def)

lemma segments_of_stack:
  assumes "stack_ok st" "tail = [] \<or> tail = ''/''"
  shows "set (split_char (CHR ''/'') (''/'' @ join_char (CHR ''/'') st @ tail)) \<subseteq> insert [] (set st)"
proof -
  have root: "split_char (CHR ''/'') (CHR ''/'' # s) = [] # split_char (CHR ''/'') s" for s by simp
  show ?thesis
  proof (cases "st = []")
    case True
    with assms(2) show ?thesis by auto
  next
    case False
    have plain: "split_char (CHR ''/'') (join_char (CHR ''/'') ws) = ws" if "ws \<noteq> []" "stack_ok ws" for ws
      using that by (intro split_join_char) (auto simp: stack_ok_def)
    have "join_char (CHR ''/'') st @ tail = join_char (CHR ''/'') (if tail = [] then st else st @ [[]])"
      using assms(2) False by (auto simp: join_char_snoc)
    moreover have "stack_ok (if tail = [] then st else st @ [[]])" using assms(1) by (simp add: stack_ok_def)
    ultimately show ?thesis using False root plain [of "if tail = [] then st else st @ [[]]"] by auto
  qed
qed

definition dotless :: "string \<Rightarrow> bool" where
  "dotless p \<longleftrightarrow> (\<forall>seg \<in> set (split_char (CHR ''/'') p). seg \<noteq> ''.'' \<and> seg \<noteq> ''..'')"

lemma stack_path_dotless:
  "dotless (stack_path full) \<and> (full \<noteq> [] \<longrightarrow> starts_with (stack_path full) ''/'')"
proof (cases "full = []")
  case True
  then show ?thesis by (simp add: stack_path_def dotless_def)
next
  case False
  let ?st = "fold stack_push (split_char (CHR ''/'') full) []"
  let ?tail = "if last (split_char (CHR ''/'') full) \<in> {''.'', ''..''} then ''/'' else []"
  let ?r = "''/'' @ join_char (CHR ''/'') ?st @ ?tail"
  have segs: "set (split_char (CHR ''/'') ?r) \<subseteq> insert [] (set ?st)"
    by (rule segments_of_stack [OF fold_parts(2)]) simp
  have "seg \<noteq> ''.'' \<and> seg \<noteq> ''..''" if "seg \<in> set (split_char (CHR ''/'') ?r)" for seg
    using subsetD [OF segs that] fold_parts(2) [of full] unfolding stack_ok_def by blast
  then have dl: "dotless ?r" unfolding dotless_def by blast
  obtain t where t: "?r = CHR ''/'' # t" by simp
  have "dotless t" using dl unfolding t dotless_def by simp
  moreover have "starts_with t ''/''" if "starts_with ?r ''//''" using that unfolding t by (cases t) simp_all
  moreover have "stack_path full = (if starts_with ?r ''//'' then t else ?r)"
    using False t by (simp only: stack_path_def Let_def) simp
  ultimately show ?thesis using dl t by simp
qed

section \<open>The characters of a host name\<close>

lemma url_decode_host_chars:
  "url_decode mode s = Some d \<Longrightarrow> mode \<noteq> EscPath \<Longrightarrow> c \<in> set d \<Longrightarrow>
     valid_host_byte c \<or> c = CHR ''%'' \<or> c = CHR '' ''"
proof (induction mode s arbitrary: d rule: url_decode.induct)
  case (2 mode x rest)
  have "valid_host_byte v \<or> v = CHR ''%'' \<or> v = CHR '' ''" if "\<not> escape_rejected mode v" for v
    using that "2.prems"(2) by (cases mode) (auto simp: escape_rejected_def valid_host_byte_def)
  with 2 show ?case by (fastforce split: if_splits list.splits option.splits)
qed simp

definition host_char :: "char \<Rightarrow> bool" where
  "host_char c \<longleftrightarrow> valid_host_byte c \<or> c = CHR ''%'' \<or> c = CHR '' ''"

lemma lossy_host:
  "\<forall>c \<in> set d. host_char c \<Longrightarrow> \<forall>c \<in> set (from_utf8_lossy d). host_char c"
  using from_utf8_lossy_chars by (fastforce simp: host_char_def valid_host_byte_def)

lemma decode_host_char: "url_decode mode s = Some d \<Longrightarrow> mode \<noteq> EscPath \<Longrightarrow> \<forall>c \<in> set d. host_char c"
  using url_decode_host_chars by (auto simp: host_char_def)

lemma decode_bracket_chars:
  assumes "decode_bracket raw = Some d" "c \<in> set d"
  shows "host_char c"
proof (cases "split_once_str ''%25'' raw")
  case None
  with assms decode_host_char show ?thesis by (auto simp: decode_bracket_def)
next
  case (Some p)
  obtain address zone where "p = (address, zone)" by force
  with Some assms(1) obtain a z where az: "url_decode EscHost address = Some a"
    "url_decode EscZone (''%25'' @ zone) = Some z" "d = a @ z"
    by (auto simp: decode_bracket_def bind_eq_Some_conv simp del: url_decode.simps)
  from decode_host_char [OF az(1)] decode_host_char [OF az(2)] assms(2) az(3) show ?thesis by auto
qed

lemma parse_host_chars:
  assumes "parse_host host scheme = Some h"
  shows "\<forall>c \<in> set h. host_char c"
proof (cases "rfind_char (CHR ''['') host")
  case None
  with assms show ?thesis
    by (auto simp: parse_host_def bind_eq_Some_conv split: option.splits if_splits
        dest!: decode_host_char intro: lossy_host [rule_format])
next
  case (Some at)
  with assms have b: "parse_bracket_host host = Some h" by (auto simp: parse_host_def split: if_splits)
  obtain raw d where "decode_bracket raw = Some d" "check_address (from_utf8_lossy d) = Some h"
    using b by (auto simp: parse_bracket_host_def bind_eq_Some_conv split: if_splits)
  then have d: "h = from_utf8_lossy d" "\<forall>c \<in> set d. host_char c"
    by (auto simp: check_address_def decode_bracket_chars split: option.splits if_splits)
  show ?thesis unfolding d(1) by (rule lossy_host [OF d(2)])
qed

lemma authority_host_chars:
  assumes "split_authority scheme path = Some (a, rest)" "c \<in> set (ua_hostname a)"
  shows "host_char c"
proof -
  have "ua_hostname a = [] \<or> (\<exists>h. parse_host h scheme = Some (ua_hostname a))"
    using assms(1)
    by (auto simp: split_authority_def parse_authority_def no_authority_def bind_eq_Some_conv Let_def split_beta
        split: if_splits)
  then show ?thesis using assms(2) parse_host_chars by auto
qed

lemma parsed_host_chars:
  assumes "url_parse s = Some u" "c \<in> set (u_hostname u)"
  shows "host_char c"
  using assms
  by (simp add: url_parse_def Let_def split_beta bind_eq_Some_conv split: if_splits)
     (auto dest: authority_host_chars)

section \<open>Properties\<close>

text \<open>
  Path resolution removes every dot segment: the string routine computes what a stack of
  segments computes, its result is absolute, and no segment of it is \<open>.\<close> or \<open>..\<close>, so a
  reference cannot climb above the root.
\<close>

theorem resolved_paths_have_no_dot_segments:
  "resolve_path base reference = stack_path (merge_reference base reference) \<and>
   dotless (resolve_path base reference) \<and>
   (resolve_path base reference = [] \<or> starts_with (resolve_path base reference) ''/'')"
  using stack_path_dotless [of "merge_reference base reference"]
  by (cases "merge_reference base reference = []") (auto simp: resolve_path_refines, simp add: stack_path_def)

text \<open>
  A parsed host name contains no separator: neither percent escapes nor credentials nor an
  IPv6 zone can put a slash, an at sign, a question mark, a number sign, a backslash or a control
  character into the host name that permissions are checked against.
\<close>

theorem parsed_hostname_is_clean:
  assumes "url_parse s = Some u" "c \<in> set (u_hostname u)"
  shows "c \<notin> set (''/@?#'' @ [CHR 0x5C]) \<and> \<not> is_control c"
proof -
  have "host_char c" using parsed_host_chars [OF assms] .
  then show ?thesis
    by (auto simp: host_char_def valid_host_byte_def is_control_def is_ascii_alphanumeric_def is_ascii_alphabetic_def
        is_ascii_uppercase_def is_ascii_lowercase_def is_ascii_digit_def byte_of_def)
qed

lemma demo_url:
  "map_option u_hostname (url_parse ''https://a%40b@h/x'') = Some ''h''"
  by code_simp

theorem parsed_hostname_is_clean_witness:
  "\<exists>u. url_parse ''https://a%40b@h/x'' = Some u \<and> CHR ''h'' \<in> set (u_hostname u) \<and>
     CHR ''h'' \<notin> set (''/@?#'' @ [CHR 0x5C]) \<and> \<not> is_control (CHR ''h'')"
proof -
  obtain u where u: "url_parse ''https://a%40b@h/x'' = Some u" "u_hostname u = ''h''"
    using demo_url by auto
  then show ?thesis using parsed_hostname_is_clean [OF u(1), of "CHR ''h''"] by auto
qed

text \<open>
  Redirects: resolving a location against the current URL keeps scheme, host name, port and
  the credentials marker unless the location names its own, and the new path is free of dot
  segments and is the decoded form of the raw path that is sent.
\<close>

theorem redirects_keep_the_origin:
  assumes "url_resolve base location = Some r" "url_parse location = Some t"
  shows "u_scheme r = (if u_scheme t = [] then u_scheme base else u_scheme t) \<and>
    (u_scheme t = [] \<and> u_hostname t = [] \<and> \<not> u_has_credentials t \<longrightarrow>
       u_hostname r = u_hostname base \<and> u_port r = u_port base \<and> u_has_credentials r = u_has_credentials base) \<and>
    dotless (u_raw_path r) \<and> url_decode EscPath (u_raw_path r) = Some (u_path r)"
proof -
  have dl: "dotless (resolve_path b c)" for b c
    using stack_path_dotless by (simp add: resolve_path_refines)
  show ?thesis using assms
    by (simp add: url_resolve_def Let_def dl split: if_splits) (auto simp: dl)
qed

theorem redirects_keep_the_origin_witness:
  "\<exists>base r. url_parse ''https://h:1/a/b'' = Some base \<and> url_resolve base ''../../c'' = Some r \<and>
     u_hostname r = u_hostname base \<and> dotless (u_raw_path r)"
proof -
  have ex: "url_parse ''https://h:1/a/b'' \<noteq> None"
    "url_resolve (the (url_parse ''https://h:1/a/b'')) ''../../c'' \<noteq> None"
    "map_option (\<lambda>t. (u_scheme t, u_hostname t, u_has_credentials t)) (url_parse ''../../c'') = Some ([], [], False)"
    by code_simp+
  then obtain base r t where b: "url_parse ''https://h:1/a/b'' = Some base"
    "url_resolve base ''../../c'' = Some r" "url_parse ''../../c'' = Some t"
    "u_scheme t = []" "u_hostname t = []" "\<not> u_has_credentials t" by auto
  with redirects_keep_the_origin [OF b(2,3)] show ?thesis by auto
qed

end
