(* ===== verification/Query.thy ===== *)
theory Query
  imports Url BTree_Map
begin

text \<open>
  Query strings (\<open>crates/network/src/query.rs\<close>): the net/url encoding with its treatment of
  invalid pairs and semicolons. A query is a \<open>BTreeMap\<close> from keys to their values in order.
\<close>

type_synonym query = "(string, string list) btmap"

fun query_decode :: "string \<Rightarrow> string option" where
  "query_decode [] = Some []"
| "query_decode (c # rest) =
     (if c = CHR ''+'' then map_option (Cons (CHR '' '')) (query_decode rest)
      else if c = CHR ''%'' then
        (case rest of
           h # l # rest' \<Rightarrow>
             (case hex_byte h l of
                None \<Rightarrow> None
              | Some v \<Rightarrow> map_option (Cons v) (query_decode rest'))
         | _ \<Rightarrow> None)
      else map_option (Cons c) (query_decode rest))"

definition query_keep :: "char \<Rightarrow> bool" where
  "query_keep c \<longleftrightarrow> is_ascii_alphanumeric c \<or> c \<in> set ''-_.~''"

definition query_escape_char :: "char \<Rightarrow> string" where
  "query_escape_char c = (if query_keep c then [c] else if c = CHR '' '' then ''+'' else percent c)"

definition query_escape :: "string \<Rightarrow> string" where
  "query_escape s = concat (map query_escape_char s)"

definition query_add :: "string \<Rightarrow> string \<Rightarrow> query \<Rightarrow> query" where
  "query_add key v q =
     bt_insert key ((case bt_get q key of None \<Rightarrow> [] | Some vs \<Rightarrow> vs) @ [v]) q"

definition query_pair :: "string \<Rightarrow> query \<Rightarrow> query" where
  "query_pair pair q =
     (let (key, v) = split_or (CHR ''='') pair in
      case (query_decode key, query_decode v) of
        (Some key, Some v) \<Rightarrow> query_add key v q
      | _ \<Rightarrow> q)"

definition query_parse :: "string \<Rightarrow> query" where
  "query_parse s =
     fold query_pair
       (filter (\<lambda>p. p \<noteq> [] \<and> \<not> contains_char p (CHR '';'')) (split_char (CHR ''&'') s)) bt_empty"

definition query_set :: "string \<Rightarrow> string \<Rightarrow> query \<Rightarrow> query" where
  "query_set key v q = bt_insert key [v] q"

definition query_pairs :: "query \<Rightarrow> (string \<times> string) list" where
  "query_pairs q = concat (map (\<lambda>(key, vs). map (\<lambda>v. (key, v)) vs) q)"

definition pair_text :: "string \<times> string \<Rightarrow> string" where
  "pair_text = (\<lambda>(key, v). query_escape key @ ''='' @ query_escape v)"

definition query_encode :: "query \<Rightarrow> string" where
  "query_encode q =
     join_char (CHR ''&'') (map pair_text (query_pairs q))"

section \<open>The escaper\<close>

lemma query_decode_escape: "query_decode (query_escape v) = Some v"
proof (induction v)
  case (Cons c v)
  have kept: "c \<noteq> CHR ''+'' \<and> c \<noteq> CHR ''%''" if "query_keep c"
  proof -
    have "\<not> query_keep (CHR ''+'')" "\<not> query_keep (CHR ''%'')" by code_simp+
    with that show ?thesis by auto
  qed
  have "query_decode (percent c @ s) = map_option (Cons c) (query_decode s)" for s
    by (simp add: percent_def hex_byte_percent)
  with Cons kept show ?case by (simp add: query_escape_def query_escape_char_def)
qed (simp add: query_escape_def)

definition query_safe :: "char \<Rightarrow> bool" where
  "query_safe c \<longleftrightarrow> query_keep c \<or> c = CHR ''+'' \<or> c = CHR ''%''"

lemma set_query_escape: "c \<in> set (query_escape v) \<Longrightarrow> query_safe c"
proof -
  assume "c \<in> set (query_escape v)"
  then obtain d where "c \<in> set (query_escape_char d)" by (auto simp: query_escape_def)
  then show ?thesis
    by (auto simp: query_escape_char_def query_safe_def query_keep_def percent_def upper_hex_digit_alnum split: if_splits)
qed

interpretation form: escape_codec query_escape query_decode query_safe
  by unfold_locales (rule query_decode_escape, rule set_query_escape)

lemma query_separators:
  "\<not> query_safe (CHR ''='')" "\<not> query_safe (CHR ''&'')" "\<not> query_safe (CHR '';'')"
  by code_simp+

section \<open>Parsing an encoded query\<close>

definition query_ok :: "query \<Rightarrow> bool" where
  "query_ok q \<longleftrightarrow> bt_wf q \<and> (\<forall>(key, vs) \<in> set q. vs \<noteq> [])"

lemma parse_pair_text:
  "query_pair (pair_text (key, v)) q = query_add key v q"
  using form.split_escaped [OF query_separators(1), of key "query_escape v"]
  by (simp add: pair_text_def query_pair_def split_or_def form.unesc_esc)

lemma pair_text_clean:
  "c \<in> {CHR ''&'', CHR '';''} \<Longrightarrow> c \<notin> set (pair_text p)"
  using form.no_separator [OF query_separators(2)] form.no_separator [OF query_separators(3)]
  by (auto simp: pair_text_def split_beta)

lemma parse_encode_pairs:
  "query_parse (join_char (CHR ''&'') (map pair_text ps)) =
     fold (\<lambda>(key, v). query_add key v) ps bt_empty"
proof (cases "ps = []")
  case True
  then show ?thesis by (simp add: query_parse_def)
next
  case False
  let ?texts = "map pair_text ps"
  have "split_char (CHR ''&'') (join_char (CHR ''&'') ?texts) = ?texts"
    using False pair_text_clean by (intro split_join_char) auto
  moreover have "filter (\<lambda>p. p \<noteq> [] \<and> \<not> contains_char p (CHR '';'')) ?texts = ?texts"
    using pair_text_clean by (intro filter_True) (auto simp: contains_char_def, simp add: pair_text_def split_beta)
  moreover have "fold query_pair ?texts q = fold (\<lambda>(key, v). query_add key v) ps q" for q
    by (induction ps arbitrary: q) (auto simp: parse_pair_text)
  ultimately show ?thesis by (simp add: query_parse_def)
qed

text \<open>Adding a key above every key present appends; adding to the last key extends it.\<close>

lemma bt_insert_above:
  "\<forall>k' \<in> fst ` set q. k' < k \<Longrightarrow> bt_insert k v q = q @ [(k, v)]"
  by (induction q) auto

lemma bt_insert_last: "\<forall>k' \<in> fst ` set q. k' < k \<Longrightarrow> bt_insert k v (q @ [(k, w)]) = q @ [(k, v)]"
  by (induction q) auto

lemma bt_get_last: "\<forall>k' \<in> fst ` set q. k' < (k :: 'a::linorder) \<Longrightarrow> bt_get (q @ [(k, w)]) k = Some w"
  by (induction q) (auto simp: bt_get_def)

lemma add_values:
  assumes "\<forall>k' \<in> fst ` set q. k' < (k :: string)"
  shows "fold (\<lambda>(key, v). query_add key v) (map (Pair k) vs) (q @ [(k, ws)]) = q @ [(k, ws @ vs)]"
proof (induction vs arbitrary: ws)
  case (Cons v vs)
  have "query_add k v (q @ [(k, ws)]) = q @ [(k, ws @ [v])]"
    using assms by (simp add: query_add_def bt_get_last bt_insert_last)
  with Cons show ?case by simp
qed simp

lemma add_new_key:
  assumes "\<forall>k' \<in> fst ` set q. k' < (k :: string)" "vs \<noteq> []"
  shows "fold (\<lambda>(key, v). query_add key v) (map (Pair k) vs) q = q @ [(k, vs)]"
proof (cases vs)
  case (Cons v vs')
  have "bt_get q k = None" using assms(1) by (force simp: bt_get_def map_of_eq_None_iff)
  then have "query_add k v q = q @ [(k, [v])]" using assms(1) by (simp add: query_add_def bt_insert_above)
  with Cons add_values [OF assms(1), of vs' "[v]"] show ?thesis by simp
qed (use assms in simp)

lemma rebuild_query:
  "bt_wf (done @ q) \<Longrightarrow> \<forall>(key, vs) \<in> set q. vs \<noteq> [] \<Longrightarrow>
     fold (\<lambda>(key, v). query_add key v) (query_pairs q) done = done @ q"
proof (induction q arbitrary: "done")
  case (Cons p q)
  obtain k vs where p: "p = (k, vs)" by force
  have below: "\<forall>k' \<in> fst ` set done. k' < k"
    using Cons.prems(1) p by (auto simp: bt_wf_def sorted_wrt_append)
  have "fold (\<lambda>(key, v). query_add key v) (map (Pair k) vs) done = done @ [(k, vs)]"
    using Cons.prems(2) p by (intro add_new_key [OF below]) auto
  with Cons.IH [of "done @ [(k, vs)]"] Cons.prems p show ?case
    by (simp add: query_pairs_def)
qed (simp add: query_pairs_def)

section \<open>Properties\<close>

text \<open>
  C35. Query strings round-trip: parsing the encoding of any query whose keys all have a value
  gives that query back, keys in order and repeated values in order, whatever bytes they hold.
\<close>

theorem query_round_trip:
  assumes "query_ok q"
  shows "query_parse (query_encode q) = q"
  using assms rebuild_query [of "[]" q]
  by (simp add: query_encode_def parse_encode_pairs query_ok_def bt_empty_def)

theorem query_round_trip_witness:
  "query_parse (query_encode [(''a b'', [''1&2'', ''x'']), (''q'', [''='' ])]) = [(''a b'', [''1&2'', ''x'']), (''q'', [''=''])]"
  by (rule query_round_trip) code_simp

end
