(* ===== verification/Network_Policy.thy ===== *)
theory Network_Policy
  imports Url Ttl_Cache
begin

text \<open>
  Permission checks before dispatch (\<open>crates/network/src/policy.rs\<close>) and on every resolved
  address (\<open>crates/network/src/dns.rs\<close>). \<open>lower\<close> is the Unicode lower-casing of \<open>str\<close>; the
  platform resolver, the DNS-over-HTTPS exchange and the URI library are arguments.
\<close>

unbundle bit_operations_syntax

section \<open>Addresses\<close>

datatype ip_addr = V4 u8 u8 u8 u8 | V6 "u16 list"

definition v4_loopback :: "u8 \<Rightarrow> u8 \<Rightarrow> u8 \<Rightarrow> u8 \<Rightarrow> bool" where
  "v4_loopback a b c d \<longleftrightarrow> a = 127"

definition v4_private :: "u8 \<Rightarrow> u8 \<Rightarrow> u8 \<Rightarrow> u8 \<Rightarrow> bool" where
  "v4_private a b c d \<longleftrightarrow> a = 10 \<or> (a = 172 \<and> 16 \<le> b \<and> b \<le> 31) \<or> (a = 192 \<and> b = 168)"

definition v4_link_local :: "u8 \<Rightarrow> u8 \<Rightarrow> u8 \<Rightarrow> u8 \<Rightarrow> bool" where
  "v4_link_local a b c d \<longleftrightarrow> a = 169 \<and> b = 254"

definition v4_multicast :: "u8 \<Rightarrow> u8 \<Rightarrow> u8 \<Rightarrow> u8 \<Rightarrow> bool" where
  "v4_multicast a b c d \<longleftrightarrow> 224 \<le> a \<and> a \<le> 239"

definition to_ipv4_mapped :: "u16 list \<Rightarrow> ip_addr option" where
  "to_ipv4_mapped segs =
     (if take 6 segs = [0, 0, 0, 0, 0, 0xffff]
      then Some (V4 (ucast (drop_bit 8 (segs ! 6))) (ucast (segs ! 6)) (ucast (drop_bit 8 (segs ! 7))) (ucast (segs ! 7)))
      else None)"

definition is_private_v4 :: "u8 \<Rightarrow> u8 \<Rightarrow> u8 \<Rightarrow> u8 \<Rightarrow> bool" where
  "is_private_v4 a b c d \<longleftrightarrow>
     v4_loopback a b c d \<or> v4_private a b c d \<or> v4_link_local a b c d \<or> v4_multicast a b c d \<or>
     (a = 0 \<and> b = 0 \<and> c = 0 \<and> d = 0) \<or> (a = 255 \<and> b = 255 \<and> c = 255 \<and> d = 255)"

definition is_private_ip :: "ip_addr \<Rightarrow> bool" where
  "is_private_ip address =
     (case address of
        V4 a b c d \<Rightarrow> is_private_v4 a b c d
      | V6 segs \<Rightarrow>
          (case to_ipv4_mapped segs of
             Some (V4 a b c d) \<Rightarrow> is_private_v4 a b c d
           | _ \<Rightarrow>
               segs = [0, 0, 0, 0, 0, 0, 0, 1] \<or> (segs ! 0 AND 0xfe00) = 0xfc00 \<or>
               (segs ! 0 AND 0xffc0) = 0xfe80 \<or> (segs ! 0 AND 0xff00) = 0xff00 \<or>
               segs = [0, 0, 0, 0, 0, 0, 0, 0]))"

definition parse_ip :: "string \<Rightarrow> ip_addr option" where
  "parse_ip s =
     (case read_ipv4 s of
        Some (os, r) \<Rightarrow>
          if r = [] then Some (V4 (word_of_nat (os ! 0)) (word_of_nat (os ! 1)) (word_of_nat (os ! 2)) (word_of_nat (os ! 3)))
          else None
      | None \<Rightarrow> map_option (\<lambda>gs. V6 (map word_of_nat gs)) (parse_ipv6 s))"

definition private_literal_or_local :: "(string \<Rightarrow> string) \<Rightarrow> string \<Rightarrow> bool" where
  "private_literal_or_local lower host =
     (let h = lower (trim_end_matches (\<lambda>c. c = CHR '']'') (trim_start_matches (\<lambda>c. c = CHR ''['') (trim host))) in
      h = ''localhost'' \<or> ends_with h ''.local'' \<or>
      (case parse_ip (takeWhile (\<lambda>c. c \<noteq> CHR ''%'') h) of None \<Rightarrow> False | Some a \<Rightarrow> is_private_ip a))"

section \<open>Permissions\<close>

record network_permissions =
  np_domains :: "string list"
  np_allow_http :: bool

definition domain_matches :: "string \<Rightarrow> string \<Rightarrow> bool" where
  "domain_matches allowed domain \<longleftrightarrow>
     allowed = ''*'' \<or> allowed = domain \<or>
     (case strip_prefix ''*.'' allowed of
        None \<Rightarrow> False
      | Some suffix \<Rightarrow> length domain > length suffix + 1 \<and> ends_with domain (''.'' @ suffix))"

definition allows_domain :: "(string \<Rightarrow> string) \<Rightarrow> network_permissions \<Rightarrow> string \<Rightarrow> bool" where
  "allows_domain lower p domain =
     list_ex (\<lambda>allowed. domain_matches (lower (trim allowed)) (lower (trim domain))) (np_domains p)"

definition denied_private :: "string \<Rightarrow> string" where
  "denied_private host =
     ''network access denied: private/local network '' @ [CHR 0x27] @ host @ [CHR 0x27] @ '' not allowed''"

definition not_in_list :: "bool \<Rightarrow> string \<Rightarrow> string" where
  "not_in_list redirect host =
     (if redirect then ''redirect blocked'' else ''network access denied'') @
     '': domain '' @ [CHR 0x27] @ host @ [CHR 0x27] @ '' not in allowed list''"

text \<open>
  \<open>request\<close> is \<open>UrlParts::request_uri\<close> with the libraries it uses filled in, \<open>uri_host\<close> the host
  accessor of the resulting URI.
\<close>

definition validate ::
  "(string \<Rightarrow> string) \<Rightarrow> (url_parts \<Rightarrow> (string, 'uri) result) \<Rightarrow> ('uri \<Rightarrow> string option) \<Rightarrow>
   network_permissions \<Rightarrow> string \<Rightarrow> bool \<Rightarrow> bool \<Rightarrow> (string, url_parts) result" where
  "validate lower request uri_host p input allow_private redirect =
     try_bind (ok_or ''invalid URL'' (url_parse input)) (\<lambda>url.
       if u_scheme url = [] \<and> \<not> redirect then Inl ''invalid URL: scheme is required''
       else if u_scheme url \<noteq> ''https'' \<and> \<not> (np_allow_http p \<and> u_scheme url = ''http'')
       then Inl (if redirect then ''redirect blocked: only https is allowed''
                 else ''network access denied: only https is allowed'')
       else if u_has_credentials url then Inl ''invalid URL: embedded credentials are not allowed''
       else if u_hostname url = []
       then Inl (if redirect then ''redirect blocked: hostname is required'' else ''invalid URL: hostname is required'')
       else if \<not> redirect \<and> \<not> allow_private \<and> private_literal_or_local lower (u_hostname url)
       then Inl (denied_private (u_hostname url))
       else if \<not> allows_domain lower p (u_hostname url) then Inl (not_in_list redirect (u_hostname url))
       else if redirect \<and> \<not> allow_private \<and> private_literal_or_local lower (u_hostname url)
       then Inl ''redirect blocked: private/local network access denied''
       else try_bind (request url) (\<lambda>uri.
         if \<not> allow_private \<and> (case uri_host uri of None \<Rightarrow> False | Some h \<Rightarrow> private_literal_or_local lower h)
         then Inl (denied_private (u_hostname url))
         else Inr url))"

section \<open>Name resolution\<close>

record dns_cached =
  dc_addresses :: "ip_addr list"
  dc_expires :: nat

type_synonym dns_cache = "(string, dns_cached) btmap"

datatype record_kind = RecA | RecAAAA

datatype rdata = RA ip_addr | RAAAA ip_addr | ROther

text \<open>The answer section of a DNS-over-HTTPS response: the addresses and the least TTL.\<close>

definition doh_answers :: "(rdata \<times> nat) list \<Rightarrow> ip_addr list \<times> nat" where
  "doh_answers answers =
     fold (\<lambda>(data, ttl) (addresses, least).
        case data of
          RA a \<Rightarrow> (addresses @ [a], min least ttl)
        | RAAAA a \<Rightarrow> (addresses @ [a], min least ttl)
        | ROther \<Rightarrow> (addresses, least)) answers ([], 2 ^ 32 - 1)"

definition doh_response ::
  "bool \<Rightarrow> (string, bool \<times> bool \<times> (rdata \<times> nat) list) result \<Rightarrow> (string, ip_addr list \<times> nat) result" where
  "doh_response http_ok message =
     (if \<not> http_ok then Inl ''DoH HTTP failure''
      else try_bind message (\<lambda>(no_error, is_response, answers).
        if \<not> no_error \<or> \<not> is_response then Inl ''DoH DNS failure'' else Inr (doh_answers answers)))"

definition found_addresses :: "(string, ip_addr list \<times> nat) result \<Rightarrow> bool" where
  "found_addresses r = (case r of Inr (addresses, _) \<Rightarrow> addresses \<noteq> [] | Inl _ \<Rightarrow> False)"

definition query_upstream ::
  "('up \<Rightarrow> string \<Rightarrow> record_kind \<Rightarrow> (string, ip_addr list \<times> nat) result) \<Rightarrow> string \<Rightarrow> 'up \<Rightarrow>
   (string, ip_addr list \<times> nat) result" where
  "query_upstream query host up =
     (case query up host RecA of
        Inr ([], _) \<Rightarrow> query up host RecAAAA
      | r \<Rightarrow> r)"

fun query_upstreams ::
  "('up \<Rightarrow> string \<Rightarrow> record_kind \<Rightarrow> (string, ip_addr list \<times> nat) result) \<Rightarrow> string \<Rightarrow> 'up list \<Rightarrow>
   (string, ip_addr list \<times> nat) result \<Rightarrow> (string, ip_addr list \<times> nat) result" where
  "query_upstreams query host [] result = result"
| "query_upstreams query host (up # ups) result =
     (let r = query_upstream query host up in
      if found_addresses r then r else query_upstreams query host ups r)"

definition dns_outcome :: "(string, ip_addr list \<times> nat) result \<Rightarrow> ip_addr list \<times> nat" where
  "dns_outcome r =
     (case r of
        Inr (addresses, ttl) \<Rightarrow> if addresses \<noteq> [] then (addresses, max 60 (min ttl 1800)) else ([], 30)
      | Inl _ \<Rightarrow> ([], 30))"

text \<open>The two critical sections of \<open>fallback\<close>: the cache probe, and the store after the queries.\<close>

definition dns_get :: "string \<Rightarrow> nat \<Rightarrow> dns_cache \<Rightarrow> ip_addr list option" where
  "dns_get k now cache =
     (case bt_get cache k of
        None \<Rightarrow> None
      | Some e \<Rightarrow> if now < dc_expires e then Some (dc_addresses e) else None)"

definition dns_make_room :: "nat \<Rightarrow> dns_cache \<Rightarrow> dns_cache" where
  "dns_make_room now cache =
     (if length cache \<ge> 256 then
        (let kept = bt_retain (\<lambda>_ e. now < dc_expires e) cache in
         if length kept \<ge> 256 then bt_empty else kept)
      else cache)"

definition dns_put :: "nat \<Rightarrow> string \<Rightarrow> ip_addr list \<times> nat \<Rightarrow> dns_cache \<Rightarrow> dns_cache" where
  "dns_put now k out cache =
     bt_insert k \<lparr>dc_addresses = fst out, dc_expires = now + snd out\<rparr> (dns_make_room now cache)"

definition fallback ::
  "(string \<Rightarrow> string) \<Rightarrow> ('up \<Rightarrow> string \<Rightarrow> record_kind \<Rightarrow> (string, ip_addr list \<times> nat) result) \<Rightarrow> 'up list \<Rightarrow>
   nat \<Rightarrow> nat \<Rightarrow> dns_cache \<Rightarrow> string \<Rightarrow> dns_cache \<Rightarrow> (string, ip_addr list) result \<times> dns_cache" where
  "fallback lower query upstreams before after probed host cache =
     (case dns_get (lower host) before probed of
        Some addresses \<Rightarrow>
          (if addresses = [] then Inl ''cached DNS lookup failure'' else Inr addresses, cache)
      | None \<Rightarrow>
          (let out = dns_outcome (query_upstreams query host upstreams (Inl ''DNS-over-HTTPS lookup failed''))
           in (if fst out = [] then Inl ''DNS-over-HTTPS returned no addresses'' else Inr (fst out),
               dns_put after (lower host) out cache)))"

definition filter_addresses :: "bool \<Rightarrow> string \<Rightarrow> ip_addr list \<Rightarrow> (string, ip_addr list) result" where
  "filter_addresses allow_private host addresses =
     (let permitted = filter (\<lambda>a. allow_private \<or> \<not> is_private_ip a) addresses in
      if permitted = []
      then Inl (''network access denied: no permitted DNS addresses for '' @ [CHR 0x27] @ host @ [CHR 0x27])
      else Inr permitted)"

text \<open>\<open>resolve\<close>; the cache seen by the probe (\<open>probed\<close>) and by the store may differ.\<close>

definition dns_resolve ::
  "(string \<Rightarrow> string) \<Rightarrow> ('up \<Rightarrow> string \<Rightarrow> record_kind \<Rightarrow> (string, ip_addr list \<times> nat) result) \<Rightarrow> 'up list \<Rightarrow>
   nat \<Rightarrow> nat \<Rightarrow> dns_cache \<Rightarrow> (string, ip_addr list) result \<Rightarrow> bool \<Rightarrow> string \<Rightarrow> dns_cache \<Rightarrow>
   (string, ip_addr list) result \<times> dns_cache" where
  "dns_resolve lower query upstreams before after probed looked_up allow_private host cache =
     (case looked_up of
        Inr addresses \<Rightarrow> (filter_addresses allow_private host addresses, cache)
      | Inl original \<Rightarrow>
          if upstreams = [] then (Inl original, cache)
          else (let (r, cache') = fallback lower query upstreams before after probed host cache
                in (try_bind r (filter_addresses allow_private host), cache')))"

section \<open>The private ranges as networks\<close>

definition v4_value :: "u8 \<Rightarrow> u8 \<Rightarrow> u8 \<Rightarrow> u8 \<Rightarrow> nat" where
  "v4_value a b c d = ((unat a * 256 + unat b) * 256 + unat c) * 256 + unat d"

definition in_net :: "nat \<Rightarrow> nat \<times> nat \<Rightarrow> bool" where
  "in_net v net \<longleftrightarrow> v div 2 ^ (32 - snd net) = fst net div 2 ^ (32 - snd net)"

text \<open>127/8, 10/8, 172.16/12, 192.168/16, 169.254/16, 224/4, 0.0.0.0/32 and 255.255.255.255/32.\<close>

definition private_nets :: "(nat \<times> nat) list" where
  "private_nets =
     [(v4_value 127 0 0 0, 8), (v4_value 10 0 0 0, 8), (v4_value 172 16 0 0, 12), (v4_value 192 168 0 0, 16),
      (v4_value 169 254 0 0, 16), (v4_value 224 0 0 0, 4), (v4_value 0 0 0 0, 32), (v4_value 255 255 255 255, 32)]"

lemma private_v4_nat:
  fixes a b c d :: nat
  assumes "b < 256" "c < 256" "d < 256"
  shows "(((a * 256 + b) * 256 + c) * 256 + d) div 16777216 = a"
    and "(((a * 256 + b) * 256 + c) * 256 + d) div 1048576 = a * 16 + b div 16"
    and "(((a * 256 + b) * 256 + c) * 256 + d) div 65536 = a * 256 + b"
    and "(((a * 256 + b) * 256 + c) * 256 + d) div 268435456 = a div 16"
proof -
  let ?v = "((a * 256 + b) * 256 + c) * 256 + d"
  have "?v div 65536 = ?v div 256 div 256" using div_mult2_eq [of ?v 256 256] by simp
  then show p16: "?v div 65536 = a * 256 + b" using assms by simp
  have "?v div 16777216 = ?v div 65536 div 256" using div_mult2_eq [of ?v 65536 256] by simp
  then show p24: "?v div 16777216 = a" using assms p16 by simp
  have "?v div 1048576 = ?v div 65536 div 16" using div_mult2_eq [of ?v 65536 16] by simp
  also have "\<dots> = (a * 256 + b) div 16" by (simp only: p16)
  also have "\<dots> = a * 16 + b div 16" by presburger
  finally show "?v div 1048576 = a * 16 + b div 16" .
  have "?v div 268435456 = ?v div 16777216 div 16" using div_mult2_eq [of ?v 16777216 16] by simp
  then show "?v div 268435456 = a div 16" by (simp only: p24)
qed

lemma is_private_v4_nets: "is_private_v4 a b c d \<longleftrightarrow> list_ex (in_net (v4_value a b c d)) private_nets"
proof -
  obtain x y z w where n: "x = unat a" "y = unat b" "z = unat c" "w = unat d" by blast
  have lt: "x < 256" "y < 256" "z < 256" "w < 256"
    using unsigned_less [of a] unsigned_less [of b] unsigned_less [of c] unsigned_less [of d] n by simp_all
  have words: "a = k \<longleftrightarrow> x = unat k" "b = k \<longleftrightarrow> y = unat k" "c = k \<longleftrightarrow> z = unat k" "d = k \<longleftrightarrow> w = unat k" for k
    unfolding n by (rule word_unat_eq_iff)+
  have le: "k \<le> a \<longleftrightarrow> unat k \<le> x" "a \<le> k \<longleftrightarrow> x \<le> unat k" "k \<le> b \<longleftrightarrow> unat k \<le> y" "b \<le> k \<longleftrightarrow> y \<le> unat k" for k
    unfolding n by (rule word_le_nat_alt)+
  have v: "v4_value a b c d = ((x * 256 + y) * 256 + z) * 256 + w" by (simp add: v4_value_def n)
  have twelve: "x * 16 + y div 16 = 2753 \<longleftrightarrow> x = 172 \<and> 16 \<le> y \<and> y \<le> 31" 
  proof -
    have "x = 172" if "q < 16" "x * 16 + q = 2753" for q using that by linarith
    then have "x * 16 + q = 2753 \<longleftrightarrow> x = 172 \<and> q = 1" if "q < 16" for q using that by fastforce
    moreover have "y div 16 < 16" using lt by linarith
    moreover have "y div 16 = 1 \<longleftrightarrow> 16 \<le> y \<and> y \<le> 31" by (intro iffI conjI; (elim conjE)?; linarith)
    ultimately show ?thesis by simp
  qed
  have four: "x div 16 = 14 \<longleftrightarrow> 224 \<le> x \<and> x \<le> 239" by (intro iffI conjI; (elim conjE)?; linarith)
  have "x = 192" if "x * 256 + y = 49320" using that lt by linarith
  moreover have "x = 169" if "x * 256 + y = 43518" using that lt by linarith
  ultimately have sixteen: "x * 256 + y = 49320 \<longleftrightarrow> x = 192 \<and> y = 168" "x * 256 + y = 43518 \<longleftrightarrow> x = 169 \<and> y = 254"
    by auto
  have all: "((x * 256 + y) * 256 + z) * 256 + w = 4294967295 \<longleftrightarrow> x = 255 \<and> y = 255 \<and> z = 255 \<and> w = 255"
  proof
    assume v: "((x * 256 + y) * 256 + z) * 256 + w = 4294967295"
    have "x = 4294967295 div 16777216" using private_v4_nat(1) [OF lt(2-4), of x] unfolding v by (rule sym)
    moreover have "x * 256 + y = 4294967295 div 65536"
      using private_v4_nat(3) [OF lt(2-4), of x] unfolding v by (rule sym)
    ultimately have xy: "x = 255" "y = 255" by simp_all
    with v lt have "z = 255" by simp
    with v xy show "x = 255 \<and> y = 255 \<and> z = 255 \<and> w = 255" by simp
  qed simp
  have nets: "list_ex (in_net (v4_value a b c d)) private_nets \<longleftrightarrow>
      x = 127 \<or> x = 10 \<or> (x = 172 \<and> 16 \<le> y \<and> y \<le> 31) \<or> (x = 192 \<and> y = 168) \<or> (x = 169 \<and> y = 254) \<or>
      (224 \<le> x \<and> x \<le> 239) \<or> (x = 0 \<and> y = 0 \<and> z = 0 \<and> w = 0) \<or> (x = 255 \<and> y = 255 \<and> z = 255 \<and> w = 255)"
  proof -
    obtain V where V: "V = ((x * 256 + y) * 256 + z) * 256 + w" by blast
    have divs: "V div 16777216 = x" "V div 1048576 = x * 16 + y div 16" "V div 65536 = x * 256 + y"
      "V div 268435456 = x div 16" "V = 4294967295 \<longleftrightarrow> x = 255 \<and> y = 255 \<and> z = 255 \<and> w = 255"
      unfolding V by (rule private_v4_nat [OF lt(2-4)] all)+
    have zero: "V = 0 \<longleftrightarrow> x = 0 \<and> y = 0 \<and> z = 0 \<and> w = 0" by (simp add: V)
    show ?thesis
      unfolding v V [symmetric] private_nets_def in_net_def
      by (simp add: v4_value_def divs zero twelve four sixteen)
  qed
  show ?thesis
    unfolding nets is_private_v4_def v4_loopback_def v4_private_def v4_link_local_def v4_multicast_def words le
    by auto
qed

definition mapped_v4 :: "u8 \<Rightarrow> u8 \<Rightarrow> u8 \<Rightarrow> u8 \<Rightarrow> ip_addr" where
  "mapped_v4 a b c d =
     V6 [0, 0, 0, 0, 0, 0xffff, push_bit 8 (ucast a) OR ucast b, push_bit 8 (ucast c) OR ucast d]"

lemma join_bytes:
  "ucast (drop_bit 8 (push_bit 8 (ucast a) OR ucast b :: u16)) = (a :: u8)"
  "ucast (push_bit 8 (ucast a) OR ucast b :: u16) = (b :: u8)"
  by (rule bit_word_eqI; auto simp: bit_simps dest: bit_imp_le_length)+

lemma mapped_v4_back: "\<exists>segs. mapped_v4 a b c d = V6 segs \<and> to_ipv4_mapped segs = Some (V4 a b c d)"
  unfolding mapped_v4_def to_ipv4_mapped_def by (simp add: join_bytes [simplified])

text \<open>
  An IPv6 address read as a number of 128 bits, so that its networks are prefixes of numbers as
  the IPv4 ones are.
\<close>

definition v6_value :: "u16 list \<Rightarrow> nat" where
  "v6_value segs = foldl (\<lambda>v s. 65536 * v + unat s) 0 segs"

definition in_v6_net :: "nat \<Rightarrow> nat \<times> nat \<Rightarrow> bool" where
  "in_v6_net v net \<longleftrightarrow> v div 2 ^ (128 - snd net) = fst net div 2 ^ (128 - snd net)"

text \<open>\<open>::1/128\<close>, \<open>::/128\<close>, \<open>fc00::/7\<close>, \<open>fe80::/10\<close>, \<open>ff00::/8\<close>, and the IPv4 networks below \<open>::ffff:0:0/96\<close>.\<close>

definition private_v6_nets :: "(nat \<times> nat) list" where
  "private_v6_nets = [(1, 128), (0, 128), (0xfc00 * 2 ^ 112, 7), (0xfe80 * 2 ^ 112, 10), (0xff00 * 2 ^ 112, 8)]"

definition mapped_nets :: "(nat \<times> nat) list" where
  "mapped_nets = map (\<lambda>(base, len). (0xffff * 2 ^ 32 + base, 96 + len)) private_nets"

lemma unat_drop_segment: "unat (drop_bit n s :: u16) = unat s div 2 ^ n"
proof -
  have "unat s < 2 ^ 16" using unsigned_less [of s] by simp
  then show ?thesis unfolding unsigned_drop_bit_eq by (simp add: drop_bit_eq_div take_bit_nat_eq_self)
qed

lemma unat_and_not_mask: "unat (s AND NOT (mask n) :: u16) = unat s div 2 ^ n * 2 ^ n"
proof -
  have "s AND NOT (mask n) = push_bit n (drop_bit n s)"
    by (rule bit_word_eqI) (auto simp: bit_simps)
  moreover have "unat (push_bit n (drop_bit n s)) = unat s div 2 ^ n * 2 ^ n mod 2 ^ 16"
    unfolding unsigned_push_bit_eq unat_drop_segment by (simp only: push_bit_eq_mult take_bit_eq_mod) simp
  ultimately have "unat (s AND NOT (mask n)) = unat s div 2 ^ n * 2 ^ n mod 2 ^ 16" by (simp only:)
  moreover have "unat s div 2 ^ n * 2 ^ n < 2 ^ 16"
    using unsigned_less [of s] by (intro le_less_trans [OF div_times_less_eq_dividend]) simp
  ultimately show ?thesis by simp
qed

lemma masked_segment:
  fixes s :: u16
  shows "(s AND 0xfe00) = 0xfc00 \<longleftrightarrow> unat s div 512 = 126"
    and "(s AND 0xffc0) = 0xfe80 \<longleftrightarrow> unat s div 64 = 1018"
    and "(s AND 0xff00) = 0xff00 \<longleftrightarrow> unat s div 256 = 255"
proof -
  have masks: "(0xfe00 :: u16) = NOT (mask 9)" "(0xffc0 :: u16) = NOT (mask 6)" "(0xff00 :: u16) = NOT (mask 8)"
    by (simp_all add: mask_eq_exp_minus_1)
  show "(s AND 0xfe00) = 0xfc00 \<longleftrightarrow> unat s div 512 = 126"
    unfolding masks(1) word_unat_eq_iff unat_and_not_mask by simp
  show "(s AND 0xffc0) = 0xfe80 \<longleftrightarrow> unat s div 64 = 1018"
    unfolding masks(2) word_unat_eq_iff unat_and_not_mask by simp
  show "(s AND 0xff00) = 0xff00 \<longleftrightarrow> unat s div 256 = 255"
    using unat_and_not_mask [of s 8] unfolding masks(3) [symmetric] word_unat_eq_iff by simp
qed

lemma v6_value_inject: "length a = length b \<Longrightarrow> v6_value a = v6_value b \<longleftrightarrow> a = b"
proof (induction a arbitrary: b rule: rev_induct)
  case (snoc x a)
  then obtain y c where b: "b = c @ [y]" "length a = length c" by (cases b rule: rev_cases) auto
  have lt: "unat x < 65536" "unat y < 65536" using unsigned_less [of x] unsigned_less [of y] by simp_all
  have "v = w" if "65536 * v + unat x = 65536 * w + unat y" for v w
  proof -
    have "(65536 * v + unat x) div 65536 = v" "(65536 * w + unat y) div 65536 = w" using lt by simp_all
    with that show ?thesis by simp
  qed
  then have "65536 * v + unat x = 65536 * w + unat y \<longleftrightarrow> v = w \<and> unat x = unat y" for v w
    by (metis add_left_cancel)
  with snoc.IH [OF b(2)] show ?case by (auto simp: b v6_value_def word_unat_eq_iff)
qed simp

lemma v6_value_bound: "v6_value segs < 65536 ^ length segs"
proof (induction segs rule: rev_induct)
  case (snoc x a)
  have "unat x < 65536" using unsigned_less [of x] by simp
  with snoc have "65536 * v6_value a + unat x < 65536 * (v6_value a + 1)" "v6_value a + 1 \<le> 65536 ^ length a" by simp_all
  then have "65536 * v6_value a + unat x < 65536 * 65536 ^ length a" by (metis less_le_trans mult_le_mono2)
  then show ?case by (simp add: v6_value_def)
qed (simp add: v6_value_def)

lemma v6_value_append: "v6_value (a @ b) = v6_value a * 65536 ^ length b + v6_value b"
proof (induction b rule: rev_induct)
  case (snoc x b)
  have "v6_value (a @ b @ [x]) = 65536 * v6_value (a @ b) + unat x" "v6_value (b @ [x]) = 65536 * v6_value b + unat x"
    by (simp_all add: v6_value_def)
  with snoc show ?case by (simp add: algebra_simps)
qed (simp add: v6_value_def)

lemma v6_value_div: "v6_value (a @ b) div 65536 ^ length b = v6_value a"
  using v6_value_bound [of b] by (simp add: v6_value_append)

lemma eight_segments: "length segs = 8 \<Longrightarrow> \<exists>a b c d e f g h. segs = [a, b, c, d, e, f, g, h]"
  by (auto simp: length_Suc_conv numeral_eq_Suc)

lemma div_power_div: "(v :: nat) div 2 ^ (m + n) = v div 2 ^ m div 2 ^ n"
  by (simp add: power_add div_mult2_eq)

lemma first_segment_nets:
  assumes "v div 2 ^ 112 = s" 
  shows "in_v6_net v (0xfc00 * 2 ^ 112, 7) \<longleftrightarrow> s div 512 = 126"
    "in_v6_net v (0xfe80 * 2 ^ 112, 10) \<longleftrightarrow> s div 64 = 1018"
    "in_v6_net v (0xff00 * 2 ^ 112, 8) \<longleftrightarrow> s div 256 = 255"
proof -
  have "v div 2 ^ (112 + 9) = s div 2 ^ 9" "v div 2 ^ (112 + 6) = s div 2 ^ 6" "v div 2 ^ (112 + 8) = s div 2 ^ 8"
    unfolding div_power_div assms by (rule refl)+
  then show "in_v6_net v (0xfc00 * 2 ^ 112, 7) \<longleftrightarrow> s div 512 = 126"
    "in_v6_net v (0xfe80 * 2 ^ 112, 10) \<longleftrightarrow> s div 64 = 1018"
    "in_v6_net v (0xff00 * 2 ^ 112, 8) \<longleftrightarrow> s div 256 = 255"
    by (simp_all add: in_v6_net_def)
qed

lemma mapped_net:
  assumes "len \<le> 32" "low < 2 ^ 32" "base < 2 ^ 32"
  shows "in_v6_net (hi * 2 ^ 32 + low) (0xffff * 2 ^ 32 + base, 96 + len) \<longleftrightarrow> hi = 0xffff \<and> in_net low (base, len)"
proof -
  define k where "k = 32 - len"
  have k: "32 = k + len" "128 - (96 + len) = k" "32 - len = k" using assms(1) by (simp_all add: k_def)
  have p: "(2::nat) ^ 32 = 2 ^ len * 2 ^ k" using k(1) by (metis add.commute power_add)
  have split: "(x * 2 ^ 32 + y) div 2 ^ k = x * 2 ^ len + y div 2 ^ k" for x y :: nat
  proof -
    have "x * 2 ^ 32 + y = y + x * 2 ^ len * 2 ^ k" unfolding p by simp
    then show ?thesis by (simp only: div_mult_self1 power_eq_0_iff) simp
  qed
  have small: "y div 2 ^ k < 2 ^ len" if "y < 2 ^ 32" for y :: nat
    using that unfolding p by (simp add: div_less_iff_less_mult)
  have "hi = 0xffff" if "hi * 2 ^ len + low div 2 ^ k = 0xffff * 2 ^ len + base div 2 ^ k"
  proof -
    have "(hi * 2 ^ len + low div 2 ^ k) div 2 ^ len = hi" "(0xffff * 2 ^ len + base div 2 ^ k) div 2 ^ len = 0xffff"
      using small assms(2,3) by simp_all
    with that show ?thesis by simp
  qed
  then have "hi * 2 ^ len + low div 2 ^ k = 0xffff * 2 ^ len + base div 2 ^ k \<longleftrightarrow>
      hi = 0xffff \<and> low div 2 ^ k = base div 2 ^ k"
    by auto
  then show ?thesis unfolding in_v6_net_def in_net_def fst_conv snd_conv k(2,3) split .
qed


lemma mapped_nets_iff:
  assumes "low < 2 ^ 32"
  shows "list_ex (in_v6_net (hi * 2 ^ 32 + low)) mapped_nets \<longleftrightarrow> hi = 0xffff \<and> list_ex (in_net low) private_nets"
proof -
  have "len \<le> 32 \<and> base < 2 ^ 32" if "(base, len) \<in> set private_nets" for base len
    using that by (auto simp: private_nets_def v4_value_def)
  then have "in_v6_net (hi * 2 ^ 32 + low) (0xffff * 2 ^ 32 + fst net, 96 + snd net) \<longleftrightarrow> hi = 0xffff \<and> in_net low net"
    if "net \<in> set private_nets" for net
    using mapped_net [OF _ assms, of "snd net" "fst net" hi] that by (cases net) auto
  then show ?thesis unfolding mapped_nets_def list_ex_iff by (force simp: case_prod_beta)
qed

lemma segment_bytes:
  fixes s :: u16
  shows "unat (ucast (drop_bit 8 s) :: u8) * 256 + unat (ucast s :: u8) = unat s"
proof -
  have "unat s < 65536" using unsigned_less [of s] by simp
  then have "unat (ucast (drop_bit 8 s) :: u8) = unat s div 256" "unat (ucast s :: u8) = unat s mod 256"
    unfolding unsigned_ucast_eq unat_drop_segment take_bit_eq_mod by simp_all
  then show ?thesis by simp
qed

lemma v6_halves:
  assumes "length segs = 8"
  obtains a b c d where
    "to_ipv4_mapped segs = (if v6_value (take 6 segs) = 0xffff then Some (V4 a b c d) else None)"
    "v6_value segs = v6_value (take 6 segs) * 2 ^ 32 + v4_value a b c d" "v4_value a b c d < 2 ^ 32"
proof -
  let ?s = "segs ! 6" and ?t = "segs ! 7"
  have segs: "segs = take 6 segs @ [?s, ?t]" using eight_segments [OF assms] by auto
  have low: "v6_value [?s, ?t] = 65536 * unat ?s + unat ?t" by (simp add: v6_value_def)
  have "v6_value [0, 0, 0, 0, 0, 0xffff] = 0xffff" by (simp add: v6_value_def)
  then have "take 6 segs = [0, 0, 0, 0, 0, 0xffff] \<longleftrightarrow> v6_value (take 6 segs) = 0xffff"
    using v6_value_inject [of "take 6 segs" "[0, 0, 0, 0, 0, 0xffff]"] assms by simp
  moreover have "v4_value (ucast (drop_bit 8 ?s)) (ucast ?s) (ucast (drop_bit 8 ?t)) (ucast ?t) = v6_value [?s, ?t]"
    unfolding v4_value_def low segment_bytes using segment_bytes [of ?t] by simp
  moreover have "v6_value segs = v6_value (take 6 segs) * 2 ^ 32 + v6_value [?s, ?t]"
    using v6_value_append [of "take 6 segs" "[?s, ?t]"] segs by simp
  moreover have "v6_value [?s, ?t] < 2 ^ 32" using v6_value_bound [of "[?s, ?t]"] by simp
  ultimately show thesis using that unfolding to_ipv4_mapped_def by presburger
qed

lemma native_nets_iff:
  assumes "length segs = 8"
  shows "list_ex (in_v6_net (v6_value segs)) private_v6_nets \<longleftrightarrow>
    segs = [0, 0, 0, 0, 0, 0, 0, 1] \<or> (segs ! 0 AND 0xfe00) = 0xfc00 \<or>
    (segs ! 0 AND 0xffc0) = 0xfe80 \<or> (segs ! 0 AND 0xff00) = 0xff00 \<or> segs = [0, 0, 0, 0, 0, 0, 0, 0]"
proof -
  obtain s rest where segs: "segs = [s] @ rest" "length rest = 7" using assms by (cases segs) auto
  have "v6_value segs div 2 ^ 112 = unat s"
    using v6_value_div [of "[s]" rest] unfolding segs by (simp add: v6_value_def)
  note nets = first_segment_nets [OF this]
  have "in_v6_net (v6_value segs) (1, 128) \<longleftrightarrow> segs = [0, 0, 0, 0, 0, 0, 0, 1]"
    using v6_value_inject [of segs "[0, 0, 0, 0, 0, 0, 0, 1]"] assms by (simp add: in_v6_net_def v6_value_def)
  moreover have "in_v6_net (v6_value segs) (0, 128) \<longleftrightarrow> segs = [0, 0, 0, 0, 0, 0, 0, 0]"
    using v6_value_inject [of segs "[0, 0, 0, 0, 0, 0, 0, 0]"] assms by (simp add: in_v6_net_def v6_value_def)
  moreover have "segs ! 0 = s" by (simp add: segs)
  ultimately show ?thesis unfolding private_v6_nets_def list_ex_iff list.set masked_segment using nets by auto
qed

lemma mapped_not_native:
  assumes "length segs = 8" "v6_value (take 6 segs) = 0xffff"
  shows "\<not> list_ex (in_v6_net (v6_value segs)) private_v6_nets"
proof -
  have "v6_value [0, 0, 0, 0, 0, 0xffff] = 0xffff" by (simp add: v6_value_def)
  then have "take 6 segs = [0, 0, 0, 0, 0, 0xffff]"
    using v6_value_inject [of "take 6 segs" "[0, 0, 0, 0, 0, 0xffff]"] assms by simp
  moreover have "segs ! 0 = take 6 segs ! 0" "segs ! 5 = take 6 segs ! 5" by simp_all
  ultimately have "segs ! 0 = 0" "segs ! 5 = 0xffff" by simp_all
  then show ?thesis unfolding native_nets_iff [OF assms(1)] by auto
qed

lemma is_private_v6_nets:
  assumes "length segs = 8"
  shows "is_private_ip (V6 segs) \<longleftrightarrow> list_ex (in_v6_net (v6_value segs)) (private_v6_nets @ mapped_nets)"
proof -
  obtain a b c d where h: "to_ipv4_mapped segs = (if v6_value (take 6 segs) = 0xffff then Some (V4 a b c d) else None)"
    "v6_value segs = v6_value (take 6 segs) * 2 ^ 32 + v4_value a b c d" "v4_value a b c d < 2 ^ 32"
    by (rule v6_halves [OF assms])
  have m: "list_ex (in_v6_net (v6_value segs)) mapped_nets \<longleftrightarrow>
      v6_value (take 6 segs) = 0xffff \<and> is_private_v4 a b c d"
    unfolding h(2) mapped_nets_iff [OF h(3)] is_private_v4_nets by (rule refl)
  show ?thesis
    using mapped_not_native [OF assms] by (simp add: is_private_ip_def m h(1) native_nets_iff [OF assms])
qed

section \<open>Permissions\<close>

lemma wildcard_matches:
  "domain_matches (''*.'' @ suffix) domain \<longleftrightarrow>
     domain = ''*.'' @ suffix \<or> (\<exists>sub. sub \<noteq> [] \<and> domain = sub @ ''.'' @ suffix)"
proof -
  have "length domain > length suffix + 1 \<and> ends_with domain (''.'' @ suffix) \<longleftrightarrow>
      (\<exists>sub. sub \<noteq> [] \<and> domain = sub @ ''.'' @ suffix)"
    by (auto simp: ends_with_iff)
  then show ?thesis by (auto simp: domain_matches_def strip_prefix_def)
qed

lemma filter_addresses_ok:
  "filter_addresses allow_private host addresses = Inr permitted \<Longrightarrow>
     permitted \<noteq> [] \<and> set permitted \<subseteq> set addresses \<and> (\<forall>a \<in> set permitted. allow_private \<or> \<not> is_private_ip a)"
  by (auto simp: filter_addresses_def Let_def split: if_splits)

lemma dns_resolve_ok:
  "fst (dns_resolve lower query ups before after probed looked_up allow_private host cache) = Inr permitted \<Longrightarrow>
     permitted \<noteq> [] \<and> (\<forall>a \<in> set permitted. allow_private \<or> \<not> is_private_ip a)"
  by (auto simp: dns_resolve_def try_bind_eq_Inr dest: filter_addresses_ok split: sum.splits if_splits prod.splits)

section \<open>The DNS cache\<close>

lemma dns_make_room_get:
  assumes "bt_wf cache"
  shows "bt_get (dns_make_room now cache) k = None \<or> bt_get (dns_make_room now cache) k = bt_get cache k"
  using bt_get_retain [OF assms, of _ k]
  by (auto simp: dns_make_room_def Let_def bt.get_empty split: option.splits)

interpretation answers: bounded_cache length dns_get dns_put fst snd bt_wf 256
proof unfold_locales
  fix c :: dns_cache and k k' later now and out :: "ip_addr list \<times> nat"
  assume wf: "bt_wf c"
  have wfr: "bt_wf (dns_make_room now c)" using wf by (simp add: dns_make_room_def Let_def)
  have small: "length (dns_make_room now c) < 256" by (simp add: dns_make_room_def Let_def bt_empty_def)
  show "length (dns_put now k out c) \<le> 256"
    unfolding dns_put_def using small bt_insert_length by (meson Suc_leI le_trans)
  show "bt_wf (dns_put now k out c)" using wfr by (simp add: dns_put_def)
  show "dns_get k later (dns_put now k out c) = (if later < now + snd out then Some (fst out) else None)"
    using wfr by (simp add: dns_get_def dns_put_def bt_get_insert)
  assume "k' \<noteq> k"
  then show "dns_get k' later (dns_put now k out c) = None \<or>
      dns_get k' later (dns_put now k out c) = dns_get k' later c"
    using wfr dns_make_room_get [OF wf, of now k'] by (auto simp: dns_get_def dns_put_def bt_get_insert)
qed

section \<open>Properties\<close>

text \<open>
  C36. The address check covers exactly the private networks. An IPv4 address is refused if and
  only if it lies in one of the eight networks of \<open>private_nets\<close>; writing it as an IPv4-mapped IPv6
  address changes nothing; and an IPv6 address of eight segments is refused if and only if it lies
  in \<open>::1/128\<close>, \<open>::/128\<close>, \<open>fc00::/7\<close>, \<open>fe80::/10\<close>, \<open>ff00::/8\<close> or one of those eight networks below
  \<open>::ffff:0:0/96\<close>.
\<close>

theorem private_ranges_are_exact:
  "(is_private_ip (V4 a b c d) \<longleftrightarrow> list_ex (in_net (v4_value a b c d)) private_nets) \<and>
   is_private_ip (mapped_v4 a b c d) = is_private_ip (V4 a b c d) \<and>
   (length segs = 8 \<longrightarrow>
      (is_private_ip (V6 segs) \<longleftrightarrow> list_ex (in_v6_net (v6_value segs)) (private_v6_nets @ mapped_nets)))"
proof (intro conjI impI)
  show "is_private_ip (V4 a b c d) \<longleftrightarrow> list_ex (in_net (v4_value a b c d)) private_nets"
    by (simp add: is_private_ip_def is_private_v4_nets)
  show "is_private_ip (mapped_v4 a b c d) = is_private_ip (V4 a b c d)"
    using mapped_v4_back [of a b c d] by (auto simp: is_private_ip_def)
qed (rule is_private_v6_nets)

theorem private_ranges_are_exact_witness:
  "length [0xfd12 :: u16, 0, 0, 0, 0, 0, 0, 7] = 8 \<and> is_private_ip (V6 [0xfd12, 0, 0, 0, 0, 0, 0, 7]) \<and>
   \<not> is_private_ip (V6 [0x2001, 0xdb8, 0, 0, 0, 0, 0, 7])"
  using private_ranges_are_exact [of 0 0 0 0 "[0xfd12, 0, 0, 0, 0, 0, 0, 7]"]
    private_ranges_are_exact [of 0 0 0 0 "[0x2001, 0xdb8, 0, 0, 0, 0, 0, 7]"]
  by (simp add: in_v6_net_def v6_value_def private_v6_nets_def mapped_nets_def private_nets_def v4_value_def)

text \<open>
  C22. What passes validation: the scheme is https (or http where that is allowed), there are no
  embedded credentials, some permitted pattern matches the host name, where a pattern \<open>*.s\<close> admits
  exactly the proper subdomains of \<open>s\<close> (and the literal text), and without the private-network
  permission neither the host name nor the host of the request that is sent is local or private.
\<close>

theorem validated_urls_are_permitted:
  assumes "validate lower request uri_host p input allow_private redirect = Inr url"
  shows "(u_scheme url = ''https'' \<or> np_allow_http p \<and> u_scheme url = ''http'') \<and>
    \<not> u_has_credentials url \<and> u_hostname url \<noteq> [] \<and>
    (\<exists>pattern \<in> set (np_domains p).
       lower (trim pattern) = ''*'' \<or> lower (trim pattern) = lower (trim (u_hostname url)) \<or>
       (\<exists>suffix sub. lower (trim pattern) = ''*.'' @ suffix \<and> sub \<noteq> [] \<and>
          lower (trim (u_hostname url)) = sub @ ''.'' @ suffix)) \<and>
    (\<not> allow_private \<longrightarrow> \<not> private_literal_or_local lower (u_hostname url) \<and>
       (\<exists>uri. request url = Inr uri \<and> (\<forall>h. uri_host uri = Some h \<longrightarrow> \<not> private_literal_or_local lower h)))"
proof -
  have dom: "\<exists>pattern \<in> set (np_domains p).
       lower (trim pattern) = ''*'' \<or> lower (trim pattern) = lower (trim h) \<or>
       (\<exists>suffix sub. lower (trim pattern) = ''*.'' @ suffix \<and> sub \<noteq> [] \<and> lower (trim h) = sub @ ''.'' @ suffix)"
    if "allows_domain lower p h" for h
  proof -
    from that obtain pattern where pat: "pattern \<in> set (np_domains p)"
      "domain_matches (lower (trim pattern)) (lower (trim h))"
      by (auto simp: allows_domain_def list_ex_iff)
    show ?thesis
    proof (cases "strip_prefix ''*.'' (lower (trim pattern))")
      case None
      with pat show ?thesis by (auto simp: domain_matches_def)
    next
      case (Some suffix)
      then have suffix: "lower (trim pattern) = ''*.'' @ suffix" by (simp add: strip_prefix_Some)
      with pat wildcard_matches [of suffix] show ?thesis by metis
    qed
  qed
  from assms have passed: "u_scheme url = ''https'' \<or> np_allow_http p \<and> u_scheme url = ''http''"
    "\<not> u_has_credentials url" "u_hostname url \<noteq> []" "allows_domain lower p (u_hostname url)"
    by (auto simp: validate_def try_bind_eq_Inr split: if_splits)
  from assms obtain uri where uri: "request url = Inr uri"
    "\<not> (\<not> allow_private \<and> (case uri_host uri of None \<Rightarrow> False | Some h \<Rightarrow> private_literal_or_local lower h))"
    by (auto simp: validate_def try_bind_eq_Inr split: if_splits)
  from assms have "\<not> allow_private \<longrightarrow> \<not> private_literal_or_local lower (u_hostname url)"
    by (auto simp: validate_def try_bind_eq_Inr split: if_splits)
  with passed uri dom [OF passed(4)] show ?thesis by auto
qed

definition demo_permissions :: network_permissions where
  "demo_permissions = \<lparr>np_domains = [''*.h.io''], np_allow_http = False\<rparr>"

lemma demo_url_parse:
  "url_parse ''https://y.h.io/x'' = Some \<lparr>u_scheme = ''https'', u_hostname = ''y.h.io'', u_path = ''/x'', u_raw_path = ''/x'',
     u_raw_query = [], u_force_query = False, u_fragment = [], u_port = None, u_has_credentials = False,
     u_host = ''y.h.io'', u_username = [], u_password = None, u_opaque = [], u_omit_host = False\<rparr>"
  by code_simp

lemma not_an_address:
  assumes "to_digit16 c = None" "c \<noteq> CHR '':''"
  shows "parse_ip (c # s) = None"
proof -
  have num: "read_number radix n z m (c # s) = None" for radix n z m
    using assms by (simp add: read_number_def digit_in_def Let_def)
  then have v4: "read_ipv4 (c # s) = None" by (simp add: read_ipv4_def read_octet_def read_separator_def)
  have "read_groups (Suc n) False (c # s) = ([], False, c # s)" for n
    using num v4 by (simp add: read_separator_def)
  from this [of 7] show ?thesis using v4 assms(2) by (simp add: parse_ip_def parse_ipv6_def read_given_char_def)
qed

lemma demo_host_public: "\<not> private_literal_or_local to_ascii_lowercase ''y.h.io''"
proof -
  have plain: "to_ascii_lowercase (trim_end_matches (\<lambda>c. c = CHR '']'')
      (trim_start_matches (\<lambda>c. c = CHR ''['') (trim ''y.h.io''))) = ''y.h.io''"
    and "\<not> ends_with ''y.h.io'' ''.local''" and no_digit: "to_digit16 (CHR ''y'') = None" by code_simp+
  moreover have "parse_ip ''y.h.io'' = None" using no_digit by (rule not_an_address) simp
  ultimately show ?thesis by (simp add: private_literal_or_local_def)
qed

lemma demo_allowed: "allows_domain to_ascii_lowercase demo_permissions ''y.h.io''"
  by code_simp

theorem validated_urls_are_permitted_witness:
  "\<exists>url. validate to_ascii_lowercase (\<lambda>u. Inr (u_hostname u)) Some demo_permissions ''https://y.h.io/x'' False False = Inr url \<and>
     \<not> u_has_credentials url \<and> \<not> private_literal_or_local to_ascii_lowercase (u_hostname url)"
proof -
  obtain url where v:
    "validate to_ascii_lowercase (\<lambda>u. Inr (u_hostname u)) Some demo_permissions ''https://y.h.io/x'' False False = Inr url"
    by (simp add: validate_def demo_url_parse demo_host_public demo_allowed)
  from validated_urls_are_permitted [OF v] v show ?thesis by auto
qed

lemma dns_outcome_ttl: "snd (dns_outcome r) \<le> 1800"
  by (auto simp: dns_outcome_def split: sum.splits)

text \<open>
  C37. Resolution is the second line: without the private-network permission every address handed
  to the connector is public and there is at least one, whether it came from the platform, the
  cache or an upstream. The cache of upstream answers never exceeds 256 entries, and serves only
  answers stored under that name at most 1800 seconds earlier.
\<close>

theorem dns_answers_are_public_and_fresh:
  "(fst (dns_resolve lower query ups before after probed looked_up False host cache) = Inr addrs \<longrightarrow>
      addrs \<noteq> [] \<and> (\<forall>a \<in> set addrs. \<not> is_private_ip a)) \<and>
   ((\<forall>(now, k, out) \<in> set ops. \<exists>r. out = dns_outcome r) \<longrightarrow>
      length (fold (\<lambda>(now, k, out). dns_put now k out) ops bt_empty) \<le> 256 \<and>
      (dns_get k later (fold (\<lambda>(now, k, out). dns_put now k out) ops bt_empty) = Some w \<longrightarrow>
        (\<exists>now out. (now, k, out) \<in> set ops \<and> w = fst out \<and> later < now + snd out \<and> snd out \<le> 1800)))"
proof -
  have small: "length (fold (\<lambda>(now, k, out). dns_put now k out) ops bt_empty) \<le> 256" for ops
  proof (cases ops rule: rev_cases)
    case (snoc ys y)
    with answers.store_bounded answers.ok_store_all [of bt_empty ys] show ?thesis
      by (auto simp: answers.store_all_def split_beta)
  qed (simp add: bt_empty_def)
  have "dns_get k t bt_empty = None" for k t by (simp add: dns_get_def bt.get_empty)
  with answers.answers_are_fresh [of bt_empty k later ops w] have
    "\<exists>now out. (now, k, out) \<in> set ops \<and> w = fst out \<and> later < now + snd out"
    if "dns_get k later (fold (\<lambda>(now, k, out). dns_put now k out) ops bt_empty) = Some w"
    using that by (auto simp: answers.store_all_def)
  moreover have "fst (dns_resolve lower query ups before after probed looked_up False host cache) = Inr addrs \<longrightarrow>
      addrs \<noteq> [] \<and> (\<forall>a \<in> set addrs. \<not> is_private_ip a)"
    using dns_resolve_ok by blast
  ultimately show ?thesis using small dns_outcome_ttl by fastforce
qed

theorem dns_answers_are_public_and_fresh_witness:
  "fst (dns_resolve (\<lambda>s. s) (\<lambda>_ _ _. Inr ([V4 10 0 0 1, V4 93 184 0 1], 5)) [()] 0 0 bt_empty (Inl ''down'') False ''h'' bt_empty) =
     Inr [V4 93 184 0 1] \<and> \<not> is_private_ip (V4 93 184 0 1)"
proof -
  let ?r = "fst (dns_resolve (\<lambda>s. s) (\<lambda>_ _ _. Inr ([V4 10 0 0 1, V4 93 184 0 1], 5)) [()] 0 0 bt_empty (Inl ''down'') False ''h'' bt_empty)"
  have "?r = Inr [V4 93 184 0 1]"
    by (simp add: dns_resolve_def fallback_def dns_get_def bt.get_empty query_upstream_def found_addresses_def
        dns_outcome_def filter_addresses_def is_private_ip_def is_private_v4_def v4_loopback_def v4_private_def
        v4_link_local_def v4_multicast_def Let_def)
  with dns_answers_are_public_and_fresh [where ops = "[]"] show ?thesis by fastforce
qed

end
