(* ===== verification/Transfer_Policy.thy ===== *)
theory Transfer_Policy
  imports Json_Value Float64
begin

text \<open>
  The download policy an extension declares in its manifest
  (\<open>crates/extensions/src/transfer_policy.rs\<close>). A JSON number is the rational value that
  \<open>as_f64\<close> yields; \<open>x86\<close> tells which conversion the target uses (64-bit \<open>isize\<close>), and \<open>lower\<close> is the
  Unicode lower-casing of \<open>str\<close>.
\<close>

section \<open>Number conversion\<close>

definition rounded_int :: "bool \<Rightarrow> rat \<Rightarrow> int" where
  "rounded_int x86 v =
     (let rounded = round_half_away v in
      if x86 \<and> (rounded \<ge> 2 ^ 63 \<or> rounded < isize_min) then isize_min
      else max isize_min (min rounded isize_max))"

definition json_number :: "bool \<Rightarrow> json option \<Rightarrow> int \<Rightarrow> int" where
  "json_number x86 v fallback =
     (case Option.bind v as_f64 of None \<Rightarrow> fallback | Some x \<Rightarrow> rounded_int x86 x)"

definition clamp :: "int \<Rightarrow> int \<Rightarrow> int \<Rightarrow> int" where
  "clamp lo hi v = (if v < lo then lo else if v > hi then hi else v)"

section \<open>The policy\<close>

record transfer_policy =
  tp_max_attempts :: int
  tp_initial_retry_delay_ms :: int
  tp_max_retry_delay_ms :: int
  tp_resume_policy :: string
  tp_persistent_checkpoint :: bool
  tp_refresh_stream_on_status :: "int list"
  tp_max_parallel_segments :: int
  tp_max_concurrent_downloads :: int

definition policy_default :: transfer_policy where
  "policy_default =
     \<lparr>tp_max_attempts = 3, tp_initial_retry_delay_ms = 500, tp_max_retry_delay_ms = 8000,
      tp_resume_policy = ''none'', tp_persistent_checkpoint = False,
      tp_refresh_stream_on_status = [401, 403], tp_max_parallel_segments = 3,
      tp_max_concurrent_downloads = 3\<rparr>"

definition declared_resume :: "(string \<Rightarrow> string) \<Rightarrow> (string \<times> json) list \<Rightarrow> string" where
  "declared_resume lower config =
     (case Option.bind (map_of config ''resumePolicy'') as_str of
        None \<Rightarrow> tp_resume_policy policy_default
      | Some r \<Rightarrow>
          (let resume = lower (trim r) in
           if resume = ''none'' \<or> resume = ''validated'' then resume else tp_resume_policy policy_default))"

definition declared_statuses :: "bool \<Rightarrow> (string \<times> json) list \<Rightarrow> int list" where
  "declared_statuses x86 config =
     (case Option.bind (map_of config ''refreshStreamOnStatus'') as_array of
        None \<Rightarrow> tp_refresh_stream_on_status policy_default
      | Some vs \<Rightarrow>
          (let statuses = sort (remdups (filter (\<lambda>v. 400 \<le> v \<and> v \<le> 599) (map (\<lambda>v. json_number x86 (Some v) 0) vs))) in
           if statuses \<noteq> [] then statuses else tp_refresh_stream_on_status policy_default))"

definition from_capabilities :: "bool \<Rightarrow> (string \<Rightarrow> string) \<Rightarrow> (string \<times> json) list \<Rightarrow> transfer_policy" where
  "from_capabilities x86 lower capabilities =
     (case Option.bind (map_of capabilities ''downloadTransfer'') as_object of
        None \<Rightarrow> policy_default
      | Some config \<Rightarrow>
          (let d = policy_default;
               initial = clamp 100 30000
                 (json_number x86 (map_of config ''initialRetryDelayMs'') (tp_initial_retry_delay_ms d));
               resume = declared_resume lower config
           in \<lparr>tp_max_attempts = clamp 1 8 (json_number x86 (map_of config ''maxAttempts'') (tp_max_attempts d)),
               tp_initial_retry_delay_ms = initial,
               tp_max_retry_delay_ms = clamp initial 120000
                 (json_number x86 (map_of config ''maxRetryDelayMs'') (tp_max_retry_delay_ms d)),
               tp_resume_policy = resume,
               tp_persistent_checkpoint =
                 (map_of config ''persistentCheckpoint'' = Some (JBool True) \<and> resume = ''validated''),
               tp_refresh_stream_on_status = declared_statuses x86 config,
               tp_max_parallel_segments = clamp 1 8
                 (json_number x86 (map_of config ''maxParallelSegments'') (tp_max_parallel_segments d)),
               tp_max_concurrent_downloads = clamp 1 3
                 (json_number x86 (map_of config ''maxConcurrentDownloads'') (tp_max_concurrent_downloads d))\<rparr>))"

definition numeric_keys :: "string list" where
  "numeric_keys =
     [''maxAttempts'', ''initialRetryDelayMs'', ''maxRetryDelayMs'', ''maxParallelSegments'',
      ''maxConcurrentDownloads'']"

fun validate_numbers :: "bool \<Rightarrow> (string \<times> json) list \<Rightarrow> string list \<Rightarrow> (string, unit) result" where
  "validate_numbers x86 config [] = Inr ()"
| "validate_numbers x86 config (key # ks) =
     (case map_of config key of
        Some v \<Rightarrow>
          if json_number x86 (Some v) (- 1) < 0 then Inl (key @ '' must be a non-negative number'')
          else validate_numbers x86 config ks
      | None \<Rightarrow> validate_numbers x86 config ks)"

definition is_boolean :: "json \<Rightarrow> bool" where
  "is_boolean v = (case v of JBool _ \<Rightarrow> True | _ \<Rightarrow> False)"

definition validate_policy :: "bool \<Rightarrow> (string \<times> json) list \<Rightarrow> (string, unit) result" where
  "validate_policy x86 capabilities =
     (case map_of capabilities ''downloadTransfer'' of
        None \<Rightarrow> Inr ()
      | Some raw \<Rightarrow>
          try_bind (ok_or ''must be an object'' (as_object raw)) (\<lambda>config.
            if (case map_of config ''resumePolicy'' of
                  None \<Rightarrow> False
                | Some r \<Rightarrow> as_str r \<noteq> Some ''none'' \<and> as_str r \<noteq> Some ''validated'')
            then Inl (''resumePolicy must be '' @ [CHR 0x27] @ ''none'' @ [CHR 0x27] @ '' or '' @ [CHR 0x27] @ ''validated'' @ [CHR 0x27])
            else if (case map_of config ''persistentCheckpoint'' of None \<Rightarrow> False | Some c \<Rightarrow> \<not> is_boolean c)
            then Inl ''persistentCheckpoint must be a boolean''
            else validate_numbers x86 config numeric_keys))"

section \<open>Properties\<close>

definition policy_ok :: "transfer_policy \<Rightarrow> bool" where
  "policy_ok p \<longleftrightarrow>
     1 \<le> tp_max_attempts p \<and> tp_max_attempts p \<le> 8 \<and>
     100 \<le> tp_initial_retry_delay_ms p \<and> tp_initial_retry_delay_ms p \<le> tp_max_retry_delay_ms p \<and>
     tp_initial_retry_delay_ms p \<le> 30000 \<and> tp_max_retry_delay_ms p \<le> 120000 \<and>
     (tp_resume_policy p = ''none'' \<or> tp_resume_policy p = ''validated'') \<and>
     (tp_persistent_checkpoint p \<longrightarrow> tp_resume_policy p = ''validated'') \<and>
     tp_refresh_stream_on_status p \<noteq> [] \<and> (\<forall>s \<in> set (tp_refresh_stream_on_status p). 400 \<le> s \<and> s \<le> 599) \<and>
     1 \<le> tp_max_parallel_segments p \<and> tp_max_parallel_segments p \<le> 8 \<and>
     1 \<le> tp_max_concurrent_downloads p \<and> tp_max_concurrent_downloads p \<le> 3"

lemma clamp_bounds: "lo \<le> hi \<Longrightarrow> lo \<le> clamp lo hi v \<and> clamp lo hi v \<le> hi"
  by (simp add: clamp_def)

lemma declared_statuses_ok:
  "declared_statuses x86 config \<noteq> [] \<and> (\<forall>s \<in> set (declared_statuses x86 config). 400 \<le> s \<and> s \<le> 599)"
  by (simp add: declared_statuses_def policy_default_def Let_def split: option.splits)

lemma declared_resume_ok:
  "declared_resume lower config = ''none'' \<or> declared_resume lower config = ''validated''"
  by (simp add: declared_resume_def policy_default_def Let_def split: option.splits)

lemma policy_default_ok: "policy_ok policy_default"
  by (simp add: policy_ok_def policy_default_def)

text \<open>
  Whatever a manifest declares, the resulting policy is within its bounds: one to eight
  attempts, delays ordered and at most two minutes, at least one refresh status and all of them
  error statuses, bounded parallelism, and a persistent checkpoint only with validated resume.
\<close>

theorem manifest_policy_is_bounded:
  "policy_ok (from_capabilities x86 lower capabilities)"
proof (cases "Option.bind (map_of capabilities ''downloadTransfer'') as_object")
  case None
  then show ?thesis by (simp add: from_capabilities_def policy_default_ok)
next
  case (Some config)
  let ?initial = "clamp 100 30000 (json_number x86 (map_of config ''initialRetryDelayMs'') (tp_initial_retry_delay_ms policy_default))"
  have i: "100 \<le> ?initial" "?initial \<le> 30000" using clamp_bounds [of 100 30000] by auto
  then have "?initial \<le> clamp ?initial 120000 v" "clamp ?initial 120000 v \<le> 120000" for v
    using clamp_bounds [of ?initial 120000 v] by auto
  with i Some show ?thesis
    using declared_statuses_ok [of x86 config] declared_resume_ok [of lower config] clamp_bounds [of 1 8] clamp_bounds [of 1 3]
    by (simp add: from_capabilities_def policy_ok_def Let_def)
qed

end
