(* ===== verification/Download_Store.thy ===== *)
theory Download_Store
  imports Rust_Text
begin

text \<open>
  The staged file of a download and its checkpoint (\<open>crates/extensions/src/download/store.rs\<close>).
  The directory holds the target, the staged \<open>.partial\<close> file (a missing one is empty) and the
  checkpoint as it would be read back (\<open>None\<close>: missing, oversized or malformed). The answers of the
  file system are arguments; a fault names the call that failed, so that a failed operation leaves
  the files as the code does at that point.
\<close>

section \<open>State\<close>

record checkpoint =
  ck_version :: int
  ck_fingerprint :: string
  ck_validator :: string
  ck_bytes :: nat
  ck_total :: int
  ck_updated_at :: nat

definition checkpoint_default :: checkpoint where
  "checkpoint_default = \<lparr>ck_version = 0, ck_fingerprint = [], ck_validator = [], ck_bytes = 0, ck_total = 0,
     ck_updated_at = 0\<rparr>"

record staging_dir =
  sd_target :: "u8 list option"
  sd_staged :: "u8 list"
  sd_checkpoint :: "checkpoint option"

record download_file =
  df_dir :: staging_dir
  df_state :: checkpoint
  df_restored :: bool
  df_keep_partial :: bool
  df_promoted :: bool
  df_saved_bytes :: nat

definition set_len :: "nat \<Rightarrow> u8 list \<Rightarrow> u8 list" where
  "set_len n bs = take n bs @ replicate (n - length bs) 0"

section \<open>Operations\<close>

definition usable_checkpoint :: "string \<Rightarrow> checkpoint \<Rightarrow> bool" where
  "usable_checkpoint fingerprint s \<longleftrightarrow>
     ck_version s = 1 \<and> ck_fingerprint s \<noteq> [] \<and> ck_fingerprint s = fingerprint \<and>
     ck_validator s \<noteq> [] \<and> ck_bytes s > 0"

datatype open_fault =
    Rejected
  | CheckpointStuck
  | NotOpened
  | LengthFailed
  | SeekFailed

text \<open>The checkpoint \<open>open\<close> accepts, and the directory after the leftovers of a refused one are removed.\<close>

definition restored_state :: "string \<Rightarrow> bool \<Rightarrow> staging_dir \<Rightarrow> checkpoint option" where
  "restored_state fingerprint keep_partial dir =
     (if keep_partial
      then (case sd_checkpoint dir of
              Some s \<Rightarrow> if usable_checkpoint fingerprint s then Some s else None
            | None \<Rightarrow> None)
      else None)"

definition opened_file :: "string \<Rightarrow> bool \<Rightarrow> staging_dir \<Rightarrow> download_file" where
  "opened_file fingerprint keep_partial dir =
     (let state = restored_state fingerprint keep_partial dir;
          dir1 = (if state = None then dir\<lparr>sd_staged := [], sd_checkpoint := None\<rparr> else dir);
          s0 = (case state of None \<Rightarrow> checkpoint_default | Some s \<Rightarrow> s)
      in \<lparr>df_dir = dir1,
          df_state = s0\<lparr>ck_fingerprint := fingerprint, ck_bytes := min (ck_bytes s0) (length (sd_staged dir1))\<rparr>,
          df_restored = (state \<noteq> None), df_keep_partial = keep_partial, df_promoted = False, df_saved_bytes = 0\<rparr>)"

definition truncate_staged :: "nat \<Rightarrow> download_file \<Rightarrow> download_file" where
  "truncate_staged n f = f\<lparr>df_dir := (df_dir f)\<lparr>sd_staged := set_len n (sd_staged (df_dir f))\<rparr>\<rparr>"

definition df_drop :: "download_file \<Rightarrow> staging_dir" where
  "df_drop f =
     (if df_promoted f \<or> \<not> df_keep_partial f
      then (let d = (df_dir f)\<lparr>sd_checkpoint := None\<rparr> in if \<not> df_promoted f then d\<lparr>sd_staged := []\<rparr> else d)
      else df_dir f)"

text \<open>The directory that a failed \<open>open\<close> leaves; the last two faults drop the new \<open>DownloadFile\<close>.\<close>

definition open_left :: "open_fault \<Rightarrow> string \<Rightarrow> bool \<Rightarrow> staging_dir \<Rightarrow> staging_dir" where
  "open_left fault fingerprint keep_partial dir =
     (let f = opened_file fingerprint keep_partial dir in
      case fault of
        Rejected \<Rightarrow> dir
      | CheckpointStuck \<Rightarrow> if df_restored f then dir else dir\<lparr>sd_staged := []\<rparr>
      | NotOpened \<Rightarrow> df_dir f
      | LengthFailed \<Rightarrow> df_drop f
      | SeekFailed \<Rightarrow> df_drop (truncate_staged (ck_bytes (df_state f)) f))"

definition df_open ::
  "(open_fault \<times> string, unit) result \<Rightarrow> string \<Rightarrow> bool \<Rightarrow> staging_dir \<Rightarrow>
   (string \<times> staging_dir, download_file) result" where
  "df_open io fingerprint keep_partial dir =
     (case io of
        Inl (fault, e) \<Rightarrow> Inl (e, open_left fault fingerprint keep_partial dir)
      | Inr _ \<Rightarrow>
          (let f = opened_file fingerprint keep_partial dir in
           Inr ((truncate_staged (ck_bytes (df_state f)) f)\<lparr>df_saved_bytes := ck_bytes (df_state f)\<rparr>)))"

datatype rewind_fault = LenFault string | SeekFault string

definition df_rewind ::
  "(rewind_fault, unit) result \<Rightarrow> nat \<Rightarrow> download_file \<Rightarrow> (string, unit) result \<times> download_file" where
  "df_rewind io n f =
     (case io of
        Inl (LenFault e) \<Rightarrow> (Inl e, f)
      | Inl (SeekFault e) \<Rightarrow> (Inl e, truncate_staged n f)
      | Inr _ \<Rightarrow> (Inr (), (truncate_staged n f)\<lparr>df_state := (df_state f)\<lparr>ck_bytes := n\<rparr>\<rparr>))"

definition df_restart ::
  "(rewind_fault, unit) result \<Rightarrow> (string, unit) result \<Rightarrow> download_file \<Rightarrow> (string, unit) result \<times> download_file" where
  "df_restart io unlink f =
     (case df_rewind io 0 f of
        (Inl e, f1) \<Rightarrow> (Inl e, f1)
      | (Inr _, f1) \<Rightarrow>
          (let f2 = f1\<lparr>df_state := (df_state f1)\<lparr>ck_validator := []\<rparr>\<rparr> in
           case unlink of
             Inl e \<Rightarrow> (Inl e, f2)
           | Inr _ \<Rightarrow> (Inr (), f2\<lparr>df_dir := (df_dir f2)\<lparr>sd_checkpoint := None\<rparr>\<rparr>)))"

datatype save_answer = SyncFailed | WriteFailed nat | Saved nat

text \<open>\<open>save\<close>: the numbers are the wall clock in milliseconds.\<close>

definition df_save :: "save_answer \<Rightarrow> download_file \<Rightarrow> download_file" where
  "df_save answer f =
     (case answer of
        SyncFailed \<Rightarrow> f
      | WriteFailed now \<Rightarrow> f\<lparr>df_state := (df_state f)\<lparr>ck_version := 1, ck_updated_at := now\<rparr>\<rparr>
      | Saved now \<Rightarrow>
          (let s = (df_state f)\<lparr>ck_version := 1, ck_updated_at := now\<rparr> in
           f\<lparr>df_state := s, df_dir := (df_dir f)\<lparr>sd_checkpoint := Some s\<rparr>\<rparr>))"

definition df_checkpoint :: "bool \<Rightarrow> bool \<Rightarrow> save_answer \<Rightarrow> download_file \<Rightarrow> download_file" where
  "df_checkpoint force late answer f =
     (if \<not> df_keep_partial f \<or> ck_validator (df_state f) = [] \<or> ck_bytes (df_state f) = 0 then f
      else if \<not> force \<and> ck_bytes (df_state f) - df_saved_bytes f < 8 * 2 ^ 20 \<and> \<not> late then f
      else df_save answer (f\<lparr>df_saved_bytes := ck_bytes (df_state f)\<rparr>))"

text \<open>A failed \<open>write_all\<close> may have written some of the bytes; they are not counted.\<close>

definition df_write ::
  "(string \<times> nat, unit) result \<Rightarrow> u8 list \<Rightarrow> download_file \<Rightarrow> (string, unit) result \<times> download_file" where
  "df_write io bytes f =
     (case io of
        Inl (e, n) \<Rightarrow> (Inl e, f\<lparr>df_dir := (df_dir f)\<lparr>sd_staged := sd_staged (df_dir f) @ take n bytes\<rparr>\<rparr>)
      | Inr _ \<Rightarrow> (Inr (), f\<lparr>df_dir := (df_dir f)\<lparr>sd_staged := sd_staged (df_dir f) @ bytes\<rparr>,
                           df_state := (df_state f)\<lparr>ck_bytes := ck_bytes (df_state f) + length bytes\<rparr>\<rparr>))"

text \<open>\<open>publish\<close>: \<open>unlinked\<close> tells whether the removal of the checkpoint, whose error is ignored, worked.\<close>

definition df_publish ::
  "(string, unit) result \<Rightarrow> (string, unit) result \<Rightarrow> (string, unit) result \<Rightarrow> bool \<Rightarrow> download_file \<Rightarrow>
   (string, unit) result \<times> download_file" where
  "df_publish sync check rename unlinked f =
     (case try_bind sync (\<lambda>_. try_bind check (\<lambda>_. rename)) of
        Inl e \<Rightarrow> (Inl e, f)
      | Inr _ \<Rightarrow>
          (Inr (), f\<lparr>df_promoted := True,
             df_dir := \<lparr>sd_target = Some (sd_staged (df_dir f)), sd_staged = [],
                        sd_checkpoint = (if unlinked then None else sd_checkpoint (df_dir f))\<rparr>\<rparr>))"

section \<open>The staged file and its byte count\<close>

definition df_ok :: "download_file \<Rightarrow> bool" where
  "df_ok f \<longleftrightarrow> length (sd_staged (df_dir f)) = ck_bytes (df_state f)"

lemma set_len_shorter: "n \<le> length bs \<Longrightarrow> set_len n bs = take n bs"
  by (simp add: set_len_def)

lemma df_open_ok:
  assumes "df_open io fp keep dir = Inr f"
  shows "df_ok f" and "\<not> df_promoted f" and "sd_target (df_dir f) = sd_target dir"
    and "ck_validator (df_state f) = [] \<Longrightarrow> ck_bytes (df_state f) = 0"
    and "df_restored f \<Longrightarrow> keep \<and> (\<exists>s. sd_checkpoint dir = Some s \<and> ck_validator s \<noteq> [] \<and>
           ck_validator (df_state f) = ck_validator s \<and> ck_total (df_state f) = ck_total s \<and>
           sd_staged (df_dir f) = take (ck_bytes s) (sd_staged dir))"
    and "\<not> df_restored f \<Longrightarrow> sd_staged (df_dir f) = [] \<and> ck_validator (df_state f) = []"
    and "df_keep_partial f = keep"
  using assms
  by (auto simp: df_open_def opened_file_def restored_state_def truncate_staged_def df_ok_def checkpoint_default_def
      usable_checkpoint_def set_len_def Let_def min_def split: sum.splits option.splits if_splits)

lemma truncate_staged_frame [simp]:
  "df_state (truncate_staged n f) = df_state f"
  "sd_target (df_dir (truncate_staged n f)) = sd_target (df_dir f)"
  "sd_checkpoint (df_dir (truncate_staged n f)) = sd_checkpoint (df_dir f)"
  "df_promoted (truncate_staged n f) = df_promoted f"
  "df_keep_partial (truncate_staged n f) = df_keep_partial f"
  "sd_staged (df_dir (truncate_staged n f)) = set_len n (sd_staged (df_dir f))"
  by (simp_all add: truncate_staged_def)

lemma df_drop_target [simp]: "sd_target (df_drop f) = sd_target (df_dir f)"
  by (simp add: df_drop_def Let_def)

lemma open_left_target [simp]: "sd_target (open_left fault fp keep dir) = sd_target dir"
  by (cases fault) (simp_all add: open_left_def opened_file_def Let_def)

lemma df_rewind_frame:
  assumes "df_rewind io n f = (r, f')"
  shows "sd_target (df_dir f') = sd_target (df_dir f)" "df_promoted f' = df_promoted f"
    "df_keep_partial f' = df_keep_partial f" "ck_validator (df_state f') = ck_validator (df_state f)"
  using assms by (auto simp: df_rewind_def split: sum.splits rewind_fault.splits)

lemma df_rewind_zero:
  assumes "df_rewind io 0 f = (Inr u, f')"
  shows "sd_staged (df_dir f') = []" "ck_bytes (df_state f') = 0"
  using assms by (auto simp: df_rewind_def set_len_def split: sum.splits rewind_fault.splits)

lemma df_restart_fresh:
  assumes "df_restart io unlink f = (Inr u, f')"
  shows "sd_staged (df_dir f') = []" "ck_bytes (df_state f') = 0" "ck_validator (df_state f') = []"
  using assms
  by (auto simp: df_restart_def df_rewind_def set_len_def Let_def split: sum.splits prod.splits rewind_fault.splits)

lemma df_restart_frame:
  assumes "df_restart io unlink f = (r, f')"
  shows "sd_target (df_dir f') = sd_target (df_dir f)"
  using assms
  by (auto simp: df_restart_def df_rewind_def Let_def split: sum.splits prod.splits rewind_fault.splits)

lemma df_checkpoint_frame [simp]:
  "sd_staged (df_dir (df_checkpoint force late answer f)) = sd_staged (df_dir f)"
  "sd_target (df_dir (df_checkpoint force late answer f)) = sd_target (df_dir f)"
  "ck_bytes (df_state (df_checkpoint force late answer f)) = ck_bytes (df_state f)"
  "ck_validator (df_state (df_checkpoint force late answer f)) = ck_validator (df_state f)"
  "ck_total (df_state (df_checkpoint force late answer f)) = ck_total (df_state f)"
  "df_promoted (df_checkpoint force late answer f) = df_promoted f"
  by (auto simp: df_checkpoint_def df_save_def Let_def split: save_answer.splits)

lemma df_write_ok:
  assumes "df_write io bytes f = (Inr u, f')"
  shows "sd_staged (df_dir f') = sd_staged (df_dir f) @ bytes"
    "ck_bytes (df_state f') = ck_bytes (df_state f) + length bytes"
    "ck_validator (df_state f') = ck_validator (df_state f)" "ck_total (df_state f') = ck_total (df_state f)"
  using assms by (auto simp: df_write_def split: sum.splits)

lemma df_write_target: "df_write io bytes f = (r, f') \<Longrightarrow> sd_target (df_dir f') = sd_target (df_dir f)"
  by (auto simp: df_write_def split: sum.splits)

lemma df_publish_cases:
  assumes "df_publish sync check rename unlinked f = (r, f')"
  shows "r = Inr () \<and> sd_target (df_dir f') = Some (sd_staged (df_dir f)) \<and> df_state f' = df_state f
         \<or> (\<exists>e. r = Inl e) \<and> f' = f"
proof (cases "try_bind sync (\<lambda>_. try_bind check (\<lambda>_. rename))")
  case (Inl e)
  with assms have "r = Inl e" "f' = f" by (simp_all add: df_publish_def)
  then show ?thesis by simp
next
  case (Inr u)
  with assms show ?thesis by (auto simp: df_publish_def)
qed

end
