(* ===== verification/Download_Engine.thy ===== *)
theory Download_Engine
  imports Download_Store Transfer_Policy Url BTree_Map Link_Store "HOL-Library.Sublist"
begin

text \<open>
  The single-stream download with retries and validated resume
  (\<open>crates/extensions/src/download.rs\<close>). Each attempt has an environment: what the cancellation
  check, the network, the file system, the retry wait and the random source answer in that
  attempt. The network is a function of the request headers. Progress reporting, the resolver
  budget guards and the item display are side effects of other components and are left out.
\<close>

section \<open>Requests, responses and failures\<close>

type_synonym headers = "(string, string) btmap"

record http_response =
  hr_status :: nat
  hr_headers :: "(string, string list) btmap"

record failure =
  fa_error_type :: string
  fa_error :: string
  fa_attempts :: nat
  fa_http_status :: nat
  fa_retry_after_seconds :: nat

definition failure_new :: "string \<Rightarrow> string \<Rightarrow> nat \<Rightarrow> failure" where
  "failure_new kind e attempts =
     \<lparr>fa_error_type = kind, fa_error = e, fa_attempts = attempts, fa_http_status = 0, fa_retry_after_seconds = 0\<rparr>"

definition set_header :: "headers \<Rightarrow> string \<Rightarrow> string \<Rightarrow> headers" where
  "set_header hs name v = bt_insert name v (bt_retain (\<lambda>k _. \<not> eq_ignore_ascii_case k name) hs)"

definition resp_header :: "http_response \<Rightarrow> string \<Rightarrow> string" where
  "resp_header r name =
     (case bt_get (hr_headers r) name of Some (v # _) \<Rightarrow> v | _ \<Rightarrow> [])"

text \<open>
  \<open>to_uppercase\<close> is used only to find the weak marker: no other character than \<open>w\<close> and \<open>W\<close> has an
  upper-case form that starts with \<open>W/\<close>.
\<close>

definition resp_validator :: "http_response \<Rightarrow> string" where
  "resp_validator r =
     (let etag = trim (resp_header r ''Etag'') in
      if etag \<noteq> [] \<and> \<not> starts_with (to_ascii_uppercase etag) ''W/'' then etag
      else trim (resp_header r ''Last-Modified''))"

definition fingerprint :: "(string \<Rightarrow> string) \<Rightarrow> (u8 list \<Rightarrow> u8 list) \<Rightarrow> string \<Rightarrow> string" where
  "fingerprint lower sha256 url =
     (case url_parse url of
        None \<Rightarrow> []
      | Some u \<Rightarrow> hex (sha256 (as_bytes (lower (u_scheme u) @ ''://'' @ lower (authority u) @ escaped_path u))))"

definition retryable :: "nat \<Rightarrow> bool" where
  "retryable status \<longleftrightarrow> status = 408 \<or> status = 425 \<or> status = 429 \<or> 500 \<le> status"

text \<open>
  The nanoseconds of a \<open>Retry-After\<close> header: a number of seconds, or an HTTP date, which the
  third-party parser \<open>date\<close> turns into nanoseconds since the epoch.
\<close>

definition retry_after_nanos :: "(string \<Rightarrow> int option) \<Rightarrow> int \<Rightarrow> string \<Rightarrow> int" where
  "retry_after_nanos date now v =
     (case parse_i64 v of
        Inr seconds \<Rightarrow> wrap_i64 (seconds * 1000000000)
      | Inl _ \<Rightarrow> (case date v of None \<Rightarrow> 0 | Some t \<Rightarrow> t - now))"

definition status_failure ::
  "(string \<Rightarrow> int option) \<Rightarrow> int \<Rightarrow> http_response \<Rightarrow> transfer_policy \<Rightarrow> nat \<Rightarrow> failure" where
  "status_failure date now r policy attempt_no =
     (let status = hr_status r;
          kind = (if status = 429 then ''rate_limited''
                  else if int status \<in> set (tp_refresh_stream_on_status policy) then ''expired_stream''
                  else if retryable status then ''transient_network'' else ''http_error'');
          f = (failure_new kind (''HTTP error: '' @ show_nat status) attempt_no)\<lparr>fa_http_status := status\<rparr>;
          nanos = retry_after_nanos date now (resp_header r ''Retry-After'')
      in if nanos > 0
         then f\<lparr>fa_retry_after_seconds := nat (max 1 ((min nanos 120000000000 + 500000000) div 1000000000))\<rparr>
         else f)"

text \<open>
  The next delay in nanoseconds. \<open>jitter\<close> is the random fraction of a span, \<open>None\<close> when no
  randomness is available.
\<close>

definition next_delay :: "(nat \<Rightarrow> nat) option \<Rightarrow> transfer_policy \<Rightarrow> nat \<Rightarrow> nat" where
  "next_delay jitter policy current =
     (let ceiling = min (current * 2) (nat (tp_max_retry_delay_ms policy) * 1000000);
          floor = nat (tp_initial_retry_delay_ms policy) * 1000000
      in if ceiling \<le> floor then ceiling
         else case jitter of None \<Rightarrow> ceiling | Some j \<Rightarrow> floor + j (ceiling - floor))"

section \<open>One attempt\<close>

record read_event =
  re_data :: "u8 list"
  re_write :: "(string \<times> nat, unit) result"
  re_late :: bool
  re_save :: save_answer

text \<open>The reads of a stream up to its end, which is a clean end of file or an error.\<close>

record transfer =
  tr_response :: http_response
  tr_reads :: "read_event list"
  tr_end :: "(string, unit) result"

record attempt_env =
  ae_check :: "(string, unit) result"
  ae_serve :: "headers \<Rightarrow> (string, transfer) result"
  ae_check_after :: "(string, unit) result"
  ae_io :: "(rewind_fault, unit) result"
  ae_unlink :: "(string, unit) result"
  ae_wait :: "nat \<Rightarrow> (string, unit) result"
  ae_jitter :: "(nat \<Rightarrow> nat) option"
  ae_save :: save_answer
  ae_sync :: "(string, unit) result"
  ae_check_publish :: "(string, unit) result"
  ae_rename :: "(string, unit) result"
  ae_unlinked :: bool
  ae_date :: "string \<Rightarrow> int option"
  ae_now :: int
  ae_debug :: "string \<Rightarrow> string"

record download_options =
  do_headers :: headers
  do_resume :: bool
  do_persistent :: bool
  do_policy :: transfer_policy

record download_success =
  ds_size :: nat
  ds_attempts :: nat
  ds_resumed :: bool

datatype attempt_end = Done "(failure, download_success) result" | Again nat

definition cancelled :: "string \<Rightarrow> nat \<Rightarrow> attempt_end" where
  "cancelled e n = Done (Inl (failure_new ''cancelled'' e n))"

definition storage_error :: "string \<Rightarrow> nat \<Rightarrow> attempt_end" where
  "storage_error e n = Done (Inl (failure_new ''storage_error'' e n))"

text \<open>The end of an attempt that is to be retried: wait, then double the delay.\<close>

definition wait_and_retry ::
  "attempt_env \<Rightarrow> transfer_policy \<Rightarrow> nat \<Rightarrow> nat \<Rightarrow> nat \<Rightarrow> attempt_end" where
  "wait_and_retry env policy n delay retry_delay =
     (case ae_wait env delay of
        Inl e \<Rightarrow> cancelled e n
      | Inr _ \<Rightarrow> Again (next_delay (ae_jitter env) policy retry_delay))"

definition range_start :: "download_options \<Rightarrow> download_file \<Rightarrow> nat" where
  "range_start opts f =
     (if do_resume opts \<and> ck_validator (df_state f) \<noteq> [] then ck_bytes (df_state f) else 0)"

definition request_headers :: "download_options \<Rightarrow> download_file \<Rightarrow> headers" where
  "request_headers opts f =
     (let from = range_start opts f in
      if from > 0
      then set_header (set_header (do_headers opts) ''Range'' (''bytes='' @ show_nat from @ ''-''))
             ''If-Range'' (ck_validator (df_state f))
      else do_headers opts)"

definition open_failed ::
  "attempt_env \<Rightarrow> download_options \<Rightarrow> nat \<Rightarrow> nat \<Rightarrow> string \<Rightarrow> download_file \<Rightarrow> attempt_end \<times> download_file" where
  "open_failed env opts n retry_delay e f =
     (case ae_check_after env of
        Inl c \<Rightarrow> (cancelled c n, f)
      | Inr _ \<Rightarrow>
          if int n = tp_max_attempts (do_policy opts)
          then (Done (Inl (failure_new ''transient_network'' e n)), f)
          else
            (let (r, f1) =
               (if ck_bytes (df_state f) > 0 \<and> (\<not> do_resume opts \<or> ck_validator (df_state f) = [])
                then df_restart (ae_io env) (ae_unlink env) f else (Inr (), f))
             in case r of
                  Inl s \<Rightarrow> (storage_error s n, f1)
                | Inr _ \<Rightarrow> (wait_and_retry env (do_policy opts) n retry_delay retry_delay, f1)))"

definition bad_status ::
  "attempt_env \<Rightarrow> download_options \<Rightarrow> nat \<Rightarrow> nat \<Rightarrow> http_response \<Rightarrow> attempt_end" where
  "bad_status env opts n retry_delay r =
     (let f = status_failure (ae_date env) (ae_now env) r (do_policy opts) n;
          delay = (if fa_retry_after_seconds f > 0 then fa_retry_after_seconds f * 1000000000 else retry_delay)
      in if \<not> retryable (hr_status r) \<or> int n = tp_max_attempts (do_policy opts) then Done (Inl f)
         else wait_and_retry env (do_policy opts) n delay retry_delay)"

text \<open>The checks on a partial response; \<open>None\<close> when it may be appended.\<close>

definition partial_rejected ::
  "attempt_env \<Rightarrow> nat \<Rightarrow> nat \<Rightarrow> http_response \<Rightarrow> download_file \<Rightarrow> failure option" where
  "partial_rejected env n from r f =
     (if from > 0 \<and> hr_status r = 206 then
        (let range = resp_header r ''Content-Range'' in
         if \<not> starts_with range (''bytes '' @ show_nat from @ ''-'')
         then Some ((failure_new ''integrity_failed'' (''resume failed: unexpected Content-Range '' @ ae_debug env range @
                '' at '' @ show_nat from @ '' bytes'') n)\<lparr>fa_http_status := 206\<rparr>)
         else if resp_validator r \<noteq> [] \<and> resp_validator r \<noteq> ck_validator (df_state f)
         then Some ((failure_new ''integrity_failed'' ''resume failed: response validator changed'' n)\<lparr>fa_http_status := 206\<rparr>)
         else None)
      else None)"

definition parse_i64_or :: "int \<Rightarrow> string \<Rightarrow> int" where
  "parse_i64_or d s = (case parse_i64 s of Inl _ \<Rightarrow> d | Inr v \<Rightarrow> v)"

definition saturating_add_i64 :: "int \<Rightarrow> int \<Rightarrow> int" where
  "saturating_add_i64 a b = max isize_min (min (a + b) isize_max)"

definition response_total :: "bool \<Rightarrow> nat \<Rightarrow> http_response \<Rightarrow> int" where
  "response_total caller_range from r =
     (let len = parse_i64_or (- 1) (resp_header r ''Content-Length'') in
      if hr_status r = 206 \<and> \<not> caller_range
      then (case Option.bind (rsplit_once (CHR ''/'') (resp_header r ''Content-Range'')) (\<lambda>(_, t). ok (parse_i64 t)) of
              Some t \<Rightarrow> t
            | None \<Rightarrow> if len > 0 then saturating_add_i64 (int from) len else 0)
      else len)"

fun read_body ::
  "read_event list \<Rightarrow> (string, unit) result \<Rightarrow> download_file \<Rightarrow> (string, (string, unit) result) result \<times> download_file" where
  "read_body [] fin f = (Inr fin, f)"
| "read_body (ev # evs) fin f =
     (if re_data ev = [] then (Inr (Inr ()), f)
      else case df_write (re_write ev) (re_data ev) f of
             (Inl e, f1) \<Rightarrow> (Inl e, f1)
           | (Inr _, f1) \<Rightarrow> read_body evs fin (df_checkpoint False (re_late ev) (re_save ev) f1))"

definition body_failed ::
  "attempt_env \<Rightarrow> download_options \<Rightarrow> nat \<Rightarrow> nat \<Rightarrow> string \<Rightarrow> download_file \<Rightarrow> attempt_end \<times> download_file" where
  "body_failed env opts n retry_delay e f0 =
     (let f = df_checkpoint True False (ae_save env) f0 in
      case ae_check_after env of
        Inl c \<Rightarrow> (cancelled c n, f)
      | Inr _ \<Rightarrow>
          if int n = tp_max_attempts (do_policy opts)
          then (Done (Inl (failure_new ''transient_network'' (''failed to read response: '' @ e) n)), f)
          else
            (let (r, f1) = (if \<not> do_resume opts \<or> ck_validator (df_state f) = []
                            then df_restart (ae_io env) (ae_unlink env) f else (Inr (), f))
             in case r of
                  Inl s \<Rightarrow> (storage_error s n, f1)
                | Inr _ \<Rightarrow> (wait_and_retry env (do_policy opts) n retry_delay retry_delay, f1)))"

definition finish_body ::
  "attempt_env \<Rightarrow> download_options \<Rightarrow> nat \<Rightarrow> nat \<Rightarrow> (string, unit) result \<Rightarrow> download_file \<Rightarrow>
   attempt_end \<times> download_file" where
  "finish_body env opts n retry_delay body f =
     (case try_bind body (\<lambda>_. if ck_total (df_state f) > 0 \<and> int (ck_bytes (df_state f)) \<noteq> ck_total (df_state f)
                              then Inl ''unexpected EOF'' else Inr ()) of
        Inl e \<Rightarrow> body_failed env opts n retry_delay e f
      | Inr _ \<Rightarrow>
          if ck_bytes (df_state f) = 0
          then (Done (Inl (failure_new ''integrity_failed'' ''download response was empty'' n)), f)
          else
            (case df_publish (ae_sync env) (ae_check_publish env) (ae_rename env) (ae_unlinked env) f of
               (Inl e, f1) \<Rightarrow> (storage_error (''failed to publish file: '' @ e) 0, f1)
             | (Inr _, f1) \<Rightarrow>
                 (Done (Inr \<lparr>ds_size = ck_bytes (df_state f1), ds_attempts = n, ds_resumed = False\<rparr>), f1)))"

text \<open>The validator and the expected total that an accepted response sets.\<close>

definition accept_response :: "bool \<Rightarrow> nat \<Rightarrow> http_response \<Rightarrow> download_file \<Rightarrow> download_file" where
  "accept_response caller_range from r f =
     f\<lparr>df_state := (df_state f)
         \<lparr>ck_validator := (if resp_validator r \<noteq> [] then resp_validator r else ck_validator (df_state f)),
          ck_total := response_total caller_range from r\<rparr>\<rparr>"

definition receive ::
  "attempt_env \<Rightarrow> download_options \<Rightarrow> bool \<Rightarrow> nat \<Rightarrow> nat \<Rightarrow> nat \<Rightarrow> transfer \<Rightarrow> download_file \<Rightarrow> attempt_end \<times> download_file" where
  "receive env opts caller_range n retry_delay from t f =
     (let r = tr_response t;
          (rewound, f1) = (if from > 0 \<and> hr_status r = 200 then df_rewind (ae_io env) 0 f else (Inr (), f));
          from' = (if hr_status r = 200 then 0 else from)
      in case rewound of
           Inl e \<Rightarrow> (storage_error e n, f1)
         | Inr _ \<Rightarrow>
             (case read_body (tr_reads t) (tr_end t) (accept_response caller_range from' r f1) of
                (Inl e, f2) \<Rightarrow> (storage_error (''failed to write staged file: '' @ e) n, f2)
              | (Inr body, f2) \<Rightarrow> finish_body env opts n retry_delay body f2))"

definition download_attempt ::
  "attempt_env \<Rightarrow> download_options \<Rightarrow> bool \<Rightarrow> nat \<Rightarrow> nat \<Rightarrow> download_file \<Rightarrow> attempt_end \<times> download_file" where
  "download_attempt env opts caller_range n retry_delay f =
     (case ae_check env of
        Inl e \<Rightarrow> (cancelled e n, f)
      | Inr _ \<Rightarrow>
          (let from = range_start opts f in
           case ae_serve env (request_headers opts f) of
             Inl e \<Rightarrow> open_failed env opts n retry_delay e f
           | Inr t \<Rightarrow>
               if \<not> (200 \<le> hr_status (tr_response t) \<and> hr_status (tr_response t) < 300)
               then (bad_status env opts n retry_delay (tr_response t), f)
               else case partial_rejected env n from (tr_response t) f of
                      Some failure \<Rightarrow> (Done (Inl failure), f)
                    | None \<Rightarrow> receive env opts caller_range n retry_delay from t f))"

section \<open>The download\<close>

text \<open>
  The attempts, each with its environment; \<open>None\<close> when the environments given run out before the
  download ends.
\<close>

fun download_attempts ::
  "attempt_env list \<Rightarrow> download_options \<Rightarrow> bool \<Rightarrow> nat \<Rightarrow> nat \<Rightarrow> download_file \<Rightarrow>
   ((failure, download_success) result \<times> download_file) option" where
  "download_attempts [] opts caller_range n retry_delay f = None"
| "download_attempts (env # envs) opts caller_range n retry_delay f =
     (case download_attempt env opts caller_range n retry_delay f of
        (Done r, f1) \<Rightarrow> Some (r, f1)
      | (Again retry_delay', f1) \<Rightarrow> download_attempts envs opts caller_range (n + 1) retry_delay' f1)"

definition has_range_header :: "headers \<Rightarrow> bool" where
  "has_range_header hs = list_ex (\<lambda>(k, _). eq_ignore_ascii_case k ''Range'') hs"

text \<open>The caller's options; a \<open>Range\<close> header of the caller turns resuming off.\<close>

definition effective_options :: "download_options \<Rightarrow> download_options" where
  "effective_options opts =
     (if has_range_header (do_headers opts) then opts\<lparr>do_resume := False, do_persistent := False\<rparr> else opts)"

definition restored_whole :: "download_file \<Rightarrow> bool" where
  "restored_whole f \<longleftrightarrow>
     df_restored f \<and> ck_bytes (df_state f) > 0 \<and> ck_total (df_state f) > 0 \<and>
     int (ck_bytes (df_state f)) = ck_total (df_state f)"

definition publish_restored ::
  "attempt_env \<Rightarrow> download_file \<Rightarrow> (failure, download_success) result \<times> download_file" where
  "publish_restored env f =
     (case df_publish (ae_sync env) (ae_check_publish env) (ae_rename env) (ae_unlinked env) f of
        (Inl e, f1) \<Rightarrow> (Inl (failure_new ''storage_error'' (''failed to publish restored download: '' @ e) 0), f1)
      | (Inr _, f1) \<Rightarrow> (Inr \<lparr>ds_size = ck_bytes (df_state f1), ds_attempts = 0, ds_resumed = True\<rparr>, f1))"

text \<open>The download once the staged file is open: a restored file may be complete already.\<close>

definition download_opened ::
  "attempt_env \<Rightarrow> attempt_env list \<Rightarrow> download_options \<Rightarrow> bool \<Rightarrow> download_file \<Rightarrow>
   ((failure, download_success) result \<times> download_file) option" where
  "download_opened restore_env envs opts caller_range f =
     (if restored_whole f then Some (publish_restored restore_env f)
      else download_attempts envs opts caller_range 1 (nat (tp_initial_retry_delay_ms (do_policy opts)) * 1000000) f)"

definition download ::
  "(string, unit) result \<Rightarrow> (open_fault \<times> string, unit) result \<Rightarrow> attempt_env \<Rightarrow> attempt_env list \<Rightarrow> string \<Rightarrow>
   download_options \<Rightarrow> staging_dir \<Rightarrow> ((failure, download_success) result \<times> staging_dir) option" where
  "download lock open_io restore_env envs fp options dir =
     (case lock of
        Inl e \<Rightarrow> Some (Inl (failure_new ''cancelled'' e 0), dir)
      | Inr _ \<Rightarrow>
          (let opts = effective_options options
           in case df_open open_io fp (do_resume opts \<and> do_persistent opts \<and> fp \<noteq> []) dir of
                Inl (e, dir') \<Rightarrow>
                  Some (Inl (failure_new ''storage_error'' (''failed to create staged file: '' @ e) 0), dir')
              | Inr f \<Rightarrow>
                  map_option (\<lambda>(r, f1). (r, df_drop f1))
                    (download_opened restore_env envs opts (has_range_header (do_headers options)) f)))"

section \<open>What an attempt leaves\<close>

text \<open>
  Between attempts the staged bytes are counted, and they are either resumable, hence a prefix
  of the version that the validator names, or none.
\<close>

definition resumable :: "download_options \<Rightarrow> download_file \<Rightarrow> bool" where
  "resumable opts f \<longleftrightarrow> do_resume opts \<and> ck_validator (df_state f) \<noteq> []"

definition attempt_inv :: "(string \<Rightarrow> u8 list) \<Rightarrow> download_options \<Rightarrow> download_file \<Rightarrow> bool" where
  "attempt_inv content opts f \<longleftrightarrow>
     df_ok f \<and>
     (if resumable opts f then prefix (sd_staged (df_dir f)) (content (ck_validator (df_state f)))
      else ck_bytes (df_state f) = 0)"

definition attempt_good :: "(string \<Rightarrow> u8 list) \<Rightarrow> download_options \<Rightarrow> attempt_end \<Rightarrow> download_file \<Rightarrow> bool" where
  "attempt_good content opts res f \<longleftrightarrow>
     (case res of
        Done (Inr s) \<Rightarrow> \<exists>v. sd_target (df_dir f) = Some (content v) \<and> ds_size s = length (content v) \<and> content v \<noteq> []
      | Done (Inl _) \<Rightarrow> True
      | Again _ \<Rightarrow> attempt_inv content opts f)"

text \<open>
  A transfer carries the version \<open>v\<close> from offset \<open>n\<close>: its data continue that version, a length it
  announces is the length of the version, and a stream that ends cleanly is complete unless it
  was announced as longer.
\<close>

definition carries :: "(string \<Rightarrow> u8 list) \<Rightarrow> string \<Rightarrow> nat \<Rightarrow> transfer \<Rightarrow> bool" where
  "carries content v n t \<longleftrightarrow>
     n \<le> length (content v) \<and> list_all (\<lambda>ev. re_data ev \<noteq> []) (tr_reads t) \<and>
     prefix (concat (map re_data (tr_reads t))) (drop n (content v)) \<and>
     (let total = response_total False n (tr_response t) in
      (total > 0 \<longrightarrow> total = int (length (content v))) \<and>
      (is_ok (tr_end t) \<longrightarrow>
         concat (map re_data (tr_reads t)) = drop n (content v) \<or> total = int (length (content v))))"

text \<open>
  A server that labels its versions: a full answer names its validator, and a partial one
  continues at the requested offset either the version it names or, when it names none, the
  version of the \<open>If-Range\<close> header.
\<close>

definition labels_versions :: "(string \<Rightarrow> u8 list) \<Rightarrow> (headers \<Rightarrow> (string, transfer) result) \<Rightarrow> bool" where
  "labels_versions content serve \<longleftrightarrow>
     (\<forall>hs t. serve hs = Inr t \<longrightarrow>
        (let r = tr_response t; v = resp_validator r in
         \<not> (200 \<le> hr_status r \<and> hr_status r < 300) \<or>
         hr_status r = 200 \<and> v \<noteq> [] \<and> carries content v 0 t \<or>
         hr_status r = 206 \<and>
           (\<exists>n w. bt_get hs ''Range'' = Some (''bytes='' @ show_nat n @ ''-'') \<and> bt_get hs ''If-Range'' = Some w \<and>
                  carries content (if v = [] then w else v) n t)))"

lemma show_nat_inject: "show_nat m = show_nat n \<Longrightarrow> m = n"
  by (metis option.inject show_nat_digits)

lemma wait_and_retry_not_done: "wait_and_retry env policy n delay retry_delay \<noteq> Done (Inr s)"
  by (auto simp: wait_and_retry_def cancelled_def split: sum.splits)

lemma request_headers_range:
  assumes wf: "bt_wf (do_headers opts)" and "0 < range_start opts f"
  shows "bt_get (request_headers opts f) ''Range'' = Some (''bytes='' @ show_nat (range_start opts f) @ ''-'')"
    and "bt_get (request_headers opts f) ''If-Range'' = Some (ck_validator (df_state f))"
proof -
  have neq: "\<not> eq_ignore_ascii_case ''Range'' ''If-Range''"
    by (simp add: eq_ignore_ascii_case_def to_ascii_lowercase_def)
  show "bt_get (request_headers opts f) ''Range'' = Some (''bytes='' @ show_nat (range_start opts f) @ ''-'')"
    using assms neq by (simp add: request_headers_def set_header_def Let_def bt_get_simps)
  show "bt_get (request_headers opts f) ''If-Range'' = Some (ck_validator (df_state f))"
    using assms by (simp add: request_headers_def set_header_def Let_def bt_get_simps)
qed

lemma request_headers_plain:
  assumes "\<not> has_range_header (do_headers opts)" "range_start opts f = 0"
  shows "bt_get (request_headers opts f) ''Range'' = None"
proof -
  have "(''Range'', v) \<notin> set (do_headers opts)" for v
    using assms(1) by (auto simp: has_range_header_def list_ex_iff eq_ignore_ascii_case_def)
  then have "bt_get (do_headers opts) ''Range'' = None"
    using bt_get_Some_in by (metis not_None_eq)
  then show ?thesis using assms(2) by (simp add: request_headers_def)
qed

lemma read_body_ok:
  assumes "read_body evs fin f = (Inr body, f')" "list_all (\<lambda>ev. re_data ev \<noteq> []) evs"
  shows "body = fin \<and> sd_staged (df_dir f') = sd_staged (df_dir f) @ concat (map re_data evs) \<and>
         ck_bytes (df_state f') = ck_bytes (df_state f) + length (concat (map re_data evs)) \<and>
         ck_validator (df_state f') = ck_validator (df_state f) \<and> ck_total (df_state f') = ck_total (df_state f)"
  using assms
proof (induction evs fin f rule: read_body.induct)
  case (2 ev evs fin f)
  obtain u f1 where w: "df_write (re_write ev) (re_data ev) f = (Inr u, f1)"
    using 2(2,3) by (auto split: sum.splits prod.splits)
  let ?f2 = "df_checkpoint False (re_late ev) (re_save ev) f1"
  have "read_body evs fin ?f2 = (Inr body, f')" using 2(2,3) w by simp
  with 2 w have "body = fin \<and> sd_staged (df_dir f') = sd_staged (df_dir ?f2) @ concat (map re_data evs) \<and>
      ck_bytes (df_state f') = ck_bytes (df_state ?f2) + length (concat (map re_data evs)) \<and>
      ck_validator (df_state f') = ck_validator (df_state ?f2) \<and> ck_total (df_state f') = ck_total (df_state ?f2)"
    by simp
  with df_write_ok [OF w] show ?case by simp
qed simp

lemma restart_inv: "df_restart io unlink f = (Inr u, f') \<Longrightarrow> attempt_inv content opts f'"
  by (simp add: attempt_inv_def resumable_def df_ok_def df_restart_fresh)

lemma attempt_good_wait:
  "attempt_inv content opts f \<Longrightarrow> attempt_good content opts (wait_and_retry env policy n delay retry_delay) f"
  by (simp add: attempt_good_def wait_and_retry_def cancelled_def split: sum.splits)

lemma attempt_good_error [simp]:
  "attempt_good content opts (cancelled e n) f" "attempt_good content opts (storage_error e n) f"
  "attempt_good content opts (Done (Inl x)) f"
  by (simp_all add: attempt_good_def cancelled_def storage_error_def)

lemma body_failed_good:
  assumes "df_ok f" "prefix (sd_staged (df_dir f)) (content (ck_validator (df_state f)))"
    and "body_failed env opts n retry_delay e f = (res, f')"
  shows "attempt_good content opts res f'"
proof (cases "resumable opts f")
  case True
  with assms show ?thesis
    by (auto simp: body_failed_def Let_def resumable_def attempt_inv_def df_ok_def
        split: sum.splits if_splits intro!: attempt_good_wait)
next
  case False
  with assms(3) show ?thesis
    by (auto simp: body_failed_def Let_def resumable_def split: sum.splits if_splits prod.splits
        intro!: attempt_good_wait restart_inv)
qed

lemma finish_body_good:
  assumes ok: "df_ok f" and v: "ck_validator (df_state f) = v"
    and pre: "prefix (sd_staged (df_dir f)) (content v)"
    and total: "ck_total (df_state f) > 0 \<longrightarrow> ck_total (df_state f) = int (length (content v))"
    and full: "is_ok body \<Longrightarrow> sd_staged (df_dir f) = content v \<or> ck_total (df_state f) = int (length (content v))"
    and fin: "finish_body env opts n retry_delay body f = (res, f')"
  shows "attempt_good content opts res f'"
proof (cases "try_bind body (\<lambda>_. if ck_total (df_state f) > 0 \<and> int (ck_bytes (df_state f)) \<noteq> ck_total (df_state f)
                              then Inl ''unexpected EOF'' else Inr ())")
  case (Inl e)
  with fin show ?thesis using body_failed_good [OF ok, of content] pre v by (simp add: finish_body_def)
next
  case (Inr u)
  then obtain b where b: "body = Inr b"
    and t: "\<not> (ck_total (df_state f) > 0 \<and> int (ck_bytes (df_state f)) \<noteq> ck_total (df_state f))"
    by (cases body) (auto split: if_splits)
  have len: "length (sd_staged (df_dir f)) = ck_bytes (df_state f)" using ok by (simp add: df_ok_def)
  have whole: "sd_staged (df_dir f) = content v" if "ck_bytes (df_state f) \<noteq> 0"
  proof -
    have "length (sd_staged (df_dir f)) \<le> length (content v)" using pre by (rule prefix_length_le)
    with that len t full b have "sd_staged (df_dir f) = content v \<or> length (sd_staged (df_dir f)) = length (content v)"
      by (auto simp: is_ok_def)
    then show ?thesis using pre by (auto simp: prefix_def)
  qed
  show ?thesis
  proof (cases "ck_bytes (df_state f) = 0")
    case True
    with fin Inr show ?thesis by (auto simp: finish_body_def)
  next
    case False
    obtain r f1 where p: "df_publish (ae_sync env) (ae_check_publish env) (ae_rename env) (ae_unlinked env) f = (r, f1)"
      by force
    from df_publish_cases [OF p] p fin Inr False whole len show ?thesis
      by (auto simp: finish_body_def attempt_good_def storage_error_def intro!: exI [of _ v])
  qed
qed

text \<open>The two ways \<open>receive\<close> can go on, with the intermediate files named.\<close>

lemma receive_cases:
  assumes "receive env opts cr n retry_delay from t f = (res, f')"
  obtains (rewind) e where "df_rewind (ae_io env) 0 f = (Inl e, f')" "res = storage_error e n"
  | (stuck) e f1 where "f1 = f \<or> (\<exists>u. df_rewind (ae_io env) 0 f = (Inr u, f1))"
      "read_body (tr_reads t) (tr_end t)
         (accept_response cr (if hr_status (tr_response t) = 200 then 0 else from) (tr_response t) f1) = (Inl e, f')"
      "res = storage_error (''failed to write staged file: '' @ e) n"
  | (body) b f1 f2 where
      "if from > 0 \<and> hr_status (tr_response t) = 200 then \<exists>u. df_rewind (ae_io env) 0 f = (Inr u, f1) else f1 = f"
      "read_body (tr_reads t) (tr_end t)
         (accept_response cr (if hr_status (tr_response t) = 200 then 0 else from) (tr_response t) f1) = (Inr b, f2)"
      "finish_body env opts n retry_delay b f2 = (res, f')"
proof -
  obtain rewound f1 where rw: "(if from > 0 \<and> hr_status (tr_response t) = 200 then df_rewind (ae_io env) 0 f else (Inr (), f)) =
      (rewound, f1)" by force
  obtain rb f2 where rb: "read_body (tr_reads t) (tr_end t)
      (accept_response cr (if hr_status (tr_response t) = 200 then 0 else from) (tr_response t) f1) = (rb, f2)" by force
  have eq: "(res, f') = (case rewound of Inl e \<Rightarrow> (storage_error e n, f1)
      | Inr _ \<Rightarrow> case rb of Inl e \<Rightarrow> (storage_error (''failed to write staged file: '' @ e) n, f2)
                  | Inr b \<Rightarrow> finish_body env opts n retry_delay b f2)"
    unfolding assms [symmetric] receive_def Let_def rw rb split_conv by simp
  show thesis
  proof (cases rewound)
    case (Inl e)
    with rw eq show thesis by (intro rewind [of e]) (simp_all split: if_splits)
  next
    case rw_ok: (Inr u)
    show thesis
    proof (cases rb)
      case (Inl e)
      with rw eq rw_ok rb show thesis by (intro stuck [of f1 e]) (simp_all split: if_splits)
    next
      case (Inr b)
      with rw eq rw_ok rb show thesis by (intro body [of f1 b f2]) (simp_all split: if_splits)
    qed
  qed
qed

lemma accept_response_fields [simp]:
  "df_dir (accept_response cr from r f) = df_dir f"
  "ck_bytes (df_state (accept_response cr from r f)) = ck_bytes (df_state f)"
  "ck_total (df_state (accept_response cr from r f)) = response_total cr from r"
  "ck_validator (df_state (accept_response cr from r f)) =
     (if resp_validator r \<noteq> [] then resp_validator r else ck_validator (df_state f))"
  by (simp_all add: accept_response_def)

lemma carried_body_good:
  assumes carried: "carries content v n t"
    and start: "sd_staged (df_dir f) = take n (content v)" "ck_bytes (df_state f) = n"
    and v: "ck_validator (df_state f) = v" and total: "ck_total (df_state f) = response_total False n (tr_response t)"
    and body: "read_body (tr_reads t) (tr_end t) f = (Inr b, f1)"
    and fin: "finish_body env opts k retry_delay b f1 = (res, f')"
  shows "attempt_good content opts res f'"
proof -
  let ?data = "concat (map re_data (tr_reads t))"
  have n: "n \<le> length (content v)" and all: "list_all (\<lambda>ev. re_data ev \<noteq> []) (tr_reads t)"
    and data: "prefix ?data (drop n (content v))"
    and len: "response_total False n (tr_response t) > 0 \<longrightarrow> response_total False n (tr_response t) = int (length (content v))"
    and full: "is_ok (tr_end t) \<Longrightarrow> ?data = drop n (content v) \<or> response_total False n (tr_response t) = int (length (content v))"
    using carried unfolding carries_def Let_def by blast+
  note f1 = read_body_ok [OF body all]
  show ?thesis
  proof (rule finish_body_good [OF _ _ _ _ _ fin])
    show "df_ok f1" using f1 start n by (simp add: df_ok_def)
    show "ck_validator (df_state f1) = v" using f1 v by simp
    show "prefix (sd_staged (df_dir f1)) (content v)"
      using f1 start data by (metis append_take_drop_id same_prefix_prefix)
    show "ck_total (df_state f1) > 0 \<longrightarrow> ck_total (df_state f1) = int (length (content v))"
      using f1 total len by simp
    show "sd_staged (df_dir f1) = content v \<or> ck_total (df_state f1) = int (length (content v))" if "is_ok b"
      using f1 total start full that by (metis append_take_drop_id)
  qed
qed

lemma receive_good:
  assumes inv: "attempt_inv content opts f" and start: "from = range_start opts f"
    and kind: "hr_status (tr_response t) = 200 \<and> v = resp_validator (tr_response t) \<and> v \<noteq> [] \<and> carries content v 0 t \<or>
               hr_status (tr_response t) = 206 \<and> 0 < from \<and> v = ck_validator (df_state f) \<and>
               resp_validator (tr_response t) \<in> {[], v} \<and> carries content v from t"
    and got: "receive env opts False n retry_delay from t f = (res, f')"
  shows "attempt_good content opts res f'"
  using got
proof (cases rule: receive_cases)
  case (body b f1 f2)
  let ?n = "if hr_status (tr_response t) = 200 then 0 else from"
  let ?g = "accept_response False ?n (tr_response t) f1"
  have carried: "carries content v ?n t" using kind by auto
  have staged: "sd_staged (df_dir ?g) = take ?n (content v)" "ck_bytes (df_state ?g) = ?n"
    using kind body(1) inv start carried df_rewind_zero [of "ae_io env" f _ f1]
    by (auto simp: attempt_inv_def resumable_def range_start_def df_ok_def carries_def prefix_def split: if_splits)
  have "ck_validator (df_state ?g) = v" using kind body(1) by (auto split: if_splits)
  from carried_body_good [OF carried staged this _ body(2,3)] show ?thesis by simp
qed simp_all

lemma open_failed_good:
  assumes "attempt_inv content opts f" "open_failed env opts n retry_delay e f = (res, f')"
  shows "attempt_good content opts res f'"
proof (cases "ck_bytes (df_state f) > 0 \<and> (\<not> do_resume opts \<or> ck_validator (df_state f) = [])")
  case True
  with assms(1) show ?thesis by (auto simp: attempt_inv_def resumable_def)
next
  case False
  with assms show ?thesis
    by (auto simp: open_failed_def split: sum.splits if_splits intro!: attempt_good_wait)
qed

lemma bad_status_good:
  "attempt_inv content opts f \<Longrightarrow> attempt_good content opts (bad_status env opts n retry_delay r) f"
  by (simp add: bad_status_def Let_def attempt_good_wait)

lemma download_attempt_good:
  assumes inv: "attempt_inv content opts f" and wf: "bt_wf (do_headers opts)"
    and plain: "\<not> has_range_header (do_headers opts)" and server: "labels_versions content (ae_serve env)"
    and run: "download_attempt env opts False n retry_delay f = (res, f')"
  shows "attempt_good content opts res f'"
proof (cases "ae_check env")
  case (Inl e)
  with run show ?thesis by (auto simp: download_attempt_def)
next
  case check: (Inr u)
  let ?from = "range_start opts f"
  show ?thesis
  proof (cases "ae_serve env (request_headers opts f)")
    case (Inl e)
    with run check show ?thesis using open_failed_good [OF inv] by (simp add: download_attempt_def)
  next
    case (Inr t)
    let ?r = "tr_response t"
    show ?thesis
    proof (cases "200 \<le> hr_status ?r \<and> hr_status ?r < 300")
      case False
      with run check Inr show ?thesis using bad_status_good [OF inv] by (auto simp: download_attempt_def)
    next
      case ok: True
      show ?thesis
      proof (cases "partial_rejected env n ?from ?r f")
        case (Some x)
        with run check Inr ok show ?thesis by (auto simp: download_attempt_def)
      next
        case None
        have got: "receive env opts False n retry_delay ?from t f = (res, f')"
          using run check Inr ok None by (simp add: download_attempt_def)
        from server Inr ok consider
          (whole) "hr_status ?r = 200" "resp_validator ?r \<noteq> []" "carries content (resp_validator ?r) 0 t"
          | (part) k w where "hr_status ?r = 206"
            "bt_get (request_headers opts f) ''Range'' = Some (''bytes='' @ show_nat k @ ''-'')"
            "bt_get (request_headers opts f) ''If-Range'' = Some w"
            "carries content (if resp_validator ?r = [] then w else resp_validator ?r) k t"
          unfolding labels_versions_def Let_def by blast
        then show ?thesis
        proof cases
          case whole
          then show ?thesis using receive_good [OF inv refl _ got] by blast
        next
          case part
          have pos: "0 < ?from"
            using part(2) request_headers_plain [OF plain] by (metis gr0I option.distinct(1))
          note hs = request_headers_range [OF wf pos]
          have k: "k = ?from" using part(2) hs(1) by (intro show_nat_inject) simp
          have w: "w = ck_validator (df_state f)" using part(3) hs(2) by simp
          have same: "resp_validator ?r \<in> {[], ck_validator (df_state f)}"
            using None pos part(1) by (auto simp: partial_rejected_def Let_def split: if_splits)
          have "carries content (ck_validator (df_state f)) ?from t"
            using part(4) same k w by (auto split: if_splits)
          with part(1) pos same show ?thesis using receive_good [OF inv refl _ got] by blast
        qed
      qed
    qed
  qed
qed

lemma download_attempts_good:
  assumes "attempt_inv content opts f" "bt_wf (do_headers opts)" "\<not> has_range_header (do_headers opts)"
    and "list_all (\<lambda>env. labels_versions content (ae_serve env)) envs"
    and "download_attempts envs opts False n retry_delay f = Some (Inr s, f')"
  shows "\<exists>v. sd_target (df_dir f') = Some (content v) \<and> ds_size s = length (content v) \<and> content v \<noteq> []"
  using assms
proof (induction envs arbitrary: n retry_delay f)
  case (Cons env envs)
  obtain res f1 where a: "download_attempt env opts False n retry_delay f = (res, f1)" by force
  have good: "attempt_good content opts res f1"
    using download_attempt_good [OF Cons.prems(1,2,3) _ a] Cons.prems(4) by simp
  show ?case
  proof (cases res)
    case (Done r)
    with Cons.prems(5) a good show ?thesis by (auto simp: attempt_good_def)
  next
    case (Again d)
    with good have "attempt_inv content opts f1" by (simp add: attempt_good_def)
    with Cons.IH Cons.prems(2,3,4,5) a Again show ?thesis by simp
  qed
qed simp

section \<open>Integrity, termination and failure of a download\<close>

text \<open>A checkpoint on disk names the version that its bytes of the staged file begin.\<close>

definition checkpoint_honest :: "(string \<Rightarrow> u8 list) \<Rightarrow> staging_dir \<Rightarrow> bool" where
  "checkpoint_honest content dir \<longleftrightarrow>
     (case sd_checkpoint dir of
        None \<Rightarrow> True
      | Some s \<Rightarrow> prefix (take (ck_bytes s) (sd_staged dir)) (content (ck_validator s)) \<and>
                  (ck_total s > 0 \<longrightarrow> ck_total s = int (length (content (ck_validator s)))))"

lemma opened_inv:
  assumes "df_open io fp (do_resume opts \<and> do_persistent opts \<and> fp \<noteq> []) dir = Inr f" "checkpoint_honest content dir"
  shows "attempt_inv content opts f"
proof (cases "df_restored f")
  case True
  with df_open_ok [OF assms(1)] assms(2) show ?thesis
    by (auto simp: attempt_inv_def resumable_def checkpoint_honest_def)
next
  case False
  with df_open_ok [OF assms(1)] show ?thesis
    by (auto simp: attempt_inv_def resumable_def)
qed

lemma restored_complete:
  assumes "df_open io fp keep dir = Inr f" "checkpoint_honest content dir" "df_restored f"
    and "ck_total (df_state f) > 0" "int (ck_bytes (df_state f)) = ck_total (df_state f)"
  shows "sd_staged (df_dir f) = content (ck_validator (df_state f))"
proof -
  from df_open_ok(1,5) [OF assms(1)] assms(3) obtain s where s: "sd_checkpoint dir = Some s"
    "ck_validator (df_state f) = ck_validator s" "ck_total (df_state f) = ck_total s"
    "sd_staged (df_dir f) = take (ck_bytes s) (sd_staged dir)" "length (sd_staged (df_dir f)) = ck_bytes (df_state f)"
    by (auto simp: df_ok_def)
  with assms(2,4,5) have "prefix (sd_staged (df_dir f)) (content (ck_validator s))"
    and "length (sd_staged (df_dir f)) = length (content (ck_validator s))"
    by (simp_all add: checkpoint_honest_def)
  with s(2) show ?thesis by (auto simp: prefix_def)
qed

lemma publish_restored_ok:
  assumes "publish_restored env f = (Inr s, f')"
  shows "sd_target (df_dir f') = Some (sd_staged (df_dir f)) \<and> ds_size s = ck_bytes (df_state f)"
proof -
  obtain r f1 where p: "df_publish (ae_sync env) (ae_check_publish env) (ae_rename env) (ae_unlinked env) f = (r, f1)"
    by force
  from df_publish_cases [OF p] p assms show ?thesis by (auto simp: publish_restored_def)
qed

text \<open>
  C1. A successful download publishes one complete version of the resource, under these conditions: the caller passes
  no \<open>Range\<close> header of its own, the server labels its versions (each version has its own
  \<open>ETag\<close> or date, and successful answers are a 200 that names it or a 206 for the range asked, never
  another 2xx status), and the download starts from a missing checkpoint or from an honest one, whose part file is a
  prefix of the version that it names. Then, whatever the attempts run into (refused connections, error statuses,
  broken or truncated bodies, rotated versions, failed checkpoints), the target is exactly the content of some
  version, never a mix of two, it is not empty, and the size reported is its length. (A restart whose rewind is not
  followed by a successful write can leave a checkpoint that is not honest, see the findings.)
\<close>

theorem download_publishes_one_version:
  assumes "bt_wf (do_headers opts)" "\<not> has_range_header (do_headers opts)"
    and "checkpoint_honest content dir"
    and "list_all (\<lambda>env. labels_versions content (ae_serve env)) envs"
    and "download lock open_io restore_env envs fp opts dir = Some (Inr s, dir')"
  shows "\<exists>v. sd_target dir' = Some (content v) \<and> ds_size s = length (content v) \<and> content v \<noteq> []"
proof -
  have opts: "effective_options opts = opts" using assms(2) by (simp add: effective_options_def)
  obtain f f1 where f: "df_open open_io fp (do_resume opts \<and> do_persistent opts \<and> fp \<noteq> []) dir = Inr f"
    and run: "download_opened restore_env envs opts False f = Some (Inr s, f1)" and dir': "dir' = df_drop f1"
    using assms(2,5) by (auto simp: download_def Let_def opts split: sum.splits)
  show ?thesis
  proof (cases "restored_whole f")
    case True
    have whole: "sd_staged (df_dir f) = content (ck_validator (df_state f))"
      using restored_complete [OF f assms(3)] True by (simp add: restored_whole_def)
    moreover have "ck_bytes (df_state f) = length (content (ck_validator (df_state f)))"
      using df_open_ok(1) [OF f] whole by (simp add: df_ok_def)
    ultimately show ?thesis
      using True run dir' publish_restored_ok [of restore_env f s f1]
      by (intro exI [of _ "ck_validator (df_state f)"]) (auto simp: download_opened_def restored_whole_def)
  next
    case False
    with download_attempts_good [OF opened_inv [OF f assms(3)] assms(1,2,4)] run dir' show ?thesis
      by (simp add: download_opened_def)
  qed
qed

text \<open>What an attempt reports: its own number, or zero when only the publication failed.\<close>

definition reported_attempts :: "(failure, download_success) result \<Rightarrow> nat" where
  "reported_attempts r = (case r of Inl x \<Rightarrow> fa_attempts x | Inr s \<Rightarrow> ds_attempts s)"

text \<open>
  The outcome of attempt \<open>n\<close>: it is retried only before the last attempt, it reports its number,
  and the target changes only when it succeeds.
\<close>

definition attempt_frame :: "download_options \<Rightarrow> nat \<Rightarrow> download_file \<Rightarrow> attempt_end \<times> download_file \<Rightarrow> bool" where
  "attempt_frame opts n f out \<longleftrightarrow>
     (case out of
        (Again _, f') \<Rightarrow> int n \<noteq> tp_max_attempts (do_policy opts) \<and> sd_target (df_dir f') = sd_target (df_dir f)
      | (Done r, f') \<Rightarrow> reported_attempts r \<in> {0, n} \<and> (\<not> is_ok r \<longrightarrow> sd_target (df_dir f') = sd_target (df_dir f)))"

lemma attempt_frame_error [simp]:
  "attempt_frame opts n f (cancelled e n, f') \<longleftrightarrow> sd_target (df_dir f') = sd_target (df_dir f)"
  "attempt_frame opts n f (storage_error e n, f') \<longleftrightarrow> sd_target (df_dir f') = sd_target (df_dir f)"
  "attempt_frame opts n f (storage_error e 0, f') \<longleftrightarrow> sd_target (df_dir f') = sd_target (df_dir f)"
  "attempt_frame opts n f (Done (Inl (failure_new kind e n)), f') \<longleftrightarrow> sd_target (df_dir f') = sd_target (df_dir f)"
  by (simp_all add: attempt_frame_def reported_attempts_def cancelled_def storage_error_def failure_new_def is_ok_def)

lemma wait_and_retry_frame:
  "int n \<noteq> tp_max_attempts (do_policy opts) \<Longrightarrow> sd_target (df_dir f') = sd_target (df_dir f) \<Longrightarrow>
   attempt_frame opts n f (wait_and_retry env policy n delay retry_delay, f')"
  by (auto simp: wait_and_retry_def attempt_frame_def cancelled_def reported_attempts_def failure_new_def
      split: sum.splits)

lemma open_failed_frame: "attempt_frame opts n f (open_failed env opts n retry_delay e f)"
  by (auto simp: open_failed_def Let_def split: sum.splits prod.splits if_splits
      intro!: wait_and_retry_frame dest: df_restart_frame)

lemma status_failure_attempts: "fa_attempts (status_failure date now r policy n) = n"
  by (simp add: status_failure_def failure_new_def Let_def)

lemma bad_status_frame: "attempt_frame opts n f (bad_status env opts n retry_delay r, f)"
proof (cases "\<not> retryable (hr_status r) \<or> int n = tp_max_attempts (do_policy opts)")
  case True
  then show ?thesis
    by (auto simp: bad_status_def Let_def attempt_frame_def reported_attempts_def status_failure_attempts)
next
  case False
  then show ?thesis by (auto simp: bad_status_def Let_def intro: wait_and_retry_frame)
qed

lemma body_failed_frame: "attempt_frame opts n f (body_failed env opts n retry_delay e f)"
  by (auto simp: body_failed_def Let_def split: sum.splits prod.splits if_splits
      intro!: wait_and_retry_frame dest: df_restart_frame)

lemma attempt_frame_trans:
  "attempt_frame opts n f1 out \<Longrightarrow> sd_target (df_dir f1) = sd_target (df_dir f) \<Longrightarrow> attempt_frame opts n f out"
  by (simp add: attempt_frame_def split: prod.splits attempt_end.splits)

lemma finish_body_frame: "attempt_frame opts n f (finish_body env opts n retry_delay body f)"
proof -
  obtain r f1 where p: "df_publish (ae_sync env) (ae_check_publish env) (ae_rename env) (ae_unlinked env) f = (r, f1)"
    by force
  from df_publish_cases [OF p] show ?thesis
    by (auto simp: finish_body_def p body_failed_frame attempt_frame_def [of _ _ _ "(Done (Inr _), _)"]
        reported_attempts_def is_ok_def split: sum.splits)
qed

lemma read_body_target:
  "read_body evs fin f = (r, f') \<Longrightarrow> sd_target (df_dir f') = sd_target (df_dir f)"
  by (induction evs fin f rule: read_body.induct)
    (auto split: if_splits prod.splits sum.splits dest: df_write_target)

lemma receive_frame: "attempt_frame opts n f (receive env opts cr n retry_delay from t f)"
proof -
  obtain res f' where got: "receive env opts cr n retry_delay from t f = (res, f')" by force
  from got have "attempt_frame opts n f (res, f')"
  proof (cases rule: receive_cases)
    case (rewind e)
    then show ?thesis using df_rewind_frame(1) by simp
  next
    case (stuck e f1)
    then show ?thesis using df_rewind_frame(1) read_body_target [OF stuck(2)] by auto
  next
    case (body b f1 f2)
    then have "sd_target (df_dir f2) = sd_target (df_dir f)"
      using df_rewind_frame(1) read_body_target [OF body(2)] by (auto split: if_splits)
    with attempt_frame_trans [OF finish_body_frame] body(3) show ?thesis by metis
  qed
  with got show ?thesis by simp
qed

lemma rejected_frame:
  "partial_rejected env n start r f = Some x \<Longrightarrow> attempt_frame opts n f (Done (Inl x), f)"
  by (auto simp: partial_rejected_def Let_def attempt_frame_def reported_attempts_def failure_new_def split: if_splits)

lemma download_attempt_frame: "attempt_frame opts n f (download_attempt env opts cr n retry_delay f)"
  by (auto simp: download_attempt_def Let_def open_failed_frame bad_status_frame receive_frame rejected_frame
      split: sum.splits option.splits)

lemma download_attempts_end:
  assumes "int n \<le> tp_max_attempts (do_policy opts)" "tp_max_attempts (do_policy opts) < int n + int (length envs)"
  shows "\<exists>r f'. download_attempts envs opts cr n retry_delay f = Some (r, f') \<and>
           int (reported_attempts r) \<le> tp_max_attempts (do_policy opts)"
  using assms
proof (induction envs arbitrary: n retry_delay f)
  case (Cons env envs)
  obtain res f1 where a: "download_attempt env opts cr n retry_delay f = (res, f1)" by force
  have frame: "attempt_frame opts n f (res, f1)" using download_attempt_frame [of opts n f env cr retry_delay] a by simp
  show ?case
  proof (cases res)
    case (Done r)
    with frame Cons.prems(1) a show ?thesis by (auto simp: attempt_frame_def)
  next
    case (Again d)
    with frame Cons.prems have "int (n + 1) \<le> tp_max_attempts (do_policy opts)"
      "tp_max_attempts (do_policy opts) < int (n + 1) + int (length envs)"
      by (auto simp: attempt_frame_def)
    from Cons.IH [OF this] a Again show ?thesis by simp
  qed
qed simp

lemma download_attempts_target:
  assumes "download_attempts envs opts cr n retry_delay f = Some (r, f')" "\<not> is_ok r"
  shows "sd_target (df_dir f') = sd_target (df_dir f)"
  using assms
proof (induction envs arbitrary: n retry_delay f)
  case (Cons env envs)
  obtain res f1 where a: "download_attempt env opts cr n retry_delay f = (res, f1)" by force
  have frame: "attempt_frame opts n f (res, f1)" using download_attempt_frame [of opts n f env cr retry_delay] a by simp
  show ?case
  proof (cases res)
    case (Done x)
    with frame Cons.prems a show ?thesis by (auto simp: attempt_frame_def)
  next
    case (Again d)
    with frame Cons.IH Cons.prems a show ?thesis by (auto simp: attempt_frame_def)
  qed
qed simp

lemma publish_restored_frame:
  "reported_attempts (fst (publish_restored env f)) = 0 \<and>
   (\<not> is_ok (fst (publish_restored env f)) \<longrightarrow> snd (publish_restored env f) = f)"
proof -
  obtain r f1 where p: "df_publish (ae_sync env) (ae_check_publish env) (ae_rename env) (ae_unlinked env) f = (r, f1)"
    by force
  from df_publish_cases [OF p] show ?thesis
    by (auto simp: publish_restored_def p reported_attempts_def failure_new_def is_ok_def)
qed

lemma download_opened_end:
  assumes "1 \<le> tp_max_attempts (do_policy opts)" "tp_max_attempts (do_policy opts) \<le> int (length envs)"
  shows "\<exists>r f'. download_opened restore_env envs opts cr f = Some (r, f') \<and>
           int (reported_attempts r) \<le> tp_max_attempts (do_policy opts)"
  using assms publish_restored_frame [of restore_env f] download_attempts_end [of 1 opts envs]
  by (cases "publish_restored restore_env f") (simp add: download_opened_def)

lemma download_opened_target:
  assumes "download_opened restore_env envs opts cr f = Some (Inl e, f')"
  shows "sd_target (df_dir f') = sd_target (df_dir f)"
  using assms publish_restored_frame [of restore_env f] download_attempts_target [of envs opts cr]
  by (cases "publish_restored restore_env f") (auto simp: download_opened_def is_ok_def split: if_splits)

lemma effective_policy [simp]: "do_policy (effective_options opts) = do_policy opts"
  by (simp add: effective_options_def)

text \<open>
  C28. A download ends: under a bounded policy, whatever the network, the file system and the
  cancellation checks answer, at most \<open>max_attempts\<close> attempts are made before it returns, and the
  number it reports is within the limit.
\<close>

theorem download_ends_within_its_attempts:
  assumes "policy_ok (do_policy opts)" "tp_max_attempts (do_policy opts) \<le> int (length envs)"
  shows "\<exists>r dir'. download lock open_io restore_env envs fp opts dir = Some (r, dir') \<and>
           int (reported_attempts r) \<le> tp_max_attempts (do_policy opts)"
proof -
  have pos: "1 \<le> tp_max_attempts (do_policy opts)" using assms(1) by (simp add: policy_ok_def)
  have run: "\<exists>r f'. download_opened restore_env envs (effective_options opts) cr f = Some (r, f') \<and>
      int (reported_attempts r) \<le> tp_max_attempts (do_policy opts)" for cr f
    using pos assms(2) download_opened_end [of "effective_options opts" envs restore_env cr f] by simp
  show ?thesis
  proof (cases lock)
    case (Inl e)
    with pos show ?thesis by (simp add: download_def reported_attempts_def failure_new_def)
  next
    case (Inr u)
    show ?thesis
    proof (cases "df_open open_io fp (do_resume (effective_options opts) \<and> do_persistent (effective_options opts) \<and> fp \<noteq> []) dir")
      case (Inl p)
      with Inr pos show ?thesis
        by (cases p) (simp add: download_def Let_def reported_attempts_def failure_new_def)
    next
      case opened: (Inr f)
      from run [of "has_range_header (do_headers opts)" f] Inr opened show ?thesis
        by (auto simp: download_def Let_def)
    qed
  qed
qed

text \<open>
  C27. A failed download leaves the target file as it was: only a complete transfer is renamed over
  it, whichever attempt, file system call or check failed.
\<close>

theorem failed_download_keeps_target:
  assumes "download lock open_io restore_env envs fp opts dir = Some (Inl failure, dir')"
  shows "sd_target dir' = sd_target dir"
proof (cases "lock")
  case (Inl e)
  with assms show ?thesis by (simp add: download_def)
next
  case (Inr u)
  show ?thesis
  proof (cases "df_open open_io fp (do_resume (effective_options opts) \<and> do_persistent (effective_options opts) \<and> fp \<noteq> []) dir")
    case (Inl p)
    with assms Inr show ?thesis by (auto simp: download_def Let_def df_open_def split: sum.splits)
  next
    case opened: (Inr f)
    then obtain f1 where "dir' = df_drop f1"
      and "download_opened restore_env envs (effective_options opts) (has_range_header (do_headers opts)) f = Some (Inl failure, f1)"
      using assms Inr by (auto simp: download_def Let_def)
    with download_opened_target df_open_ok(3) [OF opened] show ?thesis by simp
  qed
qed

section \<open>A resumed transfer, as an instance\<close>

text \<open>The first connection breaks after two of four bytes; the second continues behind them.\<close>

definition demo_content :: "string \<Rightarrow> u8 list" where
  "demo_content v = [1, 2, 3, 4]"

definition demo_serve :: "headers \<Rightarrow> (string, transfer) result" where
  "demo_serve hs =
     (let chunk = (\<lambda>bs. \<lparr>re_data = bs, re_write = Inr (), re_late = False, re_save = SyncFailed\<rparr>) in
      case bt_get hs ''Range'' of
        None \<Rightarrow> Inr \<lparr>tr_response = \<lparr>hr_status = 200, hr_headers = [(''Content-Length'', [''4'']), (''Etag'', [''v1''])]\<rparr>,
                     tr_reads = [chunk [1, 2]], tr_end = Inl ''reset''\<rparr>
      | Some r \<Rightarrow>
          if r = ''bytes='' @ show_nat 2 @ ''-'' \<and> bt_get hs ''If-Range'' \<noteq> None
          then Inr \<lparr>tr_response = \<lparr>hr_status = 206, hr_headers = [(''Content-Range'', [''bytes 2-3/4'']), (''Etag'', [''v1''])]\<rparr>,
                    tr_reads = [chunk [3, 4]], tr_end = Inr ()\<rparr>
          else Inl ''refused'')"

definition demo_env :: attempt_env where
  "demo_env =
     \<lparr>ae_check = Inr (), ae_serve = demo_serve, ae_check_after = Inr (), ae_io = Inr (), ae_unlink = Inr (),
      ae_wait = (\<lambda>_. Inr ()), ae_jitter = None, ae_save = Saved 7, ae_sync = Inr (), ae_check_publish = Inr (),
      ae_rename = Inr (), ae_unlinked = True, ae_date = (\<lambda>_. None), ae_now = 0, ae_debug = (\<lambda>s. s)\<rparr>"

definition demo_opts :: download_options where
  "demo_opts = \<lparr>do_headers = [], do_resume = True, do_persistent = True, do_policy = policy_default\<rparr>"

definition demo_dir :: staging_dir where
  "demo_dir = \<lparr>sd_target = None, sd_staged = [], sd_checkpoint = None\<rparr>"

definition demo_file :: "u8 list \<Rightarrow> checkpoint \<Rightarrow> checkpoint option \<Rightarrow> nat \<Rightarrow> download_file" where
  "demo_file staged state saved n =
     \<lparr>df_dir = \<lparr>sd_target = None, sd_staged = staged, sd_checkpoint = saved\<rparr>, df_state = state, df_restored = False,
      df_keep_partial = True, df_promoted = False, df_saved_bytes = n\<rparr>"

definition demo_state :: "int \<Rightarrow> string \<Rightarrow> nat \<Rightarrow> int \<Rightarrow> nat \<Rightarrow> checkpoint" where
  "demo_state ver v n len stamp =
     \<lparr>ck_version = ver, ck_fingerprint = ''f'', ck_validator = v, ck_bytes = n, ck_total = len, ck_updated_at = stamp\<rparr>"

lemma demo_validator:
  assumes "h = ''Content-Length'' \<or> h = ''Content-Range''"
  shows "resp_validator \<lparr>hr_status = s, hr_headers = [(h, x), (''Etag'', [''v1''])]\<rparr> = ''v1''"
proof -
  have "trim ''v1'' = ''v1''" by (rule trim_graphic) (simp_all add: graphic_def byte_of_def)
  with assms show ?thesis
    by (auto simp: resp_validator_def resp_header_def bt_get_def to_ascii_uppercase_def ascii_upper_def
        is_ascii_lowercase_def byte_of_def)
qed

lemma demo_texts:
  "parse_i64 ''4'' = Inr 4"
  "rsplit_once (CHR ''/'') ''bytes 2-3/4'' = Some (''bytes 2-3'', ''4'')"
  "show_nat 2 = ''2''"
  "starts_with ''bytes 2-3/4'' ''bytes 2-''"
  subgoal by (simp add: parse_i64_def i64_max_def is_ascii_digit_def byte_of_def)
  subgoal by code_simp
  subgoal by code_simp
  subgoal by code_simp
  done

lemmas demo_receive = receive_def accept_response_def response_total_def demo_validator resp_header_def bt_get_def
  parse_i64_or_def demo_texts df_write_def df_checkpoint_def

lemma demo_first:
  "download_attempt demo_env demo_opts False 1 500000000 (demo_file [] (demo_state 0 [] 0 0 0) None 0) =
   (Again 1000000000, demo_file [1, 2] (demo_state 1 ''v1'' 2 4 7) (Some (demo_state 1 ''v1'' 2 4 7)) 2)"
  apply (simp add: download_attempt_def demo_env_def demo_opts_def demo_file_def demo_state_def range_start_def
      request_headers_def demo_serve_def bt_get_def partial_rejected_def)
  apply (simp add: demo_receive)
  apply (simp add: finish_body_def body_failed_def df_checkpoint_def df_save_def policy_default_def wait_and_retry_def
      next_delay_def Let_def)
  done

lemma demo_second:
  "download_attempt demo_env demo_opts False n d
     (demo_file [a, b] (demo_state 1 ''v1'' 2 4 7) (Some (demo_state 1 ''v1'' 2 4 7)) 2) =
   (Done (Inr \<lparr>ds_size = 4, ds_attempts = n, ds_resumed = False\<rparr>),
    (demo_file [] (demo_state 1 ''v1'' 4 4 7) None 2)
      \<lparr>df_dir := \<lparr>sd_target = Some [a, b, 3, 4], sd_staged = [], sd_checkpoint = None\<rparr>, df_promoted := True\<rparr>)"
proof -
  let ?f = "demo_file [a, b] (demo_state 1 ''v1'' 2 4 7) (Some (demo_state 1 ''v1'' 2 4 7)) 2"
  have start: "range_start demo_opts ?f = 2"
    by (simp add: range_start_def demo_opts_def demo_file_def demo_state_def)
  have wf: "bt_wf (do_headers demo_opts)" by (simp add: demo_opts_def)
  have pos: "0 < range_start demo_opts ?f" by (simp add: start)
  note hs = request_headers_range [OF wf pos, unfolded start]
  have served: "demo_serve (request_headers demo_opts ?f) =
      Inr \<lparr>tr_response = \<lparr>hr_status = 206, hr_headers = [(''Content-Range'', [''bytes 2-3/4'']), (''Etag'', [''v1''])]\<rparr>,
           tr_reads = [\<lparr>re_data = [3, 4], re_write = Inr (), re_late = False, re_save = SyncFailed\<rparr>], tr_end = Inr ()\<rparr>"
    by (simp add: demo_serve_def hs)
  show ?thesis
    apply (simp add: download_attempt_def demo_env_def start served partial_rejected_def resp_header_def bt_get_def
        demo_texts demo_validator)
    apply (simp add: demo_receive finish_body_def df_publish_def demo_file_def demo_state_def)
    done
qed

lemma demo_opened:
  "download (Inr ()) (Inr ()) demo_env envs ''f'' demo_opts demo_dir =
     map_option (\<lambda>(r, f1). (r, df_drop f1))
       (download_attempts envs demo_opts False 1 500000000 (demo_file [] (demo_state 0 [] 0 0 0) None 0))"
proof -
  have "df_open (Inr ()) ''f'' True demo_dir = Inr (demo_file [] (demo_state 0 [] 0 0 0) None 0)"
    by (simp add: df_open_def opened_file_def restored_state_def truncate_staged_def checkpoint_default_def set_len_def
        demo_dir_def demo_file_def demo_state_def)
  moreover have "\<not> restored_whole (demo_file [] (demo_state 0 [] 0 0 0) None 0)"
    by (simp add: restored_whole_def demo_file_def)
  moreover have "nat (tp_initial_retry_delay_ms (do_policy demo_opts)) * 1000000 = 500000000"
    and "effective_options demo_opts = demo_opts" and "do_resume demo_opts" "do_persistent demo_opts"
    and "\<not> has_range_header (do_headers demo_opts)"
    by (simp_all add: demo_opts_def policy_default_def effective_options_def has_range_header_def)
  ultimately show ?thesis by (simp add: download_def download_opened_def)
qed

lemma demo_download:
  "download (Inr ()) (Inr ()) demo_env [demo_env, demo_env, demo_env] ''f'' demo_opts demo_dir =
     Some (Inr \<lparr>ds_size = 4, ds_attempts = 2, ds_resumed = False\<rparr>,
           \<lparr>sd_target = Some [1, 2, 3, 4], sd_staged = [], sd_checkpoint = None\<rparr>)"
  unfolding demo_opened using demo_first demo_second
  by (simp add: demo_file_def [of "[]" "demo_state 1 _ _ _ _"] df_drop_def numeral_2_eq_2)

definition unlabelled_env :: attempt_env where
  "unlabelled_env = demo_env\<lparr>ae_serve := \<lambda>_.
     Inr \<lparr>tr_response = \<lparr>hr_status = 200, hr_headers = [(''Content-Length'', [''4''])]\<rparr>,
          tr_reads = [\<lparr>re_data = [9, 9], re_write = Inr (), re_late = False, re_save = SyncFailed\<rparr>],
          tr_end = Inl ''reset''\<rparr>\<rparr>"

lemma unlabelled_attempt:
  "download_attempt unlabelled_env demo_opts False 2 1000000000
     (demo_file [1, 2] (demo_state 1 ''v1'' 2 4 7) (Some (demo_state 1 ''v1'' 2 4 7)) 2) =
   (Again 2000000000, demo_file [9, 9] (demo_state 1 ''v1'' 2 4 7) (Some (demo_state 1 ''v1'' 2 4 7)) 2)"
proof -
  have none: "resp_validator \<lparr>hr_status = 200, hr_headers = [(''Content-Length'', [''4''])]\<rparr> = []"
    by (simp add: resp_validator_def resp_header_def bt_get_def trim_def trim_end_def)
  show ?thesis
    apply (simp add: download_attempt_def unlabelled_env_def demo_env_def demo_opts_def demo_file_def demo_state_def
        range_start_def partial_rejected_def)
    apply (simp add: demo_receive none df_rewind_def truncate_staged_def set_len_def)
    apply (simp add: finish_body_def body_failed_def df_checkpoint_def df_save_def policy_default_def wait_and_retry_def
        next_delay_def Let_def)
    done
qed

text \<open>
  Without the label the guarantee of one version is lost. The second answer is another version,
  in full and without a validator, and breaks off; the validator of the first version is kept, the
  third request names it in \<open>If-Range\<close>, and the published file mixes the two versions.
\<close>

theorem unlabelled_restart_mixes_versions:
  "download (Inr ()) (Inr ()) demo_env [demo_env, unlabelled_env, demo_env] ''f'' demo_opts demo_dir =
     Some (Inr \<lparr>ds_size = 4, ds_attempts = 3, ds_resumed = False\<rparr>,
           \<lparr>sd_target = Some [9, 9, 3, 4], sd_staged = [], sd_checkpoint = None\<rparr>)"
  unfolding demo_opened using demo_first unlabelled_attempt demo_second [of 3]
  by (simp add: demo_file_def [of "[]" "demo_state 1 _ _ _ _"] df_drop_def numeral_2_eq_2 numeral_3_eq_3)

lemma demo_server: "labels_versions demo_content (ae_serve demo_env)"
proof -
  have p: "prefix [1, 2] [1, 2, 3, 4::u8]" "prefix [3, 4] [3, 4::u8]"
    by (auto simp: prefix_def)
  have "response_total False 0 \<lparr>hr_status = 200, hr_headers = [(''Content-Length'', [''4'']), (''Etag'', [''v1''])]\<rparr> = 4"
    "response_total False 2 \<lparr>hr_status = 206, hr_headers = [(''Content-Range'', [''bytes 2-3/4'']), (''Etag'', [''v1''])]\<rparr> = 4"
    by (simp_all add: response_total_def resp_header_def bt_get_def parse_i64_or_def demo_texts)
  with p show ?thesis
    by (auto simp: labels_versions_def demo_env_def demo_serve_def carries_def demo_validator demo_content_def is_ok_def Let_def
        split: option.splits if_splits intro!: exI [of _ 2])
qed

theorem download_publishes_one_version_witness:
  "\<exists>v. sd_target \<lparr>sd_target = Some [1, 2, 3, 4], sd_staged = [], sd_checkpoint = None\<rparr> = Some (demo_content v) \<and>
       ds_size \<lparr>ds_size = 4, ds_attempts = 2, ds_resumed = False\<rparr> = length (demo_content v) \<and> demo_content v \<noteq> []"
  by (rule download_publishes_one_version [OF _ _ _ _ demo_download])
    (simp_all add: demo_server demo_opts_def has_range_header_def checkpoint_honest_def demo_dir_def)

theorem download_ends_within_its_attempts_witness:
  "\<exists>r dir'. download (Inr ()) (Inr ()) demo_env [demo_env, demo_env, demo_env] ''f'' demo_opts demo_dir = Some (r, dir') \<and>
     int (reported_attempts r) \<le> tp_max_attempts (do_policy demo_opts)"
  by (rule download_ends_within_its_attempts) (simp_all add: demo_opts_def policy_default_ok, simp add: policy_default_def)

theorem failed_download_keeps_target_witness:
  "sd_target \<lparr>sd_target = Some [9], sd_staged = [], sd_checkpoint = None\<rparr> = sd_target (demo_dir\<lparr>sd_target := Some [9]\<rparr>)"
  by (rule failed_download_keeps_target [where lock = "Inr ()" and open_io = "Inl (NotOpened, ''full'')" and envs = "[]" and
        fp = "''f''" and opts = demo_opts and restore_env = demo_env and
        failure = "failure_new ''storage_error'' (''failed to create staged file: '' @ ''full'') 0"])
    (simp add: download_def df_open_def open_left_def opened_file_def restored_state_def demo_dir_def demo_opts_def
      effective_options_def has_range_header_def)

end
