(* ===== verification/Segment_Store.thy ===== *)
theory Segment_Store
  imports Download_Store
begin

text \<open>
  The output of a segmented download (\<open>crates/extensions/src/download/segment_store.rs\<close>): segments
  are appended in order to a staged file, a checkpoint says how many of them it holds, and the target
  is replaced by a rename at the end. The directory holds the target, the staged file (a missing one
  is empty) and the checkpoint as it would be read back. A segment's own file, which only its worker
  and then the assembly use, travels with the segment as its bytes.
\<close>

section \<open>State\<close>

record seg_checkpoint =
  sk_version :: int
  sk_fingerprint :: string
  sk_next_index :: nat
  sk_bytes :: nat
  sk_updated_at :: nat

definition seg_checkpoint_default :: seg_checkpoint where
  "seg_checkpoint_default =
     \<lparr>sk_version = 0, sk_fingerprint = [], sk_next_index = 0, sk_bytes = 0, sk_updated_at = 0\<rparr>"

record seg_dir =
  gd_target :: "u8 list option"
  gd_staged :: "u8 list"
  gd_checkpoint :: "seg_checkpoint option"

record seg_output =
  go_dir :: seg_dir
  go_state :: seg_checkpoint
  go_keep :: bool
  go_promoted :: bool
  go_saved_bytes :: nat

section \<open>Operations\<close>

definition usable_segments :: "string \<Rightarrow> nat \<Rightarrow> seg_checkpoint \<Rightarrow> bool" where
  "usable_segments fp segments s \<longleftrightarrow>
     sk_version s = 1 \<and> sk_fingerprint s = fp \<and> sk_next_index s \<le> segments \<and>
     (sk_next_index s = 0) = (sk_bytes s = 0)"

definition seg_restored :: "string \<Rightarrow> nat \<Rightarrow> bool \<Rightarrow> seg_dir \<Rightarrow> seg_checkpoint option" where
  "seg_restored fp segments keep dir =
     (if keep
      then (case gd_checkpoint dir of
              Some s \<Rightarrow> if usable_segments fp segments s then Some s else None
            | None \<Rightarrow> None)
      else None)"

text \<open>The directory once the leftovers of a refused checkpoint are gone, and the state that is kept.\<close>

definition seg_cleaned :: "string \<Rightarrow> nat \<Rightarrow> bool \<Rightarrow> seg_dir \<Rightarrow> seg_dir" where
  "seg_cleaned fp segments keep dir =
     (if seg_restored fp segments keep dir = None then dir\<lparr>gd_staged := [], gd_checkpoint := None\<rparr> else dir)"

definition seg_kept :: "string \<Rightarrow> nat \<Rightarrow> bool \<Rightarrow> seg_dir \<Rightarrow> seg_checkpoint" where
  "seg_kept fp segments keep dir =
     (case seg_restored fp segments keep dir of
        Some s \<Rightarrow>
          if length (gd_staged (seg_cleaned fp segments keep dir)) \<ge> sk_bytes s then s
          else seg_checkpoint_default\<lparr>sk_fingerprint := fp\<rparr>
      | None \<Rightarrow> seg_checkpoint_default\<lparr>sk_fingerprint := fp\<rparr>)"

definition seg_forgotten :: "string \<Rightarrow> nat \<Rightarrow> bool \<Rightarrow> seg_dir \<Rightarrow> seg_dir" where
  "seg_forgotten fp segments keep dir =
     (let d = seg_cleaned fp segments keep dir in
      if sk_next_index (seg_kept fp segments keep dir) = 0 then d\<lparr>gd_checkpoint := None\<rparr> else d)"

definition seg_truncated :: "string \<Rightarrow> nat \<Rightarrow> bool \<Rightarrow> seg_dir \<Rightarrow> seg_dir" where
  "seg_truncated fp segments keep dir =
     (let d = seg_forgotten fp segments keep dir in
      d\<lparr>gd_staged := set_len (sk_bytes (seg_kept fp segments keep dir)) (gd_staged d)\<rparr>)"

text \<open>A failed \<open>open\<close> names the call that failed; no output exists yet whose drop would clean up.\<close>

datatype seg_open_fault =
    SegRejected
  | SegCheckpointStuck
  | SegNotOpened
  | SegForgetFailed
  | SegLengthFailed
  | SegSeekFailed

definition seg_open_left :: "seg_open_fault \<Rightarrow> string \<Rightarrow> nat \<Rightarrow> bool \<Rightarrow> seg_dir \<Rightarrow> seg_dir" where
  "seg_open_left fault fp segments keep dir =
     (case fault of
        SegRejected \<Rightarrow> dir
      | SegCheckpointStuck \<Rightarrow> if seg_restored fp segments keep dir = None then dir\<lparr>gd_staged := []\<rparr> else dir
      | SegNotOpened \<Rightarrow> seg_cleaned fp segments keep dir
      | SegForgetFailed \<Rightarrow> seg_cleaned fp segments keep dir
      | SegLengthFailed \<Rightarrow> seg_forgotten fp segments keep dir
      | SegSeekFailed \<Rightarrow> seg_truncated fp segments keep dir)"

definition seg_open ::
  "(seg_open_fault \<times> string, unit) result \<Rightarrow> string \<Rightarrow> nat \<Rightarrow> bool \<Rightarrow> seg_dir \<Rightarrow>
   (string \<times> seg_dir, seg_output) result" where
  "seg_open io fp segments keep dir =
     (case io of
        Inl (fault, e) \<Rightarrow> Inl (e, seg_open_left fault fp segments keep dir)
      | Inr _ \<Rightarrow>
          Inr \<lparr>go_dir = seg_truncated fp segments keep dir, go_state = seg_kept fp segments keep dir,
               go_keep = keep, go_promoted = False, go_saved_bytes = sk_bytes (seg_kept fp segments keep dir)\<rparr>)"

text \<open>
  \<open>append\<close>: a copy that fails has written some of the bytes; the rollback, whose errors are ignored,
  removes them unless it fails too.
\<close>

record append_env =
  ap_copy :: "(string \<times> nat, unit) result"
  ap_rolled_back :: bool
  ap_late :: bool
  ap_save :: save_answer

definition seg_roll_back :: "bool \<Rightarrow> u8 list \<Rightarrow> seg_output \<Rightarrow> seg_output" where
  "seg_roll_back undone written out =
     (let staged = gd_staged (go_dir out) @ written in
      out\<lparr>go_dir := (go_dir out)\<lparr>gd_staged := (if undone then set_len (sk_bytes (go_state out)) staged else staged)\<rparr>\<rparr>)"

definition seg_append ::
  "append_env \<Rightarrow> u8 list \<Rightarrow> nat \<Rightarrow> seg_output \<Rightarrow> (string, unit) result \<times> seg_output" where
  "seg_append env data sz out =
     (case ap_copy env of
        Inl (e, n) \<Rightarrow> (Inl e, seg_roll_back (ap_rolled_back env) (take n data) out)
      | Inr _ \<Rightarrow>
          if length data \<noteq> sz then (Inl ''short segment copy'', seg_roll_back (ap_rolled_back env) data out)
          else
            (Inr (),
             out\<lparr>go_dir := (go_dir out)\<lparr>gd_staged := gd_staged (go_dir out) @ data\<rparr>,
                 go_state := (go_state out)\<lparr>sk_bytes := sk_bytes (go_state out) + length data,
                                            sk_next_index := sk_next_index (go_state out) + 1\<rparr>\<rparr>))"

definition seg_save :: "save_answer \<Rightarrow> seg_output \<Rightarrow> bool \<times> seg_output" where
  "seg_save answer out =
     (case answer of
        SyncFailed \<Rightarrow> (False, out)
      | WriteFailed now \<Rightarrow> (False, out\<lparr>go_state := (go_state out)\<lparr>sk_version := 1, sk_updated_at := now\<rparr>\<rparr>)
      | Saved now \<Rightarrow>
          (let s = (go_state out)\<lparr>sk_version := 1, sk_updated_at := now\<rparr> in
           (True, out\<lparr>go_state := s, go_dir := (go_dir out)\<lparr>gd_checkpoint := Some s\<rparr>\<rparr>)))"

definition seg_checkpoint_save :: "bool \<Rightarrow> bool \<Rightarrow> save_answer \<Rightarrow> seg_output \<Rightarrow> seg_output" where
  "seg_checkpoint_save force late answer out =
     (if \<not> go_keep out \<or> sk_next_index (go_state out) = 0 \<or> sk_bytes (go_state out) = 0 \<or>
         (\<not> force \<and> sk_bytes (go_state out) - go_saved_bytes out < 8 * 2 ^ 20 \<and> \<not> late)
      then out
      else case seg_save answer out of
             (True, out1) \<Rightarrow> out1\<lparr>go_saved_bytes := sk_bytes (go_state out1)\<rparr>
           | (False, out1) \<Rightarrow> out1)"

definition seg_publish ::
  "(string, unit) result \<Rightarrow> (string, unit) result \<Rightarrow> (string, unit) result \<Rightarrow> bool \<Rightarrow> seg_output \<Rightarrow>
   (string, unit) result \<times> seg_output" where
  "seg_publish sync check rename unlinked out =
     (case try_bind sync (\<lambda>_. try_bind check (\<lambda>_. rename)) of
        Inl e \<Rightarrow> (Inl e, out)
      | Inr _ \<Rightarrow>
          (Inr (), out\<lparr>go_promoted := True,
             go_dir := \<lparr>gd_target = Some (gd_staged (go_dir out)), gd_staged = [],
                        gd_checkpoint = (if unlinked then None else gd_checkpoint (go_dir out))\<rparr>\<rparr>))"

text \<open>\<open>removed\<close> tells which of the two removals, whose errors are ignored, worked.\<close>

definition seg_drop :: "bool \<times> bool \<Rightarrow> seg_output \<Rightarrow> seg_dir" where
  "seg_drop removed out =
     (let d = go_dir out in
      if go_promoted out \<or> \<not> go_keep out
      then d\<lparr>gd_checkpoint := (if fst removed then None else gd_checkpoint d),
             gd_staged := (if \<not> go_promoted out \<and> snd removed then [] else gd_staged d)\<rparr>
      else d)"

section \<open>Honest checkpoints\<close>

text \<open>
  A checkpoint is honest when the bytes it counts are those of the segments it counts, in order. The
  staged file may hold more: what was written after the checkpoint is cut off by the next \<open>open\<close>.
\<close>

definition assembled :: "u8 list list \<Rightarrow> nat \<Rightarrow> u8 list" where
  "assembled contents n = concat (take n contents)"

definition honest_checkpoint :: "u8 list list \<Rightarrow> u8 list \<Rightarrow> seg_checkpoint \<Rightarrow> bool" where
  "honest_checkpoint contents staged s \<longleftrightarrow>
     (sk_bytes s \<le> length staged \<longrightarrow> take (sk_bytes s) staged = assembled contents (sk_next_index s))"

definition honest_dir :: "string \<Rightarrow> u8 list list \<Rightarrow> seg_dir \<Rightarrow> bool" where
  "honest_dir fp contents dir \<longleftrightarrow>
     (case gd_checkpoint dir of
        None \<Rightarrow> True
      | Some s \<Rightarrow> usable_segments fp (length contents) s \<longrightarrow> honest_checkpoint contents (gd_staged dir) s)"

text \<open>
  The output between operations: the staged file starts with the counted segments, and a checkpoint on
  disk counts a prefix of them. After a failed rollback the file may be longer.
\<close>

definition seg_ok :: "string \<Rightarrow> u8 list list \<Rightarrow> seg_output \<Rightarrow> bool" where
  "seg_ok fp contents out \<longleftrightarrow>
     \<not> go_promoted out \<and> sk_fingerprint (go_state out) = fp \<and> sk_next_index (go_state out) \<le> length contents \<and>
     sk_bytes (go_state out) = length (assembled contents (sk_next_index (go_state out))) \<and>
     take (sk_bytes (go_state out)) (gd_staged (go_dir out)) = assembled contents (sk_next_index (go_state out)) \<and>
     (case gd_checkpoint (go_dir out) of
        None \<Rightarrow> True
      | Some s \<Rightarrow> sk_next_index s \<le> sk_next_index (go_state out) \<and>
                  sk_bytes s = length (assembled contents (sk_next_index s)))"

definition seg_clean :: "seg_output \<Rightarrow> bool" where
  "seg_clean out \<longleftrightarrow> length (gd_staged (go_dir out)) = sk_bytes (go_state out)"

lemma assembled_0 [simp]: "assembled contents 0 = []"
  by (simp add: assembled_def)

lemma assembled_all [simp]: "assembled contents (length contents) = concat contents"
  by (simp add: assembled_def)

lemma assembled_Suc: "n < length contents \<Longrightarrow> assembled contents (Suc n) = assembled contents n @ contents ! n"
  by (simp add: assembled_def take_Suc_conv_app_nth)

lemma assembled_take:
  assumes "m \<le> n"
  shows "take (length (assembled contents m)) (assembled contents n) = assembled contents m"
proof -
  obtain k where "n = m + k" using assms le_iff_add by blast
  then show ?thesis by (simp add: assembled_def take_add)
qed

lemma assembled_mono: "m \<le> n \<Longrightarrow> length (assembled contents m) \<le> length (assembled contents n)"
  by (metis assembled_take nat_le_linear take_all_iff)

lemma seg_ok_honest:
  assumes "seg_ok fp contents out"
  shows "honest_dir fp contents (go_dir out)"
proof (cases "gd_checkpoint (go_dir out)")
  case (Some s)
  let ?n = "sk_next_index (go_state out)" and ?staged = "gd_staged (go_dir out)"
  from assms Some have s: "sk_next_index s \<le> ?n" "sk_bytes s = length (assembled contents (sk_next_index s))"
    and out: "take (length (assembled contents ?n)) ?staged = assembled contents ?n"
    by (auto simp: seg_ok_def)
  have "take (sk_bytes s) ?staged = take (sk_bytes s) (take (length (assembled contents ?n)) ?staged)"
    using s assembled_mono [OF s(1)] by (simp add: min_def)
  also have "\<dots> = assembled contents (sk_next_index s)"
    using s assembled_take [OF s(1)] out by simp
  finally show ?thesis using Some by (simp add: honest_dir_def honest_checkpoint_def)
qed (simp add: honest_dir_def)

lemma seg_open_ok:
  assumes "honest_dir fp contents dir" and "seg_open io fp (length contents) keep dir = Inr out"
  shows "seg_ok fp contents out" "seg_clean out" "gd_target (go_dir out) = gd_target dir" "go_keep out = keep"
proof -
  let ?s = "seg_kept fp (length contents) keep dir"
  have out: "out = \<lparr>go_dir = seg_truncated fp (length contents) keep dir, go_state = ?s, go_keep = keep,
      go_promoted = False, go_saved_bytes = sk_bytes ?s\<rparr>"
    using assms(2) by (simp add: seg_open_def split: sum.splits prod.splits)
  have fresh: "sk_next_index ?s = 0 \<Longrightarrow> sk_bytes ?s = 0"
    by (auto simp: seg_kept_def seg_restored_def seg_checkpoint_default_def usable_segments_def
        split: option.splits if_splits)
  show "gd_target (go_dir out) = gd_target dir" "go_keep out = keep"
    using out by (simp_all add: seg_truncated_def seg_forgotten_def seg_cleaned_def Let_def)
  have "seg_ok fp contents out \<and> seg_clean out"
  proof (cases "sk_next_index ?s = 0")
    case True
    with out fresh show ?thesis
      by (auto simp: seg_ok_def seg_clean_def seg_truncated_def seg_forgotten_def set_len_def Let_def
          seg_kept_def seg_restored_def seg_checkpoint_default_def usable_segments_def split: option.splits if_splits)
  next
    case False
    then have k: "keep" "gd_checkpoint dir = Some ?s" "usable_segments fp (length contents) ?s"
      "sk_bytes ?s \<le> length (gd_staged dir)" "seg_cleaned fp (length contents) keep dir = dir"
      by (auto simp: seg_kept_def seg_restored_def seg_cleaned_def seg_checkpoint_default_def
          split: option.splits if_splits)
    with assms(1) have "take (sk_bytes ?s) (gd_staged dir) = assembled contents (sk_next_index ?s)"
      by (simp add: honest_dir_def honest_checkpoint_def)
    moreover from this k(4) have "sk_bytes ?s = length (assembled contents (sk_next_index ?s))"
      by (metis length_take min.absorb2)
    ultimately show ?thesis
      using k False out
      by (simp add: seg_ok_def seg_clean_def seg_truncated_def seg_forgotten_def set_len_def usable_segments_def Let_def)
  qed
  then show "seg_ok fp contents out" "seg_clean out" by simp_all
qed

lemma honest_dir_empty [simp]: "gd_staged dir = [] \<Longrightarrow> honest_dir fp contents dir"
  by (auto simp: honest_dir_def honest_checkpoint_def usable_segments_def split: option.splits)

lemma honest_dir_unmarked [simp]: "gd_checkpoint dir = None \<Longrightarrow> honest_dir fp contents dir"
  by (simp add: honest_dir_def)

lemma seg_open_left_honest:
  assumes "honest_dir fp contents dir"
  shows "honest_dir fp contents (seg_open_left fault fp (length contents) keep dir)"
    and "gd_target (seg_open_left fault fp (length contents) keep dir) = gd_target dir"
proof -
  let ?s = "seg_kept fp (length contents) keep dir"
  have cleaned: "honest_dir fp contents (seg_cleaned fp (length contents) keep dir)"
    using assms by (simp add: seg_cleaned_def honest_dir_def)
  then have forgotten: "honest_dir fp contents (seg_forgotten fp (length contents) keep dir)"
    by (simp add: seg_forgotten_def honest_dir_def Let_def)
  have truncated: "honest_dir fp contents (seg_truncated fp (length contents) keep dir)"
    using seg_ok_honest [OF seg_open_ok(1) [OF assms, where io = "Inr ()"]] by (simp add: seg_open_def)
  from assms cleaned forgotten truncated show "honest_dir fp contents (seg_open_left fault fp (length contents) keep dir)"
    by (simp add: seg_open_left_def split: seg_open_fault.splits)
  show "gd_target (seg_open_left fault fp (length contents) keep dir) = gd_target dir"
    by (simp add: seg_open_left_def seg_truncated_def seg_forgotten_def seg_cleaned_def Let_def split: seg_open_fault.splits)
qed

lemma seg_roll_back_ok:
  assumes "seg_ok fp contents out"
  shows "seg_ok fp contents (seg_roll_back undone written out)"
    "gd_target (go_dir (seg_roll_back undone written out)) = gd_target (go_dir out)"
    "go_state (seg_roll_back undone written out) = go_state out"
    "go_keep (seg_roll_back undone written out) = go_keep out"
proof -
  let ?n = "sk_bytes (go_state out)"
  have "?n \<le> length (gd_staged (go_dir out))"
    using assms by (auto simp: seg_ok_def dest: arg_cong [where f = length])
  with assms show "seg_ok fp contents (seg_roll_back undone written out)"
    by (auto simp: seg_ok_def seg_roll_back_def set_len_def Let_def split: option.splits)
qed (simp_all add: seg_roll_back_def Let_def)

lemma seg_append_ok:
  assumes "seg_ok fp contents out" "seg_clean out" "sk_next_index (go_state out) < length contents"
    and "seg_append env (contents ! sk_next_index (go_state out)) n out = (Inr u, out')"
  shows "seg_ok fp contents out'" "seg_clean out'" "sk_next_index (go_state out') = Suc (sk_next_index (go_state out))"
    "gd_target (go_dir out') = gd_target (go_dir out)" "go_keep out' = go_keep out"
proof -
  have out': "out' = out\<lparr>go_dir := (go_dir out)\<lparr>gd_staged := gd_staged (go_dir out) @ contents ! sk_next_index (go_state out)\<rparr>,
      go_state := (go_state out)\<lparr>sk_bytes := sk_bytes (go_state out) + length (contents ! sk_next_index (go_state out)),
         sk_next_index := sk_next_index (go_state out) + 1\<rparr>\<rparr>"
    using assms(4) by (auto simp: seg_append_def split: sum.splits if_splits)
  have "gd_staged (go_dir out) = assembled contents (sk_next_index (go_state out))"
    using assms(1,2) by (auto simp: seg_ok_def seg_clean_def)
  with assms(1-3) show "seg_ok fp contents out'" "seg_clean out'"
    by (auto simp: out' seg_ok_def seg_clean_def assembled_Suc split: option.splits)
qed (use assms(4) in \<open>auto simp: seg_append_def split: sum.splits if_splits\<close>)

lemma seg_append_failed:
  assumes "seg_ok fp contents out" "seg_append env data n out = (Inl e, out')"
  shows "seg_ok fp contents out'" "go_state out' = go_state out" "gd_target (go_dir out') = gd_target (go_dir out)"
    "go_keep out' = go_keep out"
  using assms seg_roll_back_ok [OF assms(1)]
  by (auto simp: seg_append_def split: sum.splits if_splits)

lemma seg_checkpoint_save_frame [simp]:
  "sk_next_index (go_state (seg_checkpoint_save force late answer out)) = sk_next_index (go_state out)"
  "sk_bytes (go_state (seg_checkpoint_save force late answer out)) = sk_bytes (go_state out)"
  "gd_target (go_dir (seg_checkpoint_save force late answer out)) = gd_target (go_dir out)"
  "gd_staged (go_dir (seg_checkpoint_save force late answer out)) = gd_staged (go_dir out)"
  "go_keep (seg_checkpoint_save force late answer out) = go_keep out"
  "seg_clean (seg_checkpoint_save force late answer out) = seg_clean out"
  by (auto simp: seg_checkpoint_save_def seg_save_def seg_clean_def Let_def split: save_answer.splits)

lemma seg_checkpoint_save_ok:
  "seg_ok fp contents out \<Longrightarrow> seg_ok fp contents (seg_checkpoint_save force late answer out)"
  by (cases answer; cases "gd_checkpoint (go_dir out)") (auto simp: seg_checkpoint_save_def seg_save_def seg_ok_def Let_def)

lemma seg_drop_honest:
  assumes "seg_ok fp contents out"
  shows "honest_dir fp contents (seg_drop removed out)" "gd_target (seg_drop removed out) = gd_target (go_dir out)"
  using seg_ok_honest [OF assms] by (auto simp: seg_drop_def Let_def)

lemma seg_publish_cases:
  assumes "seg_publish sync check rename unlinked out = (r, out')"
  obtains e where "r = Inl e" "out' = out"
  | "r = Inr ()" "go_promoted out'" "gd_target (go_dir out') = Some (gd_staged (go_dir out))" "gd_staged (go_dir out') = []"
      "go_state out' = go_state out"
proof (cases "try_bind sync (\<lambda>_. try_bind check (\<lambda>_. rename))")
  case (Inl e)
  with assms have "r = Inl e" "out' = out" by (simp_all add: seg_publish_def)
  then show ?thesis by (rule that(1))
next
  case (Inr u)
  with assms have "r = Inr ()" "go_promoted out'" "gd_target (go_dir out') = Some (gd_staged (go_dir out))"
    "gd_staged (go_dir out') = []" "go_state out' = go_state out" by (auto simp: seg_publish_def)
  then show ?thesis by (rule that(2))
qed

lemma seg_drop_promoted:
  assumes "go_promoted out" "gd_staged (go_dir out) = []"
  shows "honest_dir fp contents (seg_drop removed out)" "gd_target (seg_drop removed out) = gd_target (go_dir out)"
  using assms by (simp_all add: seg_drop_def Let_def)

end
