(* ===== verification/Segment_Download.thy ===== *)
theory Segment_Download
  imports Segment_Store Download_Engine
begin

text \<open>
  Segmented downloads (\<open>crates/extensions/src/download/segments.rs\<close>): workers fetch segments in
  parallel and the calling thread appends them in order. \<open>fetch\<close> is a function of what the network and
  the file system answer in each attempt. The threads are a step relation: its steps are the points at
  which they meet, the two channels, the stop flag and the assembly of a received segment. Progress
  reports and the resolver budget are left out; a worker that panics, which ends the whole call, is not
  a step.
\<close>

section \<open>Fetching one segment\<close>

record segment_read =
  sv_data :: "u8 list"
  sv_write :: "(string, unit) result"

record segment_transfer =
  st_response :: http_response
  st_reads :: "segment_read list"
  st_end :: "(string, unit) result"

record fetch_env =
  fe_check :: "(string, unit) result"
  fe_create :: "(string, unit) result"
  fe_serve :: "(string, segment_transfer) result"
  fe_check_after :: "(string, unit) result"
  fe_wait :: "nat \<Rightarrow> (string, unit) result"
  fe_jitter :: "(nat \<Rightarrow> nat) option"
  fe_date :: "string \<Rightarrow> int option"
  fe_now :: int

record completed =
  cp_data :: "u8 list"
  cp_size :: nat
  cp_attempts :: nat

datatype fetch_end = Fetched "(failure, completed) result" | Refetch nat

text \<open>The read loop: what ended it, and the bytes in the segment's file that are counted.\<close>

fun read_segment :: "segment_read list \<Rightarrow> (string, unit) result \<Rightarrow> u8 list \<Rightarrow> (string, unit) result \<times> u8 list" where
  "read_segment [] fin got = (fin, got)"
| "read_segment (r # rs) fin got =
     (if sv_data r = [] then (Inr (), got)
      else case sv_write r of
             Inl e \<Rightarrow> (Inl e, got)
           | Inr _ \<Rightarrow> read_segment rs fin (got @ sv_data r))"

definition segment_body :: "nat \<Rightarrow> nat \<Rightarrow> segment_transfer \<Rightarrow> (failure, completed) result" where
  "segment_body index n t =
     (let expected = parse_i64_or (- 1) (resp_header (st_response t) ''Content-Length'');
          (r, data) = read_segment (st_reads t) (st_end t) []
      in case try_bind r (\<lambda>_. if expected > 0 \<and> int (length data) \<noteq> expected then Inl ''unexpected EOF'' else Inr ()) of
           Inr _ \<Rightarrow>
             if data \<noteq> [] then Inr \<lparr>cp_data = data, cp_size = length data, cp_attempts = n\<rparr>
             else Inl (failure_new ''transient_network'' (''segment '' @ show_nat index @ '' response was empty'') n)
         | Inl e \<Rightarrow> Inl (failure_new ''transient_network'' (''failed to read segment '' @ show_nat index @ '': '' @ e) n))"

text \<open>The end of an attempt that failed: give up, or wait and try again.\<close>

definition segment_failed ::
  "fetch_env \<Rightarrow> transfer_policy \<Rightarrow> nat \<Rightarrow> nat \<Rightarrow> failure \<Rightarrow> fetch_end" where
  "segment_failed env policy n delay f0 =
     (let f = (case fe_check_after env of Inl e \<Rightarrow> failure_new ''cancelled'' e n | Inr _ \<Rightarrow> f0);
          retry = (if fa_retry_after_seconds f > 0 then fa_retry_after_seconds f * 1000000000 else delay)
      in if int n = tp_max_attempts policy \<or> fa_error_type f = ''cancelled'' then Fetched (Inl f)
         else case fe_wait env retry of
                Inl e \<Rightarrow> Fetched (Inl (failure_new ''cancelled'' e n))
              | Inr _ \<Rightarrow> Refetch (next_delay (fe_jitter env) policy delay))"

definition segment_attempt ::
  "fetch_env \<Rightarrow> transfer_policy \<Rightarrow> nat \<Rightarrow> nat \<Rightarrow> nat \<Rightarrow> fetch_end" where
  "segment_attempt env policy index n delay =
     (case fe_check env of
        Inl e \<Rightarrow> Fetched (Inl (failure_new ''cancelled'' e n))
      | Inr _ \<Rightarrow>
          (case fe_create env of
             Inl e \<Rightarrow> Fetched (Inl (failure_new ''storage_error'' (''failed to create segment file: '' @ e) n))
           | Inr _ \<Rightarrow>
               (case fe_serve env of
                  Inl e \<Rightarrow> segment_failed env policy n delay (failure_new ''transient_network'' e n)
                | Inr t \<Rightarrow>
                    (let status = hr_status (st_response t) in
                     if \<not> (200 \<le> status \<and> status < 300)
                     then
                       (let f = (status_failure (fe_date env) (fe_now env) (st_response t) policy n)
                                  \<lparr>fa_error := ''segment '' @ show_nat index @ '' HTTP error: '' @ show_nat status\<rparr>
                        in if \<not> retryable status \<or> int n = tp_max_attempts policy then Fetched (Inl f)
                           else segment_failed env policy n delay f)
                     else case segment_body index n t of
                            Inr c \<Rightarrow> Fetched (Inr c)
                          | Inl f \<Rightarrow> segment_failed env policy n delay f))))"

text \<open>
  The attempts, each with its environment. \<open>None\<close> when the environments given run out, and for a
  policy without attempts, where the loop ends in its \<open>unreachable\<close>.
\<close>

fun fetch_attempts ::
  "fetch_env list \<Rightarrow> transfer_policy \<Rightarrow> nat \<Rightarrow> nat \<Rightarrow> nat \<Rightarrow> (failure, completed) result option" where
  "fetch_attempts [] policy index n delay = None"
| "fetch_attempts (env # envs) policy index n delay =
     (if int n > tp_max_attempts policy then None
      else case segment_attempt env policy index n delay of
             Fetched r \<Rightarrow> Some r
           | Refetch delay' \<Rightarrow> fetch_attempts envs policy index (n + 1) delay')"

definition fetch :: "fetch_env list \<Rightarrow> transfer_policy \<Rightarrow> nat \<Rightarrow> (failure, completed) result option" where
  "fetch envs policy index = fetch_attempts envs policy index 1 (nat (tp_initial_retry_delay_ms policy) * 1000000)"

section \<open>The threads\<close>

text \<open>
  The calling thread owns the output, the pending segments and the job sender; the workers share the
  job queue, the result queue and the stop flag. A worker is about to check for cancellation
  (\<open>rn_idle\<close>), blocked on the job queue (\<open>rn_waiting\<close>), fetching a segment (\<open>rn_active\<close>), or gone.
  The channels of the code hold one item per worker and block a sender when they are full. Here they are lists
  without a bound: at most one segment per worker is queued, fetched or received at any time
  (\<open>inflight_bounded\<close>), so no sender of the code ever finds a channel full.
\<close>

record seg_run =
  rn_output :: seg_output
  rn_next_job :: nat
  rn_jobs_open :: bool
  rn_jobs :: "nat list"
  rn_idle :: nat
  rn_waiting :: nat
  rn_active :: "nat list"
  rn_results :: "(nat \<times> (failure, completed) result) list"
  rn_pending :: "(nat, completed) btmap"
  rn_failure :: "failure option"
  rn_stop :: bool

definition next_index :: "seg_run \<Rightarrow> nat" where
  "next_index s = sk_next_index (go_state (rn_output s))"

text \<open>The first failure is kept; the workers are told to stop and no more jobs are sent.\<close>

definition halt :: "failure \<Rightarrow> seg_run \<Rightarrow> seg_run" where
  "halt f s =
     s\<lparr>rn_failure := (case rn_failure s of None \<Rightarrow> Some f | Some f0 \<Rightarrow> Some f0), rn_stop := True, rn_jobs_open := False\<rparr>"

definition send_job :: "nat \<Rightarrow> seg_run \<Rightarrow> seg_run" where
  "send_job segs s =
     (if rn_jobs_open s
      then s\<lparr>rn_jobs := rn_jobs s @ [rn_next_job s], rn_next_job := rn_next_job s + 1,
             rn_jobs_open := (rn_next_job s + 1 \<noteq> segs)\<rparr>
      else s)"

definition worker_count :: "transfer_policy \<Rightarrow> nat \<Rightarrow> seg_output \<Rightarrow> nat" where
  "worker_count policy segs out = min (nat (tp_max_parallel_segments policy)) (segs - sk_next_index (go_state out))"

text \<open>The first jobs and the workers; \<open>spawn\<close> is how many started before one failed to start, if any did.\<close>

definition start_run :: "transfer_policy \<Rightarrow> nat \<Rightarrow> (nat \<times> string) option \<Rightarrow> seg_output \<Rightarrow> seg_run" where
  "start_run policy segs spawn out =
     (let w = worker_count policy segs out;
          first = sk_next_index (go_state out);
          s = \<lparr>rn_output = out, rn_next_job = first + w, rn_jobs_open = (first + w < segs), rn_jobs = [first..<first + w],
               rn_idle = w, rn_waiting = 0, rn_active = [], rn_results = [], rn_pending = [], rn_failure = None,
               rn_stop = False\<rparr>
      in case spawn of
           None \<Rightarrow> s
         | Some (k, e) \<Rightarrow>
             if k < w then halt (failure_new ''storage_error'' (''failed to start segment worker: '' @ e) 0) (s\<lparr>rn_idle := k\<rparr>)
             else s)"

lemma bt_remove_shorter: "bt_get m k = Some v \<Longrightarrow> length (bt_remove k m) < length m"
  by (auto simp: bt_remove_def dest!: bt_get_Some_in intro!: length_filter_less)

text \<open>The assembly loop of the calling thread: one answer of the file system for each index.\<close>

function assemble :: "(nat \<Rightarrow> append_env) \<Rightarrow> nat \<Rightarrow> seg_run \<Rightarrow> seg_run" where
  "assemble env segs s =
     (case bt_get (rn_pending s) (next_index s) of
        None \<Rightarrow> s
      | Some ready \<Rightarrow>
          (let index = next_index s;
               s1 = s\<lparr>rn_pending := bt_remove index (rn_pending s)\<rparr>
           in case seg_append (env index) (cp_data ready) (cp_size ready) (rn_output s) of
                (Inl e, out) \<Rightarrow>
                  halt (failure_new ''storage_error'' (''failed to append segment '' @ show_nat index @ '': '' @ e)
                          (cp_attempts ready)) (s1\<lparr>rn_output := out\<rparr>)
              | (Inr _, out) \<Rightarrow>
                  assemble env segs (send_job segs
                    (s1\<lparr>rn_output := seg_checkpoint_save False (ap_late (env index)) (ap_save (env index)) out\<rparr>))))"
  by pat_completeness auto
termination
  by (relation "measure (\<lambda>(env, segs, s). length (rn_pending s))")
    (auto simp: send_job_def bt_remove_shorter)

declare assemble.simps [simp del]

definition receive_result ::
  "(nat \<Rightarrow> append_env) \<Rightarrow> nat \<Rightarrow> nat \<times> (failure, completed) result \<Rightarrow> seg_run \<Rightarrow> seg_run" where
  "receive_result env segs m s =
     assemble env segs
       (case m of
          (_, Inl f) \<Rightarrow> halt f s
        | (index, Inr c) \<Rightarrow> s\<lparr>rn_pending := bt_insert index c (rn_pending s)\<rparr>)"

text \<open>
  \<open>answers\<close> says what the environment of a fetch may answer for a segment. A failing cancellation
  check of the calling thread changes something only once.
\<close>

inductive seg_step :: "(nat \<Rightarrow> fetch_env \<Rightarrow> bool) \<Rightarrow> transfer_policy \<Rightarrow> nat \<Rightarrow> seg_run \<Rightarrow> seg_run \<Rightarrow> bool"
  for answers :: "nat \<Rightarrow> fetch_env \<Rightarrow> bool" and policy :: transfer_policy and segs :: nat where
  check_failed: "\<not> rn_stop s \<Longrightarrow> seg_step answers policy segs s (halt (failure_new ''cancelled'' e 0) s)"
| received: "rn_results s = m # ms \<Longrightarrow>
    seg_step answers policy segs s (receive_result env segs m (s\<lparr>rn_results := ms\<rparr>))"
| worker_checked: "0 < rn_idle s \<Longrightarrow> \<not> rn_stop s \<Longrightarrow>
    seg_step answers policy segs s (s\<lparr>rn_idle := rn_idle s - 1, rn_waiting := rn_waiting s + 1\<rparr>)"
| worker_cancelled: "0 < rn_idle s \<Longrightarrow> seg_step answers policy segs s (s\<lparr>rn_idle := rn_idle s - 1\<rparr>)"
| worker_picked: "0 < rn_waiting s \<Longrightarrow> rn_jobs s = i # js \<Longrightarrow>
    seg_step answers policy segs s (s\<lparr>rn_waiting := rn_waiting s - 1, rn_jobs := js, rn_active := i # rn_active s\<rparr>)"
| worker_disconnected: "0 < rn_waiting s \<Longrightarrow> rn_jobs s = [] \<Longrightarrow> \<not> rn_jobs_open s \<Longrightarrow>
    seg_step answers policy segs s (s\<lparr>rn_waiting := rn_waiting s - 1\<rparr>)"
| worker_fetched: "i \<in> set (rn_active s) \<Longrightarrow> list_all (answers i) envs \<Longrightarrow> fetch envs policy i = Some r \<Longrightarrow>
    seg_step answers policy segs s (s\<lparr>rn_active := remove1 i (rn_active s), rn_results := rn_results s @ [(i, r)],
      rn_idle := rn_idle s + (if is_ok r then 1 else 0)\<rparr>)"

definition run_finished :: "seg_run \<Rightarrow> bool" where
  "run_finished s \<longleftrightarrow> rn_idle s = 0 \<and> rn_waiting s = 0 \<and> rn_active s = [] \<and> rn_results s = []"

section \<open>The download\<close>

record seg_env =
  se_lock :: "(string, unit) result"
  se_open :: "(seg_open_fault \<times> string, unit) result"
  se_spawn :: "(nat \<times> string) option"
  se_save :: save_answer
  se_sync :: "(string, unit) result"
  se_check :: "(string, unit) result"
  se_rename :: "(string, unit) result"
  se_unlinked :: bool
  se_removed :: "bool \<times> bool"

record seg_success =
  ss_size :: nat
  ss_segments :: nat
  ss_resumed :: bool

definition publish_segments ::
  "seg_env \<Rightarrow> nat \<Rightarrow> bool \<Rightarrow> seg_output \<Rightarrow> (failure, seg_success) result \<times> seg_output" where
  "publish_segments env segs restored out =
     (if sk_next_index (go_state out) \<noteq> segs \<or> sk_bytes (go_state out) = 0
      then (Inl (failure_new ''integrity_failed'' (''segmented transfer incomplete: assembled '' @
              show_nat (sk_next_index (go_state out)) @ '' of '' @ show_nat segs @ '' segments'') 0), out)
      else case seg_publish (se_sync env) (se_check env) (se_rename env) (se_unlinked env) out of
             (Inl e, out1) \<Rightarrow> (Inl (failure_new ''storage_error'' (''failed to publish segmented output: '' @ e) 0), out1)
           | (Inr _, out1) \<Rightarrow>
               (Inr \<lparr>ss_size = sk_bytes (go_state out1), ss_segments = segs, ss_resumed = restored\<rparr>, out1))"

definition end_run :: "seg_env \<Rightarrow> nat \<Rightarrow> seg_run \<Rightarrow> (failure, seg_success) result \<times> seg_output" where
  "end_run env segs s =
     (case rn_failure s of
        Some f \<Rightarrow> (Inl f, seg_checkpoint_save True False (se_save env) (rn_output s))
      | None \<Rightarrow> publish_segments env segs False (rn_output s))"

definition segments_restored :: "nat \<Rightarrow> seg_output \<Rightarrow> bool" where
  "segments_restored segs out \<longleftrightarrow> sk_next_index (go_state out) = segs \<and> sk_bytes (go_state out) > 0"

definition close_output :: "seg_env \<Rightarrow> (failure, seg_success) result \<times> seg_output \<Rightarrow> (failure, seg_success) result \<times> seg_dir" where
  "close_output env = (\<lambda>(r, out). (r, seg_drop (se_removed env) out))"

inductive seg_download ::
  "(nat \<Rightarrow> fetch_env \<Rightarrow> bool) \<Rightarrow> transfer_policy \<Rightarrow> nat \<Rightarrow> seg_env \<Rightarrow> string \<Rightarrow> bool \<Rightarrow> seg_dir \<Rightarrow>
   (failure, seg_success) result \<times> seg_dir \<Rightarrow> bool"
  for answers policy segs env fp keep dir where
  not_locked: "se_lock env = Inl e \<Longrightarrow>
    seg_download answers policy segs env fp keep dir (Inl (failure_new ''cancelled'' e 0), dir)"
| not_opened: "se_lock env = Inr () \<Longrightarrow> seg_open (se_open env) fp segs keep dir = Inl (e, dir') \<Longrightarrow>
    seg_download answers policy segs env fp keep dir
      (Inl (failure_new ''storage_error'' (''failed to create segmented output: '' @ e) 0), dir')"
| restored: "se_lock env = Inr () \<Longrightarrow> seg_open (se_open env) fp segs keep dir = Inr out \<Longrightarrow>
    segments_restored segs out \<Longrightarrow>
    seg_download answers policy segs env fp keep dir (close_output env (publish_segments env segs True out))"
| transferred: "se_lock env = Inr () \<Longrightarrow> seg_open (se_open env) fp segs keep dir = Inr out \<Longrightarrow>
    \<not> segments_restored segs out \<Longrightarrow> (seg_step answers policy segs)\<^sup>*\<^sup>* (start_run policy segs (se_spawn env) out) s \<Longrightarrow>
    run_finished s \<Longrightarrow>
    seg_download answers policy segs env fp keep dir (close_output env (end_run env segs s))"

section \<open>Right segments\<close>

text \<open>
  What a server that sends the segments of \<open>contents\<close> may do to a fetch of segment \<open>i\<close>: fail, refuse, or
  send data of that segment; a stream that ends cleanly is complete unless a longer length was
  announced.
\<close>

definition serves_segment :: "u8 list list \<Rightarrow> nat \<Rightarrow> fetch_env \<Rightarrow> bool" where
  "serves_segment contents i env \<longleftrightarrow>
     (case fe_serve env of
        Inl _ \<Rightarrow> True
      | Inr t \<Rightarrow>
          \<not> (200 \<le> hr_status (st_response t) \<and> hr_status (st_response t) < 300) \<or>
          list_all (\<lambda>r. sv_data r \<noteq> []) (st_reads t) \<and>
          prefix (concat (map sv_data (st_reads t))) (contents ! i) \<and>
          (is_ok (st_end t) \<longrightarrow>
             concat (map sv_data (st_reads t)) = contents ! i \<or>
             parse_i64_or (- 1) (resp_header (st_response t) ''Content-Length'') = int (length (contents ! i))))"

definition right_segment :: "u8 list list \<Rightarrow> nat \<Rightarrow> completed \<Rightarrow> bool" where
  "right_segment contents i c \<longleftrightarrow> cp_data c = contents ! i \<and> cp_size c = length (contents ! i)"

lemma read_segment_ok:
  assumes "read_segment rs fin got = (Inr u, data)" "list_all (\<lambda>r. sv_data r \<noteq> []) rs"
  shows "data = got @ concat (map sv_data rs) \<and> is_ok fin"
  using assms by (induction rs arbitrary: got) (fastforce split: sum.splits if_splits)+

lemma segment_body_right:
  assumes "segment_body i n t = Inr c" "serves_segment contents i env" "fe_serve env = Inr t"
    and "200 \<le> hr_status (st_response t)" "hr_status (st_response t) < 300"
  shows "right_segment contents i c"
proof -
  let ?expected = "parse_i64_or (- 1) (resp_header (st_response t) ''Content-Length'')"
  obtain r data where b: "read_segment (st_reads t) (st_end t) [] = (r, data)" by force
  with assms(1) obtain u where r: "r = Inr u" "?expected > 0 \<longrightarrow> int (length data) = ?expected"
    and c: "data \<noteq> []" "c = \<lparr>cp_data = data, cp_size = length data, cp_attempts = n\<rparr>"
    by (cases r) (auto simp: segment_body_def Let_def split: sum.splits if_splits)
  from assms(2-5) have s: "list_all (\<lambda>r. sv_data r \<noteq> []) (st_reads t)"
    "prefix (concat (map sv_data (st_reads t))) (contents ! i)"
    "is_ok (st_end t) \<longrightarrow> concat (map sv_data (st_reads t)) = contents ! i \<or> ?expected = int (length (contents ! i))"
    by (auto simp: serves_segment_def)
  from read_segment_ok [of "st_reads t" "st_end t" "[]" u data] b r s(1)
  have data: "data = concat (map sv_data (st_reads t))" "is_ok (st_end t)" by simp_all
  have "data = contents ! i"
  proof (rule ccontr)
    assume "data \<noteq> contents ! i"
    with data s r(2) c(1) have "length data = length (contents ! i)"
      by (auto dest: prefix_length_le)
    with s(2) data(1) \<open>data \<noteq> contents ! i\<close> show False by (auto simp: prefix_def)
  qed
  with c show ?thesis by (simp add: right_segment_def)
qed

lemma segment_failed_not_ok: "segment_failed env policy n delay f = Fetched r \<Longrightarrow> \<not> is_ok r"
  by (auto simp: segment_failed_def is_ok_def Let_def split: sum.splits if_splits)

lemma fetch_attempts_right:
  assumes "fetch_attempts envs policy i n delay = Some (Inr c)" "list_all (serves_segment contents i) envs"
  shows "right_segment contents i c"
  using assms
proof (induction envs arbitrary: n delay)
  case (Cons env envs)
  show ?case
  proof (cases "segment_attempt env policy i n delay")
    case (Fetched r)
    with Cons.prems(1) have "segment_attempt env policy i n delay = Fetched (Inr c)" by (auto split: if_splits)
    then obtain t where "fe_serve env = Inr t" "200 \<le> hr_status (st_response t)" "hr_status (st_response t) < 300"
      "segment_body i n t = Inr c"
      using segment_failed_not_ok [of env policy n delay _ "Inr c"]
      by (auto simp: segment_attempt_def Let_def is_ok_def split: sum.splits if_splits)
    with Cons.prems(2) show ?thesis using segment_body_right by (metis list.pred_inject(2))
  next
    case (Refetch d)
    with Cons show ?thesis by (auto split: if_splits)
  qed
qed simp

lemma fetch_right:
  "fetch envs policy i = Some (Inr c) \<Longrightarrow> list_all (serves_segment contents i) envs \<Longrightarrow> right_segment contents i c"
  unfolding fetch_def by (rule fetch_attempts_right)

text \<open>With an environment for each attempt a fetch returns.\<close>

lemma segment_attempt_last:
  "segment_attempt env policy i n delay = Refetch d \<Longrightarrow> int n \<noteq> tp_max_attempts policy"
  by (auto simp: segment_attempt_def segment_failed_def Let_def split: sum.splits if_splits)

lemma fetch_attempts_end:
  assumes "int n \<le> tp_max_attempts policy" "tp_max_attempts policy < int n + int (length envs)"
  shows "\<exists>r. fetch_attempts envs policy i n delay = Some r"
  using assms
proof (induction envs arbitrary: n delay)
  case (Cons env envs)
  show ?case
  proof (cases "segment_attempt env policy i n delay")
    case (Refetch d)
    with segment_attempt_last [OF Refetch] Cons.prems Cons.IH [of "n + 1" d] show ?thesis by simp
  qed (use Cons.prems in simp)
qed simp

section \<open>The invariant of the threads\<close>

text \<open>
  Every job from the next index to append up to the next job to send is at exactly one place: in the
  queue, with a worker, in the result channel, or pending; after a failure some may be lost. There are
  never more of them than workers.
\<close>

definition inflight :: "seg_run \<Rightarrow> nat list" where
  "inflight s = rn_jobs s @ rn_active s @ map fst (rn_results s) @ map fst (rn_pending s)"

definition flow :: "string \<Rightarrow> u8 list list \<Rightarrow> nat \<Rightarrow> seg_run \<Rightarrow> nat list \<Rightarrow> bool" where
  "flow fp contents w s js \<longleftrightarrow>
     seg_ok fp contents (rn_output s) \<and> distinct js \<and> set js \<subseteq> {next_index s..<rn_next_job s} \<and>
     next_index s \<le> rn_next_job s \<and> rn_next_job s \<le> length contents \<and> rn_next_job s \<le> next_index s + w \<and>
     (if rn_failure s = None
      then set js = {next_index s..<rn_next_job s} \<and> seg_clean (rn_output s) \<and> \<not> rn_stop s \<and>
           (rn_jobs_open s \<longleftrightarrow> rn_next_job s < length contents) \<and>
           (rn_jobs_open s \<longrightarrow> rn_next_job s = next_index s + w)
      else \<not> rn_jobs_open s \<and> rn_stop s \<and> (seg_clean (rn_output s) \<or> next_index s \<notin> set js))"

definition right_run :: "u8 list list \<Rightarrow> seg_run \<Rightarrow> bool" where
  "right_run contents s \<longleftrightarrow>
     bt_wf (rn_pending s) \<and> (\<forall>(i, c) \<in> set (rn_pending s). right_segment contents i c) \<and>
     (\<forall>(i, r) \<in> set (rn_results s). case r of Inl _ \<Rightarrow> True | Inr c \<Rightarrow> right_segment contents i c)"

definition seg_inv :: "string \<Rightarrow> u8 list list \<Rightarrow> nat \<Rightarrow> u8 list option \<Rightarrow> seg_run \<Rightarrow> bool" where
  "seg_inv fp contents w target s \<longleftrightarrow>
     flow fp contents w s (inflight s) \<and> right_run contents s \<and> gd_target (go_dir (rn_output s)) = target"

definition drained :: "seg_run \<Rightarrow> bool" where
  "drained s \<longleftrightarrow> next_index s \<notin> set (map fst (rn_pending s))"

lemma flow_same: "flow fp contents w s js \<Longrightarrow> distinct js' \<Longrightarrow> set js' = set js \<Longrightarrow> flow fp contents w s js'"
  unfolding flow_def by simp

lemma flow_cong:
  assumes "flow fp contents w s js" "rn_output s' = rn_output s" "rn_next_job s' = rn_next_job s"
    "rn_jobs_open s' = rn_jobs_open s" "rn_failure s' = rn_failure s" "rn_stop s' = rn_stop s"
  shows "flow fp contents w s' js"
  using assms unfolding flow_def next_index_def by simp

lemma flow_halt:
  assumes "flow fp contents w s js" "distinct js'" "set js' \<subseteq> set js"
  shows "flow fp contents w (halt f s) js'"
  using assms by (auto simp: flow_def halt_def next_index_def split: if_splits option.splits)

lemma flow_distinct: "flow fp contents w s js \<Longrightarrow> distinct js"
  by (simp add: flow_def)

text \<open>A step of the workers moves a job from one place to another.\<close>

lemma seg_inv_moved:
  assumes "seg_inv fp contents w target s" "rn_output s' = rn_output s" "rn_next_job s' = rn_next_job s"
    "rn_jobs_open s' = rn_jobs_open s" "rn_failure s' = rn_failure s" "rn_stop s' = rn_stop s"
    and "distinct (inflight s')" "set (inflight s') = set (inflight s)" "right_run contents s'"
  shows "seg_inv fp contents w target s'"
proof -
  have "flow fp contents w s (inflight s)" using assms(1) by (simp add: seg_inv_def)
  then have "flow fp contents w s (inflight s')" using assms(7,8) by (rule flow_same)
  then have "flow fp contents w s' (inflight s')" by (rule flow_cong) (use assms in simp_all)
  with assms show ?thesis by (simp add: seg_inv_def)
qed

lemma inflight_removed:
  assumes "distinct (inflight s)" "bt_get (rn_pending s) i = Some c"
  shows "distinct (inflight (s\<lparr>rn_pending := bt_remove i (rn_pending s), rn_output := out\<rparr>))"
    "set (inflight (s\<lparr>rn_pending := bt_remove i (rn_pending s), rn_output := out\<rparr>)) = set (inflight s) - {i}"
proof -
  have "i \<in> fst ` set (rn_pending s)" using bt_get_Some_in [OF assms(2)] by force
  moreover have "fst ` set (bt_remove i (rn_pending s)) = fst ` set (rn_pending s) - {i}"
    by (auto simp: bt_remove_def)
  moreover have "distinct (map fst (bt_remove i (rn_pending s)))"
    using assms(1) by (auto simp: inflight_def bt_remove_def distinct_map_filter)
  ultimately show "distinct (inflight (s\<lparr>rn_pending := bt_remove i (rn_pending s), rn_output := out\<rparr>))"
    "set (inflight (s\<lparr>rn_pending := bt_remove i (rn_pending s), rn_output := out\<rparr>)) = set (inflight s) - {i}"
    using assms(1) by (auto simp: inflight_def)
qed

lemma right_run_removed:
  "right_run contents s \<Longrightarrow> right_run contents (s\<lparr>rn_pending := bt_remove i (rn_pending s), rn_output := out\<rparr>)"
  by (auto simp: right_run_def bt_remove_def intro: bt_wf_filter)

lemma ready_facts:
  assumes "seg_inv fp contents w target s" "bt_get (rn_pending s) (next_index s) = Some c"
  shows "next_index s < rn_next_job s" "next_index s < length contents" "cp_data c = contents ! next_index s"
    "next_index s \<in> set (inflight s)" "seg_clean (rn_output s)"
proof -
  have m: "(next_index s, c) \<in> set (rn_pending s)" using bt_get_Some_in [OF assms(2)] .
  then show i: "next_index s \<in> set (inflight s)" by (force simp: inflight_def)
  from m assms(1) show "cp_data c = contents ! next_index s"
    by (auto simp: seg_inv_def right_run_def right_segment_def)
  from i assms(1) show "next_index s < rn_next_job s" "next_index s < length contents" "seg_clean (rn_output s)"
    by (auto simp: seg_inv_def flow_def split: if_splits)
qed

lemma append_step_inv:
  assumes inv: "seg_inv fp contents w target s" and c: "bt_get (rn_pending s) (next_index s) = Some c"
    and a: "seg_append env (cp_data c) (cp_size c) (rn_output s) = (Inr u, out)"
  shows "seg_inv fp contents w target (send_job (length contents)
           (s\<lparr>rn_pending := bt_remove (next_index s) (rn_pending s), rn_output := seg_checkpoint_save False late answer out\<rparr>))"
    (is "seg_inv _ _ _ _ (send_job _ ?s1)")
proof -
  note ready = ready_facts [OF inv c]
  have flow: "flow fp contents w s (inflight s)" and ok: "seg_ok fp contents (rn_output s)"
    and target: "gd_target (go_dir (rn_output s)) = target"
    using inv by (simp_all add: seg_inv_def flow_def)
  have "seg_append env (contents ! sk_next_index (go_state (rn_output s))) (cp_size c) (rn_output s) = (Inr u, out)"
    using a ready(3) by (simp add: next_index_def)
  from seg_append_ok [OF ok ready(5) _ this] ready(2)
  have out: "seg_ok fp contents out" "seg_clean out" "sk_next_index (go_state out) = Suc (next_index s)"
    "gd_target (go_dir out) = gd_target (go_dir (rn_output s))"
    by (simp_all add: next_index_def)
  have n1: "next_index ?s1 = Suc (next_index s)" by (simp add: next_index_def out)
  note rem = inflight_removed [OF _ c, of "seg_checkpoint_save False late answer out"]
  have "distinct (inflight s)" using flow by (simp add: flow_def)
  then have d1: "distinct (inflight ?s1)" "set (inflight ?s1) = set (inflight s) - {next_index s}"
    using rem by simp_all
  have set1: "set (inflight (send_job (length contents) ?s1)) =
      set (inflight ?s1) \<union> (if rn_jobs_open s then {rn_next_job s} else {})"
    by (auto simp: send_job_def inflight_def)
  have d2: "distinct (inflight (send_job (length contents) ?s1))"
  proof -
    have "rn_next_job s \<notin> set (inflight s)" using flow by (auto simp: flow_def)
    then have "rn_next_job s \<notin> set (inflight ?s1)" using d1(2) by simp
    with d1(1) show ?thesis by (auto simp: send_job_def inflight_def)
  qed
  have n2: "next_index (send_job (length contents) ?s1) = Suc (next_index s)"
    using n1 by (simp add: send_job_def next_index_def)
  have "flow fp contents w (send_job (length contents) ?s1) (inflight (send_job (length contents) ?s1))"
    using flow d2 ready(1) out(1,2) seg_checkpoint_save_ok [OF out(1)]
    unfolding flow_def n2 set1 d1(2)
    by (auto simp: send_job_def split: if_splits)
  moreover have "right_run contents (send_job (length contents) ?s1)"
    using right_run_removed [of contents s _ "next_index s"] inv by (auto simp: seg_inv_def right_run_def send_job_def)
  ultimately show ?thesis
    using target out(4) by (simp add: seg_inv_def send_job_def)
qed

lemma append_failed_inv:
  assumes inv: "seg_inv fp contents w target s" and c: "bt_get (rn_pending s) (next_index s) = Some c"
    and a: "seg_append env (cp_data c) (cp_size c) (rn_output s) = (Inl e, out)"
  shows "seg_inv fp contents w target (halt f (s\<lparr>rn_pending := bt_remove (next_index s) (rn_pending s), rn_output := out\<rparr>))"
    (is "seg_inv _ _ _ _ (halt f ?s1)")
    and "drained (halt f (s\<lparr>rn_pending := bt_remove (next_index s) (rn_pending s), rn_output := out\<rparr>))"
proof -
  have flow: "flow fp contents w s (inflight s)" and ok: "seg_ok fp contents (rn_output s)"
    and target: "gd_target (go_dir (rn_output s)) = target"
    using inv by (simp_all add: seg_inv_def flow_def)
  note out = seg_append_failed [OF ok a]
  have d: "distinct (inflight (halt f ?s1))" "set (inflight (halt f ?s1)) = set (inflight s) - {next_index s}"
    using inflight_removed [OF _ c, of out] flow by (simp_all add: flow_def halt_def inflight_def)
  have n: "next_index (halt f ?s1) = next_index s" by (simp add: next_index_def halt_def out)
  have "set (inflight s) - {next_index s} \<subseteq> {next_index s..<rn_next_job s}" "next_index s \<le> rn_next_job s"
    "rn_next_job s \<le> length contents" "rn_next_job s \<le> next_index s + w"
    using flow by (auto simp only: flow_def)
  then have "flow fp contents w (halt f ?s1) (inflight (halt f ?s1))"
    using d(1) out(1) unfolding flow_def n d(2) by (simp add: halt_def split: option.splits)
  moreover have "right_run contents (halt f ?s1)"
    using right_run_removed [of contents s out "next_index s"] inv by (simp add: seg_inv_def right_run_def halt_def)
  ultimately show "seg_inv fp contents w target (halt f ?s1)"
    using target out(3) by (simp add: seg_inv_def halt_def)
  show "drained (halt f ?s1)"
    unfolding drained_def n by (auto simp: halt_def bt_remove_def)
qed

lemma assemble_inv:
  assumes "seg_inv fp contents w target s"
  shows "seg_inv fp contents w target (assemble env (length contents) s) \<and> drained (assemble env (length contents) s)"
  using assms
proof (induction env "length contents" s rule: assemble.induct)
  case (1 env s)
  show ?case
  proof (cases "bt_get (rn_pending s) (next_index s)")
    case None
    then have "drained s" by (auto simp: drained_def bt_get_def map_of_eq_None_iff)
    with None 1 show ?thesis by (simp add: assemble.simps [of env _ s])
  next
    case (Some c)
    obtain r out where a: "seg_append (env (next_index s)) (cp_data c) (cp_size c) (rn_output s) = (r, out)" by force
    show ?thesis
    proof (cases r)
      case (Inl e)
      with append_failed_inv [OF "1.prems" Some] a Some show ?thesis
        by (simp add: assemble.simps [of env _ s] Let_def)
    next
      case (Inr u)
      with "1.hyps" [OF Some refl refl a [symmetric]] append_step_inv [OF "1.prems" Some] a Some show ?thesis
        by (simp add: assemble.simps [of env _ s] Let_def)
    qed
  qed
qed

lemma bt_insert_member: "(j, e) \<in> set (bt_insert i c m) \<Longrightarrow> j = i \<and> e = c \<or> (j, e) \<in> set m"
  by (induction m) (auto split: if_splits)

lemma halt_inv:
  assumes "flow fp contents w s (inflight s)" "right_run contents s'" "gd_target (go_dir (rn_output s)) = target"
    and "s' = s\<lparr>rn_results := ms\<rparr>" "rn_results s = pre @ ms"
  shows "seg_inv fp contents w target (halt f s')"
proof -
  have "distinct (inflight s')" "set (inflight s') \<subseteq> set (inflight s)"
    using flow_distinct [OF assms(1)] assms(4,5) by (auto simp: inflight_def)
  then have "flow fp contents w (halt f s) (inflight s')" using flow_halt [OF assms(1)] by simp
  then have "flow fp contents w (halt f s') (inflight s')" by (rule flow_cong) (simp_all add: assms(4) halt_def)
  with assms show ?thesis by (simp add: seg_inv_def right_run_def halt_def inflight_def)
qed

lemma received_inv:
  assumes inv: "seg_inv fp contents w target s" and res: "rn_results s = m # ms"
  shows "seg_inv fp contents w target (receive_result env (length contents) m (s\<lparr>rn_results := ms\<rparr>)) \<and>
         drained (receive_result env (length contents) m (s\<lparr>rn_results := ms\<rparr>))"
proof -
  obtain i r where m: "m = (i, r)" by force
  have flow: "flow fp contents w s (inflight s)" and right: "right_run contents s"
    and target: "gd_target (go_dir (rn_output s)) = target"
    using inv by (simp_all add: seg_inv_def)
  note d = flow_distinct [OF flow]
  show ?thesis
  proof (cases r)
    case (Inl f)
    have "seg_inv fp contents w target (halt f (s\<lparr>rn_results := ms\<rparr>))"
      using flow right target d res by (intro halt_inv [where pre = "[m]" and s = s]) (auto simp: right_run_def)
    then show ?thesis using assemble_inv m Inl by (simp add: receive_result_def)
  next
    case (Inr c)
    let ?s1 = "s\<lparr>rn_results := ms, rn_pending := bt_insert i c (rn_pending s)\<rparr>"
    have wf: "bt_wf (rn_pending s)" using right by (simp add: right_run_def)
    have c: "right_segment contents i c" using right res m Inr by (auto simp: right_run_def)
    from right c wf res have "right_run contents ?s1"
      by (auto simp: right_run_def bt_wf_insert dest!: bt_insert_member)
    moreover have "distinct (inflight ?s1)" "set (inflight ?s1) = set (inflight s)"
      using d res m bt_wf_distinct [OF bt_wf_insert [OF wf, of i c]] by (auto simp: inflight_def fst_set_bt_insert)
    ultimately have "seg_inv fp contents w target ?s1" by (intro seg_inv_moved [OF inv]) simp_all
    then show ?thesis using assemble_inv m Inr by (simp add: receive_result_def)
  qed
qed

lemma seg_step_inv:
  assumes "seg_step answers policy (length contents) s s'" "seg_inv fp contents w target s" "drained s"
    and serves: "\<And>i env. answers i env \<Longrightarrow> serves_segment contents i env"
  shows "seg_inv fp contents w target s' \<and> drained s'"
proof -
  have d: "distinct (inflight s)" and right: "right_run contents s"
    using assms(2) by (auto simp: seg_inv_def dest: flow_distinct)
  from assms(1) show ?thesis
  proof cases
    case (check_failed e)
    have "s = s\<lparr>rn_results := rn_results s\<rparr>" by simp
    with assms(2) have "seg_inv fp contents w target (halt (failure_new ''cancelled'' e 0) s)"
      by (intro halt_inv [where pre = "[]" and s = s]) (auto simp: seg_inv_def)
    with check_failed assms(3) show ?thesis by (simp add: halt_def drained_def next_index_def)
  next
    case (received m ms env)
    with received_inv [OF assms(2)] show ?thesis by simp
  next
    case (worker_fetched i envs r)
    have "right_segment contents i c" if "r = Inr c" for c
      using that worker_fetched fetch_right serves by (metis (no_types, lifting) list.pred_mono_strong)
    then have "right_run contents s'"
      using worker_fetched(1) assms(2) by (auto simp: seg_inv_def right_run_def split: sum.splits)
    moreover have "distinct (inflight s')" "set (inflight s') = set (inflight s)"
      using worker_fetched d by (auto simp: inflight_def)
    ultimately show ?thesis
      using worker_fetched(1) assms(2,3) by (auto intro: seg_inv_moved simp: drained_def next_index_def)
  qed (use assms(3) d right in \<open>auto intro!: seg_inv_moved [OF assms(2)] simp: drained_def next_index_def right_run_def inflight_def\<close>)
qed

section \<open>Reachable states\<close>

lemma start_inv:
  assumes "honest_dir fp contents dir" "seg_open io fp (length contents) keep dir = Inr out"
  shows "seg_inv fp contents (worker_count policy (length contents) out) (gd_target dir)
           (start_run policy (length contents) spawn out)"
    and "drained (start_run policy (length contents) spawn out)"
proof -
  note out = seg_open_ok [OF assms]
  let ?w = "worker_count policy (length contents) out"
  let ?s = "start_run policy (length contents) None out"
  have "sk_next_index (go_state out) + ?w \<le> length contents" using out(1) unfolding seg_ok_def worker_count_def by linarith
  then have flow: "flow fp contents ?w ?s (inflight ?s)"
    using out(1,2) by (simp add: flow_def start_run_def inflight_def next_index_def Let_def)
  have frame: "right_run contents ?s" "gd_target (go_dir (rn_output ?s)) = gd_target dir"
    using out by (simp_all add: start_run_def right_run_def Let_def)
  have "seg_inv fp contents ?w (gd_target dir) (start_run policy (length contents) spawn out)"
  proof (cases "start_run policy (length contents) spawn out = ?s")
    case False
    then obtain k f where "start_run policy (length contents) spawn out = halt f (?s\<lparr>rn_idle := k\<rparr>)"
      by (auto simp: start_run_def Let_def split: option.splits prod.splits if_splits)
    moreover have "flow fp contents ?w (?s\<lparr>rn_idle := k\<rparr>) (inflight (?s\<lparr>rn_idle := k\<rparr>))"
      using flow by (simp add: inflight_def flow_cong)
    ultimately show ?thesis
      using frame halt_inv [where pre = "[]" and s = "?s\<lparr>rn_idle := k\<rparr>" and ms = "[]"]
      by (simp add: right_run_def start_run_def Let_def)
  qed (use flow frame in \<open>simp add: seg_inv_def\<close>)
  then show "seg_inv fp contents ?w (gd_target dir) (start_run policy (length contents) spawn out)" .
  show "drained (start_run policy (length contents) spawn out)"
    by (auto simp: drained_def start_run_def halt_def Let_def split: option.splits)
qed

lemma reachable_inv:
  assumes "(seg_step answers policy (length contents))\<^sup>*\<^sup>* s s'" "seg_inv fp contents w target s" "drained s"
    and "\<And>i env. answers i env \<Longrightarrow> serves_segment contents i env"
  shows "seg_inv fp contents w target s' \<and> drained s'"
  using assms by (induction rule: rtranclp_induct) (auto dest: seg_step_inv)

text \<open>How much is left to do: jobs not sent yet, then the stages of a job and of a worker.\<close>

definition crew :: "seg_run \<Rightarrow> nat" where
  "crew s = rn_idle s + rn_waiting s + length (rn_active s)"

definition load :: "nat \<Rightarrow> seg_run \<Rightarrow> nat" where
  "load segs s = 4 * (segs - rn_next_job s) + 4 * length (rn_jobs s)"

definition remaining_work :: "nat \<Rightarrow> seg_run \<Rightarrow> nat" where
  "remaining_work segs s =
     load segs s + 4 * length (rn_active s) + length (rn_results s) + 2 * rn_idle s + rn_waiting s +
     (if rn_stop s then 0 else 1)"

definition may_send :: "nat \<Rightarrow> seg_run \<Rightarrow> bool" where
  "may_send segs s \<longleftrightarrow> (rn_jobs_open s \<longrightarrow> rn_next_job s < segs)"

lemma seg_inv_may_send: "seg_inv fp contents w target s \<Longrightarrow> may_send (length contents) s"
  by (auto simp: seg_inv_def flow_def may_send_def split: if_splits)

lemma halt_frame [simp]:
  "rn_idle (halt f s) = rn_idle s" "rn_waiting (halt f s) = rn_waiting s" "rn_active (halt f s) = rn_active s"
  "rn_results (halt f s) = rn_results s" "rn_jobs (halt f s) = rn_jobs s" "rn_next_job (halt f s) = rn_next_job s" "load segs (halt f s) = load segs s" "rn_stop (halt f s)"
  "\<not> rn_jobs_open (halt f s)"
  by (simp_all add: halt_def load_def)

lemma send_job_frame [simp]:
  "rn_idle (send_job segs s) = rn_idle s" "rn_waiting (send_job segs s) = rn_waiting s"
  "rn_active (send_job segs s) = rn_active s" "rn_results (send_job segs s) = rn_results s"
  "rn_stop (send_job segs s) = rn_stop s"
  by (simp_all add: send_job_def)

lemma send_job_load: "may_send segs s \<Longrightarrow> load segs (send_job segs s) = load segs s \<and> may_send segs (send_job segs s)"
  by (auto simp: send_job_def load_def may_send_def)

lemma assemble_frame:
  "rn_idle (assemble env segs s) = rn_idle s \<and> rn_waiting (assemble env segs s) = rn_waiting s \<and>
   rn_active (assemble env segs s) = rn_active s \<and> rn_results (assemble env segs s) = rn_results s \<and>
   (rn_stop s \<longrightarrow> rn_stop (assemble env segs s)) \<and>
   (may_send segs s \<longrightarrow> load segs (assemble env segs s) = load segs s)"
proof (induction env segs s rule: assemble.induct)
  case (1 env segs s)
  show ?case
  proof (cases "bt_get (rn_pending s) (next_index s)")
    case None
    then show ?thesis by (simp add: assemble.simps [of env segs s])
  next
    case (Some c)
    obtain r out where a: "seg_append (env (next_index s)) (cp_data c) (cp_size c) (rn_output s) = (r, out)" by force
    show ?thesis
    proof (cases r)
      case (Inl e)
      with a Some show ?thesis by (simp add: assemble.simps [of env segs s] load_def Let_def)
    next
      case (Inr u)
      let ?s1 = "s\<lparr>rn_pending := bt_remove (next_index s) (rn_pending s),
        rn_output := seg_checkpoint_save False (ap_late (env (next_index s))) (ap_save (env (next_index s))) out\<rparr>"
      have "may_send segs s \<Longrightarrow> may_send segs ?s1" "load segs ?s1 = load segs s" by (simp_all add: may_send_def load_def)
      with "1.IH" [OF Some refl refl a [symmetric] Inr] send_job_load [of segs ?s1] a Some Inr show ?thesis
        by (simp add: assemble.simps [of env segs s] Let_def)
    qed
  qed
qed

lemma seg_step_work:
  assumes "seg_step answers policy segs s s'" "may_send segs s"
  shows "remaining_work segs s' < remaining_work segs s" "crew s' \<le> crew s"
proof -
  have "remaining_work segs s' < remaining_work segs s \<and> crew s' \<le> crew s"
    using assms(1)
  proof cases
    case (received m ms env)
    obtain s1 where s1: "s' = assemble env segs s1" "rn_idle s1 = rn_idle s" "rn_waiting s1 = rn_waiting s"
      "rn_active s1 = rn_active s" "rn_results s1 = ms" "rn_stop s \<longrightarrow> rn_stop s1" "may_send segs s1" "load segs s1 = load segs s"
    proof (cases "snd m")
      case (Inl f)
      then show ?thesis
        using received assms(2) that [of "halt f (s\<lparr>rn_results := ms\<rparr>)"]
        by (cases m) (simp add: receive_result_def may_send_def load_def)
    next
      case (Inr c)
      then show ?thesis
        using received assms(2) that [of "s\<lparr>rn_results := ms, rn_pending := bt_insert (fst m) c (rn_pending s)\<rparr>"]
        by (cases m) (simp add: receive_result_def may_send_def load_def)
    qed
    show ?thesis
      using assemble_frame [of env segs s1] s1 received(2) by (simp add: remaining_work_def crew_def)
  next
    case (worker_fetched i envs r)
    from length_pos_if_in_set [OF worker_fetched(2)]
    have "length (rn_active s) = Suc (length (remove1 i (rn_active s)))"
      using worker_fetched(2) by (simp add: length_remove1)
    with worker_fetched show ?thesis by (simp add: remaining_work_def crew_def load_def)
  qed (auto simp: remaining_work_def crew_def load_def)
  then show "remaining_work segs s' < remaining_work segs s" "crew s' \<le> crew s" by simp_all
qed

lemma relpow_inv:
  assumes "(seg_step answers policy (length contents) ^^ n) s s'" "seg_inv fp contents w target s" "drained s"
    and "\<And>i env. answers i env \<Longrightarrow> serves_segment contents i env"
  shows "seg_inv fp contents w target s' \<and> drained s' \<and> crew s' \<le> crew s \<and>
         n + remaining_work (length contents) s' \<le> remaining_work (length contents) s"
  using assms(1)
proof (induction n arbitrary: s')
  case (Suc n)
  then obtain t where t: "(seg_step answers policy (length contents) ^^ n) s t" "seg_step answers policy (length contents) t s'"
    by auto
  from Suc.IH [OF t(1)] have "seg_inv fp contents w target t" "drained t" "crew t \<le> crew s"
    "n + remaining_work (length contents) t \<le> remaining_work (length contents) s" by simp_all
  with seg_step_inv [OF t(2) _ _ assms(4)] seg_step_work [OF t(2)] seg_inv_may_send show ?case by fastforce
qed (use assms in simp)

lemma start_work:
  assumes "sk_next_index (go_state out) \<le> segs"
  shows "remaining_work segs (start_run policy segs spawn out) \<le>
           4 * (segs - sk_next_index (go_state out)) + 2 * worker_count policy segs out + 1"
    and "crew (start_run policy segs spawn out) \<le> worker_count policy segs out"
proof -
  have "worker_count policy segs out \<le> segs - sk_next_index (go_state out)" by (simp add: worker_count_def)
  with assms show "remaining_work segs (start_run policy segs spawn out) \<le>
      4 * (segs - sk_next_index (go_state out)) + 2 * worker_count policy segs out + 1"
    "crew (start_run policy segs spawn out) \<le> worker_count policy segs out"
    by (auto simp: start_run_def remaining_work_def load_def crew_def Let_def split: option.splits)
qed

lemma fetch_returns:
  assumes "1 \<le> tp_max_attempts policy" "answers i env"
  obtains envs r where "list_all (answers i) envs" "fetch envs policy i = Some r"
proof -
  let ?envs = "replicate (nat (tp_max_attempts policy)) env"
  obtain r where "fetch ?envs policy i = Some r"
    using fetch_attempts_end [of 1 policy ?envs] assms(1) by (auto simp: fetch_def)
  moreover have "list_all (answers i) ?envs" using assms(2) by (simp add: list_all_iff)
  ultimately show ?thesis by (rule that [rotated])
qed

lemma seg_step_progress:
  assumes inv: "seg_inv fp contents w target s" and "drained s" "crew s \<le> w" "1 \<le> tp_max_attempts policy"
    and answers: "\<And>i. \<exists>env. answers i env"
  shows "run_finished s \<or> (\<exists>s'. seg_step answers policy (length contents) s s')"
proof (rule ccontr)
  assume "\<not> ?thesis"
  then have stuck: "\<not> run_finished s" "\<And>s'. \<not> seg_step answers policy (length contents) s s'" by auto
  have "rn_results s = []"
    using stuck(2) seg_step.received [of s _ _ answers policy "length contents"] by (cases "rn_results s") blast+
  moreover have "rn_idle s = 0"
    using stuck(2) seg_step.worker_cancelled [of s answers policy "length contents"] by blast
  moreover have "rn_active s = []"
  proof (cases "rn_active s")
    case (Cons i rest)
    obtain env where "answers i env" using answers by blast
    then obtain envs r where "list_all (answers i) envs" "fetch envs policy i = Some r"
      using fetch_returns [OF assms(4)] by blast
    then show ?thesis using stuck(2) seg_step.worker_fetched [of i s answers envs policy r "length contents"] Cons by auto
  qed simp
  ultimately have waiting: "0 < rn_waiting s" using stuck(1) by (simp add: run_finished_def)
  then have jobs: "rn_jobs s = []"
    using stuck(2) seg_step.worker_picked [of s _ _ answers policy "length contents"] by (cases "rn_jobs s") blast+
  then have "rn_jobs_open s"
    using stuck(2) waiting seg_step.worker_disconnected [of s answers policy "length contents"] by blast
  then have "set (inflight s) = {next_index s..<next_index s + w}"
    using inv by (auto simp: seg_inv_def flow_def split: if_splits)
  moreover have "0 < w" using assms(3) waiting by (simp add: crew_def)
  ultimately have "next_index s \<in> set (inflight s)" by simp
  with assms(2) jobs \<open>rn_active s = []\<close> \<open>rn_results s = []\<close> show False by (simp add: inflight_def drained_def)
qed

lemma inflight_bounded: "seg_inv fp contents w target s \<Longrightarrow> length (inflight s) \<le> w"
proof -
  assume "seg_inv fp contents w target s"
  then have "distinct (inflight s)" "set (inflight s) \<subseteq> {next_index s..<rn_next_job s}" "rn_next_job s \<le> next_index s + w"
    by (auto simp only: seg_inv_def flow_def)
  then show ?thesis using distinct_card [of "inflight s"] card_mono [of "{next_index s..<rn_next_job s}" "set (inflight s)"] by simp
qed

definition seg_outcome ::
  "string \<Rightarrow> u8 list list \<Rightarrow> u8 list option \<Rightarrow> (failure, seg_success) result \<Rightarrow> seg_dir \<Rightarrow> bool" where
  "seg_outcome fp contents target r dir \<longleftrightarrow>
     honest_dir fp contents dir \<and>
     (case r of
        Inr s \<Rightarrow> gd_target dir = Some (concat contents) \<and> ss_size s = length (concat contents) \<and>
                  ss_segments s = length contents
      | Inl _ \<Rightarrow> gd_target dir = target)"

lemma publish_segments_cases:
  assumes "publish_segments env (length contents) b out = (r, out')" "seg_ok fp contents out" "seg_clean out"
  shows "seg_outcome fp contents (gd_target (go_dir out)) r (seg_drop removed out')"
proof (cases "sk_next_index (go_state out) \<noteq> length contents \<or> sk_bytes (go_state out) = 0")
  case True
  with assms show ?thesis by (auto simp: publish_segments_def seg_drop_honest seg_outcome_def)
next
  case False
  then have whole: "gd_staged (go_dir out) = concat contents" "sk_bytes (go_state out) = length (concat contents)"
    using assms(2,3) by (auto simp: seg_ok_def seg_clean_def)
  obtain p out1 where p: "seg_publish (se_sync env) (se_check env) (se_rename env) (se_unlinked env) out = (p, out1)" by force
  with assms(1) False have res: "out' = out1"
    "r = (case p of Inl e \<Rightarrow> Inl (failure_new ''storage_error'' (''failed to publish segmented output: '' @ e) 0)
          | Inr _ \<Rightarrow> Inr \<lparr>ss_size = sk_bytes (go_state out1), ss_segments = length contents, ss_resumed = b\<rparr>)"
    by (auto simp only: publish_segments_def split: sum.splits prod.splits if_splits)
  from p show ?thesis
    by (rule seg_publish_cases)
      (use assms(2) whole in \<open>simp_all add: res seg_drop_honest seg_drop_promoted seg_outcome_def\<close>)
qed

lemma end_run_cases:
  assumes "seg_inv fp contents w target s" "end_run env (length contents) s = (r, out)"
  shows "seg_outcome fp contents target r (seg_drop removed out)"
proof (cases "rn_failure s")
  case None
  then have "seg_ok fp contents (rn_output s)" "seg_clean (rn_output s)" "gd_target (go_dir (rn_output s)) = target"
    using assms(1) by (simp_all add: seg_inv_def flow_def)
  with publish_segments_cases [of env contents False "rn_output s" r out fp removed] assms(2) None
  show ?thesis by (simp add: end_run_def)
next
  case (Some f)
  then have out: "out = seg_checkpoint_save True False (se_save env) (rn_output s)" "r = Inl f"
    using assms(2) by (simp_all add: end_run_def)
  have ok: "seg_ok fp contents (rn_output s)" "gd_target (go_dir (rn_output s)) = target"
    using assms(1) by (auto simp only: seg_inv_def flow_def)
  show ?thesis
    unfolding out seg_outcome_def using seg_drop_honest [OF seg_checkpoint_save_ok [OF ok(1)]] ok(2) by simp
qed

section \<open>Running the threads\<close>

text \<open>The steps as an executable schedule: which thread moves next, and what its surroundings answer.\<close>

datatype seg_label =
    CheckFails string
  | Receives "nat \<Rightarrow> append_env"
  | Checks
  | Leaves
  | Picks
  | Disconnects
  | Fetches nat "fetch_env list"

definition seg_exec :: "transfer_policy \<Rightarrow> nat \<Rightarrow> seg_label \<Rightarrow> seg_run \<Rightarrow> seg_run option" where
  "seg_exec policy segs l s =
     (case l of
        CheckFails e \<Rightarrow> if rn_stop s then None else Some (halt (failure_new ''cancelled'' e 0) s)
      | Receives env \<Rightarrow>
          (case rn_results s of [] \<Rightarrow> None | m # ms \<Rightarrow> Some (receive_result env segs m (s\<lparr>rn_results := ms\<rparr>)))
      | Checks \<Rightarrow>
          if 0 < rn_idle s \<and> \<not> rn_stop s then Some (s\<lparr>rn_idle := rn_idle s - 1, rn_waiting := rn_waiting s + 1\<rparr>) else None
      | Leaves \<Rightarrow> if 0 < rn_idle s then Some (s\<lparr>rn_idle := rn_idle s - 1\<rparr>) else None
      | Picks \<Rightarrow>
          (case rn_jobs s of
             [] \<Rightarrow> None
           | i # js \<Rightarrow>
               if 0 < rn_waiting s
               then Some (s\<lparr>rn_waiting := rn_waiting s - 1, rn_jobs := js, rn_active := i # rn_active s\<rparr>) else None)
      | Disconnects \<Rightarrow>
          if 0 < rn_waiting s \<and> rn_jobs s = [] \<and> \<not> rn_jobs_open s then Some (s\<lparr>rn_waiting := rn_waiting s - 1\<rparr>) else None
      | Fetches i envs \<Rightarrow>
          if i \<in> set (rn_active s)
          then map_option (\<lambda>r. s\<lparr>rn_active := remove1 i (rn_active s), rn_results := rn_results s @ [(i, r)],
                 rn_idle := rn_idle s + (if is_ok r then 1 else 0)\<rparr>) (fetch envs policy i)
          else None)"

fun seg_schedule :: "transfer_policy \<Rightarrow> nat \<Rightarrow> seg_label list \<Rightarrow> seg_run \<Rightarrow> seg_run option" where
  "seg_schedule policy segs [] s = Some s"
| "seg_schedule policy segs (l # ls) s = Option.bind (seg_exec policy segs l s) (seg_schedule policy segs ls)"

definition fetches_ok :: "(nat \<Rightarrow> fetch_env \<Rightarrow> bool) \<Rightarrow> seg_label \<Rightarrow> bool" where
  "fetches_ok answers l \<longleftrightarrow> (case l of Fetches i envs \<Rightarrow> list_all (answers i) envs | _ \<Rightarrow> True)"

lemma seg_exec_step:
  assumes "seg_exec policy segs l s = Some s'" "fetches_ok answers l"
  shows "seg_step answers policy segs s s'"
  using assms
proof (cases l)
  case (Fetches i envs)
  with assms obtain r where "i \<in> set (rn_active s)" "list_all (answers i) envs" "fetch envs policy i = Some r"
    "s' = s\<lparr>rn_active := remove1 i (rn_active s), rn_results := rn_results s @ [(i, r)],
       rn_idle := rn_idle s + (if is_ok r then 1 else 0)\<rparr>"
    by (auto simp add: seg_exec_def fetches_ok_def simp del: if_split split: if_split_asm)
  then show ?thesis using seg_step.worker_fetched [of i s answers envs policy r segs] by simp
qed (auto simp: seg_exec_def seg_step.check_failed seg_step.received split: if_splits list.splits
    dest: seg_step.worker_checked [of s answers policy segs, simplified] seg_step.worker_cancelled [of s answers policy segs, simplified]
      seg_step.worker_picked [of s _ _ answers policy segs, simplified]
      seg_step.worker_disconnected [of s answers policy segs, simplified])

lemma seg_schedule_steps:
  assumes "seg_schedule policy segs ls s = Some s'" "list_all (fetches_ok answers) ls"
  shows "(seg_step answers policy segs)\<^sup>*\<^sup>* s s'"
  using assms
  by (induction ls arbitrary: s)
    (auto simp: bind_eq_Some_conv intro: converse_rtranclp_into_rtranclp dest!: seg_exec_step)

lemma seg_schedule_relpow:
  assumes "seg_schedule policy segs ls s = Some s'" "list_all (fetches_ok answers) ls"
  shows "(seg_step answers policy segs ^^ length ls) s s'"
  using assms
proof (induction ls arbitrary: s)
  case (Cons l ls)
  then obtain t where "seg_exec policy segs l s = Some t" "seg_schedule policy segs ls t = Some s'"
    by (auto simp: bind_eq_Some_conv)
  with Cons show ?case
    using seg_exec_step relpowp_Suc_I2 [of "seg_step answers policy segs" s t "length ls" s'] by simp
qed simp

section \<open>The properties\<close>

text \<open>A download of two segments whose second one arrives first.\<close>

definition sample_reply :: "u8 list \<Rightarrow> fetch_env" where
  "sample_reply bytes =
     \<lparr>fe_check = Inr (), fe_create = Inr (),
      fe_serve = Inr \<lparr>st_response = \<lparr>hr_status = 200, hr_headers = []\<rparr>,
                      st_reads = [\<lparr>sv_data = bytes, sv_write = Inr ()\<rparr>], st_end = Inr ()\<rparr>,
      fe_check_after = Inr (), fe_wait = (\<lambda>_. Inr ()), fe_jitter = None, fe_date = (\<lambda>_. None), fe_now = 0\<rparr>"

definition sample_append :: "nat \<Rightarrow> append_env" where
  "sample_append _ = \<lparr>ap_copy = Inr (), ap_rolled_back = True, ap_late = False, ap_save = SyncFailed\<rparr>"

definition sample_contents :: "u8 list list" where
  "sample_contents = [[1, 2], [3]]"

definition sample_env :: seg_env where
  "sample_env =
     \<lparr>se_lock = Inr (), se_open = Inr (), se_spawn = None, se_save = SyncFailed, se_sync = Inr (), se_check = Inr (),
      se_rename = Inr (), se_unlinked = True, se_removed = (True, True)\<rparr>"

definition sample_dir :: seg_dir where
  "sample_dir = \<lparr>gd_target = Some [9], gd_staged = [], gd_checkpoint = None\<rparr>"

definition sample_output :: seg_output where
  "sample_output =
     \<lparr>go_dir = sample_dir, go_state = seg_checkpoint_default\<lparr>sk_fingerprint := ''fp''\<rparr>, go_keep = False,
      go_promoted = False, go_saved_bytes = 0\<rparr>"

definition sample_schedule :: "seg_label list" where
  "sample_schedule =
     [Checks, Checks, Picks, Picks, Fetches 1 [sample_reply [3]], Fetches 0 [sample_reply [1, 2]],
      Receives sample_append, Receives sample_append, Checks, Disconnects, Checks, Disconnects]"

definition sample_end :: seg_run where
  "sample_end =
     \<lparr>rn_output = \<lparr>go_dir = \<lparr>gd_target = Some [9], gd_staged = [1, 2, 3], gd_checkpoint = None\<rparr>,
        go_state = \<lparr>sk_version = 0, sk_fingerprint = ''fp'', sk_next_index = 2, sk_bytes = 3, sk_updated_at = 0\<rparr>,
        go_keep = False, go_promoted = False, go_saved_bytes = 0\<rparr>,
      rn_next_job = 2, rn_jobs_open = False, rn_jobs = [], rn_idle = 0, rn_waiting = 0, rn_active = [], rn_results = [],
      rn_pending = [], rn_failure = None, rn_stop = False\<rparr>"

lemma assemble_idle: "bt_get (rn_pending s) (next_index s) = None \<Longrightarrow> assemble env segs s = s"
  by (simp add: assemble.simps [of env segs s])

lemma assemble_ready:
  assumes "bt_get (rn_pending s) (next_index s) = Some c"
    and "seg_append (env (next_index s)) (cp_data c) (cp_size c) (rn_output s) = (Inr u, out)"
  shows "assemble env segs s = assemble env segs (send_job segs
    (s\<lparr>rn_pending := bt_remove (next_index s) (rn_pending s),
       rn_output := seg_checkpoint_save False (ap_late (env (next_index s))) (ap_save (env (next_index s))) out\<rparr>))"
  using assms by (simp add: assemble.simps [of env segs s] Let_def)

lemma sample_fetch:
  "bytes \<noteq> [] \<Longrightarrow>
   fetch [sample_reply bytes] policy_default i = Some (Inr \<lparr>cp_data = bytes, cp_size = length bytes, cp_attempts = 1\<rparr>)"
  by (simp add: sample_reply_def policy_default_def fetch_def segment_attempt_def segment_body_def resp_header_def bt_get_def
      parse_i64_or_def parse_i64_def)

lemma sample_length: "length sample_contents = 2"
  by (simp add: sample_contents_def)

lemma sample_start:
  "start_run policy_default 2 None sample_output =
     \<lparr>rn_output = sample_output, rn_next_job = 2, rn_jobs_open = False, rn_jobs = [0, 1], rn_idle = 2, rn_waiting = 0,
      rn_active = [], rn_results = [], rn_pending = [], rn_failure = None, rn_stop = False\<rparr>"
  by (simp add: sample_output_def start_run_def worker_count_def policy_default_def seg_checkpoint_default_def
      upt_rec [of 0] upt_rec [of "Suc 0"])

lemma sample_schedule_end:
  "seg_schedule policy_default (length sample_contents) sample_schedule
     (start_run policy_default (length sample_contents) None sample_output) = Some sample_end"
  unfolding sample_length sample_start
  by (simp add: sample_schedule_def sample_output_def sample_end_def sample_append_def sample_dir_def
      seg_checkpoint_default_def seg_exec_def sample_fetch is_ok_def receive_result_def assemble_idle assemble_ready
      next_index_def bt_remove_def bt_get_def seg_append_def seg_checkpoint_save_def send_job_def)

lemma sample_answers: "list_all (fetches_ok (serves_segment sample_contents)) sample_schedule"
  by (simp add: sample_schedule_def fetches_ok_def serves_segment_def sample_reply_def sample_contents_def)

lemma sample_open:
  "honest_dir ''fp'' sample_contents sample_dir"
  "seg_open (Inr ()) ''fp'' (length sample_contents) False sample_dir = Inr sample_output"
  by (simp_all add: sample_dir_def seg_open_def sample_output_def seg_truncated_def seg_forgotten_def seg_cleaned_def
      seg_kept_def seg_restored_def seg_checkpoint_default_def set_len_def Let_def)

text \<open>
  C2. Segments are published in order. From a directory whose checkpoint is honest, and with servers
  that send the right bytes or fail, every run of the workers, in whatever order they finish, leaves an
  honest directory; a download that succeeds has replaced the target by the concatenation of all
  segments, and one that fails has left the target alone.
\<close>

theorem segmented_download_assembles_in_order:
  assumes "honest_dir fp contents dir" and "\<forall>i env. answers i env \<longrightarrow> serves_segment contents i env"
    and "seg_download answers policy (length contents) env fp keep dir (r, dir')"
  shows "honest_dir fp contents dir' \<and>
    (case r of Inr s \<Rightarrow> gd_target dir' = Some (concat contents) \<and> ss_size s = length (concat contents)
                        \<and> ss_segments s = length contents
     | Inl _ \<Rightarrow> gd_target dir' = gd_target dir)"
proof -
  from assms(3) have "seg_outcome fp contents (gd_target dir) r dir'"
  proof cases
    case (not_locked e)
    with assms(1) show ?thesis by (simp add: seg_outcome_def)
  next
    case (not_opened e)
    then obtain fault where "dir' = seg_open_left fault fp (length contents) keep dir"
      by (auto simp: seg_open_def split: sum.splits prod.splits)
    with not_opened seg_open_left_honest [OF assms(1)] show ?thesis by (simp add: seg_outcome_def)
  next
    case (restored out)
    note out = seg_open_ok [OF assms(1) restored(3)]
    obtain out' where "publish_segments env (length contents) True out = (r, out')" "dir' = seg_drop (se_removed env) out'"
      using restored(1) by (auto simp: close_output_def split: prod.splits)
    with publish_segments_cases [OF _ out(1,2)] out(3) show ?thesis by metis
  next
    case (transferred out s)
    obtain out' where "end_run env (length contents) s = (r, out')" "dir' = seg_drop (se_removed env) out'"
      using transferred(1) by (auto simp: close_output_def split: prod.splits)
    moreover have "seg_inv fp contents (worker_count policy (length contents) out) (gd_target dir) s"
      using reachable_inv [OF transferred(5) start_inv [OF assms(1) transferred(3)]] assms(2) by blast
    ultimately show ?thesis using end_run_cases by metis
  qed
  then show ?thesis by (simp add: seg_outcome_def)
qed

theorem segmented_download_assembles_in_order_witness:
  "gd_target (snd (close_output sample_env (end_run sample_env 2 sample_end))) = Some [1, 2, 3]"
proof -
  let ?out = "close_output sample_env (end_run sample_env 2 sample_end)"
  have ok: "is_ok (fst ?out)"
    by (simp add: close_output_def end_run_def sample_end_def sample_env_def publish_segments_def seg_publish_def is_ok_def)
  have "seg_download (serves_segment sample_contents) policy_default (length sample_contents) sample_env ''fp'' False sample_dir
      (close_output sample_env (end_run sample_env (length sample_contents) sample_end))"
    by (rule seg_download.transferred [where out = sample_output])
      (use sample_open(2) seg_schedule_steps [OF sample_schedule_end sample_answers] in
        \<open>simp_all add: sample_env_def sample_output_def segments_restored_def seg_checkpoint_default_def run_finished_def sample_end_def\<close>)
  with segmented_download_assembles_in_order [OF sample_open(1), of "serves_segment sample_contents" policy_default sample_env False
      "fst ?out" "snd ?out"] ok
  have "gd_target (snd ?out) = Some (concat sample_contents)"
    by (auto simp: sample_length is_ok_def split: sum.splits)
  then show ?thesis by (simp add: sample_contents_def)
qed

text \<open>
  C3. Segmented downloads end. However the threads interleave, a run has at most four steps for each
  missing segment, two for each worker and one more, and as long as a worker is alive or a result is
  unread some thread can move: neither the job channel nor the result channel can deadlock.
\<close>

theorem segment_runs_end:
  assumes "honest_dir fp contents dir" and "\<forall>i env. answers i env \<longrightarrow> serves_segment contents i env"
    and "seg_open io fp (length contents) keep dir = Inr out" and "\<forall>i. \<exists>env. answers i env"
    and "1 \<le> tp_max_attempts policy"
    and "(seg_step answers policy (length contents) ^^ n) (start_run policy (length contents) spawn out) s"
  shows "n \<le> 4 * (length contents - sk_next_index (go_state out)) + 2 * worker_count policy (length contents) out + 1 \<and>
         (run_finished s \<or> (\<exists>s'. seg_step answers policy (length contents) s s'))"
proof -
  note start = start_inv [OF assms(1,3), of policy spawn]
  have "sk_next_index (go_state out) \<le> length contents" using seg_open_ok(1) [OF assms(1,3)] by (simp add: seg_ok_def)
  note work = start_work [OF this, of policy spawn]
  from relpow_inv [OF assms(6) start] assms(2)
  have "seg_inv fp contents (worker_count policy (length contents) out) (gd_target dir) s" "drained s"
    "crew s \<le> crew (start_run policy (length contents) spawn out)"
    "n + remaining_work (length contents) s \<le> remaining_work (length contents) (start_run policy (length contents) spawn out)"
    by blast+
  with work assms(4,5) seg_step_progress [of fp contents _ _ s policy answers] show ?thesis by fastforce
qed

theorem segment_runs_end_witness:
  "length sample_schedule \<le> 13 \<and> run_finished sample_end"
proof -
  let ?answers = "serves_segment sample_contents"
  have "\<exists>env. ?answers i env" for i
    by (rule exI [of _ "(sample_reply [])\<lparr>fe_serve := Inl []\<rparr>"]) (simp add: serves_segment_def)
  then show ?thesis
    using segment_runs_end [OF sample_open(1) _ sample_open(2) _ _ seg_schedule_relpow [OF sample_schedule_end sample_answers]]
    by (simp add: sample_length sample_output_def seg_checkpoint_default_def worker_count_def policy_default_def
        run_finished_def sample_end_def)
qed

text \<open>
  C23. Slots and recovery. In every state of a run the queued, fetched, received and pending segments
  together are at most as many as the workers, so sending a job never blocks; and if the process stops
  in that state, the directory it leaves is honest and the target is untouched.
\<close>

theorem segment_states_are_recoverable:
  assumes "honest_dir fp contents dir" and "\<forall>i env. answers i env \<longrightarrow> serves_segment contents i env"
    and "seg_open io fp (length contents) keep dir = Inr out"
    and "(seg_step answers policy (length contents))\<^sup>*\<^sup>* (start_run policy (length contents) spawn out) s"
  shows "length (rn_jobs s) + length (rn_active s) + length (rn_results s) + length (rn_pending s)
           \<le> worker_count policy (length contents) out \<and>
         honest_dir fp contents (go_dir (rn_output s)) \<and> gd_target (go_dir (rn_output s)) = gd_target dir"
proof -
  have inv: "seg_inv fp contents (worker_count policy (length contents) out) (gd_target dir) s"
    using reachable_inv [OF assms(4) start_inv [OF assms(1,3)]] assms(2) by blast
  then have "seg_ok fp contents (rn_output s)" "gd_target (go_dir (rn_output s)) = gd_target dir"
    by (auto simp only: seg_inv_def flow_def)
  with inflight_bounded [OF inv] seg_ok_honest show ?thesis by (simp add: inflight_def)
qed

theorem segment_states_are_recoverable_witness:
  "honest_dir ''fp'' sample_contents (go_dir (rn_output sample_end)) \<and> gd_target (go_dir (rn_output sample_end)) = Some [9]"
  using segment_states_are_recoverable [OF sample_open(1) _ sample_open(2)
      seg_schedule_steps [OF sample_schedule_end sample_answers]]
  by (simp add: sample_dir_def)

end
