(* ===== verification/Chunked_Download.thy ===== *)
theory Chunked_Download
  imports Download_Engine
begin

text \<open>
  Chunked downloads (\<open>crates/extensions/src/download/chunked.rs\<close>): a probe learns the version and the
  length of the resource, then it is fetched range by range into the staged file of
  \<open>Download_Store\<close>. As in \<open>Download_Engine\<close>, each attempt has an environment, the network is a function
  of the request headers, and progress reports and budget guards are left out.
\<close>

section \<open>Requests and the probe\<close>

definition chunk_headers :: "string \<Rightarrow> headers \<Rightarrow> string \<Rightarrow> string \<Rightarrow> headers" where
  "chunk_headers agent hs rng v =
     (let hs1 = set_header hs ''Range'' rng;
          hs2 = (if v \<noteq> [] then set_header hs1 ''If-Range'' v else hs1);
          user_agent = (case bt_get hs ''User-Agent'' of Some a \<Rightarrow> if a \<noteq> [] then a else agent | None \<Rightarrow> agent)
      in set_header hs2 ''User-Agent'' user_agent)"

definition range_of :: "nat \<Rightarrow> nat \<Rightarrow> string" where
  "range_of a b = ''bytes='' @ show_nat a @ ''-'' @ show_nat b"

definition total_prefix :: "string \<Rightarrow> string" where
  "total_prefix s =
     (case s of
        [] \<Rightarrow> []
      | c # cs \<Rightarrow> if is_ascii_digit c \<or> c = CHR ''-'' \<or> c = CHR ''+'' then c # takeWhile is_ascii_digit cs else [])"

definition content_length :: "http_response \<Rightarrow> int" where
  "content_length r = parse_i64_or (- 1) (resp_header r ''Content-Length'')"

definition total_length :: "http_response \<Rightarrow> int" where
  "total_length r =
     (case Option.bind (rsplit_once (CHR ''/'') (resp_header r ''Content-Range''))
             (\<lambda>(_, t). ok (parse_i64 (total_prefix (trim_start t)))) of
        Some t \<Rightarrow> t
      | None \<Rightarrow> if hr_status r = 200 then content_length r else 0)"

definition chunk_delay :: "failure \<Rightarrow> nat \<Rightarrow> nat" where
  "chunk_delay f fallback = (if fa_retry_after_seconds f > 0 then fa_retry_after_seconds f * 1000000000 else fallback)"

datatype probe_end = Probed http_response | ProbeFailed failure | Reprobe nat

definition probe_failed ::
  "attempt_env \<Rightarrow> transfer_policy \<Rightarrow> nat \<Rightarrow> nat \<Rightarrow> failure \<Rightarrow> probe_end" where
  "probe_failed env policy n delay f =
     (case ae_check_after env of
        Inl e \<Rightarrow> ProbeFailed (failure_new ''cancelled'' e n)
      | Inr _ \<Rightarrow>
          if int n \<ge> tp_max_attempts policy \<or> (fa_http_status f > 0 \<and> \<not> retryable (fa_http_status f)) then ProbeFailed f
          else case ae_wait env (chunk_delay f delay) of
                 Inl e \<Rightarrow> ProbeFailed (failure_new ''cancelled'' e n)
               | Inr _ \<Rightarrow> Reprobe (next_delay (ae_jitter env) policy delay))"

definition probe_attempt ::
  "attempt_env \<Rightarrow> string \<Rightarrow> download_options \<Rightarrow> nat \<Rightarrow> nat \<Rightarrow> probe_end" where
  "probe_attempt env agent opts n delay =
     (case ae_check env of
        Inl e \<Rightarrow> ProbeFailed (failure_new ''cancelled'' e n)
      | Inr _ \<Rightarrow>
          (case ae_serve env (chunk_headers agent (do_headers opts) (range_of 0 1) []) of
             Inl e \<Rightarrow> probe_failed env (do_policy opts) n delay
                        (failure_new ''transient_network'' (''chunked probe failed: '' @ e) n)
           | Inr t \<Rightarrow>
               if hr_status (tr_response t) \<in> {200, 206} then Probed (tr_response t)
               else probe_failed env (do_policy opts) n delay
                      ((status_failure (ae_date env) (ae_now env) (tr_response t) (do_policy opts) n)
                         \<lparr>fa_error := ''chunked probe HTTP '' @ show_nat (hr_status (tr_response t))\<rparr>)))"

text \<open>The probe loop, with the number of attempts made; \<open>None\<close> when the environments run out.\<close>

fun probe_attempts ::
  "attempt_env list \<Rightarrow> string \<Rightarrow> download_options \<Rightarrow> nat \<Rightarrow> nat \<Rightarrow> (failure, http_response \<times> nat) result option" where
  "probe_attempts [] agent opts n delay = None"
| "probe_attempts (env # envs) agent opts n delay =
     (case probe_attempt env agent opts n delay of
        Probed r \<Rightarrow> Some (Inr (r, n))
      | ProbeFailed f \<Rightarrow> Some (Inl f)
      | Reprobe delay' \<Rightarrow> probe_attempts envs agent opts (n + 1) delay')"

section \<open>One chunk\<close>

text \<open>How an attempt at a chunk ends; a completed or retried one tells where the chunk now starts.\<close>

datatype chunk_end =
    Returned failure
  | Broke failure
  | Retried nat nat
  | Completed bool nat

definition chunk_wait :: "attempt_env \<Rightarrow> transfer_policy \<Rightarrow> nat \<Rightarrow> nat \<Rightarrow> nat \<Rightarrow> nat \<Rightarrow> chunk_end" where
  "chunk_wait env policy attempts start pause delay =
     (case ae_wait env pause of
        Inl e \<Rightarrow> Returned (failure_new ''cancelled'' e attempts)
      | Inr _ \<Rightarrow> Retried start (next_delay (ae_jitter env) policy delay))"

fun read_chunk ::
  "read_event list \<Rightarrow> (string, unit) result \<Rightarrow> download_file \<Rightarrow> (string, (string, unit) result) result \<times> download_file" where
  "read_chunk [] fin f = (Inr fin, f)"
| "read_chunk (ev # evs) fin f =
     (if re_data ev = [] then (Inr (Inr ()), f)
      else case df_write (re_write ev) (re_data ev) f of
             (Inl e, f1) \<Rightarrow> (Inl e, f1)
           | (Inr _, f1) \<Rightarrow> read_chunk evs fin f1)"

definition chunk_rejected ::
  "attempt_env \<Rightarrow> nat \<Rightarrow> nat \<Rightarrow> string \<Rightarrow> http_response \<Rightarrow> failure option" where
  "chunk_rejected env attempts start v r =
     (let range = resp_header r ''Content-Range'' in
      if hr_status r = 206 \<and> \<not> starts_with range (''bytes '' @ show_nat start @ ''-'')
      then Some ((failure_new ''integrity_failed'' (''chunked response has unexpected Content-Range '' @ ae_debug env range @
             '' at '' @ show_nat start) attempts)\<lparr>fa_http_status := 206\<rparr>)
      else if resp_validator r \<noteq> [] \<and> v \<noteq> [] \<and> resp_validator r \<noteq> v
      then Some (failure_new ''integrity_failed'' ''chunked response validator changed during transfer'' attempts)
      else None)"

text \<open>A full answer to a later range restarts the file: the new start, and the file.\<close>

definition chunk_restart ::
  "attempt_env \<Rightarrow> string \<Rightarrow> http_response \<Rightarrow> nat \<Rightarrow> download_file \<Rightarrow> (string, nat) result \<times> download_file" where
  "chunk_restart env v r start f =
     (if hr_status r = 200 \<and> start > 0
      then (case df_restart (ae_io env) (ae_unlink env) f of
              (Inl e, f1) \<Rightarrow> (Inl e, f1)
            | (Inr _, f1) \<Rightarrow>
                (Inr 0, f1\<lparr>df_state := (df_state f1)\<lparr>ck_validator := v,
                    ck_total := (if content_length r > 0 then content_length r else ck_total (df_state f1))\<rparr>\<rparr>))
      else (Inr start, f))"

definition chunk_expected :: "http_response \<Rightarrow> nat \<Rightarrow> nat \<Rightarrow> int" where
  "chunk_expected r start last_byte =
     (if hr_status r = 206 \<and> content_length r \<le> 0 then wrap_i64 (int (min (last_byte - start + 1) u64_max))
      else content_length r)"

definition chunk_body_failed ::
  "attempt_env \<Rightarrow> transfer_policy \<Rightarrow> nat \<Rightarrow> nat \<Rightarrow> nat \<Rightarrow> nat \<Rightarrow> (string, unit) result \<Rightarrow> download_file \<Rightarrow>
   chunk_end \<times> download_file" where
  "chunk_body_failed env policy n attempts start delay body f =
     (case df_rewind (ae_io env) start f of
        (Inl e, f1) \<Rightarrow>
          (Returned (failure_new ''storage_error'' (''failed to roll back incomplete chunk: '' @ e) attempts), f1)
      | (Inr _, f1) \<Rightarrow>
          (case ae_check_after env of
             Inl e \<Rightarrow> (Returned (failure_new ''cancelled'' e attempts), df_checkpoint True False (ae_save env) f1)
           | Inr _ \<Rightarrow>
               if int n = tp_max_attempts policy
               then (Broke (failure_new ''transient_network''
                       (case body of Inl e \<Rightarrow> ''failed to read chunk at '' @ show_nat start @ '': '' @ e
                                   | Inr _ \<Rightarrow> ''chunk at '' @ show_nat start @ '' was empty'') attempts), f1)
               else (chunk_wait env policy attempts start delay delay, f1)))"

definition chunk_receive ::
  "attempt_env \<Rightarrow> transfer_policy \<Rightarrow> string \<Rightarrow> nat \<Rightarrow> nat \<Rightarrow> nat \<Rightarrow> nat \<Rightarrow> nat \<Rightarrow> transfer \<Rightarrow> download_file \<Rightarrow>
   chunk_end \<times> download_file" where
  "chunk_receive env policy v n attempts start last_byte delay t f =
     (case chunk_restart env v (tr_response t) start f of
        (Inl e, f1) \<Rightarrow>
          (Returned (failure_new ''storage_error'' (''failed to restart ignored range: '' @ e) attempts), f1)
      | (Inr start1, f1) \<Rightarrow>
          (case read_chunk (tr_reads t) (tr_end t) f1 of
             (Inl e, f2) \<Rightarrow>
               (Returned (failure_new ''storage_error'' (''failed to write chunked output: '' @ e) attempts), f2)
           | (Inr fin, f2) \<Rightarrow>
               (let written = ck_bytes (df_state f2) - start1;
                    expected = chunk_expected (tr_response t) start1 last_byte;
                    body = try_bind fin (\<lambda>_. if expected > 0 \<and> int written \<noteq> expected then Inl ''unexpected EOF'' else Inr ())
                in if is_ok body \<and> written > 0 then (Completed (hr_status (tr_response t) = 200) start1, f2)
                   else chunk_body_failed env policy n attempts start1 delay body f2)))"

definition chunk_attempt ::
  "attempt_env \<Rightarrow> string \<Rightarrow> download_options \<Rightarrow> string \<Rightarrow> nat \<Rightarrow> nat \<Rightarrow> nat \<Rightarrow> nat \<Rightarrow> nat \<Rightarrow> download_file \<Rightarrow>
   chunk_end \<times> download_file" where
  "chunk_attempt env agent opts v n attempts start last_byte delay f =
     (case ae_check env of
        Inl e \<Rightarrow> (Returned (failure_new ''cancelled'' e attempts), f)
      | Inr _ \<Rightarrow>
          (case ae_serve env (chunk_headers agent (do_headers opts) (range_of start last_byte) v) of
             Inl e \<Rightarrow>
               (case ae_check_after env of
                  Inl c \<Rightarrow> Returned (failure_new ''cancelled'' c attempts)
                | Inr _ \<Rightarrow>
                    if int n = tp_max_attempts (do_policy opts)
                    then Broke (failure_new ''transient_network''
                           (''chunked request at '' @ show_nat start @ '' failed: '' @ e) attempts)
                    else chunk_wait env (do_policy opts) attempts start delay delay, f)
           | Inr t \<Rightarrow>
               (let r = tr_response t in
                if hr_status r \<notin> {200, 206}
                then
                  (let failure = (status_failure (ae_date env) (ae_now env) r (do_policy opts) attempts)
                         \<lparr>fa_error := ''chunked HTTP '' @ show_nat (hr_status r) @ '' at offset '' @ show_nat start\<rparr>
                   in (if \<not> retryable (hr_status r) \<or> int n = tp_max_attempts (do_policy opts) then Broke failure
                       else chunk_wait env (do_policy opts) attempts start (chunk_delay failure delay) delay, f))
                else case chunk_rejected env attempts start v r of
                       Some failure \<Rightarrow> (Returned failure, f)
                     | None \<Rightarrow> chunk_receive env (do_policy opts) v n attempts start last_byte delay t f)))"

text \<open>
  The attempts at one chunk; the number counted over the whole download comes back too. A policy
  without attempts ends the loop at once.
\<close>

fun chunk_attempts ::
  "attempt_env list \<Rightarrow> string \<Rightarrow> download_options \<Rightarrow> string \<Rightarrow> nat \<Rightarrow> nat \<Rightarrow> nat \<Rightarrow> nat \<Rightarrow> nat \<Rightarrow> download_file \<Rightarrow>
   (chunk_end \<times> nat \<times> download_file) option" where
  "chunk_attempts [] agent opts v n attempts start last_byte delay f =
     (if int n > tp_max_attempts (do_policy opts)
      then Some (Broke (failure_new ''transient_network'' ''chunked transfer failed'' attempts), attempts, f) else None)"
| "chunk_attempts (env # envs) agent opts v n attempts start last_byte delay f =
     (if int n > tp_max_attempts (do_policy opts)
      then Some (Broke (failure_new ''transient_network'' ''chunked transfer failed'' attempts), attempts, f)
      else case chunk_attempt env agent opts v n (attempts + 1) start last_byte delay f of
             (Retried start1 delay1, f1) \<Rightarrow>
               chunk_attempts envs agent opts v (n + 1) (attempts + 1) start1 last_byte delay1 f1
           | (res, f1) \<Rightarrow> Some (res, attempts + 1, f1))"

section \<open>The download\<close>

record chunk_env =
  ce_attempts :: "attempt_env list"
  ce_late :: bool
  ce_save :: save_answer

definition chunk_missing :: "download_file \<Rightarrow> bool" where
  "chunk_missing f \<longleftrightarrow> ck_total (df_state f) \<le> 0 \<or> int (ck_bytes (df_state f)) < ck_total (df_state f)"

definition chunk_last_byte :: "nat \<Rightarrow> download_file \<Rightarrow> nat" where
  "chunk_last_byte chunk_size f =
     (let e = min (ck_bytes (df_state f) + (chunk_size - 1)) u64_max in
      if ck_total (df_state f) > 0 then min e (nat (ck_total (df_state f)) - 1) else e)"

text \<open>Fetch chunks until none is missing; \<open>None\<close> when the environments run out.\<close>

fun chunk_loop ::
  "chunk_env list \<Rightarrow> string \<Rightarrow> download_options \<Rightarrow> string \<Rightarrow> nat \<Rightarrow> nat \<Rightarrow> download_file \<Rightarrow>
   ((failure, unit) result \<times> nat \<times> download_file) option" where
  "chunk_loop [] agent opts v chunk_size attempts f =
     (if chunk_missing f then None else Some (Inr (), attempts, f))"
| "chunk_loop (c # cs) agent opts v chunk_size attempts f =
     (if \<not> chunk_missing f then Some (Inr (), attempts, f)
      else case chunk_attempts (ce_attempts c) agent opts v 1 attempts (ck_bytes (df_state f)) (chunk_last_byte chunk_size f)
                  (nat (tp_initial_retry_delay_ms (do_policy opts)) * 1000000) f of
             None \<Rightarrow> None
           | Some (Returned failure, attempts1, f1) \<Rightarrow> Some (Inl failure, attempts1, f1)
           | Some (Broke failure, attempts1, f1) \<Rightarrow>
               Some (Inl failure, attempts1, df_checkpoint True (ce_late c) (ce_save c) f1)
           | Some (Retried _ _, attempts1, f1) \<Rightarrow> None
           | Some (Completed full start, attempts1, f1) \<Rightarrow>
               (let f2 = df_checkpoint False (ce_late c) (ce_save c) f1 in
                if full \<or> (ck_total (df_state f2) \<le> 0 \<and> ck_bytes (df_state f2) - start < chunk_size)
                then Some (Inr (), attempts1, f2)
                else chunk_loop cs agent opts v chunk_size attempts1 f2))"

definition publish_chunked ::
  "attempt_env \<Rightarrow> nat \<Rightarrow> download_file \<Rightarrow> (failure, download_success) result \<times> download_file" where
  "publish_chunked env attempts f =
     (if ck_bytes (df_state f) = 0 \<or>
         (ck_total (df_state f) > 0 \<and> int (ck_bytes (df_state f)) \<noteq> ck_total (df_state f))
      then (Inl (failure_new ''integrity_failed'' (''chunked transfer size mismatch: expected '' @
              show_int (ck_total (df_state f)) @ '' bytes, wrote '' @ show_nat (ck_bytes (df_state f))) attempts), f)
      else case df_publish (ae_sync env) (ae_check_publish env) (ae_rename env) (ae_unlinked env) f of
             (Inl e, f1) \<Rightarrow> (Inl (failure_new ''storage_error'' (''failed to publish file: '' @ e) attempts), f1)
           | (Inr _, f1) \<Rightarrow> (Inr \<lparr>ds_size = ck_bytes (df_state f1), ds_attempts = attempts, ds_resumed = False\<rparr>, f1))"

text \<open>A restored file of another version, or of another length, is started again.\<close>

definition chunked_fresh ::
  "attempt_env \<Rightarrow> string \<Rightarrow> int \<Rightarrow> download_file \<Rightarrow> (string, unit) result \<times> download_file" where
  "chunked_fresh env v t f =
     (let (r, f1) =
        (if df_restored f \<and> (ck_validator (df_state f) \<noteq> v \<or>
              (ck_total (df_state f) > 0 \<and> t > 0 \<and> ck_total (df_state f) \<noteq> t))
         then df_restart (ae_io env) (ae_unlink env) f else (Inr (), f))
      in case r of
           Inl e \<Rightarrow> (Inl e, f1)
         | Inr _ \<Rightarrow> (Inr (), f1\<lparr>df_state := (df_state f1)\<lparr>ck_validator := v, ck_total := t\<rparr>\<rparr>))"

definition chunked_download ::
  "attempt_env list \<Rightarrow> (open_fault \<times> string, unit) result \<Rightarrow> chunk_env list \<Rightarrow> attempt_env \<Rightarrow> string \<Rightarrow> string \<Rightarrow>
   download_options \<Rightarrow> nat \<Rightarrow> staging_dir \<Rightarrow> ((failure, download_success) result \<times> staging_dir) option" where
  "chunked_download probes open_io chunks env agent fp opts chunk_size dir =
     (case probe_attempts probes agent opts 1 (nat (tp_initial_retry_delay_ms (do_policy opts)) * 1000000) of
        None \<Rightarrow> None
      | Some (Inl failure) \<Rightarrow> Some (Inl failure, dir)
      | Some (Inr (probe, attempts)) \<Rightarrow>
          (let v = resp_validator probe in
           case df_open open_io fp (do_persistent opts \<and> v \<noteq> [] \<and> fp \<noteq> []) dir of
             Inl (e, dir') \<Rightarrow>
               Some (Inl (failure_new ''storage_error'' (''failed to create chunked staged file: '' @ e) 0), dir')
           | Inr f \<Rightarrow>
               (case chunked_fresh env v (total_length probe) f of
                  (Inl e, f1) \<Rightarrow> Some (Inl (failure_new ''storage_error'' e 0), df_drop f1)
                | (Inr _, f1) \<Rightarrow>
                    map_option (\<lambda>(r, f3). (r, df_drop f3))
                      (case chunk_loop chunks agent opts v chunk_size attempts f1 of
                         None \<Rightarrow> None
                       | Some (Inl failure, _, f2) \<Rightarrow> Some (Inl failure, f2)
                       | Some (Inr _, attempts1, f2) \<Rightarrow> Some (publish_chunked env attempts1 f2)))))"

section \<open>Servers that answer ranges\<close>

text \<open>The bytes from \<open>a\<close> to \<open>b\<close> of a resource, both included.\<close>

definition slice :: "u8 list \<Rightarrow> nat \<Rightarrow> nat \<Rightarrow> u8 list" where
  "slice bs a b = take (b + 1 - a) (drop a bs)"

definition delivers :: "u8 list \<Rightarrow> transfer \<Rightarrow> bool" where
  "delivers bs t \<longleftrightarrow>
     list_all (\<lambda>ev. re_data ev \<noteq> []) (tr_reads t) \<and> prefix (concat (map re_data (tr_reads t))) bs \<and>
     (content_length (tr_response t) > 0 \<longrightarrow> content_length (tr_response t) = int (length bs)) \<and>
     (is_ok (tr_end t) \<longrightarrow> concat (map re_data (tr_reads t)) = bs \<or> content_length (tr_response t) = int (length bs))"

text \<open>
  A full answer names its version and carries all of it; a partial one carries the range that was
  asked for, cut at the end of the resource, of the version it names or, when it names none, of the
  one in \<open>If-Range\<close>. A total length that either announces is right.
\<close>

definition serves_ranges :: "(string \<Rightarrow> u8 list) \<Rightarrow> (headers \<Rightarrow> (string, transfer) result) \<Rightarrow> bool" where
  "serves_ranges content serve \<longleftrightarrow>
     (\<forall>hs t. serve hs = Inr t \<longrightarrow>
        (let r = tr_response t in
         hr_status r \<notin> {200, 206} \<or>
         (\<exists>w. w \<noteq> [] \<and> (resp_validator r = w \<or> resp_validator r = [] \<and> bt_get hs ''If-Range'' = Some w) \<and>
              (total_length r > 0 \<longrightarrow> total_length r = int (length (content w))) \<and>
              (hr_status r = 200 \<and> resp_validator r = w \<and> delivers (content w) t \<or>
               hr_status r = 206 \<and> (\<exists>a b. bt_get hs ''Range'' = Some (range_of a b) \<and> delivers (slice (content w) a b) t)))))"

lemma range_of_inject:
  assumes "range_of a b = range_of c d"
  shows "a = c" and "b = d"
proof -
  have tw: "takeWhile (\<lambda>x. x \<noteq> CHR ''-'') (show_nat n @ CHR ''-'' # s) = show_nat n" for n s
  proof -
    have "\<forall>x \<in> set (show_nat n). x \<noteq> CHR ''-''"
      using show_nat_all_digits [of n] by (auto simp: list_all_iff is_ascii_digit_def byte_of_def)
    then show ?thesis by (simp add: takeWhile_append2)
  qed
  from assms have eq: "show_nat a @ CHR ''-'' # show_nat b = show_nat c @ CHR ''-'' # show_nat d"
    by (simp add: range_of_def)
  have "show_nat a = show_nat c" using tw [of a "show_nat b"] tw [of c "show_nat d"] eq by metis
  with eq have "show_nat b = show_nat d" by simp
  with \<open>show_nat a = show_nat c\<close> show "a = c" "b = d" using show_nat_inject by blast+
qed

lemma chunk_headers_get:
  assumes "bt_wf hs"
  shows "bt_get (chunk_headers agent hs rng v) ''Range'' = Some rng"
    and "v \<noteq> [] \<Longrightarrow> bt_get (chunk_headers agent hs rng v) ''If-Range'' = Some v"
    and "v = [] \<Longrightarrow> bt_get hs ''If-Range'' = None \<Longrightarrow> bt_get (chunk_headers agent hs rng v) ''If-Range'' = None"
proof -
  have "\<not> eq_ignore_ascii_case ''Range'' ''If-Range''" "\<not> eq_ignore_ascii_case ''Range'' ''User-Agent''"
    "\<not> eq_ignore_ascii_case ''If-Range'' ''User-Agent''" "\<not> eq_ignore_ascii_case ''If-Range'' ''Range''"
    by (simp_all add: eq_ignore_ascii_case_def to_ascii_lowercase_def)
  with assms show "bt_get (chunk_headers agent hs rng v) ''Range'' = Some rng"
    "v \<noteq> [] \<Longrightarrow> bt_get (chunk_headers agent hs rng v) ''If-Range'' = Some v"
    "v = [] \<Longrightarrow> bt_get hs ''If-Range'' = None \<Longrightarrow> bt_get (chunk_headers agent hs rng v) ''If-Range'' = None"
    by (simp_all add: chunk_headers_def set_header_def Let_def bt_get_simps)
qed

section \<open>The file between chunks\<close>

definition chunk_inv :: "(string \<Rightarrow> u8 list) \<Rightarrow> string \<Rightarrow> download_file \<Rightarrow> bool" where
  "chunk_inv content v f \<longleftrightarrow>
     df_ok f \<and> ck_validator (df_state f) = v \<and> prefix (sd_staged (df_dir f)) (content v) \<and>
     (ck_total (df_state f) > 0 \<longrightarrow> ck_total (df_state f) = int (length (content v)))"

lemma chunk_inv_checkpoint [simp]: "chunk_inv content v (df_checkpoint force late answer f) = chunk_inv content v f"
  by (simp add: chunk_inv_def df_ok_def)

lemma read_chunk_ok:
  assumes "read_chunk evs fin f = (Inr body, f')" "list_all (\<lambda>ev. re_data ev \<noteq> []) evs"
  shows "body = fin \<and> sd_staged (df_dir f') = sd_staged (df_dir f) @ concat (map re_data evs) \<and>
         ck_bytes (df_state f') = ck_bytes (df_state f) + length (concat (map re_data evs)) \<and>
         ck_validator (df_state f') = ck_validator (df_state f) \<and> ck_total (df_state f') = ck_total (df_state f)"
  using assms
proof (induction evs fin f rule: read_chunk.induct)
  case (2 ev evs fin f)
  obtain u f1 where w: "df_write (re_write ev) (re_data ev) f = (Inr u, f1)"
    using 2(2,3) by (auto split: sum.splits prod.splits)
  with 2 df_write_ok [OF w] show ?case by simp
qed simp

lemma df_rewind_total: "df_rewind io n f = (r, f') \<Longrightarrow> ck_total (df_state f') = ck_total (df_state f)"
  by (auto simp: df_rewind_def split: sum.splits rewind_fault.splits)

lemma df_restart_total: "df_restart io unlink f = (r, f') \<Longrightarrow> ck_total (df_state f') = ck_total (df_state f)"
  by (auto simp: df_restart_def Let_def split: sum.splits prod.splits dest: df_rewind_total)

lemma chunk_restart_total:
  "chunk_restart env v r start f = (q, f1) \<Longrightarrow> ck_total (df_state f1) \<le> 0 \<Longrightarrow> ck_total (df_state f) \<le> 0"
  by (auto simp: chunk_restart_def split: if_splits prod.splits sum.splits dest: df_restart_total)

lemma chunk_restart_ok:
  assumes "chunk_inv content v f" "ck_bytes (df_state f) = start" "chunk_restart env v r start f = (Inr start1, f1)"
    and "hr_status r = 200 \<and> content_length r > 0 \<longrightarrow> content_length r = int (length (content v))"
  shows "chunk_inv content v f1 \<and> ck_bytes (df_state f1) = start1 \<and> (hr_status r = 200 \<longrightarrow> start1 = 0) \<and>
         (hr_status r \<noteq> 200 \<longrightarrow> f1 = f \<and> start1 = start)"
proof (cases "hr_status r = 200 \<and> start > 0")
  case True
  then obtain u f0 where r: "df_restart (ae_io env) (ae_unlink env) f = (Inr u, f0)"
    and f1: "start1 = 0" "f1 = f0\<lparr>df_state := (df_state f0)\<lparr>ck_validator := v,
                    ck_total := (if content_length r > 0 then content_length r else ck_total (df_state f0))\<rparr>\<rparr>"
    using assms(3) by (auto simp: chunk_restart_def split: prod.splits sum.splits)
  from df_restart_fresh [OF r] df_restart_total [OF r] assms(1,4) True f1 show ?thesis
    by (auto simp: chunk_inv_def df_ok_def)
qed (use assms in \<open>auto simp: chunk_restart_def\<close>)

lemma chunk_rewind_ok:
  assumes "chunk_inv content v f1" "ck_bytes (df_state f1) = start" "df_rewind io start f2 = (Inr u, f3)"
    and "sd_staged (df_dir f2) = sd_staged (df_dir f1) @ data" "ck_validator (df_state f2) = v"
    and "ck_total (df_state f2) = ck_total (df_state f1)"
  shows "chunk_inv content v f3 \<and> ck_bytes (df_state f3) = start"
proof -
  have "length (sd_staged (df_dir f1)) = start" using assms(1,2) by (simp add: chunk_inv_def df_ok_def)
  moreover have "f3 = (truncate_staged start f2)\<lparr>df_state := (df_state f2)\<lparr>ck_bytes := start\<rparr>\<rparr>"
    using assms(3) by (auto simp: df_rewind_def split: sum.splits rewind_fault.splits)
  ultimately show ?thesis using assms by (simp add: chunk_inv_def df_ok_def set_len_def)
qed

text \<open>
  What an attempt at the chunk from \<open>start\<close> to \<open>last_byte\<close> may leave: a retried chunk is as before it, and a
  completed one holds its whole range, or with a full answer the whole resource.
\<close>

definition chunk_good ::
  "(string \<Rightarrow> u8 list) \<Rightarrow> string \<Rightarrow> nat \<Rightarrow> nat \<Rightarrow> download_file \<Rightarrow> chunk_end \<times> download_file \<Rightarrow> bool" where
  "chunk_good content v start last_byte f out \<longleftrightarrow>
     (case out of
        (Retried s _, f') \<Rightarrow>
          chunk_inv content v f' \<and> ck_bytes (df_state f') = s \<and> s \<le> start \<and>
          (ck_total (df_state f') \<le> 0 \<longrightarrow> ck_total (df_state f) \<le> 0)
      | (Completed full s, f') \<Rightarrow>
          chunk_inv content v f' \<and> s < ck_bytes (df_state f') \<and> s \<le> start \<and>
          (ck_total (df_state f') \<le> 0 \<longrightarrow> ck_total (df_state f) \<le> 0) \<and>
          (if full then sd_staged (df_dir f') = content v
           else s = start \<and> sd_staged (df_dir f') = take s (content v) @ slice (content v) s last_byte)
      | _ \<Rightarrow> True)"

lemma chunk_good_quiet [simp]:
  "chunk_good content v start last_byte f (Returned x, f')" "chunk_good content v start last_byte f (Broke x, f')"
  by (simp_all add: chunk_good_def)

lemma chunk_good_wait:
  "chunk_inv content v f' \<Longrightarrow> ck_bytes (df_state f') = s \<Longrightarrow> s \<le> start \<Longrightarrow>
   (ck_total (df_state f') \<le> 0 \<longrightarrow> ck_total (df_state f) \<le> 0) \<Longrightarrow>
   chunk_good content v start last_byte f (chunk_wait env policy attempts s pause delay, f')"
  by (simp add: chunk_good_def chunk_wait_def split: sum.splits)

lemma delivered_all:
  assumes "delivers bs t" "is_ok (tr_end t)" "concat (map re_data (tr_reads t)) \<noteq> []"
    and "content_length (tr_response t) > 0 \<longrightarrow> int (length (concat (map re_data (tr_reads t)))) = content_length (tr_response t)"
  shows "concat (map re_data (tr_reads t)) = bs"
proof -
  let ?data = "concat (map re_data (tr_reads t))"
  have pre: "prefix ?data bs" using assms(1) by (simp add: delivers_def)
  consider "?data = bs" | "content_length (tr_response t) = int (length bs)" using assms(1,2) unfolding delivers_def by blast
  then show ?thesis
  proof cases
    case 2
    moreover have "bs \<noteq> []" using pre assms(3) by auto
    ultimately have "length ?data = length bs" using assms(4) by simp
    then show ?thesis using pre by (auto simp: prefix_def)
  qed
qed

lemma chunk_receive_good:
  assumes inv: "chunk_inv content v f" and start: "ck_bytes (df_state f) = start"
    and kind: "hr_status (tr_response t) = 200 \<and> delivers (content v) t \<or>
               hr_status (tr_response t) = 206 \<and> delivers (slice (content v) start last_byte) t"
  shows "chunk_good content v start last_byte f (chunk_receive env policy v n attempts start last_byte delay t f)"
proof -
  let ?r = "tr_response t"
  define data where "data = concat (map re_data (tr_reads t))"
  obtain q f1 where q: "chunk_restart env v ?r start f = (q, f1)" by force
  show ?thesis
  proof (cases q)
    case (Inl e)
    with q show ?thesis by (simp add: chunk_receive_def)
  next
    case restarted: (Inr s)
    have "hr_status ?r = 200 \<and> content_length ?r > 0 \<longrightarrow> content_length ?r = int (length (content v))"
      using kind by (auto simp: delivers_def)
    with chunk_restart_ok [OF inv start] q restarted
    have f1: "chunk_inv content v f1" "ck_bytes (df_state f1) = s" "hr_status ?r = 200 \<longrightarrow> s = 0"
      "hr_status ?r \<noteq> 200 \<longrightarrow> f1 = f \<and> s = start" by auto
    have total: "ck_total (df_state f1) \<le> 0 \<longrightarrow> ck_total (df_state f) \<le> 0"
      using q restarted chunk_restart_total by blast
    have le: "s \<le> start" using f1(3,4) by auto
    obtain b f2 where b: "read_chunk (tr_reads t) (tr_end t) f1 = (b, f2)" by force
    show ?thesis
    proof (cases b)
      case (Inl e)
      with q restarted b show ?thesis by (simp add: chunk_receive_def)
    next
      case (Inr fin)
      have all: "list_all (\<lambda>ev. re_data ev \<noteq> []) (tr_reads t)" using kind by (auto simp: delivers_def)
      from read_chunk_ok [OF _ all, of "tr_end t" f1 fin f2] b Inr data_def [symmetric]
      have f2: "fin = tr_end t" "sd_staged (df_dir f2) = sd_staged (df_dir f1) @ data"
        "ck_bytes (df_state f2) = s + length data" "ck_validator (df_state f2) = v"
        "ck_total (df_state f2) = ck_total (df_state f1)"
        using f1 by (simp_all add: chunk_inv_def)
      let ?expected = "chunk_expected ?r s last_byte"
      let ?body = "try_bind fin (\<lambda>_. if ?expected > 0 \<and> int (length data) \<noteq> ?expected then Inl ''unexpected EOF'' else Inr ())"
      have eq: "chunk_receive env policy v n attempts start last_byte delay t f =
          (if is_ok ?body \<and> length data > 0 then (Completed (hr_status ?r = 200) s, f2)
           else chunk_body_failed env policy n attempts s delay ?body f2)"
        using q restarted b Inr f2(3) by (simp add: chunk_receive_def Let_def)
      show ?thesis
      proof (cases "is_ok ?body \<and> length data > 0")
        case True
        then have ok: "is_ok (tr_end t)" "?expected > 0 \<longrightarrow> int (length data) = ?expected"
          using f2(1) by (cases "tr_end t"; auto simp: is_ok_def split: sum.splits if_splits)+
        have len: "content_length ?r > 0 \<longrightarrow> int (length data) = content_length ?r"
          using ok(2) by (auto simp: chunk_expected_def)
        have f1s: "sd_staged (df_dir f1) = take s (content v)" "s \<le> length (content v)"
          using f1(1,2) by (auto simp: chunk_inv_def df_ok_def prefix_def)
        have staged: "sd_staged (df_dir f2) = (if hr_status ?r = 200 then content v else take s (content v) @ slice (content v) s last_byte)"
        proof (cases "hr_status ?r = 200")
          case whole: True
          with kind delivered_all [of "content v" t, folded data_def] ok(1) len True f1(3) f1s f2(2) show ?thesis by auto
        next
          case False
          with kind delivered_all [of "slice (content v) start last_byte" t, folded data_def] ok(1) len True f1(4) f1s f2(2) show ?thesis by auto
        qed
        have "df_ok f2" using f1(1,2) f2(2,3) by (simp add: chunk_inv_def df_ok_def)
        moreover have "prefix (sd_staged (df_dir f2)) (content v)"
          unfolding staged by (auto simp: slice_def take_add [symmetric] take_is_prefix)
        ultimately have "chunk_inv content v f2" using f1(1) f2(4,5) by (simp add: chunk_inv_def)
        with staged show ?thesis
          using True eq total f1(4) f2 le by (auto simp: chunk_good_def)
      next
        case False
        then obtain body where eq': "chunk_receive env policy v n attempts start last_byte delay t f =
            chunk_body_failed env policy n attempts s delay body f2"
          using eq by (simp only: if_False)
        obtain p f3 where p: "df_rewind (ae_io env) s f2 = (p, f3)" by force
        show ?thesis
        proof (cases p)
          case (Inl e)
          with p eq' show ?thesis by (simp add: chunk_body_failed_def)
        next
          case (Inr u)
          with chunk_rewind_ok [OF f1(1,2) _ f2(2,4,5)] p have f3: "chunk_inv content v f3" "ck_bytes (df_state f3) = s" by auto
          have "ck_total (df_state f3) = ck_total (df_state f2)"
            using p by (rule df_rewind_total)
          with f3 total f2(5) le p Inr eq' show ?thesis
            by (auto simp: chunk_body_failed_def intro!: chunk_good_wait split: sum.splits)
        qed
      qed
    qed
  qed
qed

lemma chunk_attempt_good:
  assumes inv: "chunk_inv content v f" and start: "ck_bytes (df_state f) = start" and v: "v \<noteq> []"
    and wf: "bt_wf (do_headers opts)" and serve: "serves_ranges content (ae_serve env)"
  shows "chunk_good content v start last_byte f (chunk_attempt env agent opts v n attempts start last_byte delay f)"
proof (cases "ae_check env")
  case (Inl e)
  then show ?thesis by (simp add: chunk_attempt_def)
next
  case check: (Inr u)
  let ?hs = "chunk_headers agent (do_headers opts) (range_of start last_byte) v"
  show ?thesis
  proof (cases "ae_serve env ?hs")
    case (Inl e)
    with check inv start show ?thesis
      by (auto simp: chunk_attempt_def intro!: chunk_good_wait split: sum.splits)
  next
    case (Inr t)
    let ?r = "tr_response t"
    show ?thesis
    proof (cases "hr_status ?r \<in> {200, 206} \<and> chunk_rejected env attempts start v ?r = None")
      case False
      then consider "hr_status ?r \<notin> {200, 206}" | x where "hr_status ?r \<in> {200, 206}" "chunk_rejected env attempts start v ?r = Some x"
        by fastforce
      then show ?thesis
      proof cases
        case 1
        with check Inr show ?thesis
          using chunk_good_wait [OF inv start, of start f] by (simp add: chunk_attempt_def Let_def)
      next
        case 2
        with check Inr show ?thesis by (auto simp: chunk_attempt_def Let_def)
      qed
    next
      case True
      note hs = chunk_headers_get [OF wf, where agent = agent and rng = "range_of start last_byte" and v = v]
      have same: "resp_validator ?r = [] \<or> resp_validator ?r = v"
        using True v by (auto simp: chunk_rejected_def Let_def split: if_splits)
      from serve [unfolded serves_ranges_def Let_def, rule_format, OF Inr] True obtain w where w: "w \<noteq> []"
        "resp_validator ?r = w \<or> resp_validator ?r = [] \<and> bt_get ?hs ''If-Range'' = Some w"
        "hr_status ?r = 200 \<and> resp_validator ?r = w \<and> delivers (content w) t \<or>
         hr_status ?r = 206 \<and> (\<exists>a b. bt_get ?hs ''Range'' = Some (range_of a b) \<and> delivers (slice (content w) a b) t)"
        by blast
      have "w = v" using w(1,2) same hs(2) [OF v] by auto
      with w(3) hs(1) have "hr_status ?r = 200 \<and> delivers (content v) t \<or>
          hr_status ?r = 206 \<and> delivers (slice (content v) start last_byte) t"
        using range_of_inject by fastforce
      from chunk_receive_good [OF inv start this] True check Inr show ?thesis
        by (auto simp: chunk_attempt_def)
    qed
  qed
qed

definition chunk_filled ::
  "(string \<Rightarrow> u8 list) \<Rightarrow> string \<Rightarrow> nat \<Rightarrow> nat \<Rightarrow> download_file \<Rightarrow> chunk_end \<times> nat \<times> download_file \<Rightarrow> bool" where
  "chunk_filled content v start last_byte f out \<longleftrightarrow>
     (case out of
        (Completed full s, _, f') \<Rightarrow>
          chunk_inv content v f' \<and> s < ck_bytes (df_state f') \<and> s \<le> start \<and>
          (ck_total (df_state f') \<le> 0 \<longrightarrow> ck_total (df_state f) \<le> 0) \<and>
          (if full then sd_staged (df_dir f') = content v
           else sd_staged (df_dir f') = take s (content v) @ slice (content v) s last_byte)
      | (Retried _ _, _) \<Rightarrow> False
      | _ \<Rightarrow> True)"

lemma chunk_filled_mono:
  "chunk_filled content v start1 last_byte f1 out \<Longrightarrow> start1 \<le> start \<Longrightarrow>
   (ck_total (df_state f1) \<le> 0 \<longrightarrow> ck_total (df_state f) \<le> 0) \<Longrightarrow> chunk_filled content v start last_byte f out"
  by (auto simp: chunk_filled_def split: prod.splits chunk_end.splits)

lemma chunk_attempts_filled:
  assumes "chunk_inv content v f" "ck_bytes (df_state f) = start" "v \<noteq> []" "bt_wf (do_headers opts)"
    and "list_all (\<lambda>env. serves_ranges content (ae_serve env)) envs"
    and "chunk_attempts envs agent opts v n attempts start last_byte delay f = Some out"
  shows "chunk_filled content v start last_byte f out"
  using assms
proof (induction envs arbitrary: n attempts start delay f)
  case Nil
  then show ?case by (auto simp: chunk_filled_def split: if_splits)
next
  case (Cons env envs)
  obtain res f1 where a: "chunk_attempt env agent opts v n (attempts + 1) start last_byte delay f = (res, f1)" by force
  have good: "chunk_good content v start last_byte f (res, f1)"
    using chunk_attempt_good [OF Cons.prems(1-4), of env last_byte agent n "attempts + 1" delay] Cons.prems(5) a by simp
  show ?case
  proof (cases "int n > tp_max_attempts (do_policy opts)")
    case True
    with Cons.prems(6) show ?thesis by (auto simp: chunk_filled_def)
  next
    case False
    show ?thesis
    proof (cases res)
      case (Retried s d)
      with good have f1: "chunk_inv content v f1" "ck_bytes (df_state f1) = s" "s \<le> start"
        "ck_total (df_state f1) \<le> 0 \<longrightarrow> ck_total (df_state f) \<le> 0" by (simp_all add: chunk_good_def)
      have "chunk_attempts envs agent opts v (n + 1) (attempts + 1) s last_byte d f1 = Some out"
        using Cons.prems(6) False a Retried by simp
      from Cons.IH [OF f1(1,2) Cons.prems(3,4) _ this] Cons.prems(5) have "chunk_filled content v s last_byte f1 out" by simp
      then show ?thesis using chunk_filled_mono f1(3,4) by blast
    qed (use Cons.prems(6) False a good in \<open>auto simp: chunk_filled_def chunk_good_def\<close>)
  qed
qed

lemma last_chunk_whole:
  assumes "sd_staged (df_dir f') = take s (content v) @ slice (content v) s (chunk_last_byte chunk_size f)"
    and "df_ok f'" "s < ck_bytes (df_state f')" "s \<le> ck_bytes (df_state f)" "ck_total (df_state f) \<le> 0"
    and "ck_bytes (df_state f') - s < chunk_size" "length (content v) \<le> u64_max"
  shows "sd_staged (df_dir f') = content v"
proof -
  let ?e = "chunk_last_byte chunk_size f"
  have e: "?e = min (ck_bytes (df_state f) + (chunk_size - 1)) u64_max" using assms(5) by (simp add: chunk_last_byte_def)
  have len: "length (sd_staged (df_dir f')) = ck_bytes (df_state f')" using assms(2) by (simp add: df_ok_def)
  have s: "s < length (content v)"
    using assms(1,3) len by (cases "s < length (content v)") (simp_all add: slice_def)
  then have "ck_bytes (df_state f') = s + min (length (content v) - s) (?e + 1 - s)"
    using assms(1) len by (simp add: slice_def)
  with assms(4,6,7) e s have "length (content v) - s \<le> ?e + 1 - s" by (simp add: min_def split: if_splits)
  with assms(1) show ?thesis by (simp add: slice_def)
qed

lemma chunk_loop_whole:
  assumes "chunk_inv content v f" "v \<noteq> []" "bt_wf (do_headers opts)" "length (content v) \<le> u64_max"
    and "list_all (\<lambda>c. list_all (\<lambda>env. serves_ranges content (ae_serve env)) (ce_attempts c)) cs"
    and "chunk_loop cs agent opts v chunk_size attempts f = Some (Inr u, attempts', f')"
  shows "chunk_inv content v f' \<and> (ck_total (df_state f') \<le> 0 \<longrightarrow> sd_staged (df_dir f') = content v)"
  using assms
proof (induction cs arbitrary: attempts f)
  case Nil
  then show ?case by (auto simp: chunk_missing_def split: if_splits)
next
  case (Cons c cs)
  show ?case
  proof (cases "chunk_missing f")
    case False
    with Cons.prems(1,6) show ?thesis by (auto simp: chunk_missing_def)
  next
    case True
    let ?start = "ck_bytes (df_state f)" and ?e = "chunk_last_byte chunk_size f"
    from Cons.prems(6) True obtain full s attempts1 f1
      where run: "chunk_attempts (ce_attempts c) agent opts v 1 attempts ?start ?e
          (nat (tp_initial_retry_delay_ms (do_policy opts)) * 1000000) f = Some (Completed full s, attempts1, f1)"
      by (auto split: option.splits prod.splits chunk_end.splits)
    from chunk_attempts_filled [OF Cons.prems(1) refl Cons.prems(2,3) _ run] Cons.prems(5)
    have filled: "chunk_inv content v f1" "s < ck_bytes (df_state f1)" "s \<le> ?start"
      "ck_total (df_state f1) \<le> 0 \<longrightarrow> ck_total (df_state f) \<le> 0"
      "if full then sd_staged (df_dir f1) = content v
       else sd_staged (df_dir f1) = take s (content v) @ slice (content v) s ?e"
      by (auto simp: chunk_filled_def)
    let ?f2 = "df_checkpoint False (ce_late c) (ce_save c) f1"
    show ?thesis
    proof (cases "full \<or> (ck_total (df_state f1) \<le> 0 \<and> ck_bytes (df_state f1) - s < chunk_size)")
      case stop: True
      then have f': "f' = ?f2" using Cons.prems(6) True run by simp
      have "sd_staged (df_dir f1) = content v" if "ck_total (df_state f1) \<le> 0"
        using that stop filled last_chunk_whole [of f1 s content v chunk_size f] Cons.prems(4)
        by (cases full) (auto simp: chunk_inv_def)
      with f' filled(1) show ?thesis by simp
    next
      case False
      then have "chunk_loop cs agent opts v chunk_size attempts1 ?f2 = Some (Inr u, attempts', f')"
        using Cons.prems(6) True run by (auto simp: Let_def split: if_splits)
      from Cons.IH [OF _ Cons.prems(2-4) _ this] filled(1) Cons.prems(5) show ?thesis by simp
    qed
  qed
qed

lemma publish_chunked_ok:
  assumes "publish_chunked env attempts f = (Inr s, f')" "chunk_inv content v f"
    and "ck_total (df_state f) \<le> 0 \<longrightarrow> sd_staged (df_dir f) = content v"
  shows "sd_target (df_dir f') = Some (content v) \<and> ds_size s = length (content v) \<and> content v \<noteq> []"
proof -
  obtain r f1 where p: "df_publish (ae_sync env) (ae_check_publish env) (ae_rename env) (ae_unlinked env) f = (r, f1)" by force
  have len: "length (sd_staged (df_dir f)) = ck_bytes (df_state f)" and pre: "prefix (sd_staged (df_dir f)) (content v)"
    and t: "ck_total (df_state f) > 0 \<longrightarrow> ck_total (df_state f) = int (length (content v))"
    using assms(2) by (simp_all add: chunk_inv_def df_ok_def)
  have ok: "ck_bytes (df_state f) \<noteq> 0" "ck_total (df_state f) > 0 \<longrightarrow> int (ck_bytes (df_state f)) = ck_total (df_state f)"
    using assms(1) by (auto simp: publish_chunked_def split: if_splits)
  have "sd_staged (df_dir f) = content v"
  proof (cases "ck_total (df_state f) > 0")
    case True
    with t ok(2) len have "length (sd_staged (df_dir f)) = length (content v)" by simp
    with pre show ?thesis by (auto simp: prefix_def)
  qed (use assms(3) in simp)
  with df_publish_cases [OF p] p assms(1) ok len show ?thesis
    by (auto simp: publish_chunked_def split: if_splits)
qed

lemma probe_attempts_served:
  assumes "list_all (\<lambda>env. serves_ranges content (ae_serve env)) envs" "bt_wf (do_headers opts)"
    and "bt_get (do_headers opts) ''If-Range'' = None"
    and "probe_attempts envs agent opts n delay = Some (Inr (r, k))"
  shows "resp_validator r \<noteq> [] \<and> (total_length r > 0 \<longrightarrow> total_length r = int (length (content (resp_validator r))))"
  using assms
proof (induction envs arbitrary: n delay)
  case (Cons env envs)
  show ?case
  proof (cases "probe_attempt env agent opts n delay")
    case (Probed q)
    let ?hs = "chunk_headers agent (do_headers opts) (range_of 0 1) []"
    have "q = r" using Cons.prems(4) Probed by simp
    with Probed obtain t where t: "ae_serve env ?hs = Inr t" "hr_status r \<in> {200, 206}" "tr_response t = r"
      by (auto simp: probe_attempt_def probe_failed_def split: sum.splits if_splits)
    have serve: "serves_ranges content (ae_serve env)" using Cons.prems(1) by simp
    have "bt_get ?hs ''If-Range'' = None" using chunk_headers_get(3) [OF Cons.prems(2) refl Cons.prems(3)] .
    with serve [unfolded serves_ranges_def Let_def, rule_format, OF t(1)] t(2,3) show ?thesis by auto
  next
    case (Reprobe d)
    with Cons show ?thesis by simp
  qed (use Cons.prems(4) in simp)
qed simp

lemma chunked_fresh_ok:
  assumes "df_open io fp keep dir = Inr f" "checkpoint_honest content dir"
    and "chunked_fresh env v t f = (Inr u, f1)" "t > 0 \<longrightarrow> t = int (length (content v))"
  shows "chunk_inv content v f1"
proof (cases "df_restored f \<and> (ck_validator (df_state f) \<noteq> v \<or>
              (ck_total (df_state f) > 0 \<and> t > 0 \<and> ck_total (df_state f) \<noteq> t))")
  case True
  then obtain f0 u' where r: "df_restart (ae_io env) (ae_unlink env) f = (Inr u', f0)"
    and f1: "f1 = f0\<lparr>df_state := (df_state f0)\<lparr>ck_validator := v, ck_total := t\<rparr>\<rparr>"
    using assms(3) by (auto simp: chunked_fresh_def split: prod.splits sum.splits)
  from df_restart_fresh [OF r] f1 assms(4) show ?thesis by (simp add: chunk_inv_def df_ok_def)
next
  case False
  then have f1: "f1 = f\<lparr>df_state := (df_state f)\<lparr>ck_validator := v, ck_total := t\<rparr>\<rparr>"
    using assms(3) by (auto simp: chunked_fresh_def split: prod.splits sum.splits if_splits)
  note o = df_open_ok [OF assms(1)]
  show ?thesis
  proof (cases "df_restored f")
    case True
    with o(5) False assms(2) have "prefix (sd_staged (df_dir f)) (content v)" by (auto simp: checkpoint_honest_def)
    with f1 o(1) assms(4) show ?thesis by (simp add: chunk_inv_def df_ok_def)
  next
    case False
    with o(6) f1 o(1) assms(4) show ?thesis by (simp add: chunk_inv_def df_ok_def)
  qed
qed

section \<open>Failures leave the target alone\<close>

lemma read_chunk_target: "read_chunk evs fin f = (r, f') \<Longrightarrow> sd_target (df_dir f') = sd_target (df_dir f)"
  by (induction evs fin f rule: read_chunk.induct)
    (auto split: if_splits prod.splits sum.splits dest: df_write_target)

lemma chunk_restart_target: "chunk_restart env v r start f = (q, f') \<Longrightarrow> sd_target (df_dir f') = sd_target (df_dir f)"
  by (auto simp: chunk_restart_def split: if_splits prod.splits sum.splits dest: df_restart_frame)

lemma chunk_body_failed_target:
  "chunk_body_failed env policy n attempts start delay body f = (res, f') \<Longrightarrow> sd_target (df_dir f') = sd_target (df_dir f)"
  by (auto simp: chunk_body_failed_def split: prod.splits sum.splits if_splits dest: df_rewind_frame(1))

lemma chunk_receive_target:
  assumes "chunk_receive env policy v n attempts start last_byte delay t f = (res, f')"
  shows "sd_target (df_dir f') = sd_target (df_dir f)"
proof -
  obtain q f1 where q: "chunk_restart env v (tr_response t) start f = (q, f1)" by force
  obtain b f2 where b: "read_chunk (tr_reads t) (tr_end t) f1 = (b, f2)" by force
  have "f' = f1 \<or> f' = f2 \<or> (\<exists>s body. chunk_body_failed env policy n attempts s delay body f2 = (res, f'))"
    using assms q b by (auto simp: chunk_receive_def Let_def split: sum.splits if_splits)
  with chunk_restart_target [OF q] read_chunk_target [OF b] chunk_body_failed_target show ?thesis by metis
qed

lemma chunk_attempt_target:
  assumes "chunk_attempt env agent opts v n attempts start last_byte delay f = (res, f')"
  shows "sd_target (df_dir f') = sd_target (df_dir f)"
proof -
  have "f' = f \<or> (\<exists>t. chunk_receive env (do_policy opts) v n attempts start last_byte delay t f = (res, f'))"
    using assms by (auto simp: chunk_attempt_def Let_def split: sum.splits if_splits option.splits)
  then show ?thesis using chunk_receive_target by blast
qed

lemma chunk_attempts_target:
  assumes "chunk_attempts envs agent opts v n attempts start last_byte delay f = Some (res, k, f')"
  shows "sd_target (df_dir f') = sd_target (df_dir f)"
  using assms
proof (induction envs arbitrary: n attempts start delay f)
  case (Cons env envs)
  obtain res1 f1 where a: "chunk_attempt env agent opts v n (attempts + 1) start last_byte delay f = (res1, f1)" by force
  show ?case
  proof (cases res1)
    case (Retried s d)
    with Cons a chunk_attempt_target [OF a] show ?thesis by (auto split: if_splits)
  qed (use Cons.prems a chunk_attempt_target [OF a] in \<open>auto split: if_splits\<close>)
qed (auto split: if_splits)

lemma chunk_loop_target:
  assumes "chunk_loop cs agent opts v chunk_size attempts f = Some (r, k, f')"
  shows "sd_target (df_dir f') = sd_target (df_dir f)"
  using assms
proof (induction cs arbitrary: attempts f)
  case (Cons c cs)
  show ?case
  proof (cases "chunk_missing f")
    case True
    with Cons.prems obtain res k1 f1 where run: "chunk_attempts (ce_attempts c) agent opts v 1 attempts (ck_bytes (df_state f))
        (chunk_last_byte chunk_size f) (nat (tp_initial_retry_delay_ms (do_policy opts)) * 1000000) f = Some (res, k1, f1)"
      by (auto split: option.splits)
    note t = chunk_attempts_target [OF run]
    show ?thesis
    proof (cases res)
      case (Completed full s)
      with Cons True run t show ?thesis by (auto simp: Let_def split: if_splits)
    qed (use Cons.prems True run t in auto)
  qed (use Cons.prems in simp)
qed (auto split: if_splits)

lemma chunked_fresh_target: "chunked_fresh env v t f = (r, f') \<Longrightarrow> sd_target (df_dir f') = sd_target (df_dir f)"
  by (auto simp: chunked_fresh_def split: prod.splits sum.splits if_splits dest: df_restart_frame)

lemma publish_chunked_failed:
  assumes "publish_chunked env attempts f = (Inl e, f')"
  shows "sd_target (df_dir f') = sd_target (df_dir f)"
proof -
  obtain r f1 where p: "df_publish (ae_sync env) (ae_check_publish env) (ae_rename env) (ae_unlinked env) f = (r, f1)" by force
  from df_publish_cases [OF p] p assms show ?thesis by (auto simp: publish_chunked_def split: if_splits)
qed

lemma df_open_failed_target: "df_open io fp keep dir = Inl (e, dir') \<Longrightarrow> sd_target dir' = sd_target dir"
  by (auto simp: df_open_def Let_def split: sum.splits prod.splits)

lemma chunked_failed_target:
  assumes "chunked_download probes open_io chunks env agent fp opts chunk_size dir = Some (Inl e, dir')"
  shows "sd_target dir' = sd_target dir"
proof -
  let ?probe = "probe_attempts probes agent opts 1 (nat (tp_initial_retry_delay_ms (do_policy opts)) * 1000000)"
  show ?thesis
  proof (cases "\<exists>probe n. ?probe = Some (Inr (probe, n))")
    case False
    with assms show ?thesis by (auto simp: chunked_download_def split: option.splits sum.splits)
  next
    case True
    then obtain probe n where p: "?probe = Some (Inr (probe, n))" by blast
    obtain o' where o: "df_open open_io fp (do_persistent opts \<and> resp_validator probe \<noteq> [] \<and> fp \<noteq> []) dir = o'" by simp
    show ?thesis
    proof (cases o')
      case (Inl x)
      with p o assms df_open_failed_target show ?thesis
        by (cases x) (auto simp: chunked_download_def Let_def)
    next
      case (Inr f)
      have dir: "sd_target (df_dir f) = sd_target dir" using df_open_ok(3) o Inr by blast
      obtain q f1 where q: "chunked_fresh env (resp_validator probe) (total_length probe) f = (q, f1)" by force
      note f1 = chunked_fresh_target [OF q]
      show ?thesis
      proof (cases q)
        case (Inl x)
        with p o Inr q f1 dir assms show ?thesis by (auto simp: chunked_download_def Let_def)
      next
        case fresh: (Inr u)
        obtain r k f2 where l: "chunk_loop chunks agent opts (resp_validator probe) chunk_size n f1 = Some (r, k, f2)"
          using p o Inr q fresh assms by (auto simp: chunked_download_def Let_def split: option.splits)
        note f2 = chunk_loop_target [OF l]
        have "df_drop f2 = dir' \<or> (\<exists>f3. publish_chunked env k f2 = (Inl e, f3) \<and> df_drop f3 = dir')"
          using p o Inr q fresh l assms by (auto simp: chunked_download_def Let_def split: sum.splits)
        then show ?thesis using publish_chunked_failed f1 f2 dir df_drop_target by metis
      qed
    qed
  qed
qed

section \<open>The property\<close>

text \<open>
  C4. A chunked download that succeeds has published one version of the resource as a whole, under these
  conditions: the server labels every answer with its version and honours the ranges that it is asked for, the
  caller passes no \<open>If-Range\<close> header of its own, and the download starts from a missing or an honest checkpoint.
  Then, whatever the probe and the chunks run into (refused connections, error statuses, broken bodies, a restored
  file of an older version), the target is the content of the version that the probe saw, with or without an
  announced length. A download that fails has left the target as it was.
\<close>

theorem chunked_download_publishes_probed_version:
  assumes "bt_wf (do_headers opts)" "bt_get (do_headers opts) ''If-Range'' = None"
    and "checkpoint_honest content dir" and "\<forall>v. length (content v) \<le> u64_max"
    and "list_all (\<lambda>env. serves_ranges content (ae_serve env)) probes"
    and "list_all (\<lambda>c. list_all (\<lambda>env. serves_ranges content (ae_serve env)) (ce_attempts c)) chunks"
    and "chunked_download probes open_io chunks env agent fp opts chunk_size dir = Some (r, dir')"
  shows "case r of Inl _ \<Rightarrow> sd_target dir' = sd_target dir
    | Inr s \<Rightarrow> \<exists>probe n. probe_attempts probes agent opts 1 (nat (tp_initial_retry_delay_ms (do_policy opts)) * 1000000) =
           Some (Inr (probe, n)) \<and> sd_target dir' = Some (content (resp_validator probe)) \<and>
           ds_size s = length (content (resp_validator probe)) \<and> content (resp_validator probe) \<noteq> []"
proof (cases r)
  case (Inl e)
  with chunked_failed_target assms(7) show ?thesis by simp
next
  case (Inr s)
  with assms(7) obtain probe n f u f1 w k f2 f3
    where p: "probe_attempts probes agent opts 1 (nat (tp_initial_retry_delay_ms (do_policy opts)) * 1000000) = Some (Inr (probe, n))"
      and f: "df_open open_io fp (do_persistent opts \<and> resp_validator probe \<noteq> [] \<and> fp \<noteq> []) dir = Inr f"
      and f1: "chunked_fresh env (resp_validator probe) (total_length probe) f = (Inr u, f1)"
      and f2: "chunk_loop chunks agent opts (resp_validator probe) chunk_size n f1 = Some (Inr w, k, f2)"
      and f3: "publish_chunked env k f2 = (Inr s, f3)" and dir': "dir' = df_drop f3"
    by (auto simp: chunked_download_def Let_def split: option.splits sum.splits prod.splits)
  let ?v = "resp_validator probe"
  have v: "?v \<noteq> []" "total_length probe > 0 \<longrightarrow> total_length probe = int (length (content ?v))"
    using probe_attempts_served [OF assms(5,1,2) p] by simp_all
  have "chunk_inv content ?v f1" using chunked_fresh_ok [OF f assms(3) f1 v(2)] .
  from chunk_loop_whole [OF this v(1) assms(1) _ assms(6) f2] assms(4)
  have "chunk_inv content ?v f2 \<and> (ck_total (df_state f2) \<le> 0 \<longrightarrow> sd_staged (df_dir f2) = content ?v)" by blast
  with publish_chunked_ok [OF f3] p dir' Inr show ?thesis by auto
qed

text \<open>Three bytes in chunks of two, from a server that knows one version.\<close>

definition ranged_content :: "string \<Rightarrow> u8 list" where
  "ranged_content v = (if v = ''v1'' then [1, 2, 3] else [])"

definition ranged_transfer :: "string \<Rightarrow> u8 list \<Rightarrow> transfer" where
  "ranged_transfer rng bytes =
     \<lparr>tr_response = \<lparr>hr_status = 206, hr_headers = [(''Content-Range'', [rng]), (''Etag'', [''v1''])]\<rparr>,
      tr_reads = [\<lparr>re_data = bytes, re_write = Inr (), re_late = False, re_save = SyncFailed\<rparr>], tr_end = Inr ()\<rparr>"

definition ranged_serve :: "headers \<Rightarrow> (string, transfer) result" where
  "ranged_serve hs =
     (if bt_get hs ''Range'' = Some (range_of 0 1) then Inr (ranged_transfer ''bytes 0-1/3'' [1, 2])
      else if bt_get hs ''Range'' = Some (range_of 2 2) then Inr (ranged_transfer ''bytes 2-2/3'' [3])
      else Inl ''no route'')"

definition ranged_env :: attempt_env where
  "ranged_env =
     \<lparr>ae_check = Inr (), ae_serve = ranged_serve, ae_check_after = Inr (), ae_io = Inr (), ae_unlink = Inr (),
      ae_wait = (\<lambda>_. Inr ()), ae_jitter = None, ae_save = SyncFailed, ae_sync = Inr (), ae_check_publish = Inr (),
      ae_rename = Inr (), ae_unlinked = True, ae_date = (\<lambda>_. None), ae_now = 0, ae_debug = (\<lambda>s. s)\<rparr>"

definition ranged_options :: download_options where
  "ranged_options = \<lparr>do_headers = [], do_resume = True, do_persistent = False, do_policy = policy_default\<rparr>"

definition ranged_dir :: staging_dir where
  "ranged_dir = \<lparr>sd_target = None, sd_staged = [], sd_checkpoint = None\<rparr>"

definition ranged_chunk :: chunk_env where
  "ranged_chunk = \<lparr>ce_attempts = [ranged_env], ce_late = False, ce_save = SyncFailed\<rparr>"

lemma ranged_total:
  "total_length (tr_response (ranged_transfer ''bytes 0-1/3'' bs)) = 3"
  "total_length (tr_response (ranged_transfer ''bytes 2-2/3'' bs)) = 3"
  "resp_validator (tr_response (ranged_transfer rng bs)) = ''v1''"
  "content_length (tr_response (ranged_transfer rng bs)) = - 1"
  by (simp_all add: total_length_def ranged_transfer_def resp_header_def bt_get_def rsplit_once_def total_prefix_def
      resp_validator_def content_length_def parse_i64_or_def parse_i64_def is_ascii_digit_def byte_of_def is_ws1_def is_ws2_def
      i64_max_def trim_def trim_end_def to_ascii_uppercase_def ascii_upper_def is_ascii_lowercase_def Let_def)

lemma ranged_status [simp]: "hr_status (tr_response (ranged_transfer rng bs)) = 206"
  "tr_reads (ranged_transfer rng bs) = [\<lparr>re_data = bs, re_write = Inr (), re_late = False, re_save = SyncFailed\<rparr>]"
  "tr_end (ranged_transfer rng bs) = Inr ()"
  by (simp_all add: ranged_transfer_def)

lemma ranged_serves: "serves_ranges ranged_content ranged_serve"
proof -
  have "delivers (slice (ranged_content ''v1'') 0 1) (ranged_transfer rng [1, 2])"
    "delivers (slice (ranged_content ''v1'') 2 2) (ranged_transfer rng [3])" for rng
    by (simp_all add: delivers_def slice_def ranged_content_def ranged_total)
  then show ?thesis
    unfolding serves_ranges_def ranged_serve_def Let_def
    by (auto simp: ranged_total ranged_content_def split: if_splits intro!: exI [of _ "''v1''"])
qed

lemma ranged_range [simp]: "bt_get (chunk_headers agent [] rng v) ''Range'' = Some rng"
  by (rule chunk_headers_get) simp

lemma ranged_distinct [simp]: "range_of 2 2 \<noteq> range_of 0 (Suc 0)"
  using range_of_inject(1) [of 2 2 0 "Suc 0"] by auto

lemma ranged_probe:
  "probe_attempts [ranged_env] agent ranged_options n delay =
     Some (Inr (tr_response (ranged_transfer ''bytes 0-1/3'' [1, 2]), n))"
  by (simp add: probe_attempt_def ranged_env_def ranged_options_def ranged_serve_def)

lemma ranged_rejected:
  "chunk_rejected env k 0 ''v1'' (tr_response (ranged_transfer ''bytes 0-1/3'' bs)) = None"
  "chunk_rejected env k 2 ''v1'' (tr_response (ranged_transfer ''bytes 2-2/3'' bs)) = None"
proof -
  have "show_nat 0 = ''0''" "show_nat 2 = ''2''" by code_simp+
  then show "chunk_rejected env k 0 ''v1'' (tr_response (ranged_transfer ''bytes 0-1/3'' bs)) = None"
    "chunk_rejected env k 2 ''v1'' (tr_response (ranged_transfer ''bytes 2-2/3'' bs)) = None"
    by (simp_all add: chunk_rejected_def Let_def ranged_total) (simp_all add: ranged_transfer_def resp_header_def bt_get_def)
qed

definition ranged_file :: "u8 list \<Rightarrow> download_file" where
  "ranged_file bs =
     \<lparr>df_dir = \<lparr>sd_target = None, sd_staged = bs, sd_checkpoint = None\<rparr>,
      df_state = checkpoint_default\<lparr>ck_validator := ''v1'', ck_bytes := length bs, ck_total := 3\<rparr>,
      df_restored = False, df_keep_partial = False, df_promoted = False, df_saved_bytes = 0\<rparr>"

lemma ranged_attempts:
  "chunk_attempt ranged_env [] ranged_options ''v1'' n k 0 1 d (ranged_file []) = (Completed False 0, ranged_file [1, 2])"
  "chunk_attempt ranged_env [] ranged_options ''v1'' n k 2 2 d (ranged_file [1, 2]) = (Completed False 2, ranged_file [1, 2, 3])"
  by (simp_all add: chunk_attempt_def ranged_options_def ranged_rejected chunk_receive_def chunk_restart_def chunk_expected_def
      ranged_total wrap_i64_def ranged_file_def checkpoint_default_def is_ok_def df_write_def ranged_env_def ranged_serve_def
      u64_max_def Let_def)

lemma ranged_chunks:
  "chunk_loop [ranged_chunk, ranged_chunk] [] ranged_options ''v1'' 2 (Suc 0) (ranged_file []) = Some (Inr (), 3, ranged_file [1, 2, 3])"
proof -
  have "chunk_missing (ranged_file [])" "chunk_missing (ranged_file [1, 2])" "\<not> chunk_missing (ranged_file [1, 2, 3])"
    "chunk_last_byte 2 (ranged_file []) = Suc 0" "chunk_last_byte 2 (ranged_file [1, 2]) = 2"
    "df_checkpoint b l a (ranged_file bs) = ranged_file bs" "ck_bytes (df_state (ranged_file [])) = 0"
    "ck_bytes (df_state (ranged_file [1, 2])) = 2" "ck_total (df_state (ranged_file bs)) = 3"
    "tp_max_attempts (do_policy ranged_options) = 3" for b l a bs
    by (simp_all add: chunk_missing_def ranged_file_def chunk_last_byte_def u64_max_def df_checkpoint_def Let_def
        ranged_options_def policy_default_def)
  then show ?thesis
    using ranged_attempts by (simp add: ranged_chunk_def Let_def)
qed

lemma ranged_run:
  "chunked_download [ranged_env] (Inr ()) [ranged_chunk, ranged_chunk] ranged_env [] [] ranged_options 2 ranged_dir =
     Some (Inr \<lparr>ds_size = 3, ds_attempts = 3, ds_resumed = False\<rparr>,
           \<lparr>sd_target = Some [1, 2, 3], sd_staged = [], sd_checkpoint = None\<rparr>)"
proof -
  have o: "df_open (Inr ()) [] False ranged_dir =
      Inr (ranged_file []\<lparr>df_state := checkpoint_default\<rparr>)"
    by (simp add: df_open_def opened_file_def restored_state_def ranged_dir_def checkpoint_default_def truncate_staged_def
        set_len_def ranged_file_def Let_def)
  have f: "chunked_fresh ranged_env ''v1'' 3 (ranged_file []\<lparr>df_state := checkpoint_default\<rparr>) = (Inr (), ranged_file [])"
    by (simp add: chunked_fresh_def ranged_file_def checkpoint_default_def)
  have p: "publish_chunked ranged_env 3 (ranged_file [1, 2, 3]) =
      (Inr \<lparr>ds_size = 3, ds_attempts = 3, ds_resumed = False\<rparr>,
       (ranged_file [1, 2, 3])\<lparr>df_promoted := True, df_dir := \<lparr>sd_target = Some [1, 2, 3], sd_staged = [], sd_checkpoint = None\<rparr>\<rparr>)"
    by (simp add: publish_chunked_def ranged_file_def checkpoint_default_def df_publish_def ranged_env_def)
  have persist: "do_persistent ranged_options = False" by (simp add: ranged_options_def)
  show ?thesis
    unfolding chunked_download_def ranged_probe
    by (simp add: ranged_total persist o f ranged_chunks p df_drop_def Let_def del: chunk_loop.simps)
qed

theorem chunked_download_publishes_probed_version_witness:
  "\<exists>dir' s. chunked_download [ranged_env] (Inr ()) [ranged_chunk, ranged_chunk] ranged_env [] [] ranged_options 2 ranged_dir =
     Some (Inr s, dir') \<and> sd_target dir' = Some (ranged_content ''v1'') \<and> ds_size s = 3"
proof -
  have "bt_wf (do_headers ranged_options)" "bt_get (do_headers ranged_options) ''If-Range'' = None"
    "checkpoint_honest ranged_content ranged_dir" "\<forall>v. length (ranged_content v) \<le> u64_max"
    "list_all (\<lambda>env. serves_ranges ranged_content (ae_serve env)) [ranged_env]"
    "list_all (\<lambda>c. list_all (\<lambda>env. serves_ranges ranged_content (ae_serve env)) (ce_attempts c)) [ranged_chunk, ranged_chunk]"
    using ranged_serves
    by (simp_all add: ranged_options_def bt_get_def checkpoint_honest_def ranged_dir_def ranged_content_def u64_max_def
        ranged_env_def ranged_chunk_def)
  from chunked_download_publishes_probed_version [OF this ranged_run] show ?thesis
    using ranged_run by (auto simp: ranged_probe ranged_total simp del: probe_attempts.simps)
qed

end
