(* ===== verification/Windows_Path.thy ===== *)
theory Windows_Path
  imports Rust_Text
begin

text \<open>
  The Windows rules for names that an extension controls
  (\<open>crates/extensions/src/windows_path.rs\<close>), with the reading that Win32 gives to a relative path.
\<close>

section \<open>The checks\<close>








section \<open>How Win32 reads a path\<close>


















end
