(* ===== verification/Usb_Descriptors.thy ===== *)
theory Usb_Descriptors
  imports Prelude "HOL-Library.Product_Lexorder"
begin

text \<open>
  USB audio descriptors (\<open>crates/mobile/src/usb_audio/descriptors.rs\<close>): the parser of the raw
  configuration bytes, which come from the device, and the choice of output formats. An index out of
  range is the error \<open>IndexPanic\<close>, so that its absence is a theorem.
\<close>

unbundle bit_operations_syntax

section \<open>Devices\<close>

record usb_endpoint =
  ep_address :: u8
  ep_attributes :: u8
  ep_max_packet :: nat
  ep_interval :: u8
  ep_sync_address :: u8
  ep_rate_control :: bool

record usb_alternate =
  al_control :: u8
  al_interface :: u8
  al_alternate :: u8
  al_uac2 :: bool
  al_terminal :: u8
  al_clock :: u8
  al_channels :: u8
  al_bits :: u8
  al_subslot :: u8
  al_pcm :: bool
  al_rates :: "(u32 \<times> u32) list"
  al_endpoints :: "usb_endpoint list"

record usb_device =
  dv_vendor :: u16
  dv_product :: u16
  dv_revision :: u16
  dv_alternates :: "usb_alternate list"

definition alternate_default :: usb_alternate where
  "alternate_default = \<lparr>al_control = 0, al_interface = 0, al_alternate = 0, al_uac2 = False, al_terminal = 0,
     al_clock = 0, al_channels = 0, al_bits = 0, al_subslot = 0, al_pcm = False, al_rates = [], al_endpoints = []\<rparr>"

definition usb_device_default :: usb_device where
  "usb_device_default = \<lparr>dv_vendor = 0, dv_product = 0, dv_revision = 0, dv_alternates = []\<rparr>"

datatype usb_error = MultipleConfigurations | MalformedDescriptor | IndexPanic

section \<open>The parser\<close>

text \<open>The local variables of the loop.\<close>

record usb_state =
  us_device :: usb_device
  us_current :: "usb_alternate option"
  us_control :: u8
  us_is_control :: bool
  us_clocks :: "u8 \<times> u8 \<Rightarrow> u8 option"
  us_configurations :: nat

definition usb_start :: usb_state where
  "usb_start = \<lparr>us_device = usb_device_default, us_current = None, us_control = 0, us_is_control = False,
     us_clocks = (\<lambda>_. None), us_configurations = 0\<rparr>"

text \<open>\<open>indexing n d x\<close>: the code that computes \<open>x\<close> indexes \<open>d\<close> below \<open>n\<close>, up to \<open>n - 1\<close>.\<close>

definition indexing :: "nat \<Rightarrow> u8 list \<Rightarrow> 'a \<Rightarrow> (usb_error, 'a) result" where
  "indexing n d x = (if n \<le> length d then Inr x else Inl IndexPanic)"

definition u16le :: "u8 list \<Rightarrow> nat \<Rightarrow> u16" where
  "u16le d i = ucast (d ! i) OR push_bit 8 (ucast (d ! (i + 1)))"

definition u24le :: "u8 list \<Rightarrow> nat \<Rightarrow> u32" where
  "u24le d i = ucast (d ! i) OR push_bit 8 (ucast (d ! (i + 1))) OR push_bit 16 (ucast (d ! (i + 2)))"

definition u32le :: "u8 list \<Rightarrow> nat \<Rightarrow> u32" where
  "u32le d i = u24le d i OR push_bit 24 (ucast (d ! (i + 3)))"

definition push_current :: "usb_state \<Rightarrow> usb_state" where
  "push_current st =
     (case us_current st of
        None \<Rightarrow> st
      | Some a \<Rightarrow> st\<lparr>us_device := (us_device st)\<lparr>dv_alternates := dv_alternates (us_device st) @ [a]\<rparr>, us_current := None\<rparr>)"

text \<open>An interface descriptor opens a new alternate setting.\<close>

definition interface_desc :: "u8 list \<Rightarrow> usb_state \<Rightarrow> (usb_error, usb_state) result" where
  "interface_desc d st =
     indexing 8 d
       (let st1 = push_current st;
            audio_control = (d ! 5 = 1 \<and> d ! 6 = 1);
            st2 = st1\<lparr>us_is_control := (audio_control \<and> d ! 7 = 0x20),
                      us_control := (if audio_control then d ! 2 else us_control st1)\<rparr>
        in if d ! 5 = 1 \<and> d ! 6 = 2 \<and> d ! 3 > 0 \<and> (d ! 7 = 0 \<or> d ! 7 = 0x20)
           then st2\<lparr>us_current := Some (alternate_default\<lparr>al_control := us_control st2, al_interface := d ! 2,
                                        al_alternate := d ! 3, al_uac2 := (d ! 7 = 0x20)\<rparr>)\<rparr>
           else st2)"

definition general_desc :: "u8 list \<Rightarrow> usb_alternate \<Rightarrow> (usb_error, usb_alternate) result" where
  "general_desc d a =
     (if 7 \<le> length d \<and> d ! 2 = 1
      then try_bind (indexing 4 d (a\<lparr>al_terminal := d ! 3\<rparr>)) (\<lambda>a1.
             if al_uac2 a \<and> 16 \<le> length d \<and> d ! 5 = 1
             then indexing 11 d (a1\<lparr>al_pcm := (u32le d 6 AND 1 \<noteq> 0), al_channels := d ! 10\<rparr>)
             else if \<not> al_uac2 a then indexing 7 d (a1\<lparr>al_pcm := (u16le d 5 = 1)\<rparr>)
             else Inr a1)
      else Inr a)"

definition rate_list :: "u8 list \<Rightarrow> nat \<Rightarrow> (u32 \<times> u32) list" where
  "rate_list d count = map (\<lambda>k. (u24le d (8 + 3 * k), u24le d (8 + 3 * k))) [0..<count]"

definition format_desc :: "u8 list \<Rightarrow> usb_alternate \<Rightarrow> (usb_error, usb_alternate) result" where
  "format_desc d a =
     (if 6 \<le> length d \<and> d ! 2 = 2 \<and> d ! 3 = 1
      then (if al_uac2 a then indexing 6 d (a\<lparr>al_subslot := d ! 4, al_bits := d ! 5\<rparr>)
            else if 8 \<le> length d
            then try_bind (indexing 8 d (a\<lparr>al_channels := d ! 4, al_subslot := d ! 5, al_bits := d ! 6\<rparr>)) (\<lambda>a1.
                   let count = unat (d ! 7) in
                   if count = 0 \<and> 14 \<le> length d
                   then indexing 14 d (a1\<lparr>al_rates := al_rates a1 @ [(u24le d 8, u24le d 11)]\<rparr>)
                   else if 8 + count * 3 \<le> length d
                   then indexing (8 + count * 3) d (a1\<lparr>al_rates := al_rates a1 @ rate_list d count\<rparr>)
                   else Inr a1)
            else Inr a)
      else Inr a)"

definition endpoint_desc :: "u8 list \<Rightarrow> usb_alternate \<Rightarrow> (usb_error, usb_alternate) result" where
  "endpoint_desc d a =
     indexing 7 d
       (let packet = u16le d 4 in
        a\<lparr>al_endpoints := al_endpoints a @
           [\<lparr>ep_address = d ! 2, ep_attributes = d ! 3,
             ep_max_packet = unat (packet AND 0x7FF) * (1 + unat (drop_bit 11 packet AND 3)),
             ep_interval = d ! 6, ep_sync_address = (if 8 < length d then d ! 8 else 0), ep_rate_control = False\<rparr>]\<rparr>)"

definition rate_control_desc :: "u8 list \<Rightarrow> usb_alternate \<Rightarrow> (usb_error, usb_alternate) result" where
  "rate_control_desc d a =
     (if \<not> al_uac2 a \<and> al_endpoints a \<noteq> []
      then indexing 4 d (a\<lparr>al_endpoints := butlast (al_endpoints a) @
             [(last (al_endpoints a))\<lparr>ep_rate_control := (d ! 3 AND 1 \<noteq> 0)\<rparr>]\<rparr>)
      else Inr a)"

definition on_current ::
  "(usb_alternate \<Rightarrow> (usb_error, usb_alternate) result) \<Rightarrow> usb_state \<Rightarrow> (usb_error, usb_state) result" where
  "on_current f st =
     (case us_current st of
        None \<Rightarrow> Inr st
      | Some a \<Rightarrow> try_bind (f a) (\<lambda>a1. Inr (st\<lparr>us_current := Some a1\<rparr>)))"

text \<open>One descriptor; the guards of an arm are evaluated before the next arm is tried.\<close>

definition descriptor :: "u8 list \<Rightarrow> usb_state \<Rightarrow> (usb_error, usb_state) result" where
  "descriptor d st =
     try_bind (indexing 2 d (d ! 1)) (\<lambda>kind.
       if kind = 2 then
         (let n = us_configurations st + 1 in
          if n > 1 then Inl MultipleConfigurations else Inr (st\<lparr>us_configurations := n\<rparr>))
       else if kind = 1 \<and> 18 \<le> length d then
         indexing 14 d (st\<lparr>us_device := (us_device st)
           \<lparr>dv_vendor := u16le d 8, dv_product := u16le d 10, dv_revision := u16le d 12\<rparr>\<rparr>)
       else if kind = 4 \<and> 9 \<le> length d then interface_desc d st
       else if kind = 0x24 \<and> us_is_control st \<and> 9 \<le> length d \<and> d ! 2 = 2 then
         indexing 8 d (st\<lparr>us_clocks := (us_clocks st)((us_control st, d ! 3) \<mapsto> d ! 7)\<rparr>)
       else if kind = 0x24 then on_current (\<lambda>a. try_bind (general_desc d a) (format_desc d)) st
       else if kind = 5 \<and> 7 \<le> length d then on_current (endpoint_desc d) st
       else if kind = 0x25 \<and> 4 \<le> length d \<and> d ! 2 = 1 then on_current (rate_control_desc d) st
       else Inr st)"

function parse_descriptors :: "u8 list \<Rightarrow> usb_state \<Rightarrow> (usb_error, usb_state) result" where
  "parse_descriptors [] st = Inr st"
| "parse_descriptors (b # bs) st =
     (let n = unat b in
      if n < 2 \<or> length (b # bs) < n then Inl MalformedDescriptor
      else try_bind (descriptor (take n (b # bs)) st) (parse_descriptors (drop n (b # bs))))"
  by pat_completeness auto
termination by (relation "measure (\<lambda>(bs, _). length bs)") auto

definition usb_parse :: "u8 list \<Rightarrow> (usb_error, usb_device) result" where
  "usb_parse bytes =
     try_bind (parse_descriptors bytes usb_start) (\<lambda>st.
       let st1 = push_current st in
       Inr ((us_device st1)\<lparr>dv_alternates :=
         map (\<lambda>a. a\<lparr>al_clock := (case us_clocks st1 (al_control a, al_terminal a) of None \<Rightarrow> 0 | Some c \<Rightarrow> c)\<rparr>)
           (dv_alternates (us_device st1))\<rparr>))"

section \<open>Output formats\<close>

record usb_format =
  uf_sample_rate :: u32
  uf_channels :: u8
  uf_bits :: u8
  uf_subslot :: u8
  uf_encoding :: string

definition native_encoding :: "usb_device \<Rightarrow> usb_alternate \<Rightarrow> string option" where
  "native_encoding dev a =
     (if \<not> al_uac2 a \<or> al_subslot a \<noteq> 4 then None
      else if dv_vendor dev = 0x16d0 \<and> dv_product dev = 0x071a \<and> al_alternate a = 2 \<and> dv_revision dev = 0x0199
      then Some ''dsd_le''
      else if dv_vendor dev = 0x16d0 \<and> dv_product dev = 0x071a \<and> al_alternate a = 2 \<and>
              (dv_revision dev = 0x019b \<or> dv_revision dev = 0x0203)
      then Some ''dsd_be''
      else if (dv_vendor dev = 0x2772 \<and> dv_product dev = 0x0230 \<or> dv_vendor dev = 0x20b1 \<and> dv_product dev = 0x3089) \<and>
              al_alternate a = 2
      then Some ''dsd_be''
      else None)"

text \<open>The rate on the wire, the encoding and the precision, or \<open>None\<close> where the alternate cannot carry the stream.\<close>

definition wire_format ::
  "usb_device \<Rightarrow> u32 \<Rightarrow> u8 \<Rightarrow> bool \<Rightarrow> bool \<Rightarrow> usb_alternate \<Rightarrow> (u32 \<times> string \<times> u8) option" where
  "wire_format dev rate bits dsd dop a =
     (if dsd
      then (case native_encoding dev a of
              Some encoding \<Rightarrow> Some (rate div 32, encoding, 1)
            | None \<Rightarrow> if dop \<and> al_pcm a \<and> al_bits a \<ge> 24 \<and> al_subslot a \<ge> 3 then Some (rate div 16, ''dop'', 24) else None)
      else if \<not> al_pcm a \<or> native_encoding dev a \<noteq> None \<or> bits \<notin> {16, 24, 32} \<or> al_bits a < bits then None
      else Some (rate, ''pcm'', al_bits a))"

definition alternate_format ::
  "usb_device \<Rightarrow> u32 \<Rightarrow> u8 \<Rightarrow> u8 \<Rightarrow> bool \<Rightarrow> bool \<Rightarrow> usb_alternate \<Rightarrow> usb_format option" where
  "alternate_format dev rate channels bits dsd dop a =
     (if al_channels a \<noteq> channels \<or> \<not> (1 \<le> channels \<and> channels \<le> 2) \<or> \<not> (2 \<le> al_subslot a \<and> al_subslot a \<le> 4) then None
      else case wire_format dev rate bits dsd dop a of
             None \<Rightarrow> None
           | Some (wire_rate, encoding, precision) \<Rightarrow>
               if wire_rate = 0 \<or> al_bits a > al_subslot a * 8 \<or> al_uac2 a \<and> al_clock a = 0 then None
               else if \<not> al_uac2 a \<and> \<not> list_ex (\<lambda>(lo, hi). lo \<le> wire_rate \<and> wire_rate \<le> hi) (al_rates a) then None
               else Some \<lparr>uf_sample_rate = wire_rate, uf_channels = channels, uf_bits = precision,
                          uf_subslot = al_subslot a, uf_encoding = encoding\<rparr>)"

definition format_key :: "usb_format \<Rightarrow> nat \<times> nat" where
  "format_key f = (if take 4 (uf_encoding f) = ''dsd_'' then 0 else 1, unat (uf_subslot f))"

definition usb_formats ::
  "usb_device \<Rightarrow> u32 \<Rightarrow> u8 \<Rightarrow> u8 \<Rightarrow> bool \<Rightarrow> bool \<Rightarrow> (usb_alternate \<times> usb_format) list" where
  "usb_formats dev rate channels bits dsd dop =
     sort_key (\<lambda>(_, f). format_key f)
       (List.map_filter (\<lambda>a. map_option (Pair a) (alternate_format dev rate channels bits dsd dop a)) (dv_alternates dev))"

section \<open>The parser accepts exactly the well-framed configurations\<close>

definition well_framed :: "u8 list list \<Rightarrow> u8 list \<Rightarrow> bool" where
  "well_framed ds bytes \<longleftrightarrow> concat ds = bytes \<and> list_all (\<lambda>d. 2 \<le> length d \<and> unat (hd d) = length d) ds"

definition configurations :: "u8 list list \<Rightarrow> nat" where
  "configurations ds = length (filter (\<lambda>d. d ! 1 = 2) ds)"

lemma indexing_enough [simp]: "n \<le> length d \<Longrightarrow> indexing n d x = Inr x"
  by (simp add: indexing_def)

lemma alternate_descs_ok:
  "\<exists>a'. general_desc d a = Inr a'" "\<exists>a'. format_desc d a = Inr a'"
  "7 \<le> length d \<Longrightarrow> \<exists>a'. endpoint_desc d a = Inr a'" "4 \<le> length d \<Longrightarrow> \<exists>a'. rate_control_desc d a = Inr a'"
  by (auto simp: general_desc_def format_desc_def endpoint_desc_def rate_control_desc_def Let_def)

lemma general_then_format_ok: "\<exists>a'. try_bind (general_desc d a) (format_desc d) = Inr a'"
proof -
  obtain a1 where "general_desc d a = Inr a1" using alternate_descs_ok(1) by blast
  then show ?thesis using alternate_descs_ok(2) [of d a1] by simp
qed

lemma on_current_ok:
  assumes "\<And>a. \<exists>a'. f a = Inr a'"
  shows "\<exists>st'. on_current f st = Inr st' \<and> us_configurations st' = us_configurations st"
proof (cases "us_current st")
  case (Some a)
  obtain a' where "f a = Inr a'" using assms by blast
  with Some show ?thesis by (simp add: on_current_def)
qed (simp add: on_current_def)

lemma push_current_configurations [simp]: "us_configurations (push_current st) = us_configurations st"
  by (simp add: push_current_def split: option.splits)

lemma interface_desc_ok:
  "9 \<le> length d \<Longrightarrow> \<exists>st'. interface_desc d st = Inr st' \<and> us_configurations st' = us_configurations st"
  by (simp add: interface_desc_def Let_def)

lemma descriptor_configuration:
  assumes "2 \<le> length d" "d ! 1 = 2"
  shows "descriptor d st = (if us_configurations st = 0 then Inr (st\<lparr>us_configurations := 1\<rparr>) else Inl MultipleConfigurations)"
  using assms by (simp add: descriptor_def)

lemma descriptor_other:
  assumes "2 \<le> length d" "d ! 1 \<noteq> 2"
  shows "\<exists>st'. descriptor d st = Inr st' \<and> us_configurations st' = us_configurations st"
  using assms interface_desc_ok [of d st] on_current_ok [of "\<lambda>a. try_bind (general_desc d a) (format_desc d)" st]
    on_current_ok [of "endpoint_desc d" st] on_current_ok [of "rate_control_desc d" st]
    general_then_format_ok alternate_descs_ok(3,4)
  by (simp add: descriptor_def)

lemma parse_framed:
  assumes "us_configurations st + configurations ds \<le> 1" "well_framed ds bytes"
  shows "\<exists>st'. parse_descriptors bytes st = Inr st'"
  using assms
proof (induction ds arbitrary: bytes st)
  case (Cons d ds)
  let ?rest = "concat ds"
  from Cons.prems(2) have d: "2 \<le> length d" "unat (hd d) = length d" and b: "bytes = d @ ?rest"
    and f: "well_framed ds ?rest" by (auto simp: well_framed_def)
  then obtain x xs where x: "d = x # xs" by (cases d) auto
  obtain st1 where st1: "descriptor d st = Inr st1" "us_configurations st1 + configurations ds \<le> 1"
    using Cons.prems(1) descriptor_configuration [OF d(1), of st] descriptor_other [OF d(1), of st]
    by (cases "d ! 1 = 2") (auto simp: configurations_def)
  from Cons.IH [OF st1(2) f] obtain st' where "parse_descriptors ?rest st1 = Inr st'" ..
  moreover have "parse_descriptors bytes st = try_bind (descriptor d st) (parse_descriptors ?rest)"
    using d b x by (auto simp: Let_def)
  ultimately show ?case using st1(1) by simp
qed (simp add: well_framed_def)

lemma parse_descriptors_result:
  assumes "us_configurations st \<le> 1"
  shows "case parse_descriptors bytes st of
           Inl e \<Rightarrow> e \<noteq> IndexPanic
         | Inr _ \<Rightarrow> \<exists>ds. well_framed ds bytes \<and> us_configurations st + configurations ds \<le> 1"
  using assms
proof (induction bytes st rule: parse_descriptors.induct)
  case (1 st)
  then show ?case by (auto simp: well_framed_def configurations_def intro!: exI [of _ "[]"])
next
  case (2 b bs st)
  let ?n = "unat b" and ?all = "b # bs"
  show ?case
  proof (cases "?n < 2 \<or> length ?all < ?n")
    case True
    then show ?thesis by (auto simp: Let_def)
  next
    case False
    let ?d = "take ?n ?all" and ?rest = "drop ?n ?all"
    have d: "2 \<le> length ?d" "unat (hd ?d) = length ?d" using False by (auto simp: take_Cons' )
    have eq: "parse_descriptors ?all st = try_bind (descriptor ?d st) (parse_descriptors ?rest)"
      using False by (simp add: Let_def del: take_Suc_Cons)
    show ?thesis
    proof (cases "descriptor ?d st")
      case (Inl e)
      then have "e = MultipleConfigurations"
        using descriptor_configuration [OF d(1), of st] descriptor_other [OF d(1), of st]
        by (cases "?d ! 1 = 2") (auto split: if_splits)
      with Inl eq show ?thesis by simp
    next
      case (Inr st1)
      have c: "us_configurations st1 = us_configurations st + configurations [?d]" and "us_configurations st1 \<le> 1"
        using Inr "2.prems" descriptor_configuration [OF d(1), of st] descriptor_other [OF d(1), of st]
        by (cases "?d ! 1 = 2"; auto simp: configurations_def split: if_splits)+
      with "2.IH" [of ?n st1] False have IH: "case parse_descriptors ?rest st1 of Inl e \<Rightarrow> e \<noteq> IndexPanic
          | Inr _ \<Rightarrow> \<exists>ds. well_framed ds ?rest \<and> us_configurations st1 + configurations ds \<le> 1" by simp
      have step: "\<exists>ds'. well_framed ds' ?all \<and> us_configurations st + configurations ds' \<le> 1"
        if "well_framed ds ?rest" "us_configurations st1 + configurations ds \<le> 1" for ds
      proof (intro exI conjI)
        show "well_framed (?d # ds) ?all" using that(1) d by (simp only: well_framed_def concat.simps list.pred_inject append_take_drop_id)
        show "us_configurations st + configurations (?d # ds) \<le> 1" using that(2) c by (simp add: configurations_def split: if_splits)
      qed
      show ?thesis
        unfolding eq using Inr IH step by (simp split: sum.splits) blast
    qed
  qed
qed

text \<open>
  C39. Whatever bytes the device sends, the parser returns: it never indexes outside a descriptor, and
  it accepts exactly the byte strings that split into descriptors of their announced lengths with at
  most one configuration descriptor among them.
\<close>

theorem usb_parse_accepts_framed_configurations:
  "usb_parse bytes \<noteq> Inl IndexPanic \<and>
   (is_ok (usb_parse bytes) \<longleftrightarrow> (\<exists>ds. well_framed ds bytes \<and> configurations ds \<le> 1))"
proof -
  have start: "us_configurations usb_start = 0" by (simp add: usb_start_def)
  have ok: "is_ok (usb_parse bytes) \<longleftrightarrow> is_ok (parse_descriptors bytes usb_start)"
    and err: "usb_parse bytes = Inl IndexPanic \<longleftrightarrow> parse_descriptors bytes usb_start = Inl IndexPanic"
    by (cases "parse_descriptors bytes usb_start"; simp add: usb_parse_def is_ok_def Let_def)+
  show ?thesis
    unfolding ok err
    using parse_descriptors_result [of usb_start bytes] parse_framed [of usb_start _ bytes] start
    by (auto simp: is_ok_def split: sum.splits)
qed

section \<open>The formats offered can carry the stream\<close>

lemma usb_formats_members:
  "(a, f) \<in> set (usb_formats dev rate channels bits dsd dop) \<longleftrightarrow>
   a \<in> set (dv_alternates dev) \<and> alternate_format dev rate channels bits dsd dop a = Some f"
  by (auto simp: usb_formats_def List.map_filter_def image_iff)

lemma slot_bits: "(2::u8) \<le> s \<Longrightarrow> s \<le> 4 \<Longrightarrow> unat (s * 8) = unat s * 8"
  by (simp add: unat_word_ariths word_le_nat_alt)

text \<open>The slot: mono or stereo as asked, two to four bytes, and the alternate's samples fit into them.\<close>

definition fits_slot :: "u8 \<Rightarrow> usb_alternate \<Rightarrow> usb_format \<Rightarrow> bool" where
  "fits_slot channels a f \<longleftrightarrow>
     al_channels a = channels \<and> uf_channels f = channels \<and> channels \<in> {1, 2} \<and>
     uf_subslot f = al_subslot a \<and> al_subslot a \<in> {2, 3, 4} \<and> unat (al_bits a) \<le> 8 * unat (al_subslot a)"

definition clocked :: "usb_alternate \<Rightarrow> usb_format \<Rightarrow> bool" where
  "clocked a f \<longleftrightarrow>
     0 < uf_sample_rate f \<and>
     (if al_uac2 a then al_clock a \<noteq> 0
      else list_ex (\<lambda>(lo, hi). lo \<le> uf_sample_rate f \<and> uf_sample_rate f \<le> hi) (al_rates a))"

text \<open>
  How a stream is carried. PCM of 16, 24 or 32 bits: at the source rate on a PCM alternate that is not a
  native DSD one and has at least the precision of the source. DSD: natively, 32 bits to a slot, where the
  device is known to do so; otherwise, where the listener permits it, as DSD over PCM, 16 bits in a slot of
  at least three bytes on a PCM alternate of at least 24 bits.
\<close>

definition carries_pcm :: "usb_device \<Rightarrow> u32 \<Rightarrow> u8 \<Rightarrow> usb_alternate \<Rightarrow> usb_format \<Rightarrow> bool" where
  "carries_pcm dev rate bits a f \<longleftrightarrow>
     al_pcm a \<and> native_encoding dev a = None \<and> bits \<in> {16, 24, 32} \<and> bits \<le> al_bits a \<and>
     uf_encoding f = ''pcm'' \<and> uf_sample_rate f = rate \<and> uf_bits f = al_bits a"

definition carries_native_dsd :: "usb_device \<Rightarrow> u32 \<Rightarrow> usb_alternate \<Rightarrow> usb_format \<Rightarrow> bool" where
  "carries_native_dsd dev rate a f \<longleftrightarrow>
     native_encoding dev a = Some (uf_encoding f) \<and> uf_sample_rate f = rate div 32 \<and> uf_bits f = 1"

definition carries_dop :: "usb_device \<Rightarrow> u32 \<Rightarrow> usb_alternate \<Rightarrow> usb_format \<Rightarrow> bool" where
  "carries_dop dev rate a f \<longleftrightarrow>
     native_encoding dev a = None \<and> al_pcm a \<and> 24 \<le> al_bits a \<and> 3 \<le> al_subslot a \<and>
     uf_encoding f = ''dop'' \<and> uf_sample_rate f = rate div 16 \<and> uf_bits f = 24"

definition carries_stream :: "usb_device \<Rightarrow> u32 \<Rightarrow> u8 \<Rightarrow> bool \<Rightarrow> bool \<Rightarrow> usb_alternate \<Rightarrow> usb_format \<Rightarrow> bool" where
  "carries_stream dev rate bits dsd dop a f \<longleftrightarrow>
     (if dsd then carries_native_dsd dev rate a f \<or> dop \<and> carries_dop dev rate a f else carries_pcm dev rate bits a f)"

lemmas carries_defs = carries_stream_def carries_pcm_def carries_native_dsd_def carries_dop_def

lemma small_words:
  "(1::u8) \<le> c \<and> c \<le> 2 \<longleftrightarrow> c \<in> {1, 2}" "(2::u8) \<le> c \<and> c \<le> 4 \<longleftrightarrow> c \<in> {2, 3, 4}"
proof -
  have "1 \<le> n \<and> n \<le> 2 \<longleftrightarrow> n = 1 \<or> n = 2" "2 \<le> n \<and> n \<le> 4 \<longleftrightarrow> n = 2 \<or> n = 3 \<or> n = 4" for n :: nat by auto
  from this(1) [of "unat c"] this(2) [of "unat c"]
  show "(1::u8) \<le> c \<and> c \<le> 2 \<longleftrightarrow> c \<in> {1, 2}" "(2::u8) \<le> c \<and> c \<le> 4 \<longleftrightarrow> c \<in> {2, 3, 4}"
    by (simp_all add: word_le_nat_alt word_unat_eq_iff)
qed

lemma slot_fits: "s \<in> {2, 3, 4} \<Longrightarrow> \<not> al_bits a > s * 8 \<longleftrightarrow> unat (al_bits a) \<le> 8 * unat (s :: u8)"
  using slot_bits [of s] small_words(2) [of s] by (auto simp: not_less word_le_nat_alt)

lemma wire_format_iff:
  "wire_format dev rate bits dsd dop a = Some (uf_sample_rate f, uf_encoding f, uf_bits f) \<longleftrightarrow>
     carries_stream dev rate bits dsd dop a f"
  by (cases "native_encoding dev a") (auto simp: wire_format_def carries_defs)

lemma alternate_format_iff:
  "alternate_format dev rate channels bits dsd dop a = Some f \<longleftrightarrow>
     fits_slot channels a f \<and> clocked a f \<and> carries_stream dev rate bits dsd dop a f"
proof (cases "al_channels a = channels \<and> channels \<in> {1, 2} \<and> al_subslot a \<in> {2, 3, 4}")
  case False
  then have no: "al_channels a \<noteq> channels \<or> channels \<notin> {1, 2} \<or> al_subslot a \<notin> {2, 3, 4}" by blast
  then have "alternate_format dev rate channels bits dsd dop a = None"
    unfolding alternate_format_def small_words by (rule if_P)
  moreover have "\<not> fits_slot channels a f" using no unfolding fits_slot_def by blast
  ultimately show ?thesis by simp
next
  case True
  then have slot: "\<not> al_bits a > al_subslot a * 8 \<longleftrightarrow> unat (al_bits a) \<le> 8 * unat (al_subslot a)" by (intro slot_fits) simp
  have "alternate_format dev rate channels bits dsd dop a = Some f \<longleftrightarrow>
      wire_format dev rate bits dsd dop a = Some (uf_sample_rate f, uf_encoding f, uf_bits f) \<and>
      uf_channels f = channels \<and> uf_subslot f = al_subslot a \<and> unat (al_bits a) \<le> 8 * unat (al_subslot a) \<and> clocked a f"
    using True slot
    by (cases f) (auto simp: alternate_format_def small_words clocked_def word_neq_0_conv split: option.splits if_splits)
  with True show ?thesis by (auto simp: wire_format_iff fits_slot_def)
qed

text \<open>
  C40. The formats offered for a stream are exactly the playable ones: an alternate setting is offered, with a
  format, if and only if it has the asked channels in a slot that its samples fit, a clock or a supported
  rate, and carries the stream - PCM without loss of precision on a PCM alternate, DSD natively on a known
  device, or as DSD over PCM where that is permitted and 24 bits are there. Native DSD comes first, and
  smaller slots before larger ones.
\<close>

theorem offered_formats_are_playable:
  "(\<forall>a f. (a, f) \<in> set (usb_formats dev rate channels bits dsd dop) \<longleftrightarrow>
      a \<in> set (dv_alternates dev) \<and> fits_slot channels a f \<and> clocked a f \<and> carries_stream dev rate bits dsd dop a f) \<and>
   sorted (map (\<lambda>(_, f). format_key f) (usb_formats dev rate channels bits dsd dop))"
proof (rule conjI)
  show "\<forall>a f. (a, f) \<in> set (usb_formats dev rate channels bits dsd dop) \<longleftrightarrow>
      a \<in> set (dv_alternates dev) \<and> fits_slot channels a f \<and> clocked a f \<and> carries_stream dev rate bits dsd dop a f"
    by (simp only: usb_formats_members alternate_format_iff simp_thms)
  show "sorted (map (\<lambda>(_, f). format_key f) (usb_formats dev rate channels bits dsd dop))"
    by (simp add: usb_formats_def)
qed

definition demo_dac :: usb_device where
  "demo_dac = usb_device_default\<lparr>dv_alternates :=
     [alternate_default\<lparr>al_uac2 := True, al_clock := 1, al_channels := 2, al_bits := 32, al_subslot := 4, al_pcm := True\<rparr>,
      alternate_default\<lparr>al_uac2 := True, al_clock := 1, al_channels := 2, al_bits := 24, al_subslot := 3, al_pcm := True\<rparr>]\<rparr>"

theorem offered_formats_are_playable_witness:
  "map (\<lambda>(_, f). uf_subslot f) (usb_formats demo_dac 44100 2 16 False False) = [3, 4] \<and>
   list_all (\<lambda>(a, f). fits_slot 2 a f \<and> clocked a f \<and> carries_pcm demo_dac 44100 16 a f)
     (usb_formats demo_dac 44100 2 16 False False)"
proof (rule conjI)
  show "map (\<lambda>(_, f). uf_subslot f) (usb_formats demo_dac 44100 2 16 False False) = [3, 4]"
    by (simp add: usb_formats_def demo_dac_def usb_device_default_def alternate_default_def alternate_format_def
        wire_format_def native_encoding_def format_key_def List.map_filter_def)
  show "list_all (\<lambda>(a, f). fits_slot 2 a f \<and> clocked a f \<and> carries_pcm demo_dac 44100 16 a f)
      (usb_formats demo_dac 44100 2 16 False False)"
    using offered_formats_are_playable [of demo_dac 44100 2 16 False False]
    by (auto simp: list_all_iff carries_stream_def)
qed

end
