(* ===== verification/Tag_Io.thy ===== *)
theory Tag_Io
  imports Rust_Text
begin

text \<open>
  The streaming layer of the tag code: the readers and writers of \<open>core/src/tags.rs\<close>
  (\<open>CheckedReader\<close>, \<open>read_prefix\<close>, \<open>exact\<close>, \<open>bytes\<close>, \<open>seek\<close>) and of \<open>core/src/tags/write.rs\<close>
  (\<open>copy\<close>, \<open>discard_bytes\<close>, \<open>write_sections\<close>).

  A run works on a source file and a staged output. What the world decides is in \<open>tag_env\<close>: the
  source's bytes, whether the \<open>n\<close>-th access (a read, seek or write, or a bare call of the
  cancellation check) fails and with which message, and how many of the bytes asked for the \<open>n\<close>-th
  read delivers. An error ends the run; the owner then discards the staged output, so an error
  carries no state. Reads and seeks behind the end of a file behave as \<open>std::io\<close> defines them.
\<close>

section \<open>Reading\<close>

record tag_env =
  te_source :: "u8 list"
  te_fault :: "nat \<Rightarrow> string option"
  te_chunk :: "nat \<Rightarrow> nat"

record tag_io =
  tio_pos :: nat
  tio_out :: "u8 list"
  tio_tick :: nat

definition tag_start :: tag_io where
  "tag_start = \<lparr>tio_pos = 0, tio_out = [], tio_tick = 0\<rparr>"

definition io_check :: "tag_env \<Rightarrow> tag_io \<Rightarrow> (string, tag_io) result" where
  "io_check env s =
     (case te_fault env (tio_tick s) of
        Some e \<Rightarrow> Inl e
      | None \<Rightarrow> Inr (s\<lparr>tio_tick := Suc (tio_tick s)\<rparr>))"

text \<open>One call of \<open>Read::read\<close>: no byte at the end of the file, at least one before it.\<close>

definition read_some :: "tag_env \<Rightarrow> nat \<Rightarrow> tag_io \<Rightarrow> (string, u8 list \<times> tag_io) result" where
  "read_some env limit s =
     try_bind (io_check env s) (\<lambda>s'.
       let avail = take limit (drop (tio_pos s) (te_source env));
           n = (if avail = [] then 0 else Suc (te_chunk env (tio_tick s) mod length avail))
       in Inr (take n avail, s'\<lparr>tio_pos := tio_pos s + n\<rparr>))"

definition io_seek :: "tag_env \<Rightarrow> nat \<Rightarrow> tag_io \<Rightarrow> (string, tag_io) result" where
  "io_seek env p s = try_bind (io_check env s) (\<lambda>s. Inr (s\<lparr>tio_pos := p\<rparr>))"

lemma io_checkD: "io_check env s = Inr s' \<Longrightarrow> s' = s\<lparr>tio_tick := Suc (tio_tick s)\<rparr>"
  by (simp add: io_check_def split: option.splits)

lemma io_seekD: "io_seek env p s = Inr s' \<Longrightarrow> tio_pos s' = p \<and> tio_out s' = tio_out s"
  by (auto simp: io_seek_def try_bind_eq_Inr dest!: io_checkD)

lemma read_someD:
  assumes "read_some env limit s = Inr (bs, s')"
  shows "length bs \<le> limit \<and> bs = take (length bs) (drop (tio_pos s) (te_source env)) \<and>
         (bs = [] \<longleftrightarrow> limit = 0 \<or> length (te_source env) \<le> tio_pos s) \<and>
         tio_pos s' = tio_pos s + length bs \<and> tio_out s' = tio_out s"
proof -
  define avail where "avail = take limit (drop (tio_pos s) (te_source env))"
  define n where "n = (if avail = [] then 0 else Suc (te_chunk env (tio_tick s) mod length avail))"
  have bs: "bs = take n avail" and s': "tio_pos s' = tio_pos s + n" "tio_out s' = tio_out s"
    using assms by (auto simp: read_some_def Let_def try_bind_eq_Inr avail_def n_def dest!: io_checkD)
  have n: "n \<le> length avail" "n = 0 \<longleftrightarrow> avail = []" by (auto simp: n_def Suc_le_eq)
  then have len: "length bs = n" using bs by simp
  have "bs = take n (drop (tio_pos s) (te_source env))" "n \<le> limit"
    using bs n(1) by (simp_all add: avail_def min_def split: if_splits)
  moreover have "avail = [] \<longleftrightarrow> limit = 0 \<or> length (te_source env) \<le> tio_pos s" by (simp add: avail_def)
  ultimately show ?thesis using len s' n(2) by auto
qed

text \<open>\<open>exact\<close>: read on until the buffer is full; the flag tells that nothing was read yet.\<close>

function exact_loop :: "tag_env \<Rightarrow> nat \<Rightarrow> bool \<Rightarrow> tag_io \<Rightarrow> (string, u8 list \<times> tag_io) result" where
  "exact_loop env n first s =
     (if n = 0 then Inr ([], s)
      else case read_some env n s of
        Inl e \<Rightarrow> Inl e
      | Inr (bs, s') \<Rightarrow>
          if bs = [] then Inl (if first then ''EOF'' else ''unexpected EOF'')
          else (case exact_loop env (n - length bs) False s' of
                  Inl e \<Rightarrow> Inl e
                | Inr (rest, s'') \<Rightarrow> Inr (bs @ rest, s'')))"
  by pat_completeness auto
termination
  by (relation "measure (\<lambda>(env, n, first, s). n)") auto

declare exact_loop.simps [simp del]

definition io_exact :: "tag_env \<Rightarrow> nat \<Rightarrow> tag_io \<Rightarrow> (string, u8 list \<times> tag_io) result" where
  "io_exact env n s = exact_loop env n True s"

text \<open>\<open>tags::bytes\<close> allocates the buffer and fills it.\<close>

abbreviation io_bytes :: "tag_env \<Rightarrow> nat \<Rightarrow> tag_io \<Rightarrow> (string, u8 list \<times> tag_io) result" where
  "io_bytes \<equiv> io_exact"

lemma exact_loopD:
  "exact_loop env n first s = Inr (bs, s') \<Longrightarrow>
   bs = take n (drop (tio_pos s) (te_source env)) \<and> length bs = n \<and>
   tio_pos s' = tio_pos s + n \<and> tio_out s' = tio_out s"
proof (induction env n first s arbitrary: bs s' rule: exact_loop.induct)
  case (1 env n first s)
  show ?case
  proof (cases "n = 0")
    case True
    then show ?thesis using "1.prems" by (simp add: exact_loop.simps)
  next
    case n: False
    obtain b0 s0 rest where
      r: "read_some env n s = Inr (b0, s0)" and b0: "b0 \<noteq> []"
      and rec: "exact_loop env (n - length b0) False s0 = Inr (rest, s')" and bs: "bs = b0 @ rest"
      using "1.prems" n
      by (subst (asm) exact_loop.simps) (auto split: sum.splits prod.splits if_splits)
    note d = read_someD [OF r]
    note ih = "1.IH" [OF n r refl b0 rec]
    have "bs = take (length b0) (drop (tio_pos s) (te_source env)) @
               take (n - length b0) (drop (length b0) (drop (tio_pos s) (te_source env)))"
      using d ih bs by (simp add: add.commute)
    also have "\<dots> = take n (drop (tio_pos s) (te_source env))"
      using d by (metis le_add_diff_inverse take_add)
    finally have "bs = take n (drop (tio_pos s) (te_source env))" .
    moreover have "length bs = n" unfolding bs length_append using conjunct1 [OF d] conjunct1 [OF conjunct2 [OF ih]] by linarith
    ultimately show ?thesis using d ih by simp
  qed
qed

lemma io_exactD:
  assumes "io_exact env n s = Inr (bs, s')"
  shows "bs = take n (drop (tio_pos s) (te_source env))" "length bs = n"
    "tio_pos s' = tio_pos s + n" "tio_out s' = tio_out s"
  using exact_loopD assms by (auto simp: io_exact_def)

text \<open>\<open>read_prefix\<close>: as much of the buffer as the file has from the offset.\<close>

function prefix_loop :: "tag_env \<Rightarrow> nat \<Rightarrow> tag_io \<Rightarrow> (string, u8 list \<times> tag_io) result" where
  "prefix_loop env n s =
     (if n = 0 then Inr ([], s)
      else case read_some env n s of
        Inl e \<Rightarrow> Inl e
      | Inr (bs, s') \<Rightarrow>
          if bs = [] then Inr ([], s')
          else (case prefix_loop env (n - length bs) s' of
                  Inl e \<Rightarrow> Inl e
                | Inr (rest, s'') \<Rightarrow> Inr (bs @ rest, s'')))"
  by pat_completeness auto
termination
  by (relation "measure (\<lambda>(env, n, s). n)") auto

declare prefix_loop.simps [simp del]

definition read_prefix :: "tag_env \<Rightarrow> nat \<Rightarrow> nat \<Rightarrow> tag_io \<Rightarrow> (string, u8 list \<times> tag_io) result" where
  "read_prefix env offset n s = try_bind (io_seek env offset s) (prefix_loop env n)"

text \<open>\<open>discard_bytes\<close>: read and forget, in pieces of at most 64 KiB, with a check before each.\<close>

function discard_loop :: "tag_env \<Rightarrow> nat \<Rightarrow> bool \<Rightarrow> tag_io \<Rightarrow> (string, tag_io) result" where
  "discard_loop env n first s =
     (if n = 0 then Inr s
      else case io_check env s of
        Inl e \<Rightarrow> Inl e
      | Inr s0 \<Rightarrow>
          (case read_some env (min n 65536) s0 of
             Inl e \<Rightarrow> Inl e
           | Inr (bs, s') \<Rightarrow>
               if bs = [] then Inl (if first then ''EOF'' else ''unexpected EOF'')
               else discard_loop env (n - length bs) False s'))"
  by pat_completeness auto
termination
  by (relation "measure (\<lambda>(env, n, first, s). n)") auto

declare discard_loop.simps [simp del]

definition discard_bytes :: "tag_env \<Rightarrow> nat \<Rightarrow> tag_io \<Rightarrow> (string, tag_io) result" where
  "discard_bytes env n s = discard_loop env n True s"

lemma discard_loopD:
  "discard_loop env n first s = Inr s' \<Longrightarrow> tio_pos s \<le> length (te_source env) \<or> n = 0 \<Longrightarrow>
   tio_pos s' = tio_pos s + n \<and> tio_out s' = tio_out s \<and> (tio_pos s + n \<le> length (te_source env) \<or> n = 0)"
proof (induction env n first s arbitrary: s' rule: discard_loop.induct)
  case (1 env n first s)
  show ?case
  proof (cases "n = 0")
    case True
    then show ?thesis using "1.prems" by (simp add: discard_loop.simps)
  next
    case n: False
    obtain s0 b1 s1 where
      c: "io_check env s = Inr s0" and r: "read_some env (min n 65536) s0 = Inr (b1, s1)" and b1: "b1 \<noteq> []"
      and rec: "discard_loop env (n - length b1) False s1 = Inr s'"
      using "1.prems" n
      by (subst (asm) discard_loop.simps) (auto split: sum.splits prod.splits if_splits)
    note c' = io_checkD [OF c] and d = read_someD [OF r]
    have inside: "tio_pos s + length b1 \<le> length (te_source env)" "length b1 \<le> n"
      using d c' b1 by (auto dest!: arg_cong [where f = length and x = b1])
    with "1.IH" [OF n c r refl b1 rec] d c' show ?thesis by auto
  qed
qed

section \<open>Writing\<close>

definition io_write :: "tag_env \<Rightarrow> u8 list \<Rightarrow> tag_io \<Rightarrow> (string, tag_io) result" where
  "io_write env bs s = try_bind (io_check env s) (\<lambda>s. Inr (s\<lparr>tio_out := tio_out s @ bs\<rparr>))"

text \<open>The bytes of a section go out in \<open>chunks(65536)\<close>, with a check before each.\<close>

function write_chunks :: "tag_env \<Rightarrow> u8 list \<Rightarrow> tag_io \<Rightarrow> (string, tag_io) result" where
  "write_chunks env bs s =
     (if bs = [] then Inr s
      else case io_check env s of
        Inl e \<Rightarrow> Inl e
      | Inr s0 \<Rightarrow>
          (case io_write env (take 65536 bs) s0 of
             Inl e \<Rightarrow> Inl e
           | Inr s1 \<Rightarrow> write_chunks env (drop 65536 bs) s1))"
  by pat_completeness auto
termination
  by (relation "measure (\<lambda>(env, bs, s). length bs)") auto

declare write_chunks.simps [simp del]

text \<open>
  \<open>copy\<close>: \<open>remaining\<close> bytes, or all that is left. Every turn of the loop moves the position
  towards the end of the source or leaves the loop.
\<close>

function copy_loop :: "tag_env \<Rightarrow> nat option \<Rightarrow> tag_io \<Rightarrow> (string, tag_io) result" where
  "copy_loop env remaining s =
     (case io_check env s of
        Inl e \<Rightarrow> Inl e
      | Inr s0 \<Rightarrow>
          (let limit = (case remaining of None \<Rightarrow> 65536 | Some n \<Rightarrow> min n 65536) in
           if limit = 0 then io_check env s0
           else case read_some env limit s0 of
             Inl e \<Rightarrow> Inl e
           | Inr (bs, s1) \<Rightarrow>
               if bs = [] then
                 (if remaining \<noteq> None then Inl ''unexpected EOF while copying audio'' else io_check env s1)
               else (case io_write env bs s1 of
                       Inl e \<Rightarrow> Inl e
                     | Inr s2 \<Rightarrow> copy_loop env (map_option (\<lambda>n. n - length bs) remaining) s2)))"
  by pat_completeness auto
termination
proof (relation "measure (\<lambda>(env, remaining, s). length (te_source env) - tio_pos s)", simp)
  fix env remaining and s s0 s1 s2 :: tag_io and limit r bs
  assume "io_check env s = Inr s0" "read_some env limit s0 = Inr r" "(bs, s1) = r" "bs \<noteq> []"
    "io_write env bs s1 = Inr s2"
  then have "tio_pos s0 = tio_pos s" "tio_pos s2 = tio_pos s0 + length bs" "tio_pos s0 < length (te_source env)"
    by (auto simp: io_write_def try_bind_eq_Inr dest!: io_checkD read_someD)
  with \<open>bs \<noteq> []\<close> show "((env, map_option (\<lambda>n. n - length bs) remaining, s2), env, remaining, s)
      \<in> measure (\<lambda>(env, remaining, s). length (te_source env) - tio_pos s)" by (cases bs) auto
qed

declare copy_loop.simps [simp del]

record file_section =
  sec_start :: nat
  sec_end :: nat
  sec_data :: "u8 list"

fun sections_ordered :: "nat \<Rightarrow> file_section list \<Rightarrow> bool" where
  "sections_ordered reached [] = True"
| "sections_ordered reached (x # xs) =
     (reached \<le> sec_start x \<and> sec_start x \<le> sec_end x \<and> sections_ordered (sec_end x) xs)"

fun splice_sections :: "tag_env \<Rightarrow> nat \<Rightarrow> file_section list \<Rightarrow> tag_io \<Rightarrow> (string, tag_io) result" where
  "splice_sections env reached [] s = copy_loop env None s"
| "splice_sections env reached (x # xs) s =
     try_bind (copy_loop env (Some (sec_start x - reached)) s) (\<lambda>s.
     try_bind (write_chunks env (sec_data x) s) (\<lambda>s.
     try_bind (io_seek env (sec_end x) s) (\<lambda>s.
       splice_sections env (sec_end x) xs s)))"

definition write_sections :: "tag_env \<Rightarrow> file_section list \<Rightarrow> tag_io \<Rightarrow> (string, tag_io) result" where
  "write_sections env sections s =
     (let sections = sort_key sec_start sections in
      if \<not> sections_ordered 0 sections then Inl ''overlapping or invalid file sections''
      else try_bind (io_seek env 0 s) (\<lambda>s. splice_sections env 0 sections s))"

text \<open>\<open>write_optional_sections\<close>: no section means that the output is not touched.\<close>

definition write_optional_sections ::
  "tag_env \<Rightarrow> file_section list \<Rightarrow> tag_io \<Rightarrow> (string, bool \<times> tag_io) result" where
  "write_optional_sections env sections s =
     (if sections = [] then try_bind (io_check env s) (\<lambda>s. Inr (False, s))
      else try_bind (write_sections env sections s) (\<lambda>s. Inr (True, s)))"

section \<open>What is written\<close>

lemma io_writeD: "io_write env bs s = Inr s' \<Longrightarrow> tio_pos s' = tio_pos s \<and> tio_out s' = tio_out s @ bs"
  by (auto simp: io_write_def try_bind_eq_Inr dest!: io_checkD)

lemma write_chunksD:
  "write_chunks env bs s = Inr s' \<Longrightarrow> tio_pos s' = tio_pos s \<and> tio_out s' = tio_out s @ bs"
proof (induction env bs s arbitrary: s' rule: write_chunks.induct)
  case (1 env bs s)
  show ?case
  proof (cases "bs = []")
    case True
    then show ?thesis using "1.prems" by (simp add: write_chunks.simps)
  next
    case ne: False
    obtain s0 s1 where c: "io_check env s = Inr s0" and w: "io_write env (take 65536 bs) s0 = Inr s1"
      and rec: "write_chunks env (drop 65536 bs) s1 = Inr s'"
      using "1.prems" ne by (subst (asm) write_chunks.simps) (auto split: sum.splits)
    then show ?thesis using "1.IH" [OF ne c w rec] io_checkD [OF c] io_writeD [OF w] by simp
  qed
qed

lemma copy_loopD:
  "copy_loop env remaining s = Inr s' \<Longrightarrow>
   (case remaining of
      None \<Rightarrow> tio_out s' = tio_out s @ drop (tio_pos s) (te_source env)
    | Some n \<Rightarrow> tio_out s' = tio_out s @ take n (drop (tio_pos s) (te_source env)) \<and>
               (n \<noteq> 0 \<longrightarrow> tio_pos s + n \<le> length (te_source env)))"
proof (induction env remaining s arbitrary: s' rule: copy_loop.induct)
  case (1 env remaining s)
  note step = "1.prems" [unfolded copy_loop.simps [of env remaining s]]
  obtain s0 where c: "io_check env s = Inr s0" using step by (auto split: sum.splits)
  note s0 = io_checkD [OF c]
  define limit where "limit = (case remaining of None \<Rightarrow> 65536 | Some n \<Rightarrow> min n (65536 :: nat))"
  show ?case
  proof (cases "limit = 0")
    case True
    then show ?thesis using step c s0
      by (auto simp: limit_def dest!: io_checkD split: option.splits)
  next
    case limit: False
    obtain bs s1 where r: "read_some env limit s0 = Inr (bs, s1)"
      using step c limit by (auto simp: limit_def Let_def split: sum.splits)
    note d = read_someD [OF r]
    show ?thesis
    proof (cases "bs = []")
      case True
      then have "remaining = None" "io_check env s1 = Inr s'"
        using step c limit r unfolding limit_def [symmetric] Let_def by (simp_all split: if_splits)
      then show ?thesis using d True limit s0 by (auto dest!: io_checkD)
    next
      case ne: False
      obtain s2 where w: "io_write env bs s1 = Inr s2"
        and rec: "copy_loop env (map_option (\<lambda>n. n - length bs) remaining) s2 = Inr s'"
        using step c limit r ne unfolding limit_def [symmetric] Let_def by (auto split: sum.splits)
      note ih = "1.IH" [OF c limit_def limit r refl ne w rec]
      have s2: "tio_pos s2 = tio_pos s + length bs" "tio_out s2 = tio_out s @ bs"
        using d s0 io_writeD [OF w] by simp_all
      show ?thesis
      proof (cases remaining)
        case None
        with ih s2 d s0 show ?thesis
          by simp (metis add.commute append_take_drop_id drop_drop)
      next
        case (Some n)
        then have le: "length bs \<le> n" using d limit_def by simp
        have inside: "tio_pos s + length bs \<le> length (te_source env)"
          using d s0 ne by (auto dest!: arg_cong [where f = length and x = bs])
        have "take n (drop (tio_pos s) (te_source env)) =
              bs @ take (n - length bs) (drop (tio_pos s2) (te_source env))"
          using d s0 s2 le take_add [of "length bs" "n - length bs" "drop (tio_pos s) (te_source env)"]
          by (simp add: add.commute)
        with ih s2 Some inside show ?thesis by auto
      qed
    qed
  qed
qed

text \<open>
  What \<open>write_sections\<close> promises: the source with each section's bytes in place of its range,
  everything outside the ranges unchanged.
\<close>

fun spliced :: "u8 list \<Rightarrow> nat \<Rightarrow> file_section list \<Rightarrow> u8 list" where
  "spliced src reached [] = drop reached src"
| "spliced src reached (x # xs) =
     take (sec_start x - reached) (drop reached src) @ sec_data x @ spliced src (sec_end x) xs"

lemma splice_sectionsD:
  "splice_sections env reached xs s = Inr s' \<Longrightarrow> tio_pos s = reached \<Longrightarrow>
   tio_out s' = tio_out s @ spliced (te_source env) reached xs"
proof (induction env reached xs s arbitrary: s' rule: splice_sections.induct)
  case (1 env reached s)
  then show ?case using copy_loopD [of env None s s'] by simp
next
  case (2 env reached x xs s)
  then obtain s0 s1 s2 where
    c: "copy_loop env (Some (sec_start x - reached)) s = Inr s0" and w: "write_chunks env (sec_data x) s0 = Inr s1"
    and k: "io_seek env (sec_end x) s1 = Inr s2" and rec: "splice_sections env (sec_end x) xs s2 = Inr s'"
    by (auto simp: try_bind_eq_Inr)
  with "2.IH" [OF rec] copy_loopD [OF c] write_chunksD [OF w] io_seekD [OF k] "2.prems"(2)
  show ?case by simp
qed

lemma write_sectionsD:
  assumes "write_sections env xs s = Inr s'"
  shows "sections_ordered 0 (sort_key sec_start xs) \<and>
         tio_out s' = tio_out s @ spliced (te_source env) 0 (sort_key sec_start xs)"
  using assms by (auto simp: write_sections_def Let_def try_bind_eq_Inr dest!: io_seekD splice_sectionsD split: if_splits)

section \<open>Runs without failures\<close>

text \<open>With no failing access the readers return whenever the bytes are there.\<close>

definition quiet :: "tag_env \<Rightarrow> bool" where
  "quiet env \<longleftrightarrow> (\<forall>n. te_fault env n = None)"

lemma quiet_check: "quiet env \<Longrightarrow> io_check env s = Inr (s\<lparr>tio_tick := Suc (tio_tick s)\<rparr>)"
  by (simp add: quiet_def io_check_def)

lemma quiet_seek: "quiet env \<Longrightarrow> \<exists>s'. io_seek env p s = Inr s'"
  by (simp add: io_seek_def quiet_check)

lemma quiet_read: "quiet env \<Longrightarrow> \<exists>r. read_some env n s = Inr r"
  by (simp add: read_some_def quiet_check)

lemma quiet_exact_loop:
  "quiet env \<Longrightarrow> tio_pos s + n \<le> length (te_source env) \<Longrightarrow> \<exists>r. exact_loop env n first s = Inr r"
proof (induction env n first s rule: exact_loop.induct)
  case (1 env n first s)
  show ?case
  proof (cases "n = 0")
    case True
    then show ?thesis by (simp add: exact_loop.simps)
  next
    case n: False
    obtain bs s' where r: "read_some env n s = Inr (bs, s')" using quiet_read [OF "1.prems"(1)] by force
    note d = read_someD [OF r]
    have ne: "bs \<noteq> []" using d n "1.prems"(2) by auto
    have "tio_pos s' + (n - length bs) \<le> length (te_source env)" using d "1.prems"(2) by simp
    with "1.IH" [OF n r refl ne "1.prems"(1)] obtain rest where "exact_loop env (n - length bs) False s' = Inr rest"
      by blast
    then show ?thesis using r ne n by (cases rest) (simp add: exact_loop.simps [of env n])
  qed
qed

lemma quiet_exact:
  assumes "quiet env" "tio_pos s + n \<le> length (te_source env)"
  obtains bs s' where "io_exact env n s = Inr (bs, s')"
  using quiet_exact_loop [OF assms] by (force simp: io_exact_def)

lemma quiet_write_chunks: "quiet env \<Longrightarrow> \<exists>s'. write_chunks env bs s = Inr s'"
proof (induction env bs s rule: write_chunks.induct)
  case (1 env bs s)
  then show ?case
    by (subst write_chunks.simps) (simp add: quiet_check io_write_def)
qed

lemma quiet_copy_loop:
  "quiet env \<Longrightarrow> (\<And>n. remaining = Some n \<Longrightarrow> tio_pos s + n \<le> length (te_source env)) \<Longrightarrow>
   \<exists>s'. copy_loop env remaining s = Inr s'"
proof (induction env remaining s rule: copy_loop.induct)
  case (1 env remaining s)
  define s0 where "s0 = s\<lparr>tio_tick := Suc (tio_tick s)\<rparr>"
  have c: "io_check env s = Inr s0" using "1.prems"(1) by (simp add: quiet_check s0_def)
  define limit where "limit = (case remaining of None \<Rightarrow> 65536 | Some n \<Rightarrow> min n (65536 :: nat))"
  obtain bs s1 where r: "read_some env limit s0 = Inr (bs, s1)" using quiet_read [OF "1.prems"(1)] by force
  note d = read_someD [OF r]
  obtain s2 where w: "io_write env bs s1 = Inr s2" using "1.prems"(1) by (simp add: io_write_def quiet_check)
  note step = copy_loop.simps [of env remaining s, unfolded limit_def [symmetric] Let_def]
  consider "limit = 0" | "limit \<noteq> 0" "bs = []" | "limit \<noteq> 0" "bs \<noteq> []" by blast
  then show ?case
  proof cases
    case 1
    then show ?thesis using step c \<open>quiet env\<close> by (simp add: quiet_check)
  next
    case 2
    then have "length (te_source env) \<le> tio_pos s" using d by (simp add: s0_def)
    with "1.prems"(2) 2(1) have "remaining = None" by (cases remaining) (force simp: limit_def)+
    then show ?thesis using step c 2 r \<open>quiet env\<close> by (simp add: quiet_check)
  next
    case 3
    have "tio_pos s2 = tio_pos s + length bs" "length bs \<le> limit"
      using d io_writeD [OF w] by (simp_all add: s0_def)
    then have "tio_pos s2 + n \<le> length (te_source env)"
      if "map_option (\<lambda>n. n - length bs) remaining = Some n" for n
      using that "1.prems"(2) by (auto simp: limit_def)
    with "1.IH" [OF c limit_def 3(1) r refl 3(2) w "1.prems"(1)]
    obtain s' where "copy_loop env (map_option (\<lambda>n. n - length bs) remaining) s2 = Inr s'" by blast
    then show ?thesis using step c 3 r w by simp
  qed
qed

end
