(* ===== verification/Case_Mapping.thy ===== *)
theory Case_Mapping
  imports Rust_Text
begin

text \<open>
  \<open>core/src/matching.rs\<close> (\<open>lowercase\<close>, \<open>uppercase\<close>) and \<open>core/src/text.rs\<close> (\<open>utf8\<close>). A \<open>str\<close> is
  its UTF-8 bytes; \<open>utf8_chars\<close> and \<open>encode_char\<close> are \<open>str::chars\<close> and \<open>String::push\<close>. The
  Unicode tables behind \<open>char::to_uppercase\<close> and \<open>char::to_lowercase\<close> are the parameters \<open>up\<close>
  and \<open>low\<close>; the two facts the tag code relies on are collected in \<open>case_table\<close>.
\<close>

section \<open>Characters of a text\<close>

definition low6 :: "u8 \<Rightarrow> nat" where
  "low6 b = unat b mod 64"

fun code_point :: "u8 list \<Rightarrow> nat" where
  "code_point [a] = unat a"
| "code_point [a, b] = unat a mod 32 * 64 + low6 b"
| "code_point [a, b, c] = unat a mod 16 * 4096 + low6 b * 64 + low6 c"
| "code_point [a, b, c, d] = unat a mod 8 * 262144 + low6 b * 4096 + low6 c * 64 + low6 d"
| "code_point _ = 0"

function utf8_chars :: "u8 list \<Rightarrow> nat list" where
  "utf8_chars bs =
     (if bs = [] then []
      else case utf8_head bs of None \<Rightarrow> [] | Some n \<Rightarrow> code_point (take n bs) # utf8_chars (drop n bs))"
  by pat_completeness auto
termination
  by (relation "measure length") (auto dest!: utf8_head_bounds)

declare utf8_chars.simps [simp del]

definition cont_byte :: "nat \<Rightarrow> u8" where
  "cont_byte n = word_of_nat (128 + n mod 64)"

definition encode_char :: "nat \<Rightarrow> u8 list" where
  "encode_char c =
     (if c < 0x80 then [word_of_nat c]
      else if c < 0x800 then [word_of_nat (192 + c div 64), cont_byte c]
      else if c < 0x10000 then [word_of_nat (224 + c div 4096), cont_byte (c div 64), cont_byte c]
      else [word_of_nat (240 + c div 262144), cont_byte (c div 4096), cont_byte (c div 64), cont_byte c])"

section \<open>Case mapping\<close>

definition between :: "nat \<Rightarrow> nat \<Rightarrow> nat \<Rightarrow> bool" where
  "between a b c \<longleftrightarrow> a \<le> c \<and> c \<le> b"

definition lower_char :: "(nat \<Rightarrow> nat list) \<Rightarrow> nat \<Rightarrow> nat" where
  "lower_char low ch =
     (if ch \<in> {0x1c89, 0xa7cb, 0xa7cc, 0xa7ce, 0xa7d2, 0xa7d4, 0xa7da, 0xa7dc} \<or>
         between 0x10d50 0x10d65 ch \<or> between 0x16ea0 0x16eb8 ch
      then ch else hd (low ch))"

definition lowercase :: "(nat \<Rightarrow> nat list) \<Rightarrow> string \<Rightarrow> string" where
  "lowercase low s = of_bytes (concat (map (\<lambda>c. encode_char (lower_char low c)) (utf8_chars (as_bytes s))))"

definition upper_char :: "(nat \<Rightarrow> nat list) \<Rightarrow> nat \<Rightarrow> nat" where
  "upper_char up ch =
     (if ch \<in> {0x019b, 0x0264, 0x1c8a, 0xa7cd, 0xa7cf, 0xa7d3, 0xa7d5, 0xa7db} \<or>
         between 0x10d70 0x10d85 ch \<or> between 0x16ebb 0x16ed3 ch then ch
      else if between 0x1f80 0x1f87 ch \<or> between 0x1f90 0x1f97 ch \<or> between 0x1fa0 0x1fa7 ch then ch + 8
      else if ch = 0x1fb3 then 0x1fbc
      else if ch = 0x1fc3 then 0x1fcc
      else if ch = 0x1ff3 then 0x1ffc
      else case up ch of [first] \<Rightarrow> first | _ \<Rightarrow> ch)"

definition uppercase :: "(nat \<Rightarrow> nat list) \<Rightarrow> string \<Rightarrow> string" where
  "uppercase up s = of_bytes (concat (map (\<lambda>c. encode_char (upper_char up c)) (utf8_chars (as_bytes s))))"

text \<open>
  What the tag code relies on of \<open>char::to_uppercase\<close>: ASCII letters map to ASCII capitals, the
  other ASCII characters and the replacement character map to themselves.
\<close>

definition case_table :: "(nat \<Rightarrow> nat list) \<Rightarrow> bool" where
  "case_table up \<longleftrightarrow>
     (\<forall>c < 128. up c = [if between 97 122 c then c - 32 else c]) \<and> up 0xFFFD = [0xFFFD]"

section \<open>Decoding byte by byte\<close>

text \<open>\<open>text::utf8\<close>: each malformed byte becomes one U+FFFD of its own.\<close>

definition replacement :: "u8 list" where
  "replacement = [0xEF, 0xBF, 0xBD]"

function utf8_bytes :: "u8 list \<Rightarrow> u8 list" where
  "utf8_bytes bs =
     (if bs = [] then []
      else case utf8_head bs of
             Some n \<Rightarrow> take n bs @ utf8_bytes (drop n bs)
           | None \<Rightarrow> replacement @ utf8_bytes (drop 1 bs))"
  by pat_completeness auto
termination
  by (relation "measure length") (auto dest!: utf8_head_bounds)

declare utf8_bytes.simps [simp del]

definition utf8 :: "u8 list \<Rightarrow> string" where
  "utf8 bs = of_bytes (utf8_bytes bs)"

section \<open>Lemmas\<close>

lemma utf8_head_take:
  "utf8_head bs = Some n \<Longrightarrow> utf8_head (take n bs @ r) = Some n"
  by (cases bs rule: utf8_head.cases) (auto split: if_splits list.splits)

lemma utf8_chars_Nil [simp]: "utf8_chars [] = []"
  by (simp add: utf8_chars.simps)

lemma utf8_chars_ascii: "\<forall>b \<in> set bs. b < 0x80 \<Longrightarrow> utf8_chars bs = map unat bs"
proof (induction bs)
  case (Cons b bs)
  then have "utf8_head (b # bs) = Some 1" by simp
  with Cons show ?case by (simp add: utf8_chars.simps [of "b # bs"])
qed simp

lemma valid_utf8_induct [consumes 1, case_names Nil Step]:
  assumes "valid_utf8 bs" and "P []"
    and "\<And>bs n. bs \<noteq> [] \<Longrightarrow> utf8_head bs = Some n \<Longrightarrow> valid_utf8 (drop n bs) \<Longrightarrow> P (drop n bs) \<Longrightarrow> P bs"
  shows "P bs"
  using assms(1)
proof (induction bs rule: valid_utf8.induct)
  case (1 bs)
  show ?case
  proof (cases "bs = []")
    case True
    then show ?thesis using assms(2) by simp
  next
    case False
    with "1.prems" obtain n where n: "utf8_head bs = Some n" "valid_utf8 (drop n bs)"
      by (subst (asm) valid_utf8.simps) (auto split: option.splits)
    with "1.IH" [OF False] False show ?thesis by (auto intro: assms(3))
  qed
qed

lemma utf8_bytes_valid: "valid_utf8 bs \<Longrightarrow> utf8_bytes bs = bs"
  by (induction rule: valid_utf8_induct) (simp_all add: utf8_bytes.simps)

lemma utf8_lossy_valid: "valid_utf8 bs \<Longrightarrow> utf8_lossy_bytes bs = bs"
  by (induction rule: valid_utf8_induct) (simp_all add: utf8_lossy_bytes.simps)

lemma utf8_as_bytes: "valid_utf8 (as_bytes s) \<Longrightarrow> utf8 (as_bytes s) = s"
  by (simp add: utf8_def utf8_bytes_valid)

lemma utf8_bytes_malformed: "\<not> valid_utf8 bs \<Longrightarrow> 0xFFFD \<in> set (utf8_chars (utf8_bytes bs))"
proof (induction bs rule: utf8_bytes.induct)
  case (1 bs)
  then have ne: "bs \<noteq> []" by auto
  show ?case
  proof (cases "utf8_head bs")
    case None
    have "utf8_head (replacement @ r) = Some 3" for r by (simp add: replacement_def is_cont_def)
    then show ?thesis using ne None
      by (simp add: utf8_bytes.simps [of bs] utf8_chars.simps [of "replacement @ _"])
         (simp add: replacement_def low6_def)
  next
    case (Some n)
    with "1.prems" have "\<not> valid_utf8 (drop n bs)" by (simp add: valid_utf8_step)
    then have "0xFFFD \<in> set (utf8_chars (utf8_bytes (drop n bs)))" using "1.IH"(2) [OF ne Some] by simp
    moreover have "n \<le> length bs" "take n bs \<noteq> []" using utf8_head_bounds [OF Some] by auto
    ultimately show ?thesis using ne Some utf8_head_take [OF Some]
      by (simp add: utf8_bytes.simps [of bs] utf8_chars.simps [of "take n bs @ _"])
  qed
qed

lemma uppercase_malformed:
  assumes "case_table up" "\<not> valid_utf8 bs" "is_ascii name"
  shows "uppercase up (utf8 bs) \<noteq> name"
proof
  assume eq: "uppercase up (utf8 bs) = name"
  have "upper_char up 0xFFFD = 0xFFFD" using assms(1) by (simp add: upper_char_def case_table_def between_def)
  moreover have "(0xEF :: u8) \<in> set (encode_char 0xFFFD)" by (simp add: encode_char_def)
  ultimately have "\<exists>c \<in> set (utf8_chars (utf8_bytes bs)). 0xEF \<in> set (encode_char (upper_char up c))"
    using utf8_bytes_malformed [OF assms(2)] by metis
  then have "0xEF \<in> set (as_bytes name)" using eq by (auto simp: uppercase_def utf8_def)
  then obtain c where "c \<in> set name" "(0xEF :: u8) = word_of_nat (byte_of c)" by (auto simp: as_bytes_def)
  moreover from this(2) have "unat (0xEF :: u8) = byte_of c" by (simp only: unat_of_nat) simp
  ultimately show False using assms(3) by (auto simp: is_ascii_def list_all_iff)
qed

definition upper_key :: "string \<Rightarrow> bool" where
  "upper_key s \<longleftrightarrow> list_all (\<lambda>c. byte_of c < 128 \<and> \<not> is_ascii_lowercase c \<and> c \<noteq> CHR ''='') s \<and> s \<noteq> []"

lemma upper_key_ascii: "upper_key s \<Longrightarrow> is_ascii s"
  by (auto simp: upper_key_def is_ascii_def list_all_iff)

lemma uppercase_upper_key:
  assumes "case_table up" "upper_key s"
  shows "uppercase up s = s"
proof -
  have up: "encode_char (upper_char up (byte_of c)) = [word_of_nat (byte_of c)]" if "c \<in> set s" for c
  proof -
    have "byte_of c < 128" "\<not> between 97 122 (byte_of c)"
      using assms(2) that by (auto simp: upper_key_def list_all_iff is_ascii_lowercase_def between_def)
    then show ?thesis using assms(1) by (simp add: case_table_def upper_char_def between_def encode_char_def)
  qed
  have "utf8_chars (as_bytes s) = map byte_of s"
    by (subst utf8_chars_ascii)
       (use assms(2) in \<open>auto simp: upper_key_def list_all_iff as_bytes_def word_less_nat_alt unat_of_nat\<close>)
  then have "concat (map (\<lambda>c. encode_char (upper_char up c)) (utf8_chars (as_bytes s))) = as_bytes s"
    using up by (simp add: as_bytes_def comp_def concat_map_singleton cong: map_cong)
  then show ?thesis by (simp add: uppercase_def)
qed

end
