(* ===== verification/Vorbis_Comments.thy ===== *)
theory Vorbis_Comments
  imports Case_Mapping BTree_Map
begin

text \<open>
  Vorbis comments as the tag code reads and edits them: \<open>core/src/tags/comments.rs\<close> (\<open>parse\<close>,
  \<open>joined\<close>, \<open>flac\<close>), the shared readers \<open>number\<close>, \<open>pair\<close> and \<open>truthy\<close> of \<open>core/src/tags.rs\<close>, the
  comment editor of \<open>core/src/tags/write.rs\<close> (\<open>parse_comments\<close>, \<open>put_string\<close>, \<open>set_comment\<close>,
  \<open>get_comment\<close>, \<open>edit_comments\<close>, \<open>edit_index\<close>), the artist rules of \<open>core/src/tags/write/artists.rs\<close>
  and \<open>core/src/tags/separators.rs\<close>, and \<open>valid_comments\<close> of \<open>core/src/tags/containers.rs\<close>.

  A comment is its bytes; a key or a value that came out of the decoder is text. The Unicode case
  tables and the two artist patterns, which the \<open>regex\<close> crate splits with, are the fields of
  \<open>tag_text\<close>. The pattern of \<open>format_metadata_tag_value\<close> needs no parameter: splitting at a comma
  or semicolon with the white space around it and then trimming each part is splitting at the
  character and trimming.
\<close>

section \<open>Values\<close>

record tag_text =
  tt_upper :: "nat \<Rightarrow> nat list"
  tt_lower :: "nat \<Rightarrow> nat list"
  tt_primary :: "string \<Rightarrow> string list"
  tt_artists :: "string \<Rightarrow> string list"

type_synonym tag_fields = "(string, string) btmap"

record audio_metadata =
  am_title :: string
  am_artist :: string
  am_album :: string
  am_album_artist :: string
  am_genre :: string
  am_year :: string
  am_date :: string
  am_track_number :: int
  am_total_tracks :: int
  am_disc_number :: int
  am_total_discs :: int
  am_isrc :: string
  am_lyrics :: string
  am_label :: string
  am_copyright :: string
  am_composer :: string
  am_comment :: string
  am_album_type :: string
  am_explicit :: bool
  am_upc :: string
  am_track_gain :: string
  am_track_peak :: string
  am_album_gain :: string
  am_album_peak :: string

definition metadata_default :: audio_metadata where
  "metadata_default =
     \<lparr>am_title = [], am_artist = [], am_album = [], am_album_artist = [], am_genre = [], am_year = [],
      am_date = [], am_track_number = 0, am_total_tracks = 0, am_disc_number = 0, am_total_discs = 0,
      am_isrc = [], am_lyrics = [], am_label = [], am_copyright = [], am_composer = [], am_comment = [],
      am_album_type = [], am_explicit = False, am_upc = [], am_track_gain = [], am_track_peak = [],
      am_album_gain = [], am_album_peak = []\<rparr>"

text \<open>\<open>number\<close>: a text that does not fit saturates, anything else that is no number is zero.\<close>

definition tag_number :: "string \<Rightarrow> int" where
  "tag_number s =
     (case parse_i64 (trim s) of
        Inr v \<Rightarrow> v
      | Inl PosOverflow \<Rightarrow> 2 ^ 63 - 1
      | Inl NegOverflow \<Rightarrow> - (2 ^ 63)
      | Inl IntInvalid \<Rightarrow> 0)"

definition tag_pair :: "string \<Rightarrow> int \<times> int" where
  "tag_pair s =
     (let s = trim s in
      case find_char (CHR ''/'') s of
        Some (Suc i) \<Rightarrow> (tag_number (take (Suc i) s), tag_number (drop (Suc (Suc i)) s))
      | _ \<Rightarrow> (tag_number s, 0))"

definition truthy :: "string \<Rightarrow> bool" where
  "truthy s \<longleftrightarrow> to_ascii_lowercase (trim s) \<in> {''1'', ''true'', ''yes'', ''explicit''}"

fun join_str :: "string \<Rightarrow> string list \<Rightarrow> string" where
  "join_str sep [] = []"
| "join_str sep [w] = w"
| "join_str sep (w # ws) = w @ sep @ join_str sep ws"

section \<open>Reading a comment block\<close>

text \<open>\<open><[u8]>::get\<close> with a range.\<close>

definition slice_get :: "'a list \<Rightarrow> nat \<Rightarrow> nat \<Rightarrow> 'a list option" where
  "slice_get data a b = (if a \<le> b \<and> b \<le> length data then Some (take (b - a) (drop a data)) else None)"

definition eq_sign :: u8 where
  "eq_sign = 0x3D"

definition comments_header :: "u8 list \<Rightarrow> (nat \<times> nat) option" where
  "comments_header data =
     Option.bind (slice_get data 0 4) (\<lambda>vendor.
     Option.bind (checked_add (u32_from_le_bytes vendor) 8) (\<lambda>end.
     Option.bind (slice_get data (end - 4) end) (\<lambda>c. Some (end, u32_from_le_bytes c))))"

text \<open>The iterator of \<open>parse\<close>, run to its end: \<open>count\<close> comments from \<open>offset\<close> on.\<close>

fun parse_items :: "u8 list \<Rightarrow> nat \<Rightarrow> nat \<Rightarrow> nat \<Rightarrow> (string \<times> string) list" where
  "parse_items data max_comment 0 offset = []"
| "parse_items data max_comment (Suc c) offset =
     (case slice_get data offset (saturating_add offset 4) of
        None \<Rightarrow> []
      | Some len \<Rightarrow>
          (let len = u32_from_le_bytes len; offset = offset + 4 in
           case slice_get data offset (saturating_add offset len) of
             None \<Rightarrow> []
           | Some val \<Rightarrow>
               (case (if len \<le> max_comment then position (\<lambda>b. b = eq_sign) val else None) of
                  Some i \<Rightarrow> (utf8 (take i val), utf8 (drop (Suc i) val)) #
                            parse_items data max_comment c (offset + len)
                | None \<Rightarrow> parse_items data max_comment c (offset + len))))"

definition comments_parse :: "u8 list \<Rightarrow> nat \<Rightarrow> (string \<times> string) list" where
  "comments_parse data max_comment =
     (case comments_header data of
        None \<Rightarrow> []
      | Some (offset, c) \<Rightarrow> parse_items data max_comment c offset)"

text \<open>\<open>valid_comments\<close>: the reader skips a block whose last comment is empty and ends the block.\<close>

fun valid_items :: "u8 list \<Rightarrow> nat \<Rightarrow> nat \<Rightarrow> bool" where
  "valid_items data 0 offset = True"
| "valid_items data (Suc c) offset =
     (case slice_get data offset (saturating_add offset 4) of
        None \<Rightarrow> False
      | Some len \<Rightarrow>
          (let len = u32_from_le_bytes len; offset = saturating_add (saturating_add offset 4) len in
           if offset > length data \<or> len = 0 \<and> offset = length data then False
           else valid_items data c offset))"

definition valid_comments :: "u8 list \<Rightarrow> bool" where
  "valid_comments data =
     (case comments_header data of None \<Rightarrow> False | Some (offset, c) \<Rightarrow> valid_items data c offset)"

fun first_seen :: "(nat \<Rightarrow> nat list) \<Rightarrow> string list \<Rightarrow> string list \<Rightarrow> string list" where
  "first_seen low seen [] = []"
| "first_seen low seen (w # ws) =
     (if w = [] then first_seen low seen ws
      else let k = lowercase low w in
           if k \<in> set seen then first_seen low seen ws else w # first_seen low (k # seen) ws)"

definition joined :: "tag_text \<Rightarrow> string list \<Rightarrow> string" where
  "joined tx items = join_str '', '' (first_seen (tt_lower tx) [] (map trim items))"

text \<open>The closures \<open>all\<close> and \<open>get\<close> of \<open>comments::flac\<close>.\<close>

definition item_values :: "tag_text \<Rightarrow> (string \<times> string) list \<Rightarrow> string \<Rightarrow> string list" where
  "item_values tx items name =
     map snd (filter (\<lambda>(k, _). length k = length name \<and> uppercase (tt_upper tx) k = name) items)"

definition first_value :: "string list \<Rightarrow> string" where
  "first_value vs = (case vs of [] \<Rightarrow> [] | v # _ \<Rightarrow> v)"

definition first_text :: "(string \<Rightarrow> bool) \<Rightarrow> string list \<Rightarrow> string" where
  "first_text p vs = (case List.find p vs of None \<Rightarrow> [] | Some v \<Rightarrow> v)"

text \<open>The loop over \<open>[TRACKNUMBER, TRACK]\<close> and \<open>[DISCNUMBER, DISC]\<close>: the alias counts while the number is zero.\<close>

definition index_of_tags :: "string \<Rightarrow> string \<Rightarrow> int \<times> int \<Rightarrow> int \<times> int" where
  "index_of_tags main alias start =
     (let r = (if main = [] then start else tag_pair main) in
      if fst r \<noteq> 0 \<or> alias = [] then r else tag_pair alias)"

definition flac_metadata ::
  "tag_text \<Rightarrow> (string \<Rightarrow> string list) \<Rightarrow> audio_metadata \<Rightarrow> audio_metadata" where
  "flac_metadata tx all md =
     (let get = (\<lambda>name. first_value (all name));
          date = get ''DATE''; album_type = get ''RELEASETYPE''; upc = get ''BARCODE'';
          track = index_of_tags (get ''TRACKNUMBER'') (get ''TRACK'') (am_track_number md, am_total_tracks md);
          disc = index_of_tags (get ''DISCNUMBER'') (get ''DISC'') (am_disc_number md, am_total_discs md)
      in \<lparr>am_title = get ''TITLE'',
          am_artist = joined tx (all ''ARTIST''),
          am_album = get ''ALBUM'',
          am_album_artist = first_text (\<lambda>v. v \<noteq> [])
            (map (\<lambda>name. joined tx (all name)) [''ALBUMARTIST'', ''ALBUM ARTIST'', ''ALBUM_ARTIST'']),
          am_genre = get ''GENRE'',
          am_year = am_year md,
          am_date = (if date = [] then get ''YEAR'' else date),
          am_track_number = fst track, am_total_tracks = snd track,
          am_disc_number = fst disc, am_total_discs = snd disc,
          am_isrc = get ''ISRC'',
          am_lyrics = first_text (\<lambda>v. trim v \<noteq> []) (map get [''LYRICS'', ''UNSYNCEDLYRICS'', ''SYNCEDLYRICS'']),
          am_label = first_text (\<lambda>v. v \<noteq> []) (map get [''ORGANIZATION'', ''LABEL'', ''PUBLISHER'']),
          am_copyright = get ''COPYRIGHT'',
          am_composer = get ''COMPOSER'',
          am_comment = get ''COMMENT'',
          am_album_type = (if album_type = [] \<and> truthy (get ''COMPILATION'') then ''compilation'' else album_type),
          am_explicit = truthy (get ''ITUNESADVISORY''),
          am_upc = (if upc = [] then get ''UPC'' else upc),
          am_track_gain = get ''REPLAYGAIN_TRACK_GAIN'',
          am_track_peak = get ''REPLAYGAIN_TRACK_PEAK'',
          am_album_gain = get ''REPLAYGAIN_ALBUM_GAIN'',
          am_album_peak = get ''REPLAYGAIN_ALBUM_PEAK''\<rparr>)"

definition comments_flac :: "tag_text \<Rightarrow> audio_metadata \<Rightarrow> (string \<times> string) list \<Rightarrow> audio_metadata" where
  "comments_flac tx md items = flac_metadata tx (item_values tx items) md"

section \<open>Artists and separators\<close>

text \<open>\<open>encode_utf16().count()\<close>: characters behind the basic plane take two units.\<close>

definition utf16_count :: "string \<Rightarrow> nat" where
  "utf16_count s = sum_list (map (\<lambda>c. if 0x10000 \<le> c then 2 else 1) (utf8_chars (as_bytes s)))"

definition valid_separator :: "string \<Rightarrow> bool" where
  "valid_separator s \<longleftrightarrow> s \<noteq> [] \<and> utf16_count s \<le> 16 \<and> \<not> list_ex (\<lambda>c. byte_of c \<le> 0x1f \<or> byte_of c = 0x7f) s"

definition format_metadata_tag_value :: "string \<Rightarrow> string \<Rightarrow> string" where
  "format_metadata_tag_value s separator =
     (if \<not> valid_separator separator then s
      else join_str separator
        (filter (\<lambda>p. p \<noteq> []) (map trim (split_by (\<lambda>c. c = CHR '','' \<or> c = CHR '';'') s))))"

definition primary_artist_mode :: "string \<Rightarrow> bool" where
  "primary_artist_mode mode = eq_ignore_ascii_case (trim mode) ''primary''"

definition primary_artist :: "tag_text \<Rightarrow> string \<Rightarrow> string" where
  "primary_artist tx s =
     (let s = trim s in
      case List.find (\<lambda>p. p \<noteq> []) (map trim (tt_primary tx s)) of None \<Rightarrow> s | Some p \<Rightarrow> p)"

definition separator_key :: "string \<Rightarrow> string option" where
  "separator_key key =
     (if key \<in> {''ARTIST'', ''artist''} then Some ''artist_separator''
      else if key \<in> {''ALBUMARTIST'', ''album_artist''} then Some ''album_artist_separator''
      else if key \<in> {''COMPOSER'', ''composer''} then Some ''composer_separator''
      else if key \<in> {''GENRE'', ''genre''} then Some ''genre_separator''
      else None)"

definition tag_separator :: "tag_fields \<Rightarrow> string \<Rightarrow> string" where
  "tag_separator fs key =
     (case separator_key key of
        None \<Rightarrow> []
      | Some k \<Rightarrow>
          (case bt_get fs k of
             Some v \<Rightarrow> if valid_separator v then v else []
           | None \<Rightarrow> []))"

definition artist_keys :: "string list" where
  "artist_keys = [''artist'', ''album_artist'', ''composer'', ''genre'']"

definition artist_mode_field :: "tag_text \<Rightarrow> bool \<Rightarrow> string \<Rightarrow> tag_fields \<Rightarrow> tag_fields" where
  "artist_mode_field tx primary key fs =
     (case bt_get fs key of
        None \<Rightarrow> fs
      | Some v \<Rightarrow>
          (let v = (if primary \<and> key \<in> {''artist'', ''album_artist''} \<and> trim v \<noteq> [] then primary_artist tx v else v)
           in bt_insert key (format_metadata_tag_value v (tag_separator fs key)) fs))"

definition artist_mode_fields :: "tag_text \<Rightarrow> tag_fields \<Rightarrow> tag_fields" where
  "artist_mode_fields tx fs =
     (let primary = (case bt_get fs ''artist_tag_mode'' of None \<Rightarrow> False | Some mode \<Rightarrow> primary_artist_mode mode) in
      if \<not> primary \<and> list_all (\<lambda>key. tag_separator fs key = []) artist_keys then fs
      else fold (artist_mode_field tx primary) artist_keys fs)"

definition split_artists :: "tag_text \<Rightarrow> string \<Rightarrow> string list" where
  "split_artists tx s =
     (let s = trim s in
      if s = [] then []
      else let parts = first_seen (tt_lower tx) [] (map trim (tt_artists tx s)) in
           if parts = [] then [s] else parts)"

section \<open>Editing a comment block\<close>

type_synonym comment = "u8 list"

text \<open>
  The cursor of \<open>parse_comments\<close>: the bytes read so far only move it, so it is the rest of the block.
  \<open>exact\<close> on a cursor fails with \<open>EOF\<close> when nothing is left and with \<open>unexpected EOF\<close> otherwise.
\<close>

definition cursor_exact :: "nat \<Rightarrow> u8 list \<Rightarrow> (string, u8 list \<times> u8 list) result" where
  "cursor_exact n rest =
     (if n \<le> length rest then Inr (take n rest, drop n rest)
      else Inl (if rest = [] then ''EOF'' else ''unexpected EOF''))"

definition cursor_string :: "u8 list \<Rightarrow> (string, u8 list \<times> u8 list) result" where
  "cursor_string rest =
     try_bind (cursor_exact 4 rest) (\<lambda>(len, rest).
       let len = u32_from_le_bytes len in
       if len > length rest then Inl ''truncated Vorbis comment'' else cursor_exact len rest)"

fun cursor_comments :: "nat \<Rightarrow> u8 list \<Rightarrow> (string, comment list) result" where
  "cursor_comments 0 rest = Inr []"
| "cursor_comments (Suc c) rest =
     try_bind (cursor_string rest) (\<lambda>(x, rest).
     try_bind (cursor_comments c rest) (\<lambda>xs. Inr (x # xs)))"

definition parse_comments :: "u8 list \<Rightarrow> (string, u8 list \<times> comment list) result" where
  "parse_comments data =
     try_bind (cursor_string data) (\<lambda>(vendor, rest).
     try_bind (cursor_exact 4 rest) (\<lambda>(c, rest).
     try_bind (cursor_comments (u32_from_le_bytes c) rest) (\<lambda>comments. Inr (vendor, comments))))"

definition put_string :: "u8 list \<Rightarrow> u8 list" where
  "put_string data = u32_to_le_bytes (length data) @ data"

definition put_comments :: "u8 list \<Rightarrow> comment list \<Rightarrow> u8 list" where
  "put_comments vendor comments =
     put_string vendor @ u32_to_le_bytes (length comments) @ concat (map put_string comments)"

definition comment_key :: "tag_text \<Rightarrow> comment \<Rightarrow> string" where
  "comment_key tx c =
     (case position (\<lambda>b. b = eq_sign) c of
        Some (Suc i) \<Rightarrow> uppercase (tt_upper tx) (of_bytes (utf8_lossy_bytes (take (Suc i) c)))
      | _ \<Rightarrow> [])"

definition comment_of :: "string \<Rightarrow> string \<Rightarrow> comment" where
  "comment_of key v = as_bytes (key @ ''='' @ v)"

definition set_comment :: "tag_text \<Rightarrow> string \<Rightarrow> string \<Rightarrow> comment list \<Rightarrow> comment list" where
  "set_comment tx key v comments =
     filter (\<lambda>c. comment_key tx c \<noteq> key) comments @ (if v = [] then [] else [comment_of key v])"

text \<open>
  \<open>comment[key.len() + 1..]\<close>: the raw key in front of the equals sign is at least as long as its
  ASCII upper case, so the slice starts inside the comment.
\<close>

definition get_comment :: "tag_text \<Rightarrow> comment list \<Rightarrow> string \<Rightarrow> string" where
  "get_comment tx comments key =
     (case List.find (\<lambda>c. comment_key tx c = key) comments of
        None \<Rightarrow> []
      | Some c \<Rightarrow> of_bytes (utf8_lossy_bytes (drop (length key + 1) c)))"

definition set_tag_field :: "tag_text \<Rightarrow> tag_fields \<Rightarrow> string \<times> string \<Rightarrow> comment list \<Rightarrow> comment list" where
  "set_tag_field tx fs fk comments =
     (case bt_get fs (fst fk) of None \<Rightarrow> comments | Some v \<Rightarrow> set_comment tx (snd fk) v comments)"

definition plain_fields :: "(string \<times> string) list" where
  "plain_fields =
     [(''title'', ''TITLE''), (''album'', ''ALBUM''), (''date'', ''DATE''), (''isrc'', ''ISRC''),
      (''genre'', ''GENRE''), (''label'', ''ORGANIZATION''), (''copyright'', ''COPYRIGHT''),
      (''composer'', ''COMPOSER''), (''comment'', ''COMMENT''), (''explicit'', ''ITUNESADVISORY''),
      (''album_type'', ''RELEASETYPE''), (''upc'', ''BARCODE''), (''barcode'', ''BARCODE''),
      (''compilation'', ''COMPILATION''),
      (''replaygain_track_gain'', ''REPLAYGAIN_TRACK_GAIN''),
      (''replaygain_track_peak'', ''REPLAYGAIN_TRACK_PEAK''),
      (''replaygain_album_gain'', ''REPLAYGAIN_ALBUM_GAIN''),
      (''replaygain_album_peak'', ''REPLAYGAIN_ALBUM_PEAK'')]"

definition clear_aliases :: "tag_text \<Rightarrow> tag_fields \<Rightarrow> string \<times> string list \<Rightarrow> comment list \<Rightarrow> comment list" where
  "clear_aliases tx fs fa comments =
     (if bt_get fs (fst fa) \<noteq> None then fold (\<lambda>key. set_comment tx key []) (snd fa) comments else comments)"

definition alias_fields :: "(string \<times> string list) list" where
  "alias_fields = [(''label'', [''LABEL'', ''PUBLISHER'']), (''date'', [''YEAR''])]"

definition artist_values :: "tag_text \<Rightarrow> tag_fields \<Rightarrow> string \<Rightarrow> string \<Rightarrow> string list" where
  "artist_values tx fs field v =
     (if (case bt_get fs ''artist_tag_mode'' of
            None \<Rightarrow> False | Some mode \<Rightarrow> eq_ignore_ascii_case (trim mode) ''split_vorbis'') \<and>
         tag_separator fs field = []
      then split_artists tx v else [v])"

definition set_artists :: "tag_text \<Rightarrow> tag_fields \<Rightarrow> string \<times> string \<Rightarrow> comment list \<Rightarrow> comment list" where
  "set_artists tx fs fk comments =
     (case bt_get fs (fst fk) of
        None \<Rightarrow> comments
      | Some v \<Rightarrow>
          (let comments = set_comment tx (snd fk) [] comments @
                 map (comment_of (snd fk)) (filter (\<lambda>w. trim w \<noteq> []) (artist_values tx fs (fst fk) v))
           in if fst fk = ''album_artist''
              then fold (\<lambda>key. set_comment tx key []) [''ALBUM ARTIST'', ''ALBUM_ARTIST''] comments
              else comments))"

definition field_number :: "tag_fields \<Rightarrow> string \<Rightarrow> int \<Rightarrow> int" where
  "field_number fs key current =
     (case bt_get fs key of
        None \<Rightarrow> current
      | Some v \<Rightarrow> (case parse_i64 (trim v) of Inr n \<Rightarrow> n | Inl _ \<Rightarrow> 0))"

definition edit_index :: "int \<times> int \<Rightarrow> tag_fields \<Rightarrow> string \<Rightarrow> string \<Rightarrow> string" where
  "edit_index current fs key total_key =
     (let number = field_number fs key (fst current); tot = field_number fs total_key (snd current) in
      if number \<le> 0 then []
      else if tot > 0 then show_nat (nat number) @ ''/'' @ show_nat (nat tot)
      else show_nat (nat number))"

definition current_index :: "tag_text \<Rightarrow> comment list \<Rightarrow> string \<Rightarrow> string \<Rightarrow> int \<times> int" where
  "current_index tx comments key alias =
     (let current = tag_pair (get_comment tx comments key) in
      if current = (0, 0) then tag_pair (get_comment tx comments alias) else current)"

definition set_index ::
  "tag_text \<Rightarrow> tag_fields \<Rightarrow> string \<Rightarrow> string \<Rightarrow> string \<Rightarrow> string \<Rightarrow> comment list \<Rightarrow> comment list" where
  "set_index tx fs field tot key alias comments =
     (if bt_get fs field \<noteq> None \<or> bt_get fs tot \<noteq> None then
        set_comment tx alias []
          (set_comment tx key (edit_index (current_index tx comments key alias) fs field tot) comments)
      else comments)"

definition set_lyrics :: "tag_text \<Rightarrow> tag_fields \<Rightarrow> comment list \<Rightarrow> comment list" where
  "set_lyrics tx fs comments =
     (case bt_get fs ''lyrics'' of
        None \<Rightarrow> comments
      | Some v \<Rightarrow>
          set_comment tx ''UNSYNCEDLYRICS'' v
            (set_comment tx ''LYRICS'' v (set_comment tx ''SYNCEDLYRICS'' [] comments)))"

definition edit_comments :: "tag_text \<Rightarrow> tag_fields \<Rightarrow> comment list \<Rightarrow> comment list" where
  "edit_comments tx fs comments =
     set_lyrics tx fs
       (set_index tx fs ''disc_number'' ''disc_total'' ''DISCNUMBER'' ''DISC''
         (set_index tx fs ''track_number'' ''track_total'' ''TRACKNUMBER'' ''TRACK''
           (fold (set_artists tx fs) [(''artist'', ''ARTIST''), (''album_artist'', ''ALBUMARTIST'')]
             (fold (clear_aliases tx fs) alias_fields
               (fold (set_tag_field tx fs) plain_fields comments)))))"

text \<open>
  The enrichment loop of \<open>flac_header\<close> (its \<open>embed_mode\<close>): canonical keys, no clearing of empty
  values.
\<close>

definition embed_comment :: "tag_text \<Rightarrow> tag_fields \<Rightarrow> string \<Rightarrow> string \<times> string \<Rightarrow> comment list \<Rightarrow> comment list" where
  "embed_comment tx fs mode kv comments =
     (let key = fst kv; v = snd kv in
      if v = [] \<or> ends_with key ''_separator'' then comments
      else let separator = tag_separator fs key in
        if key \<in> {''ARTIST'', ''ALBUMARTIST''} then
          (let vals =
             (if eq_ignore_ascii_case (trim mode) ''split_vorbis'' \<and> separator = [] then split_artists tx v
              else if primary_artist_mode mode then [primary_artist tx v]
              else [format_metadata_tag_value v separator])
           in if vals = [] then comments
              else set_comment tx key [] comments @ map (comment_of key) (filter (\<lambda>w. trim w \<noteq> []) vals))
        else set_comment tx key (format_metadata_tag_value v separator) comments)"

definition embed_comments :: "tag_text \<Rightarrow> tag_fields \<Rightarrow> string \<Rightarrow> comment list \<Rightarrow> comment list" where
  "embed_comments tx fs mode comments = fold (embed_comment tx fs mode) fs comments"

end
