(* ===== verification/Flac_Tags.thy ===== *)
theory Flac_Tags
  imports Tag_Io Vorbis_Comments
begin

text \<open>
  FLAC files: the reader of \<open>core/src/tags/containers.rs\<close> (\<open>flac_start\<close>, \<open>flac_inner\<close>,
  \<open>flac_with_cover\<close>, \<open>flac_cover\<close>, \<open>picture_block\<close>) and the writer of \<open>core/src/tags/write.rs\<close>
  (\<open>flac_header\<close>, \<open>picture\<close>, the \<open>flac\<close> path of \<open>rewrite_audio_tags\<close>,
  \<open>rewrite_flac_tags_if_changed\<close>, \<open>embed_flac_metadata\<close>). The \<open>image\<close> crate is the parameter
  \<open>image_lib\<close>; the pixels it passes around are of a type of their own.
\<close>

unbundle bit_operations_syntax

section \<open>The start of the stream\<close>

definition max_tag_bytes :: nat where
  "max_tag_bytes = 64 * 1024 * 1024"

definition id3_magic :: "u8 list" where
  "id3_magic = as_bytes ''ID3''"

definition flac_magic :: "u8 list" where
  "flac_magic = as_bytes ''fLaC''"

definition syncsafe :: "u8 list \<Rightarrow> nat" where
  "syncsafe d =
     push_bit 21 (unat (d ! 0)) OR push_bit 14 (unat (d ! 1)) OR push_bit 7 (unat (d ! 2)) OR unat (d ! 3)"

definition v2_tag_length :: "u8 list \<Rightarrow> nat option" where
  "v2_tag_length header =
     (if length header < 10 \<or> take 3 header \<noteq> id3_magic \<or> list_ex (\<lambda>b. b \<ge> 128) (take 4 (drop 6 header)) then None
      else let footer = (if header ! 5 AND 0x10 \<noteq> 0 then 10 else 0) in
           Some (10 + syncsafe (take 4 (drop 6 header)) + footer))"

definition flac_start :: "tag_env \<Rightarrow> tag_io \<Rightarrow> (string, nat \<times> tag_io) result" where
  "flac_start env s =
     try_bind (io_exact env 4 s) (\<lambda>(signature, s).
     try_bind
       (if take 3 signature = id3_magic then
          try_bind (io_exact env 6 s) (\<lambda>(rest, s).
          try_bind (ok_or ''invalid ID3v2 header before fLaC'' (v2_tag_length (signature @ rest))) (\<lambda>start.
          try_bind (io_seek env start s) (\<lambda>s.
          try_bind (io_exact env 4 s) (\<lambda>(signature, s). Inr (start, signature, s)))))
        else Inr (0, signature, s)) (\<lambda>(start, signature, s).
       if signature \<noteq> flac_magic then Inl ''fLaC head incorrect'' else Inr (start, s)))"

definition frame_sync :: "u8 list \<Rightarrow> bool" where
  "frame_sync sync \<longleftrightarrow> sync ! 0 = 0xff \<and> drop_bit 2 (sync ! 1) = 0x3e"

section \<open>Reading\<close>

record cover_art =
  ca_data :: "u8 list"
  ca_mime :: string

text \<open>
  \<open>picture_block\<close>. The cursor is the rest of the block; a seek may move it behind the end, where the
  next read finds nothing. Every error makes the result \<open>None\<close>.
\<close>

definition cursor_u32 :: "u8 list \<Rightarrow> (string, nat \<times> u8 list) result" where
  "cursor_u32 rest = try_bind (cursor_exact 4 rest) (\<lambda>(b, rest). Inr (be_number b, rest))"

definition picture_block :: "u8 list \<Rightarrow> bool \<Rightarrow> (nat \<times> cover_art) option" where
  "picture_block data ogg_limits = ok (
     try_bind (cursor_u32 data) (\<lambda>(kind, rest).
     try_bind (cursor_u32 rest) (\<lambda>(mime_length, rest).
     if mime_length > length data - 8 \<or> ogg_limits \<and> mime_length > 256 then Inl ''invalid picture MIME length'' else
     try_bind (cursor_exact mime_length rest) (\<lambda>(mime, rest).
     try_bind (cursor_u32 rest) (\<lambda>(description, rest).
     if ogg_limits \<and> description > 10000 then Inl ''invalid picture description length'' else
     try_bind (cursor_u32 (drop (description + 16) rest)) (\<lambda>(len, rest).
     if len = 0 \<or> len > length rest \<or> ogg_limits \<and> len > max_tag_bytes then Inl ''invalid picture data length'' else
     try_bind (cursor_exact len rest) (\<lambda>(d, rest). Inr (kind, \<lparr>ca_data = d, ca_mime = utf8 mime\<rparr>))))))))"

record flac_scan =
  fsc_metadata :: audio_metadata
  fsc_found :: bool
  fsc_front :: bool
  fsc_cover :: "cover_art option"

definition block_kind :: "u8 list \<Rightarrow> u8" where
  "block_kind header = header ! 0 AND 0x7f"

definition block_last :: "u8 list \<Rightarrow> bool" where
  "block_last header \<longleftrightarrow> header ! 0 AND 0x80 \<noteq> 0"

definition block_length :: "u8 list \<Rightarrow> nat" where
  "block_length header = be_number [0, header ! 1, header ! 2, header ! 3]"

definition take_comments :: "tag_text \<Rightarrow> u8 list \<Rightarrow> flac_scan \<Rightarrow> flac_scan" where
  "take_comments tx data sc =
     (if valid_comments data
      then sc\<lparr>fsc_metadata := comments_flac tx (fsc_metadata sc) (comments_parse data u64_max), fsc_found := True\<rparr>
      else sc)"

definition take_picture :: "u8 list \<Rightarrow> flac_scan \<Rightarrow> flac_scan" where
  "take_picture data sc =
     (case picture_block data False of
        Some (kind, picture) \<Rightarrow>
          if kind = 3 \<or> fsc_cover sc = None then sc\<lparr>fsc_front := (kind = 3), fsc_cover := Some picture\<rparr> else sc
      | None \<Rightarrow> sc)"

text \<open>
  One turn of the block loop of \<open>flac_inner\<close>: the scan so far, whether this was the last block, and
  the reader behind the block.
\<close>

definition flac_block ::
  "tag_text \<Rightarrow> bool \<Rightarrow> tag_env \<Rightarrow> nat \<Rightarrow> flac_scan \<Rightarrow> tag_io \<Rightarrow> (string, flac_scan \<times> bool \<times> tag_io) result" where
  "flac_block tx want env end sc s =
     try_bind (io_exact env 4 s) (\<lambda>(header, s).
       let len = block_length header; here = tio_pos s in
       if here + len > end then Inl (if here = end then ''EOF'' else ''unexpected EOF'')
       else if block_kind header = 4 \<and> \<not> fsc_found sc then
         try_bind (io_bytes env len s) (\<lambda>(data, s). Inr (take_comments tx data sc, block_last header, s))
       else if block_kind header = 6 \<and> \<not> fsc_front sc \<and> want then
         try_bind (io_bytes env len s) (\<lambda>(data, s). Inr (take_picture data sc, block_last header, s))
       else try_bind (io_seek env (here + len) s) (\<lambda>s. Inr (sc, block_last header, s)))"

lemma io_exact_inside:
  assumes "io_exact env n s = Inr (bs, s')" "0 < n"
  shows "tio_pos s + n \<le> length (te_source env)"
  using io_exactD(1,2) [OF assms(1)] assms(2) by (auto dest!: arg_cong [where f = length and x = bs])

lemma flac_block_progress:
  assumes "flac_block tx want env end sc s = Inr (sc', final, s')"
  shows "tio_pos s < tio_pos s' \<and> tio_pos s < length (te_source env)"
proof -
  obtain h s0 where h: "io_exact env 4 s = Inr (h, s0)" using assms by (auto simp: flac_block_def try_bind_eq_Inr)
  have "tio_pos s0 = tio_pos s + 4" "tio_pos s + 4 \<le> length (te_source env)"
    using io_exactD(3) [OF h] io_exact_inside [OF h] by simp_all
  moreover have "tio_pos s0 \<le> tio_pos s'"
    using assms h by (auto simp: flac_block_def try_bind_eq_Inr Let_def dest!: io_exactD(3) io_seekD split: if_splits)
  ultimately show ?thesis by simp
qed

function flac_loop ::
  "tag_text \<Rightarrow> bool \<Rightarrow> tag_env \<Rightarrow> nat \<Rightarrow> flac_scan \<Rightarrow> tag_io \<Rightarrow> (string, flac_scan \<times> tag_io) result" where
  "flac_loop tx want env end sc s =
     (case flac_block tx want env end sc s of
        Inl e \<Rightarrow> Inl e
      | Inr (sc', final, s') \<Rightarrow>
          if final then
            try_bind (io_exact env 2 s') (\<lambda>(sync, s').
              if frame_sync sync then Inr (sc', s') else Inl ''frames do not begin with sync code'')
          else flac_loop tx want env end sc' s')"
  by pat_completeness auto
termination
proof (relation "measure (\<lambda>(tx, want, env, end, sc, s). length (te_source env) - tio_pos s)", simp)
  fix tx want env "end" sc s r sc' p final s'
  assume "flac_block tx want env end sc s = Inr r" "(sc', p) = r" "(final, s') = p"
  then have "flac_block tx want env end sc s = Inr (sc', final, s')" by simp
  from flac_block_progress [OF this]
  show "((tx, want, env, end, sc', s'), tx, want, env, end, sc, s) \<in>
      measure (\<lambda>(tx, want, env, end, sc, s). length (te_source env) - tio_pos s)" by auto
qed

declare flac_loop.simps [simp del]

definition scan_start :: flac_scan where
  "scan_start = \<lparr>fsc_metadata = metadata_default, fsc_found = False, fsc_front = False, fsc_cover = None\<rparr>"

definition flac_inner :: "tag_text \<Rightarrow> bool \<Rightarrow> tag_env \<Rightarrow> tag_io \<Rightarrow> (string, flac_scan \<times> tag_io) result" where
  "flac_inner tx want env s =
     try_bind (flac_start env s) (\<lambda>(start, s).
     try_bind (io_seek env (length (te_source env)) s) (\<lambda>s.
       let end = tio_pos s in
       try_bind (io_seek env (start + 4) s) (\<lambda>s. flac_loop tx want env end scan_start s)))"

definition flac_error :: "string \<Rightarrow> string" where
  "flac_error e = ''failed to parse FLAC file: '' @ e"

definition map_err :: "('e \<Rightarrow> 'f) \<Rightarrow> ('e, 'a) result \<Rightarrow> ('f, 'a) result" where
  "map_err f r = (case r of Inl e \<Rightarrow> Inl (f e) | Inr x \<Rightarrow> Inr x)"

definition flac_with_cover :: "tag_text \<Rightarrow> tag_env \<Rightarrow> tag_io \<Rightarrow> (string, audio_metadata \<times> cover_art option \<times> tag_io) result" where
  "flac_with_cover tx env s =
     try_bind (map_err flac_error (flac_inner tx True env s)) (\<lambda>(sc, s).
       Inr (fsc_metadata sc,
            map_option (\<lambda>c. c\<lparr>ca_mime :=
              if length (ca_data c) > 8 \<and> take 3 (drop 1 (ca_data c)) = as_bytes ''PNG'' then ''image/png''
              else ''image/jpeg''\<rparr>) (fsc_cover sc), s))"

definition flac_cover :: "tag_text \<Rightarrow> tag_env \<Rightarrow> tag_io \<Rightarrow> (string, cover_art \<times> tag_io) result" where
  "flac_cover tx env s =
     try_bind (flac_with_cover tx env s) (\<lambda>(md, cover, s).
     try_bind (ok_or ''no cover art found in file'' cover) (\<lambda>c. Inr (c, s)))"

text \<open>
  \<open>read_audio_tags\<close> on the format \<open>flac\<close>, which names one container only. When the parser fails the code asks
  \<open>check\<close> once more and answers its error instead, if it has one; the model keeps no state behind an error and
  answers the error of the parser. Either way the read fails.
\<close>

definition read_flac_tags :: "tag_text \<Rightarrow> tag_env \<Rightarrow> tag_io \<Rightarrow> (string, audio_metadata \<times> tag_io) result" where
  "read_flac_tags tx env s =
     try_bind (io_check env s) (\<lambda>s.
     try_bind (io_seek env 0 s) (\<lambda>s.
     try_bind (map_err flac_error (flac_inner tx False env s)) (\<lambda>(sc, s).
     try_bind (io_check env s) (\<lambda>s. Inr (fsc_metadata sc, s)))))"

section \<open>Writing\<close>

type_synonym flac_blocks = "(u8 \<times> u8 list) list"

text \<open>
  The block loop of \<open>flac_header\<close>. With replacement artwork (\<open>drop_pictures\<close>) the payload of an
  old picture is read, so that a truncated file is noticed, and not kept.
\<close>

function read_blocks ::
  "tag_env \<Rightarrow> bool \<Rightarrow> flac_blocks \<Rightarrow> nat \<Rightarrow> tag_io \<Rightarrow> (string, flac_blocks \<times> tag_io) result" where
  "read_blocks env drop_pictures blocks tot s =
     (if length blocks \<ge> 65536 then try_bind (io_check env s) (\<lambda>s. Inl ''FLAC metadata block count exceeds 65536'')
      else
        try_bind (io_check env s) (\<lambda>s.
        try_bind (io_bytes env 4 s) (\<lambda>(h, s).
          let len = block_length h; tot = tot + len + 4; kind = block_kind h in
          if tot > max_tag_bytes then Inl ''FLAC metadata exceeds 64 MiB''
          else
            try_bind
              (if kind = 6 \<and> drop_pictures
               then try_bind (discard_bytes env len s) (\<lambda>s. Inr ([], s))
               else io_bytes env len s) (\<lambda>(data, s).
              let blocks = blocks @ [(kind, data)] in
              if block_last h then Inr (blocks, s) else read_blocks env drop_pictures blocks tot s))))"
  by pat_completeness auto
termination
  by (relation "measure (\<lambda>(env, dp, blocks, tot, s). 65536 - length blocks)") auto

declare read_blocks.simps [simp del]

record 'img image_lib =
  im_guess :: "u8 list \<Rightarrow> string option"
  im_decode :: "u8 list \<Rightarrow> 'img option"
  im_jpeg :: "nat \<Rightarrow> 'img \<Rightarrow> u8 list option"
  im_resize :: "nat \<Rightarrow> 'img \<Rightarrow> 'img"
  im_dimensions :: "u8 list \<Rightarrow> (nat \<times> nat) option"

definition cover_limit :: nat where
  "cover_limit = 16000000"

definition bytes_start :: "u8 list \<Rightarrow> u8 list \<Rightarrow> bool" where
  "bytes_start data p \<longleftrightarrow> take (length p) data = p"

definition cover_mime :: "u8 list \<Rightarrow> string" where
  "cover_mime data =
     (if bytes_start data [0x89, 0x50, 0x4e, 0x47, 0x0d, 0x0a, 0x1a, 0x0a] then ''image/png''
      else if bytes_start data [0xff, 0xd8, 0xff] then ''image/jpeg''
      else if bytes_start data (as_bytes ''GIF87a'') \<or> bytes_start data (as_bytes ''GIF89a'') then ''image/gif''
      else if length data \<ge> 12 \<and> take 4 data = as_bytes ''RIFF'' \<and> take 4 (drop 8 data) = as_bytes ''WEBP'' then ''image/webp''
      else ''image/jpeg'')"

text \<open>The two search loops of \<open>picture\<close>: the first encoding that is small enough, a check before each try.\<close>

fun first_fitting ::
  "tag_env \<Rightarrow> (nat \<Rightarrow> u8 list option) \<Rightarrow> nat list \<Rightarrow> tag_io \<Rightarrow> (string, u8 list option \<times> tag_io) result" where
  "first_fitting env encode [] s = Inr (None, s)"
| "first_fitting env encode (q # qs) s =
     try_bind (io_check env s) (\<lambda>s.
       case encode q of
         Some d \<Rightarrow> if length d \<le> cover_limit then Inr (Some d, s) else first_fitting env encode qs s
       | None \<Rightarrow> first_fitting env encode qs s)"

definition shrink_cover ::
  "'img image_lib \<Rightarrow> tag_env \<Rightarrow> 'img \<Rightarrow> tag_io \<Rightarrow> (string, u8 list option \<times> tag_io) result" where
  "shrink_cover img env im s =
     try_bind (first_fitting env (\<lambda>q. im_jpeg img q im) [90, 80, 70, 60] s) (\<lambda>(d, s).
       if d \<noteq> None then Inr (d, s)
       else first_fitting env (\<lambda>n. im_jpeg img 85 (im_resize img n im)) [1500, 1200, 1000, 800] s)"

definition picture_bytes :: "string \<Rightarrow> nat \<times> nat \<times> nat \<Rightarrow> u8 list \<Rightarrow> u8 list" where
  "picture_bytes mime dims data =
     be_bytes4 3 @
     concat (map (\<lambda>v. be_bytes4 (length v) @ as_bytes v) [mime, ''Front Cover'']) @
     concat (map be_bytes4 [fst dims, fst (snd dims), snd (snd dims), 0, length data]) @ data"

definition guess_ok :: "'img image_lib \<Rightarrow> u8 list \<Rightarrow> (string, unit) result" where
  "guess_ok img data = (case im_guess img data of Some e \<Rightarrow> Inl e | None \<Rightarrow> Inr ())"

definition picture ::
  "'img image_lib \<Rightarrow> tag_env \<Rightarrow> u8 list \<Rightarrow> tag_io \<Rightarrow> (string, u8 list option \<times> tag_io) result" where
  "picture img env original s =
     try_bind
       (if length original > cover_limit then
          try_bind (guess_ok img original) (\<lambda>_.
            case im_decode img original of
              None \<Rightarrow> Inr (None, s)
            | Some im \<Rightarrow> shrink_cover img env im s)
        else Inr (Some original, s)) (\<lambda>(data, s).
       case data of
         None \<Rightarrow> Inr (None, s)
       | Some data \<Rightarrow>
           try_bind (io_check env s) (\<lambda>s.
             let mime = cover_mime data in
             try_bind (guess_ok img data) (\<lambda>_.
               let dims = (case im_dimensions img data of
                             None \<Rightarrow> (0, 0, 0)
                           | Some (w, h) \<Rightarrow> (w, h, if mime = ''image/png'' then 32 else if mime = ''image/jpeg'' then 24 else 0))
               in Inr (Some (picture_bytes mime dims data), s))))"

text \<open>The header bytes: every block behind its length, the last one flagged.\<close>

fun put_blocks :: "u8 list \<Rightarrow> flac_blocks \<Rightarrow> (string, u8 list) result" where
  "put_blocks head [] = Inr head"
| "put_blocks head ((kind, data) # rest) =
     (if length head + length data + 4 > max_tag_bytes then Inl ''FLAC metadata exceeds 64 MiB''
      else if length data > 0xffffff then Inl ''FLAC metadata block exceeds 24-bit size''
      else put_blocks
        (head @ [kind OR (if rest = [] then 0x80 else 0)] @ drop 1 (be_bytes4 (length data)) @ data) rest)"

definition old_comments :: "flac_blocks \<Rightarrow> (string, u8 list \<times> comment list) result" where
  "old_comments blocks =
     (case position (\<lambda>b. fst b = 4) blocks of
        Some i \<Rightarrow> parse_comments (snd (blocks ! i))
      | None \<Rightarrow> Inr (as_bytes ''Mornye'', []))"

definition replace_comments :: "u8 list \<Rightarrow> flac_blocks \<Rightarrow> flac_blocks" where
  "replace_comments data blocks =
     (case position (\<lambda>b. fst b = 4) blocks of
        Some i \<Rightarrow> blocks[i := (fst (blocks ! i), data)]
      | None \<Rightarrow> blocks @ [(4, data)])"

definition replace_picture ::
  "'img image_lib \<Rightarrow> tag_env \<Rightarrow> u8 list option \<Rightarrow> flac_blocks \<Rightarrow> tag_io \<Rightarrow> (string, flac_blocks \<times> tag_io) result" where
  "replace_picture img env cover blocks s =
     (case cover of
        None \<Rightarrow> Inr (blocks, s)
      | Some c \<Rightarrow>
          try_bind (picture img env c s) (\<lambda>(p, s).
            Inr (filter (\<lambda>b. fst b \<noteq> 6) blocks @ (case p of None \<Rightarrow> [] | Some d \<Rightarrow> [(6, d)]), s)))"

definition change_comments ::
  "tag_text \<Rightarrow> tag_fields \<Rightarrow> string option \<Rightarrow> comment list \<Rightarrow> comment list" where
  "change_comments tx fs embed_mode comments =
     (case embed_mode of Some mode \<Rightarrow> embed_comments tx fs mode comments | None \<Rightarrow> edit_comments tx fs comments)"

definition flac_header ::
  "tag_text \<Rightarrow> 'img image_lib \<Rightarrow> tag_env \<Rightarrow> tag_fields \<Rightarrow> u8 list option \<Rightarrow> string option \<Rightarrow> tag_io \<Rightarrow>
   (string, file_section \<times> tag_io) result" where
  "flac_header tx img env fs cover embed_mode s =
     try_bind (flac_start env s) (\<lambda>(start, s).
     try_bind (read_blocks env (cover \<noteq> None) [] 0 s) (\<lambda>(blocks, s).
     try_bind (io_seek env (tio_pos s) s) (\<lambda>s.
       let audio_start = tio_pos s in
     try_bind (io_bytes env 2 s) (\<lambda>(sync, s).
       if \<not> frame_sync sync then Inl ''frames do not begin with sync code'' else
     try_bind (old_comments blocks) (\<lambda>(vendor, comments).
       let blocks = replace_comments (put_comments vendor (change_comments tx fs embed_mode comments)) blocks in
     try_bind (replace_picture img env cover blocks s) (\<lambda>(blocks, s).
     try_bind (put_blocks flac_magic blocks) (\<lambda>head.
       Inr (\<lparr>sec_start = start, sec_end = audio_start, sec_data = head\<rparr>, s))))))))"

fun fields_length :: "nat \<Rightarrow> tag_fields \<Rightarrow> nat option" where
  "fields_length tot [] = Some tot"
| "fields_length tot ((k, v) # fs) =
     Option.bind (checked_add tot (length k)) (\<lambda>tot.
     Option.bind (checked_add tot (length v)) (\<lambda>tot. fields_length tot fs))"

definition validate_fields :: "tag_fields \<Rightarrow> (string, unit) result" where
  "validate_fields fs =
     (case fields_length 0 fs of
        None \<Rightarrow> Inl ''tag edit fields exceed 64 MiB''
      | Some n \<Rightarrow> if n > max_tag_bytes then Inl ''tag edit fields exceed 64 MiB'' else Inr ())"

definition some_cover :: "u8 list option \<Rightarrow> u8 list option" where
  "some_cover cover = (case cover of Some c \<Rightarrow> if c = [] then None else Some c | None \<Rightarrow> None)"

text \<open>\<open>rewrite_audio_tags\<close> on the format \<open>flac\<close>.\<close>

definition rewrite_flac_tags ::
  "tag_text \<Rightarrow> 'img image_lib \<Rightarrow> tag_env \<Rightarrow> tag_fields \<Rightarrow> u8 list option \<Rightarrow> tag_io \<Rightarrow> (string, tag_io) result" where
  "rewrite_flac_tags tx img env fs cover s =
     try_bind (io_check env s) (\<lambda>s.
     try_bind (validate_fields fs) (\<lambda>_.
     try_bind (io_seek env 0 s) (\<lambda>s.
     try_bind (flac_header tx img env (artist_mode_fields tx fs) (some_cover cover) None s) (\<lambda>(sec, s).
       write_sections env [sec] s))))"

text \<open>\<open>embed_flac_metadata\<close>: canonical keys, no artist mode on the fields.\<close>

definition embed_flac_metadata ::
  "tag_text \<Rightarrow> 'img image_lib \<Rightarrow> tag_env \<Rightarrow> tag_fields \<Rightarrow> string \<Rightarrow> u8 list option \<Rightarrow> tag_io \<Rightarrow> (string, tag_io) result" where
  "embed_flac_metadata tx img env fs mode cover s =
     try_bind (io_check env s) (\<lambda>s.
     try_bind (validate_fields fs) (\<lambda>_.
     try_bind (io_seek env 0 s) (\<lambda>s.
     try_bind (flac_header tx img env fs (some_cover cover) (Some mode) s) (\<lambda>(sec, s).
       write_sections env [sec] s))))"

text \<open>The comparison loop of \<open>rewrite_flac_tags_if_changed\<close>: equal up to the end, or a differing piece.\<close>

function same_bytes :: "tag_env \<Rightarrow> u8 list \<Rightarrow> tag_io \<Rightarrow> (string, bool \<times> tag_io) result" where
  "same_bytes env expected s =
     (if expected = [] then Inr (True, s)
      else case io_exact env (length (take 65536 expected)) s of
        Inl e \<Rightarrow> Inl e
      | Inr (bs, s') \<Rightarrow>
          if bs \<noteq> take 65536 expected then Inr (False, s') else same_bytes env (drop 65536 expected) s')"
  by pat_completeness auto
termination
  by (relation "measure (\<lambda>(env, expected, s). length expected)") auto

declare same_bytes.simps [simp del]

definition rewrite_flac_tags_if_changed ::
  "tag_text \<Rightarrow> 'img image_lib \<Rightarrow> tag_env \<Rightarrow> tag_fields \<Rightarrow> u8 list option \<Rightarrow> tag_io \<Rightarrow> (string, bool \<times> tag_io) result" where
  "rewrite_flac_tags_if_changed tx img env fs cover s =
     try_bind (io_check env s) (\<lambda>s.
     try_bind (validate_fields fs) (\<lambda>_.
     try_bind (io_seek env 0 s) (\<lambda>s.
     try_bind (flac_header tx img env (artist_mode_fields tx fs) (some_cover cover) None s) (\<lambda>(sec, s).
     try_bind
       (if length (sec_data sec) = sec_end sec - sec_start sec then
          try_bind (io_seek env (sec_start sec) s) (\<lambda>s.
          try_bind (same_bytes env (sec_data sec) s) (\<lambda>(same, s).
          try_bind (io_check env s) (\<lambda>s. Inr (same, s))))
        else Inr (False, s)) (\<lambda>(unchanged, s).
       if unchanged then Inr (False, s)
       else try_bind (write_sections env [sec] s) (\<lambda>s. Inr (True, s)))))))"

end
