(* ===== verification/Comment_Views.thy ===== *)
theory Comment_Views
  imports Vorbis_Comments
begin

text \<open>
  What the comment editor means for the reader. The contract \<open>tag_store\<close> says what a reader sees
  after one key was set; the interpretation \<open>vc\<close> discharges it for Vorbis comments, whose writer
  and reader decode keys differently. On top of it: a block that was written reads back, and the
  metadata read from an edited block is the old metadata with the edits applied.
\<close>

section \<open>The contract of a tag store\<close>

locale tag_store =
  fixes vals :: "'c \<Rightarrow> string \<Rightarrow> string list"
    and set_value :: "string \<Rightarrow> string \<Rightarrow> 'c \<Rightarrow> 'c"
    and key_ok :: "string \<Rightarrow> bool"
    and text_ok :: "string \<Rightarrow> bool"
  assumes values_set:
    "key_ok k \<Longrightarrow> key_ok name \<Longrightarrow> text_ok v \<Longrightarrow>
     vals (set_value k v s) name = (if name = k then (if v = [] then [] else [v]) else vals s name)"
begin

lemma values_fold:
  assumes "key_ok name" "\<forall>(k, v) \<in> set kvs. key_ok k \<and> text_ok v"
  shows "vals (fold (\<lambda>(k, v). set_value k v) kvs s) name =
    (case map_of (rev kvs) name of None \<Rightarrow> vals s name | Some v \<Rightarrow> if v = [] then [] else [v])"
  using assms(2)
proof (induction kvs arbitrary: s)
  case (Cons kv kvs)
  obtain k v where kv: "kv = (k, v)" by force
  with Cons.prems have "key_ok k" "text_ok v" by auto
  with Cons kv show ?case
    by (simp add: values_set [OF _ assms(1)] map_add_def split: option.splits)
qed simp

lemma values_clear:
  assumes "key_ok name" "\<forall>k \<in> set ks. key_ok k" "text_ok []"
  shows "vals (fold (\<lambda>k. set_value k []) ks s) name = (if name \<in> set ks then [] else vals s name)"
  using assms(2) by (induction ks arbitrary: s) (auto simp: values_set assms(1,3))

end

section \<open>Vorbis comments as a tag store\<close>

definition comment_item :: "comment \<Rightarrow> (string \<times> string) list" where
  "comment_item c =
     (case position (\<lambda>b. b = eq_sign) c of
        None \<Rightarrow> []
      | Some i \<Rightarrow> [(utf8 (take i c), utf8 (drop (Suc i) c))])"

definition comment_items :: "comment list \<Rightarrow> (string \<times> string) list" where
  "comment_items cs = concat (map comment_item cs)"

definition comment_values :: "tag_text \<Rightarrow> comment list \<Rightarrow> string \<Rightarrow> string list" where
  "comment_values tx cs name = item_values tx (comment_items cs) name"

definition tag_key :: "tag_text \<Rightarrow> string \<Rightarrow> bool" where
  "tag_key tx k \<longleftrightarrow> case_table (tt_upper tx) \<and> upper_key k"

definition valid_text :: "string \<Rightarrow> bool" where
  "valid_text s \<longleftrightarrow> valid_utf8 (as_bytes s)"

lemma item_values_append [simp]:
  "item_values tx (a @ b) name = item_values tx a name @ item_values tx b name"
  by (simp add: item_values_def)

lemma comment_values_simps [simp]:
  "comment_values tx [] name = []"
  "comment_values tx (c # cs) name = item_values tx (comment_item c) name @ comment_values tx cs name"
  "comment_values tx (cs @ ds) name = comment_values tx cs name @ comment_values tx ds name"
  by (simp_all add: comment_values_def comment_items_def item_values_def)

text \<open>A comment the reader takes for \<open>name\<close> is one the writer removes with \<open>name\<close>.\<close>

lemma read_key_is_comment_key:
  assumes "tag_key tx name" "item_values tx (comment_item c) name \<noteq> []"
  shows "comment_key tx c = name"
proof -
  from assms(2) obtain i where i: "position (\<lambda>b. b = eq_sign) c = Some i"
    and len: "length (utf8 (take i c)) = length name" and up: "uppercase (tt_upper tx) (utf8 (take i c)) = name"
    by (auto simp: comment_item_def item_values_def split: option.splits if_splits)
  have name: "case_table (tt_upper tx)" "is_ascii name" "name \<noteq> []"
    using assms(1) by (auto simp: tag_key_def upper_key_def is_ascii_def list_all_iff)
  have valid: "valid_utf8 (take i c)" using uppercase_malformed [OF name(1) _ name(2)] up by blast
  have "utf8 [] = []" by (simp add: utf8_def utf8_bytes_valid of_bytes_def)
  then have "i \<noteq> 0" using len name(3) by (cases i) auto
  then obtain j where "i = Suc j" using not0_implies_Suc by blast
  then show ?thesis using i up valid by (simp add: comment_key_def utf8_def utf8_bytes_valid utf8_lossy_valid)
qed

lemma byte_of_eq_sign: "byte_of (CHR ''='') = 61"
  by (simp add: byte_of_def)

lemma upper_key_bytes:
  assumes "upper_key k"
  shows "eq_sign \<notin> set (as_bytes k)" "valid_utf8 (as_bytes k)"
proof -
  show "valid_utf8 (as_bytes k)" by (rule valid_utf8_is_ascii [OF upper_key_ascii [OF assms]])
  show "eq_sign \<notin> set (as_bytes k)"
  proof
    assume "eq_sign \<in> set (as_bytes k)"
    then obtain c where c: "c \<in> set k" "(0x3D :: u8) = word_of_nat (byte_of c)" by (auto simp: as_bytes_def eq_sign_def)
    from c(2) have "unat (0x3D :: u8) = byte_of c" by (simp only: unat_of_nat) simp
    then have "byte_of c = 61" by simp
    then have "c = CHR ''=''" by (metis byte_of_eq_sign char_of_byte_of)
    with c(1) assms show False by (auto simp: upper_key_def list_all_iff)
  qed
qed

lemma comment_of_bytes: "comment_of k v = as_bytes k @ eq_sign # as_bytes v"
  by (simp add: comment_of_def eq_sign_def as_bytes_def byte_of_eq_sign)

lemma comment_item_of:
  assumes "upper_key k" "valid_text v"
  shows "comment_item (comment_of k v) = [(k, v)]"
proof -
  have "position (\<lambda>b. b = eq_sign) (comment_of k v) = Some (length k)"
    using upper_key_bytes(1) [OF assms(1)] position_append [of "as_bytes k" "\<lambda>b. b = eq_sign" eq_sign "as_bytes v"]
    by (auto simp: comment_of_bytes)
  then show ?thesis
    using upper_key_bytes(2) [OF assms(1)] assms(2)
    by (simp add: comment_item_def comment_of_bytes utf8_as_bytes valid_text_def)
qed

lemma comment_key_of:
  assumes "tag_key tx k"
  shows "comment_key tx (comment_of k v) = k"
proof -
  have k: "upper_key k" "case_table (tt_upper tx)" using assms by (simp_all add: tag_key_def)
  have "position (\<lambda>b. b = eq_sign) (comment_of k v) = Some (length k)"
    using upper_key_bytes(1) [OF k(1)] position_append [of "as_bytes k" "\<lambda>b. b = eq_sign" eq_sign "as_bytes v"]
    by (auto simp: comment_of_bytes)
  moreover obtain n where "length k = Suc n" using k(1) by (cases k) (auto simp: upper_key_def)
  ultimately show ?thesis
    using upper_key_bytes(2) [OF k(1)] uppercase_upper_key [OF k(2,1)]
    by (simp add: comment_key_def comment_of_bytes utf8_lossy_valid)
qed

lemma item_values_of:
  assumes "tag_key tx k" "valid_text v"
  shows "item_values tx (comment_item (comment_of k v)) name = (if name = k then [v] else [])"
  using assms by (auto simp: comment_item_of tag_key_def item_values_def uppercase_upper_key)

lemma comment_values_kept:
  assumes "tag_key tx name" "name \<noteq> k"
  shows "comment_values tx (filter (\<lambda>c. comment_key tx c \<noteq> k) cs) name = comment_values tx cs name"
  using assms read_key_is_comment_key [OF assms(1)] by (induction cs) auto

lemma comment_values_removed:
  assumes "tag_key tx k"
  shows "comment_values tx (filter (\<lambda>c. comment_key tx c \<noteq> k) cs) k = []"
  using read_key_is_comment_key [OF assms] by (induction cs) auto

interpretation vc: tag_store "comment_values tx" "set_comment tx" "tag_key tx" valid_text for tx
proof
  fix k name v s
  assume "tag_key tx k" "tag_key tx name" "valid_text v"
  then show "comment_values tx (set_comment tx k v s) name =
      (if name = k then if v = [] then [] else [v] else comment_values tx s name)"
    by (simp add: set_comment_def comment_values_kept comment_values_removed item_values_of)
qed

section \<open>A written block reads back\<close>

lemma slice_get_at: "slice_get (pre @ x @ post) (length pre) (length pre + length x) = Some x"
  by (simp add: slice_get_def)

lemma saturating_small: "a + b < 2 ^ 33 \<Longrightarrow> saturating_add a b = a + b"
  by (simp add: saturating_add_def u64_max_def)

lemma le_bytes_small: "n < 2 ^ 32 \<Longrightarrow> u32_from_le_bytes (u32_to_le_bytes n) = n"
  by (simp add: le_bytes_round_trip)

lemma length_put_string [simp]: "length (put_string x) = 4 + length x"
  by (simp add: put_string_def)

definition items_bytes :: "comment list \<Rightarrow> u8 list" where
  "items_bytes cs = concat (map put_string cs)"

lemma items_bytes_simps [simp]:
  "items_bytes [] = []"
  "items_bytes (c # cs) = u32_to_le_bytes (length c) @ c @ items_bytes cs"
  by (simp_all add: items_bytes_def put_string_def)

lemma length_items_bytes: "4 * length cs \<le> length (items_bytes cs)"
  by (induction cs) auto

lemma slices_of_item:
  fixes pre c post :: "u8 list"
  defines "data \<equiv> pre @ u32_to_le_bytes (length c) @ c @ post"
  assumes "length data < 2 ^ 32"
  shows "slice_get data (length pre) (saturating_add (length pre) 4) = Some (u32_to_le_bytes (length c))"
    and "slice_get data (length pre + 4) (saturating_add (length pre + 4) (length c)) = Some c"
    and "u32_from_le_bytes (u32_to_le_bytes (length c)) = length c"
    and "saturating_add (saturating_add (length pre) 4) (length c) = length pre + 4 + length c"
proof -
  have small: "length pre + 4 + length c < 2 ^ 32" using assms(2) by (simp add: data_def)
  then have sat: "saturating_add (length pre) 4 = length pre + 4"
    "saturating_add (length pre + 4) (length c) = length pre + 4 + length c"
    by (simp_all add: saturating_small)
  show "slice_get data (length pre) (saturating_add (length pre) 4) = Some (u32_to_le_bytes (length c))"
    using slice_get_at [of pre "u32_to_le_bytes (length c)" "c @ post"] by (simp add: sat data_def)
  show "slice_get data (length pre + 4) (saturating_add (length pre + 4) (length c)) = Some c"
    using slice_get_at [of "pre @ u32_to_le_bytes (length c)" c post] by (simp add: sat data_def)
  show "u32_from_le_bytes (u32_to_le_bytes (length c)) = length c" using small by (simp add: le_bytes_small)
  show "saturating_add (saturating_add (length pre) 4) (length c) = length pre + 4 + length c" by (simp add: sat)
qed

lemma parse_items_bytes:
  "length (pre @ items_bytes cs @ tail) < 2 ^ 32 \<Longrightarrow>
   parse_items (pre @ items_bytes cs @ tail) u64_max (length cs) (length pre) = comment_items cs"
proof (induction cs arbitrary: pre)
  case (Cons c cs)
  let ?pre = "pre @ u32_to_le_bytes (length c) @ c"
  have "parse_items (?pre @ items_bytes cs @ tail) u64_max (length cs) (length ?pre) = comment_items cs"
    by (rule Cons.IH) (use Cons.prems in simp)
  moreover have "length c \<le> u64_max" using Cons.prems by (simp add: u64_max_def)
  ultimately show ?case
    using slices_of_item [of pre c "items_bytes cs @ tail"] Cons.prems
    by (auto simp: Let_def comment_items_def comment_item_def add.assoc split: option.splits)
qed (simp add: comment_items_def)

lemma valid_items_bytes:
  "length (pre @ items_bytes cs @ tail) < 2 ^ 32 \<Longrightarrow>
   valid_items (pre @ items_bytes cs @ tail) (length cs) (length pre) \<longleftrightarrow>
     (cs = [] \<or> last cs \<noteq> [] \<or> tail \<noteq> [])"
proof (induction cs arbitrary: pre)
  case (Cons c cs)
  let ?pre = "pre @ u32_to_le_bytes (length c) @ c"
  have ih: "valid_items (?pre @ items_bytes cs @ tail) (length cs) (length ?pre) \<longleftrightarrow>
      (cs = [] \<or> last cs \<noteq> [] \<or> tail \<noteq> [])"
    by (rule Cons.IH) (use Cons.prems in simp)
  have "items_bytes cs = [] \<longleftrightarrow> cs = []" by (cases cs) (auto simp: u32_to_le_bytes_def)
  then show ?case
    using slices_of_item [of pre c "items_bytes cs @ tail"] Cons.prems ih
    by (auto simp: Let_def add.assoc)
qed simp

lemma put_comments_parts:
  "put_comments vendor cs @ tail =
     (u32_to_le_bytes (length vendor) @ vendor @ u32_to_le_bytes (length cs)) @ items_bytes cs @ tail"
  by (simp add: put_comments_def put_string_def items_bytes_def)

lemma comments_header_put:
  assumes "length (put_comments vendor cs @ tail) < 2 ^ 32"
  shows "comments_header (put_comments vendor cs @ tail) = Some (8 + length vendor, length cs)"
proof -
  let ?rest = "items_bytes cs @ tail"
  have small: "length vendor + 8 < 2 ^ 32" "length cs < 2 ^ 32"
    using assms length_items_bytes [of cs] unfolding put_comments_parts by auto
  have "slice_get (put_comments vendor cs @ tail) 0 4 = Some (u32_to_le_bytes (length vendor))"
    using slice_get_at [of "[]" "u32_to_le_bytes (length vendor)" "vendor @ u32_to_le_bytes (length cs) @ ?rest"]
    by (simp add: put_comments_parts)
  moreover have "slice_get (put_comments vendor cs @ tail) (4 + length vendor) (8 + length vendor) =
      Some (u32_to_le_bytes (length cs))"
    using slice_get_at [of "u32_to_le_bytes (length vendor) @ vendor" "u32_to_le_bytes (length cs)" ?rest]
    by (simp add: put_comments_parts add.commute)
  ultimately show ?thesis
    using small by (simp add: comments_header_def le_bytes_small checked_add_def u64_max_def add.commute)
qed

lemma comments_parse_put:
  assumes "length (put_comments vendor cs @ tail) < 2 ^ 32"
  shows "comments_parse (put_comments vendor cs @ tail) u64_max = comment_items cs"
  using parse_items_bytes [OF assms [unfolded put_comments_parts]] comments_header_put [OF assms]
  by (simp add: comments_parse_def put_comments_parts add.commute)

lemma valid_comments_put:
  assumes "length (put_comments vendor cs @ tail) < 2 ^ 32"
  shows "valid_comments (put_comments vendor cs @ tail) \<longleftrightarrow> cs = [] \<or> last cs \<noteq> [] \<or> tail \<noteq> []"
  using valid_items_bytes [OF assms [unfolded put_comments_parts]] comments_header_put [OF assms]
  by (simp add: valid_comments_def put_comments_parts add.commute)

text \<open>The writer's parser and \<open>put_comments\<close> are inverse up to bytes behind the last comment.\<close>

lemma le_bytes_of_number:
  assumes "length bs = 4"
  shows "u32_to_le_bytes (u32_from_le_bytes bs) = bs"
proof -
  obtain a b c d where bs: "bs = [a, b, c, d]" using assms by (auto simp: numeral_eq_Suc length_Suc_conv)
  have byte: "word_of_nat (unat x + 256 * n) = x" for x :: u8 and n 
  proof -
    have "(word_of_nat (256 * n) :: u8) = word_of_nat 0" unfolding word_of_nat_eq_iff by (simp add: take_bit_eq_mod)
    then show ?thesis by simp
  qed
  have lt: "unat x < 256" for x :: u8 using unsigned_less [of x] by simp
  have shift: "(unat x + 256 * n) div (256 * m) = n div m" for x :: u8 and n m :: nat
    using lt [of x] by (simp add: div_mult2_eq)
  define n2 where "n2 = unat c + 256 * unat d"
  define n1 where "n1 = unat b + 256 * n2"
  have "u32_from_le_bytes bs = unat a + 256 * n1" by (simp add: bs u32_from_le_bytes_def n1_def n2_def)
  moreover have "(unat a + 256 * n1) div 256 = n1" "n1 div 256 = n2" "n2 div 256 = unat d"
    using shift [of a n1 1] shift [of b n2 1] shift [of c "unat d" 1] by (simp_all only: n1_def n2_def) simp_all
  moreover have "(unat a + 256 * n1) div 65536 = n1 div 256" "(unat a + 256 * n1) div 16777216 = n1 div 65536"
    "n1 div 65536 = n2 div 256"
    using shift [of a n1 256] shift [of a n1 65536] shift [of b n2 256] by (simp_all add: n1_def)
  moreover have "word_of_nat (unat a + 256 * n1) = a" "word_of_nat n1 = b" "word_of_nat n2 = c"
    by (simp_all only: n1_def n2_def byte)
  ultimately show ?thesis by (simp only: u32_to_le_bytes_def bs) simp
qed

lemma cursor_exactD: "cursor_exact n rest = Inr (x, r) \<Longrightarrow> rest = x @ r \<and> length x = n"
  by (auto simp: cursor_exact_def split: if_splits)

lemma cursor_exact_append [simp]: "n = length x \<Longrightarrow> cursor_exact n (x @ r) = Inr (x, r)"
  by (simp add: cursor_exact_def)

lemma cursor_stringD:
  assumes "cursor_string rest = Inr (x, r)"
  shows "rest = put_string x @ r"
proof -
  obtain l r0 where l: "cursor_exact 4 rest = Inr (l, r0)" and x: "cursor_exact (u32_from_le_bytes l) r0 = Inr (x, r)"
    using assms by (auto simp: cursor_string_def try_bind_eq_Inr Let_def split: if_splits)
  from cursor_exactD [OF l] cursor_exactD [OF x] show ?thesis
    using le_bytes_of_number [of l] by (simp add: put_string_def)
qed

lemma cursor_string_put: "length x < 2 ^ 32 \<Longrightarrow> cursor_string (put_string x @ r) = Inr (x, r)"
  by (simp add: cursor_string_def put_string_def le_bytes_small)

lemma cursor_commentsD:
  "cursor_comments n rest = Inr cs \<Longrightarrow> length cs = n \<and> (\<exists>tail. rest = items_bytes cs @ tail)"
proof (induction n arbitrary: rest cs)
  case (Suc n)
  then obtain x r xs where x: "cursor_string rest = Inr (x, r)" "cursor_comments n r = Inr xs" "cs = x # xs"
    by (auto simp: try_bind_eq_Inr)
  with Suc.IH [OF x(2)] cursor_stringD [OF x(1)] show ?case by (auto simp: put_string_def)
qed simp

lemma cursor_comments_put:
  "length (items_bytes cs) < 2 ^ 32 \<Longrightarrow> cursor_comments (length cs) (items_bytes cs @ tail) = Inr cs"
proof (induction cs)
  case (Cons c cs)
  then show ?case using cursor_string_put [of c "items_bytes cs @ tail"] by (simp add: put_string_def)
qed simp

lemma parse_commentsD:
  assumes "parse_comments data = Inr (vendor, cs)"
  obtains tail where "data = put_comments vendor cs @ tail"
proof -
  obtain r n r' where v: "cursor_string data = Inr (vendor, r)" and n: "cursor_exact 4 r = Inr (n, r')"
    and c: "cursor_comments (u32_from_le_bytes n) r' = Inr cs"
    using assms by (auto simp: parse_comments_def try_bind_eq_Inr)
  from cursor_stringD [OF v] cursor_exactD [OF n] cursor_commentsD [OF c] that show ?thesis
    using le_bytes_of_number [of n] by (auto simp: put_comments_def items_bytes_def)
qed

lemma parse_comments_put:
  assumes "length (put_comments vendor cs @ tail) < 2 ^ 32"
  shows "parse_comments (put_comments vendor cs @ tail) = Inr (vendor, cs)"
proof -
  have small: "length vendor < 2 ^ 32" "length cs < 2 ^ 32" "length (items_bytes cs) < 2 ^ 32"
    using assms length_items_bytes [of cs] unfolding put_comments_parts by auto
  have "put_comments vendor cs @ tail = put_string vendor @ u32_to_le_bytes (length cs) @ items_bytes cs @ tail"
    by (simp add: put_comments_def items_bytes_def)
  then show ?thesis using small
    by (simp add: parse_comments_def cursor_string_put le_bytes_small cursor_comments_put)
qed

section \<open>What an edit does to the values a reader sees\<close>

text \<open>
  Rust strings are UTF-8: every value of the edit and every artist name split off one. The split
  runs a pattern of the \<open>regex\<close> crate, so its results are text by that crate's types.
\<close>

definition fields_are_text :: "tag_text \<Rightarrow> tag_fields \<Rightarrow> bool" where
  "fields_are_text tx fs \<longleftrightarrow>
     (\<forall>(f, v) \<in> set fs. valid_text v \<and> list_all valid_text (artist_values tx fs f v))"

lemma fields_are_textD:
  assumes "fields_are_text tx fs" "bt_get fs f = Some v"
  shows "valid_text v" "\<forall>w \<in> set (artist_values tx fs f v). valid_text w"
  using assms bt_get_Some_in [OF assms(2)] by (auto simp: fields_are_text_def list_all_iff)

lemma valid_text_Nil [simp]: "valid_text []"
  by (simp add: valid_text_def as_bytes_def)

lemma valid_text_edit_index: "valid_text (edit_index cur fs k t)"
proof -
  have digits: "c \<in> set (show_nat n) \<Longrightarrow> byte_of c < 128" for c n
    using show_nat_all_digits [of n] by (auto simp: list_all_iff is_ascii_digit_def)
  have "is_ascii (edit_index cur fs k t)"
    by (auto simp: edit_index_def Let_def is_ascii_def list_all_iff dest: digits) (simp_all add: byte_of_def)
  then show ?thesis unfolding valid_text_def by (rule valid_utf8_is_ascii)
qed

definition field_edits :: "tag_fields \<Rightarrow> (string \<times> string) list \<Rightarrow> (string \<times> string) list" where
  "field_edits fs ps = concat (map (\<lambda>(f, k). case bt_get fs f of None \<Rightarrow> [] | Some v \<Rightarrow> [(k, v)]) ps)"

fun last_edit :: "tag_fields \<Rightarrow> (string \<times> string) list \<Rightarrow> string \<Rightarrow> string option" where
  "last_edit fs [] name = None"
| "last_edit fs ((f, k) # ps) name =
     (case last_edit fs ps name of
        Some v \<Rightarrow> Some v
      | None \<Rightarrow> if k = name then bt_get fs f else None)"

lemma fold_set_tag_field:
  "fold (set_tag_field tx fs) ps cs = fold (\<lambda>(k, v). set_comment tx k v) (field_edits fs ps) cs"
  by (induction ps arbitrary: cs) (auto simp: field_edits_def set_tag_field_def split: option.splits)

lemma map_of_field_edits: "map_of (rev (field_edits fs ps)) name = last_edit fs ps name"
  by (induction ps) (auto simp: field_edits_def map_add_def split: option.splits)

lemma field_edits_text:
  assumes "fields_are_text tx fs" "(k, v) \<in> set (field_edits fs ps)"
  shows "valid_text v \<and> k \<in> snd ` set ps"
  using assms fields_are_textD(1) [OF assms(1)]
  by (force simp: field_edits_def split: option.splits)

definition upper_keys :: "string list" where
  "upper_keys =
     map snd plain_fields @
     [''ARTIST'', ''ALBUMARTIST'', ''ALBUM ARTIST'', ''ALBUM_ARTIST'', ''LABEL'', ''PUBLISHER'', ''YEAR'',
      ''TRACKNUMBER'', ''TRACK'', ''DISCNUMBER'', ''DISC'', ''LYRICS'', ''UNSYNCEDLYRICS'', ''SYNCEDLYRICS'', ''UPC'']"

lemma upper_keys_ok: "list_all upper_key upper_keys"
  by (simp add: upper_keys_def plain_fields_def upper_key_def is_ascii_lowercase_def byte_of_def)

lemma tag_keyI: "case_table (tt_upper tx) \<Longrightarrow> name \<in> set upper_keys \<Longrightarrow> tag_key tx name"
  using upper_keys_ok by (auto simp: tag_key_def list_all_iff)

lemma plain_keys: "k \<in> snd ` set plain_fields \<Longrightarrow> k \<in> set upper_keys"
  unfolding upper_keys_def set_append set_map by blast

definition edit_ok :: "tag_text \<Rightarrow> tag_fields \<Rightarrow> bool" where
  "edit_ok tx fs \<longleftrightarrow> case_table (tt_upper tx) \<and> fields_are_text tx fs"

lemma edit_okD:
  assumes "edit_ok tx fs"
  shows "name \<in> set upper_keys \<Longrightarrow> tag_key tx name"
    and "bt_get fs f = Some v \<Longrightarrow> valid_text v"
    and "bt_get fs f = Some v \<Longrightarrow> w \<in> set (artist_values tx fs f v) \<Longrightarrow> valid_text w"
  using assms fields_are_textD [of tx fs] by (auto simp: edit_ok_def intro: tag_keyI)

definition kept_or :: "string list option \<Rightarrow> string list \<Rightarrow> string list" where
  "kept_or new old = (case new of None \<Rightarrow> old | Some vs \<Rightarrow> vs)"

definition as_values :: "string \<Rightarrow> string list" where
  "as_values v = (if v = [] then [] else [v])"

definition credits :: "tag_text \<Rightarrow> tag_fields \<Rightarrow> string \<Rightarrow> string list option" where
  "credits tx fs f = map_option (\<lambda>v. filter (\<lambda>w. trim w \<noteq> []) (artist_values tx fs f v)) (bt_get fs f)"

lemma kept_or_simps [simp]: "kept_or None old = old" "kept_or (Some vs) old = vs"
  by (simp_all add: kept_or_def)

lemma values_plain:
  assumes ok: "edit_ok tx fs" and name: "name \<in> set upper_keys"
  shows "comment_values tx (fold (set_tag_field tx fs) plain_fields cs) name =
    kept_or (map_option as_values (last_edit fs plain_fields name)) (comment_values tx cs name)"
proof -
  have "tag_key tx k \<and> valid_text v" if "(k, v) \<in> set (field_edits fs plain_fields)" for k v
    using field_edits_text [OF _ that] ok plain_keys edit_okD(1) [OF ok] by (auto simp: edit_ok_def)
  then show ?thesis
    unfolding fold_set_tag_field using edit_okD(1) [OF ok name]
    by (subst vc.values_fold) (auto simp: map_of_field_edits as_values_def split: option.splits)
qed

lemma view_set:
  assumes "edit_ok tx fs" "k \<in> set upper_keys" "name \<in> set upper_keys" "valid_text v"
  shows "comment_values tx (set_comment tx k v cs) name =
    (if name = k then if v = [] then [] else [v] else comment_values tx cs name)"
  using assms by (intro vc.values_set edit_okD(1)) auto

lemma view_clear:
  assumes "edit_ok tx fs" "set ks \<subseteq> set upper_keys" "name \<in> set upper_keys"
  shows "comment_values tx (fold (\<lambda>k. set_comment tx k []) ks cs) name =
    (if name \<in> set ks then [] else comment_values tx cs name)"
  using assms by (intro vc.values_clear) (auto intro: edit_okD(1))

lemma values_clear_aliases:
  assumes "edit_ok tx fs" "set ks \<subseteq> set upper_keys" "name \<in> set upper_keys"
  shows "comment_values tx (clear_aliases tx fs (f, ks) cs) name =
    (if bt_get fs f \<noteq> None \<and> name \<in> set ks then [] else comment_values tx cs name)"
  using view_clear [OF assms] by (simp add: clear_aliases_def)

lemma values_aliases:
  assumes ok: "edit_ok tx fs" and name: "name \<in> set upper_keys"
  shows "comment_values tx (fold (clear_aliases tx fs) alias_fields cs) name =
    (if bt_get fs ''date'' \<noteq> None \<and> name = ''YEAR'' then []
     else if bt_get fs ''label'' \<noteq> None \<and> name \<in> {''LABEL'', ''PUBLISHER''} then []
     else comment_values tx cs name)"
proof -
  have keys: "set [''LABEL'', ''PUBLISHER''] \<subseteq> set upper_keys" "set [''YEAR''] \<subseteq> set upper_keys"
    by (simp_all add: upper_keys_def)
  have fold: "fold (clear_aliases tx fs) alias_fields cs =
      clear_aliases tx fs (''date'', [''YEAR'']) (clear_aliases tx fs (''label'', [''LABEL'', ''PUBLISHER'']) cs)"
    by (simp add: alias_fields_def)
  show ?thesis
    unfolding fold values_clear_aliases [OF ok keys(1) name] values_clear_aliases [OF ok keys(2) name] by simp
qed

lemma values_pushed:
  assumes "tag_key tx k" "\<forall>v \<in> set vs. valid_text v"
  shows "comment_values tx (map (comment_of k) vs) name = (if name = k then vs else [])"
  using assms(2) by (induction vs) (auto simp: item_values_of [OF assms(1)])

lemma values_artists:
  assumes ok: "edit_ok tx fs" and name: "name \<in> set upper_keys" and k: "k \<in> set upper_keys"
  shows "comment_values tx (set_artists tx fs (f, k) cs) name =
    (if bt_get fs f \<noteq> None \<and> f = ''album_artist'' \<and> name \<in> {''ALBUM ARTIST'', ''ALBUM_ARTIST''} then []
     else if name = k then kept_or (credits tx fs f) (comment_values tx cs name)
     else comment_values tx cs name)"
proof (cases "bt_get fs f")
  case None
  then show ?thesis by (simp add: set_artists_def credits_def)
next
  case (Some v)
  define new where "new = filter (\<lambda>w. trim w \<noteq> []) (artist_values tx fs f v)"
  define cs1 where "cs1 = set_comment tx k [] cs @ map (comment_of k) new"
  have new: "\<forall>w \<in> set new. valid_text w" using edit_okD(3) [OF ok Some] by (auto simp: new_def)
  have cs1: "comment_values tx cs1 name = (if name = k then new else comment_values tx cs name)"
    using view_set [OF ok k name] values_pushed [OF edit_okD(1) [OF ok k] new] by (simp add: cs1_def)
  have clear: "comment_values tx (fold (\<lambda>key. set_comment tx key []) [''ALBUM ARTIST'', ''ALBUM_ARTIST''] cs1) name =
      (if name \<in> {''ALBUM ARTIST'', ''ALBUM_ARTIST''} then [] else comment_values tx cs1 name)"
    by (subst view_clear [OF ok _ name]) (simp_all add: upper_keys_def)
  have "set_artists tx fs (f, k) cs =
      (if f = ''album_artist'' then fold (\<lambda>key. set_comment tx key []) [''ALBUM ARTIST'', ''ALBUM_ARTIST''] cs1 else cs1)"
    by (simp add: set_artists_def Some cs1_def new_def Let_def)
  moreover have "credits tx fs f = Some new" by (simp add: credits_def Some new_def)
  ultimately show ?thesis using Some by (simp only: if_distrib [of "\<lambda>c. comment_values tx c name"] clear cs1) simp
qed

lemma values_index:
  assumes ok: "edit_ok tx fs" and keys: "k \<in> set upper_keys" "a \<in> set upper_keys" "name \<in> set upper_keys"
  shows "comment_values tx (set_index tx fs f t k a cs) name =
    (if bt_get fs f = None \<and> bt_get fs t = None then comment_values tx cs name
     else if name = a then []
     else if name = k then as_values (edit_index (current_index tx cs k a) fs f t)
     else comment_values tx cs name)"
  by (simp add: set_index_def view_set [OF ok _ keys(3)] keys valid_text_edit_index as_values_def)

lemma values_lyrics:
  assumes ok: "edit_ok tx fs" and name: "name \<in> set upper_keys"
  shows "comment_values tx (set_lyrics tx fs cs) name =
    (if bt_get fs ''lyrics'' \<noteq> None \<and> name = ''SYNCEDLYRICS'' then []
     else if name \<in> {''LYRICS'', ''UNSYNCEDLYRICS''}
     then kept_or (map_option as_values (bt_get fs ''lyrics'')) (comment_values tx cs name)
     else comment_values tx cs name)"
proof (cases "bt_get fs ''lyrics''")
  case None
  then show ?thesis by (simp add: set_lyrics_def)
next
  case (Some v)
  have keys: "''SYNCEDLYRICS'' \<in> set upper_keys" "''LYRICS'' \<in> set upper_keys" "''UNSYNCEDLYRICS'' \<in> set upper_keys"
    by (simp_all add: upper_keys_def)
  have "valid_text v" by (rule edit_okD(2) [OF ok Some])
  note set = view_set [OF ok keys(1) name valid_text_Nil] view_set [OF ok keys(2) name this]
    view_set [OF ok keys(3) name this]
  show ?thesis unfolding set_lyrics_def Some option.case set by (simp add: as_values_def)
qed

definition index_keys :: "string list" where
  "index_keys = [''TRACKNUMBER'', ''TRACK'', ''DISCNUMBER'', ''DISC'']"

lemma values_index_other:
  assumes "edit_ok tx fs" "k \<in> set upper_keys" "a \<in> set upper_keys" "name \<in> set upper_keys" "name \<noteq> k" "name \<noteq> a"
  shows "comment_values tx (set_index tx fs f t k a cs) name = comment_values tx cs name"
  using assms(5,6) by (simp add: values_index [OF assms(1-4)])

lemma index_keys_upper: "k \<in> set index_keys \<Longrightarrow> k \<in> set upper_keys"
  by (auto simp: index_keys_def upper_keys_def)

lemma values_both_indices:
  assumes ok: "edit_ok tx fs" and name: "name \<in> set upper_keys" "name \<notin> set index_keys"
  shows "comment_values tx (set_index tx fs f t ''DISCNUMBER'' ''DISC'' (set_index tx fs f' t' ''TRACKNUMBER'' ''TRACK'' cs)) name =
    comment_values tx cs name"
proof -
  have k: "''TRACKNUMBER'' \<in> set upper_keys" "''TRACK'' \<in> set upper_keys" "''DISCNUMBER'' \<in> set upper_keys" "''DISC'' \<in> set upper_keys"
    by (rule index_keys_upper, simp add: index_keys_def)+
  show ?thesis using name(2)
    by (subst values_index_other [OF ok k(3,4) name(1)], simp_all add: index_keys_def)
       (subst values_index_other [OF ok k(1,2) name(1)], simp_all)
qed

text \<open>The values behind a key of the plain fields, the artist fields and the lyrics after an edit.\<close>

definition edited_values :: "tag_text \<Rightarrow> tag_fields \<Rightarrow> (string \<Rightarrow> string list) \<Rightarrow> string \<Rightarrow> string list" where
  "edited_values tx fs old name =
     (let plain = kept_or (map_option as_values (last_edit fs plain_fields name)) (old name);
          label = (if bt_get fs ''label'' \<noteq> None \<and> name \<in> {''LABEL'', ''PUBLISHER''} then [] else plain);
          year = (if bt_get fs ''date'' \<noteq> None \<and> name = ''YEAR'' then [] else label);
          artist = (if name = ''ARTIST'' then kept_or (credits tx fs ''artist'') year else year);
          album_artist =
            (if bt_get fs ''album_artist'' \<noteq> None \<and> name \<in> {''ALBUM ARTIST'', ''ALBUM_ARTIST''} then []
             else if name = ''ALBUMARTIST'' then kept_or (credits tx fs ''album_artist'') artist else artist)
      in if bt_get fs ''lyrics'' \<noteq> None \<and> name = ''SYNCEDLYRICS'' then []
         else if name \<in> {''LYRICS'', ''UNSYNCEDLYRICS''}
         then kept_or (map_option as_values (bt_get fs ''lyrics'')) album_artist
         else album_artist)"

lemma values_edited:
  assumes ok: "edit_ok tx fs" and name: "name \<in> set upper_keys" "name \<notin> set index_keys"
  shows "comment_values tx (edit_comments tx fs cs) name = edited_values tx fs (comment_values tx cs) name"
proof -
  have k: "''ARTIST'' \<in> set upper_keys" "''ALBUMARTIST'' \<in> set upper_keys" by (simp_all add: upper_keys_def)
  have artists: "fold (set_artists tx fs) [(''artist'', ''ARTIST''), (''album_artist'', ''ALBUMARTIST'')] cs' =
      set_artists tx fs (''album_artist'', ''ALBUMARTIST'') (set_artists tx fs (''artist'', ''ARTIST'') cs')" for cs'
    by simp
  have other: "(''artist'' = ''album_artist'') = False" by simp
  show ?thesis
    unfolding edit_comments_def artists values_lyrics [OF ok name(1)] values_both_indices [OF ok name]
      values_artists [OF ok name(1) k(1)] values_artists [OF ok name(1) k(2)] values_aliases [OF ok name(1)]
      values_plain [OF ok name(1)] edited_values_def Let_def other simp_thms if_False by simp
qed

section \<open>What an edit does to the metadata\<close>

definition edited :: "tag_fields \<Rightarrow> string \<Rightarrow> string \<Rightarrow> string" where
  "edited fs f old = (case bt_get fs f of None \<Rightarrow> old | Some v \<Rightarrow> v)"

lemma first_value_kept_or [simp]:
  "first_value (kept_or (map_option as_values new) old) = (case new of None \<Rightarrow> first_value old | Some v \<Rightarrow> v)"
  by (simp add: kept_or_def as_values_def first_value_def split: option.splits)

lemma last_edit_unique:
  "filter (\<lambda>p. snd p = k) ps = [(f, k)] \<Longrightarrow> last_edit fs ps k = bt_get fs f"
proof (induction ps)
  case (Cons p ps)
  have none: "filter (\<lambda>p. snd p = k) ps = [] \<Longrightarrow> last_edit fs ps k = None" for ps
    by (induction ps) (auto split: if_splits)
  obtain g l where "p = (g, l)" by force
  with Cons none [of ps] show ?case by (cases "l = k") (auto split: option.splits)
qed simp

definition special_keys :: "string list" where
  "special_keys =
     [''LABEL'', ''PUBLISHER'', ''YEAR'', ''ARTIST'', ''ALBUMARTIST'', ''ALBUM ARTIST'', ''ALBUM_ARTIST'',
      ''LYRICS'', ''UNSYNCEDLYRICS'', ''SYNCEDLYRICS'', ''TRACKNUMBER'', ''TRACK'', ''DISCNUMBER'', ''DISC'']"

lemma special_keysD:
  assumes "name \<notin> set special_keys"
  shows "name \<notin> set index_keys"
    and "edited_values tx fs old name = kept_or (map_option as_values (last_edit fs plain_fields name)) (old name)"
  using assms unfolding special_keys_def edited_values_def index_keys_def Let_def by simp_all

lemma plain_keys_apart:
  "list_all (\<lambda>(f, k). k \<notin> set special_keys \<and> (k = ''BARCODE'' \<or> filter (\<lambda>p. snd p = k) plain_fields = [(f, k)]))
     plain_fields"
  by code_simp

lemma values_edited_plain:
  assumes ok: "edit_ok tx fs" and k: "(f, k) \<in> set plain_fields" "k \<noteq> ''BARCODE''"
  shows "comment_values tx (edit_comments tx fs cs) k =
    kept_or (map_option as_values (bt_get fs f)) (comment_values tx cs k)"
proof -
  have upper: "k \<in> set upper_keys" by (rule plain_keys) (use k in force)
  have "k \<notin> set special_keys" "filter (\<lambda>p. snd p = k) plain_fields = [(f, k)]"
    using plain_keys_apart k by (auto simp: list_all_iff)
  from special_keysD [OF this(1)] last_edit_unique [OF this(2)] show ?thesis
    by (simp add: values_edited [OF ok upper])
qed

lemma last_edit_none: "name \<notin> snd ` set ps \<Longrightarrow> last_edit fs ps name = None"
  by (induction ps) auto

lemma special_not_plain: "list_all (\<lambda>name. name \<notin> snd ` set plain_fields \<and> name \<in> set upper_keys) special_keys"
  by code_simp

lemma values_edited_special:
  assumes ok: "edit_ok tx fs" and name: "name \<in> set special_keys" "name \<notin> set index_keys"
  shows "comment_values tx (edit_comments tx fs cs) name = edited_values tx fs (comment_values tx cs) name"
    and "last_edit fs plain_fields name = None"
  using special_not_plain name by (auto simp: list_all_iff values_edited [OF ok] intro!: last_edit_none)

lemma edited_aliases:
  assumes ok: "edit_ok tx fs"
  shows "comment_values tx (edit_comments tx fs cs) ''YEAR'' =
      (if bt_get fs ''date'' \<noteq> None then [] else comment_values tx cs ''YEAR'')"
    and "name \<in> {''LABEL'', ''PUBLISHER''} \<Longrightarrow> comment_values tx (edit_comments tx fs cs) name =
      (if bt_get fs ''label'' \<noteq> None then [] else comment_values tx cs name)"
    and "name \<in> {''ALBUM ARTIST'', ''ALBUM_ARTIST''} \<Longrightarrow> comment_values tx (edit_comments tx fs cs) name =
      (if bt_get fs ''album_artist'' \<noteq> None then [] else comment_values tx cs name)"
    and "comment_values tx (edit_comments tx fs cs) ''SYNCEDLYRICS'' =
      (if bt_get fs ''lyrics'' \<noteq> None then [] else comment_values tx cs ''SYNCEDLYRICS'')"
proof -
  note special = values_edited_special [OF ok]
  have "''YEAR'' \<in> set special_keys" "''YEAR'' \<notin> set index_keys" by (simp_all add: special_keys_def index_keys_def)
  note year = special [OF this]
  show "comment_values tx (edit_comments tx fs cs) ''YEAR'' =
      (if bt_get fs ''date'' \<noteq> None then [] else comment_values tx cs ''YEAR'')"
    unfolding year(1) edited_values_def year(2) Let_def by simp
  have "''SYNCEDLYRICS'' \<in> set special_keys" "''SYNCEDLYRICS'' \<notin> set index_keys"
    by (simp_all add: special_keys_def index_keys_def)
  note synced = special [OF this]
  show "comment_values tx (edit_comments tx fs cs) ''SYNCEDLYRICS'' =
      (if bt_get fs ''lyrics'' \<noteq> None then [] else comment_values tx cs ''SYNCEDLYRICS'')"
    unfolding synced(1) edited_values_def synced(2) Let_def by simp
  show "comment_values tx (edit_comments tx fs cs) name =
      (if bt_get fs ''label'' \<noteq> None then [] else comment_values tx cs name)" if "name \<in> {''LABEL'', ''PUBLISHER''}"
  proof -
    have "name \<in> set special_keys" "name \<notin> set index_keys" using that by (auto simp: special_keys_def index_keys_def)
    note label = special [OF this]
    show ?thesis using that unfolding label(1) edited_values_def label(2) Let_def by (elim insertE emptyE) simp_all
  qed
  show "comment_values tx (edit_comments tx fs cs) name =
      (if bt_get fs ''album_artist'' \<noteq> None then [] else comment_values tx cs name)"
    if "name \<in> {''ALBUM ARTIST'', ''ALBUM_ARTIST''}"
  proof -
    have "name \<in> set special_keys" "name \<notin> set index_keys" using that by (auto simp: special_keys_def index_keys_def)
    note artist = special [OF this]
    show ?thesis using that unfolding artist(1) edited_values_def artist(2) Let_def by (elim insertE emptyE) simp_all
  qed
qed

lemma edited_credits:
  assumes ok: "edit_ok tx fs"
  shows "comment_values tx (edit_comments tx fs cs) ''ARTIST'' = kept_or (credits tx fs ''artist'') (comment_values tx cs ''ARTIST'')"
    and "comment_values tx (edit_comments tx fs cs) ''ALBUMARTIST'' =
      kept_or (credits tx fs ''album_artist'') (comment_values tx cs ''ALBUMARTIST'')"
    and "name \<in> {''LYRICS'', ''UNSYNCEDLYRICS''} \<Longrightarrow> comment_values tx (edit_comments tx fs cs) name =
      kept_or (map_option as_values (bt_get fs ''lyrics'')) (comment_values tx cs name)"
proof -
  note special = values_edited_special [OF ok]
  have k: "''ARTIST'' \<in> set special_keys" "''ARTIST'' \<notin> set index_keys"
    "''ALBUMARTIST'' \<in> set special_keys" "''ALBUMARTIST'' \<notin> set index_keys"
    by (simp_all add: special_keys_def index_keys_def)
  show "comment_values tx (edit_comments tx fs cs) ''ARTIST'' = kept_or (credits tx fs ''artist'') (comment_values tx cs ''ARTIST'')"
    unfolding special(1) [OF k(1,2)] edited_values_def special(2) [OF k(1,2)] Let_def by simp
  show "comment_values tx (edit_comments tx fs cs) ''ALBUMARTIST'' =
      kept_or (credits tx fs ''album_artist'') (comment_values tx cs ''ALBUMARTIST'')"
    unfolding special(1) [OF k(3,4)] edited_values_def special(2) [OF k(3,4)] Let_def by simp
  show "comment_values tx (edit_comments tx fs cs) name =
      kept_or (map_option as_values (bt_get fs ''lyrics'')) (comment_values tx cs name)"
    if "name \<in> {''LYRICS'', ''UNSYNCEDLYRICS''}"
  proof -
    have "name \<in> set special_keys" "name \<notin> set index_keys" using that by (auto simp: special_keys_def index_keys_def)
    note lyrics = special [OF this]
    show ?thesis using that unfolding lyrics(1) edited_values_def lyrics(2) Let_def by (elim insertE emptyE) simp_all
  qed
qed

lemma graphic_digits: "list_all graphic (show_nat n)"
  using show_nat_all_digits [of n] by (auto simp: list_all_iff is_ascii_digit_def graphic_def)

lemma unsigned_text:
  assumes "c \<noteq> CHR ''+''" "c \<noteq> CHR ''-''"
  shows "(case c # r of CHR ''+'' # r \<Rightarrow> (False, r) | CHR ''-'' # r \<Rightarrow> (True, r) | _ \<Rightarrow> (False, c # r)) = (False, c # r)"
proof (cases c)
  case (Char b0 b1 b2 b3 b4 b5 b6 b7)
  then show ?thesis using assms
    by (cases b0; cases b1; cases b2; cases b3; cases b4; cases b5; cases b6; cases b7; simp)
qed

lemma parse_show_nat:
  assumes "n \<le> i64_max"
  shows "parse_i64 (show_nat n) = Inr (int n)"
proof -
  obtain c r where s: "show_nat n = c # r" using show_nat_digits [of n] by (cases "show_nat n") auto
  have d: "digits_value 0 (c # r) = Some n" using show_nat_digits [of n] s by simp
  have "is_ascii_digit c" using show_nat_all_digits [of n] s by simp
  then have "c \<noteq> CHR ''+''" "c \<noteq> CHR ''-''" by (auto simp: is_ascii_digit_def byte_of_def)
  then show ?thesis
    unfolding parse_i64_def s unsigned_text [OF \<open>c \<noteq> CHR ''+''\<close> \<open>c \<noteq> CHR ''-''\<close>] using assms d by simp
qed

lemma tag_number_show: "n \<le> i64_max \<Longrightarrow> tag_number (show_nat n) = int n"
  by (simp add: tag_number_def parse_show_nat trim_all_graphic graphic_digits)

lemma slash_not_digit: "CHR ''/'' \<notin> set (show_nat n)"
proof
  assume "CHR ''/'' \<in> set (show_nat n)"
  with show_nat_all_digits [of n] have "is_ascii_digit (CHR ''/'')" by (auto simp: list_all_iff)
  then show False by (simp add: is_ascii_digit_def byte_of_def)
qed

lemma tag_pair_show: "n \<le> i64_max \<Longrightarrow> tag_pair (show_nat n) = (int n, 0)"
  using slash_not_digit [of n]
  by (simp add: tag_pair_def trim_all_graphic graphic_digits tag_number_show find_char_None [THEN iffD2])

lemma tag_pair_show_both:
  assumes "n \<le> i64_max"
  shows "tag_pair (show_nat n @ ''/'' @ show_nat t) = (int n, tag_number (show_nat t))"
proof -
  have "list_all graphic (show_nat n @ ''/'' @ show_nat t)"
    using graphic_digits by (simp add: graphic_def byte_of_def)
  moreover have "find_char (CHR ''/'') (show_nat n @ CHR ''/'' # show_nat t) = Some (length (show_nat n))"
    by (rule find_char_append [OF slash_not_digit])
  moreover obtain i where "length (show_nat n) = Suc i" using show_nat_digits [of n] by (cases "show_nat n") auto
  ultimately show ?thesis using assms
    by (simp add: tag_pair_def trim_all_graphic tag_number_show del: list_all_append)
qed

lemma field_number_bound: "bt_get fs f \<noteq> None \<Longrightarrow> field_number fs f c = field_number fs f 0 \<and> field_number fs f 0 \<le> int i64_max"
  by (auto simp: field_number_def parse_i64_def Let_def i64_max_def split: option.splits sum.splits prod.splits if_splits)

lemma index_text_number:
  assumes "bt_get fs f \<noteq> None"
  shows "fst (index_of_tags (edit_index cur fs f t) [] (0, 0)) = max 0 (field_number fs f 0)"
proof -
  define n where "n = field_number fs f 0"
  note b = field_number_bound [OF assms]
  show ?thesis
  proof (cases "n \<le> 0")
    case True
    then have "field_number fs f (fst cur) \<le> 0" "field_number fs f 0 \<le> 0" using b [of "fst cur"] by (simp_all add: n_def)
    then show ?thesis by (simp add: edit_index_def index_of_tags_def Let_def)
  next
    case False
    then have n: "nat n \<le> i64_max" "int (nat n) = n" using b [of 0] by (simp_all add: n_def nat_le_iff)
    have "field_number fs f (fst cur) = n" using b by (simp add: n_def)
    then show ?thesis
      using n False show_nat_digits [of "nat n"]
      by (auto simp: edit_index_def index_of_tags_def Let_def n_def [symmetric] tag_pair_show
            tag_pair_show_both [simplified])
  qed
qed

lemma edited_index:
  assumes ok: "edit_ok tx fs"
    and which: "(f, t, k, a) \<in> {(''track_number'', ''track_total'', ''TRACKNUMBER'', ''TRACK''),
      (''disc_number'', ''disc_total'', ''DISCNUMBER'', ''DISC'')}"
  obtains cur where
    "comment_values tx (edit_comments tx fs cs) k =
      (if bt_get fs f = None \<and> bt_get fs t = None then comment_values tx cs k else as_values (edit_index cur fs f t))"
    "comment_values tx (edit_comments tx fs cs) a =
      (if bt_get fs f = None \<and> bt_get fs t = None then comment_values tx cs a else [])"
proof -
  let ?track = "set_index tx fs ''track_number'' ''track_total'' ''TRACKNUMBER'' ''TRACK''"
  let ?disc = "set_index tx fs ''disc_number'' ''disc_total'' ''DISCNUMBER'' ''DISC''"
  let ?base = "fold (set_artists tx fs) [(''artist'', ''ARTIST''), (''album_artist'', ''ALBUMARTIST'')]
             (fold (clear_aliases tx fs) alias_fields (fold (set_tag_field tx fs) plain_fields cs))"
  have index: "name \<in> set special_keys" "name \<in> set upper_keys" if "name \<in> set index_keys" for name
    using that by (auto simp: index_keys_def special_keys_def upper_keys_def)
  have plain: "last_edit fs plain_fields name = None" if "name \<in> set index_keys" for name
    using index(1) [OF that] special_not_plain by (auto simp: list_all_iff intro!: last_edit_none)
  have names: "k \<in> set index_keys" "a \<in> set index_keys" using which by (auto simp: index_keys_def)
  have k: "''ARTIST'' \<in> set upper_keys" "''ALBUMARTIST'' \<in> set upper_keys" by (simp_all add: upper_keys_def)
  have base: "comment_values tx ?base name = comment_values tx cs name" if "name \<in> set index_keys" for name
    using that
    by (simp add: values_artists [OF ok index(2) [OF that]] k values_aliases [OF ok index(2) [OF that]]
          values_plain [OF ok index(2) [OF that]] plain [OF that])
       (auto simp: index_keys_def)
  have lyrics: "comment_values tx (edit_comments tx fs cs) name = comment_values tx (?disc (?track ?base)) name"
    if "name \<in> set index_keys" for name
    unfolding edit_comments_def values_lyrics [OF ok index(2) [OF that]]
    using that by (auto simp: index_keys_def)
  have ik: "''TRACKNUMBER'' \<in> set upper_keys" "''TRACK'' \<in> set upper_keys" "''DISCNUMBER'' \<in> set upper_keys" "''DISC'' \<in> set upper_keys"
    by (rule index_keys_upper, simp add: index_keys_def)+
  have other: "comment_values tx (?disc cs') name = comment_values tx cs' name" if "name \<in> {''TRACKNUMBER'', ''TRACK''}" for name cs'
    by (rule values_index_other [OF ok ik(3,4)]) (use that ik in auto)
  have track: "comment_values tx (?track cs') name = comment_values tx cs' name" if "name \<in> {''DISCNUMBER'', ''DISC''}" for name cs'
    by (rule values_index_other [OF ok ik(1,2)]) (use that ik in auto)
  note index_at = values_index [OF ok ik(1,2)] values_index [OF ok ik(3,4)]
  from which show ?thesis
  proof (elim insertE emptyE)
    assume "(f, t, k, a) = (''track_number'', ''track_total'', ''TRACKNUMBER'', ''TRACK'')"
    then show ?thesis using that [of "current_index tx ?base ''TRACKNUMBER'' ''TRACK''"] names
      by (simp add: lyrics other index_at ik base [simplified] del: fold_simps)
  next
    assume "(f, t, k, a) = (''disc_number'', ''disc_total'', ''DISCNUMBER'', ''DISC'')"
    then show ?thesis using that [of "current_index tx (?track ?base) ''DISCNUMBER'' ''DISC''"] names
      by (simp add: lyrics track index_at ik base [simplified] del: fold_simps)
  qed
qed

text \<open>
  The metadata a reader gets after an edit, field by field: an edited field has the edit's value,
  a field without an edit is as before. Clearing \<open>upc\<close> or \<open>album_type\<close> leaves their fallbacks
  (\<open>UPC\<close>, \<open>COMPILATION\<close>) alone, so those two are determined for values that are not empty.
\<close>

definition texts_edited :: "tag_fields \<Rightarrow> audio_metadata \<Rightarrow> audio_metadata \<Rightarrow> bool" where
  "texts_edited fs old new \<longleftrightarrow>
     am_title new = edited fs ''title'' (am_title old) \<and>
     am_album new = edited fs ''album'' (am_album old) \<and>
     am_date new = edited fs ''date'' (am_date old) \<and>
     am_isrc new = edited fs ''isrc'' (am_isrc old) \<and>
     am_genre new = edited fs ''genre'' (am_genre old) \<and>
     am_label new = edited fs ''label'' (am_label old) \<and>
     am_copyright new = edited fs ''copyright'' (am_copyright old) \<and>
     am_composer new = edited fs ''composer'' (am_composer old) \<and>
     am_comment new = edited fs ''comment'' (am_comment old) \<and>
     am_track_gain new = edited fs ''replaygain_track_gain'' (am_track_gain old) \<and>
     am_track_peak new = edited fs ''replaygain_track_peak'' (am_track_peak old) \<and>
     am_album_gain new = edited fs ''replaygain_album_gain'' (am_album_gain old) \<and>
     am_album_peak new = edited fs ''replaygain_album_peak'' (am_album_peak old)"

definition credits_edited :: "tag_text \<Rightarrow> tag_fields \<Rightarrow> audio_metadata \<Rightarrow> audio_metadata \<Rightarrow> bool" where
  "credits_edited tx fs old new \<longleftrightarrow>
     am_artist new = (case credits tx fs ''artist'' of None \<Rightarrow> am_artist old | Some vs \<Rightarrow> joined tx vs) \<and>
     am_album_artist new =
       (case credits tx fs ''album_artist'' of None \<Rightarrow> am_album_artist old | Some vs \<Rightarrow> joined tx vs) \<and>
     am_lyrics new =
       (case bt_get fs ''lyrics'' of None \<Rightarrow> am_lyrics old | Some v \<Rightarrow> if trim v = [] then [] else v) \<and>
     am_explicit new = (case bt_get fs ''explicit'' of None \<Rightarrow> am_explicit old | Some v \<Rightarrow> truthy v)"

text \<open>
  The barcode, whose second field name wins, and the album type: a text that is cleared leaves the fallback of
  the reader, the \<open>UPC\<close> comment and the \<open>COMPILATION\<close> flag; \<open>all\<close> are the values that the file's comments have.
\<close>

definition barcode_edit :: "tag_fields \<Rightarrow> string option" where
  "barcode_edit fs = (case bt_get fs ''barcode'' of None \<Rightarrow> bt_get fs ''upc'' | Some v \<Rightarrow> Some v)"

definition codes_edited :: "tag_fields \<Rightarrow> (string \<Rightarrow> string list) \<Rightarrow> audio_metadata \<Rightarrow> audio_metadata \<Rightarrow> bool" where
  "codes_edited fs all old new \<longleftrightarrow>
     am_upc new =
       (case barcode_edit fs of
          None \<Rightarrow> am_upc old
        | Some v \<Rightarrow> if v = [] then first_value (all ''UPC'') else v) \<and>
     am_album_type new =
       (if bt_get fs ''album_type'' = None \<and> bt_get fs ''compilation'' = None then am_album_type old
        else let kind = edited fs ''album_type'' (first_value (all ''RELEASETYPE'')) in
             if kind = [] \<and> truthy (edited fs ''compilation'' (first_value (all ''COMPILATION''))) then ''compilation''
             else kind) \<and>
     am_year new = am_year old"

lemma texts_are_edited:
  assumes ok: "edit_ok tx fs"
  shows "texts_edited fs (flac_metadata tx (comment_values tx cs) d)
    (flac_metadata tx (comment_values tx (edit_comments tx fs cs)) d)"
proof -
  note plain = values_edited_plain [OF ok]
  have get: "first_value (comment_values tx (edit_comments tx fs cs) k) = edited fs f (first_value (comment_values tx cs k))"
    if "(f, k) \<in> set plain_fields" "k \<noteq> ''BARCODE''" for f k
    using plain [OF that] by (simp add: edited_def)
  let ?old = "\<lambda>k. first_value (comment_values tx cs k)"
  let ?new = "\<lambda>k. first_value (comment_values tx (edit_comments tx fs cs) k)"
  have "?new ''DATE'' = edited fs ''date'' (?old ''DATE'')" by (rule get) (simp_all add: plain_fields_def)
  moreover have "?new ''YEAR'' = (if bt_get fs ''date'' \<noteq> None then [] else ?old ''YEAR'')"
    by (simp add: edited_aliases(1) [OF ok] first_value_def)
  ultimately have date: "(if ?new ''DATE'' = [] then ?new ''YEAR'' else ?new ''DATE'') =
      edited fs ''date'' (if ?old ''DATE'' = [] then ?old ''YEAR'' else ?old ''DATE'')"
    by (simp add: edited_def split: option.splits)
  have label: "first_text (\<lambda>v. v \<noteq> []) [edited fs ''label'' org,
        first_value (comment_values tx (edit_comments tx fs cs) ''LABEL''),
        first_value (comment_values tx (edit_comments tx fs cs) ''PUBLISHER'')] =
      edited fs ''label'' (first_text (\<lambda>v. v \<noteq> [])
        [org, first_value (comment_values tx cs ''LABEL''), first_value (comment_values tx cs ''PUBLISHER'')])" for org
    by (simp add: edited_aliases(2) [OF ok] edited_def first_text_def first_value_def split: option.splits)
  show ?thesis
    unfolding texts_edited_def flac_metadata_def Let_def audio_metadata.simps date
    by (simp add: get plain_fields_def date label split del: if_split)
qed

lemma credits_are_edited:
  assumes ok: "edit_ok tx fs"
  shows "credits_edited tx fs (flac_metadata tx (comment_values tx cs) d)
    (flac_metadata tx (comment_values tx (edit_comments tx fs cs)) d)"
proof -
  have explicit: "comment_values tx (edit_comments tx fs cs) ''ITUNESADVISORY'' =
      kept_or (map_option as_values (bt_get fs ''explicit'')) (comment_values tx cs ''ITUNESADVISORY'')"
    by (rule values_edited_plain [OF ok]) (simp_all add: plain_fields_def)
  have nil: "joined tx [] = []" "first_value [] = []" by (simp_all add: joined_def first_value_def)
  have album: "first_text (\<lambda>v. v \<noteq> []) (map (\<lambda>name. joined tx (comment_values tx (edit_comments tx fs cs) name))
        [''ALBUMARTIST'', ''ALBUM ARTIST'', ''ALBUM_ARTIST'']) =
      (case credits tx fs ''album_artist'' of
         None \<Rightarrow> first_text (\<lambda>v. v \<noteq> []) (map (\<lambda>name. joined tx (comment_values tx cs name))
           [''ALBUMARTIST'', ''ALBUM ARTIST'', ''ALBUM_ARTIST''])
       | Some vs \<Rightarrow> joined tx vs)"
    by (cases "bt_get fs ''album_artist''")
       (simp_all add: edited_credits(2) [OF ok] edited_aliases(3) [OF ok] credits_def first_text_def nil)
  have lyrics: "first_text (\<lambda>v. trim v \<noteq> []) (map (\<lambda>name. first_value (comment_values tx (edit_comments tx fs cs) name))
        [''LYRICS'', ''UNSYNCEDLYRICS'', ''SYNCEDLYRICS'']) =
      (case bt_get fs ''lyrics'' of
         None \<Rightarrow> first_text (\<lambda>v. trim v \<noteq> []) (map (\<lambda>name. first_value (comment_values tx cs name))
           [''LYRICS'', ''UNSYNCEDLYRICS'', ''SYNCEDLYRICS''])
       | Some v \<Rightarrow> if trim v = [] then [] else v)"
    using edited_credits(3) [OF ok, of "''LYRICS''"] edited_credits(3) [OF ok, of "''UNSYNCEDLYRICS''"]
    by (cases "bt_get fs ''lyrics''")
       (simp_all add: edited_aliases(4) [OF ok] first_text_def as_values_def nil trim_def trim_end_def first_value_def)
  have artist: "joined tx (comment_values tx (edit_comments tx fs cs) ''ARTIST'') =
      (case credits tx fs ''artist'' of None \<Rightarrow> joined tx (comment_values tx cs ''ARTIST'') | Some vs \<Rightarrow> joined tx vs)"
    by (simp add: edited_credits(1) [OF ok] kept_or_def split: option.splits)
  have advisory: "truthy (first_value (comment_values tx (edit_comments tx fs cs) ''ITUNESADVISORY'')) =
      (case bt_get fs ''explicit'' of None \<Rightarrow> truthy (first_value (comment_values tx cs ''ITUNESADVISORY'')) | Some v \<Rightarrow> truthy v)"
    unfolding explicit first_value_kept_or by (simp split: option.splits)
  show ?thesis
    unfolding credits_edited_def flac_metadata_def Let_def audio_metadata.simps album lyrics artist advisory by simp
qed

lemma codes_are_edited:
  assumes ok: "edit_ok tx fs"
  shows "codes_edited fs (comment_values tx cs) (flac_metadata tx (comment_values tx cs) d)
    (flac_metadata tx (comment_values tx (edit_comments tx fs cs)) d)"
proof -
  have kind: "first_value (comment_values tx (edit_comments tx fs cs) ''RELEASETYPE'') =
      edited fs ''album_type'' (first_value (comment_values tx cs ''RELEASETYPE''))"
    using values_edited_plain [OF ok, of "''album_type''" "''RELEASETYPE''" cs] by (simp add: plain_fields_def edited_def)
  have comp: "first_value (comment_values tx (edit_comments tx fs cs) ''COMPILATION'') =
      edited fs ''compilation'' (first_value (comment_values tx cs ''COMPILATION''))"
    using values_edited_plain [OF ok, of "''compilation''" "''COMPILATION''" cs] by (simp add: plain_fields_def edited_def)
  have names: "''UPC'' \<in> set upper_keys" "''UPC'' \<notin> set special_keys" "''BARCODE'' \<in> set upper_keys" "''BARCODE'' \<notin> set special_keys"
    by (simp_all add: upper_keys_def plain_fields_def special_keys_def)
  have "last_edit fs plain_fields ''UPC'' = None" by (rule last_edit_none) (simp add: plain_fields_def)
  then have upc: "first_value (comment_values tx (edit_comments tx fs cs) ''UPC'') = first_value (comment_values tx cs ''UPC'')"
    using values_edited [OF ok names(1) special_keysD(1) [OF names(2)]] special_keysD(2) [OF names(2)] by simp
  have "last_edit fs plain_fields ''BARCODE'' = barcode_edit fs" by (simp add: plain_fields_def barcode_edit_def split: option.splits)
  then have barcode: "first_value (comment_values tx (edit_comments tx fs cs) ''BARCODE'') =
      (case barcode_edit fs of None \<Rightarrow> first_value (comment_values tx cs ''BARCODE'') | Some v \<Rightarrow> v)"
    using values_edited [OF ok names(3) special_keysD(1) [OF names(4)]] special_keysD(2) [OF names(4)] by simp
  show ?thesis
    unfolding codes_edited_def flac_metadata_def Let_def audio_metadata.simps kind comp upc barcode
    by (simp add: edited_def split: option.split)
qed

end
