(* ===== verification/Flac_Edit.thy ===== *)
theory Flac_Edit
  imports Flac_Tags Comment_Views
begin

text \<open>
  The shape of the files the FLAC writer accepts (a prefix that is empty or an ID3v2 tag, the
  marker, metadata blocks, audio frames), what the writer's header is for such a file, and what
  the reader gets from one. Each reader has two lemmas: what it returns when it returns, whatever
  the accesses did, and that it returns when no access fails.
\<close>

section \<open>Block headers\<close>

definition block_flag :: "bool \<Rightarrow> u8" where
  "block_flag final = (if final then 0x80 else 0)"

definition block_header :: "bool \<Rightarrow> u8 \<Rightarrow> nat \<Rightarrow> u8 list" where
  "block_header final kind len = [kind OR block_flag final] @ drop 1 (be_bytes4 len)"

definition kind_ok :: "u8 \<Rightarrow> bool" where
  "kind_ok kind \<longleftrightarrow> kind AND 0x7f = kind"

fun blocks_bytes :: "flac_blocks \<Rightarrow> u8 list" where
  "blocks_bytes [] = []"
| "blocks_bytes ((kind, data) # rest) = block_header (rest = []) kind (length data) @ data @ blocks_bytes rest"

definition block_ok :: "u8 \<times> u8 list \<Rightarrow> bool" where
  "block_ok b \<longleftrightarrow> kind_ok (fst b) \<and> length (snd b) \<le> 0xffffff"

lemma kind_ok_masked [simp]: "kind_ok (w AND 0x7f)"
  by (simp add: kind_ok_def and.assoc)

lemma bit_last_flag: "bit (0x80 :: u8) n \<longleftrightarrow> n = 7"
proof -
  have "(0x80 :: u8) = 2 ^ 7" by simp
  then show ?thesis by (simp only: bit_exp_iff) auto
qed

lemma bit_kind_mask: "bit (0x7f :: u8) n \<longleftrightarrow> n < 7"
proof -
  have "(0x7f :: u8) = mask 7" by (simp add: mask_eq_exp_minus_1)
  then show ?thesis by (simp only: bit_mask_iff) auto
qed

lemma flagged_parts:
  assumes "kind_ok k"
  shows "(k OR block_flag f) AND 0x7f = k" and "(k OR block_flag f) AND 0x80 \<noteq> 0 \<longleftrightarrow> f"
proof -
  have k: "bit k n \<Longrightarrow> n < 7" for n
    using assms bit_kind_mask [of n] by (auto simp: kind_ok_def bit_and_iff dest!: arg_cong [where f = "\<lambda>w. bit w n"])
  show "(k OR block_flag f) AND 0x7f = k"
  proof (rule bit_word_eqI)
    fix n show "bit ((k OR block_flag f) AND 0x7f) n = bit k n"
      using k [of n] bit_last_flag [of n] bit_kind_mask [of n] by (auto simp: block_flag_def bit_and_iff bit_or_iff)
  qed
  have "(k OR block_flag f) AND 0x80 = block_flag f"
  proof (rule bit_word_eqI)
    fix n show "bit ((k OR block_flag f) AND 0x80) n = bit (block_flag f) n"
      using k [of n] bit_last_flag [of n] by (auto simp: block_flag_def bit_and_iff bit_or_iff)
  qed
  then show "(k OR block_flag f) AND 0x80 \<noteq> 0 \<longleftrightarrow> f" by (simp add: block_flag_def)
qed

lemma unflagged: "w = (w AND 0x7f) OR block_flag (w AND 0x80 \<noteq> 0)" for w :: u8
proof -
  have flag: "w AND 0x80 = block_flag (bit w 7)"
  proof (rule bit_word_eqI)
    fix n show "bit (w AND 0x80) n = bit (block_flag (bit w 7)) n"
      using bit_last_flag [of n] by (auto simp: block_flag_def bit_and_iff)
  qed
  show ?thesis
  proof (rule bit_word_eqI)
    fix n assume "n < LENGTH(8)"
    then have "n < 7 \<or> n = 7" by auto
    then show "bit w n = bit ((w AND 0x7f) OR block_flag (w AND 0x80 \<noteq> 0)) n"
      using bit_last_flag [of n] bit_kind_mask [of n] by (auto simp: flag block_flag_def bit_and_iff bit_or_iff)
  qed
qed

lemma be_number_three: "be_number (drop 1 (be_bytes4 n)) = n mod 2 ^ 24"
proof -
  have "n mod 2 ^ 32 = 16777216 * (n div 16777216 mod 256) + n mod 2 ^ 24"
    using mod_mult2_eq [of n 16777216 256] by simp
  moreover have "be_number (be_bytes4 n) = 16777216 * unat (word_of_nat (n div 16777216) :: u8) + be_number (drop 1 (be_bytes4 n))"
    by (simp add: be_bytes4_def u32_to_le_bytes_def be_number_def)
  ultimately show ?thesis by (simp add: be_bytes_number unat_word_of_nat8)
qed

lemma be_bytes_of_three:
  "be_bytes4 (be_number [0, a, b, c]) = [0, a, b, c]"
  using le_bytes_of_number [of "[c, b, a, 0]"] be_number_rev [of "[c, b, a, 0]"] by (simp add: be_bytes4_def)

lemma length_block_header [simp]: "length (block_header f k n) = 4"
  by (simp add: block_header_def)

lemma block_header_parts:
  assumes "kind_ok k" "n \<le> 0xffffff"
  shows "block_kind (block_header f k n) = k" "block_last (block_header f k n) = f"
    "block_length (block_header f k n) = n"
proof -
  obtain a b c where d: "drop 1 (be_bytes4 n) = [a, b, c]" by (simp add: be_bytes4_def u32_to_le_bytes_def)
  then have h: "block_header f k n = [k OR block_flag f, a, b, c]" by (simp add: block_header_def)
  show "block_kind (block_header f k n) = k" "block_last (block_header f k n) = f"
    by (simp_all add: block_header_def block_kind_def block_last_def flagged_parts [OF assms(1)])
  have "be_number [a, b, c] = n" using be_number_three [of n] assms(2) d by simp
  then show "block_length (block_header f k n) = n" by (simp add: h block_length_def be_number_zero)
qed

lemma block_header_of:
  assumes "length h = 4"
  shows "h = block_header (block_last h) (block_kind h) (block_length h)" "block_length h \<le> 0xffffff"
proof -
  obtain k a b c where h: "h = [k, a, b, c]" using assms by (auto simp: numeral_eq_Suc length_Suc_conv)
  show "h = block_header (block_last h) (block_kind h) (block_length h)"
    using unflagged [of k] be_bytes_of_three [of a b c]
    by (simp add: h block_header_def block_last_def block_kind_def block_length_def)
  have "unat a < 256" "unat b < 256" "unat c < 256"
    using unsigned_less [of a] unsigned_less [of b] unsigned_less [of c] by simp_all
  then show "block_length h \<le> 0xffffff" by (simp add: h block_length_def be_number_def)
qed

lemma put_blocksD:
  "put_blocks head bs = Inr out \<Longrightarrow> out = head @ blocks_bytes bs \<and> (\<forall>b \<in> set bs. length (snd b) \<le> 0xffffff)"
  by (induction head bs arbitrary: out rule: put_blocks.induct)
     (auto simp: block_header_def block_flag_def split: if_splits)

lemma put_blocks_bound:
  "put_blocks head bs = Inr out \<Longrightarrow> length head \<le> max_tag_bytes \<Longrightarrow> length out \<le> max_tag_bytes"
  by (induction head bs arbitrary: out rule: put_blocks.induct) (auto split: if_splits)

section \<open>Reading the blocks of a file\<close>

definition strip_picture :: "bool \<Rightarrow> u8 \<times> u8 list \<Rightarrow> u8 \<times> u8 list" where
  "strip_picture dp b = (fst b, if fst b = 6 \<and> dp then [] else snd b)"

lemma exact_drop:
  assumes "io_exact env n s = Inr (bs, s')"
  shows "drop (tio_pos s) (te_source env) = bs @ drop (tio_pos s') (te_source env)"
  using io_exactD [OF assms] by (metis append_take_drop_id drop_drop add.commute)

lemma payload_read:
  assumes "(if kind = 6 \<and> dp then try_bind (discard_bytes env len s) (\<lambda>s. Inr ([], s)) else io_bytes env len s) = Inr (data, s')"
    and "tio_pos s \<le> length (te_source env)"
  obtains raw where "length raw = len" "drop (tio_pos s) (te_source env) = raw @ drop (tio_pos s') (te_source env)"
    "data = snd (strip_picture dp (kind, raw))" "tio_pos s' \<le> length (te_source env)" "tio_out s' = tio_out s"
proof (cases "kind = 6 \<and> dp")
  case True
  then have d: "discard_loop env len True s = Inr s'" "data = []"
    using assms(1) by (auto simp: try_bind_eq_Inr discard_bytes_def)
  have pos: "tio_pos s' = tio_pos s + len" "tio_out s' = tio_out s" "tio_pos s + len \<le> length (te_source env)"
    using discard_loopD [OF d(1)] assms(2) by auto
  have "drop (tio_pos s) (te_source env) = take len (drop (tio_pos s) (te_source env)) @ drop (tio_pos s') (te_source env)"
    unfolding pos(1) by (metis append_take_drop_id drop_drop add.commute)
  then show ?thesis
    by (intro that [of "take len (drop (tio_pos s) (te_source env))"]) (use pos True d(2) in \<open>auto simp: strip_picture_def\<close>)
next
  case False
  then have e: "io_exact env len s = Inr (data, s')" using assms(1) by auto
  have "tio_pos s' \<le> length (te_source env)"
    using io_exactD(3) [OF e] io_exact_inside [OF e] assms(2) by (cases "len = 0") auto
  then show ?thesis
    by (intro that [of data]) (use io_exactD(2,4) [OF e] exact_drop [OF e] False in \<open>auto simp: strip_picture_def\<close>)
qed

lemma read_blocks_step:
  assumes "read_blocks env dp acc tot s = Inr (blocks, s')"
  obtains h s1 raw s2 where
    "length h = 4" "length raw = block_length h"
    "drop (tio_pos s) (te_source env) = h @ raw @ drop (tio_pos s2) (te_source env)"
    "tio_pos s2 \<le> length (te_source env)" "tio_out s2 = tio_out s"
    "if block_last h then blocks = acc @ [strip_picture dp (block_kind h, raw)] \<and> s' = s2
     else read_blocks env dp (acc @ [strip_picture dp (block_kind h, raw)]) (tot + block_length h + 4) s2 = Inr (blocks, s')"
    "length acc < 65536"
proof -
  note step = assms [unfolded read_blocks.simps [of env dp acc tot s]]
  obtain s0 h s1 data s2 where c: "io_check env s = Inr s0" and h: "io_bytes env 4 s0 = Inr (h, s1)"
    and p: "(if block_kind h = 6 \<and> dp then try_bind (discard_bytes env (block_length h) s1) (\<lambda>s. Inr ([], s))
             else io_bytes env (block_length h) s1) = Inr (data, s2)"
    and rest: "(if block_last h then Inr (acc @ [(block_kind h, data)], s2)
      else read_blocks env dp (acc @ [(block_kind h, data)]) (tot + block_length h + 4) s2) = Inr (blocks, s')"
    and small: "length acc < 65536"
    using step by (auto simp: try_bind_eq_Inr Let_def split: if_splits)
  have s1: "tio_pos s1 \<le> length (te_source env)" "tio_out s1 = tio_out s"
    using io_exact_inside [OF h] io_exactD(3,4) [OF h] io_checkD [OF c] by auto
  obtain raw where raw: "length raw = block_length h"
    "drop (tio_pos s1) (te_source env) = raw @ drop (tio_pos s2) (te_source env)"
    "data = snd (strip_picture dp (block_kind h, raw))" "tio_pos s2 \<le> length (te_source env)" "tio_out s2 = tio_out s1"
    using payload_read [OF p s1(1)] by blast
  have "strip_picture dp (block_kind h, raw) = (block_kind h, data)" using raw(3) by (simp add: strip_picture_def)
  then show ?thesis
    using that [of h raw s2] raw s1 rest small exact_drop [OF h] io_exactD(2) [OF h] io_checkD [OF c]
    by (auto split: if_splits)
qed

lemma read_blocksD:
  "read_blocks env dp acc tot s = Inr (blocks, s') \<Longrightarrow>
   \<exists>raw. raw \<noteq> [] \<and> (\<forall>b \<in> set raw. block_ok b) \<and> blocks = acc @ map (strip_picture dp) raw \<and>
     drop (tio_pos s) (te_source env) = blocks_bytes raw @ drop (tio_pos s') (te_source env) \<and>
     tio_pos s' \<le> length (te_source env) \<and> tio_out s' = tio_out s"
proof (induction "65536 - length acc" arbitrary: acc tot s rule: less_induct)
  case less
  obtain h raw s2 where h: "length h = 4" "length raw = block_length h"
    and d: "drop (tio_pos s) (te_source env) = h @ raw @ drop (tio_pos s2) (te_source env)"
    and s2: "tio_pos s2 \<le> length (te_source env)" "tio_out s2 = tio_out s"
    and rest: "if block_last h then blocks = acc @ [strip_picture dp (block_kind h, raw)] \<and> s' = s2
     else read_blocks env dp (acc @ [strip_picture dp (block_kind h, raw)]) (tot + block_length h + 4) s2 = Inr (blocks, s')"
    and small: "length acc < 65536"
    by (rule read_blocks_step [OF less.prems])
  have ok: "block_ok (block_kind h, raw)"
    using h(2) block_header_of(2) [OF h(1)] by (simp add: block_ok_def block_kind_def)
  show ?case
  proof (cases "block_last h")
    case True
    have "blocks_bytes [(block_kind h, raw)] = h @ raw" using block_header_of(1) [OF h(1)] True h(2) by simp
    then show ?thesis using True rest d s2 ok by (intro exI [of _ "[(block_kind h, raw)]"]) auto
  next
    case False
    with rest have rec: "read_blocks env dp (acc @ [strip_picture dp (block_kind h, raw)]) (tot + block_length h + 4) s2 = Inr (blocks, s')"
      by simp
    obtain more where more: "more \<noteq> []" "\<forall>b \<in> set more. block_ok b"
      "blocks = (acc @ [strip_picture dp (block_kind h, raw)]) @ map (strip_picture dp) more"
      "drop (tio_pos s2) (te_source env) = blocks_bytes more @ drop (tio_pos s') (te_source env)"
      "tio_pos s' \<le> length (te_source env)" "tio_out s' = tio_out s2"
      using less.hyps [OF _ rec] small by force
    have "blocks_bytes ((block_kind h, raw) # more) = h @ raw @ blocks_bytes more"
      using block_header_of(1) [OF h(1)] False h(2) more(1) by simp
    then show ?thesis using more d s2 ok by (intro exI [of _ "(block_kind h, raw) # more"]) simp
  qed
qed

section \<open>The shape of a file\<close>

definition stream_prefix :: "u8 list \<Rightarrow> bool" where
  "stream_prefix pre \<longleftrightarrow> pre = [] \<or> take 3 pre = id3_magic \<and> v2_tag_length (take 10 pre) = Some (length pre)"

definition flac_file :: "u8 list \<Rightarrow> flac_blocks \<Rightarrow> u8 list \<Rightarrow> u8 list" where
  "flac_file pre blocks audio = pre @ flac_magic @ blocks_bytes blocks @ audio"

lemma magic_lengths [simp]: "length flac_magic = 4" "length id3_magic = 3"
  by (simp_all add: flac_magic_def id3_magic_def)

lemma flac_magic_not_id3: "take 3 flac_magic \<noteq> id3_magic"
  by (simp add: flac_magic_def id3_magic_def as_bytes_def byte_of_def)

lemma v2_tag_length_bound: "v2_tag_length h = Some n \<Longrightarrow> 10 \<le> n \<and> take 3 h = id3_magic"
  by (auto simp: v2_tag_length_def Let_def split: if_splits)

lemma exact_at:
  assumes "io_exact env n s = Inr (bs, s')" "te_source env = a @ b @ c" "length a = tio_pos s" "length b = n"
  shows "bs = b" "tio_pos s' = length a + n" "tio_out s' = tio_out s"
  using io_exactD [OF assms(1)] assms(2-4) by simp_all

lemma flac_startD:
  assumes "flac_start env s = Inr (start, s')" "tio_pos s = 0"
  shows "stream_prefix (take start (te_source env)) \<and> start \<le> length (te_source env) \<and>
    drop start (te_source env) = flac_magic @ drop (tio_pos s') (te_source env) \<and>
    tio_pos s' \<le> length (te_source env) \<and> tio_out s' = tio_out s"
proof -
  let ?src = "te_source env"
  obtain sig s1 where e: "io_exact env 4 s = Inr (sig, s1)" using assms(1) by (auto simp: flac_start_def try_bind_eq_Inr)
  note sig = io_exactD [OF e] and inside = io_exact_inside [OF e]
  have here: "tio_pos s1 = 4" "?src = sig @ drop 4 ?src" using sig exact_drop [OF e] assms(2) by simp_all
  show ?thesis
  proof (cases "take 3 sig = id3_magic")
    case False
    then have "start = 0" "sig = flac_magic" "s' = s1"
      using assms(1) e by (auto simp: flac_start_def split: if_splits)
    then show ?thesis using here sig inside assms(2) by (simp add: stream_prefix_def)
  next
    case True
    then obtain rest s2 s3 sig2 where r: "io_exact env 6 s1 = Inr (rest, s2)"
      and len: "v2_tag_length (sig @ rest) = Some start" and k: "io_seek env start s2 = Inr s3"
      and e2: "io_exact env 4 s3 = Inr (sig2, s')" and m: "sig2 = flac_magic"
      using assms(1) e by (auto simp: flac_start_def try_bind_eq_Inr ok_or_eq_Inr split: if_splits)
    have "drop 4 ?src = rest @ drop (tio_pos s2) ?src" using here exact_drop [OF r] by simp
    with here(2) have "?src = (sig @ rest) @ drop (tio_pos s2) ?src" by (metis append_assoc)
    moreover have "length (sig @ rest) = 10" using sig(2) io_exactD(2) [OF r] by simp
    ultimately have head: "take 10 ?src = sig @ rest" by (metis append_eq_conv_conj)
    have "take 3 ?src = take 3 (take 10 ?src)" by simp
    then have three: "take 3 ?src = take 3 (sig @ rest)" by (simp only: head)
    have "tio_pos s3 = start" "tio_out s3 = tio_out s2" using io_seekD [OF k] by simp_all
    moreover have "start + 4 \<le> length ?src" using io_exact_inside [OF e2] calculation by simp
    moreover have "10 \<le> start" "take 3 (sig @ rest) = id3_magic" using v2_tag_length_bound [OF len] by simp_all
    ultimately show ?thesis
      using exact_drop [OF e2] io_exactD(3,4) [OF e2] io_exactD(4) [OF r] sig(4) m len head three
      by (auto simp: stream_prefix_def min_def)
  qed
qed

section \<open>The header that is written\<close>

lemma strip_fst [simp]: "fst (strip_picture dp b) = fst b"
  by (simp add: strip_picture_def)

lemma strip_none [simp]: "strip_picture False = (\<lambda>b. b)"
  by (simp add: strip_picture_def fun_eq_iff)

lemma position_strip [simp]: "position (\<lambda>b. fst b = 4) (map (strip_picture dp) bs) = position (\<lambda>b. fst b = 4) bs"
  by (induction bs) auto

lemma old_comments_strip: "old_comments (map (strip_picture dp) bs) = old_comments bs"
proof (cases "position (\<lambda>b. fst b = 4) bs")
  case (Some i)
  then have "i < length bs" "fst (bs ! i) = 4" using position_lt position_Some by force+
  then show ?thesis by (simp add: old_comments_def Some strip_picture_def)
qed (simp add: old_comments_def)

lemma replace_comments_strip:
  "replace_comments data (map (strip_picture dp) bs) = map (strip_picture dp) (replace_comments data bs)"
proof (cases "position (\<lambda>b. fst b = 4) bs")
  case (Some i)
  then have i: "i < length bs" "fst (bs ! i) = 4" using position_lt position_Some by force+
  then have "strip_picture dp (fst (bs ! i), data) = (fst (bs ! i), data)" by (simp add: strip_picture_def)
  then show ?thesis using i by (simp add: replace_comments_def Some map_update)
qed (simp add: replace_comments_def strip_picture_def)

lemma filter_strip: "filter (\<lambda>b. fst b \<noteq> 6) (map (strip_picture dp) bs) = filter (\<lambda>b. fst b \<noteq> 6) bs"
  by (induction bs) (auto simp: strip_picture_def)

definition picture_blocks :: "u8 list option \<Rightarrow> flac_blocks" where
  "picture_blocks p = (case p of None \<Rightarrow> [] | Some d \<Rightarrow> [(6, d)])"

text \<open>
  The blocks of the new header: the first comment block has the new comments (a block of its own if
  there was none), and replacement artwork takes the place of every old picture.
\<close>

definition blocks_rewritten ::
  "'img image_lib \<Rightarrow> tag_env \<Rightarrow> u8 list option \<Rightarrow> u8 list \<Rightarrow> flac_blocks \<Rightarrow> flac_blocks \<Rightarrow> bool" where
  "blocks_rewritten img env cover data old new \<longleftrightarrow>
     (case cover of
        None \<Rightarrow> new = replace_comments data old
      | Some c \<Rightarrow> \<exists>p s s'. picture img env c s = Inr (p, s') \<and>
          new = filter (\<lambda>b. fst b \<noteq> 6) (replace_comments data old) @ picture_blocks p)"

lemma first_fitting_out: "first_fitting env enc qs s = Inr (d, s') \<Longrightarrow> tio_out s' = tio_out s"
proof (induction qs arbitrary: s)
  case (Cons q qs)
  then obtain s0 where c: "io_check env s = Inr s0" by (auto simp: try_bind_eq_Inr)
  have "tio_out s0 = tio_out s" using io_checkD [OF c] by simp
  with Cons c show ?case by (cases "enc q") (auto split: if_splits)
qed simp

lemma shrink_cover_out: "shrink_cover img env im s = Inr (d, s') \<Longrightarrow> tio_out s' = tio_out s"
  unfolding shrink_cover_def try_bind_eq_Inr by (auto simp del: first_fitting.simps dest!: first_fitting_out split: if_splits)

lemma picture_out:
  assumes "picture img env c s = Inr (p, s')"
  shows "tio_out s' = tio_out s"
proof -
  obtain d s1 where small: "(if length c > cover_limit then
          try_bind (guess_ok img c) (\<lambda>_. case im_decode img c of None \<Rightarrow> Inr (None, s) | Some im \<Rightarrow> shrink_cover img env im s)
        else Inr (Some c, s)) = Inr (d, s1)"
    and rest: "(case d of None \<Rightarrow> Inr (None, s1) | Some data \<Rightarrow>
           try_bind (io_check env s1) (\<lambda>s.
             let mime = cover_mime data in
             try_bind (guess_ok img data) (\<lambda>_.
               let dims = (case im_dimensions img data of
                             None \<Rightarrow> (0, 0, 0)
                           | Some (w, h) \<Rightarrow> (w, h, if mime = ''image/png'' then 32 else if mime = ''image/jpeg'' then 24 else 0))
               in Inr (Some (picture_bytes mime dims data), s)))) = Inr (p, s')"
    using assms unfolding picture_def try_bind_eq_Inr [of "if _ then _ else _"] by auto
  have "tio_out s1 = tio_out s"
    using small by (auto simp: try_bind_eq_Inr dest!: shrink_cover_out split: if_splits option.splits)
  moreover have "tio_out s' = tio_out s1"
    using rest by (cases d) (auto simp: try_bind_eq_Inr Let_def dest!: io_checkD)
  ultimately show ?thesis by simp
qed

definition header_written ::
  "tag_text \<Rightarrow> 'img image_lib \<Rightarrow> tag_env \<Rightarrow> (comment list \<Rightarrow> comment list) \<Rightarrow> u8 list option \<Rightarrow> file_section \<Rightarrow>
   u8 list \<Rightarrow> flac_blocks \<Rightarrow> flac_blocks \<Rightarrow> u8 list \<Rightarrow> bool" where
  "header_written tx img env change cover sec pre old new audio \<longleftrightarrow>
     te_source env = flac_file pre old audio \<and> stream_prefix pre \<and> old \<noteq> [] \<and> (\<forall>b \<in> set old. block_ok b) \<and>
     2 \<le> length audio \<and> frame_sync (take 2 audio) \<and>
     (\<exists>vendor cs. old_comments old = Inr (vendor, cs) \<and> blocks_rewritten img env cover (put_comments vendor (change cs)) old new) \<and>
     (\<forall>b \<in> set new. length (snd b) \<le> 0xffffff) \<and> 4 + length (blocks_bytes new) \<le> max_tag_bytes \<and>
     sec_start sec = length pre \<and> drop (sec_end sec) (te_source env) = audio \<and>
     sec_end sec = length pre + length flac_magic + length (blocks_bytes old) \<and>
     sec_data sec = flac_magic @ blocks_bytes new"

lemma flac_headerD:
  assumes "flac_header tx img env fs cover mode s = Inr (sec, s')" "tio_pos s = 0"
  shows "(\<exists>pre old new audio. header_written tx img env (change_comments tx fs mode) cover sec pre old new audio) \<and>
    tio_out s' = tio_out s"
proof -
  let ?src = "te_source env"
  obtain start s1 blocks s2 s3 sync s4 vendor cs new s5 head where
    st: "flac_start env s = Inr (start, s1)" and rb: "read_blocks env (cover \<noteq> None) [] 0 s1 = Inr (blocks, s2)"
    and sk: "io_seek env (tio_pos s2) s2 = Inr s3" and sy: "io_bytes env 2 s3 = Inr (sync, s4)" "frame_sync sync"
    and oc: "old_comments blocks = Inr (vendor, cs)"
    and rp: "replace_picture img env cover (replace_comments (put_comments vendor (change_comments tx fs mode cs)) blocks) s4 = Inr (new, s5)"
    and pb: "put_blocks flac_magic new = Inr head"
    and res: "sec = \<lparr>sec_start = start, sec_end = tio_pos s3, sec_data = head\<rparr>" "s' = s5"
    using assms(1) by (auto simp: flac_header_def try_bind_eq_Inr Let_def split: if_splits)
  note start = flac_startD [OF st assms(2)]
  obtain raw where raw: "raw \<noteq> []" "\<forall>b \<in> set raw. block_ok b" "blocks = map (strip_picture (cover \<noteq> None)) raw"
    "drop (tio_pos s1) ?src = blocks_bytes raw @ drop (tio_pos s2) ?src" "tio_pos s2 \<le> length ?src" "tio_out s2 = tio_out s1"
    using read_blocksD [OF rb] by auto
  define audio where "audio = drop (tio_pos s2) ?src"
  have s3: "tio_pos s3 = tio_pos s2" "tio_out s3 = tio_out s2" using io_seekD [OF sk] by simp_all
  have split: "?src = flac_file (take start ?src) raw audio"
    using start raw(4) by (metis append_take_drop_id audio_def flac_file_def)
  have "length ?src = start + 4 + length (blocks_bytes raw) + length audio"
    using arg_cong [OF split, of length] start by (simp add: flac_file_def)
  then have pos: "tio_pos s2 = start + 4 + length (blocks_bytes raw)" using raw(5) by (simp add: audio_def)
  have sync: "sync = take 2 audio" "2 \<le> length audio"
    using io_exactD(1) [OF sy(1)] io_exact_inside [OF sy(1)] s3 by (simp_all add: audio_def)
  have out4: "tio_out s4 = tio_out s" using io_exactD(4) [OF sy(1)] s3 raw(6) start by simp
  have rewritten: "blocks_rewritten img env cover (put_comments vendor (change_comments tx fs mode cs)) raw new \<and> tio_out s5 = tio_out s4"
    using rp unfolding raw(3) replace_comments_strip
    by (cases cover)
       (auto simp: replace_picture_def blocks_rewritten_def try_bind_eq_Inr filter_strip picture_blocks_def [symmetric]
         dest: picture_out)
  have "4 + length (blocks_bytes new) \<le> max_tag_bytes"
    using put_blocks_bound [OF pb] put_blocksD [OF pb] by (simp add: max_tag_bytes_def flac_magic_def)
  then have "header_written tx img env (change_comments tx fs mode) cover sec (take start ?src) raw new audio"
    unfolding header_written_def
    using split start raw(1,2) sync sy(2) oc [unfolded raw(3) old_comments_strip] rewritten put_blocksD [OF pb] res pos s3
    by (auto simp: audio_def min_absorb2)
  then show ?thesis using rewritten out4 res(2) by auto
qed

section \<open>The file that is written\<close>

lemma spliced_header:
  assumes "header_written tx img env change cover sec pre old new audio"
  shows "spliced (te_source env) 0 [sec] = flac_file pre new audio"
  using assms by (auto simp: header_written_def flac_file_def)

lemma section_written:
  assumes h: "flac_header tx img env fs cover mode s = Inr (sec, s1)" "tio_pos s = 0"
    and w: "write_sections env [sec] s1 = Inr s'"
  obtains pre old new audio where
    "header_written tx img env (change_comments tx fs mode) cover sec pre old new audio"
    "tio_out s' = tio_out s @ flac_file pre new audio"
proof -
  obtain pre old new audio where hw: "header_written tx img env (change_comments tx fs mode) cover sec pre old new audio"
    and out: "tio_out s1 = tio_out s"
    using flac_headerD [OF h] by blast
  show ?thesis using that [OF hw] write_sectionsD [OF w] spliced_header [OF hw] out by (simp add: sort_key_def)
qed

lemma rewrite_flac_written:
  assumes "rewrite_flac_tags tx img env fs cover tag_start = Inr s'"
  obtains sec pre old new audio where
    "header_written tx img env (edit_comments tx (artist_mode_fields tx fs)) (some_cover cover) sec pre old new audio"
    "tio_out s' = flac_file pre new audio"
proof -
  obtain s0 s1 sec s2 where c: "io_check env tag_start = Inr s0" and k: "io_seek env 0 s0 = Inr s1"
    and h: "flac_header tx img env (artist_mode_fields tx fs) (some_cover cover) None s1 = Inr (sec, s2)"
    and w: "write_sections env [sec] s2 = Inr s'"
    using assms by (auto simp: rewrite_flac_tags_def try_bind_eq_Inr)
  have s1: "tio_pos s1 = 0" "tio_out s1 = []"
    using io_seekD [OF k] io_checkD [OF c] by (simp_all add: tag_start_def)
  have "change_comments tx (artist_mode_fields tx fs) None = edit_comments tx (artist_mode_fields tx fs)"
    by (simp add: change_comments_def fun_eq_iff)
  then show ?thesis using section_written [OF h s1(1) w] that s1(2) by (metis append_Nil)
qed

lemma replace_comments_others:
  assumes "\<not> P 4"
  shows "filter (\<lambda>b. P (fst b)) (replace_comments data bs) = filter (\<lambda>b. P (fst b)) bs"
proof (cases "position (\<lambda>b. fst b = 4) bs")
  case (Some i)
  then have i: "i < length bs" "fst (bs ! i) = 4" using position_lt position_Some by force+
  have "filter (\<lambda>b. P (fst b)) (bs[i := (fst (bs ! i), data)]) = filter (\<lambda>b. P (fst b)) (take i bs @ drop (Suc i) bs)"
    using i assms by (simp add: upd_conv_take_nth_drop)
  also have "\<dots> = filter (\<lambda>b. P (fst b)) bs"
    using i assms by (subst (3) id_take_nth_drop [OF i(1)]) simp
  finally show ?thesis by (simp add: replace_comments_def Some)
qed (use assms in \<open>simp add: replace_comments_def\<close>)

definition blocks_of_kind :: "(u8 \<Rightarrow> bool) \<Rightarrow> flac_blocks \<Rightarrow> flac_blocks" where
  "blocks_of_kind P bs = filter (\<lambda>b. P (fst b)) bs"

lemma blocks_rewritten_kept:
  assumes "blocks_rewritten img env cover data old new"
  shows "blocks_of_kind (\<lambda>k. k \<noteq> 4 \<and> k \<noteq> 6) new = blocks_of_kind (\<lambda>k. k \<noteq> 4 \<and> k \<noteq> 6) old"
    and "cover = None \<Longrightarrow> blocks_of_kind (\<lambda>k. k = 6) new = blocks_of_kind (\<lambda>k. k = 6) old"
    and "cover \<noteq> None \<Longrightarrow> length (blocks_of_kind (\<lambda>k. k = 6) new) \<le> 1"
proof -
  note others = replace_comments_others [of "\<lambda>k. k \<noteq> 4 \<and> k \<noteq> 6" data old] replace_comments_others [of "\<lambda>k. k = 6" data old]
  have twice: "filter (\<lambda>b. fst b \<noteq> 4 \<and> fst b \<noteq> 6) (filter (\<lambda>b. fst b \<noteq> 6) bs) = filter (\<lambda>b. fst b \<noteq> 4 \<and> fst b \<noteq> (6 :: u8)) bs"
    for bs :: flac_blocks by (auto simp: filter_filter intro!: filter_cong)
  show "blocks_of_kind (\<lambda>k. k \<noteq> 4 \<and> k \<noteq> 6) new = blocks_of_kind (\<lambda>k. k \<noteq> 4 \<and> k \<noteq> 6) old"
    using assms others(1) twice by (auto simp: blocks_rewritten_def blocks_of_kind_def picture_blocks_def split: option.splits)
  show "blocks_of_kind (\<lambda>k. k = 6) new = blocks_of_kind (\<lambda>k. k = 6) old" if "cover = None"
    using assms others(2) that by (simp add: blocks_rewritten_def blocks_of_kind_def)
  show "length (blocks_of_kind (\<lambda>k. k = 6) new) \<le> 1" if "cover \<noteq> None"
    using assms that by (auto simp: blocks_rewritten_def blocks_of_kind_def picture_blocks_def split: option.splits)
qed

section \<open>Reading a file back\<close>

definition scan_block :: "tag_text \<Rightarrow> bool \<Rightarrow> u8 \<times> u8 list \<Rightarrow> flac_scan \<Rightarrow> flac_scan" where
  "scan_block tx want b sc =
     (if fst b = 4 \<and> \<not> fsc_found sc then take_comments tx (snd b) sc
      else if fst b = 6 \<and> \<not> fsc_front sc \<and> want then take_picture (snd b) sc
      else sc)"

lemma flac_block_at:
  assumes r: "flac_block tx want env (length (te_source env)) sc s = Inr (sc', final', s')"
    and src: "te_source env = a @ block_header final k (length d) @ d @ rest" "length a = tio_pos s"
    and ok: "block_ok (k, d)"
  shows "sc' = scan_block tx want (k, d) sc \<and> final' = final \<and> tio_pos s' = length a + 4 + length d"
proof -
  let ?h = "block_header final k (length d)"
  obtain h s1 where h: "io_exact env 4 s = Inr (h, s1)" using r by (auto simp: flac_block_def try_bind_eq_Inr)
  have h': "h = ?h" and s1: "tio_pos s1 = length a + 4" using exact_at [OF h src] by simp_all
  have p: "block_kind h = k" "block_last h = final" "block_length h = length d"
    using block_header_parts [of k "length d" final] ok by (simp_all add: h' block_ok_def)
  have data: "data = d \<and> tio_pos s2 = length a + 4 + length d" if "io_exact env (length d) s1 = Inr (data, s2)" for data s2
    using exact_at [OF that, of "a @ ?h" d rest] src(1) s1 by simp
  show ?thesis
    using r unfolding flac_block_def h try_bind_simps split Let_def p s1 scan_block_def
    by (auto simp: try_bind_eq_Inr dest!: data io_seekD split: if_splits)
qed

lemma flac_loop_at:
  assumes "flac_loop tx want env (length (te_source env)) sc s = Inr (sc', s')"
    and "te_source env = a @ blocks_bytes bs @ audio" "length a = tio_pos s" "bs \<noteq> []" "\<forall>b \<in> set bs. block_ok b"
  shows "sc' = fold (scan_block tx want) bs sc"
  using assms
proof (induction bs arbitrary: a sc s)
  case (Cons b bs)
  obtain k d where b: "b = (k, d)" by force
  note step = Cons.prems(1) [unfolded flac_loop.simps [of tx want env _ sc s]]
  obtain sc1 final s1 where r: "flac_block tx want env (length (te_source env)) sc s = Inr (sc1, final, s1)"
    using step by (auto split: sum.splits)
  have src: "te_source env = a @ block_header (bs = []) k (length d) @ d @ (blocks_bytes bs @ audio)"
    using Cons.prems(2) b by simp
  have ok: "block_ok (k, d)" using Cons.prems(5) b by simp
  from flac_block_at [OF r src Cons.prems(3) ok]
  have at: "sc1 = scan_block tx want (k, d) sc" "final = (bs = [])" "tio_pos s1 = length a + 4 + length d" by simp_all
  show ?case
  proof (cases "bs = []")
    case True
    then show ?thesis using step r at b by (auto simp: try_bind_eq_Inr split: if_splits)
  next
    case False
    have "flac_loop tx want env (length (te_source env)) sc1 s1 = Inr (sc', s')" using step r at False by simp
    from Cons.IH [OF this, of "a @ block_header (bs = []) k (length d) @ d"] show ?thesis
      using src at False Cons.prems(5) b by simp
  qed
qed simp

lemma quiet_block_at:
  assumes q: "quiet env" and src: "te_source env = a @ block_header final k (length d) @ d @ rest" "length a = tio_pos s"
    and ok: "block_ok (k, d)"
  shows "\<exists>r. flac_block tx want env (length (te_source env)) sc s = Inr r"
proof -
  obtain h s1 where h: "io_exact env 4 s = Inr (h, s1)" using quiet_exact [OF q, of s 4] src by auto
  have h': "h = block_header final k (length d)" and s1: "tio_pos s1 = length a + 4" using exact_at [OF h src] by simp_all
  have p: "block_kind h = k" "block_last h = final" "block_length h = length d"
    using block_header_parts [of k "length d" final] ok by (simp_all add: h' block_ok_def)
  obtain data s2 where d: "io_exact env (length d) s1 = Inr (data, s2)" using quiet_exact [OF q, of s1 "length d"] src s1 by auto
  obtain s3 where k: "io_seek env (length a + 4 + length d) s1 = Inr s3" using quiet_seek [OF q] by blast
  have "length a + 4 + length d \<le> length (te_source env)" using src(1) by simp
  then show ?thesis unfolding flac_block_def h try_bind_simps split Let_def p s1 using d k by simp
qed

lemma quiet_loop_at:
  assumes "quiet env" "te_source env = a @ blocks_bytes bs @ audio" "length a = tio_pos s" "bs \<noteq> []" "\<forall>b \<in> set bs. block_ok b"
    and "2 \<le> length audio" "frame_sync (take 2 audio)"
  shows "\<exists>r. flac_loop tx want env (length (te_source env)) sc s = Inr r"
  using assms(2-5)
proof (induction bs arbitrary: a sc s)
  case (Cons b bs)
  obtain k d where b: "b = (k, d)" by force
  have src: "te_source env = a @ block_header (bs = []) k (length d) @ d @ (blocks_bytes bs @ audio)"
    using Cons.prems(1) b by simp
  have ok: "block_ok (k, d)" using Cons.prems(4) b by simp
  obtain sc1 final s1 where r: "flac_block tx want env (length (te_source env)) sc s = Inr (sc1, final, s1)"
    using quiet_block_at [OF assms(1) src Cons.prems(2) ok] by force
  from flac_block_at [OF r src Cons.prems(2) ok]
  have at: "final = (bs = [])" "tio_pos s1 = length a + 4 + length d" by simp_all
  note step = flac_loop.simps [of tx want env _ sc s]
  show ?case
  proof (cases "bs = []")
    case True
    then have src': "te_source env = (a @ block_header True k (length d) @ d) @ take 2 audio @ drop 2 audio" using src by simp
    obtain sync s2 where e: "io_exact env 2 s1 = Inr (sync, s2)"
      using quiet_exact [OF assms(1), of s1 2] src True at assms(6) by auto
    have "sync = take 2 audio" using exact_at(1) [OF e src'] at assms(6) by simp
    then show ?thesis using step r at True e assms(7) by simp
  next
    case False
    have "\<exists>r. flac_loop tx want env (length (te_source env)) sc1 s1 = Inr r"
      by (rule Cons.IH [of "a @ block_header (bs = []) k (length d) @ d"]) (use src at False Cons.prems(4) b in auto)
    then show ?thesis using step r at False by simp
  qed
qed simp

lemma flac_start_at:
  assumes st: "flac_start env s = Inr (start, s')" "tio_pos s = 0"
    and src: "te_source env = pre @ flac_magic @ rest" "stream_prefix pre"
  shows "start = length pre" "tio_pos s' = length pre + 4"
proof -
  obtain sig s1 where e: "io_exact env 4 s = Inr (sig, s1)" using st(1) by (auto simp: flac_start_def try_bind_eq_Inr)
  have "start = length pre \<and> tio_pos s' = length pre + 4"
  proof (cases "pre = []")
    case True
    then have "sig = flac_magic" "tio_pos s1 = 4" using exact_at [OF e, of "[]" flac_magic rest] src(1) st(2) by simp_all
    then show ?thesis using st(1) e True flac_magic_not_id3 by (auto simp: flac_start_def)
  next
    case False
    then have pre: "take 3 pre = id3_magic" "v2_tag_length (take 10 pre) = Some (length pre)"
      using src(2) by (auto simp: stream_prefix_def)
    then have ten: "10 \<le> length pre" using v2_tag_length_bound by blast
    define b6 where "b6 = take 6 (drop 4 pre)"
    have parts: "pre = take 4 pre @ b6 @ drop 10 pre" "take 10 pre = take 4 pre @ b6"
      using take_add [of 4 6 pre] append_take_drop_id [of 10 pre] by (simp_all add: b6_def)
    have full: "te_source env = take 4 pre @ b6 @ (drop 10 pre @ flac_magic @ rest)"
      using src(1) parts(1) by (metis append_assoc)
    have sig: "sig = take 4 pre" "tio_pos s1 = 4"
      using exact_at [OF e, of "[]", simplified, OF full] st(2) ten by simp_all
    have "take 3 sig = id3_magic" using sig pre(1) by simp
    then obtain r s2 s3 sig2 where r: "io_exact env 6 s1 = Inr (r, s2)"
      and len: "v2_tag_length (sig @ r) = Some start" and k: "io_seek env start s2 = Inr s3"
      and e2: "io_exact env 4 s3 = Inr (sig2, s')"
      using st(1) e by (auto simp: flac_start_def try_bind_eq_Inr ok_or_eq_Inr split: if_splits)
    from exact_at(1) [OF r full] have "r = b6" using sig ten by (simp add: b6_def)
    then show ?thesis using len sig parts(2) pre(2) io_seekD [OF k] io_exactD(3) [OF e2] by simp
  qed
  then show "start = length pre" "tio_pos s' = length pre + 4" by simp_all
qed

section \<open>The comments of a file\<close>

definition comment_blocks :: "flac_blocks \<Rightarrow> flac_blocks" where
  "comment_blocks bs = filter (\<lambda>b. fst b = 4) bs"

lemma position_filter:
  "position p xs = None \<Longrightarrow> filter p xs = []"
  "position p xs = Some i \<Longrightarrow> filter p xs = xs ! i # filter p (drop (Suc i) xs)"
  by (induction xs arbitrary: i) (auto split: if_splits)

lemma old_comments_blocks:
  "old_comments bs =
    (case comment_blocks bs of [] \<Rightarrow> Inr (as_bytes ''Mornye'', []) | b # _ \<Rightarrow> parse_comments (snd b))"
  by (cases "position (\<lambda>b. fst b = 4) bs") (simp_all add: old_comments_def comment_blocks_def position_filter)

lemma replace_comments_blocks:
  "comment_blocks (replace_comments data bs) = (4, data) # drop 1 (comment_blocks bs)"
proof (cases "position (\<lambda>b. fst b = 4) bs")
  case (Some i)
  have i: "i < length bs" "fst (bs ! i) = 4" "\<forall>b \<in> set (take i bs). fst b \<noteq> 4"
    using position_lt [OF Some] position_Some [OF Some] by auto
  have "filter (\<lambda>b. fst b = 4) (take i bs) = []" using i(3) by simp
  then show ?thesis
    using i position_filter(2) [OF Some]
    by (simp add: replace_comments_def Some comment_blocks_def upd_conv_take_nth_drop)
qed (simp add: replace_comments_def comment_blocks_def position_filter)

lemma blocks_rewritten_comments:
  assumes "blocks_rewritten img env cover data old new"
  shows "comment_blocks new = (4, data) # drop 1 (comment_blocks old)"
proof -
  have "comment_blocks (filter (\<lambda>b. fst b \<noteq> 6) bs @ picture_blocks p) = comment_blocks bs" for bs p
    by (auto simp: comment_blocks_def picture_blocks_def filter_filter split: option.splits intro!: filter_cong)
  then show ?thesis
    using assms replace_comments_blocks [of data old] by (auto simp: blocks_rewritten_def split: option.splits)
qed

lemma old_comments_rewritten:
  assumes "blocks_rewritten img env cover (put_comments vendor cs) old new" "\<forall>b \<in> set new. length (snd b) \<le> 0xffffff"
  shows "old_comments new = Inr (vendor, cs)"
proof -
  have "(4, put_comments vendor cs) \<in> set (comment_blocks new)"
    using blocks_rewritten_comments [OF assms(1)] by simp
  then have "length (put_comments vendor cs) \<le> 0xffffff" using assms(2) by (auto simp: comment_blocks_def)
  then show ?thesis
    using blocks_rewritten_comments [OF assms(1)] parse_comments_put [of vendor cs "[]"]
    by (simp add: old_comments_blocks)
qed

definition metadata_of_blocks :: "tag_text \<Rightarrow> flac_blocks \<Rightarrow> audio_metadata" where
  "metadata_of_blocks tx bs =
     (case List.find (\<lambda>b. valid_comments (snd b)) (comment_blocks bs) of
        None \<Rightarrow> metadata_default
      | Some b \<Rightarrow> comments_flac tx metadata_default (comments_parse (snd b) u64_max))"

lemma scan_metadata:
  "fsc_metadata (fold (scan_block tx want) bs sc) =
    (if fsc_found sc then fsc_metadata sc
     else case List.find (\<lambda>b. valid_comments (snd b)) (comment_blocks bs) of
        None \<Rightarrow> fsc_metadata sc
      | Some b \<Rightarrow> comments_flac tx (fsc_metadata sc) (comments_parse (snd b) u64_max))"
proof (induction bs arbitrary: sc)
  case (Cons b bs)
  have pic: "fsc_metadata (take_picture d sc) = fsc_metadata sc" "fsc_found (take_picture d sc) = fsc_found sc" for d sc
    by (simp_all add: take_picture_def split: option.splits)
  show ?case
    using Cons by (auto simp: scan_block_def comment_blocks_def take_comments_def pic cong: option.case_cong)
qed (simp add: comment_blocks_def)

lemma metadata_of_comments:
  assumes "old_comments bs = Inr (vendor, cs)" "\<forall>b \<in> set bs. length (snd b) \<le> 0xffffff" "[] \<notin> set cs"
  shows "metadata_of_blocks tx bs = flac_metadata tx (comment_values tx cs) metadata_default"
proof (cases "comment_blocks bs")
  case Nil
  then have "cs = []" using assms(1) by (simp add: old_comments_blocks)
  then show ?thesis using Nil
    by (simp add: metadata_of_blocks_def flac_metadata_def Let_def metadata_default_def first_value_def joined_def
          first_text_def index_of_tags_def truthy_def trim_def trim_end_def to_ascii_lowercase_def)
next
  case (Cons b r)
  then have parse: "parse_comments (snd b) = Inr (vendor, cs)" using assms(1) by (simp add: old_comments_blocks)
  have "b \<in> set bs" using Cons by (metis comment_blocks_def filter_is_subset list.set_intros(1) subsetD)
  then have small: "length (snd b) < 2 ^ 32" using assms(2) by force
  obtain tail where tail: "snd b = put_comments vendor cs @ tail" by (rule parse_commentsD [OF parse])
  have "valid_comments (snd b)" "comments_parse (snd b) u64_max = comment_items cs"
    using valid_comments_put [OF small [unfolded tail]] comments_parse_put [OF small [unfolded tail]] tail assms(3)
    by (auto dest: last_in_set)
  then show ?thesis
    by (simp add: metadata_of_blocks_def Cons comments_flac_def comment_values_def [abs_def])
qed

section \<open>Edits keep comments from being empty\<close>

lemma set_comment_nonempty: "[] \<notin> set cs \<Longrightarrow> [] \<notin> set (set_comment tx k v cs)"
  by (auto simp: set_comment_def comment_of_bytes)

lemma fold_nonempty:
  "(\<And>x cs. [] \<notin> set cs \<Longrightarrow> [] \<notin> set (f x cs)) \<Longrightarrow> [] \<notin> set cs \<Longrightarrow> [] \<notin> set (fold f xs cs)"
  by (induction xs arbitrary: cs) auto

lemma set_artists_nonempty: "[] \<notin> set cs \<Longrightarrow> [] \<notin> set (set_artists tx fs fk cs)"
  by (auto simp: set_artists_def Let_def set_comment_nonempty comment_of_bytes split: option.splits
      intro!: set_comment_nonempty)

lemma edit_comments_nonempty:
  assumes "[] \<notin> set cs"
  shows "[] \<notin> set (edit_comments tx fs cs)"
proof -
  have lyrics: "[] \<notin> set (set_lyrics tx fs cs)" if "[] \<notin> set cs" for cs
    using that by (auto simp: set_lyrics_def set_comment_nonempty split: option.splits)
  have index: "[] \<notin> set (set_index tx fs f t k a cs)" if "[] \<notin> set cs" for f t k a cs
    using that by (simp add: set_index_def set_comment_nonempty)
  have field: "[] \<notin> set (set_tag_field tx fs fk cs)" if "[] \<notin> set cs" for fk cs
    using that by (auto simp: set_tag_field_def set_comment_nonempty split: option.splits)
  have clear: "[] \<notin> set (clear_aliases tx fs fa cs)" if "[] \<notin> set cs" for fa cs
    using that fold_nonempty [of "\<lambda>key. set_comment tx key []" cs "snd fa"]
    by (simp add: clear_aliases_def set_comment_nonempty)
  show ?thesis unfolding edit_comments_def
    by (intro lyrics index fold_nonempty [of "set_artists tx fs"] fold_nonempty [of "clear_aliases tx fs"]
          fold_nonempty [of "set_tag_field tx fs"] set_artists_nonempty clear field assms)
qed

section \<open>Reading whole files\<close>

definition flac_shape :: "u8 list \<Rightarrow> flac_blocks \<Rightarrow> u8 list \<Rightarrow> bool" where
  "flac_shape pre blocks audio \<longleftrightarrow>
     stream_prefix pre \<and> blocks \<noteq> [] \<and> list_all block_ok blocks \<and> 2 \<le> length audio \<and> frame_sync (take 2 audio)"

lemma flac_shapeD:
  assumes "flac_shape pre bs audio"
  shows "stream_prefix pre" "bs \<noteq> []" "\<forall>b \<in> set bs. block_ok b" "2 \<le> length audio" "frame_sync (take 2 audio)"
  using assms by (auto simp: flac_shape_def list_all_iff)

lemma quiet_start:
  assumes q: "quiet env" and src: "te_source env = pre @ flac_magic @ rest" "stream_prefix pre" and "tio_pos s = 0"
  shows "\<exists>r. flac_start env s = Inr r"
proof -
  obtain sig s1 where e: "io_exact env 4 s = Inr (sig, s1)"
    using quiet_exact [OF q, of s 4] src(1) assms(4) by auto
  have s1: "tio_pos s1 = 4" using io_exactD(3) [OF e] assms(4) by simp
  show ?thesis
  proof (cases "pre = []")
    case True
    then have "sig = flac_magic" using exact_at(1) [OF e, of "[]" flac_magic rest] src(1) assms(4) by simp
    then show ?thesis using e flac_magic_not_id3 by (simp add: flac_start_def)
  next
    case False
    then have pre: "take 3 pre = id3_magic" "v2_tag_length (take 10 pre) = Some (length pre)"
      using src(2) by (auto simp: stream_prefix_def)
    then have ten: "10 \<le> length pre" using v2_tag_length_bound by blast
    obtain b6 s2 where r: "io_exact env 6 s1 = Inr (b6, s2)" using quiet_exact [OF q, of s1 6] src(1) s1 ten by auto
    have "sig @ b6 = take 10 (te_source env)"
      using io_exactD(1) [OF e] io_exactD(1) [OF r] s1 assms(4) take_add [of 4 6 "te_source env"] by simp
    then have head: "sig @ b6 = take 10 pre" using src(1) ten by simp
    have "take 3 sig = take 3 (sig @ b6)" using io_exactD(2) [OF e] by simp
    also have "\<dots> = id3_magic" unfolding head using pre(1) by (simp add: min_def)
    finally have "take 3 sig = id3_magic" .
    moreover obtain s3 where k: "io_seek env (length pre) s2 = Inr s3" using quiet_seek [OF q] by blast
    moreover obtain sig2 s4 where e2: "io_exact env 4 s3 = Inr (sig2, s4)"
      using quiet_exact [OF q, of s3 4] src(1) io_seekD [OF k] by auto
    moreover have "sig2 = flac_magic" using exact_at(1) [OF e2 src(1)] io_seekD [OF k] by simp
    ultimately show ?thesis using e r head pre(2) by (simp add: flac_start_def)
  qed
qed

lemma flac_inner_at:
  assumes "flac_inner tx want env s = Inr (sc, s')" "tio_pos s = 0"
    and src: "te_source env = flac_file pre bs audio" "flac_shape pre bs audio"
  shows "sc = fold (scan_block tx want) bs scan_start"
proof -
  note shape = flac_shapeD [OF src(2)]
  have src': "te_source env = pre @ flac_magic @ blocks_bytes bs @ audio" using src(1) by (simp add: flac_file_def)
  obtain start s1 s2 s3 where st: "flac_start env s = Inr (start, s1)" and k: "io_seek env (length (te_source env)) s1 = Inr s2"
    and k2: "io_seek env (start + 4) s2 = Inr s3" and l: "flac_loop tx want env (tio_pos s2) scan_start s3 = Inr (sc, s')"
    using assms(1) by (auto simp: flac_inner_def try_bind_eq_Inr Let_def)
  have "start = length pre" by (rule flac_start_at(1) [OF st assms(2) src' shape(1)])
  with io_seekD [OF k] io_seekD [OF k2] l show ?thesis
    using src' by (intro flac_loop_at [of tx want env scan_start s3 sc s' "pre @ flac_magic" bs audio]) (simp_all add: shape)
qed

lemma quiet_inner:
  assumes q: "quiet env" and "tio_pos s = 0" and src: "te_source env = flac_file pre bs audio" "flac_shape pre bs audio"
  shows "\<exists>r. flac_inner tx want env s = Inr r"
proof -
  note shape = flac_shapeD [OF src(2)]
  have src': "te_source env = pre @ flac_magic @ blocks_bytes bs @ audio" using src(1) by (simp add: flac_file_def)
  obtain start s1 where st: "flac_start env s = Inr (start, s1)" using quiet_start [OF q src' shape(1) assms(2)] by force
  obtain s2 where k: "io_seek env (length (te_source env)) s1 = Inr s2" using quiet_seek [OF q] by blast
  obtain s3 where k2: "io_seek env (start + 4) s2 = Inr s3" using quiet_seek [OF q] by blast
  have "start = length pre" by (rule flac_start_at(1) [OF st assms(2) src' shape(1)])
  with io_seekD [OF k] io_seekD [OF k2] have "\<exists>r. flac_loop tx want env (tio_pos s2) scan_start s3 = Inr r"
    using quiet_loop_at [OF q, of "pre @ flac_magic" bs audio s3] src' shape by simp
  then show ?thesis by (auto simp: flac_inner_def st k k2)
qed

lemma read_flac_at:
  assumes q: "quiet env" and src: "te_source env = flac_file pre bs audio" "flac_shape pre bs audio"
  obtains s' where "read_flac_tags tx env tag_start = Inr (metadata_of_blocks tx bs, s')"
proof -
  obtain s0 s1 where c: "io_check env tag_start = Inr s0" and k: "io_seek env 0 s0 = Inr s1"
    using quiet_check [OF q] quiet_seek [OF q] by metis
  have "tio_pos s1 = 0" using io_seekD [OF k] by simp
  from quiet_inner [OF q this src] obtain sc s2 where i: "flac_inner tx False env s1 = Inr (sc, s2)" by force
  have "fsc_metadata sc = metadata_of_blocks tx bs"
    unfolding flac_inner_at [OF i \<open>tio_pos s1 = 0\<close> src] by (simp add: scan_metadata scan_start_def metadata_of_blocks_def cong: option.case_cong)
  moreover obtain s3 where "io_check env s2 = Inr s3" using quiet_check [OF q] by blast
  ultimately show ?thesis using that [of s3] by (simp add: read_flac_tags_def c k i map_err_def)
qed

text \<open>A file has one such shape only.\<close>

lemma blocks_bytes_unique:
  "blocks_bytes bs @ x = blocks_bytes bs' @ x' \<Longrightarrow> bs \<noteq> [] \<Longrightarrow> bs' \<noteq> [] \<Longrightarrow>
   \<forall>b \<in> set bs. block_ok b \<Longrightarrow> \<forall>b \<in> set bs'. block_ok b \<Longrightarrow> bs = bs' \<and> x = x'"
proof (induction bs arbitrary: bs')
  case (Cons b bs)
  obtain k d k' d' r where b: "b = (k, d)" "bs' = (k', d') # r" using Cons.prems(3) by (metis list.exhaust surj_pair)
  let ?h = "block_header (bs = []) k (length d)" and ?h' = "block_header (r = []) k' (length d')"
  have eq: "?h @ d @ blocks_bytes bs @ x = ?h' @ d' @ blocks_bytes r @ x'" using Cons.prems(1) b by simp
  then have h: "?h = ?h'" and rest: "d @ blocks_bytes bs @ x = d' @ blocks_bytes r @ x'"
    using append_eq_append_conv [of ?h ?h'] by simp_all
  have "block_ok (k, d)" "block_ok (k', d')" using Cons.prems(4,5) b by simp_all
  then have parts: "k = k'" "(bs = []) = (r = [])" "length d = length d'"
    using block_header_parts [of k "length d" "bs = []"] block_header_parts [of k' "length d'" "r = []"] h
    by (auto simp: block_ok_def)
  with rest have "d = d'" "blocks_bytes bs @ x = blocks_bytes r @ x'" by simp_all
  then show ?case using Cons.IH [of r] Cons.prems(4,5) b parts by (cases "bs = []") auto
qed simp

lemma flac_file_unique:
  assumes "flac_file pre bs audio = flac_file pre' bs' audio'" "flac_shape pre bs audio" "flac_shape pre' bs' audio'"
  shows "pre = pre' \<and> bs = bs' \<and> audio = audio'"
proof -
  note shape = flac_shapeD [OF assms(2)] and shape' = flac_shapeD [OF assms(3)]
  have len: "length p = 0 \<and> take 3 (p @ flac_magic @ r) \<noteq> id3_magic \<or>
      take 3 (p @ flac_magic @ r) = id3_magic \<and> v2_tag_length (take 10 (p @ flac_magic @ r)) = Some (length p)"
    if "stream_prefix p" for p r
    using that flac_magic_not_id3 v2_tag_length_bound [of "take 10 p" "length p"]
    by (auto simp: stream_prefix_def)
  define r where "r = blocks_bytes bs @ audio"
  define r' where "r' = blocks_bytes bs' @ audio'"
  have eq: "pre @ flac_magic @ r = pre' @ flac_magic @ r'" using assms(1) by (simp add: flac_file_def r_def r'_def)
  have "length pre = length pre'" using len [OF shape(1), of r] len [OF shape'(1), of r'] unfolding eq by auto
  with assms(1) have "pre = pre'" "blocks_bytes bs @ audio = blocks_bytes bs' @ audio'" by (simp_all add: flac_file_def)
  with blocks_bytes_unique [OF this(2) shape(2) shape'(2) shape(3) shape'(3)] show ?thesis by simp
qed

end
