(* ===== verification/Comment_Edits.thy ===== *)
theory Comment_Edits
  imports Comment_Views
begin

text \<open>
  The comment editor as a list of edits, each of which removes the comments with some keys and
  appends comments with those keys. A list of such edits done twice is done once; the numbers,
  whose new text depends on the old one, come out the same the second time. From the same lists follows what
  the reader gets for every field after an edit (\<open>metadata_edited\<close>).
\<close>

section \<open>Lists of edits\<close>

type_synonym comment_edit = "string list \<times> comment list"

definition apply_edit :: "tag_text \<Rightarrow> comment_edit \<Rightarrow> comment list \<Rightarrow> comment list" where
  "apply_edit tx e cs = filter (\<lambda>c. comment_key tx c \<notin> set (fst e)) cs @ snd e"

abbreviation run_edits :: "tag_text \<Rightarrow> comment_edit list \<Rightarrow> comment list \<Rightarrow> comment list" where
  "run_edits tx \<equiv> fold (apply_edit tx)"

definition closed_edit :: "tag_text \<Rightarrow> comment_edit \<Rightarrow> bool" where
  "closed_edit tx e \<longleftrightarrow> (\<forall>c \<in> set (snd e). comment_key tx c \<in> set (fst e))"

definition edit_keys :: "comment_edit list \<Rightarrow> string set" where
  "edit_keys es = (\<Union>e \<in> set es. set (fst e))"

lemma apply_edit_Nil [simp]: "apply_edit tx e [] = snd e"
  by (simp add: apply_edit_def)

lemma run_edits_split:
  "run_edits tx es cs = filter (\<lambda>c. comment_key tx c \<notin> edit_keys es) cs @ run_edits tx es []"
proof (induction es arbitrary: cs)
  case (Cons e es)
  have "run_edits tx (e # es) cs = run_edits tx es (apply_edit tx e cs)" by simp
  also have "\<dots> = filter (\<lambda>c. comment_key tx c \<notin> edit_keys es) (apply_edit tx e cs) @ run_edits tx es []"
    by (rule Cons.IH)
  also have "\<dots> = filter (\<lambda>c. comment_key tx c \<notin> edit_keys (e # es)) cs @
      filter (\<lambda>c. comment_key tx c \<notin> edit_keys es) (snd e) @ run_edits tx es []"
    by (auto simp: apply_edit_def edit_keys_def filter_filter intro!: filter_cong)
  also have "filter (\<lambda>c. comment_key tx c \<notin> edit_keys es) (snd e) @ run_edits tx es [] = run_edits tx (e # es) []"
    using Cons.IH [of "snd e"] by simp
  finally show ?case .
qed (simp add: edit_keys_def)

lemma run_edits_keys:
  "\<forall>e \<in> set es. closed_edit tx e \<Longrightarrow> c \<in> set (run_edits tx es []) \<Longrightarrow> comment_key tx c \<in> edit_keys es"
proof (induction es arbitrary: c)
  case (Cons e es)
  have "run_edits tx (e # es) [] = filter (\<lambda>c. comment_key tx c \<notin> edit_keys es) (snd e) @ run_edits tx es []"
    using run_edits_split [of tx es "snd e"] by simp
  with Cons show ?case by (auto simp: edit_keys_def closed_edit_def)
qed simp

lemma run_edits_twice:
  assumes "\<forall>e \<in> set es. closed_edit tx e"
  shows "run_edits tx es (run_edits tx es cs) = run_edits tx es cs"
proof -
  let ?keep = "filter (\<lambda>c. comment_key tx c \<notin> edit_keys es)"
  have "?keep (run_edits tx es []) = []" using run_edits_keys [OF assms] by auto
  then have "?keep (run_edits tx es cs) = ?keep cs" by (subst run_edits_split) (simp add: filter_filter)
  then show ?thesis
    using run_edits_split [of tx es "run_edits tx es cs"] run_edits_split [of tx es cs] by simp
qed

text \<open>The comments with one key.\<close>

definition key_comments :: "tag_text \<Rightarrow> string \<Rightarrow> comment list \<Rightarrow> comment list" where
  "key_comments tx k cs = filter (\<lambda>c. comment_key tx c = k) cs"

lemma key_comments_apply:
  assumes "closed_edit tx e"
  shows "key_comments tx k (apply_edit tx e cs) =
    (if k \<in> set (fst e) then key_comments tx k (snd e) else key_comments tx k cs)"
proof -
  have "k \<notin> set (fst e) \<Longrightarrow> key_comments tx k (snd e) = []"
    using assms by (auto simp: key_comments_def closed_edit_def filter_empty_conv)
  then show ?thesis
    by (auto simp: key_comments_def apply_edit_def filter_filter filter_empty_conv intro!: filter_cong)
qed

lemma key_comments_run:
  "\<forall>e \<in> set es. closed_edit tx e \<Longrightarrow> k \<notin> edit_keys es \<Longrightarrow> key_comments tx k (run_edits tx es cs) = key_comments tx k cs"
proof (induction es arbitrary: cs)
  case (Cons e es)
  then have "key_comments tx k (run_edits tx es (apply_edit tx e cs)) = key_comments tx k (apply_edit tx e cs)"
    by (simp add: edit_keys_def)
  then show ?case using Cons.prems key_comments_apply [of tx e k cs] by (simp add: edit_keys_def)
qed simp

lemma get_comment_key: "get_comment tx cs k = get_comment tx (key_comments tx k cs) k"
proof -
  have "List.find P (filter P xs) = List.find P xs" for P and xs :: "comment list" by (induction xs) auto
  then show ?thesis by (simp add: get_comment_def key_comments_def)
qed

section \<open>The editor as a list of edits\<close>

definition value_edit :: "string \<Rightarrow> string \<Rightarrow> comment_edit" where
  "value_edit k v = ([k], if v = [] then [] else [comment_of k v])"

lemma set_comment_edit: "set_comment tx k v = apply_edit tx (value_edit k v)"
  by (auto simp: fun_eq_iff set_comment_def apply_edit_def value_edit_def)

definition plain_edits :: "tag_fields \<Rightarrow> comment_edit list" where
  "plain_edits fs = map (\<lambda>(k, v). value_edit k v) (field_edits fs plain_fields)"

definition alias_edits :: "tag_fields \<Rightarrow> comment_edit list" where
  "alias_edits fs =
     concat (map (\<lambda>(f, ks). if bt_get fs f \<noteq> None then map (\<lambda>k. value_edit k []) ks else []) alias_fields)"

definition artist_edits :: "tag_text \<Rightarrow> tag_fields \<Rightarrow> string \<times> string \<Rightarrow> comment_edit list" where
  "artist_edits tx fs fk =
     (case bt_get fs (fst fk) of
        None \<Rightarrow> []
      | Some v \<Rightarrow>
          ([snd fk], map (comment_of (snd fk)) (filter (\<lambda>w. trim w \<noteq> []) (artist_values tx fs (fst fk) v))) #
          (if fst fk = ''album_artist'' then map (\<lambda>k. value_edit k []) [''ALBUM ARTIST'', ''ALBUM_ARTIST''] else []))"

definition index_edits :: "tag_fields \<Rightarrow> string \<Rightarrow> string \<Rightarrow> string \<Rightarrow> string \<Rightarrow> string \<Rightarrow> comment_edit list" where
  "index_edits fs f t k a txt =
     (if bt_get fs f \<noteq> None \<or> bt_get fs t \<noteq> None then [value_edit k txt, value_edit a []] else [])"

definition lyrics_edits :: "tag_fields \<Rightarrow> comment_edit list" where
  "lyrics_edits fs =
     (case bt_get fs ''lyrics'' of
        None \<Rightarrow> []
      | Some v \<Rightarrow> [value_edit ''SYNCEDLYRICS'' [], value_edit ''LYRICS'' v, value_edit ''UNSYNCEDLYRICS'' v])"

definition base_edits :: "tag_text \<Rightarrow> tag_fields \<Rightarrow> comment_edit list" where
  "base_edits tx fs =
     plain_edits fs @ alias_edits fs @ artist_edits tx fs (''artist'', ''ARTIST'') @
     artist_edits tx fs (''album_artist'', ''ALBUMARTIST'')"

definition track_edits :: "tag_fields \<Rightarrow> string \<Rightarrow> comment_edit list" where
  "track_edits fs = index_edits fs ''track_number'' ''track_total'' ''TRACKNUMBER'' ''TRACK''"

definition disc_edits :: "tag_fields \<Rightarrow> string \<Rightarrow> comment_edit list" where
  "disc_edits fs = index_edits fs ''disc_number'' ''disc_total'' ''DISCNUMBER'' ''DISC''"

definition all_edits :: "tag_text \<Rightarrow> tag_fields \<Rightarrow> string \<Rightarrow> string \<Rightarrow> comment_edit list" where
  "all_edits tx fs track disc = base_edits tx fs @ track_edits fs track @ disc_edits fs disc @ lyrics_edits fs"

definition track_text :: "tag_text \<Rightarrow> tag_fields \<Rightarrow> comment list \<Rightarrow> string" where
  "track_text tx fs cs = edit_index (current_index tx cs ''TRACKNUMBER'' ''TRACK'') fs ''track_number'' ''track_total''"

definition disc_text :: "tag_text \<Rightarrow> tag_fields \<Rightarrow> comment list \<Rightarrow> string" where
  "disc_text tx fs cs = edit_index (current_index tx cs ''DISCNUMBER'' ''DISC'') fs ''disc_number'' ''disc_total''"

lemma fold_map_edits: "fold (apply_edit tx) (map f xs) cs = fold (\<lambda>x. apply_edit tx (f x)) xs cs"
  by (simp add: fold_map comp_def)

lemma plain_edits_run: "fold (set_tag_field tx fs) plain_fields cs = run_edits tx (plain_edits fs) cs"
  unfolding fold_set_tag_field plain_edits_def fold_map_edits by (simp add: set_comment_edit case_prod_unfold)

lemma alias_edits_run: "fold (clear_aliases tx fs) alias_fields cs = run_edits tx (alias_edits fs) cs"
  by (simp add: alias_fields_def alias_edits_def clear_aliases_def set_comment_edit)

lemma artist_edits_run: "set_artists tx fs fk cs = run_edits tx (artist_edits tx fs fk) cs"
proof (cases "bt_get fs (fst fk)")
  case (Some v)
  have "set_comment tx k [] cs @ new = apply_edit tx ([k], new) cs" for k new
    by (auto simp: set_comment_def apply_edit_def)
  then show ?thesis by (simp add: set_artists_def artist_edits_def Some Let_def set_comment_edit)
qed (simp add: set_artists_def artist_edits_def)

lemma index_edits_run:
  "set_index tx fs f t k a cs = run_edits tx (index_edits fs f t k a (edit_index (current_index tx cs k a) fs f t)) cs"
  by (simp add: set_index_def index_edits_def set_comment_edit)

lemma lyrics_edits_run: "set_lyrics tx fs cs = run_edits tx (lyrics_edits fs) cs"
  by (simp add: set_lyrics_def lyrics_edits_def set_comment_edit split: option.splits)

lemma edit_comments_run:
  fixes tx fs cs
  defines "base \<equiv> run_edits tx (base_edits tx fs) cs"
  defines "track \<equiv> track_text tx fs base"
  defines "disc \<equiv> disc_text tx fs (run_edits tx (track_edits fs track) base)"
  shows "edit_comments tx fs cs = run_edits tx (all_edits tx fs track disc) cs"
proof -
  have artists: "fold (set_artists tx fs) [(''artist'', ''ARTIST''), (''album_artist'', ''ALBUMARTIST'')] cs' =
      set_artists tx fs (''album_artist'', ''ALBUMARTIST'') (set_artists tx fs (''artist'', ''ARTIST'') cs')" for cs'
    by simp
  have base: "fold (set_artists tx fs) [(''artist'', ''ARTIST''), (''album_artist'', ''ALBUMARTIST'')]
      (fold (clear_aliases tx fs) alias_fields (fold (set_tag_field tx fs) plain_fields cs)) = base"
    unfolding artists plain_edits_run alias_edits_run artist_edits_run base_def base_edits_def fold_append comp_def ..
  show ?thesis
    unfolding edit_comments_def base lyrics_edits_run index_edits_run track_text_def [symmetric] disc_text_def [symmetric]
      track_edits_def [symmetric] disc_edits_def [symmetric] track_def [symmetric] disc_def [symmetric]
    by (simp add: all_edits_def base_def)
qed

section \<open>The same edit twice\<close>

lemma edit_keys_append [simp]: "edit_keys (a @ b) = edit_keys a \<union> edit_keys b" "edit_keys [] = {}"
  "edit_keys (e # es) = set (fst e) \<union> edit_keys es"
  by (auto simp: edit_keys_def)

lemma value_edit_key [simp]: "fst (value_edit k v) = [k]"
  by (simp add: value_edit_def)

lemma closed_value_edit: "tag_key tx k \<Longrightarrow> closed_edit tx (value_edit k v)"
  by (simp add: closed_edit_def value_edit_def comment_key_of)

lemma closed_artist_edit: "tag_key tx k \<Longrightarrow> closed_edit tx ([k], map (comment_of k) vs)"
  by (auto simp: closed_edit_def comment_key_of)

definition base_keys :: "string list" where
  "base_keys =
     map snd plain_fields @
     [''LABEL'', ''PUBLISHER'', ''YEAR'', ''ARTIST'', ''ALBUMARTIST'', ''ALBUM ARTIST'', ''ALBUM_ARTIST'']"

lemma base_keys_apart: "list_all (\<lambda>k. k \<in> set upper_keys \<and> k \<notin> set index_keys) base_keys"
  by code_simp

lemma plain_edits_value: "e \<in> set (plain_edits fs) \<Longrightarrow> \<exists>k v. e = value_edit k v \<and> k \<in> set base_keys"
  by (force simp: plain_edits_def field_edits_def base_keys_def split: option.splits)

lemma alias_edits_value: "e \<in> set (alias_edits fs) \<Longrightarrow> \<exists>k. e = value_edit k [] \<and> k \<in> set base_keys"
  by (auto simp: alias_edits_def alias_fields_def base_keys_def split: if_splits)

lemma artist_edits_value:
  "e \<in> set (artist_edits tx fs (f, k)) \<Longrightarrow> k \<in> {''ARTIST'', ''ALBUMARTIST''} \<Longrightarrow>
   \<exists>k vs. (e = value_edit k [] \<or> e = ([k], map (comment_of k) vs)) \<and> k \<in> set base_keys"
  by (fastforce simp: artist_edits_def base_keys_def split: option.splits if_splits)

lemma base_edits_value:
  assumes "e \<in> set (base_edits tx fs)"
  shows "\<exists>k v vs. (e = value_edit k v \<or> e = ([k], map (comment_of k) vs)) \<and> k \<in> set base_keys"
  using assms plain_edits_value [of e fs] alias_edits_value [of e fs] artist_edits_value [of e tx fs]
  unfolding base_edits_def by fastforce

lemma closed_base_edits:
  assumes "edit_ok tx fs" "e \<in> set (base_edits tx fs)"
  shows "closed_edit tx e"
proof -
  obtain k v vs where e: "e = value_edit k v \<or> e = ([k], map (comment_of k) vs)" "k \<in> set base_keys"
    using base_edits_value [OF assms(2)] by blast
  have "tag_key tx k" using e(2) base_keys_apart edit_okD(1) [OF assms(1)] by (auto simp: list_all_iff)
  then show ?thesis using e(1) closed_value_edit closed_artist_edit by blast
qed

lemma base_edits_keys: "k \<in> set index_keys \<Longrightarrow> k \<notin> edit_keys (base_edits tx fs)"
  using base_keys_apart base_edits_value [of _ tx fs] by (fastforce simp: edit_keys_def list_all_iff)

lemma closed_rest:
  assumes ok: "edit_ok tx fs"
  shows "e \<in> set (track_edits fs v) \<Longrightarrow> closed_edit tx e" "e \<in> set (disc_edits fs v) \<Longrightarrow> closed_edit tx e"
    "e \<in> set (lyrics_edits fs) \<Longrightarrow> closed_edit tx e"
proof -
  have index: "tag_key tx k" if "k \<in> set index_keys" for k by (rule edit_okD(1) [OF ok index_keys_upper [OF that]])
  have lyrics: "tag_key tx k" if "k \<in> {''SYNCEDLYRICS'', ''LYRICS'', ''UNSYNCEDLYRICS''}" for k
    by (rule edit_okD(1) [OF ok]) (use that in \<open>auto simp: upper_keys_def\<close>)
  show "e \<in> set (track_edits fs v) \<Longrightarrow> closed_edit tx e" "e \<in> set (disc_edits fs v) \<Longrightarrow> closed_edit tx e"
    by (auto simp: track_edits_def disc_edits_def index_edits_def index_keys_def intro!: closed_value_edit index split: if_splits)
  show "e \<in> set (lyrics_edits fs) \<Longrightarrow> closed_edit tx e"
    by (auto simp: lyrics_edits_def intro!: closed_value_edit lyrics split: option.splits)
qed

lemma closed_all_edits: "edit_ok tx fs \<Longrightarrow> \<forall>e \<in> set (all_edits tx fs t d). closed_edit tx e"
  using closed_base_edits closed_rest by (auto simp: all_edits_def)

lemma tag_number_bound: "tag_number s \<le> int i64_max"
  by (auto simp: tag_number_def parse_i64_def Let_def i64_max_def split: sum.splits int_error.splits option.splits if_splits prod.splits)

lemma tag_pair_bound: "fst (tag_pair s) \<le> int i64_max" "snd (tag_pair s) \<le> int i64_max"
  using tag_number_bound by (simp_all add: tag_pair_def Let_def split: option.splits nat.splits)

lemma current_index_bound: "fst (current_index tx cs k a) \<le> int i64_max" "snd (current_index tx cs k a) \<le> int i64_max"
  by (simp_all add: current_index_def Let_def tag_pair_bound)

lemma tag_pair_Nil: "tag_pair [] = (0, 0)"
  by (simp add: tag_pair_def tag_number_def parse_i64_def trim_def trim_end_def)

lemma field_number_le: "c \<le> int i64_max \<Longrightarrow> field_number fs f c \<le> int i64_max"
  using field_number_bound [of fs f c] by (cases "bt_get fs f") (auto simp: field_number_def)

lemma field_number_again: "field_number fs f (field_number fs f c) = field_number fs f c"
  by (simp add: field_number_def split: option.splits)

lemma edit_index_again:
  assumes "fst cur \<le> int i64_max" "snd cur \<le> int i64_max"
  shows "edit_index (tag_pair (edit_index cur fs f t)) fs f t = edit_index cur fs f t"
proof -
  define n where "n = field_number fs f (fst cur)"
  define m where "m = field_number fs t (snd cur)"
  have le: "n \<le> int i64_max" "m \<le> int i64_max" using field_number_le assms by (simp_all add: n_def m_def)
  have again: "field_number fs f n = n" "field_number fs t m = m" by (simp_all add: n_def m_def field_number_again)
  have zero: "c \<le> 0 \<Longrightarrow> field_number fs k c \<le> 0 \<Longrightarrow> field_number fs k 0 \<le> 0" for k c
    by (simp add: field_number_def split: option.splits)
  consider "n \<le> 0" | "0 < n" "0 < m" | "0 < n" "m \<le> 0" by linarith
  then show ?thesis
  proof cases
    case 1
    then have "edit_index cur fs f t = []" by (simp add: edit_index_def n_def)
    moreover have "field_number fs f 0 \<le> 0" using 1 by (simp add: n_def field_number_def split: option.splits)
    ultimately show ?thesis by (simp add: tag_pair_Nil) (simp add: edit_index_def)
  next
    case 2
    then have shown: "edit_index cur fs f t = show_nat (nat n) @ ''/'' @ show_nat (nat m)"
      by (simp add: edit_index_def Let_def n_def m_def)
    have "tag_pair (edit_index cur fs f t) = (n, m)"
      unfolding shown using 2 le tag_pair_show_both [of "nat n" "nat m"] tag_number_show [of "nat m"] by (simp add: nat_le_iff)
    then show ?thesis using 2 shown again by (simp add: edit_index_def Let_def)
  next
    case 3
    then have shown: "edit_index cur fs f t = show_nat (nat n)" by (simp add: edit_index_def Let_def n_def m_def)
    have "tag_pair (edit_index cur fs f t) = (n, 0)" unfolding shown using 3 le tag_pair_show [of "nat n"] by (simp add: nat_le_iff)
    moreover have "field_number fs t 0 \<le> 0" using 3 by (simp add: m_def field_number_def split: option.splits)
    ultimately show ?thesis using 3 shown again by (simp add: edit_index_def Let_def)
  qed
qed

lemma get_comment_written:
  assumes "tag_key tx k" "valid_text v" "key_comments tx k cs = snd (value_edit k v)"
  shows "get_comment tx cs k = v"
proof -
  have "length (as_bytes k @ [eq_sign]) = length k + 1" by simp
  then have "drop (length k + 1) (comment_of k v) = as_bytes v" unfolding comment_of_bytes by simp
  then show ?thesis
    unfolding get_comment_key [of tx cs] assms(3) value_edit_def
    using assms(1,2) by (simp add: get_comment_def comment_key_of utf8_lossy_valid valid_text_def)
qed

lemma current_index_written:
  assumes keys: "tag_key tx k" "tag_key tx a" and v: "valid_text v"
    and cs: "key_comments tx k cs = snd (value_edit k v)" "key_comments tx a cs = []"
  shows "current_index tx cs k a = tag_pair v"
proof -
  have "get_comment tx cs a = []" by (rule get_comment_written [OF keys(2)]) (simp_all add: cs(2) value_edit_def)
  then show ?thesis using get_comment_written [OF keys(1) v cs(1)] by (simp add: current_index_def Let_def tag_pair_Nil)
qed

text \<open>After an edit that sets a number, the comments with its keys are the new text and nothing else.\<close>

lemma index_written:
  assumes ok: "edit_ok tx fs" and given: "bt_get fs f \<noteq> None \<or> bt_get fs t \<noteq> None" and keys: "k \<in> set index_keys" "a \<in> set index_keys" "k \<noteq> a"
    and pre: "\<forall>e \<in> set es. closed_edit tx e" "k \<notin> edit_keys es" "a \<notin> edit_keys es"
  shows "key_comments tx k (run_edits tx (index_edits fs f t k a v @ es) cs) = snd (value_edit k v)"
    "key_comments tx a (run_edits tx (index_edits fs f t k a v @ es) cs) = []"
proof -
  have tk: "tag_key tx k" "tag_key tx a" using edit_okD(1) [OF ok index_keys_upper] keys by simp_all
  let ?cs = "apply_edit tx (value_edit a []) (apply_edit tx (value_edit k v) cs)"
  have run: "run_edits tx (index_edits fs f t k a v @ es) cs = run_edits tx es ?cs" using given by (simp add: index_edits_def)
  have "key_comments tx k (snd (value_edit k v)) = snd (value_edit k v)"
    by (simp add: key_comments_def value_edit_def comment_key_of [OF tk(1)])
  then have "key_comments tx k ?cs = snd (value_edit k v)"
    using keys(3) by (simp add: key_comments_apply closed_value_edit tk)
  moreover have "key_comments tx a ?cs = []"
    by (simp add: key_comments_apply closed_value_edit tk) (simp add: key_comments_def value_edit_def)
  ultimately show "key_comments tx k (run_edits tx (index_edits fs f t k a v @ es) cs) = snd (value_edit k v)"
    "key_comments tx a (run_edits tx (index_edits fs f t k a v @ es) cs) = []"
    unfolding run by (simp_all add: key_comments_run [OF pre(1)] pre(2,3))
qed

lemma index_text_again:
  assumes ok: "edit_ok tx fs" and given: "bt_get fs f \<noteq> None \<or> bt_get fs t \<noteq> None"
    and keys: "k \<in> set index_keys" "a \<in> set index_keys" "k \<noteq> a"
    and after: "\<forall>e \<in> set es. closed_edit tx e" "k \<notin> edit_keys es" "a \<notin> edit_keys es"
    and before: "\<forall>e \<in> set es'. closed_edit tx e" "k \<notin> edit_keys es'" "a \<notin> edit_keys es'"
    and v: "v = edit_index (current_index tx old k a) fs f t"
  shows "edit_index (current_index tx (run_edits tx es' (run_edits tx (index_edits fs f t k a v @ es) cs)) k a) fs f t = v"
proof -
  have tk: "tag_key tx k" "tag_key tx a" using edit_okD(1) [OF ok index_keys_upper] keys by simp_all
  have "current_index tx (run_edits tx es' (run_edits tx (index_edits fs f t k a v @ es) cs)) k a = tag_pair v"
    using index_written [OF ok given keys after, of v cs]
    by (intro current_index_written [OF tk]) (simp_all add: v valid_text_edit_index key_comments_run [OF before(1)] before(2,3))
  then show ?thesis using edit_index_again [OF current_index_bound] v by simp
qed

lemma disc_not_track: "k \<in> {''DISCNUMBER'', ''DISC''} \<Longrightarrow> k \<notin> edit_keys (track_edits fs v) \<and> k \<notin> edit_keys (lyrics_edits fs)"
  by (auto simp: track_edits_def index_edits_def lyrics_edits_def split: option.splits)

lemma track_not_disc: "k \<in> {''TRACKNUMBER'', ''TRACK''} \<Longrightarrow> k \<notin> edit_keys (disc_edits fs v) \<and> k \<notin> edit_keys (lyrics_edits fs)"
  by (auto simp: disc_edits_def index_edits_def lyrics_edits_def split: option.splits)

lemma track_edits_again:
  assumes ok: "edit_ok tx fs" and v: "v = track_text tx fs base"
  shows "track_edits fs (track_text tx fs (run_edits tx (base_edits tx fs)
      (run_edits tx (track_edits fs v @ disc_edits fs d @ lyrics_edits fs) base))) = track_edits fs v"
proof (cases "bt_get fs ''track_number'' \<noteq> None \<or> bt_get fs ''track_total'' \<noteq> None")
  case True
  have ik: "''TRACKNUMBER'' \<in> set index_keys" "''TRACK'' \<in> set index_keys" by (simp_all add: index_keys_def)
  have "track_text tx fs (run_edits tx (base_edits tx fs)
      (run_edits tx (track_edits fs v @ disc_edits fs d @ lyrics_edits fs) base)) = v"
    unfolding track_text_def track_edits_def
    by (rule index_text_again [OF ok True ik, where old = base])
       (use v closed_base_edits [OF ok] closed_rest [OF ok] track_not_disc base_edits_keys ik in \<open>auto simp: track_text_def\<close>)
  then show ?thesis by simp
qed (simp add: track_edits_def index_edits_def)

lemma disc_edits_again:
  assumes ok: "edit_ok tx fs" and v: "v = disc_text tx fs mid"
  shows "disc_edits fs (disc_text tx fs (run_edits tx (base_edits tx fs @ track_edits fs w)
      (run_edits tx (disc_edits fs v @ lyrics_edits fs) mid))) = disc_edits fs v"
proof (cases "bt_get fs ''disc_number'' \<noteq> None \<or> bt_get fs ''disc_total'' \<noteq> None")
  case True
  have ik: "''DISCNUMBER'' \<in> set index_keys" "''DISC'' \<in> set index_keys" by (simp_all add: index_keys_def)
  have "disc_text tx fs (run_edits tx (base_edits tx fs @ track_edits fs w)
      (run_edits tx (disc_edits fs v @ lyrics_edits fs) mid)) = v"
    unfolding disc_text_def disc_edits_def
    by (rule index_text_again [OF ok True ik, where old = mid])
       (use v closed_base_edits [OF ok] closed_rest [OF ok] disc_not_track base_edits_keys ik in \<open>auto simp: disc_text_def\<close>)
  then show ?thesis by simp
qed (simp add: disc_edits_def index_edits_def)

lemma edit_comments_twice:
  assumes ok: "edit_ok tx fs"
  shows "edit_comments tx fs (edit_comments tx fs cs) = edit_comments tx fs cs"
proof -
  define base where "base = run_edits tx (base_edits tx fs) cs"
  define track where "track = track_text tx fs base"
  define mid where "mid = run_edits tx (track_edits fs track) base"
  define disc where "disc = disc_text tx fs mid"
  define cs1 where "cs1 = edit_comments tx fs cs"
  define base1 where "base1 = run_edits tx (base_edits tx fs) cs1"
  have cs1: "cs1 = run_edits tx (all_edits tx fs track disc) cs"
    unfolding cs1_def track_def disc_def mid_def base_def by (rule edit_comments_run)
  then have parts: "cs1 = run_edits tx (track_edits fs track @ disc_edits fs disc @ lyrics_edits fs) base"
    "cs1 = run_edits tx (disc_edits fs disc @ lyrics_edits fs) mid"
    by (simp_all add: all_edits_def base_def mid_def)
  have track1: "track_edits fs (track_text tx fs base1) = track_edits fs track"
    unfolding base1_def parts(1) by (rule track_edits_again [OF ok track_def])
  have "disc_edits fs (disc_text tx fs (run_edits tx (base_edits tx fs @ track_edits fs track) cs1)) = disc_edits fs disc"
    unfolding parts(2) by (rule disc_edits_again [OF ok disc_def])
  then have disc1: "disc_edits fs (disc_text tx fs (run_edits tx (track_edits fs (track_text tx fs base1)) base1)) = disc_edits fs disc"
    unfolding track1 by (simp add: base1_def)
  have "edit_comments tx fs cs1 = run_edits tx (all_edits tx fs (track_text tx fs base1)
      (disc_text tx fs (run_edits tx (track_edits fs (track_text tx fs base1)) base1))) cs1"
    unfolding base1_def by (rule edit_comments_run)
  also have "\<dots> = run_edits tx (all_edits tx fs track disc) cs1" unfolding all_edits_def disc1 by (simp only: track1)
  also have "\<dots> = cs1" unfolding cs1 by (rule run_edits_twice [OF closed_all_edits [OF ok]])
  finally show ?thesis by (simp add: cs1_def)
qed

section \<open>Comments that the editor and the reader see alike\<close>

text \<open>
  A comment as the format demands it: an ASCII key and a value in UTF-8. Of such comments the editor and the
  reader see the same values.
\<close>

definition plain_comment :: "comment \<Rightarrow> bool" where
  "plain_comment c =
     (case position (\<lambda>b. b = eq_sign) c of
        None \<Rightarrow> True
      | Some i \<Rightarrow> list_all (\<lambda>b. b < 0x80) (take i c) \<and> valid_utf8 (drop (Suc i) c))"

lemma length_of_bytes [simp]: "length (of_bytes bs) = length bs"
  by (simp add: of_bytes_def)

lemma uppercase_ascii_length:
  assumes "case_table up" "\<forall>b \<in> set bs. b < 0x80"
  shows "length (uppercase up (of_bytes bs)) = length bs"
proof -
  have "length (encode_char (upper_char up c)) = 1" if "c < 128" for c
    using assms(1) that by (auto simp: case_table_def upper_char_def encode_char_def between_def)
  moreover have "\<forall>c \<in> set (map unat bs). c < 128" using assms(2) by (auto simp: word_less_nat_alt)
  ultimately have one: "\<forall>x \<in> set bs. length (encode_char (upper_char up (unat x))) = 1" by simp
  have "length (concat (map (\<lambda>x. encode_char (upper_char up (unat x))) bs)) = length bs"
    using one by (induction bs) simp_all
  then show ?thesis by (simp add: uppercase_def utf8_chars_ascii [OF assms(2)] comp_def)
qed

lemma plain_comment_views:
  assumes k: "tag_key tx k" and plain: "plain_comment c"
  shows "comment_key tx c = k \<longleftrightarrow> item_values tx (comment_item c) k \<noteq> []"
    "comment_key tx c = k \<Longrightarrow> item_values tx (comment_item c) k = [of_bytes (utf8_lossy_bytes (drop (length k + 1) c))]"
proof -
  have name: "case_table (tt_upper tx)" "upper_key k" "k \<noteq> []" using k by (auto simp: tag_key_def upper_key_def)
  have view: "item_values tx (comment_item c) k = [of_bytes (utf8_lossy_bytes (drop (length k + 1) c))]"
    if key: "comment_key tx c = k"
  proof -
    obtain i where i: "position (\<lambda>b. b = eq_sign) c = Some (Suc i)"
      and up: "uppercase (tt_upper tx) (of_bytes (utf8_lossy_bytes (take (Suc i) c))) = k"
      using key name(3) by (auto simp: comment_key_def split: option.splits nat.splits)
    have ascii: "\<forall>b \<in> set (take (Suc i) c). b < 0x80" and val: "valid_utf8 (drop (Suc (Suc i)) c)"
      using plain i by (auto simp: plain_comment_def list_all_iff)
    have valid: "valid_utf8 (take (Suc i) c)" using ascii by (rule valid_utf8_ascii)
    have lower: "of_bytes (utf8_lossy_bytes (take (Suc i) c)) = of_bytes (take (Suc i) c)"
      by (simp add: utf8_lossy_valid [OF valid])
    have len: "length k = Suc i"
      using up uppercase_ascii_length [OF name(1) ascii] position_lt [OF i] unfolding lower by simp
    have "comment_item c = [(of_bytes (take (Suc i) c), of_bytes (drop (Suc (Suc i)) c))]"
      by (simp add: comment_item_def i utf8_def utf8_bytes_valid valid val)
    moreover have "uppercase (tt_upper tx) (of_bytes (take (Suc i) c)) = k" using up unfolding lower .
    moreover have "length (of_bytes (take (Suc i) c)) = length k" using position_lt [OF i] len by simp
    moreover have "of_bytes (utf8_lossy_bytes (drop (length k + 1) c)) = of_bytes (drop (Suc (Suc i)) c)"
      using utf8_lossy_valid [OF val] len by simp
    ultimately show ?thesis unfolding item_values_def by (simp only: filter.simps list.map prod.case simp_thms if_True snd_conv)
  qed
  show "comment_key tx c = k \<longleftrightarrow> item_values tx (comment_item c) k \<noteq> []"
    using view read_key_is_comment_key [OF k, of c] by (metis list.distinct(1))
  show "comment_key tx c = k \<Longrightarrow> item_values tx (comment_item c) k = [of_bytes (utf8_lossy_bytes (drop (length k + 1) c))]"
    by (rule view)
qed

lemma plain_comments_view:
  assumes "tag_key tx k" "list_all plain_comment cs"
  shows "get_comment tx cs k = first_value (comment_values tx cs k)"
  using assms(2)
proof (induction cs)
  case (Cons c cs)
  then show ?case
    using plain_comment_views [OF assms(1), of c] by (cases "comment_key tx c = k") (auto simp: get_comment_def first_value_def)
qed (simp add: get_comment_def first_value_def)


section \<open>Track and disc numbers\<close>

definition edited_number :: "tag_fields \<Rightarrow> string \<Rightarrow> int \<Rightarrow> int" where
  "edited_number fs f old =
     (case bt_get fs f of
        None \<Rightarrow> old
      | Some v \<Rightarrow> (case parse_i64 (trim v) of Inl _ \<Rightarrow> 0 | Inr n \<Rightarrow> n))"

definition edited_pair :: "tag_fields \<Rightarrow> string \<Rightarrow> string \<Rightarrow> int \<times> int \<Rightarrow> int \<times> int" where
  "edited_pair fs f t old =
     (if bt_get fs f = None \<and> bt_get fs t = None then old
      else if edited_number fs f (fst old) \<le> 0 then (0, 0)
      else (edited_number fs f (fst old), max 0 (edited_number fs t (snd old))))"

lemma edited_number_field: "edited_number fs f old = field_number fs f old"
  by (simp add: edited_number_def field_number_def split: option.splits sum.splits)

lemma tag_pair_edit_index:
  assumes "fst cur \<le> int i64_max" "snd cur \<le> int i64_max"
  shows "tag_pair (edit_index cur fs f t) =
    (if field_number fs f (fst cur) \<le> 0 then (0, 0) else (field_number fs f (fst cur), max 0 (field_number fs t (snd cur))))"
proof -
  define n where "n = field_number fs f (fst cur)"
  define m where "m = field_number fs t (snd cur)"
  have le: "n \<le> int i64_max" "m \<le> int i64_max" using field_number_le assms by (simp_all add: n_def m_def)
  consider "n \<le> 0" | "0 < n" "0 < m" | "0 < n" "m \<le> 0" by linarith
  then have "tag_pair (edit_index cur fs f t) = (if n \<le> 0 then (0, 0) else (n, max 0 m))"
  proof cases
    case 1
    then show ?thesis by (simp add: edit_index_def n_def tag_pair_Nil)
  next
    case 2
    then have "edit_index cur fs f t = show_nat (nat n) @ ''/'' @ show_nat (nat m)"
      by (simp add: edit_index_def Let_def n_def m_def)
    then show ?thesis using 2 le tag_pair_show_both [of "nat n" "nat m"] tag_number_show [of "nat m"] by (simp add: nat_le_iff)
  next
    case 3
    then have "edit_index cur fs f t = show_nat (nat n)" by (simp add: edit_index_def Let_def n_def m_def)
    then show ?thesis using 3 le tag_pair_show [of "nat n"] by (simp add: nat_le_iff)
  qed
  then show ?thesis by (simp only: n_def m_def)
qed

lemma comment_values_key:
  assumes "tag_key tx k"
  shows "comment_values tx cs k = comment_values tx (key_comments tx k cs) k"
proof (induction cs)
  case (Cons c cs)
  then show ?case using read_key_is_comment_key [OF assms, of c] by (cases "comment_key tx c = k") (auto simp: key_comments_def)
qed (simp add: key_comments_def)

lemma comment_values_written:
  assumes "tag_key tx k" "valid_text v" "key_comments tx k cs = snd (value_edit k v)"
  shows "first_value (comment_values tx cs k) = v"
  unfolding comment_values_key [OF assms(1), of cs] assms(3)
  using assms(1,2) by (simp add: value_edit_def item_values_of first_value_def)

lemma current_index_keys:
  "key_comments tx k cs = key_comments tx k cs' \<Longrightarrow> key_comments tx a cs = key_comments tx a cs' \<Longrightarrow>
     current_index tx cs k a = current_index tx cs' k a"
proof -
  assume eq: "key_comments tx k cs = key_comments tx k cs'" "key_comments tx a cs = key_comments tx a cs'"
  have "get_comment tx cs n = get_comment tx cs' n" if "key_comments tx n cs = key_comments tx n cs'" for n
    using get_comment_key [of tx cs n] get_comment_key [of tx cs' n] that by simp
  from this [OF eq(1)] this [OF eq(2)] show ?thesis by (simp add: current_index_def Let_def)
qed

text \<open>What the reader finds of a number after an edit, from what the editor found before it.\<close>

definition read_index :: "tag_text \<Rightarrow> comment list \<Rightarrow> string \<Rightarrow> string \<Rightarrow> int \<times> int" where
  "read_index tx cs k a = index_of_tags (first_value (comment_values tx cs k)) (first_value (comment_values tx cs a)) (0, 0)"

lemma index_edit_read:
  assumes ok: "edit_ok tx fs" and given: "bt_get fs f \<noteq> None \<or> bt_get fs t \<noteq> None"
    and keys: "k \<in> set index_keys" "a \<in> set index_keys" "k \<noteq> a"
    and after: "\<forall>e \<in> set es. closed_edit tx e" "k \<notin> edit_keys es" "a \<notin> edit_keys es"
    and v: "v = edit_index cur fs f t" and cur: "fst cur \<le> int i64_max" "snd cur \<le> int i64_max"
  shows "read_index tx (run_edits tx (index_edits fs f t k a v @ es) cs) k a = edited_pair fs f t cur"
proof -
  have tk: "tag_key tx k" "tag_key tx a" using edit_okD(1) [OF ok index_keys_upper] keys by simp_all
  let ?cs = "run_edits tx (index_edits fs f t k a v @ es) cs"
  have "first_value (comment_values tx ?cs k) = v"
    by (rule comment_values_written [OF tk(1) _ index_written(1) [OF ok given keys after]]) (simp add: v valid_text_edit_index)
  moreover have "key_comments tx a ?cs = snd (value_edit a [])"
    using index_written(2) [OF ok given keys after] by (simp add: value_edit_def)
  then have "first_value (comment_values tx ?cs a) = []"
    by (rule comment_values_written [OF tk(2) valid_text_Nil])
  ultimately have "read_index tx ?cs k a = tag_pair v" by (simp add: read_index_def index_of_tags_def tag_pair_Nil)
  then show ?thesis using given unfolding v tag_pair_edit_index [OF cur] by (auto simp: edited_pair_def edited_number_field)
qed

lemma read_index_edited:
  assumes ok: "edit_ok tx fs"
    and which: "(f, t, k, a) \<in> {(''track_number'', ''track_total'', ''TRACKNUMBER'', ''TRACK''),
      (''disc_number'', ''disc_total'', ''DISCNUMBER'', ''DISC'')}"
    and given: "bt_get fs f \<noteq> None \<or> bt_get fs t \<noteq> None"
  shows "read_index tx (edit_comments tx fs cs) k a = edited_pair fs f t (current_index tx cs k a)"
proof -
  define base where "base = run_edits tx (base_edits tx fs) cs"
  define track where "track = track_text tx fs base"
  define mid where "mid = run_edits tx (track_edits fs track) base"
  define disc where "disc = disc_text tx fs mid"
  have run: "edit_comments tx fs cs = run_edits tx (all_edits tx fs track disc) cs"
    unfolding track_def disc_def mid_def base_def by (rule edit_comments_run)
  then have parts: "edit_comments tx fs cs = run_edits tx (track_edits fs track @ disc_edits fs disc @ lyrics_edits fs) base"
    "edit_comments tx fs cs = run_edits tx (disc_edits fs disc @ lyrics_edits fs) mid"
    by (simp_all add: all_edits_def base_def mid_def)
  have at_base: "key_comments tx n base = key_comments tx n cs" if "n \<in> set index_keys" for n
    unfolding base_def using closed_base_edits [OF ok] base_edits_keys that by (intro key_comments_run) auto
  have at_mid: "key_comments tx n mid = key_comments tx n cs" if "n \<in> {''DISCNUMBER'', ''DISC''}" for n
  proof -
    have "n \<in> set index_keys" using that by (auto simp: index_keys_def)
    moreover have "key_comments tx n mid = key_comments tx n base"
      unfolding mid_def using closed_rest(1) [OF ok] disc_not_track [OF that] by (intro key_comments_run) auto
    ultimately show ?thesis using at_base by simp
  qed
  have ik: "''TRACKNUMBER'' \<in> set index_keys" "''TRACK'' \<in> set index_keys" "''DISCNUMBER'' \<in> set index_keys" "''DISC'' \<in> set index_keys"
    by (simp_all add: index_keys_def)
  from which show ?thesis
  proof (elim insertE emptyE)
    assume w: "(f, t, k, a) = (''track_number'', ''track_total'', ''TRACKNUMBER'', ''TRACK'')"
    have v: "track = edit_index (current_index tx cs ''TRACKNUMBER'' ''TRACK'') fs ''track_number'' ''track_total''"
      unfolding track_def track_text_def using current_index_keys [OF at_base at_base] ik by simp
    show ?thesis using w given unfolding parts(1) track_edits_def
      by (simp only: prod.inject)
         (rule index_edit_read [OF ok _ ik(1,2) _ _ _ _ v current_index_bound],
          use closed_rest [OF ok] track_not_disc in auto)
  next
    assume w: "(f, t, k, a) = (''disc_number'', ''disc_total'', ''DISCNUMBER'', ''DISC'')"
    have v: "disc = edit_index (current_index tx cs ''DISCNUMBER'' ''DISC'') fs ''disc_number'' ''disc_total''"
      unfolding disc_def disc_text_def using current_index_keys [OF at_mid at_mid] by simp
    show ?thesis using w given unfolding parts(2) disc_edits_def
      by (simp only: prod.inject)
         (rule index_edit_read [OF ok _ ik(3,4) _ _ _ _ v current_index_bound],
          use closed_rest [OF ok] disc_not_track in auto)
  qed
qed

lemma current_is_read:
  assumes "tag_key tx k" "tag_key tx a" "list_all plain_comment cs"
    and "\<not> (fst (tag_pair (first_value (comment_values tx cs k))) = 0 \<and> snd (tag_pair (first_value (comment_values tx cs k))) \<noteq> 0 \<and>
           first_value (comment_values tx cs a) \<noteq> [])"
  shows "current_index tx cs k a = read_index tx cs k a"
  using assms(4) unfolding current_index_def read_index_def index_of_tags_def plain_comments_view [OF assms(1,3)]
    plain_comments_view [OF assms(2,3)]
  by (cases "tag_pair (first_value (comment_values tx cs k))") (auto simp: Let_def tag_pair_Nil)

section \<open>What an edit does to the metadata\<close>

text \<open>
  The number and the total of a track or disc: the pair that the editor found, with the edited parts replaced, and
  nothing when the number is not positive. What the editor found is what the reader found, unless a comment is
  not plain or a number of zero with a total stands in front of an alias, which only the reader then follows.
\<close>

definition usual_index :: "tag_text \<Rightarrow> comment list \<Rightarrow> string \<Rightarrow> string \<Rightarrow> bool" where
  "usual_index tx cs k a \<longleftrightarrow>
     list_all plain_comment cs \<and>
     (let main = tag_pair (first_value (comment_values tx cs k)) in
      fst main \<noteq> 0 \<or> snd main = 0 \<or> first_value (comment_values tx cs a) = [])"

definition index_edited ::
  "tag_text \<Rightarrow> tag_fields \<Rightarrow> comment list \<Rightarrow> string \<times> string \<times> string \<times> string \<Rightarrow> int \<times> int \<Rightarrow> int \<times> int \<Rightarrow> bool" where
  "index_edited tx fs cs names old new \<longleftrightarrow>
     (case names of (f, t, k, a) \<Rightarrow>
        new = (if bt_get fs f = None \<and> bt_get fs t = None then old else edited_pair fs f t (current_index tx cs k a)) \<and>
        (usual_index tx cs k a \<longrightarrow> new = edited_pair fs f t old))"

definition metadata_edited :: "tag_text \<Rightarrow> tag_fields \<Rightarrow> comment list \<Rightarrow> audio_metadata \<Rightarrow> audio_metadata \<Rightarrow> bool" where
  "metadata_edited tx fs cs old new \<longleftrightarrow>
     texts_edited fs old new \<and> credits_edited tx fs old new \<and> codes_edited fs (comment_values tx cs) old new \<and>
     index_edited tx fs cs (''track_number'', ''track_total'', ''TRACKNUMBER'', ''TRACK'')
       (am_track_number old, am_total_tracks old) (am_track_number new, am_total_tracks new) \<and>
     index_edited tx fs cs (''disc_number'', ''disc_total'', ''DISCNUMBER'', ''DISC'')
       (am_disc_number old, am_total_discs old) (am_disc_number new, am_total_discs new)"

lemma index_is_edited:
  assumes ok: "edit_ok tx fs"
    and which: "(f, t, k, a) \<in> {(''track_number'', ''track_total'', ''TRACKNUMBER'', ''TRACK''),
      (''disc_number'', ''disc_total'', ''DISCNUMBER'', ''DISC'')}"
  shows "index_edited tx fs cs (f, t, k, a) (read_index tx cs k a) (read_index tx (edit_comments tx fs cs) k a)"
proof -
  have "k \<in> set index_keys" "a \<in> set index_keys" using which by (auto simp: index_keys_def)
  then have keys: "tag_key tx k" "tag_key tx a" using edit_okD(1) [OF ok index_keys_upper] by simp_all
  have usual: "current_index tx cs k a = read_index tx cs k a" if "usual_index tx cs k a"
    using that by (intro current_is_read [OF keys]) (auto simp: usual_index_def Let_def)
  show ?thesis
  proof (cases "bt_get fs f = None \<and> bt_get fs t = None")
    case True
    obtain cur where "comment_values tx (edit_comments tx fs cs) k =
        (if bt_get fs f = None \<and> bt_get fs t = None then comment_values tx cs k else as_values (edit_index cur fs f t))"
      "comment_values tx (edit_comments tx fs cs) a =
        (if bt_get fs f = None \<and> bt_get fs t = None then comment_values tx cs a else [])"
      using edited_index [OF ok which] by blast
    then have "read_index tx (edit_comments tx fs cs) k a = read_index tx cs k a" using True by (simp add: read_index_def)
    then show ?thesis using True by (simp add: index_edited_def edited_pair_def)
  next
    case False
    then have given: "bt_get fs f \<noteq> None \<or> bt_get fs t \<noteq> None" by simp
    have "read_index tx (edit_comments tx fs cs) k a = edited_pair fs f t (current_index tx cs k a)"
      by (rule read_index_edited [OF ok which given])
    then show ?thesis using False usual by (auto simp: index_edited_def)
  qed
qed

lemma metadata_is_edited:
  assumes "edit_ok tx fs"
  shows "metadata_edited tx fs cs (flac_metadata tx (comment_values tx cs) metadata_default)
    (flac_metadata tx (comment_values tx (edit_comments tx fs cs)) metadata_default)"
proof -
  have "(am_track_number md, am_total_tracks md) = read_index tx cs' ''TRACKNUMBER'' ''TRACK''"
    "(am_disc_number md, am_total_discs md) = read_index tx cs' ''DISCNUMBER'' ''DISC''"
    if "md = flac_metadata tx (comment_values tx cs') metadata_default" for md cs'
    unfolding that by (simp_all add: flac_metadata_def Let_def metadata_default_def read_index_def)
  note read = this [OF refl]
  show ?thesis
    unfolding metadata_edited_def read
    by (intro conjI texts_are_edited [OF assms] credits_are_edited [OF assms] codes_are_edited [OF assms]
        index_is_edited [OF assms]) simp_all
qed

end
