(* ===== verification/Flac_Round_Trip.thy ===== *)
theory Flac_Round_Trip
  imports Flac_Edit Comment_Edits
begin

text \<open>
  Edits of whole FLAC files: when they succeed, what they keep, that the reader gets back what was
  written (tags and cover), and that a second run of the same edit has nothing to do.
\<close>

section \<open>Edits of whole files\<close>

lemma replace_comments_set: "set (replace_comments data bs) \<subseteq> insert (4, data) (set bs)"
proof (cases "position (\<lambda>b. fst b = 4) bs")
  case (Some i)
  then have "fst (bs ! i) = 4" using position_Some by force
  then show ?thesis using set_update_subset_insert [of bs i "(4, data)"] by (simp add: replace_comments_def Some)
qed (simp add: replace_comments_def)

lemma blocks_rewritten_ok:
  assumes "blocks_rewritten img env cover data old new" "\<forall>b \<in> set old. block_ok b" "\<forall>b \<in> set new. length (snd b) \<le> 0xffffff"
  shows "list_all block_ok new" "new \<noteq> []"
proof -
  have "set new \<subseteq> insert (4, data) (set old) \<union> {b. fst b = 6}"
    using assms(1) replace_comments_set [of data old]
    by (auto simp: blocks_rewritten_def picture_blocks_def split: option.splits)
  moreover have "kind_ok 4" "kind_ok 6" by (simp_all add: kind_ok_def)
  ultimately have "\<forall>b \<in> set new. kind_ok (fst b)" using assms(2) by (fastforce simp: block_ok_def)
  then show "list_all block_ok new" using assms(3) by (auto simp: list_all_iff block_ok_def)
  show "new \<noteq> []" using blocks_rewritten_comments [OF assms(1)] by (auto simp: comment_blocks_def)
qed

lemma header_written_shapes:
  assumes "header_written tx img env change cover sec pre old new audio"
  shows "te_source env = flac_file pre old audio" "flac_shape pre old audio" "flac_shape pre new audio"
proof -
  obtain data where b: "blocks_rewritten img env cover data old new" using assms by (auto simp: header_written_def)
  have h: "\<forall>b \<in> set old. block_ok b" "\<forall>b \<in> set new. length (snd b) \<le> 0xffffff"
    using assms by (auto simp: header_written_def)
  note ok = blocks_rewritten_ok [OF b h]
  show "te_source env = flac_file pre old audio" "flac_shape pre old audio" "flac_shape pre new audio"
    using assms ok by (auto simp: header_written_def flac_shape_def list_all_iff)
qed

section \<open>Edits that succeed\<close>

lemma quiet_discard:
  "quiet env \<Longrightarrow> tio_pos s + n \<le> length (te_source env) \<Longrightarrow> \<exists>s'. discard_loop env n first s = Inr s'"
proof (induction env n first s rule: discard_loop.induct)
  case (1 env n first s)
  show ?case
  proof (cases "n = 0")
    case True
    then show ?thesis by (simp add: discard_loop.simps)
  next
    case n: False
    obtain s0 where c: "io_check env s = Inr s0" using quiet_check [OF "1.prems"(1)] by blast
    obtain bs s' where r: "read_some env (min n 65536) s0 = Inr (bs, s')" using quiet_read [OF "1.prems"(1)] by force
    note d = read_someD [OF r]
    have pos: "tio_pos s0 = tio_pos s" using io_checkD [OF c] by simp
    have ne: "bs \<noteq> []" using d n "1.prems"(2) pos by auto
    have "tio_pos s' + (n - length bs) \<le> length (te_source env)" using d "1.prems"(2) pos by auto
    with "1.IH" [OF n c r refl ne "1.prems"(1)] show ?thesis
      using c r ne n by (subst discard_loop.simps) simp
  qed
qed

lemma quiet_payload:
  assumes q: "quiet env" and src: "te_source env = a @ d @ rest" "length a = tio_pos s"
  obtains s' where
    "(if k = 6 \<and> dp then try_bind (discard_bytes env (length d) s) (\<lambda>s. Inr ([], s)) else io_bytes env (length d) s) =
      Inr (snd (strip_picture dp (k, d)), s')"
    "tio_pos s' = length a + length d" "tio_out s' = tio_out s"
proof (cases "k = 6 \<and> dp")
  case True
  obtain s' where s': "discard_loop env (length d) True s = Inr s'" using quiet_discard [OF q] src by force
  moreover have "tio_pos s' = length a + length d" "tio_out s' = tio_out s" using discard_loopD [OF s'] src by auto
  ultimately show ?thesis using that [of s'] True by (simp add: discard_bytes_def strip_picture_def)
next
  case False
  obtain data s' where e: "io_exact env (length d) s = Inr (data, s')" using quiet_exact [OF q, of s "length d"] src by auto
  with exact_at [OF e src] show ?thesis using that [of s'] False by (auto simp: strip_picture_def)
qed

lemma quiet_read_blocks:
  assumes q: "quiet env"
  shows "te_source env = a @ blocks_bytes bs @ audio \<Longrightarrow> length a = tio_pos s \<Longrightarrow> bs \<noteq> [] \<Longrightarrow> \<forall>b \<in> set bs. block_ok b \<Longrightarrow>
    length acc + length bs \<le> 65536 \<Longrightarrow> tot + length (blocks_bytes bs) \<le> max_tag_bytes \<Longrightarrow>
    \<exists>s'. read_blocks env dp acc tot s = Inr (acc @ map (strip_picture dp) bs, s') \<and>
      tio_pos s' = length a + length (blocks_bytes bs) \<and> tio_out s' = tio_out s"
proof (induction bs arbitrary: a acc tot s)
  case (Cons b bs)
  obtain k d where b: "b = (k, d)" by force
  let ?h = "block_header (bs = []) k (length d)"
  have src: "te_source env = a @ ?h @ d @ blocks_bytes bs @ audio" using Cons.prems(1) b by simp
  have ok: "block_ok (k, d)" using Cons.prems(4) b by simp
  obtain s0 where c: "io_check env s = Inr s0" using quiet_check [OF q] by blast
  have s0: "tio_pos s0 = length a" "tio_out s0 = tio_out s" using io_checkD [OF c] Cons.prems(2) by simp_all
  obtain h s1 where e: "io_exact env 4 s0 = Inr (h, s1)" using quiet_exact [OF q, of s0 4] src s0 by auto
  have h: "h = ?h" and s1: "tio_pos s1 = length a + 4" "tio_out s1 = tio_out s"
    using exact_at [OF e src] s0 by simp_all
  have p: "block_kind h = k" "block_last h = (bs = [])" "block_length h = length d"
    using block_header_parts [of k "length d" "bs = []"] ok by (simp_all add: h block_ok_def)
  obtain s2 where d: "(if k = 6 \<and> dp then try_bind (discard_bytes env (length d) s1) (\<lambda>s. Inr ([], s)) else io_bytes env (length d) s1) =
      Inr (snd (strip_picture dp (k, d)), s2)" and s2: "tio_pos s2 = length a + 4 + length d" "tio_out s2 = tio_out s"
    using quiet_payload [OF q, of "a @ ?h" d "blocks_bytes bs @ audio" s1] src s1 by auto
  have strip: "(k, snd (strip_picture dp (k, d))) = strip_picture dp (k, d)" by (simp add: strip_picture_def)
  have limits: "length acc < 65536" "tot + length d + 4 \<le> max_tag_bytes" using Cons.prems(5,6) b by simp_all
  have step: "read_blocks env dp acc tot s =
      (if bs = [] then Inr (acc @ [strip_picture dp (k, d)], s2)
       else read_blocks env dp (acc @ [strip_picture dp (k, d)]) (tot + length d + 4) s2)"
    unfolding read_blocks.simps [of env dp acc tot s] c try_bind_simps e split Let_def p d strip using limits by simp
  show ?case
  proof (cases "bs = []")
    case True
    then show ?thesis using step s2 b by simp
  next
    case False
    then show ?thesis
      using step s2 b Cons.IH [of "a @ ?h @ d" s2 "acc @ [strip_picture dp (k, d)]" "tot + length d + 4"] src Cons.prems(4,5,6)
      by auto
  qed
qed simp

lemma quiet_write_section:
  assumes q: "quiet env" and "sec_start sec \<le> sec_end sec" "sec_end sec \<le> length (te_source env)"
  obtains s' where "write_sections env [sec] s = Inr s'"
proof -
  obtain s0 where k: "io_seek env 0 s = Inr s0" using quiet_seek [OF q] by blast
  obtain s1 where c: "copy_loop env (Some (sec_start sec)) s0 = Inr s1"
    using quiet_copy_loop [OF q, of "Some (sec_start sec)" s0] io_seekD [OF k] assms(2,3) by auto
  obtain s2 where w: "write_chunks env (sec_data sec) s1 = Inr s2" using quiet_write_chunks [OF q] by blast
  obtain s3 where k2: "io_seek env (sec_end sec) s2 = Inr s3" using quiet_seek [OF q] by blast
  obtain s4 where "copy_loop env None s3 = Inr s4" using quiet_copy_loop [OF q, of None s3] by auto
  then show ?thesis using that assms(2) k c w k2 by (simp add: write_sections_def sort_key_def)
qed

lemma quiet_flac_header:
  assumes q: "quiet env" and src: "te_source env = flac_file pre old audio" "flac_shape pre old audio" and s: "tio_pos s = 0"
    and limits: "length old \<le> 65536" "length (blocks_bytes old) \<le> max_tag_bytes"
    and comments: "old_comments old = Inr (vendor, cs)"
    and pic: "\<And>s. \<exists>s'. replace_picture img env cover
        (map (strip_picture (cover \<noteq> None)) (replace_comments (put_comments vendor (change_comments tx fs mode cs)) old)) s = Inr (new, s')"
    and put: "put_blocks flac_magic new = Inr head"
  obtains sec s' where "flac_header tx img env fs cover mode s = Inr (sec, s')"
    "sec_start sec \<le> sec_end sec" "sec_end sec \<le> length (te_source env)"
proof -
  note shape = flac_shapeD [OF src(2)]
  have src': "te_source env = pre @ flac_magic @ blocks_bytes old @ audio" using src(1) by (simp add: flac_file_def)
  obtain start s1 where st: "flac_start env s = Inr (start, s1)" using quiet_start [OF q src' shape(1) s] by force
  note start = flac_start_at [OF st s src' shape(1)]
  obtain s2 where rb: "read_blocks env (cover \<noteq> None) [] 0 s1 = Inr (map (strip_picture (cover \<noteq> None)) old, s2)"
    and s2: "tio_pos s2 = length pre + 4 + length (blocks_bytes old)"
    using quiet_read_blocks [OF q, of "pre @ flac_magic" old audio s1 "[]" 0] src' start shape limits by auto
  obtain s3 where k: "io_seek env (tio_pos s2) s2 = Inr s3" using quiet_seek [OF q] by blast
  have s3: "tio_pos s3 = length pre + 4 + length (blocks_bytes old)" using io_seekD [OF k] s2 by simp
  obtain sync s4 where e: "io_exact env 2 s3 = Inr (sync, s4)" using quiet_exact [OF q, of s3 2] src' s3 shape(4) by auto
  have "sync = take 2 audio"
    using exact_at(1) [OF e, of "pre @ flac_magic @ blocks_bytes old" "take 2 audio" "drop 2 audio"] src' s3 shape(4) by simp
  then have sync: "frame_sync sync" using shape(5) by simp
  obtain s5 where rp: "replace_picture img env cover
      (replace_comments (put_comments vendor (change_comments tx fs mode cs)) (map (strip_picture (cover \<noteq> None)) old)) s4 = Inr (new, s5)"
    using pic [of s4] by (auto simp: replace_comments_strip)
  have "flac_header tx img env fs cover mode s = Inr (\<lparr>sec_start = start, sec_end = tio_pos s3, sec_data = head\<rparr>, s5)"
    unfolding flac_header_def st try_bind_simps split rb k Let_def e old_comments_strip comments rp put by (simp add: sync)
  then show ?thesis using that start s3 src' by force
qed

lemma put_blocks_fit:
  "length head + length (blocks_bytes bs) \<le> max_tag_bytes \<Longrightarrow> \<forall>b \<in> set bs. length (snd b) \<le> 0xffffff \<Longrightarrow>
   put_blocks head bs = Inr (head @ blocks_bytes bs)"
  by (induction head bs rule: put_blocks.induct) (auto simp: block_header_def block_flag_def)

text \<open>Artwork that needs no scaling, as the block it becomes.\<close>

definition cover_block :: "'img image_lib \<Rightarrow> u8 list \<Rightarrow> u8 list" where
  "cover_block img c =
     (let mime = cover_mime c in
      picture_bytes mime
        (case im_dimensions img c of
           None \<Rightarrow> (0, 0, 0)
         | Some (w, h) \<Rightarrow> (w, h, if mime = ''image/png'' then 32 else if mime = ''image/jpeg'' then 24 else 0)) c)"

definition cover_fits :: "'img image_lib \<Rightarrow> u8 list option \<Rightarrow> bool" where
  "cover_fits img cover = (case cover of None \<Rightarrow> True | Some c \<Rightarrow> length c \<le> cover_limit \<and> im_guess img c = None)"

definition new_blocks ::
  "'img image_lib \<Rightarrow> (comment list \<Rightarrow> comment list) \<Rightarrow> u8 list option \<Rightarrow> u8 list \<Rightarrow> comment list \<Rightarrow> flac_blocks \<Rightarrow> flac_blocks" where
  "new_blocks img change cover vendor cs old =
     (let bs = replace_comments (put_comments vendor (change cs)) old in
      case cover of None \<Rightarrow> bs | Some c \<Rightarrow> filter (\<lambda>b. fst b \<noteq> 6) bs @ [(6, cover_block img c)])"

lemma picture_plain:
  assumes "length c \<le> cover_limit" "im_guess img c = None"
  shows "picture img env c s = try_bind (io_check env s) (\<lambda>s. Inr (Some (cover_block img c), s))"
  using assms by (simp add: picture_def guess_ok_def cover_block_def Let_def)

lemma replace_picture_plain:
  assumes q: "quiet env" and "cover_fits img cover"
  shows "\<exists>s'. replace_picture img env cover
      (map (strip_picture (cover \<noteq> None)) (replace_comments (put_comments vendor (change cs)) old)) s =
    Inr (new_blocks img change cover vendor cs old, s')"
proof (cases cover)
  case None
  then show ?thesis by (simp add: replace_picture_def new_blocks_def Let_def)
next
  case (Some c)
  then show ?thesis
    using assms(2) by (simp add: replace_picture_def new_blocks_def Let_def cover_fits_def picture_plain quiet_check [OF q] filter_strip)
qed

lemma blocks_rewritten_plain:
  assumes "cover_fits img cover" "blocks_rewritten img env cover (put_comments vendor (change cs)) old new"
  shows "new = new_blocks img change cover vendor cs old"
  using assms
  by (auto simp: blocks_rewritten_def new_blocks_def cover_fits_def picture_plain try_bind_eq_Inr picture_blocks_def Let_def
      split: option.splits)

definition header_fits :: "flac_blocks \<Rightarrow> bool" where
  "header_fits bs \<longleftrightarrow> 4 + length (blocks_bytes bs) \<le> max_tag_bytes \<and> list_all (\<lambda>b. length (snd b) \<le> 0xffffff) bs"

lemma rewrite_flac_returns:
  assumes q: "quiet env" and src: "te_source env = flac_file pre old audio" "flac_shape pre old audio"
    and fields: "validate_fields fs = Inr ()"
    and comments: "old_comments old = Inr (vendor, cs)"
    and limits: "length old \<le> 65536" "length (blocks_bytes old) \<le> max_tag_bytes" "cover_fits img (some_cover cover)"
      "header_fits (new_blocks img (edit_comments tx (artist_mode_fields tx fs)) (some_cover cover) vendor cs old)"
  shows "\<exists>s'. rewrite_flac_tags tx img env fs cover tag_start = Inr s'"
proof -
  let ?change = "edit_comments tx (artist_mode_fields tx fs)"
  let ?new = "new_blocks img ?change (some_cover cover) vendor cs old"
  have change: "change_comments tx (artist_mode_fields tx fs) None cs = ?change cs" by (simp add: change_comments_def)
  obtain s0 where c: "io_check env tag_start = Inr s0" using quiet_check [OF q] by blast
  obtain s1 where k: "io_seek env 0 s0 = Inr s1" using quiet_seek [OF q] by blast
  have put: "put_blocks flac_magic ?new = Inr (flac_magic @ blocks_bytes ?new)"
    using limits(4) by (intro put_blocks_fit) (auto simp: header_fits_def list_all_iff)
  obtain sec s2 where h: "flac_header tx img env (artist_mode_fields tx fs) (some_cover cover) None s1 = Inr (sec, s2)"
    and sec: "sec_start sec \<le> sec_end sec" "sec_end sec \<le> length (te_source env)"
    by (rule quiet_flac_header [OF q src _ limits(1,2) comments _ put])
       (use io_seekD [OF k] replace_picture_plain [OF q limits(3)] in \<open>auto simp: change\<close>)
  obtain s3 where "write_sections env [sec] s2 = Inr s3" by (rule quiet_write_section [OF q sec])
  then show ?thesis by (simp add: rewrite_flac_tags_def c fields k h)
qed

section \<open>Artwork\<close>

lemma cursor_u32_be: "cursor_u32 (be_bytes4 n @ rest) = Inr (n mod 2 ^ 32, rest)"
  by (simp add: cursor_u32_def be_bytes_number)

lemma length_cover_mime: "length (cover_mime c) \<le> 10"
  by (simp add: cover_mime_def)

lemma picture_block_of:
  assumes "c \<noteq> []" "length c \<le> cover_limit"
  shows "\<exists>mime. picture_block (picture_bytes (cover_mime c) dims c) False = Some (3, \<lparr>ca_data = c, ca_mime = mime\<rparr>)"
proof -
  obtain w h d where dims: "dims = (w, h, d)" by (cases dims)
  let ?mime = "as_bytes (cover_mime c)"
  define tail where "tail = as_bytes ''Front Cover'' @ be_bytes4 w @ be_bytes4 h @ be_bytes4 d @ be_bytes4 0 @ be_bytes4 (length c) @ c"
  have bytes: "picture_bytes (cover_mime c) dims c =
      be_bytes4 3 @ be_bytes4 (length ?mime) @ ?mime @ be_bytes4 11 @ tail"
    by (simp add: picture_bytes_def dims tail_def numeral_eq_Suc)
  have small: "length ?mime mod 4294967296 = length ?mime" "length c mod 4294967296 = length c"
    using length_cover_mime [of c] assms(2) by (simp_all add: cover_limit_def)
  have skip: "drop 27 tail = be_bytes4 (length c) @ c" by (simp add: tail_def)
  show ?thesis
    unfolding picture_block_def bytes cursor_u32_be try_bind_simps split
    using assms(1) small
    by (simp add: cursor_u32_be skip [simplified] cursor_exact_append [of _ c "[]", simplified])
qed

lemma scan_front_cover:
  "fsc_front sc \<Longrightarrow> fsc_cover (fold (scan_block tx want) bs sc) = fsc_cover sc \<and> fsc_front (fold (scan_block tx want) bs sc)"
  by (induction bs arbitrary: sc) (auto simp: scan_block_def take_comments_def)

lemma scan_only_picture:
  assumes "blocks_of_kind (\<lambda>k. k = 6) bs = [(6, d)]" "picture_block d False = Some (3, art)" "\<not> fsc_front sc"
  shows "fsc_cover (fold (scan_block tx True) bs sc) = Some art"
  using assms
proof (induction bs arbitrary: sc)
  case (Cons b bs)
  show ?case
  proof (cases "fst b = 6")
    case True
    then have "b = (6, d)" using Cons.prems(1) by (simp add: blocks_of_kind_def prod_eq_iff)
    then have "scan_block tx True b sc = sc\<lparr>fsc_front := True, fsc_cover := Some art\<rparr>"
      using Cons.prems(2,3) by (simp add: scan_block_def take_picture_def)
    then show ?thesis using scan_front_cover [of "scan_block tx True b sc" tx True bs] by simp
  next
    case False
    then have "\<not> fsc_front (scan_block tx True b sc)" using Cons.prems(3) by (simp add: scan_block_def take_comments_def)
    with Cons False show ?thesis by (simp add: blocks_of_kind_def)
  qed
qed (simp add: blocks_of_kind_def)

lemma new_blocks_picture:
  "blocks_of_kind (\<lambda>k. k = 6) (new_blocks img change (Some c) vendor cs old) = [(6, cover_block img c)]"
  by (simp add: new_blocks_def blocks_of_kind_def Let_def)

lemma flac_cover_at:
  assumes q: "quiet env" and src: "te_source env = flac_file pre bs audio" "flac_shape pre bs audio"
    and pic: "blocks_of_kind (\<lambda>k. k = 6) bs = [(6, d)]" "picture_block d False = Some (3, art)"
  obtains art' s' where "flac_cover tx env tag_start = Inr (art', s')" "ca_data art' = ca_data art"
proof -
  have s: "tio_pos tag_start = 0" by (simp add: tag_start_def)
  from quiet_inner [OF q s src] obtain sc s' where i: "flac_inner tx True env tag_start = Inr (sc, s')" by force
  have "fsc_cover sc = Some art"
    unfolding flac_inner_at [OF i s src] by (rule scan_only_picture [OF pic]) (simp add: scan_start_def)
  then show ?thesis using that by (simp add: flac_cover_def flac_with_cover_def i map_err_def)
qed

section \<open>A sample file\<close>

definition ascii_table :: "(nat \<Rightarrow> nat) \<Rightarrow> nat \<Rightarrow> nat list" where
  "ascii_table f c = [if c < 128 then f c else c]"

definition sample_text :: tag_text where
  "sample_text =
     \<lparr>tt_upper = ascii_table (\<lambda>c. if between 97 122 c then c - 32 else c),
      tt_lower = ascii_table (\<lambda>c. if between 65 90 c then c + 32 else c),
      tt_primary = (\<lambda>s. [s]), tt_artists = (\<lambda>s. [s])\<rparr>"

definition sample_images :: "unit image_lib" where
  "sample_images = \<lparr>im_guess = (\<lambda>_. None), im_decode = (\<lambda>_. None), im_jpeg = (\<lambda>_ _. None),
     im_resize = (\<lambda>_ i. i), im_dimensions = (\<lambda>_. Some (2, 2))\<rparr>"

definition sample_env :: "u8 list \<Rightarrow> tag_env" where
  "sample_env src = \<lparr>te_source = src, te_fault = (\<lambda>_. None), te_chunk = (\<lambda>n. n)\<rparr>"

definition sample_blocks :: flac_blocks where
  "sample_blocks = [(0, [1, 2])]"

definition sample_flac :: "u8 list" where
  "sample_flac = flac_file [] sample_blocks [0xff, 0xf8, 7]"

definition sample_fields :: tag_fields where
  "sample_fields = [(''artist'', ''A''), (''title'', ''T'')]"

lemma sample_table: "case_table (tt_upper sample_text)"
  by (simp add: case_table_def sample_text_def ascii_table_def)

lemma sample_env_simps [simp]: "quiet (sample_env src)" "te_source (sample_env src) = src"
  by (simp_all add: quiet_def sample_env_def)

lemma valid_text_ascii: "is_ascii s \<Longrightarrow> valid_text s"
  unfolding valid_text_def by (rule valid_utf8_is_ascii)

lemma sample_modes: "artist_mode_fields sample_text sample_fields = sample_fields"
  by (simp add: artist_mode_fields_def sample_fields_def bt_get_def artist_keys_def tag_separator_def separator_key_def)

lemma sample_edit_ok: "edit_ok sample_text (artist_mode_fields sample_text sample_fields)"
  unfolding sample_modes edit_ok_def fields_are_text_def
  by (simp add: sample_table sample_fields_def artist_values_def bt_get_def valid_text_ascii is_ascii_def byte_of_def)

lemma sample_edit:
  "edit_comments sample_text sample_fields [] = [comment_of ''TITLE'' ''T'', comment_of ''ARTIST'' ''A'']"
proof -
  have "tag_key sample_text k" if "k \<in> set upper_keys" for k by (rule tag_keyI [OF sample_table that])
  then have keys: "comment_key sample_text (comment_of k v) = k" if "k \<in> set upper_keys" for k v
    using comment_key_of that by blast
  show ?thesis
    by (simp add: edit_comments_def plain_fields_def set_tag_field_def alias_fields_def clear_aliases_def set_artists_def
          set_index_def set_lyrics_def sample_fields_def bt_get_def set_comment_def artist_values_def Let_def keys upper_keys_def
          trim_def trim_end_def is_ws1_def byte_of_def)
qed

lemma sample_shape: "flac_shape [] sample_blocks [0xff, 0xf8, 7]"
  by (simp add: flac_shape_def stream_prefix_def sample_blocks_def block_ok_def kind_ok_def frame_sync_def)

lemma sample_comments: "old_comments sample_blocks = Inr (as_bytes ''Mornye'', [])"
  by (simp add: old_comments_blocks comment_blocks_def sample_blocks_def)

lemma sample_fits:
  "validate_fields sample_fields = Inr ()"
  "length sample_blocks \<le> 65536"
  "length (blocks_bytes sample_blocks) \<le> max_tag_bytes"
  "cover_fits sample_images (some_cover None)"
  "header_fits (new_blocks sample_images (edit_comments sample_text (artist_mode_fields sample_text sample_fields))
     (some_cover None) (as_bytes ''Mornye'') [] sample_blocks)"
  by (simp_all add: validate_fields_def sample_fields_def checked_add_def u64_max_def max_tag_bytes_def sample_blocks_def
        cover_fits_def some_cover_def)
     (simp add: sample_modes [unfolded sample_fields_def] sample_edit [unfolded sample_fields_def] header_fits_def
        new_blocks_def replace_comments_def max_tag_bytes_def put_comments_def comment_of_def put_string_def)

lemma sample_source: "te_source (sample_env sample_flac) = flac_file [] sample_blocks [0xff, 0xf8, 7]"
  by (simp add: sample_flac_def)

lemma sample_run:
  "\<exists>s'. rewrite_flac_tags sample_text sample_images (sample_env sample_flac) sample_fields None tag_start = Inr s'"
  by (rule rewrite_flac_returns [OF _ sample_source sample_shape sample_fits(1) sample_comments sample_fits(2-5)]) simp

section \<open>The properties of an edit\<close>

text \<open>
  C5. An edit of a FLAC file's tags that succeeds keeps the audio frames and an ID3 tag in front of the stream
  byte for byte, keeps every metadata block that is neither a comment nor a picture in its place, keeps the pictures
  when no cover is given, and never leaves more than one picture when one is.
\<close>

theorem flac_edit_keeps_audio:
  assumes "rewrite_flac_tags tx img env fs cover tag_start = Inr s'"
  shows "\<exists>pre old new audio.
    te_source env = flac_file pre old audio \<and> flac_shape pre old audio \<and>
    tio_out s' = flac_file pre new audio \<and> flac_shape pre new audio \<and>
    blocks_of_kind (\<lambda>k. k \<noteq> 4 \<and> k \<noteq> 6) new = blocks_of_kind (\<lambda>k. k \<noteq> 4 \<and> k \<noteq> 6) old \<and>
    (if some_cover cover = None then blocks_of_kind (\<lambda>k. k = 6) new = blocks_of_kind (\<lambda>k. k = 6) old
     else length (blocks_of_kind (\<lambda>k. k = 6) new) \<le> 1)"
proof -
  obtain sec pre old new audio where
    h: "header_written tx img env (edit_comments tx (artist_mode_fields tx fs)) (some_cover cover) sec pre old new audio"
    and out: "tio_out s' = flac_file pre new audio"
    by (rule rewrite_flac_written [OF assms])
  obtain data where b: "blocks_rewritten img env (some_cover cover) data old new" using h by (auto simp: header_written_def)
  show ?thesis
    using header_written_shapes [OF h] out blocks_rewritten_kept [OF b] by (intro exI [of _ pre] exI [of _ old] exI [of _ new] exI [of _ audio]) simp
qed

theorem flac_edit_keeps_audio_witness:
  "\<exists>s' pre old new audio.
    rewrite_flac_tags sample_text sample_images (sample_env sample_flac) sample_fields None tag_start = Inr s' \<and>
    te_source (sample_env sample_flac) = flac_file pre old audio \<and> tio_out s' = flac_file pre new audio \<and>
    blocks_of_kind (\<lambda>k. k \<noteq> 4 \<and> k \<noteq> 6) new = blocks_of_kind (\<lambda>k. k \<noteq> 4 \<and> k \<noteq> 6) old"
proof -
  obtain s' where run: "rewrite_flac_tags sample_text sample_images (sample_env sample_flac) sample_fields None tag_start = Inr s'"
    using sample_run by blast
  from flac_edit_keeps_audio [OF run] run show ?thesis by blast
qed



text \<open>
  C24. An edit succeeds whenever no access fails: for a well formed file of at most 65536 metadata blocks whose comments
  parse, fields within 64 MiB, artwork that needs no scaling, and old and new headers within the size limits.
\<close>

theorem flac_edit_succeeds:
  assumes q: "quiet env" and src: "te_source env = flac_file pre old audio" "flac_shape pre old audio"
    and fields: "validate_fields fs = Inr ()"
    and comments: "old_comments old = Inr (vendor, cs)"
    and limits: "length old \<le> 65536" "length (blocks_bytes old) \<le> max_tag_bytes" "cover_fits img (some_cover cover)"
      "header_fits (new_blocks img (edit_comments tx (artist_mode_fields tx fs)) (some_cover cover) vendor cs old)"
  shows "\<exists>s'. rewrite_flac_tags tx img env fs cover tag_start = Inr s'"
  by (rule rewrite_flac_returns [OF assms])

theorem flac_edit_succeeds_witness:
  "\<exists>s'. rewrite_flac_tags sample_text sample_images (sample_env sample_flac) sample_fields None tag_start = Inr s'"
  by (rule flac_edit_succeeds [OF _ sample_source sample_shape sample_fits(1) sample_comments sample_fits(2-5)]) simp

text \<open>
  Artwork put into a FLAC file (not empty, small enough not to be scaled) is what the reader extracts from the
  file afterwards, whatever pictures the file had before; the extraction returns.
\<close>

theorem flac_cover_reads_back:
  assumes run: "rewrite_flac_tags tx img env fs (Some c) tag_start = Inr s'"
    and cover: "c \<noteq> []" "cover_fits img (Some c)"
    and after: "quiet env1" "te_source env1 = tio_out s'"
  shows "\<exists>art s1. flac_cover tx env1 tag_start = Inr (art, s1) \<and> ca_data art = c"
proof -
  let ?change = "edit_comments tx (artist_mode_fields tx fs)"
  have some: "some_cover (Some c) = Some c" using cover(1) by (simp add: some_cover_def)
  obtain sec pre old new audio where h: "header_written tx img env ?change (Some c) sec pre old new audio"
    and out: "tio_out s' = flac_file pre new audio"
    using rewrite_flac_written [OF run] unfolding some by blast
  obtain vendor cs where "blocks_rewritten img env (Some c) (put_comments vendor (?change cs)) old new"
    using h by (auto simp: header_written_def)
  from blocks_rewritten_plain [where change = ?change, OF cover(2) this]
  have pic: "blocks_of_kind (\<lambda>k. k = 6) new = [(6, cover_block img c)]" by (simp add: new_blocks_picture)
  obtain mime where "picture_block (cover_block img c) False = Some (3, \<lparr>ca_data = c, ca_mime = mime\<rparr>)"
    using picture_block_of [OF cover(1)] cover(2) unfolding cover_block_def Let_def cover_fits_def option.case by blast
  from flac_cover_at [OF after(1) _ header_written_shapes(3) [OF h] pic this] after(2) out
  show ?thesis by (metis cover_art.select_convs(1))
qed

definition sample_cover :: "u8 list" where
  "sample_cover = [0xff, 0xd8, 0xff, 9]"

lemma sample_cover_fits:
  "cover_fits sample_images (some_cover (Some sample_cover))"
  "header_fits (new_blocks sample_images (edit_comments sample_text (artist_mode_fields sample_text sample_fields))
     (some_cover (Some sample_cover)) (as_bytes ''Mornye'') [] sample_blocks)"
proof -
  show "cover_fits sample_images (some_cover (Some sample_cover))"
    by (simp add: cover_fits_def some_cover_def sample_cover_def cover_limit_def sample_images_def)
  have "length (cover_block sample_images sample_cover) \<le> 100"
    using length_cover_mime [of sample_cover]
    by (simp add: cover_block_def Let_def picture_bytes_def sample_images_def sample_cover_def)
  then show "header_fits (new_blocks sample_images (edit_comments sample_text (artist_mode_fields sample_text sample_fields))
     (some_cover (Some sample_cover)) (as_bytes ''Mornye'') [] sample_blocks)"
    by (simp add: sample_modes sample_edit header_fits_def new_blocks_def replace_comments_def sample_blocks_def some_cover_def
          sample_cover_def max_tag_bytes_def put_comments_def comment_of_def put_string_def)
qed

theorem flac_cover_reads_back_witness:
  "\<exists>s' art s1.
    rewrite_flac_tags sample_text sample_images (sample_env sample_flac) sample_fields (Some sample_cover) tag_start = Inr s' \<and>
    flac_cover sample_text (sample_env (tio_out s')) tag_start = Inr (art, s1) \<and> ca_data art = [0xff, 0xd8, 0xff, 9]"
proof -
  obtain s' where run:
    "rewrite_flac_tags sample_text sample_images (sample_env sample_flac) sample_fields (Some sample_cover) tag_start = Inr s'"
    using rewrite_flac_returns [OF _ sample_source sample_shape sample_fits(1) sample_comments sample_fits(2,3) sample_cover_fits]
    by auto
  have "sample_cover \<noteq> []" "cover_fits sample_images (Some sample_cover)"
    using sample_cover_fits(1) by (simp_all add: sample_cover_def some_cover_def)
  from flac_cover_reads_back [OF run this, of "sample_env (tio_out s')"] run
  show ?thesis by (auto simp: sample_cover_def)
qed

section \<open>The same edit again\<close>

lemma replace_comments_same:
  assumes "comment_blocks bs = (4, data) # r"
  shows "replace_comments data bs = bs"
proof (cases "position (\<lambda>b. fst b = 4) bs")
  case None
  then show ?thesis using assms position_filter(1) [OF None] by (simp add: comment_blocks_def)
next
  case (Some i)
  then have at: "bs ! i = (4, data)" using assms position_filter(2) [OF Some] by (simp add: comment_blocks_def)
  have "bs[i := bs ! i] = bs" by (rule list_update_id)
  then show ?thesis unfolding replace_comments_def Some option.case at by simp
qed

lemma new_blocks_again:
  assumes "change (change cs) = change cs"
    and "new = new_blocks img change cover vendor cs old"
    and "comment_blocks new = (4, put_comments vendor (change cs)) # r"
  shows "new_blocks img change cover vendor (change cs) new = new"
proof -
  have same: "replace_comments (put_comments vendor (change (change cs))) new = new"
    unfolding assms(1) by (rule replace_comments_same [OF assms(3)])
  show ?thesis
  proof (cases cover)
    case None
    then show ?thesis by (simp add: new_blocks_def same)
  next
    case (Some c)
    define mid where "mid = replace_comments (put_comments vendor (change cs)) old"
    have "new = filter (\<lambda>b. fst b \<noteq> 6) mid @ [(6, cover_block img c)]"
      using assms(2) Some by (simp add: new_blocks_def mid_def)
    then have "filter (\<lambda>b. fst b \<noteq> 6) new @ [(6, cover_block img c)] = new" by simp
    then show ?thesis by (simp add: new_blocks_def same Some)
  qed
qed

lemma same_bytes_at:
  "quiet env \<Longrightarrow> te_source env = a @ expected @ rest \<Longrightarrow> length a = tio_pos s \<Longrightarrow>
   \<exists>s'. same_bytes env expected s = Inr (True, s') \<and> tio_out s' = tio_out s"
proof (induction env expected s arbitrary: a rule: same_bytes.induct)
  case (1 env expected s)
  show ?case
  proof (cases "expected = []")
    case True
    then show ?thesis by (simp add: same_bytes.simps)
  next
    case ne: False
    let ?n = "length (take 65536 expected)"
    have src: "te_source env = a @ take 65536 expected @ (drop 65536 expected @ rest)" using "1.prems"(2) by simp
    obtain bs s1 where e: "io_exact env ?n s = Inr (bs, s1)"
      using quiet_exact [OF "1.prems"(1), of s ?n] src "1.prems"(3) by auto
    note at = exact_at [OF e src "1.prems"(3) refl]
    have "\<exists>s'. same_bytes env (drop 65536 expected) s1 = Inr (True, s') \<and> tio_out s' = tio_out s1"
      by (rule "1.IH" [OF ne e refl _ "1.prems"(1), of "a @ take 65536 expected"]) (use at src in auto)
    then show ?thesis using e at ne by (subst same_bytes.simps) auto
  qed
qed

lemma length_new_blocks: "length (new_blocks img change cover vendor cs old) \<le> length old + 2"
proof -
  define bs where "bs = replace_comments (put_comments vendor (change cs)) old"
  have "length bs \<le> length old + 1" by (simp add: bs_def replace_comments_def split: option.splits)
  moreover have "length (filter (\<lambda>b. fst b \<noteq> 6) bs) \<le> length bs" by (rule length_filter_le)
  ultimately have "length (filter (\<lambda>b. fst b \<noteq> 6) bs) + 1 \<le> length old + 2" "length bs \<le> length old + 2" by linarith+
  then show ?thesis unfolding new_blocks_def Let_def bs_def [symmetric] by (cases cover) simp_all
qed

lemma unchanged_header:
  assumes h: "flac_header tx img env fs cover None s = Inr (sec, s1)" "tio_pos s = 0"
    and src: "te_source env = flac_file pre bs audio" "flac_shape pre bs audio"
    and comments: "old_comments bs = Inr (vendor, cs)" and fits: "cover_fits img cover"
    and same: "new_blocks img (edit_comments tx fs) cover vendor cs bs = bs"
  shows "sec_start sec = length pre" "sec_data sec = flac_magic @ blocks_bytes bs"
    "sec_end sec = length pre + length (sec_data sec)" "tio_out s1 = tio_out s"
proof -
  have change: "change_comments tx fs None = edit_comments tx fs" by (simp add: change_comments_def fun_eq_iff)
  obtain pre' old new audio' where hw: "header_written tx img env (edit_comments tx fs) cover sec pre' old new audio'"
    and "tio_out s1 = tio_out s"
    using flac_headerD [OF h] unfolding change by blast
  then show "tio_out s1 = tio_out s" by simp
  have eq: "pre' = pre" "old = bs" "audio' = audio"
    using flac_file_unique [of pre' old audio' pre bs audio] header_written_shapes(1,2) [OF hw] src by simp_all
  have "blocks_rewritten img env cover (put_comments vendor (edit_comments tx fs cs)) bs new"
    using hw comments by (simp add: header_written_def eq)
  from blocks_rewritten_plain [where change = "edit_comments tx fs", OF fits this] have "new = bs" by (simp add: same)
  with hw show "sec_start sec = length pre" "sec_data sec = flac_magic @ blocks_bytes bs"
    "sec_end sec = length pre + length (sec_data sec)"
    by (simp_all add: header_written_def eq)
qed

lemma unchanged_file:
  assumes q: "quiet env" and src: "te_source env = flac_file pre bs audio" "flac_shape pre bs audio"
    and fields: "validate_fields fs = Inr ()" and comments: "old_comments bs = Inr (vendor, cs)"
    and fits: "length bs \<le> 65536" "header_fits bs" "cover_fits img (some_cover cover)"
    and same: "new_blocks img (edit_comments tx (artist_mode_fields tx fs)) (some_cover cover) vendor cs bs = bs"
  shows "\<exists>s'. rewrite_flac_tags_if_changed tx img env fs cover tag_start = Inr (False, s') \<and> tio_out s' = []"
proof -
  let ?fs = "artist_mode_fields tx fs"
  have change: "change_comments tx ?fs None cs = edit_comments tx ?fs cs" by (simp add: change_comments_def)
  obtain s0 where c: "io_check env tag_start = Inr s0" using quiet_check [OF q] by blast
  obtain s1 where k: "io_seek env 0 s0 = Inr s1" using quiet_seek [OF q] by blast
  have s1: "tio_pos s1 = 0" "tio_out s1 = []" using io_seekD [OF k] io_checkD [OF c] by (simp_all add: tag_start_def)
  have pic: "\<exists>s'. replace_picture img env (some_cover cover) (map (strip_picture (some_cover cover \<noteq> None))
      (replace_comments (put_comments vendor (change_comments tx ?fs None cs)) bs)) s = Inr (bs, s')" for s
    unfolding change using replace_picture_plain [OF q fits(3), of vendor "edit_comments tx ?fs" cs bs s] unfolding same .
  have put: "put_blocks flac_magic bs = Inr (flac_magic @ blocks_bytes bs)"
    using fits(2) by (intro put_blocks_fit) (auto simp: header_fits_def list_all_iff)
  have small: "length (blocks_bytes bs) \<le> max_tag_bytes" using fits(2) by (simp add: header_fits_def)
  obtain sec s2 where h: "flac_header tx img env ?fs (some_cover cover) None s1 = Inr (sec, s2)"
    by (rule quiet_flac_header [OF q src s1(1) fits(1) small comments pic put])
  note sec = unchanged_header [OF h s1(1) src comments fits(3) same]
  obtain s3 where k3: "io_seek env (sec_start sec) s2 = Inr s3" using quiet_seek [OF q] by blast
  have "te_source env = pre @ sec_data sec @ audio" using src(1) sec(2) by (simp add: flac_file_def)
  then obtain s4 where eq: "same_bytes env (sec_data sec) s3 = Inr (True, s4)" and s4: "tio_out s4 = tio_out s3"
    using same_bytes_at [OF q, of pre "sec_data sec" audio s3] io_seekD [OF k3] sec(1) by auto
  obtain s5 where c5: "io_check env s4 = Inr s5" using quiet_check [OF q] by blast
  have "tio_out s5 = []" using io_checkD [OF c5] s4 io_seekD [OF k3] sec(4) s1(2) by simp
  moreover have "length (sec_data sec) = sec_end sec - sec_start sec" using sec(1,3) by simp
  ultimately show ?thesis by (simp add: rewrite_flac_tags_if_changed_def c fields k h k3 eq c5)
qed

text \<open>
  An edit that was written leaves nothing to do: running the same edit on its own output with
  \<open>rewrite_flac_tags_if_changed\<close> finds the header unchanged, reports \<open>false\<close> and writes nothing. (Files of at most
  65534 blocks, artwork that needs no scaling.)
\<close>

theorem flac_edit_twice_is_noop:
  assumes run: "rewrite_flac_tags tx img env fs cover tag_start = Inr s'"
    and fields: "edit_ok tx (artist_mode_fields tx fs)" and cover: "cover_fits img (some_cover cover)"
    and source: "te_source env = flac_file pre old audio" "flac_shape pre old audio" "length old + 2 \<le> 65536"
    and again: "quiet env1" "te_source env1 = tio_out s'"
  shows "\<exists>s1. rewrite_flac_tags_if_changed tx img env1 fs cover tag_start = Inr (False, s1) \<and> tio_out s1 = []"
proof -
  let ?fs = "artist_mode_fields tx fs" and ?cover = "some_cover cover"
  let ?change = "edit_comments tx ?fs"
  obtain sec pre' old' new audio' where h': "header_written tx img env ?change ?cover sec pre' old' new audio'"
    and out': "tio_out s' = flac_file pre' new audio'"
    by (rule rewrite_flac_written [OF run])
  have "pre' = pre \<and> old' = old \<and> audio' = audio"
    using flac_file_unique [of pre' old' audio' pre old audio] header_written_shapes(1,2) [OF h'] source by simp
  then have h: "header_written tx img env ?change ?cover sec pre old new audio"
    and out: "tio_out s' = flac_file pre new audio" using h' out' by simp_all
  obtain vendor cs where b: "blocks_rewritten img env ?cover (put_comments vendor (?change cs)) old new"
    and small: "\<forall>b \<in> set new. length (snd b) \<le> 0xffffff" "header_fits new"
    using h by (auto simp: header_written_def header_fits_def list_all_iff)
  have new: "new = new_blocks img ?change ?cover vendor cs old"
    by (rule blocks_rewritten_plain [where change = ?change, OF cover b])
  have same: "new_blocks img ?change ?cover vendor (?change cs) new = new"
    by (rule new_blocks_again [OF edit_comments_twice [OF fields] new blocks_rewritten_comments [OF b]])
  have "length new \<le> 65536" using length_new_blocks [of img ?change ?cover vendor cs old] source(3) unfolding new by linarith
  moreover have "validate_fields fs = Inr ()" using run by (auto simp: rewrite_flac_tags_def try_bind_eq_Inr)
  ultimately show ?thesis
    using unchanged_file [OF again(1) _ header_written_shapes(3) [OF h] _ old_comments_rewritten [OF b small(1)] _ small(2) cover same]
      again(2) out by simp
qed

theorem flac_edit_twice_is_noop_witness:
  "\<exists>s' s1.
    rewrite_flac_tags sample_text sample_images (sample_env sample_flac) sample_fields None tag_start = Inr s' \<and>
    rewrite_flac_tags_if_changed sample_text sample_images (sample_env (tio_out s')) sample_fields None tag_start = Inr (False, s1) \<and>
    tio_out s1 = []"
proof -
  obtain s' where run: "rewrite_flac_tags sample_text sample_images (sample_env sample_flac) sample_fields None tag_start = Inr s'"
    using sample_run by blast
  have "length sample_blocks + 2 \<le> 65536" by (simp add: sample_blocks_def)
  from flac_edit_twice_is_noop [OF run sample_edit_ok sample_fits(4) sample_source sample_shape this, of "sample_env (tio_out s')"] run
  show ?thesis by auto
qed

section \<open>Two edits that do not read back\<close>

text \<open>
  Clearing the \<open>upc\<close> field removes \<open>BARCODE\<close> and leaves the alias \<open>UPC\<close>, which the reader falls back
  to: the old code is still there. (The aliases of \<open>label\<close>, \<open>date\<close> and \<open>album_artist\<close> are removed.)
\<close>

lemma cleared_upc_falls_back:
  assumes ok: "edit_ok tx fs" and "bt_get fs ''upc'' = Some []" "bt_get fs ''barcode'' = None"
  shows "am_upc (flac_metadata tx (comment_values tx (edit_comments tx fs cs)) d) = first_value (comment_values tx cs ''UPC'')"
proof -
  have names: "''UPC'' \<in> set upper_keys" "''UPC'' \<notin> set special_keys" "''BARCODE'' \<in> set upper_keys" "''BARCODE'' \<notin> set special_keys"
    by (simp_all add: upper_keys_def plain_fields_def special_keys_def)
  have none: "last_edit fs plain_fields ''UPC'' = None" by (rule last_edit_none) (simp add: plain_fields_def)
  have "comment_values tx (edit_comments tx fs cs) ''UPC'' = comment_values tx cs ''UPC''"
    using values_edited [OF ok names(1) special_keysD(1) [OF names(2)]] special_keysD(2) [OF names(2)] none by simp
  moreover have "last_edit fs plain_fields ''BARCODE'' = Some []" using assms(2,3) by (simp add: plain_fields_def)
  then have "comment_values tx (edit_comments tx fs cs) ''BARCODE'' = []"
    using values_edited [OF ok names(3) special_keysD(1) [OF names(4)]] special_keysD(2) [OF names(4)]
    by (simp add: as_values_def)
  ultimately show ?thesis by (simp add: flac_metadata_def Let_def first_value_def)
qed

text \<open>
  A comment block with an empty comment in it, whose last comment is cleared, ends in the empty comment; the reader
  rejects such a block as a whole (\<open>valid_comments\<close>), so the tags that were not edited are gone as well.
\<close>

definition gap_comments :: "comment list" where
  "gap_comments = [comment_of ''ARTIST'' ''A'', [], comment_of ''TITLE'' ''T'']"

definition gap_fields :: tag_fields where
  "gap_fields = [(''title'', [])]"

lemma gap_edit: "edit_comments sample_text gap_fields gap_comments = [comment_of ''ARTIST'' ''A'', []]"
proof -
  have keys: "comment_key sample_text (comment_of k v) = k" if "k \<in> set upper_keys" for k v
    by (rule comment_key_of [OF tag_keyI [OF sample_table that]])
  have empty: "comment_key sample_text [] = []" by (simp add: comment_key_def)
  show ?thesis
    by (simp add: edit_comments_def plain_fields_def set_tag_field_def alias_fields_def clear_aliases_def set_artists_def
          set_index_def set_lyrics_def gap_fields_def bt_get_def set_comment_def gap_comments_def keys empty upper_keys_def)
qed

lemma gap_metadata:
  assumes "length (put_comments vendor cs) < 2 ^ 32"
  shows "metadata_of_blocks tx [(4, put_comments vendor cs)] =
    (if cs = [] \<or> last cs \<noteq> [] then comments_flac tx metadata_default (comment_items cs) else metadata_default)"
  using valid_comments_put [of vendor cs "[]"] comments_parse_put [of vendor cs "[]"] assms
  by (simp add: metadata_of_blocks_def comment_blocks_def)

lemma gap_sizes:
  "length (put_comments [] gap_comments) = 35" "length (put_comments [] [comment_of ''ARTIST'' ''A'', []]) = 24"
  by (simp_all add: put_comments_def put_string_def gap_comments_def comment_of_def)

lemma gap_last: "last gap_comments \<noteq> []"
  by (simp add: gap_comments_def comment_of_bytes)

lemma gap_artist: "am_artist (comments_flac sample_text metadata_default (comment_items gap_comments)) = ''A''"
proof -
  have key: "tag_key sample_text ''ARTIST''" "tag_key sample_text ''TITLE''"
    by (rule tag_keyI [OF sample_table], simp add: upper_keys_def plain_fields_def)+
  have valid: "valid_text ''A''" "valid_text ''T''" by (simp_all add: valid_text_ascii is_ascii_def byte_of_def)
  have "comment_item [] = []" by (simp add: comment_item_def)
  then have "comment_values sample_text gap_comments ''ARTIST'' = [''A'']"
    by (simp add: gap_comments_def item_values_of key valid) (simp add: item_values_def)
  then show ?thesis
    by (simp add: comments_flac_def comment_values_def [symmetric] flac_metadata_def Let_def joined_def trim_def trim_end_def
          is_ws1_def byte_of_def)
qed

theorem cleared_tag_hides_the_others:
  "\<exists>s' md0 s0 md1 s1.
    rewrite_flac_tags sample_text sample_images (sample_env (flac_file [] [(4, put_comments [] gap_comments)] [0xff, 0xf8, 7]))
      gap_fields None tag_start = Inr s' \<and>
    read_flac_tags sample_text (sample_env (flac_file [] [(4, put_comments [] gap_comments)] [0xff, 0xf8, 7])) tag_start =
      Inr (md0, s0) \<and> am_artist md0 = ''A'' \<and>
    read_flac_tags sample_text (sample_env (tio_out s')) tag_start = Inr (md1, s1) \<and> md1 = metadata_default"
proof -
  let ?old = "[(4, put_comments [] gap_comments)] :: flac_blocks" and ?audio = "[0xff, 0xf8, 7] :: u8 list"
  let ?new = "[(4, put_comments [] [comment_of ''ARTIST'' ''A'', []])] :: flac_blocks"
  let ?env = "sample_env (flac_file [] ?old ?audio)"
  have modes: "artist_mode_fields sample_text gap_fields = gap_fields"
    by (simp add: artist_mode_fields_def gap_fields_def bt_get_def artist_keys_def tag_separator_def separator_key_def)
  have shape: "flac_shape [] ?old ?audio"
    by (simp add: flac_shape_def stream_prefix_def block_ok_def kind_ok_def frame_sync_def gap_sizes)
  have comments: "old_comments ?old = Inr ([], gap_comments)"
    using parse_comments_put [of "[]" gap_comments "[]"] by (simp add: old_comments_blocks comment_blocks_def gap_sizes)
  have new: "new_blocks sample_images (edit_comments sample_text (artist_mode_fields sample_text gap_fields)) (some_cover None) [] gap_comments ?old = ?new"
    by (simp add: modes gap_edit new_blocks_def some_cover_def replace_comments_def)
  have fits: "header_fits ?new" "validate_fields gap_fields = Inr ()" "cover_fits sample_images (some_cover None)"
    "length (blocks_bytes ?old) \<le> max_tag_bytes"
    by (simp_all add: header_fits_def gap_sizes max_tag_bytes_def validate_fields_def gap_fields_def checked_add_def u64_max_def
          cover_fits_def some_cover_def)
  obtain s' where run: "rewrite_flac_tags sample_text sample_images ?env gap_fields None tag_start = Inr s'"
    using rewrite_flac_returns [OF _ _ shape fits(2) comments _ fits(4,3) fits(1) [folded new], of ?env] by auto
  obtain sec pre old' new' audio' where h: "header_written sample_text sample_images ?env
      (edit_comments sample_text (artist_mode_fields sample_text gap_fields)) (some_cover None) sec pre old' new' audio'"
    and out: "tio_out s' = flac_file pre new' audio'"
    by (rule rewrite_flac_written [OF run])
  have eq: "pre = []" "old' = ?old" "audio' = ?audio"
    using flac_file_unique [of pre old' audio' "[]" ?old ?audio] header_written_shapes(1,2) [OF h] shape by simp_all
  have "blocks_rewritten sample_images ?env (some_cover None)
      (put_comments [] (edit_comments sample_text (artist_mode_fields sample_text gap_fields) gap_comments)) ?old new'"
    using h comments by (simp add: header_written_def eq)
  from blocks_rewritten_plain [where change = "edit_comments sample_text (artist_mode_fields sample_text gap_fields)", OF fits(3) this] have "new' = ?new" by (simp only: new)
  then have out': "tio_out s' = flac_file [] ?new ?audio" and shape': "flac_shape [] ?new ?audio"
    using out header_written_shapes(3) [OF h] by (simp_all add: eq)
  obtain s0 where "read_flac_tags sample_text ?env tag_start = Inr (metadata_of_blocks sample_text ?old, s0)"
    using read_flac_at [OF sample_env_simps(1) _ shape, of "flac_file [] ?old ?audio" sample_text] by auto
  moreover obtain s1 where "read_flac_tags sample_text (sample_env (tio_out s')) tag_start = Inr (metadata_of_blocks sample_text ?new, s1)"
    using read_flac_at [OF sample_env_simps(1) _ shape', of "tio_out s'" sample_text] out' by auto
  moreover have "am_artist (metadata_of_blocks sample_text ?old) = ''A''" "metadata_of_blocks sample_text ?new = metadata_default"
    using gap_metadata [of "[]" gap_comments sample_text] gap_metadata [of "[]" "[comment_of ''ARTIST'' ''A'', []]" sample_text] gap_artist
    by (simp_all add: gap_sizes gap_last)
  ultimately show ?thesis using run by blast
qed

end
