(* ===== verification/Fallible_State.thy ===== *)
theory Fallible_State
  imports Prelude
begin

text \<open>
  Stateful operations that can fail: a function from the state to a result and the state left behind,
  also when the result is an error. \<open>sbind\<close> is the sequencing of the code with its \<open>?\<close> operator, and
  \<open>runs m Q w\<close> says that running \<open>m\<close> from \<open>w\<close> ends with a result and a state that satisfy \<open>Q\<close>; its
  rules take an operation apart along the code.
\<close>

type_synonym ('w, 'e, 'a) fallible = "'w \<Rightarrow> ('e, 'a) result \<times> 'w"

definition sret :: "'a \<Rightarrow> ('w, 'e, 'a) fallible" where
  "sret x w = (Inr x, w)"

definition sfail :: "'e \<Rightarrow> ('w, 'e, 'a) fallible" where
  "sfail e w = (Inl e, w)"

definition slift :: "('e, 'a) result \<Rightarrow> ('w, 'e, 'a) fallible" where
  "slift r w = (r, w)"

definition sbind ::
  "('w, 'e, 'a) fallible \<Rightarrow> ('a \<Rightarrow> ('w, 'e, 'b) fallible) \<Rightarrow> ('w, 'e, 'b) fallible" where
  "sbind m f w = (case m w of (r, w1) \<Rightarrow> (case r of Inl e \<Rightarrow> (Inl e, w1) | Inr x \<Rightarrow> f x w1))"

definition runs :: "('w, 'e, 'a) fallible \<Rightarrow> (('e, 'a) result \<Rightarrow> 'w \<Rightarrow> bool) \<Rightarrow> 'w \<Rightarrow> bool" where
  "runs m Q w \<longleftrightarrow> Q (fst (m w)) (snd (m w))"

lemma runs_sret [simp]: "runs (sret x) Q w \<longleftrightarrow> Q (Inr x) w"
  by (simp add: runs_def sret_def)

lemma runs_sfail [simp]: "runs (sfail e) Q w \<longleftrightarrow> Q (Inl e) w"
  by (simp add: runs_def sfail_def)

lemma runs_slift [simp]: "runs (slift r) Q w \<longleftrightarrow> Q r w"
  by (simp add: runs_def slift_def)

lemma runs_sbind [simp]:
  "runs (sbind m f) Q w \<longleftrightarrow>
     runs m (\<lambda>r w1. case r of Inl e \<Rightarrow> Q (Inl e) w1 | Inr x \<Rightarrow> runs (f x) Q w1) w"
  by (simp add: runs_def sbind_def split: sum.splits prod.splits)

lemma runs_mono: "runs m P w \<Longrightarrow> (\<And>r w1. P r w1 \<Longrightarrow> Q r w1) \<Longrightarrow> runs m Q w"
  by (simp add: runs_def)

lemma runs_bindI:
  assumes "runs m P w"
    and "\<And>e w1. P (Inl e) w1 \<Longrightarrow> Q (Inl e) w1"
    and "\<And>x w1. P (Inr x) w1 \<Longrightarrow> runs (f x) Q w1"
  shows "runs (sbind m f) Q w"
  unfolding runs_sbind by (rule runs_mono [OF assms(1)]) (auto simp: assms(2,3) split: sum.splits)

lemma runsD: "runs m Q w \<Longrightarrow> m w = (r, w1) \<Longrightarrow> Q r w1"
  by (simp add: runs_def)

lemma runsI: "(\<And>r w1. m w = (r, w1) \<Longrightarrow> Q r w1) \<Longrightarrow> runs m Q w"
  by (simp add: runs_def)

lemma runs_conj: "runs m (\<lambda>r w1. P r w1 \<and> Q r w1) w \<longleftrightarrow> runs m P w \<and> runs m Q w"
  by (simp add: runs_def)

end
