(* ===== verification/Extension_Storage.thy ===== *)
theory Extension_Storage
  imports Fallible_State Rust_Text BTree_Map
begin

text \<open>
  The persistence of an extension (\<open>crates/extensions/src/storage.rs\<close>): three JSON objects per data
  directory, of which the credentials and the settings are encrypted with a key derived from the
  master key of the platform, with the migrations from the older files. Handles of the same directory
  share their cached snapshots through a registry of weak references, so the caches are addresses.

  The arguments gathered in \<open>store_env\<close> are the system and the crates: which system call fails, the
  time and inode that a written file gets, random bytes, canonical paths, AES-GCM, HMAC, SHA-256 and
  the JSON reader and writer. A file carries the number of the system call that put it in place, so its
  metadata is what \<open>store_env\<close> answers for its path and that number. The inode is part of a file's identity on
  Unix only (\<open>cfg(unix)\<close>); elsewhere \<open>en_inode\<close> is constant. The temporary file of an atomic write is private
  to the write and is not part of the state. \<open>OnceLock\<close> remembers a value that depends on nothing mutable,
  so the model computes it anew.
\<close>

section \<open>The world\<close>

datatype store_error =
  StorageClosed | InvalidKey | MissingKey | InvalidExtensionId | InvalidPath | ShortCiphertext
  | Authentication | RandomFailed string | IoFailed string | JsonFailed string | InvalidObject

datatype store_kind = Storage | Credentials | Settings

datatype 'v json_text = JsonObject "(string, 'v) btmap" | JsonNull | JsonOther

datatype fs_node = Regular "u8 list" nat | Special

record file_stat =
  fi_length :: nat
  fi_modified :: "nat option"
  fi_inode :: nat

record 'v file_cache =
  fc_snapshot :: "(string, 'v) btmap option"
  fc_identity :: "file_stat option"
  fc_key_tag :: "u8 list option"

record 'v storage_world =
  sw_disk :: "string \<Rightarrow> fs_node option"
  sw_files :: "(string \<times> nat) list"
  sw_caches :: "'v file_cache list"
  sw_strong :: "nat list"
  sw_calls :: nat

record 'v store_env =
  en_fault :: "nat \<Rightarrow> string option"
  en_modified :: "string \<Rightarrow> nat \<Rightarrow> nat option"
  en_inode :: "string \<Rightarrow> nat \<Rightarrow> nat"
  en_random :: "nat \<Rightarrow> nat \<Rightarrow> u8"
  en_canonical :: "string \<Rightarrow> string"
  en_base64 :: "string \<Rightarrow> u8 list option"
  en_hmac :: "u8 list \<Rightarrow> u8 list \<Rightarrow> u8 list"
  en_sha256 :: "u8 list \<Rightarrow> u8 list"
  en_seal :: "u8 list \<Rightarrow> u8 list \<Rightarrow> u8 list \<Rightarrow> u8 list option"
  en_unseal :: "u8 list \<Rightarrow> u8 list \<Rightarrow> u8 list \<Rightarrow> u8 list option"
  en_parse :: "u8 list \<Rightarrow> (string, 'v json_text) result"
  en_print :: "(string, 'v) btmap \<Rightarrow> (string, u8 list) result"

type_synonym ('v, 'a) storage_op = "('v storage_world, store_error, 'a) fallible"

definition sys_call :: "'v store_env \<Rightarrow> (string \<Rightarrow> store_error) \<Rightarrow> ('v, unit) storage_op" where
  "sys_call env err w =
     ((case en_fault env (sw_calls w) of None \<Rightarrow> Inr () | Some e \<Rightarrow> Inl (err e)),
      w\<lparr>sw_calls := Suc (sw_calls w)\<rparr>)"

section \<open>Keys and ciphertexts\<close>

definition master_key_from_base64 :: "'v store_env \<Rightarrow> string \<Rightarrow> (store_error, u8 list) result" where
  "master_key_from_base64 env encoded =
     (case en_base64 env (filter (\<lambda>c. c \<noteq> CHR 0x0D \<and> c \<noteq> CHR 0x0A) encoded) of
        None \<Rightarrow> Inl InvalidKey
      | Some key \<Rightarrow> if length key = 32 then Inr key else Inl InvalidKey)"

definition derive :: "'v store_env \<Rightarrow> u8 list \<Rightarrow> string \<Rightarrow> string \<Rightarrow> u8 list" where
  "derive env key extension_id purpose =
     en_hmac env key (as_bytes ''SpotiFLAC Mobile extension storage v2'' @ [0] @ as_bytes purpose @ [0] @
                      as_bytes extension_id)"

definition encrypt :: "'v store_env \<Rightarrow> u8 list \<Rightarrow> u8 list \<Rightarrow> ('v, u8 list) storage_op" where
  "encrypt env plaintext key w =
     sbind (sys_call env RandomFailed) (\<lambda>_.
       let nonce = map (en_random env (sw_calls w)) [0..<12] in
       case en_seal env key nonce plaintext of
         None \<Rightarrow> sfail Authentication
       | Some ciphertext \<Rightarrow> sret (nonce @ ciphertext)) w"

definition decrypt :: "'v store_env \<Rightarrow> u8 list \<Rightarrow> u8 list \<Rightarrow> (store_error, u8 list) result" where
  "decrypt env ciphertext key =
     (if length ciphertext < 12 then Inl ShortCiphertext
      else case en_unseal env key (take 12 ciphertext) (drop 12 ciphertext) of
             None \<Rightarrow> Inl Authentication
           | Some plaintext \<Rightarrow> Inr plaintext)"

section \<open>Files\<close>

definition kind_filename :: "store_kind \<Rightarrow> string" where
  "kind_filename kind =
     (case kind of Storage \<Rightarrow> ''storage.json'' | Credentials \<Rightarrow> ''.credentials.enc'' | Settings \<Rightarrow> ''settings.enc'')"

definition kind_purpose :: "store_kind \<Rightarrow> string" where
  "kind_purpose kind =
     (case kind of Storage \<Rightarrow> '''' | Credentials \<Rightarrow> ''credentials'' | Settings \<Rightarrow> ''settings'')"

definition path_join :: "string \<Rightarrow> string \<Rightarrow> string" where
  "path_join directory name = directory @ ''/'' @ name"

definition identity_of :: "'v store_env \<Rightarrow> string \<Rightarrow> u8 list \<Rightarrow> nat \<Rightarrow> file_stat" where
  "identity_of env path data stamp =
     \<lparr>fi_length = length data, fi_modified = en_modified env path stamp, fi_inode = en_inode env path stamp\<rparr>"

definition file_identity :: "'v store_env \<Rightarrow> string \<Rightarrow> ('v, file_stat option) storage_op" where
  "file_identity env path =
     sbind (sys_call env IoFailed) (\<lambda>_ w.
       case sw_disk w path of
         None \<Rightarrow> (Inr None, w)
       | Some Special \<Rightarrow> (Inl InvalidPath, w)
       | Some (Regular data stamp) \<Rightarrow> (Inr (Some (identity_of env path data stamp)), w))"

definition read_optional :: "'v store_env \<Rightarrow> string \<Rightarrow> ('v, u8 list option) storage_op" where
  "read_optional env path =
     sbind (file_identity env path) (\<lambda>identity.
       if identity = None then sret None
       else sbind (sys_call env IoFailed) (\<lambda>_ w.
              case sw_disk w path of
                Some (Regular data _) \<Rightarrow> (Inr (Some data), w)
              | _ \<Rightarrow> (Inl (IoFailed ''not a regular file''), w)))"

definition parse_object :: "'v store_env \<Rightarrow> u8 list \<Rightarrow> (store_error, (string, 'v) btmap) result" where
  "parse_object env data =
     (case en_parse env data of
        Inl e \<Rightarrow> Inl (JsonFailed e)
      | Inr (JsonObject m) \<Rightarrow> Inr m
      | Inr JsonNull \<Rightarrow> Inr []
      | Inr JsonOther \<Rightarrow> Inl InvalidObject)"

text \<open>
  \<open>core/src/fs.rs write_atomic\<close>: create, write and sync a temporary file, then rename it over the path.
  The best-effort sync of the directory has no effect on what the code can observe.
\<close>

definition write_atomic :: "'v store_env \<Rightarrow> string \<Rightarrow> u8 list \<Rightarrow> ('v, unit) storage_op" where
  "write_atomic env path data =
     sbind (sys_call env IoFailed) (\<lambda>_.
     sbind (sys_call env IoFailed) (\<lambda>_.
     sbind (sys_call env IoFailed) (\<lambda>_ w.
     sbind (sys_call env IoFailed) (\<lambda>_ w1.
       (Inr (), w1\<lparr>sw_disk := (sw_disk w1)(path \<mapsto> Regular data (sw_calls w))\<rparr>)) w)))"

definition atomic_write :: "'v store_env \<Rightarrow> string \<Rightarrow> u8 list \<Rightarrow> ('v, unit) storage_op" where
  "atomic_write env path data = sbind (file_identity env path) (\<lambda>_. write_atomic env path data)"

definition remove_file :: "'v store_env \<Rightarrow> string \<Rightarrow> ('v, unit) storage_op" where
  "remove_file env path =
     sbind (sys_call env IoFailed) (\<lambda>_ w. (Inr (), w\<lparr>sw_disk := (sw_disk w)(path := None)\<rparr>))"

section \<open>The registry of shared files\<close>

definition empty_cache :: "'v file_cache" where
  "empty_cache = \<lparr>fc_snapshot = None, fc_identity = None, fc_key_tag = None\<rparr>"

definition shared_file :: "string \<Rightarrow> 'v storage_world \<Rightarrow> nat \<times> 'v storage_world" where
  "shared_file path w =
     (let fresh =
        (length (sw_caches w),
         w\<lparr>sw_files := (path, length (sw_caches w)) #
             filter (\<lambda>(p, a). sw_strong w ! a > 0 \<and> p \<noteq> path) (sw_files w),
           sw_caches := sw_caches w @ [empty_cache],
           sw_strong := sw_strong w @ [1]\<rparr>)
      in case map_of (sw_files w) path of
           None \<Rightarrow> fresh
         | Some a \<Rightarrow>
             if sw_strong w ! a > 0
             then (a, w\<lparr>sw_strong := (sw_strong w)[a := Suc (sw_strong w ! a)]\<rparr>)
             else fresh)"

definition release_file :: "nat \<Rightarrow> 'v storage_world \<Rightarrow> 'v storage_world" where
  "release_file a w = w\<lparr>sw_strong := (sw_strong w)[a := sw_strong w ! a - 1]\<rparr>"

section \<open>The store\<close>

record extension_store =
  es_directory :: string
  es_extension_id :: string
  es_master_key :: "u8 list option"
  es_storage :: nat
  es_credentials :: nat
  es_settings :: nat
  es_salt :: nat
  es_closed :: bool

definition valid_extension_id :: "string \<Rightarrow> bool" where
  "valid_extension_id i \<longleftrightarrow>
     1 \<le> length i \<and> length i \<le> 128 \<and>
     (is_ascii_lowercase (hd i) \<or> is_ascii_digit (hd i)) \<and>
     list_all (\<lambda>c. is_ascii_lowercase c \<or> is_ascii_digit c \<or> c \<in> set ''._-'') i"

definition new_store ::
  "string \<Rightarrow> string \<Rightarrow> u8 list option \<Rightarrow> 'v storage_world \<Rightarrow> extension_store \<times> 'v storage_world" where
  "new_store d extension_id master_key w =
     (let (a1, w1) = shared_file (path_join d (kind_filename Storage)) w;
          (a2, w2) = shared_file (path_join d (kind_filename Credentials)) w1;
          (a3, w3) = shared_file (path_join d (kind_filename Settings)) w2;
          (a4, w4) = shared_file (path_join d ''.cred_salt'') w3
      in (\<lparr>es_directory = d, es_extension_id = extension_id, es_master_key = master_key,
           es_storage = a1, es_credentials = a2, es_settings = a3, es_salt = a4, es_closed = False\<rparr>, w4))"

definition ext_open ::
  "'v store_env \<Rightarrow> string \<Rightarrow> string \<Rightarrow> u8 list option \<Rightarrow> ('v, extension_store) storage_op" where
  "ext_open env directory extension_id master_key =
     (if \<not> valid_extension_id extension_id then sfail InvalidExtensionId
      else
        sbind (sys_call env IoFailed) (\<lambda>_.
        sbind (sys_call env IoFailed) (\<lambda>_ w.
          let (s, w1) = new_store (en_canonical env directory) extension_id master_key w in (Inr s, w1))))"

definition ext_drop :: "extension_store \<Rightarrow> 'v storage_world \<Rightarrow> 'v storage_world" where
  "ext_drop s w =
     release_file (es_salt s) (release_file (es_settings s)
       (release_file (es_credentials s) (release_file (es_storage s) w)))"

definition store_file :: "extension_store \<Rightarrow> store_kind \<Rightarrow> nat" where
  "store_file s kind =
     (case kind of Storage \<Rightarrow> es_storage s | Credentials \<Rightarrow> es_credentials s | Settings \<Rightarrow> es_settings s)"

definition store_path :: "extension_store \<Rightarrow> store_kind \<Rightarrow> string" where
  "store_path s kind = path_join (es_directory s) (kind_filename kind)"

definition store_key :: "'v store_env \<Rightarrow> extension_store \<Rightarrow> store_kind \<Rightarrow> (store_error, u8 list) result" where
  "store_key env s kind =
     try_bind (ok_or MissingKey (es_master_key s)) (\<lambda>key.
       Inr (derive env key (es_extension_id s) (kind_purpose kind)))"

definition cache_tag :: "'v store_env \<Rightarrow> extension_store \<Rightarrow> store_kind \<Rightarrow> u8 list option" where
  "cache_tag env s kind =
     (if kind = Storage then None
      else map_option (\<lambda>key. en_sha256 env (derive env key (es_extension_id s) (kind_purpose kind)))
             (es_master_key s))"

definition legacy_credentials_key :: "'v store_env \<Rightarrow> extension_store \<Rightarrow> ('v, u8 list) storage_op" where
  "legacy_credentials_key env s =
     (let path = path_join (es_directory s) ''.cred_salt'';
          digest = (\<lambda>salt. en_sha256 env (as_bytes (es_extension_id s) @ salt));
          fresh = (\<lambda>w. sbind (sys_call env RandomFailed) (\<lambda>_.
             let salt = map (en_random env (sw_calls w)) [0..<32] in
             sbind (atomic_write env path salt) (\<lambda>_. sret (digest salt))) w)
      in sbind (read_optional env path) (\<lambda>salt.
           case salt of
             Some salt \<Rightarrow> if length salt = 32 then sret (digest salt) else fresh
           | None \<Rightarrow> fresh))"

definition migrate_settings ::
  "'v store_env \<Rightarrow> extension_store \<Rightarrow> string \<Rightarrow> ('v, (string, 'v) btmap) storage_op" where
  "migrate_settings env s path =
     (let legacy = path_join (es_directory s) ''settings.json'' in
      sbind (read_optional env legacy) (\<lambda>data.
        case data of
          None \<Rightarrow> sret []
        | Some data \<Rightarrow>
            sbind (slift (parse_object env data)) (\<lambda>snapshot.
            sbind (slift (store_key env s Settings)) (\<lambda>key.
            sbind (encrypt env data key) (\<lambda>ciphertext.
            sbind (atomic_write env path ciphertext) (\<lambda>_.
            sbind (remove_file env legacy) (\<lambda>_. sret snapshot)))))))"

text \<open>The arm of \<open>refresh\<close> for credentials that the derived key does not open.\<close>

definition migrate_credentials ::
  "'v store_env \<Rightarrow> extension_store \<Rightarrow> string \<Rightarrow> u8 list \<Rightarrow> u8 list \<Rightarrow> store_error \<Rightarrow> ('v, u8 list) storage_op" where
  "migrate_credentials env s path data key e =
     sbind (legacy_credentials_key env s) (\<lambda>legacy.
     sbind (slift (case decrypt env data legacy of Inl _ \<Rightarrow> Inl e | Inr plaintext \<Rightarrow> Inr plaintext)) (\<lambda>plaintext.
     sbind (slift (parse_object env plaintext)) (\<lambda>_.
     sbind (encrypt env plaintext key) (\<lambda>ciphertext.
     sbind (atomic_write env path ciphertext) (\<lambda>_. sret plaintext)))))"

definition load_encrypted ::
  "'v store_env \<Rightarrow> extension_store \<Rightarrow> store_kind \<Rightarrow> string \<Rightarrow> u8 list \<Rightarrow> ('v, (string, 'v) btmap) storage_op" where
  "load_encrypted env s kind path data =
     sbind (slift (store_key env s kind)) (\<lambda>key.
     sbind
       (case decrypt env data key of
          Inr plaintext \<Rightarrow> sret plaintext
        | Inl e \<Rightarrow> if kind = Credentials then migrate_credentials env s path data key e else sfail e)
       (\<lambda>plaintext. slift (parse_object env plaintext)))"

definition load_snapshot ::
  "'v store_env \<Rightarrow> extension_store \<Rightarrow> store_kind \<Rightarrow> string \<Rightarrow> ('v, (string, 'v) btmap) storage_op" where
  "load_snapshot env s kind path =
     sbind (read_optional env path) (\<lambda>data.
       case data of
         Some data \<Rightarrow>
           if kind = Storage then slift (parse_object env data) else load_encrypted env s kind path data
       | None \<Rightarrow> if kind = Settings then migrate_settings env s path else sret [])"

definition adopt ::
  "nat \<Rightarrow> (string, 'v) btmap \<Rightarrow> file_stat option \<Rightarrow> u8 list option \<Rightarrow> 'v storage_world \<Rightarrow> 'v storage_world" where
  "adopt a snapshot identity key_tag w =
     w\<lparr>sw_caches := (sw_caches w)
       [a := \<lparr>fc_snapshot = Some snapshot, fc_identity = identity, fc_key_tag = key_tag\<rparr>]\<rparr>"

definition cache_stale ::
  "store_kind \<Rightarrow> file_stat option \<Rightarrow> u8 list option \<Rightarrow> 'v file_cache \<Rightarrow> bool" where
  "cache_stale kind identity key_tag c \<longleftrightarrow>
     fc_snapshot c = None \<or> fc_identity c \<noteq> identity \<or> fc_key_tag c \<noteq> key_tag \<or>
     kind = Settings \<and> identity = None"

definition refresh :: "'v store_env \<Rightarrow> extension_store \<Rightarrow> store_kind \<Rightarrow> ('v, (string, 'v) btmap) storage_op" where
  "refresh env s kind =
     (let path = store_path s kind; a = store_file s kind; key_tag = cache_tag env s kind in
      sbind (file_identity env path) (\<lambda>identity w.
        if cache_stale kind identity key_tag (sw_caches w ! a)
        then sbind (load_snapshot env s kind path) (\<lambda>snapshot.
             sbind (file_identity env path) (\<lambda>identity w.
               (Inr snapshot, adopt a snapshot identity key_tag w))) w
        else (Inr (the (fc_snapshot (sw_caches w ! a))), w)))"

definition access :: "extension_store \<Rightarrow> ('v, unit) storage_op" where
  "access s = (if es_closed s then sfail StorageClosed else sret ())"

definition ext_get :: "'v store_env \<Rightarrow> extension_store \<Rightarrow> store_kind \<Rightarrow> string \<Rightarrow> ('v, 'v option) storage_op" where
  "ext_get env s kind key =
     sbind (access s) (\<lambda>_. sbind (refresh env s kind) (\<lambda>m. sret (bt_get m key)))"

definition ext_all :: "'v store_env \<Rightarrow> extension_store \<Rightarrow> store_kind \<Rightarrow> ('v, (string, 'v) btmap) storage_op" where
  "ext_all env s kind = sbind (access s) (\<lambda>_. refresh env s kind)"

definition write_snapshot ::
  "'v store_env \<Rightarrow> extension_store \<Rightarrow> store_kind \<Rightarrow> u8 list \<Rightarrow> ('v, unit) storage_op" where
  "write_snapshot env s kind data =
     (if kind = Storage then atomic_write env (store_path s kind) data
      else sbind (slift (store_key env s kind)) (\<lambda>key.
           sbind (encrypt env data key) (\<lambda>ciphertext. atomic_write env (store_path s kind) ciphertext)))"

definition persist_snapshot ::
  "'v store_env \<Rightarrow> extension_store \<Rightarrow> store_kind \<Rightarrow> (string, 'v) btmap \<Rightarrow> ('v, unit) storage_op" where
  "persist_snapshot env s kind snapshot =
     sbind (slift (case en_print env snapshot of Inl e \<Rightarrow> Inl (JsonFailed e) | Inr data \<Rightarrow> Inr data)) (\<lambda>data.
     sbind (write_snapshot env s kind data) (\<lambda>_.
     sbind (file_identity env (store_path s kind)) (\<lambda>identity w.
       (Inr (), adopt (store_file s kind) snapshot identity (cache_tag env s kind) w))))"

text \<open>The closure tells whether to persist, and leaves the map.\<close>

definition mutate ::
  "'v store_env \<Rightarrow> extension_store \<Rightarrow> store_kind \<Rightarrow>
   ((string, 'v) btmap \<Rightarrow> bool \<times> (string, 'v) btmap) \<Rightarrow> ('v, unit) storage_op" where
  "mutate env s kind change =
     sbind (access s) (\<lambda>_.
     sbind (refresh env s kind) (\<lambda>m.
       if \<not> fst (change m) then sret () else persist_snapshot env s kind (snd (change m))))"

definition ext_set ::
  "'v store_env \<Rightarrow> extension_store \<Rightarrow> store_kind \<Rightarrow> string \<Rightarrow> 'v \<Rightarrow> ('v, unit) storage_op" where
  "ext_set env s kind key v = mutate env s kind (\<lambda>m. (True, bt_insert key v m))"

definition ext_remove :: "'v store_env \<Rightarrow> extension_store \<Rightarrow> store_kind \<Rightarrow> string \<Rightarrow> ('v, unit) storage_op" where
  "ext_remove env s kind key =
     mutate env s kind (\<lambda>m. (bt_get m key \<noteq> None \<or> kind \<noteq> Storage, bt_remove key m))"

definition ext_replace ::
  "'v store_env \<Rightarrow> extension_store \<Rightarrow> store_kind \<Rightarrow> (string, 'v) btmap \<Rightarrow> ('v, unit) storage_op" where
  "ext_replace env s kind m' = mutate env s kind (\<lambda>_. (True, m'))"

definition ext_close :: "extension_store \<Rightarrow> extension_store" where
  "ext_close s = s\<lparr>es_closed := True\<rparr>"

end
