(* ===== verification/Storage_Coherence.thy ===== *)
theory Storage_Coherence
  imports Extension_Storage
begin

text \<open>
  What the extension storage guarantees over every run of its handles. \<open>stored\<close> reads the object that
  a file holds straight from the disk, through the older formats too; the invariant says that a cached
  snapshot whose identity and key tag are current is that object. So reads answer from the disk, a write
  replaces the object by the changed one or leaves it, and an operation touches its own files only.
\<close>

section \<open>What the storage relies on\<close>

text \<open>
  AES-GCM opens what it sealed; the JSON reader inverts the writer and yields sorted objects. Two more are what
  the caching scheme itself stakes on, and not promises of the system: two versions that are put in place as
  the same file differ in modification time or inode (with coarse clocks and reused inodes they may not), and
  SHA-256 tells the keys that are derived from master keys apart.
\<close>

definition derived_key :: "'v store_env \<Rightarrow> u8 list \<Rightarrow> bool" where
  "derived_key env k \<longleftrightarrow> (\<exists>master i purpose. k = derive env master i purpose)"

definition store_laws :: "'v store_env \<Rightarrow> bool" where
  "store_laws env \<longleftrightarrow>
     (\<forall>path. inj (\<lambda>n. (en_modified env path n, en_inode env path n))) \<and>
     (\<forall>k k'. derived_key env k \<longrightarrow> derived_key env k' \<longrightarrow> en_sha256 env k = en_sha256 env k' \<longrightarrow> k = k') \<and>
     (\<forall>k n p c. en_seal env k n p = Some c \<longrightarrow> en_unseal env k n c = Some p) \<and>
     (\<forall>m data. bt_wf m \<longrightarrow> en_print env m = Inr data \<longrightarrow> en_parse env data = Inr (JsonObject m)) \<and>
     (\<forall>data m. en_parse env data = Inr (JsonObject m) \<longrightarrow> bt_wf m)"

lemma store_lawsD:
  assumes "store_laws env"
  shows "(en_modified env path n, en_inode env path n) = (en_modified env path n', en_inode env path n') \<Longrightarrow> n = n'"
    and "derived_key env k \<Longrightarrow> derived_key env k' \<Longrightarrow> en_sha256 env k = en_sha256 env k' \<Longrightarrow> k = k'"
    and "en_seal env k x p = Some c \<Longrightarrow> en_unseal env k x c = Some p"
    and "bt_wf m \<Longrightarrow> en_print env m = Inr data \<Longrightarrow> parse_object env data = Inr m"
    and "parse_object env data = Inr m \<Longrightarrow> bt_wf m"
proof -
  show "(en_modified env path n, en_inode env path n) = (en_modified env path n', en_inode env path n') \<Longrightarrow> n = n'"
    using assms unfolding store_laws_def inj_def by (elim conjE) blast
  have "\<forall>k k'. derived_key env k \<longrightarrow> derived_key env k' \<longrightarrow> en_sha256 env k = en_sha256 env k' \<longrightarrow> k = k'"
    using assms unfolding store_laws_def by (elim conjE)
  then show "derived_key env k \<Longrightarrow> derived_key env k' \<Longrightarrow> en_sha256 env k = en_sha256 env k' \<Longrightarrow> k = k'"
    by simp
  show "en_seal env k x p = Some c \<Longrightarrow> en_unseal env k x c = Some p"
    using assms unfolding store_laws_def by (elim conjE) blast
  have json: "\<forall>m data. bt_wf m \<longrightarrow> en_print env m = Inr data \<longrightarrow> en_parse env data = Inr (JsonObject m)"
    using assms unfolding store_laws_def by (elim conjE)
  have wf: "\<forall>data m. en_parse env data = Inr (JsonObject m) \<longrightarrow> bt_wf m"
    using assms unfolding store_laws_def by (elim conjE)
  show "parse_object env data = Inr m" if "bt_wf m" "en_print env m = Inr data"
    using json [rule_format, OF that] by (simp add: parse_object_def)
  show "bt_wf m" if "parse_object env data = Inr m"
    using that wf [rule_format, of data m]
    by (simp add: parse_object_def split: sum.splits json_text.splits)
qed

lemma identity_of_eq:
  assumes "store_laws env" "identity_of env path d n = identity_of env path d' n'"
  shows "n = n'"
  using assms(2) by (intro store_lawsD(1) [OF assms(1), of path]) (simp add: identity_of_def)

section \<open>Steps of the system calls\<close>

text \<open>Only the counter of system calls moved, or one file was put in place as well.\<close>

definition same_memory :: "'v storage_world \<Rightarrow> 'v storage_world \<Rightarrow> bool" where
  "same_memory w w1 \<longleftrightarrow>
     sw_files w1 = sw_files w \<and> sw_caches w1 = sw_caches w \<and> sw_strong w1 = sw_strong w"

definition advance :: "'v storage_world \<Rightarrow> 'v storage_world \<Rightarrow> bool" where
  "advance w w1 \<longleftrightarrow> sw_calls w \<le> sw_calls w1 \<and> sw_disk w1 = sw_disk w \<and> same_memory w w1"

definition wrote :: "string \<Rightarrow> u8 list \<Rightarrow> 'v storage_world \<Rightarrow> 'v storage_world \<Rightarrow> bool" where
  "wrote path data w w1 \<longleftrightarrow>
     (\<exists>stamp. sw_calls w \<le> stamp \<and> stamp < sw_calls w1 \<and>
        sw_disk w1 = (sw_disk w)(path \<mapsto> Regular data stamp) \<and> same_memory w w1)"

lemma advance_refl [simp]: "advance w w"
  by (simp add: advance_def same_memory_def)

lemma advance_trans: "advance w w1 \<Longrightarrow> advance w1 w2 \<Longrightarrow> advance w w2"
  by (simp add: advance_def same_memory_def)

lemma advance_disk: "advance w w1 \<Longrightarrow> sw_disk w1 = sw_disk w"
  by (simp add: advance_def)

lemma runs_sys_call:
  "runs (sys_call env err) (\<lambda>r w1. advance w w1 \<and> sw_calls w1 = Suc (sw_calls w) \<and>
     (r = Inr () \<longleftrightarrow> en_fault env (sw_calls w) = None)) w"
  by (simp add: runs_def sys_call_def advance_def same_memory_def split: option.splits)

definition ident :: "'v store_env \<Rightarrow> string \<Rightarrow> fs_node option \<Rightarrow> file_stat option" where
  "ident env path node = (case node of Some (Regular data stamp) \<Rightarrow> Some (identity_of env path data stamp) | _ \<Rightarrow> None)"

lemma runs_file_identity:
  "runs (file_identity env path) (\<lambda>r w1. advance w w1 \<and>
     (\<forall>i. r = Inr i \<longrightarrow> i = ident env path (sw_disk w path) \<and> sw_disk w path \<noteq> Some Special)) w"
  unfolding file_identity_def
  by (rule runs_bindI [OF runs_sys_call])
    (auto simp: runs_def advance_disk ident_def split: option.splits fs_node.splits)

lemma runs_read_optional:
  "runs (read_optional env path) (\<lambda>r w1. advance w w1 \<and>
     (\<forall>d. r = Inr d \<longrightarrow> (case sw_disk w path of
        None \<Rightarrow> d = None | Some Special \<Rightarrow> False | Some (Regular data _) \<Rightarrow> d = Some data))) w"
  unfolding read_optional_def
proof (rule runs_bindI [OF runs_file_identity], simp, goal_cases)
  case (1 i w1)
  then show ?case
  proof (cases "i = None")
    case True
    with 1 show ?thesis by (auto simp: ident_def split: option.splits fs_node.splits)
  next
    case False
    with 1 obtain data stamp where d: "sw_disk w path = Some (Regular data stamp)"
      by (auto simp: ident_def split: option.splits fs_node.splits)
    have "advance w w1" using 1 by simp
    show ?thesis
      unfolding if_not_P [OF False]
      by (rule runs_bindI [OF runs_sys_call])
        (use \<open>advance w w1\<close> d in \<open>auto simp: runs_def advance_disk intro: advance_trans\<close>)
  qed
qed

lemma decrypt_sealed:
  assumes "store_laws env" "length nonce = 12" "en_seal env key nonce plaintext = Some c"
  shows "decrypt env (nonce @ c) key = Inr plaintext"
  using store_lawsD(3) [OF assms(1,3)] assms(2) by (simp add: decrypt_def)

lemma runs_encrypt:
  assumes "store_laws env"
  shows "runs (encrypt env plaintext key) (\<lambda>r w1. advance w w1 \<and>
     (\<forall>c. r = Inr c \<longrightarrow> decrypt env c key = Inr plaintext)) w"
  unfolding runs_def encrypt_def
  by (auto simp: sbind_def sys_call_def advance_def same_memory_def sfail_def sret_def Let_def
      intro!: decrypt_sealed [OF assms] split: option.splits)

lemma runs_write_atomic:
  "runs (write_atomic env path data)
     (\<lambda>r w1. case r of Inl _ \<Rightarrow> advance w w1 | Inr _ \<Rightarrow> wrote path data w w1) w"
  by (auto simp: runs_def write_atomic_def sbind_def sys_call_def advance_def wrote_def same_memory_def
      intro!: exI [of _ "Suc (Suc (Suc (sw_calls w)))"] split: option.splits sum.splits prod.splits)

lemma advance_wrote: "advance w w1 \<Longrightarrow> wrote path data w1 w2 \<Longrightarrow> wrote path data w w2"
proof -
  assume a: "advance w w1" and "wrote path data w1 w2"
  then obtain stamp where "sw_calls w1 \<le> stamp" "stamp < sw_calls w2"
    "sw_disk w2 = (sw_disk w1)(path \<mapsto> Regular data stamp)" "same_memory w1 w2"
    unfolding wrote_def by blast
  with a show "wrote path data w w2"
    unfolding wrote_def by (intro exI [of _ stamp]) (simp add: advance_def same_memory_def)
qed

lemma runs_atomic_write:
  "runs (atomic_write env path data)
     (\<lambda>r w1. case r of Inl _ \<Rightarrow> advance w w1 | Inr _ \<Rightarrow> wrote path data w w1) w"
  unfolding atomic_write_def
  by (rule runs_bindI [OF runs_file_identity], simp)
    (rule runs_mono [OF runs_write_atomic], auto intro: advance_trans advance_wrote split: sum.splits)


section \<open>The files of a kind\<close>

definition salt_path :: "extension_store \<Rightarrow> string" where
  "salt_path s = path_join (es_directory s) ''.cred_salt''"

definition legacy_path :: "extension_store \<Rightarrow> string" where
  "legacy_path s = path_join (es_directory s) ''settings.json''"

definition kind_names :: "store_kind \<Rightarrow> string set" where
  "kind_names kind =
     (case kind of
        Storage \<Rightarrow> {''storage.json''}
      | Credentials \<Rightarrow> {''.credentials.enc'', ''.cred_salt''}
      | Settings \<Rightarrow> {''settings.enc'', ''settings.json''})"

definition owned :: "extension_store \<Rightarrow> store_kind \<Rightarrow> string set" where
  "owned s kind = path_join (es_directory s) ` kind_names kind"

lemma path_join_eq:
  assumes "path_join d n = path_join d' n'" "CHR ''/'' \<notin> set n" "CHR ''/'' \<notin> set n'"
  shows "d = d' \<and> n = n'"
proof -
  have tail: "takeWhile (\<lambda>c. c \<noteq> CHR ''/'') (rev (path_join x y)) = rev y" if "CHR ''/'' \<notin> set y" for x y
  proof -
    have "rev (path_join x y) = rev y @ CHR ''/'' # rev x" by (simp add: path_join_def)
    moreover have "\<forall>c \<in> set (rev y). c \<noteq> CHR ''/''" using that by auto
    ultimately show ?thesis by (simp add: takeWhile_append)
  qed
  have "n = n'"
    using tail [OF assms(2), of d] tail [OF assms(3), of d'] assms(1) by simp
  with assms(1) show ?thesis by (simp add: path_join_def)
qed

lemma plain_names: "n \<in> kind_names kind \<Longrightarrow> CHR ''/'' \<notin> set n"
  by (cases kind) (auto simp: kind_names_def)

lemma kind_names_disjoint: "n \<in> kind_names kind \<Longrightarrow> n \<in> kind_names kind' \<Longrightarrow> kind = kind'"
  by (cases kind; cases kind') (auto simp: kind_names_def)

lemma paths_differ [simp]:
  "store_path s Credentials \<noteq> salt_path s" "salt_path s \<noteq> store_path s Credentials"
  "store_path s Settings \<noteq> legacy_path s" "legacy_path s \<noteq> store_path s Settings"
  by (auto simp: store_path_def salt_path_def legacy_path_def path_join_def kind_filename_def)

lemma owned_self [simp, intro]: "store_path s kind \<in> owned s kind"
  by (cases kind) (simp_all add: owned_def store_path_def kind_filename_def kind_names_def)

lemma owned_other [simp, intro]: "salt_path s \<in> owned s Credentials" "legacy_path s \<in> owned s Settings"
  by (simp_all add: owned_def salt_path_def legacy_path_def kind_names_def)

lemma owned_disjoint:
  assumes "(es_directory s, kind) \<noteq> (es_directory s', kind')" "p \<in> owned s kind" "p \<in> owned s' kind'"
  shows False
proof -
  obtain n n' where n: "n \<in> kind_names kind" "n' \<in> kind_names kind'"
    and p: "path_join (es_directory s) n = path_join (es_directory s') n'"
    using assms(2,3) unfolding owned_def by auto
  have "es_directory s = es_directory s' \<and> n = n'"
    using path_join_eq [OF p] plain_names n by blast
  with n kind_names_disjoint assms(1) show False by blast
qed

section \<open>The object that a file holds\<close>

definition stored ::
  "'v store_env \<Rightarrow> extension_store \<Rightarrow> store_kind \<Rightarrow> (string \<Rightarrow> fs_node option) \<Rightarrow> (string, 'v) btmap option" where
  "stored env s kind disk =
     (case disk (store_path s kind) of
        Some Special \<Rightarrow> None
      | Some (Regular data _) \<Rightarrow>
          if kind = Storage then ok (parse_object env data)
          else (case store_key env s kind of
                  Inl _ \<Rightarrow> None
                | Inr key \<Rightarrow>
                    (case decrypt env data key of
                       Inr p \<Rightarrow> ok (parse_object env p)
                     | Inl _ \<Rightarrow>
                         (case disk (salt_path s) of
                            Some (Regular salt _) \<Rightarrow>
                              if kind = Credentials \<and> length salt = 32
                              then ok (try_bind (decrypt env data
                                     (en_sha256 env (as_bytes (es_extension_id s) @ salt))) (parse_object env))
                              else None
                          | _ \<Rightarrow> None)))
      | None \<Rightarrow>
          if kind = Settings
          then (case disk (legacy_path s) of
                  None \<Rightarrow> Some []
                | Some (Regular data _) \<Rightarrow> ok (parse_object env data)
                | Some Special \<Rightarrow> None)
          else Some [])"

definition holds ::
  "'v store_env \<Rightarrow> extension_store \<Rightarrow> store_kind \<Rightarrow> u8 list \<Rightarrow> (string, 'v) btmap \<Rightarrow> bool" where
  "holds env s kind data m \<longleftrightarrow>
     (if kind = Storage then parse_object env data = Inr m
      else \<exists>key p. store_key env s kind = Inr key \<and> decrypt env data key = Inr p \<and> parse_object env p = Inr m)"

definition direct ::
  "'v store_env \<Rightarrow> extension_store \<Rightarrow> store_kind \<Rightarrow> (string \<Rightarrow> fs_node option) \<Rightarrow> (string, 'v) btmap \<Rightarrow> bool" where
  "direct env s kind disk m \<longleftrightarrow>
     (case disk (store_path s kind) of
        None \<Rightarrow> m = [] \<and> (kind = Settings \<longrightarrow> disk (legacy_path s) = None)
      | Some Special \<Rightarrow> False
      | Some (Regular data _) \<Rightarrow> holds env s kind data m)"

lemma direct_stored: "direct env s kind disk m \<Longrightarrow> stored env s kind disk = Some m"
  by (auto simp: direct_def holds_def stored_def split: option.splits fs_node.splits if_splits)

lemma holds_wf: "store_laws env \<Longrightarrow> holds env s kind data m \<Longrightarrow> bt_wf m"
  by (auto simp: holds_def intro: store_lawsD(5) split: if_splits)

lemma direct_wf: "store_laws env \<Longrightarrow> direct env s kind disk m \<Longrightarrow> bt_wf m"
  by (auto simp: direct_def intro: holds_wf split: option.splits fs_node.splits)

lemma stored_wf:
  assumes "store_laws env" "stored env s kind disk = Some m"
  shows "bt_wf m"
proof -
  have parsed: "ok (parse_object env d) = Some m \<Longrightarrow> bt_wf m" for d
    using store_lawsD(5) [OF assms(1), of d m] by (cases "parse_object env d") auto
  have tried: "ok (try_bind r (parse_object env)) = Some m \<Longrightarrow> bt_wf m" for r
    using parsed by (cases r) auto
  show ?thesis
    using assms(2) parsed tried
    by (auto simp: stored_def split: option.splits fs_node.splits if_splits sum.splits)
qed

lemma stored_cong:
  assumes "\<And>p. p \<in> owned s kind \<Longrightarrow> disk' p = disk p"
  shows "stored env s kind disk' = stored env s kind disk"
  using assms [OF owned_self] assms [of "salt_path s"] assms [of "legacy_path s"]
  unfolding stored_def by (cases kind) (simp_all split: option.splits fs_node.splits)

section \<open>Loading\<close>

definition disk_step :: "string set \<Rightarrow> 'v storage_world \<Rightarrow> 'v storage_world \<Rightarrow> bool" where
  "disk_step area w w1 \<longleftrightarrow>
     sw_calls w \<le> sw_calls w1 \<and> same_memory w w1 \<and>
     (\<forall>p. sw_disk w1 p = sw_disk w p \<or>
        p \<in> area \<and>
        (case sw_disk w1 p of
           Some (Regular d stamp) \<Rightarrow> sw_calls w \<le> stamp \<and> stamp < sw_calls w1
         | _ \<Rightarrow> True))"

lemma advance_disk_step: "advance w w1 \<Longrightarrow> disk_step area w w1"
  by (simp add: advance_def disk_step_def)

lemma wrote_disk_step: "wrote path data w w1 \<Longrightarrow> path \<in> area \<Longrightarrow> disk_step area w w1"
  unfolding wrote_def disk_step_def by (elim exE conjE) simp

lemma wrote_disk: "wrote path data w w1 \<Longrightarrow> \<exists>stamp. sw_disk w1 = (sw_disk w)(path \<mapsto> Regular data stamp)"
  unfolding wrote_def by blast

lemma disk_step_trans:
  assumes "disk_step area w w1" "disk_step area w1 w2"
  shows "disk_step area w w2"
proof -
  have le: "sw_calls w \<le> sw_calls w1" "sw_calls w1 \<le> sw_calls w2"
    and one: "sw_disk w1 p = sw_disk w p \<or> p \<in> area \<and>
      (case sw_disk w1 p of Some (Regular d st) \<Rightarrow> sw_calls w \<le> st \<and> st < sw_calls w1 | _ \<Rightarrow> True)"
    and two: "sw_disk w2 p = sw_disk w1 p \<or> p \<in> area \<and>
      (case sw_disk w2 p of Some (Regular d st) \<Rightarrow> sw_calls w1 \<le> st \<and> st < sw_calls w2 | _ \<Rightarrow> True)" for p
    using assms unfolding disk_step_def by blast+
  have "sw_disk w2 p = sw_disk w p \<or> p \<in> area \<and>
      (case sw_disk w2 p of Some (Regular d st) \<Rightarrow> sw_calls w \<le> st \<and> st < sw_calls w2 | _ \<Rightarrow> True)" for p
    using le one [of p] two [of p] by (auto split: option.splits fs_node.splits)
  with le assms show ?thesis by (simp add: disk_step_def same_memory_def)
qed

text \<open>Between two worlds an operation touched its own files, and a readable object is still the same.\<close>

definition settles ::
  "'v store_env \<Rightarrow> extension_store \<Rightarrow> store_kind \<Rightarrow> 'v storage_world \<Rightarrow> 'v storage_world \<Rightarrow> bool" where
  "settles env s kind w w1 \<longleftrightarrow>
     disk_step (owned s kind) w w1 \<and>
     (\<forall>m. stored env s kind (sw_disk w) = Some m \<longrightarrow> stored env s kind (sw_disk w1) = Some m)"

lemma settles_trans [trans]: "settles env s kind w w1 \<Longrightarrow> settles env s kind w1 w2 \<Longrightarrow> settles env s kind w w2"
  unfolding settles_def by (blast intro: disk_step_trans)

lemma settles_advance: "advance w w1 \<Longrightarrow> settles env s kind w w1"
  by (simp add: settles_def advance_disk_step advance_disk)

lemma settles_then_advance: "settles env s kind w w1 \<Longrightarrow> advance w1 w2 \<Longrightarrow> settles env s kind w w2"
  by (rule settles_trans [OF _ settles_advance])

lemma wrote_direct:
  assumes "wrote (store_path s kind) data w w1" "holds env s kind data m"
  shows "direct env s kind (sw_disk w1) m"
  using wrote_disk [OF assms(1)] assms(2) by (auto simp: direct_def)

lemma wrote_settles:
  assumes "wrote (store_path s kind) data w w1" "holds env s kind data m"
    and "\<And>m'. stored env s kind (sw_disk w) = Some m' \<Longrightarrow> m' = m"
  shows "settles env s kind w w1"
  using wrote_disk_step [OF assms(1) owned_self] direct_stored [OF wrote_direct [OF assms(1,2)]] assms(3)
  by (auto simp: settles_def)

lemma runs_remove_legacy:
  assumes "direct env s Settings (sw_disk w) m" "sw_disk w (store_path s Settings) \<noteq> None"
  shows "runs (remove_file env (legacy_path s))
     (\<lambda>r w1. settles env s Settings w w1 \<and> direct env s Settings (sw_disk w1) m) w"
proof -
  define w1 where "w1 = w\<lparr>sw_calls := Suc (sw_calls w)\<rparr>"
  define w2 where "w2 = w1\<lparr>sw_disk := (sw_disk w1)(legacy_path s := None)\<rparr>"
  have a: "advance w w1" by (simp add: w1_def advance_def same_memory_def)
  have d: "direct env s Settings (sw_disk w2) m"
    using assms by (auto simp: w1_def w2_def direct_def split: option.splits)
  have "disk_step (owned s Settings) w w2"
    by (auto simp: w1_def w2_def disk_step_def same_memory_def)
  moreover have "stored env s Settings (sw_disk w) = Some m" by (rule direct_stored [OF assms(1)])
  ultimately have "settles env s Settings w w2"
    using direct_stored [OF d] by (simp add: settles_def)
  moreover have "settles env s Settings w w1 \<and> direct env s Settings (sw_disk w1) m"
    using assms(1) a by (simp add: settles_advance advance_disk)
  moreover have "remove_file env (legacy_path s) w =
      (case en_fault env (sw_calls w) of None \<Rightarrow> (Inr (), w2) | Some e \<Rightarrow> (Inl (IoFailed e), w1))"
    by (simp add: remove_file_def sbind_def sys_call_def w1_def w2_def split: option.splits)
  ultimately show ?thesis using d by (simp add: runs_def split: option.splits)
qed

definition load_post ::
  "'v store_env \<Rightarrow> extension_store \<Rightarrow> store_kind \<Rightarrow> 'v storage_world \<Rightarrow>
   (store_error, (string, 'v) btmap) result \<Rightarrow> 'v storage_world \<Rightarrow> bool" where
  "load_post env s kind w r w1 \<longleftrightarrow>
     settles env s kind w w1 \<and> (\<forall>m. r = Inr m \<longrightarrow> direct env s kind (sw_disk w1) m)"

lemma load_post_intros:
  "settles env s kind w w1 \<Longrightarrow> load_post env s kind w (Inl e) w1"
  "settles env s kind w w1 \<Longrightarrow> direct env s kind (sw_disk w1) m \<Longrightarrow> load_post env s kind w (Inr m) w1"
  by (simp_all add: load_post_def)

text \<open>Sealing an object and putting the ciphertext in place.\<close>

lemma runs_seal:
  assumes laws: "store_laws env" and key: "store_key env s kind = Inr key" and kind: "kind \<noteq> Storage"
    and parsed: "parse_object env plaintext = Inr m"
    and old: "settles env s kind w0 w" "\<And>m'. stored env s kind (sw_disk w) = Some m' \<Longrightarrow> m' = m"
    and stop: "\<And>e w1. settles env s kind w0 w1 \<Longrightarrow> Q (Inl e) w1"
    and cont: "\<And>w1. settles env s kind w0 w1 \<Longrightarrow> direct env s kind (sw_disk w1) m \<Longrightarrow>
       sw_disk w1 (store_path s kind) \<noteq> None \<Longrightarrow> runs next Q w1"
  shows "runs (sbind (encrypt env plaintext key) (\<lambda>c. sbind (atomic_write env (store_path s kind) c) (\<lambda>_. next))) Q w"
proof (rule runs_bindI [OF runs_encrypt [OF laws]], goal_cases)
  case (1 e w1)
  then show ?case by (blast intro: stop settles_then_advance old(1))
next
  case (2 c w1)
  then have a: "advance w w1" and c: "decrypt env c key = Inr plaintext" by auto
  have h: "holds env s kind c m" using kind key c parsed by (simp add: holds_def)
  show ?case
  proof (rule runs_bindI [OF runs_atomic_write], goal_cases)
    case (1 e w2)
    then show ?case by (simp, blast intro: stop settles_then_advance old(1) a)
  next
    case (2 x w2)
    then have wr: "wrote (store_path s kind) c w1 w2" by simp
    have "settles env s kind w1 w2"
      using old(2) a by (intro wrote_settles [OF wr h]) (simp add: advance_disk)
    then have "settles env s kind w0 w2"
      by (rule settles_trans [OF settles_then_advance [OF old(1) a]])
    with wrote_direct [OF wr h] wrote_disk [OF wr] show ?case by (intro cont) auto
  qed
qed

lemma runs_migrate_settings:
  assumes laws: "store_laws env" and none: "sw_disk w (store_path s Settings) = None"
  shows "runs (migrate_settings env s (store_path s Settings)) (load_post env s Settings w) w"
  unfolding migrate_settings_def Let_def legacy_path_def [symmetric]
proof (rule runs_bindI [OF runs_read_optional], goal_cases)
  case (1 e w1)
  then show ?case by (intro load_post_intros settles_advance) simp
next
  case (2 data w1)
  then have a: "settles env s Settings w w1" and same: "sw_disk w1 = sw_disk w"
    by (simp_all add: settles_advance advance_disk)
  show ?case
  proof (cases data)
    case None
    with 2 none same have "direct env s Settings (sw_disk w1) []"
      by (auto simp: direct_def split: option.splits fs_node.splits)
    with None a show ?thesis by (simp add: load_post_intros)
  next
    case (Some d)
    then obtain st where d: "sw_disk w (legacy_path s) = Some (Regular d st)"
      using 2 by (auto split: option.splits fs_node.splits)
    show ?thesis
    proof (cases "parse_object env d"; cases "store_key env s Settings")
      fix m key
      assume m: "parse_object env d = Inr m" and key: "store_key env s Settings = Inr key"
      have "stored env s Settings (sw_disk w1) = Some m"
        using none d m same by (simp add: stored_def)
      then have "runs (sbind (encrypt env d key) (\<lambda>c. sbind (atomic_write env (store_path s Settings) c)
          (\<lambda>_. sbind (remove_file env (legacy_path s)) (\<lambda>_. sret m)))) (load_post env s Settings w) w1"
        by (intro runs_seal [OF laws key _ m a] runs_bindI [OF runs_remove_legacy])
          (auto intro: load_post_intros settles_trans)
      with Some m key show ?thesis by simp
    qed (simp_all add: Some load_post_intros a)
  qed
qed

text \<open>
  The legacy key comes from the salt on disk, or a salt is drawn because there is none to use; then the
  old file could not be read before either.
\<close>

definition usable_salt :: "extension_store \<Rightarrow> (string \<Rightarrow> fs_node option) \<Rightarrow> u8 list \<Rightarrow> bool" where
  "usable_salt s disk salt \<longleftrightarrow> length salt = 32 \<and> (\<exists>stamp. disk (salt_path s) = Some (Regular salt stamp))"

definition salt_drawn :: "'v store_env \<Rightarrow> extension_store \<Rightarrow> 'v storage_world \<Rightarrow> (store_error, u8 list) result \<Rightarrow>
    'v storage_world \<Rightarrow> bool" where
  "salt_drawn env s w r w1 \<longleftrightarrow>
     (advance w w1 \<or> (\<exists>salt. wrote (salt_path s) salt w w1) \<and> \<not> (\<exists>salt. usable_salt s (sw_disk w) salt)) \<and>
     (\<forall>k. r = Inr k \<longrightarrow>
        (\<exists>salt. usable_salt s (sw_disk w1) salt \<and> k = en_sha256 env (as_bytes (es_extension_id s) @ salt)))"

lemma wrote_salt_drawn:
  assumes "wrote (salt_path s) salt w w1" "\<not> (\<exists>salt. usable_salt s (sw_disk w) salt)" "length salt = 32"
  shows "salt_drawn env s w (Inr (en_sha256 env (as_bytes (es_extension_id s) @ salt))) w1"
  using wrote_disk [OF assms(1)] assms unfolding salt_drawn_def by (auto simp: usable_salt_def)

lemma runs_legacy_key: "runs (legacy_credentials_key env s) (salt_drawn env s w) w"
proof -
  define fresh :: "('a, u8 list) storage_op" where
    "fresh = (\<lambda>w. sbind (sys_call env RandomFailed) (\<lambda>_.
             let salt = map (en_random env (sw_calls w)) [0..<32] in
             sbind (atomic_write env (salt_path s) salt) (\<lambda>_.
               sret (en_sha256 env (as_bytes (es_extension_id s) @ salt)))) w)"
  have new: "runs fresh (salt_drawn env s w) w1"
    if a: "advance w w1" and u: "\<not> (\<exists>salt. usable_salt s (sw_disk w) salt)" for w1
  proof -
    have "runs (sbind (sys_call env RandomFailed) (\<lambda>_. sbind (atomic_write env (salt_path s) salt) (\<lambda>_.
        sret (en_sha256 env (as_bytes (es_extension_id s) @ salt))))) (salt_drawn env s w) w1"
      if "length salt = 32" for salt
    proof (rule runs_bindI [OF runs_sys_call], goal_cases)
      case (1 e w2)
      with a show ?case by (auto simp: salt_drawn_def intro: advance_trans)
    next
      case (2 x w2)
      then have a2: "advance w w2" using a by (blast intro: advance_trans)
      show ?case
      proof (rule runs_bindI [OF runs_atomic_write], goal_cases)
        case (1 e w3)
        with a2 show ?case by (auto simp: salt_drawn_def intro: advance_trans)
      qed (simp add: wrote_salt_drawn [OF advance_wrote [OF a2] u that])
    qed
    from this [of "map (en_random env (sw_calls w1)) [0..<32]"] show ?thesis
      by (simp add: fresh_def runs_def Let_def)
  qed
  show ?thesis
    unfolding legacy_credentials_key_def Let_def salt_path_def [symmetric]
    unfolding fresh_def [unfolded Let_def, symmetric]
  proof (rule runs_bindI [OF runs_read_optional], goal_cases)
    case (1 e w1)
    then show ?case by (simp add: salt_drawn_def)
  next
    case (2 salt w1)
    then have a: "advance w w1" and d: "sw_disk w1 = sw_disk w" by (auto simp: advance_disk)
    show ?case
    proof (cases "\<exists>x. usable_salt s (sw_disk w) x")
      case True
      with 2 a d show ?thesis
        by (auto simp: salt_drawn_def usable_salt_def split: option.splits)
    next
      case False
      with 2 new [OF a False] show ?thesis
        by (auto simp: usable_salt_def split: option.splits fs_node.splits)
    qed
  qed
qed

lemma stored_through_salt:
  assumes "store_key env s Credentials = Inr key" "decrypt env data key = Inl e"
    and "disk (store_path s Credentials) = Some (Regular data stamp)"
  shows "usable_salt s disk salt \<Longrightarrow> stored env s Credentials disk =
      ok (try_bind (decrypt env data (en_sha256 env (as_bytes (es_extension_id s) @ salt))) (parse_object env))"
    and "\<not> (\<exists>salt. usable_salt s disk salt) \<Longrightarrow> stored env s Credentials disk = None"
  using assms by (auto simp: stored_def usable_salt_def split: option.splits fs_node.splits)

lemma runs_legacy_key_settles:
  assumes "store_key env s Credentials = Inr key" "decrypt env data key = Inl e"
    and "sw_disk w (store_path s Credentials) = Some (Regular data stamp)"
  shows "runs (legacy_credentials_key env s) (\<lambda>r w1. settles env s Credentials w w1 \<and>
     sw_disk w1 (store_path s Credentials) = Some (Regular data stamp) \<and>
     (\<forall>k. r = Inr k \<longrightarrow>
        (\<exists>salt. usable_salt s (sw_disk w1) salt \<and> k = en_sha256 env (as_bytes (es_extension_id s) @ salt)))) w"
proof (rule runs_mono [OF runs_legacy_key], intro conjI, goal_cases)
  case (1 r w1)
  then consider "advance w w1"
    | salt where "wrote (salt_path s) salt w w1" "\<not> (\<exists>salt. usable_salt s (sw_disk w) salt)"
    unfolding salt_drawn_def by blast
  then show ?case
  proof cases
    case 2
    with stored_through_salt(2) [where disk = "sw_disk w", OF assms] show ?thesis
      by (simp add: settles_def wrote_disk_step)
  qed (rule settles_advance)
next
  case (2 r w1)
  then show ?case
    using assms(3) by (auto simp: salt_drawn_def advance_disk dest: wrote_disk)
qed (simp add: salt_drawn_def)

lemma runs_migrate_credentials:
  assumes laws: "store_laws env" and key: "store_key env s Credentials = Inr key"
    and node: "sw_disk w (store_path s Credentials) = Some (Regular data stamp)"
    and locked: "decrypt env data key = Inl e"
  shows "runs (migrate_credentials env s (store_path s Credentials) data key e)
     (\<lambda>r w1. settles env s Credentials w w1 \<and>
        (\<forall>p. r = Inr p \<longrightarrow> (\<exists>m. parse_object env p = Inr m \<and> direct env s Credentials (sw_disk w1) m))) w"
  (is "runs _ ?Q w")
  unfolding migrate_credentials_def
proof (rule runs_bindI [OF runs_legacy_key_settles [OF key locked node]], simp, goal_cases)
  case (1 legacy w1)
  then obtain salt where settled: "settles env s Credentials w w1"
    and file1: "sw_disk w1 (store_path s Credentials) = Some (Regular data stamp)"
    and salt: "usable_salt s (sw_disk w1) salt"
    and legacy: "legacy = en_sha256 env (as_bytes (es_extension_id s) @ salt)" by auto
  note st = stored_through_salt(1) [where disk = "sw_disk w1", OF key locked file1 salt, folded legacy]
  show ?case
  proof (cases "try_bind (decrypt env data legacy) (parse_object env)")
    case (Inl e')
    then show ?thesis using settled by (cases "decrypt env data legacy") simp_all
  next
    case (Inr m)
    then obtain p where p: "decrypt env data legacy = Inr p" "parse_object env p = Inr m"
      by (auto simp: try_bind_eq_Inr)
    have "runs (sbind (encrypt env p key) (\<lambda>c. sbind (atomic_write env (store_path s Credentials) c)
        (\<lambda>_. sret p))) ?Q w1"
      using st Inr p by (intro runs_seal [OF laws key _ p(2) settled]) auto
    with p show ?thesis by simp
  qed
qed

lemma runs_load_encrypted:
  assumes laws: "store_laws env" and kind: "kind \<noteq> Storage"
    and node: "sw_disk w (store_path s kind) = Some (Regular data stamp)"
  shows "runs (load_encrypted env s kind (store_path s kind) data) (load_post env s kind w) w"
proof (cases "store_key env s kind")
  case (Inl e)
  then show ?thesis by (simp add: load_encrypted_def load_post_intros settles_advance)
next
  case key: (Inr key)
  have refl: "settles env s kind w w" by (simp add: settles_advance)
  show ?thesis
  proof (cases "decrypt env data key")
    case (Inr p)
    then have "direct env s kind (sw_disk w) m" if "parse_object env p = Inr m" for m
      using that key node kind by (simp add: direct_def holds_def)
    then show ?thesis
      by (simp add: load_encrypted_def key Inr load_post_def refl)
  next
    case (Inl e)
    show ?thesis
    proof (cases "kind = Credentials")
      case False
      then show ?thesis by (simp add: load_encrypted_def key Inl load_post_intros refl)
    next
      case True
      have "runs (sbind (migrate_credentials env s (store_path s kind) data key e)
          (\<lambda>p. slift (parse_object env p))) (load_post env s kind w) w"
        unfolding True
        by (rule runs_bindI [OF runs_migrate_credentials [OF laws key [unfolded True] node [unfolded True] Inl]])
          (auto simp: load_post_def)
      with key Inl True show ?thesis by (simp add: load_encrypted_def)
    qed
  qed
qed

lemma runs_load_snapshot:
  assumes "store_laws env"
  shows "runs (load_snapshot env s kind (store_path s kind)) (load_post env s kind w) w"
  unfolding load_snapshot_def
proof (rule runs_bindI [OF runs_read_optional], goal_cases)
  case (1 e w1)
  then show ?case by (simp add: load_post_intros settles_advance)
next
  case (2 data w1)
  then have a: "settles env s kind w w1" and d: "sw_disk w1 = sw_disk w"
    by (auto simp: settles_advance advance_disk)
  have after: "load_post env s kind w1 r w2 \<Longrightarrow> load_post env s kind w r w2" for r w2
    using a by (auto simp: load_post_def intro: settles_trans)
  show ?case
  proof (cases "sw_disk w (store_path s kind)")
    case None
    with 2 have none: "data = None" by simp
    show ?thesis
    proof (cases "kind = Settings")
      case True
      with runs_migrate_settings [OF assms, of w1 s] None d have
        "runs (migrate_settings env s (store_path s kind)) (load_post env s kind w1) w1" by simp
      from runs_mono [OF this after] none True show ?thesis by simp
    next
      case False
      with none None d a show ?thesis by (simp add: load_post_intros direct_def)
    qed
  next
    case (Some node)
    then obtain x st where x: "sw_disk w (store_path s kind) = Some (Regular x st)" "data = Some x"
      using 2 by (cases node) auto
    show ?thesis
    proof (cases "kind = Storage")
      case True
      then show ?thesis
        using x d a by (simp add: load_post_def direct_def holds_def)
    next
      case False
      with runs_load_encrypted [OF assms False, of w1] x d have
        "runs (load_encrypted env s kind (store_path s kind) x) (load_post env s kind w1) w1" by simp
      from runs_mono [OF this after] x False show ?thesis by simp
    qed
  qed
qed

section \<open>The caches\<close>

lemma in_set_update_cases: "x \<in> set (xs[i := y]) \<Longrightarrow> x \<in> set xs \<or> x = y"
  using set_update_subset_insert by fastforce

lemma distinct_map_snd: "distinct (map snd xs) \<Longrightarrow> (p, a) \<in> set xs \<Longrightarrow> (q, a) \<in> set xs \<Longrightarrow> p = q"
  by (induction xs) (auto simp: rev_image_eqI)

definition cache_holds :: "'v store_env \<Rightarrow> store_kind \<Rightarrow> u8 list option \<Rightarrow> u8 list \<Rightarrow> (string, 'v) btmap \<Rightarrow> bool" where
  "cache_holds env kind tag data m \<longleftrightarrow>
     (if kind = Storage then parse_object env data = Inr m
      else \<exists>key p. derived_key env key \<and> tag = Some (en_sha256 env key) \<and> decrypt env data key = Inr p \<and>
             parse_object env p = Inr m)"

definition cached_ok :: "'v store_env \<Rightarrow> string \<Rightarrow> store_kind \<Rightarrow> fs_node option \<Rightarrow> 'v file_cache \<Rightarrow> bool" where
  "cached_ok env path kind node c \<longleftrightarrow>
     (\<forall>m. fc_snapshot c = Some m \<longrightarrow>
        (fc_identity c = None \<longrightarrow> kind \<noteq> Settings \<longrightarrow> m = []) \<and>
        (\<forall>data stamp. node = Some (Regular data stamp) \<longrightarrow> fc_identity c = Some (identity_of env path data stamp) \<longrightarrow>
           cache_holds env kind (fc_key_tag c) data m))"

definition stamps_ok :: "'v store_env \<Rightarrow> 'v storage_world \<Rightarrow> bool" where
  "stamps_ok env w \<longleftrightarrow>
     (\<forall>p data stamp. sw_disk w p = Some (Regular data stamp) \<longrightarrow> stamp < sw_calls w) \<and>
     (\<forall>p a i. (p, a) \<in> set (sw_files w) \<longrightarrow> fc_identity (sw_caches w ! a) = Some i \<longrightarrow>
        (\<exists>data stamp. stamp < sw_calls w \<and> i = identity_of env p data stamp))"

definition files_ok :: "'v storage_world \<Rightarrow> bool" where
  "files_ok w \<longleftrightarrow>
     length (sw_strong w) = length (sw_caches w) \<and> distinct (map fst (sw_files w)) \<and>
     distinct (map snd (sw_files w)) \<and> (\<forall>a \<in> snd ` set (sw_files w). a < length (sw_caches w))"

definition caches_ok :: "'v store_env \<Rightarrow> 'v storage_world \<Rightarrow> bool" where
  "caches_ok env w \<longleftrightarrow>
     (\<forall>p a directory kind. (p, a) \<in> set (sw_files w) \<longrightarrow> p = path_join directory (kind_filename kind) \<longrightarrow>
        cached_ok env p kind (sw_disk w p) (sw_caches w ! a))"

definition coherent :: "'v store_env \<Rightarrow> 'v storage_world \<Rightarrow> bool" where
  "coherent env w \<longleftrightarrow> files_ok w \<and> stamps_ok env w \<and> caches_ok env w"

definition registered :: "'v storage_world \<Rightarrow> extension_store \<Rightarrow> bool" where
  "registered w s \<longleftrightarrow>
     (\<forall>kind. (store_path s kind, store_file s kind) \<in> set (sw_files w)) \<and> (salt_path s, es_salt s) \<in> set (sw_files w)"

lemma filename_in_names: "kind_filename kind \<in> kind_names kind"
  by (cases kind) (simp_all add: kind_filename_def kind_names_def)

lemma kind_path_eq:
  assumes "path_join d (kind_filename kind) = path_join d' (kind_filename kind')"
  shows "d = d' \<and> kind = kind'"
  using path_join_eq [OF assms] plain_names filename_in_names kind_names_disjoint by metis

lemma disk_step_coherent:
  assumes laws: "store_laws env" and inv: "coherent env w" and step: "disk_step area w w1"
  shows "coherent env w1"
proof -
  have mem: "same_memory w w1" and le: "sw_calls w \<le> sw_calls w1"
    and nodes: "sw_disk w1 p = sw_disk w p \<or>
      (case sw_disk w1 p of Some (Regular d st) \<Rightarrow> sw_calls w \<le> st \<and> st < sw_calls w1 | _ \<Rightarrow> True)" for p
    using step unfolding disk_step_def by auto
  have st: "stamps_ok env w" and cs: "caches_ok env w" and reg: "files_ok w"
    using inv by (simp_all add: coherent_def)
  have "stamp < sw_calls w1" if "sw_disk w1 p = Some (Regular data stamp)" for p data stamp
    using nodes [of p]
  proof
    assume "sw_disk w1 p = sw_disk w p"
    with that st have "stamp < sw_calls w" unfolding stamps_ok_def by simp
    with le show ?thesis by simp
  qed (simp add: that)
  moreover have "\<exists>data stamp. stamp < sw_calls w1 \<and> i = identity_of env p data stamp"
    if "(p, a) \<in> set (sw_files w1)" "fc_identity (sw_caches w1 ! a) = Some i" for p a i
    using that st mem le unfolding stamps_ok_def same_memory_def by (metis less_le_trans)
  ultimately have st1: "stamps_ok env w1" by (simp add: stamps_ok_def)
  have "cached_ok env p kind (sw_disk w1 p) (sw_caches w1 ! a)"
    if entry: "(p, a) \<in> set (sw_files w1)" and p: "p = path_join d (kind_filename kind)" for p a d kind
  proof -
    have old: "cached_ok env p kind (sw_disk w p) (sw_caches w ! a)" and c: "sw_caches w1 ! a = sw_caches w ! a"
      and member: "(p, a) \<in> set (sw_files w)"
      using cs reg entry p mem by (auto simp: caches_ok_def same_memory_def files_ok_def)
    have "fc_identity (sw_caches w ! a) \<noteq> Some (identity_of env p data stamp)"
      if "sw_disk w1 p = Some (Regular data stamp)" "sw_disk w1 p \<noteq> sw_disk w p" for data stamp
    proof
      assume "fc_identity (sw_caches w ! a) = Some (identity_of env p data stamp)"
      then obtain d' st' where "st' < sw_calls w" "identity_of env p data stamp = identity_of env p d' st'"
        using st member unfolding stamps_ok_def by blast
      with identity_of_eq [OF laws this(2)] nodes [of p] that show False by simp
    qed
    with old c show ?thesis by (cases "sw_disk w1 p = sw_disk w p") (auto simp: cached_ok_def)
  qed
  then have "caches_ok env w1" unfolding caches_ok_def by blast
  with st1 reg mem show ?thesis by (simp add: coherent_def files_ok_def same_memory_def)
qed

lemma adopt_fields [simp]:
  "sw_disk (adopt a m i tag w) = sw_disk w" "sw_files (adopt a m i tag w) = sw_files w"
  "sw_strong (adopt a m i tag w) = sw_strong w" "sw_calls (adopt a m i tag w) = sw_calls w"
  "sw_caches (adopt a m i tag w) =
     (sw_caches w)[a := \<lparr>fc_snapshot = Some m, fc_identity = i, fc_key_tag = tag\<rparr>]"
  by (simp_all add: adopt_def)

lemma store_key_tag:
  assumes "store_laws env" "kind \<noteq> Storage"
  shows "store_key env s kind = Inr key \<Longrightarrow> cache_tag env s kind = Some (en_sha256 env key) \<and> derived_key env key"
    and "cache_tag env s kind = Some (en_sha256 env key) \<Longrightarrow> derived_key env key \<Longrightarrow> store_key env s kind = Inr key"
proof -
  assume "store_key env s kind = Inr key"
  then show "cache_tag env s kind = Some (en_sha256 env key) \<and> derived_key env key"
    using assms(2) by (auto simp: store_key_def cache_tag_def try_bind_eq_Inr ok_or_eq_Inr derived_key_def)
next
  assume tag: "cache_tag env s kind = Some (en_sha256 env key)" and key: "derived_key env key"
  then obtain k where k: "es_master_key s = Some k"
    and eq: "en_sha256 env (derive env k (es_extension_id s) (kind_purpose kind)) = en_sha256 env key"
    using assms(2) by (auto simp: cache_tag_def)
  have "derive env k (es_extension_id s) (kind_purpose kind) = key"
    by (rule store_lawsD(2) [OF assms(1) _ key eq]) (auto simp: derived_key_def)
  with k show "store_key env s kind = Inr key" by (simp add: store_key_def)
qed

lemma holds_cached:
  assumes "store_laws env"
  shows "holds env s kind data m \<longleftrightarrow> cache_holds env kind (cache_tag env s kind) data m"
proof (cases "kind = Storage")
  case False
  then have "store_key env s kind = Inr key \<longleftrightarrow> derived_key env key \<and> cache_tag env s kind = Some (en_sha256 env key)"
    for key using store_key_tag [OF assms False] by blast
  with False show ?thesis by (simp add: holds_def cache_holds_def)
qed (simp add: holds_def cache_holds_def)

lemma fresh_cached_ok:
  assumes laws: "store_laws env" and d: "direct env s kind disk m"
    and i: "i = ident env (store_path s kind) (disk (store_path s kind))"
  shows "cached_ok env (store_path s kind) kind (disk (store_path s kind))
     \<lparr>fc_snapshot = Some m, fc_identity = i, fc_key_tag = cache_tag env s kind\<rparr>"
  using d i by (auto simp: cached_ok_def direct_def ident_def holds_cached [OF laws]
      split: option.splits fs_node.splits)

lemma adopt_coherent:
  assumes laws: "store_laws env" and inv: "coherent env w" and reg: "registered w s"
    and d: "direct env s kind (sw_disk w) m" and i: "i = ident env (store_path s kind) (sw_disk w (store_path s kind))"
  shows "coherent env (adopt (store_file s kind) m i (cache_tag env s kind) w)" (is "coherent env ?w")
proof -
  let ?a = "store_file s kind" and ?p = "store_path s kind"
  have r: "files_ok w" and st: "stamps_ok env w" and cs: "caches_ok env w"
    using inv by (simp_all add: coherent_def)
  have mine: "(?p, ?a) \<in> set (sw_files w)" and bound: "?a < length (sw_caches w)"
    using reg r by (force simp: registered_def files_ok_def)+
  have "\<exists>data stamp. stamp < sw_calls w \<and> j = identity_of env ?p data stamp" if j: "i = Some j" for j
  proof -
    obtain data stamp where "sw_disk w ?p = Some (Regular data stamp)" "j = identity_of env ?p data stamp"
      using j i by (auto simp: ident_def split: option.splits fs_node.splits)
    with st show ?thesis unfolding stamps_ok_def by blast
  qed
  moreover have "p = ?p" if "(p, ?a) \<in> set (sw_files w)" for p
    using r mine that by (auto simp: files_ok_def dest: distinct_map_snd)
  ultimately have "stamps_ok env ?w"
    using st bound unfolding stamps_ok_def adopt_fields by (metis file_cache.select_convs(2) nth_list_update)
  moreover have "cached_ok env p k (sw_disk w p) (sw_caches ?w ! a)"
    if entry: "(p, a) \<in> set (sw_files w)" and p: "p = path_join x (kind_filename k)" for p a x k
  proof (cases "a = ?a")
    case True
    then have "p = ?p"
      using r mine entry by (auto simp: files_ok_def dest: distinct_map_snd)
    moreover from this p have "k = kind" unfolding store_path_def using kind_path_eq by blast
    ultimately show ?thesis using fresh_cached_ok [OF laws d i] bound True by simp
  next
    case False
    with cs entry p show ?thesis by (simp add: caches_ok_def)
  qed
  ultimately show ?thesis
    using r by (auto simp: coherent_def files_ok_def caches_ok_def)
qed

section \<open>Reading\<close>

definition op_frame :: "string set \<Rightarrow> 'v storage_world \<Rightarrow> 'v storage_world \<Rightarrow> bool" where
  "op_frame area w w1 \<longleftrightarrow>
     sw_files w1 = sw_files w \<and> sw_strong w1 = sw_strong w \<and> length (sw_caches w1) = length (sw_caches w) \<and>
     (\<forall>p. p \<notin> area \<longrightarrow> sw_disk w1 p = sw_disk w p)"

lemma op_frame_trans: "op_frame area w w1 \<Longrightarrow> op_frame area w1 w2 \<Longrightarrow> op_frame area w w2"
  by (simp add: op_frame_def)

lemma disk_step_frame: "disk_step area w w1 \<Longrightarrow> op_frame area w w1"
  unfolding disk_step_def same_memory_def op_frame_def by auto

lemma adopt_frame: "op_frame area w (adopt a m i tag w)"
  by (simp add: op_frame_def)

lemma registered_frame: "op_frame area w w1 \<Longrightarrow> registered w s \<Longrightarrow> registered w1 s"
  by (simp add: op_frame_def registered_def)

definition read_post ::
  "'v store_env \<Rightarrow> extension_store \<Rightarrow> store_kind \<Rightarrow> 'v storage_world \<Rightarrow>
   (store_error, (string, 'v) btmap) result \<Rightarrow> 'v storage_world \<Rightarrow> bool" where
  "read_post env s kind w r w1 \<longleftrightarrow>
     coherent env w1 \<and> op_frame (owned s kind) w w1 \<and>
     (\<forall>m. stored env s kind (sw_disk w) = Some m \<longrightarrow> stored env s kind (sw_disk w1) = Some m) \<and>
     (\<forall>m. r = Inr m \<longrightarrow> direct env s kind (sw_disk w1) m)"

lemma read_post_settles:
  assumes "store_laws env" "coherent env w" "settles env s kind w w1"
    "\<And>m. r = Inr m \<Longrightarrow> direct env s kind (sw_disk w1) m"
  shows "read_post env s kind w r w1"
  using assms by (auto simp: read_post_def settles_def intro: disk_step_coherent disk_step_frame)

lemma cached_direct:
  assumes laws: "store_laws env" and inv: "coherent env w" and reg: "registered w s"
    and node: "sw_disk w (store_path s kind) \<noteq> Some Special"
    and hit: "\<not> cache_stale kind (ident env (store_path s kind) (sw_disk w (store_path s kind))) (cache_tag env s kind)
      (sw_caches w ! store_file s kind)"
  shows "direct env s kind (sw_disk w) (the (fc_snapshot (sw_caches w ! store_file s kind)))"
proof -
  define c where "c = sw_caches w ! store_file s kind"
  have "cached_ok env (store_path s kind) kind (sw_disk w (store_path s kind)) c"
    using inv reg unfolding coherent_def caches_ok_def registered_def c_def store_path_def by blast
  moreover obtain m where m: "fc_snapshot c = Some m" "fc_key_tag c = cache_tag env s kind"
    "fc_identity c = ident env (store_path s kind) (sw_disk w (store_path s kind))"
    "kind = Settings \<Longrightarrow> ident env (store_path s kind) (sw_disk w (store_path s kind)) \<noteq> None"
    using hit by (auto simp: cache_stale_def c_def)
  ultimately have "direct env s kind (sw_disk w) m"
    using node by (auto simp: direct_def cached_ok_def ident_def holds_cached [OF laws]
        split: option.splits fs_node.splits)
  with m show ?thesis by (simp add: c_def)
qed

lemma runs_refresh:
  assumes laws: "store_laws env" and inv: "coherent env w" and reg: "registered w s"
  shows "runs (refresh env s kind) (read_post env s kind w) w"
  unfolding refresh_def Let_def
proof (rule runs_bindI [OF runs_file_identity], goal_cases)
  case (1 e w1)
  then show ?case by (intro read_post_settles [OF laws inv settles_advance]) auto
next
  case (2 i w1)
  let ?p = "store_path s kind" and ?a = "store_file s kind" and ?tag = "cache_tag env s kind"
  have a: "settles env s kind w w1" and d: "sw_disk w1 = sw_disk w"
    and i: "i = ident env ?p (sw_disk w1 ?p)" "sw_disk w1 ?p \<noteq> Some Special"
    using 2 by (auto simp: settles_advance advance_disk)
  have inv1: "coherent env w1" and reg1: "registered w1 s"
    using a reg disk_step_coherent [OF laws inv] registered_frame [OF disk_step_frame]
    by (auto simp: settles_def)
  show ?case
  proof (cases "cache_stale kind i ?tag (sw_caches w1 ! ?a)")
    case False
    with cached_direct [OF laws inv1 reg1 i(2)] i(1) have
      "direct env s kind (sw_disk w1) (the (fc_snapshot (sw_caches w1 ! ?a)))" by simp
    then have "read_post env s kind w (Inr (the (fc_snapshot (sw_caches w1 ! ?a)))) w1"
      by (intro read_post_settles [OF laws inv a]) simp
    with False show ?thesis by (simp add: runs_def)
  next
    case True
    have "runs (sbind (load_snapshot env s kind ?p) (\<lambda>m. sbind (file_identity env ?p) (\<lambda>i w.
        (Inr m, adopt ?a m i ?tag w)))) (read_post env s kind w) w1"
    proof (rule runs_bindI [OF runs_load_snapshot [OF laws]], goal_cases)
      case (1 e w2)
      then show ?case
        by (intro read_post_settles [OF laws inv settles_trans [OF a]]) (auto simp: load_post_def)
    next
      case (2 m w2)
      then have s2: "settles env s kind w w2" and m: "direct env s kind (sw_disk w2) m"
        by (auto simp: load_post_def intro: settles_trans [OF a])
      show ?case
      proof (rule runs_bindI [OF runs_file_identity], goal_cases)
        case (1 e w3)
        then show ?case
          by (intro read_post_settles [OF laws inv settles_then_advance [OF s2]]) auto
      next
        case (2 i w3)
        then have s3: "settles env s kind w w3" and m3: "direct env s kind (sw_disk w3) m"
          and i3: "i = ident env ?p (sw_disk w3 ?p)"
          using s2 m by (auto simp: advance_disk intro: settles_then_advance)
        have p3: "read_post env s kind w (Inr m) w3"
          using m3 by (intro read_post_settles [OF laws inv s3]) simp
        then have "coherent env (adopt ?a m i ?tag w3)"
          using reg by (intro adopt_coherent [OF laws _ _ m3 i3]) (auto simp: read_post_def intro: registered_frame)
        with p3 show ?case
          by (auto simp: runs_def read_post_def intro: op_frame_trans adopt_frame)
      qed
    qed
    with True show ?thesis by (simp add: runs_def)
  qed
qed

section \<open>Writing\<close>

lemma runs_write_snapshot:
  assumes laws: "store_laws env" and wf: "bt_wf m" and data: "en_print env m = Inr data"
  shows "runs (write_snapshot env s kind data) (\<lambda>r w1. disk_step (owned s kind) w w1 \<and>
     (case r of Inl _ \<Rightarrow> sw_disk w1 = sw_disk w | Inr _ \<Rightarrow> direct env s kind (sw_disk w1) m)) w"
proof -
  have parsed: "parse_object env data = Inr m" by (rule store_lawsD(4) [OF laws wf data])
  have put: "runs (atomic_write env (store_path s kind) c) (\<lambda>r w2. disk_step (owned s kind) w w2 \<and>
      (case r of Inl _ \<Rightarrow> sw_disk w2 = sw_disk w | Inr _ \<Rightarrow> direct env s kind (sw_disk w2) m)) w1"
    if "advance w w1" "holds env s kind c m" for c w1
    using that
    by (intro runs_mono [OF runs_atomic_write])
      (auto simp: advance_disk wrote_direct intro: advance_trans advance_disk_step wrote_disk_step
        disk_step_trans split: sum.splits)
  show ?thesis
  proof (cases "kind = Storage")
    case True
    with put [of w data] parsed show ?thesis by (simp add: write_snapshot_def holds_def)
  next
    case False
    show ?thesis
    proof (cases "store_key env s kind")
      case (Inl e)
      with False show ?thesis by (simp add: write_snapshot_def advance_disk_step)
    next
      case (Inr key)
      have "runs (sbind (encrypt env data key) (\<lambda>c. atomic_write env (store_path s kind) c))
        (\<lambda>r w1. disk_step (owned s kind) w w1 \<and>
           (case r of Inl _ \<Rightarrow> sw_disk w1 = sw_disk w | Inr _ \<Rightarrow> direct env s kind (sw_disk w1) m)) w"
        by (rule runs_bindI [OF runs_encrypt [OF laws]])
          (use False Inr parsed in \<open>auto simp: holds_def advance_disk_step advance_disk intro!: put\<close>)
      with False Inr show ?thesis by (simp add: write_snapshot_def)
    qed
  qed
qed

definition persist_post ::
  "'v store_env \<Rightarrow> extension_store \<Rightarrow> store_kind \<Rightarrow> (string, 'v) btmap \<Rightarrow> 'v storage_world \<Rightarrow>
   (store_error, unit) result \<Rightarrow> 'v storage_world \<Rightarrow> bool" where
  "persist_post env s kind m w r w1 \<longleftrightarrow>
     coherent env w1 \<and> op_frame (owned s kind) w w1 \<and>
     stored env s kind (sw_disk w1) \<in> {stored env s kind (sw_disk w), Some m} \<and>
     (r = Inr () \<longrightarrow> stored env s kind (sw_disk w1) = Some m)"

lemma runs_persist_snapshot:
  assumes laws: "store_laws env" and inv: "coherent env w" and reg: "registered w s" and wf: "bt_wf m"
  shows "runs (persist_snapshot env s kind m) (persist_post env s kind m w) w"
proof (cases "en_print env m")
  case (Inl e)
  with inv show ?thesis by (simp add: persist_snapshot_def persist_post_def op_frame_def)
next
  case (Inr data)
  let ?p = "store_path s kind" and ?a = "store_file s kind" and ?tag = "cache_tag env s kind"
  have "runs (sbind (write_snapshot env s kind data) (\<lambda>_. sbind (file_identity env ?p) (\<lambda>i w.
      (Inr (), adopt ?a m i ?tag w)))) (persist_post env s kind m w) w"
  proof (rule runs_bindI [OF runs_write_snapshot [OF laws wf Inr]], goal_cases)
    case (1 e w1)
    with laws inv show ?case
      by (auto simp: persist_post_def intro: disk_step_coherent disk_step_frame)
  next
    case (2 x w1)
    then have step1: "disk_step (owned s kind) w w1" and m1: "direct env s kind (sw_disk w1) m" by auto
    have inv2: "coherent env w2" and step2: "op_frame (owned s kind) w w2" if "advance w1 w2" for w2
      using disk_step_trans [OF step1 advance_disk_step [OF that]]
      by (auto intro: disk_step_coherent [OF laws inv] disk_step_frame)
    show ?case
    proof (rule runs_bindI [OF runs_file_identity], goal_cases)
      case (1 e w2)
      with m1 show ?case by (auto simp: persist_post_def inv2 step2 advance_disk direct_stored)
    next
      case (2 i w2)
      then have a: "advance w1 w2" and m2: "direct env s kind (sw_disk w2) m"
        and i: "i = ident env ?p (sw_disk w2 ?p)"
        using m1 by (auto simp: advance_disk)
      have "coherent env (adopt ?a m i ?tag w2)"
        by (rule adopt_coherent [OF laws inv2 [OF a] registered_frame [OF step2 [OF a] reg] m2 i])
      with step2 [OF a] m2 show ?case
        by (auto simp: runs_def persist_post_def direct_stored intro: op_frame_trans adopt_frame)
    qed
  qed
  with Inr show ?thesis by (simp add: persist_snapshot_def)
qed

definition applied :: "('m \<Rightarrow> bool \<times> 'm) \<Rightarrow> 'm \<Rightarrow> 'm" where
  "applied change m = (if fst (change m) then snd (change m) else m)"

definition write_post ::
  "'v store_env \<Rightarrow> extension_store \<Rightarrow> store_kind \<Rightarrow> ((string, 'v) btmap \<Rightarrow> (string, 'v) btmap) \<Rightarrow>
   'v storage_world \<Rightarrow> (store_error, unit) result \<Rightarrow> 'v storage_world \<Rightarrow> bool" where
  "write_post env s kind f w r w1 \<longleftrightarrow>
     coherent env w1 \<and> op_frame (owned s kind) w w1 \<and>
     (\<forall>m. stored env s kind (sw_disk w) = Some m \<longrightarrow>
        stored env s kind (sw_disk w1) = Some (f m) \<or> r \<noteq> Inr () \<and> stored env s kind (sw_disk w1) = Some m)"

lemma runs_mutate:
  assumes laws: "store_laws env" and inv: "coherent env w" and reg: "registered w s"
    and change: "\<And>m. bt_wf m \<Longrightarrow> bt_wf (snd (change m))"
  shows "runs (mutate env s kind change) (write_post env s kind (applied change) w) w"
proof (cases "es_closed s")
  case True
  with inv show ?thesis by (simp add: mutate_def access_def write_post_def op_frame_def)
next
  case False
  have "runs (sbind (refresh env s kind) (\<lambda>m. if \<not> fst (change m) then sret ()
      else persist_snapshot env s kind (snd (change m)))) (write_post env s kind (applied change) w) w"
  proof (rule runs_bindI [OF runs_refresh [OF laws inv reg]], goal_cases)
    case (1 e w1)
    then show ?case by (auto simp: read_post_def write_post_def)
  next
    case (2 m w1)
    then have m: "stored env s kind (sw_disk w1) = Some m" and inv1: "coherent env w1"
      and fr: "op_frame (owned s kind) w w1" and wf: "bt_wf m"
      and old: "\<And>m0. stored env s kind (sw_disk w) = Some m0 \<Longrightarrow> m0 = m"
      using laws by (fastforce simp: read_post_def intro: direct_wf dest: direct_stored)+
    show ?case
    proof (cases "fst (change m)")
      case False
      with m inv1 fr old show ?thesis by (auto simp: write_post_def applied_def)
    next
      case True
      have "runs (persist_snapshot env s kind (snd (change m))) (write_post env s kind (applied change) w) w1"
        by (rule runs_mono [OF runs_persist_snapshot [OF laws inv1 registered_frame [OF fr reg] change [OF wf]]])
          (use True m old op_frame_trans [OF fr] in \<open>auto simp: write_post_def persist_post_def applied_def\<close>)
      with True show ?thesis by simp
    qed
  qed
  with False show ?thesis by (simp add: mutate_def access_def)
qed

end
