(* ===== verification/Storage_Sessions.thy ===== *)
theory Storage_Sessions
  imports Storage_Coherence "HOL-Library.Sublist" "HOL-Library.Multiset"
begin

text \<open>
  Sessions over the extension storage: handles are opened, used, closed and dropped in any order, system
  calls fail, and other programs replace files between the operations. The invariant of
  \<open>Storage_Coherence\<close> holds in every reachable state, so its consequences hold for every session. The
  locale \<open>durable_map\<close> is what the code that keeps its settings in a store relies on.
\<close>

section \<open>Handles and reference counts\<close>

definition handles :: "extension_store \<Rightarrow> (string \<times> nat) list" where
  "handles s = [(store_path s Storage, es_storage s), (store_path s Credentials, es_credentials s),
     (store_path s Settings, es_settings s), (salt_path s, es_salt s)]"

definition counted :: "'v storage_world \<Rightarrow> (string \<times> nat) list \<Rightarrow> bool" where
  "counted w hs \<longleftrightarrow>
     set hs \<subseteq> set (sw_files w) \<and> (\<forall>a < length (sw_strong w). sw_strong w ! a = count_list (map snd hs) a)"

lemma registered_handles: "registered w s \<longleftrightarrow> set (handles s) \<subseteq> set (sw_files w)"
proof -
  have "(\<forall>kind. (store_path s kind, store_file s kind) \<in> set (sw_files w)) \<longleftrightarrow>
      (store_path s Storage, es_storage s) \<in> set (sw_files w) \<and>
      (store_path s Credentials, es_credentials s) \<in> set (sw_files w) \<and>
      (store_path s Settings, es_settings s) \<in> set (sw_files w)"
    by (auto simp: store_file_def split: store_kind.splits)
  then show ?thesis by (auto simp: registered_def handles_def)
qed

lemma counted_live:
  assumes "counted w hs" "files_ok w" "(p, a) \<in> set hs"
  shows "sw_strong w ! a > 0" "map_of (sw_files w) p = Some a" "a < length (sw_strong w)"
proof -
  have mem: "(p, a) \<in> set (sw_files w)" using assms(1,3) by (auto simp: counted_def)
  with assms(2) show bound: "a < length (sw_strong w)" by (force simp: files_ok_def)
  have "a \<in> set (map snd hs)" using assms(3) by force
  with bound assms(1) show "sw_strong w ! a > 0" by (simp add: counted_def count_list_0_iff neq0_conv [symmetric])
  show "map_of (sw_files w) p = Some a" using assms(2) mem by (simp add: files_ok_def)
qed

definition new_entry :: "string \<Rightarrow> 'v storage_world \<Rightarrow> 'v storage_world" where
  "new_entry path w =
     w\<lparr>sw_files := (path, length (sw_caches w)) #
         filter (\<lambda>(p, a). sw_strong w ! a > 0 \<and> p \<noteq> path) (sw_files w),
       sw_caches := sw_caches w @ [empty_cache], sw_strong := sw_strong w @ [1]\<rparr>"

lemma shared_file_cases:
  obtains a where "map_of (sw_files w) path = Some a" "sw_strong w ! a > 0"
      "shared_file path w = (a, w\<lparr>sw_strong := (sw_strong w)[a := Suc (sw_strong w ! a)]\<rparr>)"
    | "\<And>a. map_of (sw_files w) path = Some a \<Longrightarrow> sw_strong w ! a = 0"
      "shared_file path w = (length (sw_caches w), new_entry path w)"
proof (cases "map_of (sw_files w) path")
  case None
  with that(2) show ?thesis by (simp add: shared_file_def new_entry_def Let_def)
next
  case (Some a)
  then show ?thesis
    using that(1) [of a] that(2)
    by (cases "sw_strong w ! a > 0") (simp_all add: shared_file_def new_entry_def Let_def)
qed

lemma new_entry_coherent:
  assumes "coherent env w"
  shows "coherent env (new_entry path w)"
proof -
  have reg: "files_ok w" and st: "stamps_ok env w" and cs: "caches_ok env w"
    using assms by (simp_all add: coherent_def)
  have old: "a < length (sw_caches w)" if "(p, a) \<in> set (sw_files w)" for p a
    using reg that by (force simp: files_ok_def)
  have "files_ok (new_entry path w)"
    using reg old
    by (auto simp: files_ok_def new_entry_def distinct_map_filter less_Suc_eq_le dest: less_imp_le
        intro: less_SucI)
  moreover have "stamps_ok env (new_entry path w)"
    using st old by (auto simp: stamps_ok_def new_entry_def empty_cache_def nth_append)
  moreover have "cached_ok env p kind (sw_disk (new_entry path w) p) (sw_caches (new_entry path w) ! a)"
    if "(p, a) \<in> set (sw_files (new_entry path w))" "p = path_join d (kind_filename kind)" for p a d kind
  proof (cases "a = length (sw_caches w)")
    case True
    then show ?thesis by (simp add: new_entry_def cached_ok_def empty_cache_def)
  next
    case False
    with that have "(p, a) \<in> set (sw_files w)" by (auto simp: new_entry_def)
    with that(2) cs old [OF this] show ?thesis by (auto simp: new_entry_def caches_ok_def nth_append)
  qed
  ultimately show ?thesis
    unfolding coherent_def caches_ok_def by blast
qed

lemma shared_file_ok:
  assumes inv: "coherent env w" and cnt: "counted w hs" and sf: "shared_file path w = (a, w1)"
  shows "coherent env w1 \<and> counted w1 ((path, a) # hs) \<and> sw_disk w1 = sw_disk w \<and> sw_calls w1 = sw_calls w"
proof -
  have reg: "files_ok w" using inv by (simp add: coherent_def)
  show ?thesis
  proof (cases rule: shared_file_cases [where path = path and w = w])
    case (1 b)
    then have a: "a = b" "w1 = w\<lparr>sw_strong := (sw_strong w)[b := Suc (sw_strong w ! b)]\<rparr>"
      using sf by auto
    have "(path, b) \<in> set (sw_files w)" using 1(1) by (rule map_of_SomeD)
    with a inv cnt show ?thesis
      by (auto simp: coherent_def files_ok_def stamps_ok_def caches_ok_def counted_def nth_list_update)
  next
    case 2
    then have a: "a = length (sw_caches w)" "w1 = new_entry path w" using sf by auto
    have len: "length (sw_strong w) = length (sw_caches w)" using reg by (simp add: files_ok_def)
    have live: "sw_strong w ! b > 0" "p \<noteq> path" "b < length (sw_caches w)" if "(p, b) \<in> set hs" for p b
      using counted_live [OF cnt reg that] 2(1) len by auto
    have "(path, b) \<notin> set hs" for b using live(2) by blast
    moreover have "length (sw_caches w) \<notin> set (map snd hs)" using live(3) by fastforce
    ultimately have "counted w1 ((path, a) # hs)"
      using a cnt live len
      by (auto simp: counted_def new_entry_def nth_append count_list_0_iff less_Suc_eq)
    with a new_entry_coherent [OF inv] show ?thesis by (simp add: new_entry_def)
  qed
qed

lemma counted_cong:
  assumes "counted w hs" "mset hs = mset hs'"
  shows "counted w hs'"
proof -
  have "mset (map snd hs) = mset (map snd hs')" using assms(2) by simp
  then have "count_list (map snd hs') a = count_list (map snd hs) a" for a
    by (metis count_mset)
  with assms(1) mset_eq_setD [OF assms(2)] show ?thesis by (simp add: counted_def)
qed

lemma release_counted:
  assumes "counted w ((p, a) # hs)" "a < length (sw_strong w)"
  shows "counted (release_file a w) hs"
  using assms by (auto simp: counted_def release_file_def nth_list_update)

lemma release_fields [simp]:
  "sw_files (release_file a w) = sw_files w" "sw_disk (release_file a w) = sw_disk w"
  "sw_caches (release_file a w) = sw_caches w" "sw_calls (release_file a w) = sw_calls w"
  "length (sw_strong (release_file a w)) = length (sw_strong w)"
  by (simp_all add: release_file_def)

lemma release_coherent: "coherent env w \<Longrightarrow> coherent env (release_file a w)"
  by (simp add: coherent_def files_ok_def stamps_ok_def caches_ok_def)

section \<open>Opening and dropping\<close>

lemma new_store_ok:
  assumes "coherent env v" "counted v hs" and new: "new_store d i key v = (s, w1)"
  shows "coherent env w1 \<and> sw_disk w1 = sw_disk v \<and> counted w1 (handles s @ hs)"
proof -
  obtain a1 v1 where 1: "shared_file (path_join d (kind_filename Storage)) v = (a1, v1)" by force
  obtain a2 v2 where 2: "shared_file (path_join d (kind_filename Credentials)) v1 = (a2, v2)" by force
  obtain a3 v3 where 3: "shared_file (path_join d (kind_filename Settings)) v2 = (a3, v3)" by force
  obtain a4 v4 where 4: "shared_file (path_join d ''.cred_salt'') v3 = (a4, v4)" by force
  note s1 = shared_file_ok [OF assms(1,2) 1]
  note s2 = shared_file_ok [OF conjunct1 [OF s1] conjunct1 [OF conjunct2 [OF s1]] 2]
  note s3 = shared_file_ok [OF conjunct1 [OF s2] conjunct1 [OF conjunct2 [OF s2]] 3]
  note s4 = shared_file_ok [OF conjunct1 [OF s3] conjunct1 [OF conjunct2 [OF s3]] 4]
  have r: "s = \<lparr>es_directory = d, es_extension_id = i, es_master_key = key, es_storage = a1,
      es_credentials = a2, es_settings = a3, es_salt = a4, es_closed = False\<rparr>" "w1 = v4"
    using new 1 2 3 4 by (auto simp: new_store_def)
  have "counted v4 ((path_join d ''.cred_salt'', a4) # (path_join d (kind_filename Settings), a3) #
      (path_join d (kind_filename Credentials), a2) # (path_join d (kind_filename Storage), a1) # hs)"
    using s4 by blast
  then have "counted v4 (handles s @ hs)"
    by (rule counted_cong) (simp add: r handles_def store_path_def salt_path_def)
  with r s1 s2 s3 s4 show ?thesis by simp
qed

lemma ext_open_ok:
  assumes laws: "store_laws env" and inv: "coherent env w" and cnt: "counted w hs"
  shows "runs (ext_open env directory i key) (\<lambda>r w1. coherent env w1 \<and> sw_disk w1 = sw_disk w \<and>
     (case r of Inl _ \<Rightarrow> counted w1 hs | Inr s \<Rightarrow> counted w1 (handles s @ hs))) w" (is "runs _ ?Q w")
proof -
  have keep: "coherent env v" "counted v hs" "sw_disk v = sw_disk w" if "advance w v" for v
    using that cnt disk_step_coherent [OF laws inv advance_disk_step]
    by (auto simp: advance_def same_memory_def counted_def)
  have "runs (sbind (sys_call env IoFailed) (\<lambda>_. sbind (sys_call env IoFailed) (\<lambda>_ w.
          let (s, w1) = new_store (en_canonical env directory) i key w in (Inr s, w1)))) ?Q w"
  proof (rule runs_bindI [OF runs_sys_call], goal_cases)
    case (1 e w1)
    with keep [of w1] show ?case by simp
  next
    case (2 x w1)
    then have a1: "advance w w1" by blast
    show ?case
    proof (rule runs_bindI [OF runs_sys_call], goal_cases)
      case (1 e w2)
      with keep [of w2] advance_trans [OF a1, of w2] show ?case by simp
    next
      case (2 y w2)
      then have a: "advance w w2" using advance_trans [OF a1] by blast
      obtain s w3 where n: "new_store (en_canonical env directory) i key w2 = (s, w3)" by force
      from new_store_ok [OF keep(1,2) [OF a] n] n keep(3) [OF a] show ?case by (simp add: runs_def)
    qed
  qed
  then show ?thesis
    using inv cnt by (cases "valid_extension_id i") (simp_all add: ext_open_def)
qed

lemma ext_drop_ok:
  assumes "coherent env w" "counted w (handles s @ hs)"
  shows "coherent env (ext_drop s w)" "counted (ext_drop s w) hs" "sw_disk (ext_drop s w) = sw_disk w"
proof -
  have reg: "files_ok w" using assms(1) by (simp add: coherent_def)
  have bound: "es_storage s < length (sw_strong w)" "es_credentials s < length (sw_strong w)"
    "es_settings s < length (sw_strong w)" "es_salt s < length (sw_strong w)"
    using counted_live(3) [OF assms(2) reg] by (auto simp: handles_def)
  show "coherent env (ext_drop s w)" "sw_disk (ext_drop s w) = sw_disk w"
    using assms(1) by (simp_all add: ext_drop_def release_coherent)
  define w1 where "w1 = release_file (es_storage s) w"
  define w2 where "w2 = release_file (es_credentials s) w1"
  define w3 where "w3 = release_file (es_settings s) w2"
  have "counted w ((store_path s Storage, es_storage s) # (store_path s Credentials, es_credentials s) #
      (store_path s Settings, es_settings s) # (salt_path s, es_salt s) # hs)"
    using assms(2) by (simp add: handles_def)
  then have "counted w1 ((store_path s Credentials, es_credentials s) #
      (store_path s Settings, es_settings s) # (salt_path s, es_salt s) # hs)"
    unfolding w1_def by (rule release_counted) (rule bound)
  then have "counted w2 ((store_path s Settings, es_settings s) # (salt_path s, es_salt s) # hs)"
    unfolding w2_def by (rule release_counted) (simp add: w1_def bound)
  then have "counted w3 ((salt_path s, es_salt s) # hs)"
    unfolding w3_def by (rule release_counted) (simp add: w1_def w2_def bound)
  then have "counted (release_file (es_salt s) w3) hs"
    by (rule release_counted) (simp add: w1_def w2_def w3_def bound)
  then show "counted (ext_drop s w) hs" by (simp add: ext_drop_def w1_def w2_def w3_def)
qed

section \<open>Sessions\<close>

record 'v storage_system =
  sy_world :: "'v storage_world"
  sy_stores :: "extension_store list"

definition system_start :: "(string \<Rightarrow> fs_node option) \<Rightarrow> nat \<Rightarrow> 'v storage_system" where
  "system_start disk n =
     \<lparr>sy_world = \<lparr>sw_disk = disk, sw_files = [], sw_caches = [], sw_strong = [], sw_calls = n\<rparr>, sy_stores = []\<rparr>"

definition older :: "nat \<Rightarrow> (string \<Rightarrow> fs_node option) \<Rightarrow> bool" where
  "older n disk \<longleftrightarrow> (\<forall>p data stamp. disk p = Some (Regular data stamp) \<longrightarrow> stamp < n)"

definition foreign_write :: "string \<Rightarrow> u8 list option \<Rightarrow> 'v storage_world \<Rightarrow> 'v storage_world" where
  "foreign_write path data w =
     w\<lparr>sw_disk := (sw_disk w)(path := map_option (\<lambda>d. Regular d (sw_calls w)) data), sw_calls := Suc (sw_calls w)\<rparr>"

inductive storage_step :: "'v store_env \<Rightarrow> 'v storage_system \<Rightarrow> 'v storage_system \<Rightarrow> bool"
  for env :: "'v store_env" where
  step_open:
    "ext_open env directory i key (sy_world y) = (r, w1) \<Longrightarrow>
     storage_step env y \<lparr>sy_world = w1, sy_stores = (case r of Inl _ \<Rightarrow> [] | Inr s \<Rightarrow> [s]) @ sy_stores y\<rparr>"
| step_get:
    "s \<in> set (sy_stores y) \<Longrightarrow> storage_step env y (y\<lparr>sy_world := snd (ext_get env s kind k (sy_world y))\<rparr>)"
| step_all:
    "s \<in> set (sy_stores y) \<Longrightarrow> storage_step env y (y\<lparr>sy_world := snd (ext_all env s kind (sy_world y))\<rparr>)"
| step_set:
    "s \<in> set (sy_stores y) \<Longrightarrow> storage_step env y (y\<lparr>sy_world := snd (ext_set env s kind k v (sy_world y))\<rparr>)"
| step_remove:
    "s \<in> set (sy_stores y) \<Longrightarrow> storage_step env y (y\<lparr>sy_world := snd (ext_remove env s kind k (sy_world y))\<rparr>)"
| step_replace:
    "s \<in> set (sy_stores y) \<Longrightarrow> bt_wf m \<Longrightarrow>
     storage_step env y (y\<lparr>sy_world := snd (ext_replace env s kind m (sy_world y))\<rparr>)"
| step_close: "storage_step env y (y\<lparr>sy_stores := (sy_stores y)[n := ext_close (sy_stores y ! n)]\<rparr>)"
| step_drop:
    "sy_stores y = xs @ s # ys \<Longrightarrow>
     storage_step env y \<lparr>sy_world = ext_drop s (sy_world y), sy_stores = xs @ ys\<rparr>"
| step_foreign: "storage_step env y (y\<lparr>sy_world := foreign_write path data (sy_world y)\<rparr>)"

definition system_ok :: "'v store_env \<Rightarrow> 'v storage_system \<Rightarrow> bool" where
  "system_ok env y \<longleftrightarrow>
     coherent env (sy_world y) \<and> counted (sy_world y) (concat (map handles (sy_stores y)))"

lemma system_ok_registered: "system_ok env y \<Longrightarrow> s \<in> set (sy_stores y) \<Longrightarrow> registered (sy_world y) s"
  by (auto simp: system_ok_def counted_def registered_handles)

lemma frame_counted: "op_frame area w w1 \<Longrightarrow> counted w hs \<Longrightarrow> counted w1 hs"
  by (simp add: op_frame_def counted_def)

lemma foreign_coherent:
  assumes "store_laws env" "coherent env w"
  shows "coherent env (foreign_write path data w)"
  by (rule disk_step_coherent [OF assms, where area = UNIV])
    (auto simp: disk_step_def foreign_write_def same_memory_def split: option.splits fs_node.splits)

lemma runs_reads:
  assumes "store_laws env" "coherent env w" "registered w s"
  shows "runs (ext_all env s kind) (read_post env s kind w) w"
  using runs_refresh [OF assms] assms(2)
  by (auto simp: ext_all_def access_def read_post_def op_frame_def)

lemma runs_get:
  assumes "store_laws env" "coherent env w" "registered w s"
  shows "runs (ext_get env s kind k) (\<lambda>r w1. coherent env w1 \<and> op_frame (owned s kind) w w1 \<and>
     (\<forall>m. stored env s kind (sw_disk w) = Some m \<longrightarrow> stored env s kind (sw_disk w1) = Some m) \<and>
     (\<forall>v. r = Inr v \<longrightarrow> (\<exists>m. stored env s kind (sw_disk w1) = Some m \<and> v = bt_get m k))) w"
proof (cases "es_closed s")
  case True
  with assms(2) show ?thesis by (simp add: ext_get_def access_def op_frame_def)
next
  case False
  have "runs (sbind (refresh env s kind) (\<lambda>m. sret (bt_get m k))) (\<lambda>r w1. coherent env w1 \<and>
      op_frame (owned s kind) w w1 \<and>
     (\<forall>m. stored env s kind (sw_disk w) = Some m \<longrightarrow> stored env s kind (sw_disk w1) = Some m) \<and>
     (\<forall>v. r = Inr v \<longrightarrow> (\<exists>m. stored env s kind (sw_disk w1) = Some m \<and> v = bt_get m k))) w"
    by (rule runs_bindI [OF runs_refresh [OF assms]]) (auto simp: read_post_def direct_stored)
  with False show ?thesis by (simp add: ext_get_def access_def)
qed

lemma runs_set:
  assumes "store_laws env" "coherent env w" "registered w s"
  shows "runs (ext_set env s kind k v) (write_post env s kind (bt_insert k v) w) w"
  using runs_mutate [OF assms, of "\<lambda>m. (True, bt_insert k v m)"]
  by (simp add: ext_set_def applied_def [abs_def])

lemma runs_remove:
  assumes "store_laws env" "coherent env w" "registered w s"
  shows "runs (ext_remove env s kind k) (write_post env s kind (bt_remove k) w) w"
proof -
  let ?change = "\<lambda>m :: (string, 'a) btmap. (bt_get m k \<noteq> None \<or> kind \<noteq> Storage, bt_remove k m)"
  have "bt_remove k m = m" if "bt_get m k = None" for m :: "(string, 'a) btmap"
    using that unfolding bt_remove_def bt_get_def map_of_eq_None_iff
    by (intro filter_True) force
  then have same: "applied ?change = bt_remove k"
    by (intro ext) (simp add: applied_def)
  have "runs (mutate env s kind ?change) (write_post env s kind (applied ?change) w) w"
    by (rule runs_mutate [OF assms]) simp
  then show ?thesis unfolding same ext_remove_def .
qed

lemma runs_replace:
  assumes "store_laws env" "coherent env w" "registered w s" "bt_wf m"
  shows "runs (ext_replace env s kind m) (write_post env s kind (\<lambda>_. m) w) w"
  using runs_mutate [OF assms(1-3), of "\<lambda>_. (True, m)"] assms(4)
  by (simp add: ext_replace_def applied_def [abs_def])

lemma handles_close [simp]: "handles (ext_close s) = handles s"
  by (simp add: handles_def ext_close_def store_path_def salt_path_def)

lemma storage_step_ok:
  assumes laws: "store_laws env" and inv: "system_ok env y" and step: "storage_step env y y1"
  shows "system_ok env y1"
proof -
  have c: "coherent env (sy_world y)" and n: "counted (sy_world y) (concat (map handles (sy_stores y)))"
    using inv by (simp_all add: system_ok_def)
  have op: "system_ok env (y\<lparr>sy_world := snd (m (sy_world y))\<rparr>)"
    if "runs m (\<lambda>r w1. coherent env w1 \<and> op_frame area (sy_world y) w1) (sy_world y)" for m area
    using that n by (auto simp: runs_def system_ok_def intro: frame_counted)
  note live = system_ok_registered [OF inv]
  from step show ?thesis
  proof cases
    case (step_open directory i key r w1)
    with runsD [OF ext_open_ok [OF laws c n] step_open(2)] show ?thesis
      by (auto simp: system_ok_def split: sum.splits)
  next
    case (step_get s kind k)
    show ?thesis
      unfolding step_get(1)
      by (rule op [of _ "owned s kind", OF runs_mono [OF runs_get [OF laws c live [OF step_get(2)]]]]) simp
  next
    case (step_all s kind)
    show ?thesis
      unfolding step_all(1)
      by (rule op [of _ "owned s kind", OF runs_mono [OF runs_reads [OF laws c live [OF step_all(2)]]]]) (simp add: read_post_def)
  next
    case (step_set s kind k v)
    show ?thesis
      unfolding step_set(1)
      by (rule op [of _ "owned s kind", OF runs_mono [OF runs_set [OF laws c live [OF step_set(2)]]]]) (simp add: write_post_def)
  next
    case (step_remove s kind k)
    show ?thesis
      unfolding step_remove(1)
      by (rule op [of _ "owned s kind", OF runs_mono [OF runs_remove [OF laws c live [OF step_remove(2)]]]]) (simp add: write_post_def)
  next
    case (step_replace s m kind)
    show ?thesis
      unfolding step_replace(1)
      by (rule op [of _ "owned s kind", OF runs_mono [OF runs_replace [OF laws c live [OF step_replace(2)] step_replace(3)]]]) (simp add: write_post_def)
  next
    case (step_close k)
    have "map handles ((sy_stores y)[k := ext_close (sy_stores y ! k)]) = map handles (sy_stores y)"
      using list_update_id [of "map handles (sy_stores y)" k]
      by (cases "k < length (sy_stores y)") (simp_all add: map_update list_update_beyond)
    with step_close inv show ?thesis by (simp add: system_ok_def)
  next
    case (step_drop xs s ys)
    have "counted (sy_world y) (handles s @ concat (map handles (xs @ ys)))"
      using n step_drop(2) by (intro counted_cong [OF n]) simp
    from ext_drop_ok(1,2) [OF c this] step_drop show ?thesis by (simp add: system_ok_def)
  next
    case (step_foreign path data)
    with foreign_coherent [OF laws c] n show ?thesis
      by (simp add: system_ok_def counted_def foreign_write_def)
  qed
qed

lemma sessions_ok:
  assumes "store_laws env" "older n disk" "reachable_from (storage_step env) (system_start disk n) y"
  shows "system_ok env y"
  using assms(3)
proof induction
  case reach_start
  then show ?case
    using assms(2)
    by (simp add: system_ok_def system_start_def coherent_def files_ok_def stamps_ok_def caches_ok_def
        counted_def older_def)
next
  case (reach_step y y1)
  with storage_step_ok [OF assms(1)] show ?case by blast
qed

section \<open>A durable map\<close>

text \<open>
  What a client relies on: reading answers from the contents and keeps them, and writing replaces one
  binding or, when it fails, may leave everything as it was.
\<close>

locale durable_map =
  fixes inv :: "'w \<Rightarrow> bool"
    and contents :: "'w \<Rightarrow> ('k \<Rightarrow> 'v option) option"
    and read :: "'k \<Rightarrow> ('w, 'e, 'v option) fallible"
    and put :: "'k \<Rightarrow> 'v \<Rightarrow> ('w, 'e, unit) fallible"
  assumes read_keeps: "inv w \<Longrightarrow> contents w = Some m \<Longrightarrow> inv (snd (read k w)) \<and> contents (snd (read k w)) = Some m"
    and read_value: "inv w \<Longrightarrow> contents w = Some m \<Longrightarrow> fst (read k w) = Inr x \<Longrightarrow> x = m k"
    and put_keeps: "inv w \<Longrightarrow> inv (snd (put k v w))"
    and put_contents: "inv w \<Longrightarrow> contents w = Some m \<Longrightarrow>
      contents (snd (put k v w)) = Some (m(k \<mapsto> v)) \<or>
      fst (put k v w) \<noteq> Inr () \<and> contents (snd (put k v w)) = Some m"
begin

lemma put_then_read:
  assumes "inv w" "contents w = Some m" "put k v w = (Inr (), w1)" "read k' w1 = (Inr x, w2)"
  shows "x = (m(k \<mapsto> v)) k'"
proof -
  have "contents w1 = Some (m(k \<mapsto> v))" "inv w1"
    using put_contents [OF assms(1,2), of k v] put_keeps [OF assms(1), of k v] assms(3) by auto
  from read_value [OF this(2,1)] assms(4) show ?thesis by simp
qed

text \<open>After writes that may fail, the contents are the old ones with some of the writes made, in order.\<close>

lemma puts_contents:
  assumes "inv w" "contents w = Some m"
  shows "\<exists>done'. subseq done' kvs \<and>
     contents (fold (\<lambda>(k, v) w. snd (put k v w)) kvs w) = Some (fold (\<lambda>(k, v) m. m(k \<mapsto> v)) done' m)"
  using assms
proof (induction kvs arbitrary: w m)
  case Nil
  then show ?case by (intro exI [of _ "[]"]) simp
next
  case (Cons kv kvs)
  obtain k v where kv: "kv = (k, v)" by force
  have inv1: "inv (snd (put k v w))" by (rule put_keeps [OF Cons.prems(1)])
  from put_contents [OF Cons.prems, of k v] show ?case
  proof
    assume "contents (snd (put k v w)) = Some (m(k \<mapsto> v))"
    from Cons.IH [OF inv1 this] obtain ds where "subseq ds kvs"
      "contents (fold (\<lambda>(k, v) w. snd (put k v w)) kvs (snd (put k v w))) =
         Some (fold (\<lambda>(k, v) m. m(k \<mapsto> v)) ds (m(k \<mapsto> v)))" by blast
    with kv show ?thesis by (intro exI [of _ "(k, v) # ds"]) (simp del: fun_upd_apply)
  next
    assume "fst (put k v w) \<noteq> Inr () \<and> contents (snd (put k v w)) = Some m"
    with Cons.IH [OF inv1, of m] kv show ?thesis by auto
  qed
qed

end

definition store_contents ::
  "'v store_env \<Rightarrow> extension_store \<Rightarrow> store_kind \<Rightarrow> 'v storage_world \<Rightarrow> (string \<Rightarrow> 'v option) option" where
  "store_contents env s kind w = map_option bt_get (stored env s kind (sw_disk w))"

definition store_ready :: "'v store_env \<Rightarrow> extension_store \<Rightarrow> 'v storage_world \<Rightarrow> bool" where
  "store_ready env s w \<longleftrightarrow> store_laws env \<and> coherent env w \<and> registered w s"

interpretation ext: durable_map "store_ready env s" "store_contents env s kind" "ext_get env s kind" "ext_set env s kind"
  for env :: "'v store_env" and s kind
proof unfold_locales
  fix w :: "'v storage_world" and m k v x
  assume "store_ready env s w"
  then have laws: "store_laws env" and inv: "coherent env w" and reg: "registered w s"
    by (simp_all add: store_ready_def)
  note get = runs_get [OF laws inv reg, unfolded runs_def, of kind k]
  note set = runs_set [OF laws inv reg, unfolded runs_def write_post_def, of kind k x]
  show "store_ready env s (snd (ext_set env s kind k x w))"
    using set laws reg by (auto simp: store_ready_def intro: registered_frame)
  assume "store_contents env s kind w = Some m"
  then obtain m0 where m0: "stored env s kind (sw_disk w) = Some m0" "m = bt_get m0"
    by (auto simp: store_contents_def)
  show "store_ready env s (snd (ext_get env s kind k w)) \<and>
      store_contents env s kind (snd (ext_get env s kind k w)) = Some m"
    using get m0 laws reg by (auto simp: store_ready_def store_contents_def intro: registered_frame)
  show "fst (ext_get env s kind k w) = Inr v \<Longrightarrow> v = m k"
    using get m0 by auto
  have "bt_get (bt_insert k x m0) = m(k \<mapsto> x)"
    using bt_get_insert [OF stored_wf [OF laws m0(1)]] m0(2) by (intro ext) simp
  then show "store_contents env s kind (snd (ext_set env s kind k x w)) = Some (m(k \<mapsto> x)) \<or>
      fst (ext_set env s kind k x w) \<noteq> Inr () \<and> store_contents env s kind (snd (ext_set env s kind k x w)) = Some m"
    using set m0 by (auto simp: store_contents_def)
qed

end
