(* ===== verification/Storage_Theorems.thy ===== *)
theory Storage_Theorems
  imports Storage_Sessions
begin

text \<open>
  The properties of the extension storage over every session, and its liveness: when no system call
  fails, an object that can be read can be changed.
\<close>

section \<open>Quiet runs\<close>

definition quiet_store :: "'v store_env \<Rightarrow> bool" where
  "quiet_store env \<longleftrightarrow> (\<forall>n. en_fault env n = None) \<and> (\<forall>k n p. en_seal env k n p \<noteq> None)"

lemma runs_both: "runs m P w \<Longrightarrow> runs m Q w \<Longrightarrow> runs m (\<lambda>r w1. P r w1 \<and> Q r w1) w"
  by (simp add: runs_conj)

lemma runs_ok_bindI:
  assumes "runs m (\<lambda>r w1. \<exists>x. r = Inr x \<and> P x w1) w" "\<And>x w1. P x w1 \<Longrightarrow> runs (f x) Q w1"
  shows "runs (sbind m f) Q w"
  by (rule runs_bindI [OF assms(1)]) (auto intro: assms(2))

lemma quiet_sys_call:
  assumes "quiet_store env"
  shows "runs (sys_call env err) (\<lambda>r w1. \<exists>x. r = Inr x \<and> advance w w1) w"
  using assms by (simp add: runs_def sys_call_def quiet_store_def advance_def same_memory_def)

lemma quiet_identity:
  assumes "quiet_store env" "sw_disk w path \<noteq> Some Special"
  shows "runs (file_identity env path) (\<lambda>r w1. \<exists>i. r = Inr i \<and> advance w w1 \<and> i = ident env path (sw_disk w path)) w"
  unfolding file_identity_def
  by (rule runs_ok_bindI [OF quiet_sys_call [OF assms(1)]])
    (use assms(2) in \<open>auto simp: runs_def advance_disk ident_def split: option.splits fs_node.splits\<close>)

lemma quiet_disk_read:
  assumes "quiet_store env" "sw_disk w path \<noteq> Some Special"
  shows "runs (read_optional env path) (\<lambda>r w1. \<exists>d. r = Inr d \<and> advance w w1 \<and>
     d = (case sw_disk w path of Some (Regular data _) \<Rightarrow> Some data | _ \<Rightarrow> None)) w"
  unfolding read_optional_def
proof (rule runs_ok_bindI [OF quiet_identity [OF assms]], goal_cases)
  case (1 i w1)
  then have a: "advance w w1" by blast
  show ?case
  proof (cases i)
    case None
    with 1 show ?thesis by (auto simp: ident_def split: option.splits fs_node.splits)
  next
    case (Some x)
    with 1 obtain data st where d: "sw_disk w path = Some (Regular data st)"
      by (auto simp: ident_def split: option.splits fs_node.splits)
    have "runs (sbind (sys_call env IoFailed) (\<lambda>_ w. case sw_disk w path of
        Some (Regular data _) \<Rightarrow> (Inr (Some data), w) | _ \<Rightarrow> (Inl (IoFailed ''not a regular file''), w)))
      (\<lambda>r w1. \<exists>d. r = Inr d \<and> advance w w1 \<and> d = Some data) w1"
      by (rule runs_ok_bindI [OF quiet_sys_call [OF assms(1)]])
        (use a d in \<open>auto simp: runs_def advance_disk intro: advance_trans\<close>)
    with Some d show ?thesis by simp
  qed
qed

lemma quiet_write:
  assumes q: "quiet_store env" and node: "sw_disk w path \<noteq> Some Special"
  shows "runs (atomic_write env path data) (\<lambda>r w1. \<exists>x. r = Inr x \<and> wrote path data w w1) w"
proof -
  have "fst (write_atomic env path data w1) = Inr ()" for w1
    using q by (simp add: write_atomic_def sbind_def sys_call_def quiet_store_def)
  then have "fst (atomic_write env path data w) = Inr ()"
    using quiet_identity [OF q node]
    by (auto simp: atomic_write_def sbind_def runs_def split: prod.splits)
  with runs_atomic_write [of env path data w] show ?thesis by (simp add: runs_def)
qed

lemma quiet_encrypt:
  assumes "quiet_store env" "store_laws env"
  shows "runs (encrypt env p key) (\<lambda>r w1. \<exists>c. r = Inr c \<and> advance w w1 \<and> decrypt env c key = Inr p) w"
proof -
  have "\<exists>c. fst (encrypt env p key w) = Inr c"
    using assms(1) unfolding quiet_store_def
    by (simp add: encrypt_def sbind_def sys_call_def Let_def split: option.splits)
      (metis fst_conv option.distinct(1) sret_def)
  with runs_encrypt [OF assms(2), of p key w] show ?thesis by (auto simp: runs_def)
qed

lemma quiet_salt:
  assumes q: "quiet_store env" and salt: "usable_salt s (sw_disk w) salt"
  shows "runs (legacy_credentials_key env s)
     (\<lambda>r w1. \<exists>k. r = Inr k \<and> advance w w1 \<and> k = en_sha256 env (as_bytes (es_extension_id s) @ salt)) w"
  unfolding legacy_credentials_key_def Let_def salt_path_def [symmetric]
  by (rule runs_ok_bindI [OF quiet_disk_read [OF q]])
    (use salt in \<open>auto simp: usable_salt_def\<close>)

lemma quiet_migrate_credentials:
  assumes q: "quiet_store env" and laws: "store_laws env" and key: "store_key env s Credentials = Inr key"
    and node: "sw_disk w (store_path s Credentials) = Some (Regular data stamp)"
    and locked: "decrypt env data key = Inl e" and m: "stored env s Credentials (sw_disk w) = Some m"
  shows "runs (migrate_credentials env s (store_path s Credentials) data key e)
     (\<lambda>r w1. \<exists>p. r = Inr p \<and> parse_object env p = Inr m) w"
proof -
  obtain salt where salt: "usable_salt s (sw_disk w) salt"
    using stored_through_salt(2) [where disk = "sw_disk w", OF key locked node] m by fastforce
  define legacy where "legacy = en_sha256 env (as_bytes (es_extension_id s) @ salt)"
  obtain p where p: "decrypt env data legacy = Inr p" "parse_object env p = Inr m"
    using stored_through_salt(1) [where disk = "sw_disk w", OF key locked node salt, folded legacy_def] m
    by (cases "decrypt env data legacy"; cases "parse_object env (projr (decrypt env data legacy))") auto
  show ?thesis
    unfolding migrate_credentials_def
  proof (rule runs_ok_bindI [OF quiet_salt [OF q salt]], goal_cases)
    case (1 k w1)
    then have k: "k = legacy" and a1: "advance w w1" by (simp_all add: legacy_def)
    have "runs (sbind (encrypt env p key) (\<lambda>c. sbind (atomic_write env (store_path s Credentials) c) (\<lambda>_. sret p)))
      (\<lambda>r w1. \<exists>p. r = Inr p \<and> parse_object env p = Inr m) w1"
    proof (rule runs_ok_bindI [OF quiet_encrypt [OF q laws]], goal_cases)
      case (1 c w2)
      then have "sw_disk w2 (store_path s Credentials) \<noteq> Some Special"
        using a1 node by (auto simp: advance_disk)
      from quiet_write [OF q this] show ?case by (rule runs_ok_bindI) (simp add: p(2))
    qed
    with k p show ?case by simp
  qed
qed

lemma quiet_migrate_settings:
  assumes q: "quiet_store env" and laws: "store_laws env" and key: "es_master_key s \<noteq> None"
    and none: "sw_disk w (store_path s Settings) = None" and m: "stored env s Settings (sw_disk w) = Some m"
  shows "runs (migrate_settings env s (store_path s Settings)) (\<lambda>r w1. \<exists>x. r = Inr x) w"
  unfolding migrate_settings_def Let_def legacy_path_def [symmetric]
proof (rule runs_ok_bindI [OF quiet_disk_read [OF q]], goal_cases)
  case 1
  then show ?case using none m by (auto simp: stored_def)
next
  case (2 data w1)
  show ?case
  proof (cases data)
    case (Some d)
    then have parsed: "parse_object env d = Inr m"
      using 2 none m
      by (auto simp: stored_def ok_def split: option.splits fs_node.splits sum.splits)
    obtain key' where key': "store_key env s Settings = Inr key'"
      using key by (auto simp: store_key_def)
    have "runs (sbind (encrypt env d key') (\<lambda>c. sbind (atomic_write env (store_path s Settings) c)
        (\<lambda>_. sbind (remove_file env (legacy_path s)) (\<lambda>_. sret m)))) (\<lambda>r w1. \<exists>x. r = Inr x) w1"
    proof (rule runs_ok_bindI [OF quiet_encrypt [OF q laws]], goal_cases)
      case (1 c w2)
      then have "sw_disk w2 (store_path s Settings) \<noteq> Some Special"
        using 2 none by (auto simp: advance_disk)
      from quiet_write [OF q this] show ?case
        by (rule runs_ok_bindI) (use q in \<open>simp add: runs_def remove_file_def sbind_def sys_call_def quiet_store_def sret_def\<close>)
    qed
    with Some parsed key' show ?thesis by simp
  qed simp
qed

lemma quiet_load:
  assumes q: "quiet_store env" and laws: "store_laws env" and key: "es_master_key s \<noteq> None"
    and m: "stored env s kind (sw_disk w) = Some m"
  shows "runs (load_snapshot env s kind (store_path s kind)) (\<lambda>r w1. \<exists>x. r = Inr x) w"
  unfolding load_snapshot_def
proof (rule runs_ok_bindI [OF quiet_disk_read [OF q]], goal_cases)
  case 1
  then show ?case using m by (auto simp: stored_def)
next
  case (2 data w1)
  then have d: "sw_disk w1 = sw_disk w" by (auto simp: advance_disk)
  obtain k where k: "store_key env s kind = Inr k" using key by (auto simp: store_key_def)
  show ?case
  proof (cases data)
    case None
    then have "sw_disk w (store_path s kind) = None"
      using 2 m by (auto simp: stored_def split: option.splits fs_node.splits)
    with quiet_migrate_settings [OF q laws key, of w1 m] None d m show ?thesis by auto
  next
    case (Some x)
    then obtain st where x: "sw_disk w (store_path s kind) = Some (Regular x st)"
      using 2 by (auto split: option.splits fs_node.splits)
    show ?thesis
    proof (cases "kind = Storage")
      case True
      with m x Some show ?thesis by (auto simp: stored_def ok_def split: sum.splits)
    next
      case False
      show ?thesis
      proof (cases "decrypt env x k")
        case (Inr p)
        with m x k False Some show ?thesis
          by (auto simp: stored_def load_encrypted_def ok_def split: sum.splits)
      next
        case (Inl e)
        with m x k False have kind: "kind = Credentials"
          by (auto simp: stored_def split: option.splits fs_node.splits if_splits)
        have "runs (sbind (migrate_credentials env s (store_path s kind) x k e) (\<lambda>p. slift (parse_object env p)))
          (\<lambda>r w1. \<exists>x. r = Inr x) w1"
          unfolding kind
          by (rule runs_ok_bindI [OF quiet_migrate_credentials [OF q laws _ _ Inl]])
            (use k kind x d m in auto)
        with Inl k kind Some show ?thesis by (simp add: load_encrypted_def)
      qed
    qed
  qed
qed

lemma quiet_refresh:
  assumes q: "quiet_store env" and laws: "store_laws env" and key: "es_master_key s \<noteq> None"
    and m: "stored env s kind (sw_disk w) = Some m"
  shows "runs (refresh env s kind) (\<lambda>r w1. \<exists>x. r = Inr x) w"
  unfolding refresh_def Let_def
proof (rule runs_ok_bindI [OF quiet_identity [OF q]], goal_cases)
  case 1
  then show ?case using m by (auto simp: stored_def)
next
  case (2 i w1)
  then have d: "sw_disk w1 = sw_disk w" by (simp add: advance_disk)
  have "runs (load_snapshot env s kind (store_path s kind)) (\<lambda>r w2. \<exists>x. r = Inr x \<and> direct env s kind (sw_disk w2) x) w1"
    using runs_both [OF runs_load_snapshot [OF laws] quiet_load [OF q laws key, of kind w1 m]] m d
    by (auto simp: load_post_def elim: runs_mono)
  then have "runs (sbind (load_snapshot env s kind (store_path s kind)) (\<lambda>m. sbind (file_identity env (store_path s kind))
      (\<lambda>i w. (Inr m, adopt (store_file s kind) m i (cache_tag env s kind) w)))) (\<lambda>r w1. \<exists>x. r = Inr x) w1"
  proof (rule runs_ok_bindI, goal_cases)
    case (1 x w2)
    then have "sw_disk w2 (store_path s kind) \<noteq> Some Special" by (auto simp: direct_def)
    from quiet_identity [OF q this] show ?case by (rule runs_ok_bindI) (simp add: runs_def)
  qed
  then show ?case by (simp add: runs_def)
qed

lemma quiet_persist:
  assumes q: "quiet_store env" and laws: "store_laws env" and key: "es_master_key s \<noteq> None"
    and data: "en_print env m = Inr data" and wf: "bt_wf m"
    and node: "sw_disk w (store_path s kind) \<noteq> Some Special"
  shows "runs (persist_snapshot env s kind m) (\<lambda>r w1. r = Inr ()) w"
proof -
  have "runs (write_snapshot env s kind data) (\<lambda>r w1. \<exists>x. r = Inr x) w"
  proof (cases "kind = Storage")
    case True
    with quiet_write [OF q node, of data] show ?thesis by (auto simp: write_snapshot_def elim: runs_mono)
  next
    case False
    obtain k where k: "store_key env s kind = Inr k" using key by (auto simp: store_key_def)
    have "runs (sbind (encrypt env data k) (\<lambda>c. atomic_write env (store_path s kind) c)) (\<lambda>r w1. \<exists>x. r = Inr x) w"
      by (rule runs_ok_bindI [OF quiet_encrypt [OF q laws]], rule runs_mono [OF quiet_write [OF q]])
        (use node in \<open>auto simp: advance_disk\<close>)
    with False k show ?thesis by (simp add: write_snapshot_def)
  qed
  then have "runs (write_snapshot env s kind data) (\<lambda>r w1. \<exists>x. r = Inr x \<and> direct env s kind (sw_disk w1) m) w"
    using runs_write_snapshot [OF laws wf data, of s kind w]
    by (auto simp: runs_def)
  then have "runs (sbind (write_snapshot env s kind data) (\<lambda>_. sbind (file_identity env (store_path s kind)) (\<lambda>i w.
      (Inr (), adopt (store_file s kind) m i (cache_tag env s kind) w)))) (\<lambda>r w1. r = Inr ()) w"
  proof (rule runs_ok_bindI, goal_cases)
    case (1 x w1)
    then have "sw_disk w1 (store_path s kind) \<noteq> Some Special" by (auto simp: direct_def)
    from quiet_identity [OF q this] show ?case by (rule runs_ok_bindI) (simp add: runs_def)
  qed
  with data show ?thesis by (simp add: persist_snapshot_def)
qed

lemma quiet_set:
  assumes q: "quiet_store env" and laws: "store_laws env" and key: "es_master_key s \<noteq> None"
    and inv: "coherent env w" "registered w s" and open': "\<not> es_closed s"
    and m: "stored env s kind (sw_disk w) = Some m" and data: "en_print env (bt_insert k v m) = Inr data"
  shows "runs (ext_set env s kind k v) (\<lambda>r w1. r = Inr ()) w"
proof -
  have "runs (refresh env s kind) (\<lambda>r w1. \<exists>x. r = Inr x \<and> x = m \<and> direct env s kind (sw_disk w1) m) w"
  proof (rule runs_mono [OF runs_both [OF runs_refresh [OF laws inv, of kind] quiet_refresh [OF q laws key m]]], goal_cases)
    case (1 r w1)
    then obtain x where x: "r = Inr x" "direct env s kind (sw_disk w1) x"
      "stored env s kind (sw_disk w1) = Some m" using m by (auto simp: read_post_def)
    with direct_stored [OF x(2)] show ?case by simp
  qed
  then have "runs (sbind (refresh env s kind) (\<lambda>m. persist_snapshot env s kind (bt_insert k v m))) (\<lambda>r w1. r = Inr ()) w"
  proof (rule runs_ok_bindI, goal_cases)
    case (1 x w1)
    then have "sw_disk w1 (store_path s kind) \<noteq> Some Special" "bt_wf x"
      using direct_wf [OF laws] by (auto simp: direct_def)
    then show ?case using 1 data by (intro quiet_persist [OF q laws key]) auto
  qed
  with open' show ?thesis by (simp add: ext_set_def mutate_def access_def)
qed

section \<open>Properties\<close>

definition same_owner :: "extension_store \<Rightarrow> extension_store \<Rightarrow> bool" where
  "same_owner s s' \<longleftrightarrow>
     es_directory s = es_directory s' \<and> es_extension_id s = es_extension_id s' \<and> es_master_key s = es_master_key s'"

lemma stored_same_owner: "same_owner s s' \<Longrightarrow> stored env s' kind disk = stored env s kind disk"
  unfolding stored_def same_owner_def store_path_def salt_path_def legacy_path_def store_key_def
  by (elim conjE) (simp only:)

lemma closed_store_refuses:
  "ext_get env (ext_close s) kind k w = (Inl StorageClosed, w)"
  "ext_all env (ext_close s) kind w = (Inl StorageClosed, w)"
  "mutate env (ext_close s) kind change w = (Inl StorageClosed, w)"
  by (simp_all add: ext_get_def ext_all_def mutate_def access_def ext_close_def sbind_def sfail_def)

text \<open>
  C7. The storage refines the object on disk. In every session of handles, with failing calls, older file formats
  and other programs replacing or removing files between the operations, a successful read of a key answers what
  the object on disk binds it to, and the read leaves that object as it was, also when it migrates the file. This
  stands on the conditions that the caching scheme itself has (\<open>store_laws\<close>): versions of one file differ in
  modification time or inode, so that a foreign change can be seen at all, and SHA-256 tells the derived keys
  apart. Changes by other programs while an operation runs are not covered: \<open>refresh\<close> takes the identity after it
  has read the file, so a change in between is kept as current until the file changes again.
\<close>

theorem storage_answers_from_disk:
  assumes "store_laws env" "older n disk" "reachable_from (storage_step env) (system_start disk n) y"
    and "s \<in> set (sy_stores y)" "ext_get env s kind k (sy_world y) = (Inr v, w1)"
  shows "\<exists>m. stored env s kind (sw_disk w1) = Some m \<and> v = bt_get m k \<and>
     (\<forall>m0. stored env s kind (sw_disk (sy_world y)) = Some m0 \<longrightarrow> m0 = m)"
proof -
  have inv: "system_ok env y" by (rule sessions_ok [OF assms(1-3)])
  then have "coherent env (sy_world y)" by (simp add: system_ok_def)
  from runsD [OF runs_get [OF assms(1) this system_ok_registered [OF inv assms(4)]] assms(5)]
  show ?thesis by auto
qed

text \<open>
  C8. A write is whole. Whatever fails, setting a key leaves the object on disk as it was or with exactly
  that key changed, the latter whenever the call succeeds; the objects of the other kinds and of other
  directories are untouched.
\<close>

theorem storage_writes_are_whole:
  assumes "store_laws env" "older n disk" "reachable_from (storage_step env) (system_start disk n) y"
    and "s \<in> set (sy_stores y)" "stored env s kind (sw_disk (sy_world y)) = Some m"
    and "ext_set env s kind k v (sy_world y) = (r, w1)"
  shows "(stored env s kind (sw_disk w1) = Some (bt_insert k v m) \<or>
        r \<noteq> Inr () \<and> stored env s kind (sw_disk w1) = Some m) \<and>
     (\<forall>s' kind'. (es_directory s', kind') \<noteq> (es_directory s, kind) \<longrightarrow>
        stored env s' kind' (sw_disk w1) = stored env s' kind' (sw_disk (sy_world y)))"
proof (intro conjI allI impI)
  have inv: "system_ok env y" by (rule sessions_ok [OF assms(1-3)])
  then have "coherent env (sy_world y)" by (simp add: system_ok_def)
  from runsD [OF runs_set [OF assms(1) this system_ok_registered [OF inv assms(4)]] assms(6)]
  have post: "write_post env s kind (bt_insert k v) (sy_world y) r w1" .
  then show "stored env s kind (sw_disk w1) = Some (bt_insert k v m) \<or>
       r \<noteq> Inr () \<and> stored env s kind (sw_disk w1) = Some m"
    using assms(5) by (auto simp: write_post_def)
  fix s' :: extension_store and kind'
  assume other: "(es_directory s', kind') \<noteq> (es_directory s, kind)"
  show "stored env s' kind' (sw_disk w1) = stored env s' kind' (sw_disk (sy_world y))"
    using owned_disjoint [OF other] post by (intro stored_cong) (auto simp: write_post_def op_frame_def)
qed

text \<open>
  A handle reads what any handle of the same extension wrote. After a successful write through one
  handle, a successful read through a handle of the same directory, extension and master key gives the
  written value for that key and the old one for every other key.
\<close>

theorem storage_reads_its_writes:
  assumes "store_laws env" "older n disk" "reachable_from (storage_step env) (system_start disk n) y"
    and "s \<in> set (sy_stores y)" "s' \<in> set (sy_stores y)" "same_owner s s'"
    and "stored env s kind (sw_disk (sy_world y)) = Some m"
    and "ext_set env s kind k v (sy_world y) = (Inr (), w1)" "ext_get env s' kind k' w1 = (Inr x, w2)"
  shows "x = (if k' = k then Some v else bt_get m k')"
proof -
  have inv: "system_ok env y" by (rule sessions_ok [OF assms(1-3)])
  then have c: "coherent env (sy_world y)" by (simp add: system_ok_def)
  note reg = system_ok_registered [OF inv]
  have "write_post env s kind (bt_insert k v) (sy_world y) (Inr ()) w1"
    by (rule runsD [OF runs_set [OF assms(1) c reg [OF assms(4)]] assms(8)])
  then have "store_ready env s' w1" "stored env s' kind (sw_disk w1) = Some (bt_insert k v m)"
    using assms(1,7) registered_frame [OF _ reg [OF assms(5)]]
    by (auto simp: write_post_def store_ready_def stored_same_owner [OF assms(6)])
  with ext.read_value [of env s' w1 kind "bt_get (bt_insert k v m)" k' x] assms(9)
  show ?thesis by (simp add: store_contents_def bt_get_insert [OF stored_wf [OF assms(1,7)]])
qed

text \<open>
  C9. When no system call fails and the platform has supplied the master key, an object that can be read
  can be changed: setting a key through an open handle returns, also over a file of an older format.
\<close>

theorem storage_set_succeeds:
  assumes "store_laws env" "quiet_store env" "older n disk"
    and "reachable_from (storage_step env) (system_start disk n) y"
    and "s \<in> set (sy_stores y)" "\<not> es_closed s" "es_master_key s \<noteq> None"
    and "stored env s kind (sw_disk (sy_world y)) = Some m" "en_print env (bt_insert k v m) = Inr data"
  shows "\<exists>w1. ext_set env s kind k v (sy_world y) = (Inr (), w1) \<and>
     stored env s kind (sw_disk w1) = Some (bt_insert k v m)"
proof -
  have inv: "system_ok env y" by (rule sessions_ok [OF assms(1,3,4)])
  then have c: "coherent env (sy_world y)" by (simp add: system_ok_def)
  note reg = system_ok_registered [OF inv assms(5)]
  obtain r w1 where w1: "ext_set env s kind k v (sy_world y) = (r, w1)" by force
  have "r = Inr ()"
    by (rule runsD [OF quiet_set [OF assms(2,1,7) c reg assms(6,8,9)] w1])
  moreover have "write_post env s kind (bt_insert k v) (sy_world y) r w1"
    by (rule runsD [OF runs_set [OF assms(1) c reg] w1])
  ultimately show ?thesis using w1 assms(8) by (auto simp: write_post_def)
qed

section \<open>A session\<close>

text \<open>
  An extension with settings in the old plain file, opened twice. The ciphers and the JSON codec of the
  sample are the simplest that satisfy the laws.
\<close>

definition sample_store_env :: "bool store_env" where
  "sample_store_env =
     \<lparr>en_fault = (\<lambda>_. None), en_modified = (\<lambda>_ _. None), en_inode = (\<lambda>_ n. n), en_random = (\<lambda>_ _. 7),
      en_canonical = (\<lambda>d. d), en_base64 = (\<lambda>_. None), en_hmac = (\<lambda>_ _. replicate 32 9), en_sha256 = (\<lambda>x. x),
      en_seal = (\<lambda>_ _ p. Some p), en_unseal = (\<lambda>_ _ c. Some c),
      en_parse = (\<lambda>d. if d = [0] then Inr (JsonObject []) else if d = [1] then Inr (JsonObject [(''k'', True)])
                      else Inl ''bad''),
      en_print = (\<lambda>m. if m = [] then Inr [0] else if m = [(''k'', True)] then Inr [1] else Inl ''too large'')\<rparr>"

definition sample_disk :: "string \<Rightarrow> fs_node option" where
  "sample_disk p = (if p = ''d/settings.json'' then Some (Regular [0] 0) else None)"

lemma sample_laws: "store_laws sample_store_env" "quiet_store sample_store_env" "older 1 sample_disk"
  by (auto simp: store_laws_def quiet_store_def older_def sample_store_env_def sample_disk_def inj_def bt_wf_Cons
      split: if_splits)

definition sample_open :: "bool storage_system \<Rightarrow> bool storage_system" where
  "sample_open y =
     (case ext_open sample_store_env ''d'' ''ext'' (Some (replicate 32 1)) (sy_world y) of
        (r, w1) \<Rightarrow> \<lparr>sy_world = w1, sy_stores = (case r of Inl _ \<Rightarrow> [] | Inr s \<Rightarrow> [s]) @ sy_stores y\<rparr>)"

definition sample_session :: "bool storage_system" where
  "sample_session = sample_open (sample_open (system_start sample_disk 1))"

lemma sample_open_step: "storage_step sample_store_env y (sample_open y)"
  by (cases "ext_open sample_store_env ''d'' ''ext'' (Some (replicate 32 1)) (sy_world y)")
    (auto simp: sample_open_def intro: step_open)

lemma sample_reachable:
  "reachable_from (storage_step sample_store_env) (system_start sample_disk 1) sample_session"
  unfolding sample_session_def by (rule reach_step, rule reach_step) (rule reach_start sample_open_step)+

definition sample_handle :: extension_store where
  "sample_handle = \<lparr>es_directory = ''d'', es_extension_id = ''ext'', es_master_key = Some (replicate 32 1),
     es_storage = 0, es_credentials = 1, es_settings = 2, es_salt = 3, es_closed = False\<rparr>"

lemma sample_stores: "sy_stores sample_session = [sample_handle, sample_handle]"
  by code_simp


abbreviation sample_world :: "bool storage_world" where
  "sample_world \<equiv> sy_world sample_session"

abbreviation sample_set :: "(store_error, unit) result \<times> bool storage_world" where
  "sample_set \<equiv> ext_set sample_store_env sample_handle Settings ''k'' True sample_world"

lemma sample_stored: "stored sample_store_env sample_handle Settings (sw_disk sample_world) = Some []"
  by code_simp

lemma sample_get: "fst (ext_get sample_store_env sample_handle Settings ''k'' sample_world) = Inr None"
  by code_simp

lemma sample_set_ok: "fst sample_set = Inr ()"
  by code_simp

lemma sample_get_again: "fst (ext_get sample_store_env sample_handle Settings ''k'' (snd sample_set)) = Inr (Some True)"
  by code_simp

theorem storage_answers_from_disk_witness:
  "\<exists>m. stored sample_store_env sample_handle Settings
       (sw_disk (snd (ext_get sample_store_env sample_handle Settings ''k'' sample_world))) = Some m \<and>
     None = bt_get m ''k''"
  using storage_answers_from_disk [OF sample_laws(1,3) sample_reachable,
      of sample_handle Settings "''k''" None "snd (ext_get sample_store_env sample_handle Settings ''k'' sample_world)"]
    sample_get prod.collapse [of "ext_get sample_store_env sample_handle Settings ''k'' sample_world"]
  unfolding sample_stores by (metis list.set_intros(1))

theorem storage_writes_are_whole_witness:
  "stored sample_store_env sample_handle Settings (sw_disk (snd sample_set)) = Some [(''k'', True)] \<and>
   stored sample_store_env sample_handle Storage (sw_disk (snd sample_set)) =
   stored sample_store_env sample_handle Storage (sw_disk sample_world)"
proof -
  have eq: "sample_set = (Inr (), snd sample_set)"
    using sample_set_ok by (metis prod.collapse)
  have mem: "sample_handle \<in> set (sy_stores sample_session)" by (simp add: sample_stores)
  have "bt_insert ''k'' True [] = [(''k'', True)]" by simp
  moreover have "(es_directory sample_handle, Storage) \<noteq> (es_directory sample_handle, Settings)" by simp
  ultimately show ?thesis
    using storage_writes_are_whole [OF sample_laws(1,3) sample_reachable mem sample_stored eq] by simp
qed

theorem storage_reads_its_writes_witness:
  "fst (ext_get sample_store_env sample_handle Settings ''k'' (snd sample_set)) = Inr (Some True) \<and>
   Some True = (if ''k'' = ''k'' then Some True else bt_get [] ''k'')"
proof -
  have eq: "sample_set = (Inr (), snd sample_set)"
    using sample_set_ok by (metis prod.collapse)
  have mem: "sample_handle \<in> set (sy_stores sample_session)" by (simp add: sample_stores)
  have get: "ext_get sample_store_env sample_handle Settings ''k'' (snd sample_set) =
      (Inr (Some True), snd (ext_get sample_store_env sample_handle Settings ''k'' (snd sample_set)))"
    using sample_get_again by (metis prod.collapse)
  have "same_owner sample_handle sample_handle" by (simp add: same_owner_def)
  from storage_reads_its_writes [OF sample_laws(1,3) sample_reachable mem mem this sample_stored eq get]
  show ?thesis using sample_get_again by blast
qed

theorem storage_set_succeeds_witness:
  "\<exists>w1. ext_set sample_store_env sample_handle Settings ''k'' True sample_world = (Inr (), w1) \<and>
     stored sample_store_env sample_handle Settings (sw_disk w1) = Some [(''k'', True)]"
proof -
  have mem: "sample_handle \<in> set (sy_stores sample_session)" by (simp add: sample_stores)
  have h: "\<not> es_closed sample_handle" "es_master_key sample_handle \<noteq> None"
    and p: "en_print sample_store_env (bt_insert ''k'' True []) = Inr [1]"
    by (simp_all add: sample_handle_def sample_store_env_def)
  from storage_set_succeeds [OF sample_laws sample_reachable mem h sample_stored p]
  show ?thesis by simp
qed

end
