(* ===== verification/Unix_Path.thy ===== *)
theory Unix_Path
  imports Rust_Text
begin

text \<open>
  Paths as the standard library reads them on Unix, and their lexical cleaning
  (\<open>crates/core/src/fs.rs clean\<close>). A path that the code puts together from components is the list of
  its components; \<open>render\<close> is its text. \<open>lexical\<close> is the meaning that cleaning must keep: where the path
  leads from a directory when no component is a link.
\<close>

section \<open>Components\<close>

datatype path_component = RootDir | CurDir | ParentDir | Normal string

type_synonym path = "path_component list"

definition named_components :: "string list \<Rightarrow> path" where
  "named_components pieces =
     concat (map (\<lambda>s. if s = [] \<or> s = ''.'' then [] else if s = ''..'' then [ParentDir] else [Normal s]) pieces)"

text \<open>
  \<open>Path::components\<close>: repeated and trailing separators are ignored, and a dot is a component only at the
  start of a relative path.
\<close>

definition components :: "string \<Rightarrow> path" where
  "components p =
     (let pieces = split_char (CHR ''/'') p in
      if p \<noteq> [] \<and> hd p = CHR ''/'' then RootDir # named_components pieces
      else if hd pieces = ''.'' then CurDir # named_components (tl pieces)
      else named_components pieces)"

definition component_text :: "path_component \<Rightarrow> string" where
  "component_text c = (case c of RootDir \<Rightarrow> ''/'' | CurDir \<Rightarrow> ''.'' | ParentDir \<Rightarrow> ''..'' | Normal s \<Rightarrow> s)"

definition render :: "path \<Rightarrow> string" where
  "render cs =
     (case cs of
        RootDir # rest \<Rightarrow> ''/'' @ join_char (CHR ''/'') (map component_text rest)
      | _ \<Rightarrow> join_char (CHR ''/'') (map component_text cs))"

definition has_root :: "path \<Rightarrow> bool" where
  "has_root cs \<longleftrightarrow> cs \<noteq> [] \<and> hd cs = RootDir"

text \<open>\<open>Path::starts_with\<close> and \<open>Path::strip_prefix\<close> compare components.\<close>

fun strip_root :: "path \<Rightarrow> path \<Rightarrow> path option" where
  "strip_root [] cs = Some cs"
| "strip_root (r # rs) [] = None"
| "strip_root (r # rs) (c # cs) = (if r = c then strip_root rs cs else None)"

definition is_normal :: "path_component \<Rightarrow> bool" where
  "is_normal c \<longleftrightarrow> (case c of Normal _ \<Rightarrow> True | _ \<Rightarrow> False)"

definition file_name :: "path \<Rightarrow> string option" where
  "file_name cs = (if cs = [] then None else case last cs of Normal s \<Rightarrow> Some s | _ \<Rightarrow> None)"

section \<open>Cleaning\<close>

definition clean_step :: "path_component \<Rightarrow> path \<Rightarrow> path" where
  "clean_step c result =
     (case c of
        CurDir \<Rightarrow> result
      | ParentDir \<Rightarrow>
          if file_name result \<noteq> None then butlast result
          else if \<not> has_root result then result @ [ParentDir]
          else result
      | RootDir \<Rightarrow> [RootDir]
      | Normal s \<Rightarrow> result @ [Normal s])"

definition clean :: "path \<Rightarrow> path" where
  "clean cs = (let result = fold clean_step cs [] in if result = [] then [CurDir] else result)"

section \<open>Where a path leads\<close>

definition lexical_step :: "path_component \<Rightarrow> string list \<Rightarrow> string list" where
  "lexical_step c dir =
     (case c of RootDir \<Rightarrow> [] | CurDir \<Rightarrow> dir | ParentDir \<Rightarrow> butlast dir | Normal s \<Rightarrow> dir @ [s])"

definition lexical :: "string list \<Rightarrow> path \<Rightarrow> string list" where
  "lexical dir cs = fold lexical_step cs dir"

lemma lexical_append: "lexical dir (cs @ ds) = lexical (lexical dir cs) ds"
  by (simp add: lexical_def)

lemma lexical_normals [simp]: "lexical dir (map Normal ns) = dir @ ns"
  by (induction ns arbitrary: dir) (simp_all add: lexical_def lexical_step_def)

lemma lexical_absolute: "lexical dir (RootDir # cs) = lexical [] cs"
  by (simp add: lexical_def lexical_step_def)

text \<open>The results of cleaning: a dot, an absolute path of names, or leading parents and then names.\<close>

definition cleaning :: "path \<Rightarrow> bool" where
  "cleaning cs \<longleftrightarrow> (\<exists>ns. cs = RootDir # map Normal ns) \<or> (\<exists>n ns. cs = replicate n ParentDir @ map Normal ns)"

lemma cleaning_snoc: "cleaning cs \<Longrightarrow> cleaning (cs @ [Normal s])"
  unfolding cleaning_def
proof (elim disjE exE)
  fix ns assume "cs = RootDir # map Normal ns"
  then have "cs @ [Normal s] = RootDir # map Normal (ns @ [s])" by simp
  then show "(\<exists>ns. cs @ [Normal s] = RootDir # map Normal ns) \<or>
      (\<exists>n ns. cs @ [Normal s] = replicate n ParentDir @ map Normal ns)" by blast
next
  fix n ns assume "cs = replicate n ParentDir @ map Normal ns"
  then have "cs @ [Normal s] = replicate n ParentDir @ map Normal (ns @ [s])" by simp
  then show "(\<exists>ns. cs @ [Normal s] = RootDir # map Normal ns) \<or>
      (\<exists>n ns. cs @ [Normal s] = replicate n ParentDir @ map Normal ns)" by blast
qed

lemma file_name_snoc [simp]: "file_name (cs @ [Normal s]) = Some s"
  by (simp add: file_name_def)

lemma clean_step_parents: "clean_step ParentDir (replicate n ParentDir) = replicate (Suc n) ParentDir"
  by (cases n) (simp_all add: clean_step_def file_name_def has_root_def replicate_append_same)

lemma clean_step_parent_name: "clean_step ParentDir (rest @ [Normal s]) = rest"
  by (simp add: clean_step_def)

lemma clean_step_parent:
  assumes "cleaning cs"
  shows "(\<exists>rest s. cs = rest @ [Normal s] \<and> clean_step ParentDir cs = rest \<and> cleaning rest) \<or>
     cs = [RootDir] \<and> clean_step ParentDir cs = cs \<or>
     (\<exists>n. cs = replicate n ParentDir \<and> clean_step ParentDir cs = replicate (Suc n) ParentDir)"
proof -
  consider (abs) ns where "cs = RootDir # map Normal ns" | (rel) n ns where "cs = replicate n ParentDir @ map Normal ns"
    using assms unfolding cleaning_def by blast
  then show ?thesis
  proof cases
    case abs
    show ?thesis
    proof (cases ns rule: rev_cases)
      case Nil
      with abs show ?thesis by (simp add: clean_step_def file_name_def has_root_def)
    next
      case (snoc ms s)
      with abs have "cs = (RootDir # map Normal ms) @ [Normal s]" by simp
      with clean_step_parent_name show ?thesis unfolding cleaning_def by blast
    qed
  next
    case rel
    show ?thesis
    proof (cases ns rule: rev_cases)
      case Nil
      with rel clean_step_parents show ?thesis by (auto simp del: replicate_Suc)
    next
      case (snoc ms s)
      with rel have "cs = (replicate n ParentDir @ map Normal ms) @ [Normal s]" by simp
      with clean_step_parent_name show ?thesis unfolding cleaning_def by blast
    qed
  qed
qed

lemma cleaning_replicate: "cleaning (replicate n ParentDir)"
  unfolding cleaning_def by (rule disjI2) (metis append_Nil2 list.simps(8))

lemma clean_step_cleaning: "cleaning cs \<Longrightarrow> cleaning (clean_step c cs)"
proof (cases c)
  case RootDir
  then show ?thesis by (simp add: clean_step_def cleaning_def)
next
  case ParentDir
  assume "cleaning cs"
  from clean_step_parent [OF this] ParentDir \<open>cleaning cs\<close> show ?thesis
    by (auto simp del: replicate_Suc intro: cleaning_replicate)
qed (simp_all add: clean_step_def cleaning_snoc)

lemma clean_step_lexical:
  assumes "cleaning cs"
  shows "lexical dir (clean_step c cs) = lexical_step c (lexical dir cs)"
proof (cases c)
  case ParentDir
  from clean_step_parent [OF assms] show ?thesis
    unfolding ParentDir
  proof (elim disjE exE conjE)
    fix n assume "cs = replicate n ParentDir" "clean_step ParentDir cs = replicate (Suc n) ParentDir"
    then show "lexical dir (clean_step ParentDir cs) = lexical_step ParentDir (lexical dir cs)"
      by (simp add: lexical_def funpow_swap1)
  qed (auto simp: lexical_append, simp_all add: lexical_def lexical_step_def)
qed (simp_all add: clean_step_def lexical_append lexical_def lexical_step_def)

lemma clean_fold:
  assumes "cleaning acc"
  shows "cleaning (fold clean_step cs acc) \<and> lexical dir (fold clean_step cs acc) = lexical (lexical dir acc) cs"
  using assms
proof (induction cs arbitrary: acc)
  case (Cons c cs)
  from Cons.IH [OF clean_step_cleaning [OF Cons.prems, of c]] clean_step_lexical [OF Cons.prems, of dir c]
  show ?case by (simp add: lexical_def)
qed (simp add: lexical_def)

lemma cleaning_Nil [simp]: "cleaning []"
  using cleaning_replicate [of 0] by simp

lemma clean_lexical: "lexical dir (clean cs) = lexical dir cs"
  using clean_fold [OF cleaning_Nil, of cs dir]
  by (auto simp: clean_def Let_def) (simp_all add: lexical_def lexical_step_def)

lemma clean_cases: "clean cs = [CurDir] \<or> cleaning (clean cs) \<and> clean cs \<noteq> []"
  using clean_fold [OF cleaning_Nil, of cs] by (simp add: clean_def Let_def)

lemma has_root_components: "has_root (components p) \<longleftrightarrow> p \<noteq> [] \<and> hd p = CHR ''/''"
proof -
  have "\<not> has_root (named_components ws)" for ws
    by (induction ws) (auto simp: named_components_def has_root_def)
  then show ?thesis by (auto simp: components_def Let_def has_root_def)
qed

lemma rootless_named: "RootDir \<notin> set (named_components ws)"
  by (auto simp: named_components_def split: if_splits)

lemma rootless_components: "\<not> has_root (components p) \<Longrightarrow> RootDir \<notin> set (components p)"
  using rootless_named has_root_components [of p] by (auto simp: components_def Let_def)

lemma rooted_components: "has_root (components p) \<Longrightarrow> \<exists>cs. components p = RootDir # cs \<and> RootDir \<notin> set cs"
  using rootless_named by (simp add: has_root_components) (simp add: components_def Let_def)

lemma cleaning_rooted:
  assumes "has_root cs" "cleaning cs"
  obtains ns where "cs = RootDir # map Normal ns"
proof -
  have "\<not> has_root (replicate n ParentDir @ map Normal ns)" for n ns
    by (cases n; cases ns) (simp_all add: has_root_def)
  with assms that show thesis unfolding cleaning_def by blast
qed

lemma has_root_fold: "has_root acc \<Longrightarrow> cleaning acc \<Longrightarrow> has_root (fold clean_step cs acc)"
proof (induction cs arbitrary: acc)
  case (Cons c cs)
  have "has_root (clean_step c acc)"
  proof (cases c)
    case ParentDir
    obtain ns where "acc = RootDir # map Normal ns"
      using Cons.prems by (rule cleaning_rooted)
    then show ?thesis
      unfolding ParentDir by (cases ns rule: rev_cases) (auto simp: clean_step_def has_root_def file_name_def)
  qed (use Cons.prems in \<open>auto simp: clean_step_def has_root_def\<close>)
  with Cons.IH clean_step_cleaning [OF Cons.prems(2)] show ?case by simp
qed simp

lemma rootless_fold: "RootDir \<notin> set cs \<Longrightarrow> RootDir \<notin> set acc \<Longrightarrow> RootDir \<notin> set (fold clean_step cs acc)"
proof (induction cs arbitrary: acc)
  case (Cons c cs)
  have "RootDir \<notin> set (clean_step c acc)"
    using Cons.prems by (cases c) (auto simp: clean_step_def dest: in_set_butlastD)
  with Cons show ?case by simp
qed simp

text \<open>An absolute path is cleaned to the names of the place it leads to.\<close>

lemma clean_absolute:
  assumes "has_root cs"
  shows "clean cs = RootDir # map Normal (lexical dir cs)"
proof -
  obtain cs' where cs: "cs = RootDir # cs'" using assms by (cases cs) (auto simp: has_root_def)
  have "has_root (fold clean_step cs' [RootDir])"
    by (rule has_root_fold) (auto simp: has_root_def cleaning_def)
  moreover have "cleaning (fold clean_step cs' [RootDir])"
    using clean_fold [of "[RootDir]" cs'] by (auto simp: cleaning_def)
  ultimately obtain ns where ns: "fold clean_step cs' [RootDir] = RootDir # map Normal ns"
    by (rule cleaning_rooted)
  have "clean cs = RootDir # map Normal ns"
    using ns by (simp add: clean_def cs clean_step_def)
  moreover from this have "lexical dir cs = ns"
    using clean_lexical [of dir cs] by (simp add: lexical_absolute)
  ultimately show ?thesis by simp
qed

section \<open>Texts of cleaned paths\<close>

definition proper_name :: "string \<Rightarrow> bool" where
  "proper_name s \<longleftrightarrow> s \<noteq> [] \<and> s \<noteq> ''.'' \<and> s \<noteq> ''..'' \<and> CHR ''/'' \<notin> set s"

lemma named_proper: "Normal s \<in> set (named_components (split_char (CHR ''/'') p)) \<Longrightarrow> proper_name s"
  by (auto simp: named_components_def proper_name_def split: if_splits dest: split_by_no_sep)

lemma components_proper: "Normal s \<in> set (components p) \<Longrightarrow> proper_name s"
proof -
  have "set (named_components (tl ws)) \<subseteq> set (named_components ws)" for ws
    by (cases ws) (auto simp: named_components_def)
  then show "Normal s \<in> set (components p) \<Longrightarrow> proper_name s"
    using named_proper [of s p] by (auto simp: components_def Let_def split: if_splits)
qed

lemma clean_normals: "Normal s \<in> set (clean cs) \<Longrightarrow> Normal s \<in> set cs"
proof -
  have "Normal s \<in> set (fold clean_step cs acc) \<Longrightarrow> Normal s \<in> set acc \<or> Normal s \<in> set cs" for acc
  proof (induction cs arbitrary: acc)
    case (Cons c cs)
    then have "Normal s \<in> set (clean_step c acc) \<or> Normal s \<in> set cs" by simp
    moreover have "Normal s \<in> set (clean_step c acc) \<Longrightarrow> Normal s \<in> set acc \<or> c = Normal s"
      by (cases c) (auto simp: clean_step_def dest: in_set_butlastD split: if_splits)
    ultimately show ?case by auto
  qed simp
  from this [of "[]"] show "Normal s \<in> set (clean cs) \<Longrightarrow> Normal s \<in> set cs"
    by (auto simp: clean_def Let_def split: if_splits)
qed

definition plain_component :: "path_component \<Rightarrow> bool" where
  "plain_component c \<longleftrightarrow> c = ParentDir \<or> (\<exists>s. c = Normal s \<and> proper_name s)"

lemma plain_text:
  assumes "plain_component c"
  shows "CHR ''/'' \<notin> set (component_text c)" "component_text c \<noteq> []" "component_text c \<noteq> ''.''"
    "(if component_text c = ''..'' then [ParentDir] else [Normal (component_text c)]) = [c]"
  using assms by (cases c; simp add: plain_component_def component_text_def proper_name_def)+

lemma named_texts: "\<forall>c \<in> set cs. plain_component c \<Longrightarrow> named_components (map component_text cs) = cs"
  by (induction cs) (simp_all add: named_components_def plain_text)

lemma split_texts:
  assumes "\<forall>c \<in> set cs. plain_component c" "cs \<noteq> []"
  shows "split_char (CHR ''/'') (join_char (CHR ''/'') (map component_text cs)) = map component_text cs"
  using assms by (intro split_join_char) (simp_all add: plain_text)

lemma components_render_relative:
  assumes "\<forall>c \<in> set cs. plain_component c" "cs \<noteq> []"
  shows "components (render cs) = cs"
proof -
  obtain c ds where cs: "cs = c # ds" using assms(2) by (cases cs) auto
  define t where "t = join_char (CHR ''/'') (map component_text cs)"
  have split: "split_char (CHR ''/'') t = map component_text cs"
    unfolding t_def by (rule split_texts [OF assms])
  have "plain_component c" using assms(1) cs by simp
  note first = plain_text [OF this]
  have r: "render cs = t"
    using \<open>plain_component c\<close> by (cases c) (simp_all add: plain_component_def render_def cs t_def)
  have "hd (component_text c) \<noteq> CHR ''/''" using first(1,2) hd_in_set by metis
  then have "hd t \<noteq> CHR ''/''"
    using first(2) unfolding t_def cs by (cases ds) (simp_all add: join_char_Cons)
  then show ?thesis
    unfolding r components_def Let_def split
    using first(3) named_texts [OF assms(1)] by (simp add: cs)
qed

lemma components_render_absolute:
  assumes "\<forall>c \<in> set cs. plain_component c"
  shows "components (render (RootDir # cs)) = RootDir # cs"
proof (cases "cs = []")
  case True
  then show ?thesis by (simp add: render_def components_def named_components_def)
next
  case False
  have "named_components ([] # map component_text cs) = cs"
    using named_texts [OF assms] by (simp add: named_components_def)
  then show ?thesis
    using split_texts [OF assms False] by (simp add: render_def components_def)
qed

lemma components_render:
  assumes "cleaning cs \<or> cs = [CurDir]" "\<And>s. Normal s \<in> set cs \<Longrightarrow> proper_name s"
  shows "components (render cs) = cs"
proof (cases "cs = [CurDir] \<or> cs = []")
  case True
  then show ?thesis by (auto simp: render_def component_text_def components_def named_components_def)
next
  case False
  with assms(1) consider ns where "cs = RootDir # map Normal ns"
    | n ns where "cs = replicate n ParentDir @ map Normal ns" by (auto simp: cleaning_def)
  then show ?thesis
  proof cases
    case 1
    with assms(2) show ?thesis
      unfolding 1 by (intro components_render_absolute) (auto simp: plain_component_def)
  next
    case 2
    with assms(2) False show ?thesis
      by (intro components_render_relative) (auto simp: plain_component_def)
  qed
qed

end
