(* ===== verification/File_Grants.thy ===== *)
theory File_Grants
  imports Unix_Path "HOL-Library.Sublist" "HOL-Library.Multiset"
begin

text \<open>
  The file capabilities of extensions (\<open>crates/extensions/src/files.rs\<close>) on Unix: directories granted by
  the application, temporary grants that end when their owner is dropped, the sandbox of an extension,
  and the resolution of the paths that its script names. A \<open>Root\<close> is shared by reference counting, so
  roots are addresses with a count; a weak reference is an address that may have no owner left. The
  answers of the file system are the arguments of \<open>grant_env\<close>.
\<close>

section \<open>Roots and the registry\<close>

datatype node_kind = FileNode | DirNode | LinkNode | OtherNode

datatype 'a fs_answer = Found 'a | NotFound | Failed string

record grant_env =
  ge_cwd :: "(string, string) result"
  ge_mkdir :: "path \<Rightarrow> (string, unit) result"
  ge_open_dir :: "path \<Rightarrow> unit fs_answer"
  ge_canonical :: "path \<Rightarrow> (string, path) result"
  ge_lstat :: "path \<Rightarrow> path \<Rightarrow> node_kind fs_answer"

record file_registry =
  fr_allowed :: "nat list"
  fr_temporary :: "nat list"
  fr_roots :: "path list"
  fr_strong :: "nat list"

record extension_files =
  xf_root :: nat
  xf_alias :: "path option"

record file_path =
  fp_root :: nat
  fp_absolute :: string
  fp_relative :: path

text \<open>\<open>std::path::absolute\<close>.\<close>

definition absolute_path :: "grant_env \<Rightarrow> string \<Rightarrow> (string, path) result" where
  "absolute_path env p =
     (if p = [] then Inl ''cannot make an empty path absolute''
      else if has_root (components p) then Inr (components p)
      else try_bind (ge_cwd env) (\<lambda>cwd. Inr (components cwd @ components p)))"

definition clone_root :: "nat \<Rightarrow> file_registry \<Rightarrow> file_registry" where
  "clone_root a reg = reg\<lparr>fr_strong := (fr_strong reg)[a := Suc (fr_strong reg ! a)]\<rparr>"

definition release_root :: "nat \<Rightarrow> file_registry \<Rightarrow> file_registry" where
  "release_root a reg = reg\<lparr>fr_strong := (fr_strong reg)[a := fr_strong reg ! a - 1]\<rparr>"

definition dir_opened :: "unit fs_answer \<Rightarrow> (string, unit) result" where
  "dir_opened r = (case r of Found _ \<Rightarrow> Inr () | NotFound \<Rightarrow> Inl ''entity not found'' | Failed e \<Rightarrow> Inl e)"

definition root_open :: "grant_env \<Rightarrow> string \<Rightarrow> file_registry \<Rightarrow> (string, nat) result \<times> file_registry" where
  "root_open env p reg =
     (case try_bind (absolute_path env p) (\<lambda>cs.
        try_bind (ge_mkdir env (clean cs)) (\<lambda>_.
        try_bind (dir_opened (ge_open_dir env (clean cs))) (\<lambda>_. Inr (clean cs)))) of
        Inl e \<Rightarrow> (Inl e, reg)
      | Inr path \<Rightarrow>
          (Inr (length (fr_roots reg)),
           reg\<lparr>fr_roots := fr_roots reg @ [path], fr_strong := fr_strong reg @ [1]\<rparr>))"

text \<open>Opening stops at the first failure, and what was dir_opened before is dropped.\<close>

fun open_roots :: "grant_env \<Rightarrow> string list \<Rightarrow> nat list \<Rightarrow> file_registry \<Rightarrow> (string, nat list) result \<times> file_registry" where
  "open_roots env [] done' reg = (Inr done', reg)"
| "open_roots env (p # ps) done' reg =
     (case root_open env p reg of
        (Inl e, reg1) \<Rightarrow> (Inl e, fold release_root done' reg1)
      | (Inr a, reg1) \<Rightarrow> open_roots env ps (done' @ [a]) reg1)"

definition set_allowed_directories ::
  "grant_env \<Rightarrow> string list \<Rightarrow> file_registry \<Rightarrow> (string, unit) result \<times> file_registry" where
  "set_allowed_directories env paths reg =
     (case open_roots env paths [] reg of
        (Inl e, reg1) \<Rightarrow> (Inl e, reg1)
      | (Inr roots, reg1) \<Rightarrow> (Inr (), fold release_root (fr_allowed reg1) (reg1\<lparr>fr_allowed := roots\<rparr>)))"

definition grant_temporary_directory ::
  "grant_env \<Rightarrow> string \<Rightarrow> file_registry \<Rightarrow> (string, nat) result \<times> file_registry" where
  "grant_temporary_directory env p reg =
     (case root_open env p reg of
        (Inl e, reg1) \<Rightarrow> (Inl e, reg1)
      | (Inr a, reg1) \<Rightarrow>
          (Inr a, reg1\<lparr>fr_temporary := filter (\<lambda>b. fr_strong reg1 ! b \<noteq> 0) (fr_temporary reg1) @ [a]\<rparr>))"

definition drop_grant :: "nat \<Rightarrow> file_registry \<Rightarrow> file_registry" where
  "drop_grant a reg =
     release_root a (reg\<lparr>fr_temporary := filter (\<lambda>b. b \<noteq> a) (fr_temporary reg)\<rparr>)"

definition extension_with_alias ::
  "grant_env \<Rightarrow> string \<Rightarrow> string \<Rightarrow> file_registry \<Rightarrow> (string, extension_files) result \<times> file_registry" where
  "extension_with_alias env directory alias reg =
     (case root_open env directory reg of
        (Inl e, reg1) \<Rightarrow> (Inl e, reg1)
      | (Inr a, reg1) \<Rightarrow>
          (let path = fr_roots reg1 ! a in
           case try_bind (absolute_path env alias) (\<lambda>cs.
             let al = clean cs in
             if al = path then Inr None
             else try_bind (ge_canonical env al) (\<lambda>x.
                  try_bind (ge_canonical env path) (\<lambda>y.
                    if x = y then Inr (Some al)
                    else Inl ''sandbox alias refers to a different directory''))) of
             Inl e \<Rightarrow> (Inl e, release_root a reg1)
           | Inr al \<Rightarrow> (Inr \<lparr>xf_root = a, xf_alias = al\<rparr>, reg1)))"

section \<open>Resolving\<close>

definition granted_root :: "path \<Rightarrow> file_registry \<Rightarrow> nat option" where
  "granted_root input reg =
     (case List.find (\<lambda>a. strip_root (fr_roots reg ! a) input \<noteq> None) (fr_allowed reg) of
        Some a \<Rightarrow> Some a
      | None \<Rightarrow>
          List.find (\<lambda>a. strip_root (fr_roots reg ! a) input \<noteq> None)
            (filter (\<lambda>a. fr_strong reg ! a > 0) (fr_temporary reg)))"

definition resolve_root :: "extension_files \<Rightarrow> string \<Rightarrow> file_registry \<Rightarrow> (string, nat \<times> path) result" where
  "resolve_root xf p reg =
     (let input = clean (components p) in
      if has_root input then
        try_bind (ok_or ''file access denied: absolute paths are not allowed. Use relative paths within extension sandbox''
          (granted_root input reg)) (\<lambda>a. Inr (a, input))
      else
        (let absolute = clean (fr_roots reg ! xf_root xf @ input) in
         if strip_root (fr_roots reg ! xf_root xf) absolute = None
         then Inl (''file access denied: path '' @ [CHR 0x27] @ p @ [CHR 0x27] @ '' is outside sandbox'')
         else Inr (xf_root xf, absolute)))"

definition resolve :: "extension_files \<Rightarrow> string \<Rightarrow> file_registry \<Rightarrow> (string, file_path) result \<times> file_registry" where
  "resolve xf p reg =
     (case resolve_root xf p reg of
        Inl e \<Rightarrow> (Inl e, reg)
      | Inr (a, absolute) \<Rightarrow>
          (case strip_root (fr_roots reg ! a) absolute of
             None \<Rightarrow> (Inl ''validated file root'', reg)
           | Some relative \<Rightarrow>
               (Inr \<lparr>fp_root = a, fp_absolute = render absolute,
                     fp_relative = (if relative = [] then [CurDir] else relative)\<rparr>,
                clone_root a reg)))"

definition same_directory :: "grant_env \<Rightarrow> path \<Rightarrow> path \<Rightarrow> bool" where
  "same_directory env p q \<longleftrightarrow>
     (case ge_canonical env p of
        Inl _ \<Rightarrow> False
      | Inr x \<Rightarrow> (case ge_canonical env q of Inl _ \<Rightarrow> False | Inr y \<Rightarrow> x = y))"

fun legacy_relative :: "grant_env \<Rightarrow> path \<Rightarrow> path \<Rightarrow> path list \<Rightarrow> (string, path option) result" where
  "legacy_relative env own p [] = Inr None"
| "legacy_relative env own p (root # roots) =
     (case strip_root root p of
        None \<Rightarrow> legacy_relative env own p roots
      | Some relative \<Rightarrow>
          if root \<noteq> own \<and> \<not> same_directory env root own
          then Inl ''file access denied: sandbox alias refers to a different directory''
          else Inr (Some relative))"

definition with_absolute :: "string \<Rightarrow> (string, file_path) result \<times> file_registry \<Rightarrow> (string, file_path) result \<times> file_registry" where
  "with_absolute text r = (try_bind (fst r) (\<lambda>fp. Inr (fp\<lparr>fp_absolute := text\<rparr>)), snd r)"

definition resolve_legacy ::
  "grant_env \<Rightarrow> extension_files \<Rightarrow> string \<Rightarrow> file_registry \<Rightarrow> (string, file_path) result \<times> file_registry" where
  "resolve_legacy env xf text reg =
     (let p = clean (components text); own = fr_roots reg ! xf_root xf in
      case (if has_root p
            then legacy_relative env own p (own # (case xf_alias xf of None \<Rightarrow> [] | Some al \<Rightarrow> [al]))
            else Inr None) of
        Inl e \<Rightarrow> (Inl e, reg)
      | Inr (Some relative) \<Rightarrow> with_absolute text (resolve xf (render relative) reg)
      | Inr None \<Rightarrow>
          (if has_root (components text) then with_absolute text (resolve xf (render p) reg)
           else resolve xf (render p) reg))"

section \<open>Paths handed to native code\<close>

fun native_walk :: "(path \<Rightarrow> node_kind fs_answer) \<Rightarrow> path \<Rightarrow> path \<Rightarrow> (string, unit) result" where
  "native_walk lstat seen [] = Inr ()"
| "native_walk lstat seen (c # cs) =
     (case lstat (seen @ [c]) of
        Found kind \<Rightarrow>
          if kind = LinkNode \<or> kind = OtherNode
          then Inl ''native media path must not contain symlinks or special files''
          else native_walk lstat (seen @ [c]) cs
      | NotFound \<Rightarrow> Inr ()
      | Failed e \<Rightarrow> Inl e)"

definition native_display :: "grant_env \<Rightarrow> path \<Rightarrow> path \<Rightarrow> string \<Rightarrow> (string, string) result" where
  "native_display env root relative text =
     try_bind (native_walk (ge_lstat env root) [] relative) (\<lambda>_. Inr text)"

fun replacement_base :: "grant_env \<Rightarrow> path \<Rightarrow> string \<Rightarrow> path list \<Rightarrow> (string, unit) result" where
  "replacement_base env target text [] = Inl ''replacement file path is outside allowed directories''"
| "replacement_base env target text (base # bases) =
     (case strip_root base target of
        None \<Rightarrow> replacement_base env target text bases
      | Some relative \<Rightarrow>
          (case ge_open_dir env base of
             NotFound \<Rightarrow> Inr ()
           | Failed e \<Rightarrow> Inl e
           | Found _ \<Rightarrow> try_bind (native_display env base relative text) (\<lambda>_. Inr ())))"

text \<open>
  \<open>validate_native_replacement\<close>. The bases that are already roots are absolute, so making them absolute
  again cannot fail; a base given by the caller that cannot be made absolute ends the loop there.
\<close>

fun validate_replacement ::
  "grant_env \<Rightarrow> path \<Rightarrow> string list \<Rightarrow> path list \<Rightarrow> (string, unit) result" where
  "validate_replacement env target [] roots = replacement_base env target (render target) roots"
| "validate_replacement env target (b # bs) roots =
     (case absolute_path env b of
        Inl e \<Rightarrow> Inl e
      | Inr cs \<Rightarrow>
          (case strip_root (clean cs) target of
             None \<Rightarrow> validate_replacement env target bs roots
           | Some _ \<Rightarrow> replacement_base env target (render target) [clean cs]))"

definition validate_native_replacement ::
  "grant_env \<Rightarrow> string \<Rightarrow> string list \<Rightarrow> file_registry \<Rightarrow> (string, unit) result" where
  "validate_native_replacement env p bases reg =
     validate_replacement env (clean (components p)) bases
       (map ((!) (fr_roots reg)) (fr_allowed reg @ filter (\<lambda>a. fr_strong reg ! a > 0) (fr_temporary reg)))"

end
