(* ===== verification/Sandbox.thy ===== *)
theory Sandbox
  imports File_Grants
begin

text \<open>
  What the file capabilities of extensions guarantee: a path is resolved exactly when the place it names
  lies below the sandbox of the extension or, for an absolute path, below a directory that is granted
  now; the result is that place; and a temporary grant ends with its owner.
\<close>

section \<open>The state of all owners\<close>

record grant_system =
  gs_registry :: file_registry
  gs_grants :: "nat list"
  gs_extensions :: "extension_files list"
  gs_paths :: "file_path list"

definition grant_start :: grant_system where
  "grant_start =
     \<lparr>gs_registry = \<lparr>fr_allowed = [], fr_temporary = [], fr_roots = [], fr_strong = []\<rparr>,
      gs_grants = [], gs_extensions = [], gs_paths = []\<rparr>"

definition owners :: "grant_system \<Rightarrow> nat list" where
  "owners g = fr_allowed (gs_registry g) @ gs_grants g @ map xf_root (gs_extensions g) @ map fp_root (gs_paths g)"

definition absolute_root :: "path \<Rightarrow> bool" where
  "absolute_root p \<longleftrightarrow> (\<exists>ns. p = RootDir # map Normal ns \<and> (\<forall>n \<in> set ns. proper_name n))"

definition roots_counted :: "file_registry \<Rightarrow> nat list \<Rightarrow> bool" where
  "roots_counted reg own \<longleftrightarrow>
     length (fr_strong reg) = length (fr_roots reg) \<and> (\<forall>a \<in> set own. a < length (fr_roots reg)) \<and>
     (\<forall>a < length (fr_roots reg). fr_strong reg ! a = count_list own a) \<and>
     (\<forall>p \<in> set (fr_roots reg). absolute_root p)"

definition grants_ok :: "grant_system \<Rightarrow> bool" where
  "grants_ok g \<longleftrightarrow>
     roots_counted (gs_registry g) (owners g) \<and>
     distinct (fr_temporary (gs_registry g)) \<and> distinct (gs_grants g) \<and>
     set (fr_temporary (gs_registry g)) = set (gs_grants g)"

text \<open>An absolute working directory gives absolute roots.\<close>

definition cwd_ok :: "grant_env \<Rightarrow> bool" where
  "cwd_ok env \<longleftrightarrow> (\<forall>cwd. ge_cwd env = Inr cwd \<longrightarrow> has_root (components cwd))"

inductive grant_step :: "grant_system \<Rightarrow> grant_system \<Rightarrow> bool" where
  gstep_allowed:
    "cwd_ok env \<Longrightarrow>
     grant_step g (g\<lparr>gs_registry := snd (set_allowed_directories env ps (gs_registry g))\<rparr>)"
| gstep_grant:
    "cwd_ok env \<Longrightarrow> grant_temporary_directory env p (gs_registry g) = (r, reg1) \<Longrightarrow>
     grant_step g (g\<lparr>gs_registry := reg1, gs_grants := (case r of Inl _ \<Rightarrow> [] | Inr a \<Rightarrow> [a]) @ gs_grants g\<rparr>)"
| gstep_drop_grant:
    "gs_grants g = xs @ a # ys \<Longrightarrow>
     grant_step g (g\<lparr>gs_registry := drop_grant a (gs_registry g), gs_grants := xs @ ys\<rparr>)"
| gstep_extension:
    "cwd_ok env \<Longrightarrow> extension_with_alias env d al (gs_registry g) = (r, reg1) \<Longrightarrow>
     grant_step g (g\<lparr>gs_registry := reg1,
       gs_extensions := (case r of Inl _ \<Rightarrow> [] | Inr xf \<Rightarrow> [xf]) @ gs_extensions g\<rparr>)"
| gstep_resolve:
    "xf \<in> set (gs_extensions g) \<Longrightarrow> resolve xf text (gs_registry g) = (r, reg1) \<Longrightarrow>
     grant_step g (g\<lparr>gs_registry := reg1, gs_paths := (case r of Inl _ \<Rightarrow> [] | Inr fp \<Rightarrow> [fp]) @ gs_paths g\<rparr>)"
| gstep_resolve_legacy:
    "xf \<in> set (gs_extensions g) \<Longrightarrow> resolve_legacy env xf text (gs_registry g) = (r, reg1) \<Longrightarrow>
     grant_step g (g\<lparr>gs_registry := reg1, gs_paths := (case r of Inl _ \<Rightarrow> [] | Inr fp \<Rightarrow> [fp]) @ gs_paths g\<rparr>)"
| gstep_drop_path:
    "gs_paths g = xs @ fp # ys \<Longrightarrow>
     grant_step g (g\<lparr>gs_registry := release_root (fp_root fp) (gs_registry g), gs_paths := xs @ ys\<rparr>)"
| gstep_drop_extension:
    "gs_extensions g = xs @ xf # ys \<Longrightarrow>
     grant_step g (g\<lparr>gs_registry := release_root (xf_root xf) (gs_registry g), gs_extensions := xs @ ys\<rparr>)"

section \<open>Reference counts\<close>

lemma counted_mset:
  assumes "roots_counted reg own" "mset own = mset own'"
  shows "roots_counted reg own'"
proof -
  have "count_list own' a = count_list own a" for a
    using assms(2) by (metis count_mset)
  with assms(1) mset_eq_setD [OF assms(2)] show ?thesis by (simp add: roots_counted_def)
qed

lemma clone_counted:
  assumes "roots_counted reg own" "a < length (fr_roots reg)"
  shows "roots_counted (clone_root a reg) (a # own)"
  using assms by (auto simp: roots_counted_def clone_root_def nth_list_update)

lemma release_counted_root:
  assumes "roots_counted reg (a # own)"
  shows "roots_counted (release_root a reg) own"
  using assms by (auto simp: roots_counted_def release_root_def nth_list_update)

lemma release_root_fields [simp]:
  "fr_allowed (release_root a reg) = fr_allowed reg" "fr_temporary (release_root a reg) = fr_temporary reg"
  "fr_roots (release_root a reg) = fr_roots reg"
  by (simp_all add: release_root_def)

lemma clone_root_fields [simp]:
  "fr_allowed (clone_root a reg) = fr_allowed reg" "fr_temporary (clone_root a reg) = fr_temporary reg"
  "fr_roots (clone_root a reg) = fr_roots reg"
  by (simp_all add: clone_root_def)

lemma fold_release_fields [simp]:
  "fr_allowed (fold release_root as reg) = fr_allowed reg"
  "fr_temporary (fold release_root as reg) = fr_temporary reg"
  "fr_roots (fold release_root as reg) = fr_roots reg"
  by (induction as arbitrary: reg) simp_all

lemma fold_release_counted: "roots_counted reg (as @ own) \<Longrightarrow> roots_counted (fold release_root as reg) own"
  by (induction as arbitrary: reg) (auto intro: release_counted_root)

lemma counted_fields: "fr_roots reg' = fr_roots reg \<Longrightarrow> fr_strong reg' = fr_strong reg \<Longrightarrow>
    roots_counted reg' own = roots_counted reg own"
  by (simp add: roots_counted_def)

lemma absolute_names:
  assumes "absolute_path env p = Inr cs" "cwd_ok env"
  shows "absolute_root (clean cs)"
proof -
  have proper: "Normal s \<in> set (components q) \<Longrightarrow> proper_name s" for s q by (rule components_proper)
  have root: "has_root cs" and names: "Normal s \<in> set cs \<Longrightarrow> proper_name s" for s
    using assms proper
    by (auto simp: absolute_path_def cwd_ok_def try_bind_eq_Inr has_root_def split: if_splits)
  have "clean cs = RootDir # map Normal (lexical [] cs)" by (rule clean_absolute [OF root])
  moreover from this have "proper_name n" if "n \<in> set (lexical [] cs)" for n
    using that names clean_normals [of n cs] by auto
  ultimately show ?thesis unfolding absolute_root_def by blast
qed

lemma root_open_counted:
  assumes "roots_counted reg own" "cwd_ok env" "root_open env p reg = (r, reg1)"
  shows "(case r of Inl _ \<Rightarrow> reg1 = reg
     | Inr a \<Rightarrow> a = length (fr_roots reg) \<and> roots_counted reg1 (a # own) \<and> a \<notin> set own) \<and>
     fr_allowed reg1 = fr_allowed reg \<and> fr_temporary reg1 = fr_temporary reg"
proof (cases r)
  case (Inl e)
  with assms(3) show ?thesis by (auto simp: root_open_def split: sum.splits)
next
  case (Inr a)
  then obtain cs where cs: "absolute_path env p = Inr cs" "a = length (fr_roots reg)"
    and reg1: "reg1 = reg\<lparr>fr_roots := fr_roots reg @ [clean cs], fr_strong := fr_strong reg @ [1]\<rparr>"
    using assms(3) by (auto simp: root_open_def try_bind_eq_Inr split: sum.splits)
  have fresh: "a \<notin> set own" using assms(1) cs(2) by (auto simp: roots_counted_def)
  then have "count_list own a = 0" by (simp add: count_list_0_iff)
  then have "roots_counted reg1 (a # own)"
    using assms(1) absolute_names [OF cs(1) assms(2)] reg1 cs(2)
    by (auto simp: roots_counted_def nth_append less_Suc_eq)
  with Inr cs fresh reg1 show ?thesis by simp
qed

section \<open>Where a resolved path lies\<close>

definition names_of :: "path \<Rightarrow> string list" where
  "names_of p = map (\<lambda>c. case c of Normal s \<Rightarrow> s | _ \<Rightarrow> []) (tl p)"

lemma names_of_absolute:
  assumes "absolute_root p"
  shows "p = RootDir # map Normal (names_of p)" "\<forall>n \<in> set (names_of p). proper_name n"
  using assms by (auto simp: absolute_root_def names_of_def o_def)

lemma strip_root_iff: "strip_root p q = Some r \<longleftrightarrow> q = p @ r"
  by (induction p q rule: strip_root.induct) auto

lemma strip_root_absolute:
  assumes "absolute_root p"
  shows "strip_root p (RootDir # map Normal ns) =
     (if prefix (names_of p) ns then Some (map Normal (drop (length (names_of p)) ns)) else None)"
proof (cases "prefix (names_of p) ns")
  case True
  then obtain zs where "ns = names_of p @ zs" by (auto simp: prefix_def)
  with names_of_absolute(1) [OF assms] have "strip_root p (RootDir # map Normal ns) = Some (map Normal zs)"
    by (metis append_Cons map_append strip_root_iff)
  with True \<open>ns = names_of p @ zs\<close> show ?thesis by simp
next
  case False
  have "strip_root p (RootDir # map Normal ns) \<noteq> Some r" for r
  proof
    assume "strip_root p (RootDir # map Normal ns) = Some r"
    then have "RootDir # map Normal ns = (RootDir # map Normal (names_of p)) @ r"
      using names_of_absolute(1) [OF assms] by (simp add: strip_root_iff)
    then obtain zs where "ns = names_of p @ zs"
      by (auto simp: map_eq_append_conv) (metis inj_map_eq_map inj_def path_component.inject)
    with False show False by (simp add: prefix_def)
  qed
  with False show ?thesis by (cases "strip_root p (RootDir # map Normal ns)") auto
qed

lemma has_root_clean: "has_root (clean (components p)) \<longleftrightarrow> has_root (components p)"
proof (cases "has_root (components p)")
  case True
  then show ?thesis using clean_absolute [OF True, of "[]"] by (simp add: has_root_def)
next
  case False
  from rootless_components [OF this] have "RootDir \<notin> set (clean (components p))"
    using rootless_fold [of "components p" "[]"] by (simp add: clean_def Let_def)
  with False show ?thesis by (cases "clean (components p)") (auto simp: has_root_def)
qed

definition place :: "file_registry \<Rightarrow> extension_files \<Rightarrow> string \<Rightarrow> string list" where
  "place reg xf text = lexical (names_of (fr_roots reg ! xf_root xf)) (components text)"

lemma clean_place:
  assumes "has_root (components text)"
  shows "clean (components text) = RootDir # map Normal (place reg xf text)"
  unfolding place_def by (rule clean_absolute [OF assms])

lemma clean_joined:
  assumes root: "absolute_root (fr_roots reg ! xf_root xf)"
  shows "clean (fr_roots reg ! xf_root xf @ clean (components text)) = RootDir # map Normal (place reg xf text)"
proof -
  let ?root = "fr_roots reg ! xf_root xf"
  have "has_root (?root @ clean (components text))"
    using names_of_absolute(1) [OF root] by (metis append_Cons has_root_def list.sel(1) list.distinct(1))
  from clean_absolute [OF this, of "[]"] have
    "clean (?root @ clean (components text)) = RootDir # map Normal (lexical (lexical [] ?root) (components text))"
    by (simp add: lexical_append clean_lexical)
  moreover have "lexical [] ?root = names_of ?root"
    using names_of_absolute(1) [OF root] lexical_absolute lexical_normals by (metis append_Nil)
  ultimately show ?thesis by (simp add: place_def)
qed

lemma place_proper:
  assumes "absolute_root (fr_roots reg ! xf_root xf)" "n \<in> set (place reg xf text)"
  shows "proper_name n"
proof -
  let ?root = "fr_roots reg ! xf_root xf"
  have "Normal n \<in> set (clean (?root @ clean (components text)))"
    using clean_joined [OF assms(1)] assms(2) by simp
  then have "Normal n \<in> set ?root \<or> Normal n \<in> set (clean (components text))"
    by (auto dest: clean_normals)
  then have "Normal n \<in> set ?root \<or> Normal n \<in> set (components text)"
    by (auto dest: clean_normals)
  moreover have "Normal n \<in> set ?root \<Longrightarrow> proper_name n"
    using assms(1) unfolding absolute_root_def by auto
  ultimately show ?thesis using components_proper by blast
qed

text \<open>The roots below which the extension may name a path now.\<close>

definition covering :: "file_registry \<Rightarrow> extension_files \<Rightarrow> string \<Rightarrow> nat set" where
  "covering reg xf text =
     {a. prefix (names_of (fr_roots reg ! a)) (place reg xf text) \<and>
        (if has_root (components text)
         then a \<in> set (fr_allowed reg) \<or> a \<in> set (fr_temporary reg) \<and> fr_strong reg ! a > 0
         else a = xf_root xf)}"

lemma find_SomeD: "List.find P xs = Some x \<Longrightarrow> x \<in> set xs \<and> P x"
  by (induction xs) (auto split: if_splits)

lemma granted_root_iff:
  assumes roots: "\<And>a. a \<in> set (fr_allowed reg @ fr_temporary reg) \<Longrightarrow> absolute_root (fr_roots reg ! a)"
    and abs: "has_root (components text)"
  shows "case granted_root (RootDir # map Normal (place reg xf text)) reg of
      None \<Rightarrow> covering reg xf text = {} | Some a \<Rightarrow> a \<in> covering reg xf text"
proof -
  let ?q = "RootDir # map Normal (place reg xf text)"
  let ?live = "\<lambda>a. a \<in> set (fr_allowed reg) \<or> a \<in> set (fr_temporary reg) \<and> fr_strong reg ! a > 0"
  have p: "strip_root (fr_roots reg ! a) ?q = None \<longleftrightarrow> \<not> prefix (names_of (fr_roots reg ! a)) (place reg xf text)"
    if "?live a" for a
    using strip_root_absolute [OF roots, of a] that by auto
  have cover: "covering reg xf text = {a. ?live a \<and> strip_root (fr_roots reg ! a) ?q \<noteq> None}"
    unfolding covering_def if_P [OF abs]
  proof (rule Collect_cong)
    show "prefix (names_of (fr_roots reg ! a)) (place reg xf text) \<and> ?live a \<longleftrightarrow>
        ?live a \<and> strip_root (fr_roots reg ! a) ?q \<noteq> None" for a
      using p [of a] by (cases "?live a") auto
  qed
  show ?thesis
  proof (cases "granted_root ?q reg")
    case None
    then have none: "strip_root (fr_roots reg ! a) ?q = None" if "?live a" for a
      using that by (auto simp: granted_root_def find_None_iff split: option.splits)
    have "\<not> (?live a \<and> strip_root (fr_roots reg ! a) ?q \<noteq> None)" for a
      using none [of a] by (cases "?live a") auto
    then have "covering reg xf text = {}" by (simp only: cover Collect_empty_eq simp_thms)
    with None show ?thesis by simp
  next
    case (Some a)
    then have "?live a \<and> strip_root (fr_roots reg ! a) ?q \<noteq> None"
      unfolding granted_root_def by (auto split: option.splits dest!: find_SomeD)
    with Some show ?thesis by (simp add: cover)
  qed
qed

definition below :: "file_registry \<Rightarrow> nat \<Rightarrow> string list \<Rightarrow> path" where
  "below reg a ns =
     (let rest = drop (length (names_of (fr_roots reg ! a))) ns in if rest = [] then [CurDir] else map Normal rest)"

definition registry_roots :: "file_registry \<Rightarrow> extension_files \<Rightarrow> bool" where
  "registry_roots reg xf \<longleftrightarrow>
     (\<forall>a \<in> insert (xf_root xf) (set (fr_allowed reg @ fr_temporary reg)). absolute_root (fr_roots reg ! a))"

lemma resolve_root_spec:
  assumes "registry_roots reg xf"
  shows "case resolve_root xf text reg of
      Inl _ \<Rightarrow> covering reg xf text = {}
    | Inr (a, q) \<Rightarrow> a \<in> covering reg xf text \<and> q = RootDir # map Normal (place reg xf text)"
proof (cases "has_root (components text)")
  case True
  have roots: "a \<in> set (fr_allowed reg @ fr_temporary reg) \<Longrightarrow> absolute_root (fr_roots reg ! a)" for a
    using assms by (auto simp: registry_roots_def)
  have "has_root (clean (components text))" using True by (simp add: has_root_clean)
  with granted_root_iff [OF roots True, of xf] True show ?thesis
    by (cases "granted_root (RootDir # map Normal (place reg xf text)) reg")
      (simp_all add: resolve_root_def Let_def clean_place [OF True, of reg xf] has_root_def)
next
  case False
  have own: "absolute_root (fr_roots reg ! xf_root xf)" using assms by (simp add: registry_roots_def)
  have "\<not> has_root (clean (components text))" using False by (simp add: has_root_clean)
  then show ?thesis
    using False
    by (auto simp: resolve_root_def Let_def clean_joined [OF own] strip_root_absolute [OF own] covering_def)
qed

lemma resolve_spec:
  assumes "registry_roots reg xf"
  shows "case resolve xf text reg of
      (Inl _, reg1) \<Rightarrow> covering reg xf text = {} \<and> reg1 = reg
    | (Inr fp, reg1) \<Rightarrow> fp_root fp \<in> covering reg xf text \<and> fp_relative fp = below reg (fp_root fp) (place reg xf text) \<and>
        fp_absolute fp = render (RootDir # map Normal (place reg xf text)) \<and> reg1 = clone_root (fp_root fp) reg"
proof (cases "resolve_root xf text reg")
  case (Inl e)
  with resolve_root_spec [OF assms, of "text"] show ?thesis by (simp add: resolve_def)
next
  case (Inr aq)
  then obtain a where a: "aq = (a, RootDir # map Normal (place reg xf text))" "a \<in> covering reg xf text"
    using resolve_root_spec [OF assms, of "text"] by (cases aq) auto
  then have "absolute_root (fr_roots reg ! a)" "prefix (names_of (fr_roots reg ! a)) (place reg xf text)"
    using assms by (auto simp: covering_def registry_roots_def split: if_splits)
  with Inr a show ?thesis
    by (simp add: resolve_def strip_root_absolute below_def Let_def)
qed

text \<open>The legacy spelling leads to the same roots.\<close>

lemma resolve_legacy_cases:
  obtains e where "resolve_legacy env xf text reg = (Inl e, reg)"
    | t where "resolve_legacy env xf text reg = with_absolute text (resolve xf t reg)"
    | t where "resolve_legacy env xf text reg = resolve xf t reg"
proof (cases "if has_root (clean (components text))
    then legacy_relative env (fr_roots reg ! xf_root xf) (clean (components text))
      (fr_roots reg ! xf_root xf # (case xf_alias xf of None \<Rightarrow> [] | Some al \<Rightarrow> [al])) else Inr None")
  case (Inl e)
  then show ?thesis by (intro that(1)) (simp add: resolve_legacy_def Let_def)
next
  case (Inr rel)
  show ?thesis
  proof (cases rel)
    case None
    with Inr show ?thesis
      using that(2) [of "render (clean (components text))"] that(3) [of "render (clean (components text))"]
      by (cases "has_root (components text)") (simp_all add: resolve_legacy_def Let_def)
  next
    case (Some r)
    with Inr show ?thesis using that(2) [of "render r"] by (simp add: resolve_legacy_def Let_def)
  qed
qed

lemma resolve_legacy_spec:
  assumes "registry_roots reg xf"
  shows "case resolve_legacy env xf text reg of
      (Inl _, reg1) \<Rightarrow> reg1 = reg
    | (Inr fp, reg1) \<Rightarrow> \<exists>t. fp_root fp \<in> covering reg xf t \<and>
        fp_relative fp = below reg (fp_root fp) (place reg xf t) \<and> reg1 = clone_root (fp_root fp) reg"
proof (cases rule: resolve_legacy_cases [of env xf "text" reg])
  case (2 t)
  with resolve_spec [OF assms, of t] show ?thesis
    by (cases "resolve xf t reg"; cases "fst (resolve xf t reg)") (auto simp: with_absolute_def)
next
  case (3 t)
  with resolve_spec [OF assms, of t] show ?thesis
    by (cases "resolve xf t reg"; cases "fst (resolve xf t reg)") auto
qed simp

section \<open>Every step keeps the counts\<close>

lemma grants_okD:
  assumes "grants_ok g"
  shows "roots_counted (gs_registry g) (owners g)"
    and "set (fr_temporary (gs_registry g)) = set (gs_grants g)"
    and "a \<in> set (gs_grants g) \<Longrightarrow> fr_strong (gs_registry g) ! a > 0"
    and "xf \<in> set (gs_extensions g) \<Longrightarrow> registry_roots (gs_registry g) xf"
proof -
  show c: "roots_counted (gs_registry g) (owners g)"
    and t: "set (fr_temporary (gs_registry g)) = set (gs_grants g)"
    using assms by (simp_all add: grants_ok_def)
  have own: "a < length (fr_roots (gs_registry g)) \<and> fr_strong (gs_registry g) ! a > 0 \<and>
      absolute_root (fr_roots (gs_registry g) ! a)" if "a \<in> set (owners g)" for a
    using c that by (auto simp: roots_counted_def count_list_0_iff neq0_conv [symmetric])
  show "a \<in> set (gs_grants g) \<Longrightarrow> fr_strong (gs_registry g) ! a > 0"
    using own [of a] by (simp add: owners_def)
  show "xf \<in> set (gs_extensions g) \<Longrightarrow> registry_roots (gs_registry g) xf"
    using own t by (auto simp: registry_roots_def owners_def)
qed

lemma open_roots_counted:
  assumes "roots_counted reg (done' @ own)" "cwd_ok env" "open_roots env ps done' reg = (r, reg1)"
  shows "(case r of Inl _ \<Rightarrow> roots_counted reg1 own | Inr as \<Rightarrow> roots_counted reg1 (as @ own)) \<and>
     fr_allowed reg1 = fr_allowed reg \<and> fr_temporary reg1 = fr_temporary reg"
  using assms
proof (induction env ps done' reg arbitrary: r reg1 rule: open_roots.induct)
  case (1 env done' reg)
  then show ?case by auto
next
  case (2 env p ps done' reg)
  obtain x reg2 where x: "root_open env p reg = (x, reg2)" by force
  note opened = root_open_counted [OF "2.prems"(1,2) x]
  show ?case
  proof (cases x)
    case (Inl e)
    with x opened "2.prems" show ?thesis by (auto intro: fold_release_counted)
  next
    case (Inr a)
    with opened have "roots_counted reg2 (a # done' @ own)" by auto
    then have "roots_counted reg2 ((done' @ [a]) @ own)" by (rule counted_mset) simp
    moreover have "open_roots env ps (done' @ [a]) reg2 = (r, reg1)" using "2.prems"(3) x Inr by simp
    ultimately have "(case r of Inl _ \<Rightarrow> roots_counted reg1 own | Inr as \<Rightarrow> roots_counted reg1 (as @ own)) \<and>
        fr_allowed reg1 = fr_allowed reg2 \<and> fr_temporary reg1 = fr_temporary reg2"
      using "2.IH" [OF x [unfolded Inr, symmetric] refl _ "2.prems"(2)] by blast
    with opened show ?thesis by metis
  qed
qed

lemma set_allowed_ok:
  assumes "grants_ok g" "cwd_ok env"
  shows "grants_ok (g\<lparr>gs_registry := snd (set_allowed_directories env ps (gs_registry g))\<rparr>)"
proof -
  let ?rest = "gs_grants g @ map xf_root (gs_extensions g) @ map fp_root (gs_paths g)"
  obtain r reg1 where r: "open_roots env ps [] (gs_registry g) = (r, reg1)" by force
  have c: "roots_counted (gs_registry g) ([] @ owners g)" using grants_okD(1) [OF assms(1)] by simp
  note o = open_roots_counted [OF c assms(2) r]
  show ?thesis
  proof (cases r)
    case (Inl e)
    with r o assms(1) show ?thesis
      by (simp add: set_allowed_directories_def grants_ok_def owners_def)
  next
    case (Inr as)
    with o have "roots_counted reg1 (as @ fr_allowed (gs_registry g) @ ?rest)" by (simp add: owners_def)
    then have "roots_counted (reg1\<lparr>fr_allowed := as\<rparr>) (fr_allowed (gs_registry g) @ as @ ?rest)"
      unfolding counted_fields [of "reg1\<lparr>fr_allowed := as\<rparr>" reg1, simplified] by (rule counted_mset) simp
    from fold_release_counted [OF this] Inr r o assms(1) show ?thesis
      by (simp add: set_allowed_directories_def grants_ok_def owners_def)
  qed
qed

lemma grant_ok:
  assumes ok: "grants_ok g" and env: "cwd_ok env" and r: "grant_temporary_directory env p (gs_registry g) = (r, reg1)"
  shows "grants_ok (g\<lparr>gs_registry := reg1, gs_grants := (case r of Inl _ \<Rightarrow> [] | Inr a \<Rightarrow> [a]) @ gs_grants g\<rparr>)"
proof -
  obtain x reg2 where x: "root_open env p (gs_registry g) = (x, reg2)" by force
  note opened = root_open_counted [OF grants_okD(1) [OF ok] env x]
  show ?thesis
  proof (cases x)
    case (Inl e)
    with r x opened ok show ?thesis by (auto simp: grant_temporary_directory_def)
  next
    case (Inr a)
    with opened have c: "roots_counted reg2 (a # owners g)" and fresh: "a \<notin> set (owners g)"
      and same: "fr_allowed reg2 = fr_allowed (gs_registry g)" "fr_temporary reg2 = fr_temporary (gs_registry g)"
      by auto
    have "fr_strong reg2 ! b \<noteq> 0" if "b \<in> set (fr_temporary reg2)" for b
      using that c same grants_okD(2) [OF ok]
      by (auto simp: roots_counted_def owners_def count_list_0_iff split: if_splits)
    then have keep: "filter (\<lambda>b. fr_strong reg2 ! b \<noteq> 0) (fr_temporary reg2) = fr_temporary (gs_registry g)"
      using same by (simp add: filter_id_conv)
    have reg1: "r = Inr a" "reg1 = reg2\<lparr>fr_temporary := fr_temporary (gs_registry g) @ [a]\<rparr>"
      using r x Inr keep by (auto simp: grant_temporary_directory_def)
    have "roots_counted reg1 (fr_allowed (gs_registry g) @ (a # gs_grants g) @ map xf_root (gs_extensions g) @
        map fp_root (gs_paths g))"
      unfolding reg1(2) counted_fields [of "reg2\<lparr>fr_temporary := fr_temporary (gs_registry g) @ [a]\<rparr>" reg2, simplified]
      by (rule counted_mset [OF c]) (simp add: owners_def)
    then show ?thesis
      using ok fresh same by (auto simp: grants_ok_def owners_def reg1)
  qed
qed

lemma drop_grant_ok:
  assumes ok: "grants_ok g" and a: "gs_grants g = xs @ a # ys"
  shows "grants_ok (g\<lparr>gs_registry := drop_grant a (gs_registry g), gs_grants := xs @ ys\<rparr>)"
proof -
  let ?rest = "fr_allowed (gs_registry g) @ (xs @ ys) @ map xf_root (gs_extensions g) @ map fp_root (gs_paths g)"
  have "roots_counted (gs_registry g) (a # ?rest)"
    by (rule counted_mset [OF grants_okD(1) [OF ok]]) (simp add: owners_def a)
  then have "roots_counted (drop_grant a (gs_registry g)) ?rest"
    unfolding drop_grant_def by (intro release_counted_root) (simp add: roots_counted_def)
  moreover have "distinct (xs @ a # ys)" using ok a by (simp add: grants_ok_def)
  ultimately show ?thesis
    using ok a by (auto simp: grants_ok_def owners_def drop_grant_def)
qed

lemma extension_ok:
  assumes ok: "grants_ok g" and env: "cwd_ok env" and r: "extension_with_alias env d al (gs_registry g) = (r, reg1)"
  shows "grants_ok (g\<lparr>gs_registry := reg1,
     gs_extensions := (case r of Inl _ \<Rightarrow> [] | Inr xf \<Rightarrow> [xf]) @ gs_extensions g\<rparr>)"
proof -
  obtain x reg2 where x: "root_open env d (gs_registry g) = (x, reg2)" by force
  note opened = root_open_counted [OF grants_okD(1) [OF ok] env x]
  show ?thesis
  proof (cases x)
    case (Inl e)
    with r x opened ok show ?thesis by (auto simp: extension_with_alias_def)
  next
    case (Inr a)
    with opened have c: "roots_counted reg2 (a # owners g)"
      and same: "fr_allowed reg2 = fr_allowed (gs_registry g)" "fr_temporary reg2 = fr_temporary (gs_registry g)"
      by auto
    from r x Inr consider e where "r = Inl e" "reg1 = release_root a reg2"
      | al' where "r = Inr \<lparr>xf_root = a, xf_alias = al'\<rparr>" "reg1 = reg2"
      by (auto simp: extension_with_alias_def Let_def split: sum.splits)
    then show ?thesis
    proof cases
      case 1
      with release_counted_root [OF c] same ok show ?thesis by (simp add: grants_ok_def owners_def)
    next
      case 2
      have "roots_counted reg2 (fr_allowed (gs_registry g) @ gs_grants g @ (a # map xf_root (gs_extensions g)) @
          map fp_root (gs_paths g))"
        by (rule counted_mset [OF c]) (simp add: owners_def)
      with 2 same ok show ?thesis by (simp add: grants_ok_def owners_def)
    qed
  qed
qed

lemma clone_path_ok:
  assumes ok: "grants_ok g" and fp: "fp_root fp \<in> set (owners g)"
  shows "grants_ok (g\<lparr>gs_registry := clone_root (fp_root fp) (gs_registry g), gs_paths := fp # gs_paths g\<rparr>)"
proof -
  have "fp_root fp < length (fr_roots (gs_registry g))"
    using grants_okD(1) [OF ok] fp by (auto simp: roots_counted_def)
  from clone_counted [OF grants_okD(1) [OF ok] this]
  have "roots_counted (clone_root (fp_root fp) (gs_registry g))
      (fr_allowed (gs_registry g) @ gs_grants g @ map xf_root (gs_extensions g) @ fp_root fp # map fp_root (gs_paths g))"
    by (rule counted_mset) (simp add: owners_def)
  with ok show ?thesis by (simp add: grants_ok_def owners_def)
qed

lemma covering_owned:
  assumes "grants_ok g" "xf \<in> set (gs_extensions g)" "a \<in> covering (gs_registry g) xf t"
  shows "a \<in> set (owners g)"
  using assms grants_okD(2) [OF assms(1)] by (auto simp: covering_def owners_def split: if_splits)

lemma release_path_ok:
  assumes ok: "grants_ok g" and m: "mset (owners g) = add_mset a (mset (owners g'))"
    and g': "gs_registry g' = release_root a (gs_registry g)" "gs_grants g' = gs_grants g"
  shows "grants_ok g'"
proof -
  have "roots_counted (gs_registry g) (a # owners g')"
    by (rule counted_mset [OF grants_okD(1) [OF ok]]) (simp add: m)
  from release_counted_root [OF this] ok g' show ?thesis by (simp add: grants_ok_def)
qed

lemma grant_step_ok:
  assumes "grant_step g g1" "grants_ok g"
  shows "grants_ok g1"
  using assms
proof cases
  case (gstep_resolve xf t r reg1)
  from resolve_spec [OF grants_okD(4) [OF assms(2) gstep_resolve(2)], of t] gstep_resolve assms(2)
  show ?thesis
    by (cases r) (auto intro!: clone_path_ok intro: covering_owned)
next
  case (gstep_resolve_legacy xf env t r reg1)
  from resolve_legacy_spec [OF grants_okD(4) [OF assms(2) gstep_resolve_legacy(2)], of env t]
    gstep_resolve_legacy assms(2)
  show ?thesis
    by (cases r) (auto intro!: clone_path_ok intro: covering_owned)
next
  case (gstep_drop_path xs fp ys)
  then show ?thesis by (intro release_path_ok [OF assms(2)]) (simp_all add: owners_def)
next
  case (gstep_drop_extension xs xf ys)
  then show ?thesis by (intro release_path_ok [OF assms(2)]) (simp_all add: owners_def)
qed (simp_all add: assms(2) set_allowed_ok grant_ok drop_grant_ok extension_ok)

interpretation gs: transition_system grant_start grant_step grants_ok
proof unfold_locales
  show "grants_ok grant_start" by (simp add: grants_ok_def grant_start_def owners_def roots_counted_def)
qed (rule grant_step_ok)

section \<open>Properties\<close>

text \<open>The directories open to a path now: the sandbox, or what the application grants.\<close>

definition granted :: "grant_system \<Rightarrow> extension_files \<Rightarrow> string \<Rightarrow> nat set" where
  "granted g xf text =
     (if has_root (components text) then set (fr_allowed (gs_registry g)) \<union> set (gs_grants g) else {xf_root xf})"

lemma covering_granted:
  assumes "grants_ok g"
  shows "covering (gs_registry g) xf text =
     {a \<in> granted g xf text. prefix (names_of (fr_roots (gs_registry g) ! a)) (place (gs_registry g) xf text)}"
  using grants_okD(2,3) [OF assms] by (auto simp: covering_def granted_def)

lemma covering_below:
  assumes "a \<in> covering reg xf text" "absolute_root (fr_roots reg ! xf_root xf)"
  shows "\<exists>ns. place reg xf text = names_of (fr_roots reg ! a) @ ns \<and> (\<forall>n \<in> set ns. proper_name n) \<and>
     below reg a (place reg xf text) = (if ns = [] then [CurDir] else map Normal ns)"
proof -
  obtain ns where "place reg xf text = names_of (fr_roots reg ! a) @ ns"
    using assms(1) by (auto simp: covering_def prefix_def)
  with place_proper [OF assms(2), of _ "text"] show ?thesis
    by (intro exI [of _ ns]) (simp add: below_def)
qed

text \<open>
  C10. Paths resolve to granted places only. Whatever has been granted and revoked before, a relative path of an
  extension is resolved exactly when the place it names, reading every dot and parent component, lies below the
  extension's own sandbox, and an absolute path exactly when the place it names lies below a directory that is
  granted at this moment (a grant whose owner is gone does not count); an absolute path into the sandbox is
  refused unless such a directory holds it, and so is a relative path that leaves the sandbox for a granted
  directory. The result names that place by proper names below that directory, never through a parent.
\<close>

theorem resolved_paths_are_granted:
  assumes "reachable_from grant_step grant_start g" "xf \<in> set (gs_extensions g)"
  shows "((\<exists>fp. fst (resolve xf text (gs_registry g)) = Inr fp) \<longleftrightarrow>
       (\<exists>a \<in> granted g xf text. prefix (names_of (fr_roots (gs_registry g) ! a)) (place (gs_registry g) xf text))) \<and>
     (\<forall>fp. fst (resolve xf text (gs_registry g)) = Inr fp \<longrightarrow>
        fp_root fp \<in> granted g xf text \<and>
        (\<exists>ns. place (gs_registry g) xf text = names_of (fr_roots (gs_registry g) ! fp_root fp) @ ns \<and>
           (\<forall>n \<in> set ns. proper_name n) \<and> fp_relative fp = (if ns = [] then [CurDir] else map Normal ns)))"
proof -
  have ok: "grants_ok g" by (rule gs.inv_reachable [OF assms(1)])
  have roots: "registry_roots (gs_registry g) xf" by (rule grants_okD(4) [OF ok assms(2)])
  then have own: "absolute_root (fr_roots (gs_registry g) ! xf_root xf)" by (simp add: registry_roots_def)
  obtain r reg1 where r: "resolve xf text (gs_registry g) = (r, reg1)" by force
  show ?thesis
  proof (cases r)
    case (Inl e)
    with resolve_spec [OF roots, of "text"] r have "covering (gs_registry g) xf text = {}" by simp
    with Inl r covering_granted [OF ok, of xf "text"] show ?thesis by auto
  next
    case (Inr fp)
    with resolve_spec [OF roots, of "text"] r have fp: "fp_root fp \<in> covering (gs_registry g) xf text"
      "fp_relative fp = below (gs_registry g) (fp_root fp) (place (gs_registry g) xf text)" by auto
    then have "fp_root fp \<in> granted g xf text"
      "prefix (names_of (fr_roots (gs_registry g) ! fp_root fp)) (place (gs_registry g) xf text)"
      using covering_granted [OF ok, of xf "text"] by auto
    with Inr r fp(2) covering_below [OF fp(1) own] show ?thesis by auto
  qed
qed

text \<open>
  The spelling of older extensions, absolute below the sandbox or its alias, gives no other access.
\<close>

theorem legacy_paths_are_granted:
  assumes "reachable_from grant_step grant_start g" "xf \<in> set (gs_extensions g)"
    and "fst (resolve_legacy env xf text (gs_registry g)) = Inr fp"
  shows "(fp_root fp = xf_root xf \<or> fp_root fp \<in> set (fr_allowed (gs_registry g)) \<union> set (gs_grants g)) \<and>
     (\<exists>ns. (\<forall>n \<in> set ns. proper_name n) \<and> fp_relative fp = (if ns = [] then [CurDir] else map Normal ns))"
proof -
  have ok: "grants_ok g" by (rule gs.inv_reachable [OF assms(1)])
  have roots: "registry_roots (gs_registry g) xf" by (rule grants_okD(4) [OF ok assms(2)])
  then have own: "absolute_root (fr_roots (gs_registry g) ! xf_root xf)" by (simp add: registry_roots_def)
  obtain t where t: "fp_root fp \<in> covering (gs_registry g) xf t"
    "fp_relative fp = below (gs_registry g) (fp_root fp) (place (gs_registry g) xf t)"
    using resolve_legacy_spec [OF roots, of env "text"] assms(3)
    by (cases "resolve_legacy env xf text (gs_registry g)") auto
  have "fp_root fp \<in> granted g xf t" using t(1) unfolding covering_granted [OF ok] by simp
  then have "fp_root fp = xf_root xf \<or> fp_root fp \<in> set (fr_allowed (gs_registry g)) \<union> set (gs_grants g)"
    by (simp add: granted_def split: if_splits)
  moreover obtain ns where "\<forall>n \<in> set ns. proper_name n" "fp_relative fp = (if ns = [] then [CurDir] else map Normal ns)"
    using covering_below [OF t(1) own] t(2) by auto
  ultimately show ?thesis by blast
qed

lemma native_walk_no_links:
  assumes "native_walk lstat seen cs = Inr ()" "i < length cs"
    and "\<And>j. j < i \<Longrightarrow> \<exists>k. lstat (seen @ take (Suc j) cs) = Found k"
    and "lstat (seen @ take (Suc i) cs) = Found kind"
  shows "kind = FileNode \<or> kind = DirNode"
  using assms
proof (induction cs arbitrary: seen i)
  case (Cons c cs)
  show ?case
  proof (cases i)
    case 0
    with Cons.prems show ?thesis by (cases kind) (auto split: if_splits)
  next
    case (Suc k)
    obtain x where "lstat (seen @ [c]) = Found x" using Cons.prems(3) [of 0] Suc by auto
    then have "native_walk lstat (seen @ [c]) cs = Inr ()" using Cons.prems(1) by (auto split: if_splits)
    from Cons.IH [OF this, of k] Cons.prems Suc show ?thesis by force
  qed
qed simp

section \<open>A session\<close>

definition sample_grant_env :: grant_env where
  "sample_grant_env =
     \<lparr>ge_cwd = Inr ''/home'', ge_mkdir = (\<lambda>_. Inr ()), ge_open_dir = (\<lambda>_. Found ()),
      ge_canonical = (\<lambda>p. Inr p), ge_lstat = (\<lambda>_ _. NotFound)\<rparr>"

definition sample_extension :: "(string, extension_files) result \<times> file_registry" where
  "sample_extension = extension_with_alias sample_grant_env ''/data/ext'' ''/data/ext'' (gs_registry grant_start)"

definition sample_system :: grant_system where
  "sample_system = grant_start\<lparr>gs_registry := snd sample_extension,
     gs_extensions := (case fst sample_extension of Inl _ \<Rightarrow> [] | Inr xf \<Rightarrow> [xf]) @ gs_extensions grant_start\<rparr>"

lemma sample_system_reachable: "reachable_from grant_step grant_start sample_system"
proof -
  have "cwd_ok sample_grant_env" by (simp add: cwd_ok_def sample_grant_env_def has_root_components)
  then show ?thesis
    unfolding sample_system_def
    by (intro reach_one gstep_extension) (simp_all add: sample_extension_def)
qed

lemma sample_xf: "\<lparr>xf_root = 0, xf_alias = None\<rparr> \<in> set (gs_extensions sample_system)"
  by code_simp

theorem resolved_paths_are_granted_witness:
  "fst (resolve \<lparr>xf_root = 0, xf_alias = None\<rparr> ''a/../../ext/b.flac'' (gs_registry sample_system)) =
     Inr \<lparr>fp_root = 0, fp_absolute = ''/data/ext/b.flac'', fp_relative = [Normal ''b.flac'']\<rparr> \<and>
   \<not> (\<exists>fp. fst (resolve \<lparr>xf_root = 0, xf_alias = None\<rparr> ''../x'' (gs_registry sample_system)) = Inr fp)"
proof
  show "fst (resolve \<lparr>xf_root = 0, xf_alias = None\<rparr> ''a/../../ext/b.flac'' (gs_registry sample_system)) =
     Inr \<lparr>fp_root = 0, fp_absolute = ''/data/ext/b.flac'', fp_relative = [Normal ''b.flac'']\<rparr>"
    by code_simp
  have "names_of (fr_roots (gs_registry sample_system) ! 0) = [''data'', ''ext'']"
    "place (gs_registry sample_system) \<lparr>xf_root = 0, xf_alias = None\<rparr> ''../x'' = [''data'', ''x'']"
    by code_simp+
  then have outside: "\<not> (\<exists>a \<in> granted sample_system \<lparr>xf_root = 0, xf_alias = None\<rparr> ''../x''.
      prefix (names_of (fr_roots (gs_registry sample_system) ! a))
        (place (gs_registry sample_system) \<lparr>xf_root = 0, xf_alias = None\<rparr> ''../x''))"
    by (simp add: granted_def has_root_components)
  show "\<not> (\<exists>fp. fst (resolve \<lparr>xf_root = 0, xf_alias = None\<rparr> ''../x'' (gs_registry sample_system)) = Inr fp)"
    unfolding conjunct1 [OF resolved_paths_are_granted [OF sample_system_reachable sample_xf, of "''../x''"]]
    by (rule outside)
qed

end
