(* ===== verification/Output_Locks.thy ===== *)
theory Output_Locks
  imports BTree_Map Rust_Text "HOL-Library.Multiset"
begin

text \<open>
  The locks of output files (\<open>crates/extensions/src/files.rs\<close>, \<open>FileRegistry::lock\<close>): one lock per folded
  path, found through a map of weak references, with an owner and a bounded wait. A caller first takes its
  lock object from the map and then looks at the owner in rounds, each under the lock's mutex, so calls of
  several threads interleave between the rounds. Callers and guards keep the object alive.
\<close>

section \<open>The operations\<close>

record output_registry =
  or_outputs :: "(string, nat) btmap"
  or_owner :: "nat option list"
  or_strong :: "nat list"

record output_claim =
  oc_thread :: nat
  oc_path :: string
  oc_lock :: nat

datatype lock_outcome = LockWaiting | LockRefused string | LockAcquired

definition lock_begin :: "string \<Rightarrow> output_registry \<Rightarrow> nat \<times> output_registry" where
  "lock_begin path reg =
     (let outputs = bt_retain (\<lambda>_ a. or_strong reg ! a > 0) (or_outputs reg) in
      case bt_get outputs path of
        Some a \<Rightarrow>
          (a, reg\<lparr>or_outputs := bt_insert path a outputs, or_strong := (or_strong reg)[a := Suc (or_strong reg ! a)]\<rparr>)
      | None \<Rightarrow>
          (length (or_owner reg),
           reg\<lparr>or_outputs := bt_insert path (length (or_owner reg)) outputs,
             or_owner := or_owner reg @ [None], or_strong := or_strong reg @ [1]\<rparr>))"

definition release_lock :: "nat \<Rightarrow> output_registry \<Rightarrow> output_registry" where
  "release_lock a reg = reg\<lparr>or_strong := (or_strong reg)[a := or_strong reg ! a - 1]\<rparr>"

text \<open>One round: \<open>check\<close> is the answer of the cancellation check that the round makes.\<close>

definition lock_round ::
  "(string, unit) result \<Rightarrow> nat \<Rightarrow> nat \<Rightarrow> output_registry \<Rightarrow> lock_outcome \<times> output_registry" where
  "lock_round check me a reg =
     (case check of
        Inl e \<Rightarrow> (LockRefused e, release_lock a reg)
      | Inr _ \<Rightarrow>
          (case or_owner reg ! a of
             Some t \<Rightarrow>
               if t = me then (LockRefused ''file output is already in use by this callback'', release_lock a reg)
               else (LockWaiting, reg)
           | None \<Rightarrow> (LockAcquired, reg\<lparr>or_owner := (or_owner reg)[a := Some me]\<rparr>)))"

definition output_guard_drop :: "nat \<Rightarrow> output_registry \<Rightarrow> output_registry" where
  "output_guard_drop a reg = release_lock a (reg\<lparr>or_owner := (or_owner reg)[a := None]\<rparr>)"

text \<open>\<open>ExtensionFiles::lock\<close> folds the displayed path with \<open>str::to_lowercase\<close>, an argument here.\<close>

definition lock_path :: "(string \<Rightarrow> string) \<Rightarrow> string \<Rightarrow> output_registry \<Rightarrow> nat \<times> output_registry" where
  "lock_path to_lowercase display reg = lock_begin (to_lowercase display) reg"

section \<open>Threads\<close>

record output_system =
  os_registry :: output_registry
  os_waiting :: "output_claim list"
  os_guards :: "output_claim list"

definition output_start :: output_system where
  "output_start = \<lparr>os_registry = \<lparr>or_outputs = [], or_owner = [], or_strong = []\<rparr>, os_waiting = [], os_guards = []\<rparr>"

inductive output_step :: "output_system \<Rightarrow> output_system \<Rightarrow> bool" where
  ostep_begin:
    "lock_begin path (os_registry y) = (a, reg1) \<Longrightarrow>
     output_step y (y\<lparr>os_registry := reg1,
       os_waiting := \<lparr>oc_thread = t, oc_path = path, oc_lock = a\<rparr> # os_waiting y\<rparr>)"
| ostep_round:
    "os_waiting y = xs @ c # zs \<Longrightarrow>
     lock_round check (oc_thread c) (oc_lock c) (os_registry y) = (r, reg1) \<Longrightarrow>
     output_step y (case r of
       LockWaiting \<Rightarrow> y\<lparr>os_registry := reg1\<rparr>
     | LockRefused _ \<Rightarrow> y\<lparr>os_registry := reg1, os_waiting := xs @ zs\<rparr>
     | LockAcquired \<Rightarrow> y\<lparr>os_registry := reg1, os_waiting := xs @ zs, os_guards := c # os_guards y\<rparr>)"
| ostep_drop:
    "os_guards y = xs @ c # zs \<Longrightarrow>
     output_step y (y\<lparr>os_registry := output_guard_drop (oc_lock c) (os_registry y), os_guards := xs @ zs\<rparr>)"

section \<open>The invariant\<close>

definition claims :: "output_system \<Rightarrow> output_claim list" where
  "claims y = os_waiting y @ os_guards y"

definition outputs_ok :: "(string, nat) btmap \<Rightarrow> nat \<Rightarrow> bool" where
  "outputs_ok outs n \<longleftrightarrow>
     bt_wf outs \<and> (\<forall>p a. bt_get outs p = Some a \<longrightarrow> a < n) \<and>
     (\<forall>p q a. bt_get outs p = Some a \<longrightarrow> bt_get outs q = Some a \<longrightarrow> p = q)"

definition locks_counted :: "output_registry \<Rightarrow> output_claim list \<Rightarrow> bool" where
  "locks_counted reg cs \<longleftrightarrow>
     outputs_ok (or_outputs reg) (length (or_owner reg)) \<and> length (or_strong reg) = length (or_owner reg) \<and>
     (\<forall>c \<in> set cs. bt_get (or_outputs reg) (oc_path c) = Some (oc_lock c)) \<and>
     (\<forall>a < length (or_owner reg). or_strong reg ! a = count_list (map oc_lock cs) a)"

definition owners_held :: "output_registry \<Rightarrow> output_claim list \<Rightarrow> bool" where
  "owners_held reg gs \<longleftrightarrow>
     distinct (map oc_lock gs) \<and>
     (\<forall>a < length (or_owner reg).
        or_owner reg ! a = map_option oc_thread (List.find (\<lambda>c. oc_lock c = a) gs))"

definition locks_ok :: "output_system \<Rightarrow> bool" where
  "locks_ok y \<longleftrightarrow> locks_counted (os_registry y) (claims y) \<and> owners_held (os_registry y) (os_guards y)"

lemma locks_counted_cong:
  assumes "locks_counted reg cs" "mset cs = mset cs'"
  shows "locks_counted reg cs'"
proof -
  have "mset (map oc_lock cs) = mset (map oc_lock cs')" using assms(2) by simp
  then have "count_list (map oc_lock cs') a = count_list (map oc_lock cs) a" for a by (metis count_mset)
  with assms(1) mset_eq_setD [OF assms(2)] show ?thesis by (simp add: locks_counted_def)
qed

lemma counted_bound: "locks_counted reg cs \<Longrightarrow> c \<in> set cs \<Longrightarrow> oc_lock c < length (or_owner reg)"
  by (auto simp: locks_counted_def outputs_ok_def)

lemma release_lock_counted:
  assumes "locks_counted reg (c # cs)"
  shows "locks_counted (release_lock (oc_lock c) reg) cs"
  using assms counted_bound [OF assms, of c]
  by (auto simp: locks_counted_def release_lock_def nth_list_update)

lemma release_lock_fields [simp]:
  "or_outputs (release_lock a reg) = or_outputs reg" "or_owner (release_lock a reg) = or_owner reg"
  by (simp_all add: release_lock_def)

lemma owner_update_counted:
  "locks_counted (reg\<lparr>or_owner := (or_owner reg)[a := x]\<rparr>) cs = locks_counted reg cs"
  by (simp add: locks_counted_def)

lemma outputs_ok_retain:
  assumes "outputs_ok outs n"
  shows "outputs_ok (bt_retain f outs) n"
proof -
  have wf: "bt_wf outs" using assms by (simp add: outputs_ok_def)
  have "bt_get outs p = Some a" if "bt_get (bt_retain f outs) p = Some a" for p a
    using that by (auto simp: bt_get_retain [OF wf] split: option.splits if_splits)
  with assms wf show ?thesis unfolding outputs_ok_def by blast
qed

lemma outputs_ok_insert:
  assumes "outputs_ok outs n"
  shows "outputs_ok (bt_insert path n outs) (Suc n)"
proof -
  have wf: "bt_wf outs" and bound: "\<And>p a. bt_get outs p = Some a \<Longrightarrow> a < n"
    and inj: "\<And>p q a. bt_get outs p = Some a \<Longrightarrow> bt_get outs q = Some a \<Longrightarrow> p = q"
    using assms unfolding outputs_ok_def by blast+
  have "a < Suc n" if "bt_get (bt_insert path n outs) p = Some a" for p a
    using that bound [of p a] by (simp add: bt_get_insert [OF wf] split: if_splits)
  moreover have "p = q" if "bt_get (bt_insert path n outs) p = Some a" "bt_get (bt_insert path n outs) q = Some a" for p q a
    using that inj [of p a q] bound [of p a] bound [of q a] by (auto simp: bt_get_insert [OF wf] split: if_splits)
  ultimately show ?thesis using wf by (simp add: outputs_ok_def)
qed

lemma lock_begin_counted:
  assumes c: "locks_counted reg cs" and b: "lock_begin path reg = (a, reg1)"
  shows "locks_counted reg1 (\<lparr>oc_thread = t, oc_path = path, oc_lock = a\<rparr> # cs) \<and>
     (or_owner reg1 = or_owner reg \<or> or_owner reg1 = or_owner reg @ [None])"
proof -
  define outs where "outs = bt_retain (\<lambda>_ a. or_strong reg ! a > 0) (or_outputs reg)"
  have ok: "outputs_ok outs (length (or_owner reg))"
    using c unfolding outs_def by (intro outputs_ok_retain) (simp add: locks_counted_def)
  then have wf: "bt_wf outs" by (simp add: outputs_ok_def)
  have wf0: "bt_wf (or_outputs reg)" using c by (simp add: locks_counted_def outputs_ok_def)
  have live: "bt_get outs (oc_path x) = Some (oc_lock x)" if "x \<in> set cs" for x
  proof -
    have "oc_lock x \<in> set (map oc_lock cs)" using that by simp
    then have "or_strong reg ! oc_lock x > 0"
      using c counted_bound [OF c that] by (simp add: locks_counted_def count_list_0_iff neq0_conv [symmetric])
    with c that show ?thesis by (simp add: locks_counted_def outs_def bt_get_retain [OF wf0])
  qed
  show ?thesis
  proof (cases "bt_get outs path")
    case (Some x)
    then have a: "a = x" "reg1 = reg\<lparr>or_outputs := bt_insert path x outs,
        or_strong := (or_strong reg)[x := Suc (or_strong reg ! x)]\<rparr>"
      using b by (auto simp: lock_begin_def Let_def outs_def [symmetric])
    have same: "bt_get (bt_insert path x outs) p = bt_get outs p" for p
      using Some by (simp add: bt_get_insert [OF wf])
    have "outputs_ok (bt_insert path x outs) (length (or_owner reg))"
      using ok wf unfolding outputs_ok_def same by simp
    with c a live same Some show ?thesis
      by (simp add: locks_counted_def nth_list_update)
  next
    case None
    let ?n = "length (or_owner reg)"
    have a: "a = ?n" "reg1 = reg\<lparr>or_outputs := bt_insert path ?n outs,
        or_owner := or_owner reg @ [None], or_strong := or_strong reg @ [1]\<rparr>"
      using b None by (auto simp: lock_begin_def Let_def outs_def [symmetric])
    have other: "bt_get (bt_insert path ?n outs) (oc_path x) = Some (oc_lock x)" if "x \<in> set cs" for x
      using live [OF that] None by (auto simp: bt_get_insert [OF wf])
    have "?n \<notin> set (map oc_lock cs)" using counted_bound [OF c] by fastforce
    then have zero: "count_list (map oc_lock cs) ?n = 0" by (simp add: count_list_0_iff)
    have "(or_strong reg @ [1]) ! b = count_list (?n # map oc_lock cs) b" if "b < Suc ?n" for b
      using that c zero by (cases "b = ?n") (auto simp: locks_counted_def nth_append)
    with c a other outputs_ok_insert [OF ok, of path] show ?thesis
      by (simp add: locks_counted_def bt_get_insert [OF wf])
  qed
qed

lemma find_lock_None: "List.find (\<lambda>c. oc_lock c = a) gs = None \<longleftrightarrow> a \<notin> oc_lock ` set gs"
  by (auto simp: find_None_iff)

lemma owners_held_acquire:
  assumes "owners_held reg gs" "or_owner reg ! oc_lock c = None" "oc_lock c < length (or_owner reg)"
  shows "owners_held (reg\<lparr>or_owner := (or_owner reg)[oc_lock c := Some (oc_thread c)]\<rparr>) (c # gs)"
proof -
  have "List.find (\<lambda>g. oc_lock g = oc_lock c) gs = None"
    using assms by (simp add: owners_held_def)
  then have "oc_lock c \<notin> oc_lock ` set gs" by (simp only: find_lock_None simp_thms)
  with assms show ?thesis by (auto simp: owners_held_def nth_list_update)
qed

lemma owners_held_drop:
  assumes "owners_held reg (xs @ c # zs)"
  shows "owners_held (reg\<lparr>or_owner := (or_owner reg)[oc_lock c := None]\<rparr>) (xs @ zs)"
proof -
  have d: "distinct (map oc_lock (xs @ c # zs))" using assms by (simp add: owners_held_def)
  have "List.find (\<lambda>g. oc_lock g = a) (xs @ zs) =
      (if a = oc_lock c then None else List.find (\<lambda>g. oc_lock g = a) (xs @ c # zs))" for a
  proof (cases "a = oc_lock c")
    case True
    with d have "a \<notin> oc_lock ` set (xs @ zs)" by auto
    then have "List.find (\<lambda>g. oc_lock g = a) (xs @ zs) = None" by (simp only: find_lock_None simp_thms)
    with True show ?thesis by simp
  next
    case False
    then show ?thesis by (induction xs) auto
  qed
  with assms d show ?thesis by (auto simp: owners_held_def nth_list_update)
qed

lemma owners_held_cong: "or_owner reg' = or_owner reg \<Longrightarrow> owners_held reg' gs = owners_held reg gs"
  by (simp add: owners_held_def)

lemma owners_held_grow:
  assumes "owners_held reg gs" "or_owner reg1 = or_owner reg @ [None]" "\<forall>c \<in> set gs. oc_lock c < length (or_owner reg)"
  shows "owners_held reg1 gs"
proof -
  have "length (or_owner reg) \<notin> oc_lock ` set gs" using assms(3) by auto
  then have "List.find (\<lambda>c. oc_lock c = length (or_owner reg)) gs = None" by (simp only: find_lock_None simp_thms)
  with assms show ?thesis by (auto simp: owners_held_def nth_append less_Suc_eq)
qed

lemma output_step_ok:
  assumes "output_step y y1" "locks_ok y"
  shows "locks_ok y1"
proof -
  have c: "locks_counted (os_registry y) (claims y)" and h: "owners_held (os_registry y) (os_guards y)"
    using assms(2) by (simp_all add: locks_ok_def)
  note bound = counted_bound [OF c]
  from assms(1) show ?thesis
  proof cases
    case (ostep_begin path a reg1 t)
    from lock_begin_counted [OF c ostep_begin(2), of t] have
      c1: "locks_counted reg1 (\<lparr>oc_thread = t, oc_path = path, oc_lock = a\<rparr> # claims y)"
      and o: "or_owner reg1 = or_owner (os_registry y) \<or> or_owner reg1 = or_owner (os_registry y) @ [None]" by auto
    have "owners_held reg1 (os_guards y)"
      using o h bound owners_held_cong owners_held_grow by (metis claims_def in_set_conv_decomp_first set_append Un_iff)
    with c1 ostep_begin show ?thesis by (simp add: locks_ok_def claims_def)
  next
    case (ostep_round xs d zs check r reg1)
    have c': "locks_counted (os_registry y) (d # xs @ zs @ os_guards y)"
      by (rule locks_counted_cong [OF c]) (simp add: claims_def ostep_round(2))
    have refused: "locks_ok (y\<lparr>os_registry := release_lock (oc_lock d) (os_registry y), os_waiting := xs @ zs\<rparr>)"
      using release_lock_counted [OF c'] h by (simp add: locks_ok_def claims_def owners_held_def)
    have taken: "locks_ok (y\<lparr>os_registry := (os_registry y)\<lparr>or_owner := (or_owner (os_registry y))[oc_lock d := Some (oc_thread d)]\<rparr>,
        os_waiting := xs @ zs, os_guards := d # os_guards y\<rparr>)" if "or_owner (os_registry y) ! oc_lock d = None"
    proof -
      have "locks_counted (os_registry y) (xs @ zs @ d # os_guards y)"
        by (rule locks_counted_cong [OF c']) simp
      moreover have "oc_lock d < length (or_owner (os_registry y))"
        by (rule bound) (simp add: claims_def ostep_round(2))
      ultimately show ?thesis
        using owners_held_acquire [OF h that] by (simp add: locks_ok_def claims_def owner_update_counted)
    qed
    show ?thesis
      using ostep_round(1,3) assms(2) refused taken
      by (auto simp: lock_round_def split: sum.splits option.splits if_splits)
  next
    case (ostep_drop xs d zs)
    have "locks_counted (os_registry y) (d # os_waiting y @ xs @ zs)"
      by (rule locks_counted_cong [OF c]) (simp add: claims_def ostep_drop(2))
    then have "locks_counted (output_guard_drop (oc_lock d) (os_registry y)) (os_waiting y @ xs @ zs)"
      unfolding output_guard_drop_def by (intro release_lock_counted) (simp add: owner_update_counted)
    moreover have "owners_held (output_guard_drop (oc_lock d) (os_registry y)) (xs @ zs)"
      using owners_held_drop [of "os_registry y" xs d zs] h ostep_drop(2)
      by (simp add: output_guard_drop_def owners_held_def)
    ultimately show ?thesis by (simp add: ostep_drop(1) locks_ok_def claims_def)
  qed
qed

interpretation ol: transition_system output_start output_step locks_ok
proof unfold_locales
  show "locks_ok output_start"
    by (simp add: locks_ok_def output_start_def claims_def locks_counted_def outputs_ok_def owners_held_def bt_get_def)
qed (rule output_step_ok)

section \<open>Properties\<close>

lemma claim_paths:
  assumes "locks_ok y" "c \<in> set (claims y)" "d \<in> set (claims y)"
  shows "oc_path c = oc_path d \<longleftrightarrow> oc_lock c = oc_lock d"
  using assms unfolding locks_ok_def locks_counted_def outputs_ok_def by (metis option.inject)

text \<open>
  C11. An output file has one writer. However the calls of several threads interleave, at most one guard
  exists for a folded path; and a waiting caller that is not cancelled gets the lock in its next round
  exactly when no guard has its path, so a dropped guard is never missed. A caller whose own thread holds
  the path is refused instead of waiting for itself.
\<close>

theorem outputs_have_one_writer:
  assumes "reachable_from output_step output_start y"
  shows "distinct (map oc_path (os_guards y)) \<and>
     (\<forall>c \<in> set (os_waiting y).
        (fst (lock_round (Inr ()) (oc_thread c) (oc_lock c) (os_registry y)) = LockAcquired \<longleftrightarrow>
           oc_path c \<notin> oc_path ` set (os_guards y)) \<and>
        (fst (lock_round (Inr ()) (oc_thread c) (oc_lock c) (os_registry y)) = LockWaiting \<longleftrightarrow>
           (\<exists>g \<in> set (os_guards y). oc_path g = oc_path c \<and> oc_thread g \<noteq> oc_thread c)))"
proof (intro conjI ballI)
  have ok: "locks_ok y" by (rule ol.inv_reachable [OF assms])
  then have held: "owners_held (os_registry y) (os_guards y)" and cnt: "locks_counted (os_registry y) (claims y)"
    by (simp_all add: locks_ok_def)
  have inj: "inj_on oc_lock (set (os_guards y))" "distinct (os_guards y)"
    using held by (simp_all add: owners_held_def distinct_map)
  have "inj_on oc_path (set (os_guards y))"
    using inj(1) claim_paths [OF ok] unfolding inj_on_def claims_def by (metis UnCI set_append)
  with inj(2) show "distinct (map oc_path (os_guards y))" by (simp add: distinct_map)
  fix c assume c: "c \<in> set (os_waiting y)"
  then have mem: "c \<in> set (claims y)" by (simp add: claims_def)
  define found where "found = List.find (\<lambda>g. oc_lock g = oc_lock c) (os_guards y)"
  have owner: "or_owner (os_registry y) ! oc_lock c = map_option oc_thread found"
    using held counted_bound [OF cnt mem] by (simp add: owners_held_def found_def)
  have same: "oc_lock g = oc_lock c \<longleftrightarrow> oc_path g = oc_path c" if "g \<in> set (os_guards y)" for g
    using claim_paths [OF ok _ mem, of g] that by (simp add: claims_def)
  have none: "found = None \<longleftrightarrow> oc_path c \<notin> oc_path ` set (os_guards y)"
    unfolding found_def find_lock_None image_iff
    by (rule arg_cong [where f = Not], rule bex_cong [OF refl]) (use same in \<open>simp add: eq_commute\<close>)
  show "fst (lock_round (Inr ()) (oc_thread c) (oc_lock c) (os_registry y)) = LockAcquired \<longleftrightarrow>
      oc_path c \<notin> oc_path ` set (os_guards y)"
    unfolding none [symmetric] by (simp add: lock_round_def owner split: option.splits)
  show "fst (lock_round (Inr ()) (oc_thread c) (oc_lock c) (os_registry y)) = LockWaiting \<longleftrightarrow>
      (\<exists>g \<in> set (os_guards y). oc_path g = oc_path c \<and> oc_thread g \<noteq> oc_thread c)"
  proof (cases found)
    case None
    with none show ?thesis by (auto simp: lock_round_def owner image_iff)
  next
    case (Some g)
    then have g: "g \<in> set (os_guards y)" "oc_lock g = oc_lock c"
      unfolding found_def by (auto simp: find_Some_iff)
    then have "h = g" if "h \<in> set (os_guards y)" "oc_path h = oc_path c" for h
      using inj(1) same [OF that(1)] that by (auto simp: inj_on_def)
    then have "(\<exists>h \<in> set (os_guards y). oc_path h = oc_path c \<and> oc_thread h \<noteq> oc_thread c) \<longleftrightarrow>
        oc_thread g \<noteq> oc_thread c" using g same [OF g(1)] by metis
    with Some show ?thesis by (simp add: lock_round_def owner)
  qed
qed

section \<open>Two threads\<close>

definition sample_locks :: output_system where
  "sample_locks =
     (let (a, reg1) = lock_begin ''/x'' (os_registry output_start);
          c = \<lparr>oc_thread = 1, oc_path = ''/x'', oc_lock = a\<rparr>;
          (r, reg2) = lock_round (Inr ()) 1 a reg1;
          (b, reg3) = lock_begin ''/x'' reg2
      in \<lparr>os_registry = reg3, os_waiting = [\<lparr>oc_thread = 2, oc_path = ''/x'', oc_lock = b\<rparr>], os_guards = [c]\<rparr>)"

lemma sample_locks_reachable: "reachable_from output_step output_start sample_locks"
proof -
  obtain a reg1 where 1: "lock_begin ''/x'' (os_registry output_start) = (a, reg1)" by force
  obtain r reg2 where 2: "lock_round (Inr ()) 1 a reg1 = (r, reg2)" by force
  obtain b reg3 where 3: "lock_begin ''/x'' reg2 = (b, reg3)" by force
  define c where "c = \<lparr>oc_thread = 1, oc_path = ''/x'', oc_lock = a\<rparr>"
  define y1 where "y1 = output_start\<lparr>os_registry := reg1, os_waiting := c # os_waiting output_start\<rparr>"
  define y2 where "y2 = y1\<lparr>os_registry := reg2, os_waiting := [], os_guards := c # os_guards y1\<rparr>"
  have "fst (lock_round (Inr ()) 1 (fst (lock_begin ''/x'' (os_registry output_start)))
      (snd (lock_begin ''/x'' (os_registry output_start)))) = LockAcquired" by code_simp
  then have r: "r = LockAcquired" using 1 2 by simp
  have "output_step output_start y1" unfolding y1_def c_def by (rule ostep_begin [OF 1])
  moreover have "output_step y1 y2"
    using ostep_round [of y1 "[]" c "[]" "Inr ()" r reg2] 2 r
    by (simp add: y1_def y2_def c_def output_start_def)
  moreover have "output_step y2 sample_locks"
    using ostep_begin [of "''/x''" y2 b reg3 2] 1 2 3
    by (simp add: y1_def y2_def c_def sample_locks_def output_start_def)
  ultimately show ?thesis by (blast intro: reach_step reach_start)
qed

theorem outputs_have_one_writer_witness:
  "fst (lock_round (Inr ()) 2 (oc_lock (hd (os_waiting sample_locks))) (os_registry sample_locks)) \<noteq> LockAcquired \<and>
   distinct (map oc_path (os_guards sample_locks))"
proof -
  have w: "os_waiting sample_locks = [\<lparr>oc_thread = 2, oc_path = ''/x'', oc_lock = oc_lock (hd (os_waiting sample_locks))\<rparr>]"
    and g: "map oc_path (os_guards sample_locks) = [''/x'']" by code_simp+
  have "hd (os_waiting sample_locks) \<in> set (os_waiting sample_locks)" using w by (metis list.sel(1) list.set_intros(1))
  with outputs_have_one_writer [OF sample_locks_reachable] w g show ?thesis
    by (metis list.set_intros(1) list.set_map list.sel(1) output_claim.select_convs(1,2))
qed

end
