(* ===== verification/Cookie_Jar.thy ===== *)
theory Cookie_Jar
  imports Network_Policy BTree_Map "HOL-Library.Product_Lexorder"
begin

text \<open>
  The cookie jar of an extension's HTTP client (\<open>crates/network/src/cookies.rs\<close>): reading \<open>Set-Cookie\<close>
  headers, replacement and expiry, and the \<open>Cookie\<close> header of a request. The cookie crate's reading of a
  header, the header name check, the URL crate's host parser and the calendar are arguments; instants are
  integers. A header value that is not text is absent.
\<close>

section \<open>The jar\<close>

record parsed_cookie =
  pc_name :: string
  pc_path :: "string option"
  pc_secure :: bool
  pc_expires :: "int option"

record cookie_env =
  ck_parse :: "string \<Rightarrow> parsed_cookie option"
  ck_name_ok :: "string \<Rightarrow> bool"
  ck_host :: "string \<Rightarrow> string option"
  ck_add :: "int \<Rightarrow> int \<Rightarrow> int option"

record cookie_entry =
  ce_value :: string
  ce_host_only :: bool
  ce_secure :: bool
  ce_expires :: "int option"
  ce_sequence :: nat

type_synonym cookie_key = "string \<times> string \<times> string \<times> string"

record cookie_jar =
  cj_entries :: "(cookie_key, cookie_entry) btmap"
  cj_sequence :: nat

definition jar_start :: cookie_jar where
  "jar_start = \<lparr>cj_entries = [], cj_sequence = 0\<rparr>"

section \<open>Hosts and paths\<close>

definition canonical_host :: "cookie_env \<Rightarrow> url_parts \<Rightarrow> string" where
  "canonical_host env url =
     (let host = (case strip_suffix ''.'' (u_hostname url) of None \<Rightarrow> u_hostname url | Some h \<Rightarrow> h) in
      case ck_host env host of None \<Rightarrow> to_ascii_lowercase host | Some h \<Rightarrow> h)"

definition is_address :: "string \<Rightarrow> bool" where
  "is_address host \<longleftrightarrow> parse_ip host \<noteq> None \<or> contains_char host (CHR '':'')"

definition jar_key :: "string \<Rightarrow> string" where
  "jar_key host =
     (if is_address host then host
      else case rfind_char (CHR ''.'') host of
             None \<Rightarrow> host
           | Some i \<Rightarrow>
               (case rfind_char (CHR ''.'') (take i host) of None \<Rightarrow> host | Some j \<Rightarrow> drop (Suc j) host))"

definition default_path :: "string \<Rightarrow> string" where
  "default_path path =
     (let e = (case rfind_char (CHR ''/'') path of None \<Rightarrow> 0 | Some i \<Rightarrow> i) in
      if \<not> starts_with path ''/'' \<or> e = 0 then ''/'' else take e path)"

section \<open>Reading a header\<close>

definition attribute_values :: "string \<Rightarrow> string \<Rightarrow> string list" where
  "attribute_values name raw =
     map (\<lambda>(_, v). trim v)
       (filter (\<lambda>(n, _). eq_ignore_ascii_case n name)
         (List.map_filter (\<lambda>a. split_once (CHR ''='') (trim a)) (tl (split_char (CHR '';'') raw))))"

definition last_or :: "'a \<Rightarrow> 'a list \<Rightarrow> 'a" where
  "last_or d xs = (if xs = [] then d else last xs)"

definition value_char :: "char \<Rightarrow> bool" where
  "value_char c \<longleftrightarrow> 32 \<le> byte_of c \<and> byte_of c < 127 \<and> c \<notin> {CHR 0x22, CHR '';'', CHR 0x5C}"

definition max_age :: "string \<Rightarrow> int option" where
  "max_age raw =
     (let ages = List.map_filter (\<lambda>v. case parse_i64 v of
                   Inl _ \<Rightarrow> None
                 | Inr s \<Rightarrow> if s \<noteq> 0 \<and> starts_with v ''0'' then None else Some s)
                 (attribute_values ''max-age'' raw)
      in if ages = [] then None else Some (last ages))"

text \<open>The domain that the cookie is for and whether only this host gets it; \<open>None\<close> drops the cookie.\<close>

definition cookie_domain :: "string \<Rightarrow> string \<Rightarrow> (string \<times> bool) option" where
  "cookie_domain host raw =
     (let raw_domain = last_or [] (attribute_values ''domain'' raw) in
      if raw_domain = [] then Some (host, True)
      else if is_address host then (if raw_domain \<noteq> host then None else Some (host, True))
      else
        (let domain = to_ascii_lowercase (case strip_prefix ''.'' raw_domain of None \<Rightarrow> raw_domain | Some d \<Rightarrow> d) in
         if domain = [] \<or> \<not> is_ascii domain \<or> starts_with domain ''.'' \<or> ends_with domain ''.'' \<or>
            (host \<noteq> domain \<and> \<not> ends_with host (''.'' @ domain))
         then None else Some (domain, False)))"

definition cookie_value :: "string \<Rightarrow> (string \<times> bool) option" where
  "cookie_value raw =
     (case split_once (CHR ''='') (hd (split_char (CHR '';'') raw)) of
        None \<Rightarrow> None
      | Some (_, v) \<Rightarrow>
          (let raw_value = trim v;
               quoted = starts_with raw_value [CHR 0x22] \<and> ends_with raw_value [CHR 0x22] \<and> length raw_value \<ge> 2;
               inner = (if quoted then take (length raw_value - 2) (drop 1 raw_value) else raw_value)
           in if list_all value_char inner then Some (inner, quoted) else None))"

definition stored_value :: "string \<times> bool \<Rightarrow> string" where
  "stored_value vq =
     (if snd vq \<or> contains_char (fst vq) (CHR '' '') \<or> contains_char (fst vq) (CHR '','')
      then [CHR 0x22] @ fst vq @ [CHR 0x22] else fst vq)"

definition cookie_expiry :: "cookie_env \<Rightarrow> int \<Rightarrow> parsed_cookie \<Rightarrow> string \<Rightarrow> int option" where
  "cookie_expiry env now c raw =
     (case max_age raw of
        Some seconds \<Rightarrow> if seconds \<le> 0 then Some now else ck_add env now seconds
      | None \<Rightarrow> pc_expires c)"

datatype cookie_reading = CookieIgnored | CookieExpired cookie_key | CookieKept cookie_key cookie_entry

text \<open>One header; the sequence number of the entry is chosen when it is stored.\<close>

definition read_cookie :: "cookie_env \<Rightarrow> int \<Rightarrow> url_parts \<Rightarrow> string \<Rightarrow> cookie_reading" where
  "read_cookie env now url raw =
     (let host = canonical_host env url in
      case ck_parse env raw of
        None \<Rightarrow> CookieIgnored
      | Some c \<Rightarrow>
          if \<not> ck_name_ok env (pc_name c) then CookieIgnored
          else (case cookie_value raw of
             None \<Rightarrow> CookieIgnored
           | Some v \<Rightarrow>
               (case cookie_domain host raw of
                  None \<Rightarrow> CookieIgnored
                | Some (domain, host_only) \<Rightarrow>
                    (let path = (case pc_path c of
                           Some p \<Rightarrow> if starts_with p ''/'' then p else default_path (u_path url)
                         | None \<Rightarrow> default_path (u_path url));
                         key = (jar_key host, domain, path, pc_name c);
                         expires = cookie_expiry env now c raw
                     in if (case expires of None \<Rightarrow> False | Some e \<Rightarrow> e \<le> now) then CookieExpired key
                        else CookieKept key
                          \<lparr>ce_value = stored_value v, ce_host_only = host_only, ce_secure = pc_secure c,
                           ce_expires = expires, ce_sequence = 0\<rparr>))))"

section \<open>Operations\<close>

definition store_cookie :: "cookie_env \<Rightarrow> int \<Rightarrow> url_parts \<Rightarrow> string option \<Rightarrow> cookie_jar \<Rightarrow> cookie_jar" where
  "store_cookie env now url header jar =
     (case header of
        None \<Rightarrow> jar
      | Some raw \<Rightarrow>
          (case read_cookie env now url raw of
             CookieIgnored \<Rightarrow> jar
           | CookieExpired key \<Rightarrow> jar\<lparr>cj_entries := bt_remove key (cj_entries jar)\<rparr>
           | CookieKept key e \<Rightarrow>
               (case bt_get (cj_entries jar) key of
                  Some old \<Rightarrow> jar\<lparr>cj_entries := bt_insert key (e\<lparr>ce_sequence := ce_sequence old\<rparr>) (cj_entries jar)\<rparr>
                | None \<Rightarrow>
                    jar\<lparr>cj_entries := bt_insert key (e\<lparr>ce_sequence := cj_sequence jar\<rparr>) (cj_entries jar),
                      cj_sequence := Suc (cj_sequence jar)\<rparr>)))"

definition jar_store :: "cookie_env \<Rightarrow> int \<Rightarrow> url_parts \<Rightarrow> string option list \<Rightarrow> cookie_jar \<Rightarrow> cookie_jar" where
  "jar_store env now url headers jar =
     (if length headers > 3000 then jar else fold (store_cookie env now url) headers jar)"

definition path_matches :: "string \<Rightarrow> string \<Rightarrow> bool" where
  "path_matches request path \<longleftrightarrow>
     request = path \<or>
     starts_with request path \<and> (ends_with path ''/'' \<or> length path < length request \<and> request ! length path = CHR ''/'')"

definition cookie_applies :: "string \<Rightarrow> url_parts \<Rightarrow> cookie_key \<times> cookie_entry \<Rightarrow> bool" where
  "cookie_applies host url kv =
     (case kv of ((jar, domain, path, name), e) \<Rightarrow>
        jar = jar_key host \<and> (\<not> ce_secure e \<or> u_scheme url = ''https'') \<and>
        (host = domain \<or> \<not> ce_host_only e \<and> ends_with host (''.'' @ domain)) \<and>
        path_matches (u_path url) path)"

definition cookie_le :: "cookie_key \<times> cookie_entry \<Rightarrow> cookie_key \<times> cookie_entry \<Rightarrow> bool" where
  "cookie_le a b =
     (case (a, b) of (((_, _, p, _), d), ((_, _, q, _), e)) \<Rightarrow> q < p \<or> p = q \<and> ce_sequence d \<le> ce_sequence e)"

fun insert_by :: "('a \<Rightarrow> 'a \<Rightarrow> bool) \<Rightarrow> 'a \<Rightarrow> 'a list \<Rightarrow> 'a list" where
  "insert_by le x [] = [x]"
| "insert_by le x (y # ys) = (if le x y then x # y # ys else y # insert_by le x ys)"

definition cookie_live :: "int \<Rightarrow> cookie_entry \<Rightarrow> bool" where
  "cookie_live now e = (case ce_expires e of None \<Rightarrow> True | Some t \<Rightarrow> t > now)"

definition live_cookies :: "int \<Rightarrow> cookie_jar \<Rightarrow> cookie_jar" where
  "live_cookies now jar =
     jar\<lparr>cj_entries := bt_retain (\<lambda>_. cookie_live now) (cj_entries jar)\<rparr>"

definition selected_cookies :: "cookie_env \<Rightarrow> url_parts \<Rightarrow> cookie_jar \<Rightarrow> (cookie_key \<times> cookie_entry) list" where
  "selected_cookies env url jar =
     foldr (insert_by cookie_le) (filter (cookie_applies (canonical_host env url) url) (cj_entries jar)) []"

fun join_cookies :: "string list \<Rightarrow> string" where
  "join_cookies [] = []"
| "join_cookies [c] = c"
| "join_cookies (c # cs) = c @ ''; '' @ join_cookies cs"

definition show_cookie :: "cookie_key \<times> cookie_entry \<Rightarrow> string" where
  "show_cookie kv = (case kv of ((_, _, _, name), e) \<Rightarrow> name @ ''='' @ ce_value e)"

definition jar_header :: "cookie_env \<Rightarrow> int \<Rightarrow> url_parts \<Rightarrow> cookie_jar \<Rightarrow> string \<times> cookie_jar" where
  "jar_header env now url jar =
     (let jar1 = live_cookies now jar in
      (join_cookies (map show_cookie (selected_cookies env url jar1)), jar1))"

definition jar_clear :: "cookie_jar \<Rightarrow> cookie_jar" where
  "jar_clear jar = jar\<lparr>cj_entries := []\<rparr>"

end
