(* ===== verification/Cookie_Sessions.thy ===== *)
theory Cookie_Sessions
  imports Cookie_Jar
begin

text \<open>
  Sessions of the cookie jar: any sequence of responses stored, headers asked for and clears. The reference
  for the contents is the last word that the stored responses have on a cookie, which knows nothing of the
  jar's map, its sequence numbers or of when expired entries are swept out; the reference for the order is
  the place in the session's log of the header that brought the cookie into the jar.
\<close>

section \<open>Sessions\<close>

datatype cookie_event =
    StoreCookies int url_parts "string option list"
  | CookieHeader int url_parts
  | ClearCookies

fun cookie_step :: "cookie_env \<Rightarrow> cookie_event \<Rightarrow> cookie_jar \<Rightarrow> cookie_jar" where
  "cookie_step env (StoreCookies now url headers) jar = jar_store env now url headers jar"
| "cookie_step env (CookieHeader now url) jar = snd (jar_header env now url jar)"
| "cookie_step env ClearCookies jar = jar_clear jar"

definition jar_after :: "cookie_env \<Rightarrow> cookie_event list \<Rightarrow> cookie_jar" where
  "jar_after env es = fold (cookie_step env) es jar_start"

fun event_times :: "cookie_event list \<Rightarrow> int list" where
  "event_times [] = []"
| "event_times (StoreCookies now _ _ # es) = now # event_times es"
| "event_times (CookieHeader now _ # es) = now # event_times es"
| "event_times (ClearCookies # es) = event_times es"

section \<open>The reference: the last word on a cookie\<close>

fun reading_on :: "cookie_key \<Rightarrow> cookie_reading \<Rightarrow> cookie_entry option \<Rightarrow> cookie_entry option" where
  "reading_on k CookieIgnored cur = cur"
| "reading_on k (CookieExpired k') cur = (if k = k' then None else cur)"
| "reading_on k (CookieKept k' e) cur = (if k = k' then Some e else cur)"

definition header_on ::
  "cookie_env \<Rightarrow> cookie_key \<Rightarrow> int \<Rightarrow> url_parts \<Rightarrow> string option \<Rightarrow> cookie_entry option \<Rightarrow> cookie_entry option" where
  "header_on env k now url header cur =
     (case header of None \<Rightarrow> cur | Some raw \<Rightarrow> reading_on k (read_cookie env now url raw) cur)"

fun event_on :: "cookie_env \<Rightarrow> cookie_key \<Rightarrow> cookie_event \<Rightarrow> cookie_entry option \<Rightarrow> cookie_entry option" where
  "event_on env k (StoreCookies now url headers) cur =
     (if length headers > 3000 then cur else fold (header_on env k now url) headers cur)"
| "event_on env k (CookieHeader now url) cur = cur"
| "event_on env k ClearCookies cur = None"

definition latest_cookie :: "cookie_env \<Rightarrow> cookie_event list \<Rightarrow> cookie_key \<Rightarrow> cookie_entry option" where
  "latest_cookie env es k = fold (event_on env k) es None"

definition unnumbered :: "cookie_entry \<Rightarrow> cookie_entry" where
  "unnumbered e = e\<lparr>ce_sequence := 0\<rparr>"

definition within_domain :: "string \<Rightarrow> string \<Rightarrow> bool" where
  "within_domain host domain \<longleftrightarrow> host = domain \<or> ends_with host (''.'' @ domain)"

definition cookie_before :: "cookie_key \<times> cookie_entry \<Rightarrow> cookie_key \<times> cookie_entry \<Rightarrow> bool" where
  "cookie_before a b =
     (case (a, b) of (((_, _, p, _), d), ((_, _, q, _), e)) \<Rightarrow> q < p \<or> p = q \<and> ce_sequence d < ce_sequence e)"

text \<open>
  The age of a cookie: the session as one log of \<open>Set-Cookie\<close> headers, sweeps of expired cookies and clears.
  A cookie is born at the place in the log of the header that first sets it; a later header that replaces it
  keeps that place, and a header that sets it again after it was expired, swept or cleared gives a new one.
\<close>

datatype cookie_word = SaysCookie int url_parts string | SweptAt int | ClearedJar

fun event_words :: "cookie_event \<Rightarrow> cookie_word list" where
  "event_words (StoreCookies now url headers) =
     (if length headers > 3000 then [] else map (SaysCookie now url) (List.map_filter (\<lambda>h. h) headers))"
| "event_words (CookieHeader now url) = [SweptAt now]"
| "event_words ClearCookies = [ClearedJar]"

fun word_on ::
  "cookie_env \<Rightarrow> cookie_key \<Rightarrow> nat \<times> cookie_word \<Rightarrow> (cookie_entry \<times> nat) option \<Rightarrow> (cookie_entry \<times> nat) option" where
  "word_on env k (n, SaysCookie now url raw) cur =
     (case read_cookie env now url raw of
        CookieIgnored \<Rightarrow> cur
      | CookieExpired k' \<Rightarrow> if k = k' then None else cur
      | CookieKept k' e \<Rightarrow>
          if k = k' then Some (e, case cur of None \<Rightarrow> n | Some (_, birth) \<Rightarrow> birth) else cur)"
| "word_on env k (n, SweptAt now) cur =
     (case cur of None \<Rightarrow> None | Some (e, birth) \<Rightarrow> if cookie_live now e then cur else None)"
| "word_on env k (n, ClearedJar) cur = None"

definition tracked_cookie :: "cookie_env \<Rightarrow> cookie_event list \<Rightarrow> cookie_key \<Rightarrow> (cookie_entry \<times> nat) option" where
  "tracked_cookie env es k = fold (word_on env k) (enumerate 0 (concat (map event_words es))) None"

definition older_first :: "cookie_key \<times> cookie_entry \<times> nat \<Rightarrow> cookie_key \<times> cookie_entry \<times> nat \<Rightarrow> bool" where
  "older_first a b = (case (a, b) of (((_, _, p, _), _, m), ((_, _, q, _), _, n)) \<Rightarrow> q < p \<or> p = q \<and> m < n)"

section \<open>What a header says\<close>

lemma read_cookie_Kept:
  assumes "read_cookie env now url raw = CookieKept (jar, d, path, name) e"
  shows "jar = jar_key (canonical_host env url) \<and> cookie_domain (canonical_host env url) raw = Some (d, ce_host_only e) \<and>
         (\<exists>v. cookie_value raw = Some v \<and> ce_value e = stored_value v) \<and> ce_sequence e = 0 \<and> cookie_live now e"
  using assms
  by (auto simp: read_cookie_def Let_def cookie_live_def split: option.splits if_splits prod.splits)

section \<open>The invariant\<close>

definition numbering :: "nat \<Rightarrow> ('k \<Rightarrow> cookie_entry option) \<Rightarrow> bool" where
  "numbering n f \<longleftrightarrow>
     (\<forall>k e. f k = Some e \<longrightarrow> ce_sequence e < n) \<and>
     (\<forall>k k' e e'. f k = Some e \<longrightarrow> f k' = Some e' \<longrightarrow> ce_sequence e = ce_sequence e' \<longrightarrow> k = k')"

definition numbered :: "cookie_jar \<Rightarrow> bool" where
  "numbered jar \<longleftrightarrow> numbering (cj_sequence jar) (bt_get (cj_entries jar))"

definition from_log :: "cookie_env \<Rightarrow> cookie_event list \<Rightarrow> cookie_key \<Rightarrow> cookie_entry \<Rightarrow> bool" where
  "from_log env es k e \<longleftrightarrow>
     (\<exists>now url headers raw. StoreCookies now url headers \<in> set es \<and> Some raw \<in> set headers \<and>
        read_cookie env now url raw = CookieKept k (unnumbered e))"

definition live_at :: "int \<Rightarrow> cookie_entry option \<Rightarrow> cookie_entry option" where
  "live_at t x = (case x of None \<Rightarrow> None | Some e \<Rightarrow> if cookie_live t e then Some e else None)"

definition jar_agrees :: "int \<Rightarrow> (cookie_key \<Rightarrow> cookie_entry option) \<Rightarrow> cookie_jar \<Rightarrow> bool" where
  "jar_agrees t f jar \<longleftrightarrow>
     bt_wf (cj_entries jar) \<and>
     (\<forall>k. live_at t (map_option unnumbered (bt_get (cj_entries jar) k)) = live_at t (f k))"

lemma unnumbered_simps [simp]:
  "ce_expires (unnumbered e) = ce_expires e" "ce_value (unnumbered e) = ce_value e"
  "ce_host_only (unnumbered e) = ce_host_only e" "ce_secure (unnumbered e) = ce_secure e"
  "ce_sequence (unnumbered e) = 0" "unnumbered (e\<lparr>ce_sequence := q\<rparr>) = unnumbered e"
  "cookie_live t (unnumbered e) = cookie_live t e" "cookie_applies h u (k, unnumbered e) = cookie_applies h u (k, e)"
  by (auto simp: unnumbered_def cookie_live_def cookie_applies_def split: prod.splits)

lemma unnumbered_zero: "ce_sequence e = 0 \<Longrightarrow> unnumbered e = e"
  by (simp add: unnumbered_def)

lemma cookie_live_later: "cookie_live t' e \<Longrightarrow> t \<le> t' \<Longrightarrow> cookie_live t e"
  by (auto simp: cookie_live_def split: option.splits)

lemma live_at_later: "t \<le> t' \<Longrightarrow> live_at t' (live_at t x) = live_at t' x"
  by (auto simp: live_at_def cookie_live_later split: option.splits)

lemma jar_agrees_later: "jar_agrees t f jar \<Longrightarrow> t \<le> t' \<Longrightarrow> jar_agrees t' f jar"
  unfolding jar_agrees_def by (metis live_at_later)

lemma numbering_sub: "numbering n f \<Longrightarrow> (\<And>k e. g k = Some e \<Longrightarrow> f k = Some e) \<Longrightarrow> numbering n g"
  unfolding numbering_def by blast

lemma numbering_replace:
  "numbering n f \<Longrightarrow> f k = Some old \<Longrightarrow> ce_sequence e = ce_sequence old \<Longrightarrow> numbering n (f(k \<mapsto> e))"
  unfolding numbering_def by (simp, metis)

lemma numbering_fresh: "numbering n f \<Longrightarrow> ce_sequence e = n \<Longrightarrow> numbering (Suc n) (f(k \<mapsto> e))"
  unfolding numbering_def by (simp add: less_Suc_eq, metis less_irrefl)

lemma numbering_inj: "numbering n f \<Longrightarrow> f k = Some e \<Longrightarrow> f k' = Some e' \<Longrightarrow> ce_sequence e = ce_sequence e' \<Longrightarrow> k = k'"
  unfolding numbering_def by blast

lemma bt_get_insert_upd: "bt_wf m \<Longrightarrow> bt_get (bt_insert k v m) = (bt_get m)(k \<mapsto> v)"
  by (rule ext) (simp add: bt_get_insert)

lemma numbered_start: "numbered jar_start"
  by (simp add: numbered_def numbering_def jar_start_def bt_get_def)

lemma numbered_sub:
  assumes "numbered jar" "\<And>k e. bt_get m k = Some e \<Longrightarrow> bt_get (cj_entries jar) k = Some e"
  shows "numbered (jar\<lparr>cj_entries := m\<rparr>)"
  using numbering_sub [OF assms(1) [unfolded numbered_def] assms(2)] by (simp add: numbered_def)

lemma numbered_replace:
  assumes "numbered jar" "bt_wf (cj_entries jar)" "bt_get (cj_entries jar) k = Some old"
  shows "numbered (jar\<lparr>cj_entries := bt_insert k (e\<lparr>ce_sequence := ce_sequence old\<rparr>) (cj_entries jar)\<rparr>)"
  using assms by (simp add: numbered_def bt_get_insert_upd numbering_replace)

lemma numbered_fresh:
  assumes "numbered jar" "bt_wf (cj_entries jar)"
  shows "numbered (jar\<lparr>cj_entries := bt_insert k (e\<lparr>ce_sequence := cj_sequence jar\<rparr>) (cj_entries jar),
                      cj_sequence := Suc (cj_sequence jar)\<rparr>)"
  using assms by (simp add: numbered_def bt_get_insert_upd numbering_fresh)

definition jar_fine :: "(cookie_key \<Rightarrow> cookie_entry \<Rightarrow> bool) \<Rightarrow> cookie_jar \<Rightarrow> bool" where
  "jar_fine origin jar \<longleftrightarrow>
     bt_wf (cj_entries jar) \<and> numbered jar \<and> (\<forall>k e. bt_get (cj_entries jar) k = Some e \<longrightarrow> origin k (unnumbered e))"

lemma jar_fine_mono: "jar_fine P jar \<Longrightarrow> (\<And>k e. P k e \<Longrightarrow> Q k e) \<Longrightarrow> jar_fine Q jar"
  by (auto simp: jar_fine_def)

lemma jar_fine_sub:
  assumes "jar_fine P jar" "bt_wf m" "\<And>k e. bt_get m k = Some e \<Longrightarrow> bt_get (cj_entries jar) k = Some e"
  shows "jar_fine P (jar\<lparr>cj_entries := m\<rparr>)"
  using assms by (auto simp: jar_fine_def intro: numbered_sub)

lemma live_cookies_fine: "jar_fine P jar \<Longrightarrow> jar_fine P (live_cookies now jar)"
  unfolding live_cookies_def
  by (rule jar_fine_sub) (auto simp: jar_fine_def bt_get_retain split: option.splits if_splits)

lemma jar_clear_fine: "jar_fine P jar \<Longrightarrow> jar_fine P (jar_clear jar)"
  unfolding jar_clear_def by (rule jar_fine_sub) (auto simp: bt_get_def)

lemma store_cookie_fine:
  assumes fine: "jar_fine P jar"
    and new: "\<And>raw k e. header = Some raw \<Longrightarrow> read_cookie env now url raw = CookieKept k e \<Longrightarrow> P k e"
  shows "jar_fine P (store_cookie env now url header jar)"
proof (cases header)
  case None
  then show ?thesis using fine by (simp add: store_cookie_def)
next
  case (Some raw)
  have wf: "bt_wf (cj_entries jar)" and num: "numbered jar"
    using fine by (simp_all add: jar_fine_def)
  show ?thesis
  proof (cases "read_cookie env now url raw")
    case CookieIgnored
    then show ?thesis using fine Some by (simp add: store_cookie_def)
  next
    case (CookieExpired key)
    have "jar_fine P (jar\<lparr>cj_entries := bt_remove key (cj_entries jar)\<rparr>)"
      using fine wf by (intro jar_fine_sub) (auto simp: bt_get_remove split: if_splits)
    then show ?thesis using CookieExpired Some by (simp add: store_cookie_def)
  next
    case (CookieKept key e)
    obtain j d p n where key: "key = (j, d, p, n)" by (cases key) auto
    have "P key e" "unnumbered e = e"
      using new Some CookieKept read_cookie_Kept CookieKept[unfolded key] by (auto intro: unnumbered_zero)
    then show ?thesis
      using fine wf num Some CookieKept
      by (cases "bt_get (cj_entries jar) key")
        (auto simp: store_cookie_def jar_fine_def bt_get_insert numbered_replace numbered_fresh)
  qed
qed

lemma jar_store_fine:
  assumes "jar_fine P jar"
    and "\<And>raw k e. Some raw \<in> set headers \<Longrightarrow> read_cookie env now url raw = CookieKept k e \<Longrightarrow> P k e"
  shows "jar_fine P (jar_store env now url headers jar)"
proof -
  have "jar_fine P (fold (store_cookie env now url) headers jar)"
    using assms
  proof (induction headers arbitrary: jar)
    case (Cons h headers)
    have "jar_fine P (store_cookie env now url h jar)"
      by (rule store_cookie_fine [OF Cons.prems(1)]) (rule Cons.prems(2) [rotated], assumption, simp)
    then have "jar_fine P (fold (store_cookie env now url) headers (store_cookie env now url h jar))"
      by (rule Cons.IH) (rule Cons.prems(2) [rotated], assumption, simp)
    then show ?case by simp
  qed simp
  then show ?thesis using assms(1) by (simp add: jar_store_def)
qed

lemma from_log_mono: "from_log env es k e \<Longrightarrow> set es \<subseteq> set es' \<Longrightarrow> from_log env es' k e"
  unfolding from_log_def by blast

lemma jar_after_snoc: "jar_after env (es @ [ev]) = cookie_step env ev (jar_after env es)"
  by (simp add: jar_after_def)

lemma jar_after_fine: "jar_fine (from_log env es) (jar_after env es)"
proof (induction es rule: rev_induct)
  case Nil
  then show ?case by (simp add: jar_after_def jar_fine_def numbered_start) (simp add: jar_start_def bt_get_def)
next
  case (snoc ev es)
  have fine: "jar_fine (from_log env (es @ [ev])) (jar_after env es)"
    by (rule jar_fine_mono [OF snoc.IH]) (auto elim: from_log_mono)
  have kept: "from_log env (es @ [StoreCookies now url hs]) k e"
    if "Some raw \<in> set hs" "read_cookie env now url raw = CookieKept k e" for now url hs raw k e
  proof -
    have "unnumbered e = e"
      using that(2) read_cookie_Kept by (cases k) (auto intro: unnumbered_zero)
    then show ?thesis using that unfolding from_log_def by auto
  qed
  show ?case
    using fine kept
    by (cases ev) (auto simp: jar_after_snoc jar_header_def Let_def live_cookies_fine jar_clear_fine intro: jar_store_fine)
qed

section \<open>Agreement with the reference\<close>

lemma jar_agrees_start: "jar_agrees t (latest_cookie env []) jar_start"
  by (simp add: jar_agrees_def jar_start_def latest_cookie_def bt_get_def)

lemma store_cookie_agrees:
  assumes "jar_agrees now f jar"
  shows "jar_agrees now (\<lambda>k. header_on env k now url header (f k)) (store_cookie env now url header jar)"
proof (cases header)
  case None
  then show ?thesis using assms by (simp add: store_cookie_def header_on_def)
next
  case (Some raw)
  have wf: "bt_wf (cj_entries jar)"
    and eq: "\<And>k. live_at now (map_option unnumbered (bt_get (cj_entries jar) k)) = live_at now (f k)"
    using assms unfolding jar_agrees_def by blast+
  show ?thesis
  proof (cases "read_cookie env now url raw")
    case CookieIgnored
    then show ?thesis using assms Some by (simp add: store_cookie_def header_on_def)
  next
    case (CookieExpired key)
    then show ?thesis using wf eq Some by (simp add: store_cookie_def header_on_def jar_agrees_def bt_get_remove)
  next
    case (CookieKept key e)
    have "unnumbered e = e"
      using CookieKept read_cookie_Kept by (cases key) (auto intro: unnumbered_zero)
    then show ?thesis using wf eq Some CookieKept
      by (cases "bt_get (cj_entries jar) key")
        (simp_all add: store_cookie_def header_on_def jar_agrees_def bt_get_insert)
  qed
qed

lemma jar_store_agrees:
  assumes "jar_agrees now f jar"
  shows "jar_agrees now (\<lambda>k. event_on env k (StoreCookies now url headers) (f k)) (jar_store env now url headers jar)"
proof -
  have "jar_agrees now (\<lambda>k. fold (header_on env k now url) headers (f k)) (fold (store_cookie env now url) headers jar)"
    using assms
  proof (induction headers arbitrary: f jar)
    case (Cons h headers)
    show ?case using Cons.IH [OF store_cookie_agrees [OF Cons.prems]] by simp
  qed simp
  then show ?thesis using assms by (simp add: jar_store_def)
qed

lemma live_cookies_agrees: "jar_agrees now f jar \<Longrightarrow> jar_agrees now f (live_cookies now jar)"
  by (fastforce simp: jar_agrees_def live_cookies_def bt_get_retain live_at_def split: option.splits if_splits)

lemma event_times_append: "event_times (xs @ ys) = event_times xs @ event_times ys"
  by (induction xs rule: event_times.induct) simp_all

lemma jar_after_agrees: "sorted (event_times es @ [now]) \<Longrightarrow> jar_agrees now (latest_cookie env es) (jar_after env es)"
proof (induction es arbitrary: now rule: rev_induct)
  case Nil
  then show ?case using jar_agrees_start by (simp add: jar_after_def)
next
  case (snoc ev es)
  have on: "latest_cookie env (es @ [ev]) = (\<lambda>k. event_on env k ev (latest_cookie env es k))"
    by (simp add: latest_cookie_def fun_eq_iff)
  show ?case
  proof (cases ev)
    case (StoreCookies t url hs)
    then have "sorted (event_times es @ [t])" "t \<le> now"
      using snoc.prems by (auto simp: event_times_append sorted_append)
    then show ?thesis
      unfolding on jar_after_snoc unfolding StoreCookies cookie_step.simps
      by (intro jar_agrees_later [OF jar_store_agrees [OF snoc.IH]])
  next
    case (CookieHeader t url)
    then have "sorted (event_times es @ [t])" "t \<le> now"
      using snoc.prems by (auto simp: event_times_append sorted_append)
    then show ?thesis
      unfolding on jar_after_snoc unfolding CookieHeader cookie_step.simps event_on.simps jar_header_def Let_def snd_conv
      by (intro jar_agrees_later [OF live_cookies_agrees [OF snoc.IH]])
  next
    case ClearCookies
    then show ?thesis unfolding on jar_after_snoc by (simp add: jar_clear_def jar_agrees_def bt_get_def)
  qed
qed

section \<open>The order of a header\<close>

lemma set_insert_by: "set (insert_by le x xs) = insert x (set xs)"
  by (induction xs) auto

lemma distinct_insert_by: "distinct (map f (insert_by le x xs)) \<longleftrightarrow> distinct (map f (x # xs))"
  by (induction xs) (auto simp: set_insert_by)

lemma sorted_insert_by:
  assumes "\<And>x y. le x y \<or> le y x" "\<And>x y z. le x y \<Longrightarrow> le y z \<Longrightarrow> le x z"
  shows "sorted_wrt le xs \<Longrightarrow> sorted_wrt le (insert_by le x xs)"
proof (induction xs)
  case (Cons y ys)
  have "\<not> le x y \<Longrightarrow> le y x" using assms(1) by blast
  then show ?case using Cons by (auto simp: set_insert_by intro: assms(2))
qed simp

lemma set_sorted_by: "set (foldr (insert_by le) xs []) = set xs"
  by (induction xs) (simp_all add: set_insert_by)

lemma distinct_sorted_by: "distinct (map f (foldr (insert_by le) xs [])) \<longleftrightarrow> distinct (map f xs)"
  by (induction xs) (auto simp: distinct_insert_by set_sorted_by)

lemma cookie_le_total: "cookie_le a b \<or> cookie_le b a"
  by (auto simp: cookie_le_def split: prod.splits)

lemma cookie_le_trans: "cookie_le a b \<Longrightarrow> cookie_le b c \<Longrightarrow> cookie_le a c"
  by (auto simp: cookie_le_def split: prod.splits)

lemma selected_sorted: "sorted_wrt cookie_le (selected_cookies env url jar)"
proof -
  have "sorted_wrt cookie_le (foldr (insert_by cookie_le) xs [])" for xs
    by (induction xs) (simp_all add: sorted_insert_by cookie_le_total cookie_le_trans)
  then show ?thesis by (simp add: selected_cookies_def)
qed

lemma set_selected:
  "set (selected_cookies env url jar) = {kv \<in> set (cj_entries jar). cookie_applies (canonical_host env url) url kv}"
  by (auto simp: selected_cookies_def set_sorted_by)

lemma selected_distinct: "bt_wf (cj_entries jar) \<Longrightarrow> distinct (map fst (selected_cookies env url jar))"
  unfolding selected_cookies_def distinct_sorted_by by (intro bt_wf_distinct bt_wf_filter)

lemma option_eq_Some_iff: "(\<And>e. x = Some e \<longleftrightarrow> y = Some e) \<Longrightarrow> x = y"
  by (cases x; cases y) auto

lemma map_of_selected:
  assumes "bt_wf (cj_entries jar)"
  shows "map_of (selected_cookies env url jar) k =
     (case bt_get (cj_entries jar) k of
        None \<Rightarrow> None
      | Some e \<Rightarrow> if cookie_applies (canonical_host env url) url (k, e) then Some e else None)"
proof (rule option_eq_Some_iff)
  fix e
  have "map_of (selected_cookies env url jar) k = Some e \<longleftrightarrow>
        bt_get (cj_entries jar) k = Some e \<and> cookie_applies (canonical_host env url) url (k, e)"
    using selected_distinct [OF assms] by (simp add: set_selected bt_get_iff [OF assms])
  then show "map_of (selected_cookies env url jar) k = Some e \<longleftrightarrow>
     (case bt_get (cj_entries jar) k of
        None \<Rightarrow> None
      | Some e \<Rightarrow> if cookie_applies (canonical_host env url) url (k, e) then Some e else None) = Some e"
    by (cases "bt_get (cj_entries jar) k") auto
qed

lemma selected_strict:
  assumes "bt_wf (cj_entries jar)" "numbered jar"
  shows "sorted_wrt cookie_before (selected_cookies env url jar)"
proof (unfold sorted_wrt_iff_nth_less, intro allI impI)
  let ?cs = "selected_cookies env url jar"
  fix i j
  assume ij: "i < j" "j < length ?cs"
  have in_jar: "bt_get (cj_entries jar) (fst (?cs ! n)) = Some (snd (?cs ! n))" if "n < length ?cs" for n
    using nth_mem [OF that] by (simp add: set_selected bt_get_iff [OF assms(1)])
  have "fst (?cs ! i) \<noteq> fst (?cs ! j)"
    using selected_distinct [OF assms(1)] ij by (simp add: distinct_conv_nth)
  then have "ce_sequence (snd (?cs ! i)) \<noteq> ce_sequence (snd (?cs ! j))"
    using numbering_inj [OF assms(2) [unfolded numbered_def] in_jar [of i] in_jar [of j]] ij by auto
  moreover have "cookie_le (?cs ! i) (?cs ! j)"
    using selected_sorted ij by (simp add: sorted_wrt_iff_nth_less)
  ultimately show "cookie_before (?cs ! i) (?cs ! j)"
    by (auto simp: cookie_le_def cookie_before_def split: prod.splits)
qed

section \<open>The age of a cookie\<close>

fun word_step :: "cookie_env \<Rightarrow> cookie_word \<Rightarrow> cookie_jar \<Rightarrow> cookie_jar" where
  "word_step env (SaysCookie now url raw) jar = store_cookie env now url (Some raw) jar"
| "word_step env (SweptAt now) jar = live_cookies now jar"
| "word_step env ClearedJar jar = jar_clear jar"

lemma fold_store_words:
  "fold (store_cookie env now url) headers jar =
     fold (word_step env) (map (SaysCookie now url) (List.map_filter (\<lambda>h. h) headers)) jar"
proof (induction headers arbitrary: jar)
  case (Cons h headers)
  then show ?case by (cases h) (simp_all add: map_filter_simps store_cookie_def)
qed (simp add: map_filter_simps)

lemma cookie_step_words: "cookie_step env ev jar = fold (word_step env) (event_words ev) jar"
  by (cases ev) (simp_all add: jar_store_def fold_store_words jar_header_def Let_def)

lemma jar_after_words: "jar_after env es = fold (word_step env) (concat (map event_words es)) jar_start"
proof -
  have "fold (cookie_step env) es jar = fold (word_step env) (concat (map event_words es)) jar" for jar
    by (induction es arbitrary: jar) (simp_all add: cookie_step_words)
  then show ?thesis by (simp add: jar_after_def)
qed

definition follows_births :: "nat \<Rightarrow> (nat \<Rightarrow> nat) \<Rightarrow> ('k \<Rightarrow> (cookie_entry \<times> nat) option) \<Rightarrow> nat \<Rightarrow> ('k \<Rightarrow> cookie_entry option) \<Rightarrow> bool" where
  "follows_births n births T m g \<longleftrightarrow>
     (\<forall>i j. i < j \<longrightarrow> j < m \<longrightarrow> births i < births j) \<and> (\<forall>i < m. births i < n) \<and>
     (\<forall>k e. g k = Some e \<longrightarrow> ce_sequence e < m) \<and>
     (\<forall>k. T k = map_option (\<lambda>e. (unnumbered e, births (ce_sequence e))) (g k))"

lemma tracks_at: "follows_births n births T m g \<Longrightarrow> T k = map_option (\<lambda>e. (unnumbered e, births (ce_sequence e))) (g k)"
  unfolding follows_births_def by blast

lemma tracks_wait: "follows_births n births T m g \<Longrightarrow> follows_births (Suc n) births T m g"
  unfolding follows_births_def by (auto simp: less_Suc_eq)

lemma tracks_sub:
  assumes "follows_births n births T m g" "\<And>k. g' k = (if keep k (g k) then g k else None)"
    "\<And>k. T' k = (if keep k (g k) then T k else None)"
  shows "follows_births n births T' m g'"
  using assms unfolding follows_births_def by (auto split: if_splits)

lemma tracks_replace:
  assumes "follows_births n births T m g" "g k = Some old" "ce_sequence e = ce_sequence old"
  shows "follows_births n births (T(k \<mapsto> (unnumbered e, births (ce_sequence old)))) m (g(k \<mapsto> e))"
  using assms unfolding follows_births_def by (auto split: if_splits)

lemma tracks_new:
  assumes "follows_births n births T m g" "ce_sequence e = m"
  shows "follows_births (Suc n) (births(m := n)) (T(k \<mapsto> (unnumbered e, n))) (Suc m) (g(k \<mapsto> e))"
proof -
  have "T k' = map_option (\<lambda>e. (unnumbered e, (births(m := n)) (ce_sequence e))) (g k')" for k'
    using assms(1) unfolding follows_births_def by (cases "g k'") (auto dest!: spec [of _ k'])
  then show ?thesis using assms unfolding follows_births_def by (auto simp: less_Suc_eq)
qed

definition jar_tracks :: "nat \<Rightarrow> (cookie_key \<Rightarrow> (cookie_entry \<times> nat) option) \<Rightarrow> cookie_jar \<Rightarrow> bool" where
  "jar_tracks n T jar \<longleftrightarrow>
     bt_wf (cj_entries jar) \<and> (\<exists>births. follows_births n births T (cj_sequence jar) (bt_get (cj_entries jar)))"

lemma store_cookie_tracks:
  assumes "jar_tracks n T jar"
  shows "jar_tracks (Suc n) (\<lambda>k. word_on env k (n, SaysCookie now url raw) (T k)) (store_cookie env now url (Some raw) jar)"
proof -
  obtain births where wf: "bt_wf (cj_entries jar)"
    and tr: "follows_births n births T (cj_sequence jar) (bt_get (cj_entries jar))"
    using assms unfolding jar_tracks_def by blast
  note at = tracks_at [OF tr]
  show ?thesis
  proof (cases "read_cookie env now url raw")
    case CookieIgnored
    then show ?thesis using wf tracks_wait [OF tr] by (auto simp: store_cookie_def jar_tracks_def)
  next
    case (CookieExpired key)
    have "follows_births n births (\<lambda>k. if k = key then None else T k) (cj_sequence jar) (bt_get (bt_remove key (cj_entries jar)))"
      by (rule tracks_sub [OF tr, where keep = "\<lambda>k _. k \<noteq> key"]) (simp_all add: bt_get_remove)
    from tracks_wait [OF this] show ?thesis
      using wf CookieExpired by (auto simp: store_cookie_def jar_tracks_def)
  next
    case (CookieKept key e)
    have zero: "unnumbered e = e"
      using CookieKept read_cookie_Kept by (cases key) (auto intro: unnumbered_zero)
    have upd: "(\<lambda>k. word_on env k (n, SaysCookie now url raw) (T k)) =
        T(key \<mapsto> (e, case T key of None \<Rightarrow> n | Some (_, birth) \<Rightarrow> birth))"
      using CookieKept by (simp add: fun_eq_iff)
    show ?thesis
    proof (cases "bt_get (cj_entries jar) key")
      case None
      have "follows_births (Suc n) (births(cj_sequence jar := n)) (T(key \<mapsto> (e, n))) (Suc (cj_sequence jar))
          ((bt_get (cj_entries jar))(key \<mapsto> e\<lparr>ce_sequence := cj_sequence jar\<rparr>))"
        using tracks_new [OF tr, of "e\<lparr>ce_sequence := cj_sequence jar\<rparr>" key] zero by simp
      then show ?thesis using None wf CookieKept at [of key] unfolding upd
        by (auto simp: store_cookie_def jar_tracks_def bt_get_insert_upd)
    next
      case (Some old)
      have "follows_births n births (T(key \<mapsto> (e, births (ce_sequence old)))) (cj_sequence jar)
          ((bt_get (cj_entries jar))(key \<mapsto> e\<lparr>ce_sequence := ce_sequence old\<rparr>))"
        using tracks_replace [OF tr Some, of "e\<lparr>ce_sequence := ce_sequence old\<rparr>"] zero by simp
      from tracks_wait [OF this] show ?thesis using Some wf CookieKept at [of key] unfolding upd
        by (auto simp: store_cookie_def jar_tracks_def bt_get_insert_upd)
    qed
  qed
qed

lemma live_cookies_tracks:
  assumes "jar_tracks n T jar"
  shows "jar_tracks (Suc n) (\<lambda>k. word_on env k (n, SweptAt now) (T k)) (live_cookies now jar)"
proof -
  obtain births where wf: "bt_wf (cj_entries jar)"
    and tr: "follows_births n births T (cj_sequence jar) (bt_get (cj_entries jar))"
    using assms unfolding jar_tracks_def by blast
  note at = tracks_at [OF tr]
  have "follows_births n births (\<lambda>k. word_on env k (n, SweptAt now) (T k)) (cj_sequence jar)
      (bt_get (bt_retain (\<lambda>_. cookie_live now) (cj_entries jar)))"
    by (rule tracks_sub [OF tr, where keep = "\<lambda>k x. case x of None \<Rightarrow> False | Some e \<Rightarrow> cookie_live now e"])
      (auto simp: bt_get_retain [OF wf] at split: option.splits)
  then show ?thesis
    unfolding jar_tracks_def live_cookies_def using wf by (auto intro: tracks_wait)
qed

lemma bt_get_Nil: "bt_get [] = (\<lambda>_. None)"
  by (simp add: fun_eq_iff bt_get_def)

lemma word_step_tracks:
  "jar_tracks n T jar \<Longrightarrow> jar_tracks (Suc n) (\<lambda>k. word_on env k (n, w) (T k)) (word_step env w jar)"
proof (cases w)
  case ClearedJar
  assume "jar_tracks n T jar"
  then obtain births where "follows_births n births T (cj_sequence jar) (bt_get (cj_entries jar))"
    unfolding jar_tracks_def by blast
  from tracks_wait [OF tracks_sub [OF this, of "\<lambda>_. None" "\<lambda>_ _. False" "\<lambda>_. None"]]
  have "follows_births (Suc n) births (\<lambda>_ :: cookie_key. None) (cj_sequence jar) (\<lambda>_. None)" by simp
  then show ?thesis unfolding ClearedJar by (auto simp: jar_tracks_def jar_clear_def bt_get_Nil)
qed (simp_all only: word_step.simps store_cookie_tracks live_cookies_tracks)

lemma words_track:
  "jar_tracks n T jar \<Longrightarrow>
     jar_tracks (n + length ws) (\<lambda>k. fold (word_on env k) (enumerate n ws) (T k)) (fold (word_step env) ws jar)"
proof (induction ws arbitrary: n T jar)
  case (Cons w ws)
  from Cons.IH [OF word_step_tracks [OF Cons.prems]] show ?case by simp
qed simp

lemma jar_after_tracks:
  "jar_tracks (length (concat (map event_words es))) (tracked_cookie env es) (jar_after env es)"
proof -
  have "jar_tracks 0 (\<lambda>_. None) jar_start"
    by (simp add: jar_tracks_def follows_births_def jar_start_def bt_get_def)
  from words_track [OF this, of "concat (map event_words es)" env] show ?thesis
    unfolding jar_after_words tracked_cookie_def by simp
qed


definition with_birth :: "(nat \<Rightarrow> nat) \<Rightarrow> 'k \<times> cookie_entry \<Rightarrow> 'k \<times> cookie_entry \<times> nat" where
  "with_birth births kv = (fst kv, unnumbered (snd kv), births (ce_sequence (snd kv)))"

lemma map_of_with_birth:
  "map_of (map (with_birth births) kvs) k = map_option (\<lambda>e. (unnumbered e, births (ce_sequence e))) (map_of kvs k)"
  by (induction kvs) (auto simp: with_birth_def)

lemma show_with_birth: "show_cookie (fst (with_birth births kv), fst (snd (with_birth births kv))) = show_cookie kv"
  by (auto simp: with_birth_def show_cookie_def split: prod.splits)

lemma selected_older_first:
  assumes "bt_wf (cj_entries jar)" "numbered jar"
    and tr: "follows_births n births T (cj_sequence jar) (bt_get (cj_entries jar))"
  shows "sorted_wrt older_first (map (with_birth births) (selected_cookies env url jar))"
proof -
  have "older_first (with_birth births a) (with_birth births b)"
    if "a \<in> set (selected_cookies env url jar)" "b \<in> set (selected_cookies env url jar)" "cookie_before a b" for a b
  proof -
    have "bt_get (cj_entries jar) (fst b) = Some (snd b)"
      using that(2) by (simp add: set_selected bt_get_iff [OF assms(1)])
    then have "ce_sequence (snd b) < cj_sequence jar" using tr unfolding follows_births_def by blast
    then have "ce_sequence (snd a) < ce_sequence (snd b) \<longrightarrow> births (ce_sequence (snd a)) < births (ce_sequence (snd b))"
      using tr unfolding follows_births_def by blast
    then show ?thesis
      using that(3) by (auto simp: cookie_before_def older_first_def with_birth_def split: prod.splits)
  qed
  then show ?thesis
    unfolding sorted_wrt_map by (rule sorted_wrt_mono_rel [OF _ selected_strict [OF assms(1,2)]])
qed

lemma tracked_is_latest:
  assumes "sorted (event_times es @ [now])"
  shows "live_at now (map_option fst (tracked_cookie env es k)) = live_at now (latest_cookie env es k)"
proof -
  have "map_option fst (tracked_cookie env es k) = map_option unnumbered (bt_get (cj_entries (jar_after env es)) k)"
    using jar_after_tracks [of es env] unfolding jar_tracks_def by (elim conjE exE) (simp add: tracks_at option.map_comp comp_def)
  then show ?thesis using jar_after_agrees [OF assms] unfolding jar_agrees_def by (simp only:)
qed

section \<open>The jar keeps the last word\<close>

text \<open>
  C13. The \<open>Cookie\<close> header of a request lists exactly the cookies that are in force, in their order. After any
  session of stored responses, requests and clears the header is that of a list in which each cookie (site,
  domain, path and name) stands once, and stands there if and only if the reference follows_births it, it has not
  expired by now and it applies to the URL, with the value that the reference has. Greater paths, in particular
  longer ones below the same path, come first, and among equal paths the cookie that was born earlier in the
  session's log comes first, where replacing a cookie does not change its birth. On a clock that does not run
  backwards what is tracked and has not expired is what the last response that speaks of the cookie since the
  last clear said.
\<close>

theorem cookie_header_is_latest:
  "(\<exists>cs. fst (jar_header env now url (jar_after env es)) =
           join_cookies (map (\<lambda>(k, e, birth). show_cookie (k, e)) cs) \<and>
         distinct (map fst cs) \<and> sorted_wrt older_first cs \<and>
         (\<forall>k. map_of cs k =
            (case tracked_cookie env es k of
               None \<Rightarrow> None
             | Some (e, birth) \<Rightarrow>
                 if cookie_live now e \<and> cookie_applies (canonical_host env url) url (k, e)
                 then Some (e, birth) else None))) \<and>
   (sorted (event_times es @ [now]) \<longrightarrow>
      (\<forall>k. live_at now (map_option fst (tracked_cookie env es k)) = live_at now (latest_cookie env es k)))"
proof (intro conjI impI allI)
  let ?jar = "live_cookies now (jar_after env es)"
  have fine: "jar_fine (from_log env es) ?jar"
    by (intro live_cookies_fine jar_after_fine)
  then have wf: "bt_wf (cj_entries ?jar)" "numbered ?jar" by (simp_all add: jar_fine_def)
  obtain n births where tr: "follows_births n births (\<lambda>k. word_on env k (0, SweptAt now) (tracked_cookie env es k))
      (cj_sequence ?jar) (bt_get (cj_entries ?jar))"
    using live_cookies_tracks [OF jar_after_tracks] unfolding jar_tracks_def by fastforce
  let ?cs = "map (with_birth births) (selected_cookies env url ?jar)"
  have "fst (jar_header env now url (jar_after env es)) = join_cookies (map (\<lambda>(k, e, birth). show_cookie (k, e)) ?cs)"
    by (simp add: jar_header_def Let_def comp_def case_prod_beta show_with_birth)
  moreover have "distinct (map fst ?cs)"
    using selected_distinct [OF wf(1)] by (simp add: comp_def with_birth_def)
  moreover have "map_of ?cs k =
      (case tracked_cookie env es k of
         None \<Rightarrow> None
       | Some (e, birth) \<Rightarrow>
           if cookie_live now e \<and> cookie_applies (canonical_host env url) url (k, e) then Some (e, birth) else None)" for k
  proof -
    have "word_on env k (0, SweptAt now) (tracked_cookie env es k) =
        map_option (\<lambda>e. (unnumbered e, births (ce_sequence e))) (bt_get (cj_entries ?jar) k)"
      by (rule tracks_at [OF tr])
    then show ?thesis unfolding map_of_with_birth map_of_selected [OF wf(1)]
      by (auto split: option.splits if_splits)
  qed
  ultimately show "\<exists>cs. fst (jar_header env now url (jar_after env es)) =
           join_cookies (map (\<lambda>(k, e, birth). show_cookie (k, e)) cs) \<and>
         distinct (map fst cs) \<and> sorted_wrt older_first cs \<and>
         (\<forall>k. map_of cs k =
            (case tracked_cookie env es k of
               None \<Rightarrow> None
             | Some (e, birth) \<Rightarrow>
                 if cookie_live now e \<and> cookie_applies (canonical_host env url) url (k, e)
                 then Some (e, birth) else None))"
    using selected_older_first [OF wf tr] by blast
qed (rule tracked_is_latest)

section \<open>Cookies stay in their site\<close>

text \<open>
  Where a \<open>Set-Cookie\<close> header allows its cookie to go, read from the header alone: the cookie of \<open>raw\<close>, sent by
  \<open>setter\<close> at \<open>t\<close>, may be shown as \<open>shown\<close> to \<open>url\<close> at \<open>now\<close>.
\<close>

definition domain_allows :: "string \<Rightarrow> string \<Rightarrow> string \<Rightarrow> bool" where
  "domain_allows setter host raw =
     (let named = last_or [] (attribute_values ''domain'' raw) in
      jar_key setter = jar_key host \<and>
      (if named = [] \<or> is_address setter then setter = host
       else let domain = to_ascii_lowercase (case strip_prefix ''.'' named of None \<Rightarrow> named | Some d \<Rightarrow> d) in
            domain \<noteq> [] \<and> within_domain setter domain \<and> within_domain host domain))"

definition path_allows :: "parsed_cookie \<Rightarrow> string \<Rightarrow> string \<Rightarrow> bool" where
  "path_allows c setter_path request =
     path_matches request
       (case pc_path c of
          Some p \<Rightarrow> if starts_with p ''/'' then p else default_path setter_path
        | None \<Rightarrow> default_path setter_path)"

definition goes_back :: "cookie_env \<Rightarrow> int \<Rightarrow> url_parts \<Rightarrow> string \<Rightarrow> int \<Rightarrow> url_parts \<Rightarrow> string \<Rightarrow> bool" where
  "goes_back env t setter raw now url shown =
     (case (ck_parse env raw, cookie_value raw) of
        (Some c, Some v) \<Rightarrow>
          shown = pc_name c @ ''='' @ stored_value v \<and> ck_name_ok env (pc_name c) \<and>
          domain_allows (canonical_host env setter) (canonical_host env url) raw \<and>
          path_allows c (u_path setter) (u_path url) \<and>
          (pc_secure c \<longrightarrow> u_scheme url = ''https'') \<and>
          (case cookie_expiry env t c raw of None \<Rightarrow> True | Some e \<Rightarrow> t < e \<and> now < e)
      | _ \<Rightarrow> False)"

lemma read_cookie_fields:
  assumes "read_cookie env t setter raw = CookieKept (site, domain, path, name) e"
  obtains c v where "ck_parse env raw = Some c" "cookie_value raw = Some v" "ck_name_ok env (pc_name c)"
    "name = pc_name c" "ce_value e = stored_value v" "ce_secure e = pc_secure c" "site = jar_key (canonical_host env setter)"
    "path = (case pc_path c of
        Some p \<Rightarrow> if starts_with p ''/'' then p else default_path (u_path setter) | None \<Rightarrow> default_path (u_path setter))"
    "cookie_domain (canonical_host env setter) raw = Some (domain, ce_host_only e)"
    "ce_expires e = cookie_expiry env t c raw" "cookie_live t e"
  using assms by (auto simp: read_cookie_def Let_def cookie_live_def split: option.splits if_splits prod.splits)

lemma domain_allowsI:
  assumes "cookie_domain setter raw = Some (domain, host_only)" "jar_key setter = jar_key host"
    "host = domain \<or> \<not> host_only \<and> ends_with host (''.'' @ domain)"
  shows "domain_allows setter host raw"
  using assms by (auto simp: cookie_domain_def domain_allows_def within_domain_def Let_def split: if_splits)

lemma read_cookie_goes_back:
  assumes read: "read_cookie env t setter raw = CookieKept k e"
    and applies: "cookie_applies (canonical_host env url) url (k, e)" and live: "cookie_live now e"
  shows "goes_back env t setter raw now url (show_cookie (k, e))"
proof -
  obtain site domain path name where k: "k = (site, domain, path, name)" by (cases k) auto
  from read [unfolded k] obtain c v where
    c: "ck_parse env raw = Some c" "cookie_value raw = Some v" "ck_name_ok env (pc_name c)" and
    f: "name = pc_name c" "ce_value e = stored_value v" "ce_secure e = pc_secure c" "site = jar_key (canonical_host env setter)" and
    p: "path = (case pc_path c of
        Some p \<Rightarrow> if starts_with p ''/'' then p else default_path (u_path setter) | None \<Rightarrow> default_path (u_path setter))" and
    d: "cookie_domain (canonical_host env setter) raw = Some (domain, ce_host_only e)" and
    x: "ce_expires e = cookie_expiry env t c raw" "cookie_live t e"
    by (rule read_cookie_fields)
  have a: "site = jar_key (canonical_host env url)" "\<not> ce_secure e \<or> u_scheme url = ''https''"
    "canonical_host env url = domain \<or> \<not> ce_host_only e \<and> ends_with (canonical_host env url) (''.'' @ domain)"
    "path_matches (u_path url) path"
    using applies by (simp_all add: cookie_applies_def k)
  have "domain_allows (canonical_host env setter) (canonical_host env url) raw"
    using domain_allowsI [OF d _ a(3)] f(4) a(1) by simp
  moreover have "path_allows c (u_path setter) (u_path url)" using a(4) unfolding p path_allows_def .
  ultimately show ?thesis
    using c f(1-3) a(2) x live by (auto simp: goes_back_def show_cookie_def k cookie_live_def split: option.splits)
qed

lemma selected_in_jar:
  assumes "(k, e) \<in> set (selected_cookies env url (live_cookies now (jar_after env es)))"
  shows "cookie_live now e" "from_log env es k e" "cookie_applies (canonical_host env url) url (k, e)"
proof -
  let ?jar = "live_cookies now (jar_after env es)"
  have fine: "jar_fine (from_log env es) ?jar"
    by (intro live_cookies_fine jar_after_fine)
  then have wf: "bt_wf (cj_entries ?jar)" by (simp add: jar_fine_def)
  have in_jar: "bt_get (cj_entries ?jar) k = Some e"
    using assms by (simp add: set_selected bt_get_iff [OF wf])
  show "cookie_live now e"
    using assms by (simp add: set_selected live_cookies_def bt_retain_def)
  have "from_log env es k (unnumbered e)"
    using fine in_jar unfolding jar_fine_def by blast
  then show "from_log env es k e"
    by (simp add: from_log_def unnumbered_zero)
  show "cookie_applies (canonical_host env url) url (k, e)"
    using assms by (simp add: set_selected)
qed

lemma ball_mapped:
  "(\<And>x. x \<in> set xs \<Longrightarrow> P (fst (f x)) (fst (snd (f x))) (snd (snd (f x))) (g x)) \<Longrightarrow>
     \<forall>((a, b, c), d) \<in> set (map (\<lambda>x. (f x, g x)) xs). P a b c d"
  by (auto simp: case_prod_beta)

lemma selected_goes_back:
  assumes "kv \<in> set (selected_cookies env url (live_cookies now (jar_after env es)))"
  shows "\<exists>t setter headers raw. StoreCookies t setter headers \<in> set es \<and> Some raw \<in> set headers \<and>
    goes_back env t setter raw now url (show_cookie kv)"
proof -
  obtain k e where kv: "kv = (k, e)" by (cases kv)
  note facts = selected_in_jar [OF assms [unfolded kv]]
  obtain t setter headers raw where log: "StoreCookies t setter headers \<in> set es" "Some raw \<in> set headers"
    and kept: "read_cookie env t setter raw = CookieKept k (unnumbered e)"
    using facts(2) unfolding from_log_def by blast
  have "goes_back env t setter raw now url (show_cookie (k, unnumbered e))"
    using read_cookie_goes_back [OF kept] facts(1,3) by simp
  moreover have "show_cookie (k, unnumbered e) = show_cookie kv" by (simp add: kv show_cookie_def split: prod.splits)
  ultimately show ?thesis using log by metis
qed

text \<open>
  C12. A cookie goes back only where its own \<open>Set-Cookie\<close> header allows. Whatever has been stored before, the
  header of a request joins texts each of which belongs to a \<open>Set-Cookie\<close> header of an earlier response: it is
  the name and value of that header, from a host of the same site (the last two labels, or the whole address);
  the very same host when that header names no domain or the host is an address, and otherwise both hosts are
  within the domain that it names; the request's path matches the path that it names (or the default path of
  the URL that set it); when it says secure the request is \<open>https\<close>; and neither then nor now has the expiry
  that it states passed.
\<close>

theorem cookies_stay_in_their_site:
  "\<exists>cs. fst (jar_header env now url (jar_after env es)) = join_cookies (map snd cs) \<and>
     (\<forall>((t, setter, raw), shown) \<in> set cs.
        (\<exists>headers. StoreCookies t setter headers \<in> set es \<and> Some raw \<in> set headers) \<and>
        goes_back env t setter raw now url shown)"
proof -
  let ?sel = "selected_cookies env url (live_cookies now (jar_after env es))"
  have "\<exists>t setter headers raw. StoreCookies t setter headers \<in> set es \<and> Some raw \<in> set headers \<and>
      goes_back env t setter raw now url (show_cookie kv)" if "kv \<in> set ?sel" for kv
    by (rule selected_goes_back [OF that])
  then have "\<exists>src. (\<exists>headers. StoreCookies (fst src) (fst (snd src)) headers \<in> set es \<and> Some (snd (snd src)) \<in> set headers) \<and>
      goes_back env (fst src) (fst (snd src)) (snd (snd src)) now url (show_cookie kv)" if "kv \<in> set ?sel" for kv
    using that by fastforce
  then obtain src where src: "(\<exists>headers. StoreCookies (fst (src kv)) (fst (snd (src kv))) headers \<in> set es \<and>
        Some (snd (snd (src kv))) \<in> set headers) \<and>
      goes_back env (fst (src kv)) (fst (snd (src kv))) (snd (snd (src kv))) now url (show_cookie kv)"
    if "kv \<in> set ?sel" for kv by metis
  have "fst (jar_header env now url (jar_after env es)) = join_cookies (map snd (map (\<lambda>kv. (src kv, show_cookie kv)) ?sel))"
    by (simp add: jar_header_def Let_def comp_def)
  moreover have "\<forall>((t, setter, raw), shown) \<in> set (map (\<lambda>kv. (src kv, show_cookie kv)) ?sel).
      (\<exists>headers. StoreCookies t setter headers \<in> set es \<and> Some raw \<in> set headers) \<and>
      goes_back env t setter raw now url shown"
    by (rule ball_mapped) (rule src)
  ultimately show ?thesis by blast
qed

section \<open>A concrete session\<close>

definition sample_cookie :: "string \<Rightarrow> parsed_cookie option" where
  "sample_cookie raw =
     (case split_once (CHR ''='') (hd (split_char (CHR '';'') raw)) of
        None \<Rightarrow> None
      | Some (name, _) \<Rightarrow>
          Some \<lparr>pc_name = trim name,
                pc_path = (case attribute_values ''path'' raw of [] \<Rightarrow> None | p # _ \<Rightarrow> Some p),
                pc_secure = list_ex (\<lambda>a. eq_ignore_ascii_case (trim a) ''secure'') (tl (split_char (CHR '';'') raw)),
                pc_expires = None\<rparr>)"

definition sample_cookies :: cookie_env where
  "sample_cookies = \<lparr>ck_parse = sample_cookie, ck_name_ok = (\<lambda>n. n \<noteq> []), ck_host = Some, ck_add = (\<lambda>t d. Some (t + d))\<rparr>"

definition sample_url :: "string \<Rightarrow> string \<Rightarrow> string \<Rightarrow> url_parts" where
  "sample_url scheme host path =
     \<lparr>u_scheme = scheme, u_hostname = host, u_path = path, u_raw_path = [], u_raw_query = [], u_force_query = False,
      u_fragment = [], u_port = None, u_has_credentials = False, u_host = host, u_username = [], u_password = None,
      u_opaque = [], u_omit_host = False\<rparr>"

definition cookie_sample_session :: "cookie_event list" where
  "cookie_sample_session =
     [StoreCookies 5 (sample_url ''https'' ''w.ex.io'' ''/a/b'')
        [Some ''root=1; Path=/'', Some ''deep=2'', Some ''wide=3; Domain=.ex.io; Secure'',
         Some ''bad=4; Domain=other.io'', Some ''old=5; Max-Age=0'', None],
      CookieHeader 6 (sample_url ''http'' ''m.ex.io'' ''/a''),
      StoreCookies 7 (sample_url ''https'' ''w.ex.io'' ''/a/b'') [Some ''root=8; Path=/'']]"

lemma sample_hosts:
  "canonical_host sample_cookies (sample_url scheme ''w.ex.io'' path) = ''w.ex.io''"
  "canonical_host sample_cookies (sample_url scheme ''m.ex.io'' path) = ''m.ex.io''"
  by (simp_all add: canonical_host_def sample_cookies_def sample_url_def strip_suffix_def ends_with_def)

lemma sample_not_address: "is_address ''w.ex.io'' = False" "is_address ''m.ex.io'' = False"
proof -
  have "to_digit16 (CHR ''w'') = None" "to_digit16 (CHR ''m'') = None" by code_simp+
  then show "is_address ''w.ex.io'' = False" "is_address ''m.ex.io'' = False"
    by (simp_all add: is_address_def not_an_address contains_char_def)
qed

lemma sample_sites: "jar_key ''w.ex.io'' = ''ex.io''" "jar_key ''m.ex.io'' = ''ex.io''"
  unfolding jar_key_def sample_not_address by code_simp+

definition plain_cookie :: "string \<Rightarrow> bool \<Rightarrow> bool \<Rightarrow> cookie_entry" where
  "plain_cookie v host_only secure =
     \<lparr>ce_value = v, ce_host_only = host_only, ce_secure = secure, ce_expires = None, ce_sequence = 0\<rparr>"

lemma sample_readings:
  fixes now :: int
  defines "readings \<equiv> read_cookie sample_cookies now (sample_url ''https'' ''w.ex.io'' ''/a/b'')"
  shows "readings ''root=1; Path=/'' = CookieKept (''ex.io'', ''w.ex.io'', ''/'', ''root'') (plain_cookie ''1'' True False)"
    and "readings ''root=8; Path=/'' = CookieKept (''ex.io'', ''w.ex.io'', ''/'', ''root'') (plain_cookie ''8'' True False)"
    and "readings ''deep=2'' = CookieKept (''ex.io'', ''w.ex.io'', ''/a'', ''deep'') (plain_cookie ''2'' True False)"
    and "readings ''wide=3; Domain=.ex.io; Secure'' =
           CookieKept (''ex.io'', ''ex.io'', ''/a'', ''wide'') (plain_cookie ''3'' False True)"
    and "readings ''bad=4; Domain=other.io'' = CookieIgnored"
  unfolding readings_def read_cookie_def Let_def sample_hosts sample_sites cookie_domain_def sample_not_address
      apply code_simp
     apply code_simp
    apply code_simp
   apply code_simp
  apply code_simp
  done

lemma sample_expired:
  "read_cookie sample_cookies 5 (sample_url ''https'' ''w.ex.io'' ''/a/b'') ''old=5; Max-Age=0'' =
     CookieExpired (''ex.io'', ''w.ex.io'', ''/a'', ''old'')"
proof -
  have "attribute_values ''max-age'' ''old=5; Max-Age=0'' = [''0'']" by code_simp
  then have age: "max_age ''old=5; Max-Age=0'' = Some 0"
    by (simp add: max_age_def parse_i64_def i64_max_def map_filter_simps is_ascii_digit_def byte_of_def)
  show ?thesis
    unfolding read_cookie_def Let_def sample_hosts sample_sites cookie_domain_def sample_not_address cookie_expiry_def age
    by code_simp
qed

lemma sample_jar:
  "jar_after sample_cookies cookie_sample_session =
     \<lparr>cj_entries = [((''ex.io'', ''ex.io'', ''/a'', ''wide''), (plain_cookie ''3'' False True)\<lparr>ce_sequence := 2\<rparr>),
                    ((''ex.io'', ''w.ex.io'', ''/'', ''root''), (plain_cookie ''8'' True False)\<lparr>ce_sequence := 0\<rparr>),
                    ((''ex.io'', ''w.ex.io'', ''/a'', ''deep''), (plain_cookie ''2'' True False)\<lparr>ce_sequence := 1\<rparr>)],
      cj_sequence = 3\<rparr>"
  unfolding jar_after_def cookie_sample_session_def jar_start_def fold_simps cookie_step.simps jar_store_def store_cookie_def
    option.case sample_readings sample_expired cookie_reading.case jar_header_def Let_def snd_conv
  by code_simp

lemma sample_headers:
  "fst (jar_header sample_cookies 10 (sample_url ''https'' ''w.ex.io'' ''/a/b'') (jar_after sample_cookies cookie_sample_session))
     = ''deep=2; wide=3; root=8''"
  "fst (jar_header sample_cookies 10 (sample_url ''https'' ''m.ex.io'' ''/a/b'') (jar_after sample_cookies cookie_sample_session))
     = ''wide=3''"
  unfolding sample_jar jar_header_def selected_cookies_def cookie_applies_def sample_hosts sample_sites
   apply code_simp
  apply code_simp
  done

theorem cookie_header_is_latest_witness:
  "sorted (event_times cookie_sample_session @ [10]) \<and>
   (\<exists>cs. ''deep=2; wide=3; root=8'' = join_cookies (map (\<lambda>(k, e, birth). show_cookie (k, e)) cs) \<and>
      distinct (map fst cs) \<and> sorted_wrt older_first cs) \<and>
   (\<forall>k. live_at 10 (map_option fst (tracked_cookie sample_cookies cookie_sample_session k)) =
        live_at 10 (latest_cookie sample_cookies cookie_sample_session k))"
proof -
  have "sorted (event_times cookie_sample_session @ [10])"
    by (simp add: cookie_sample_session_def)
  then show ?thesis
    using cookie_header_is_latest
      [of sample_cookies 10 "sample_url ''https'' ''w.ex.io'' ''/a/b''" cookie_sample_session, unfolded sample_headers]
    by blast
qed

theorem cookies_stay_in_their_site_witness:
  "fst (jar_header sample_cookies 10 (sample_url ''https'' ''m.ex.io'' ''/a/b'')
     (jar_after sample_cookies cookie_sample_session)) = ''wide=3'' \<and>
   (\<exists>cs. ''wide=3'' = join_cookies (map snd cs) \<and>
      (\<forall>((t, setter, raw), shown) \<in> set cs.
         goes_back sample_cookies t setter raw 10 (sample_url ''https'' ''m.ex.io'' ''/a/b'') shown))"
proof -
  obtain cs where cs: "''wide=3'' = join_cookies (map snd cs)"
    and returns: "\<And>t setter raw shown. ((t, setter, raw), shown) \<in> set cs \<Longrightarrow>
                goes_back sample_cookies t setter raw 10 (sample_url ''https'' ''m.ex.io'' ''/a/b'') shown"
    using cookies_stay_in_their_site [of sample_cookies 10 "sample_url ''https'' ''m.ex.io'' ''/a/b''" cookie_sample_session]
    unfolding sample_headers by fast
  then have "\<forall>((t, setter, raw), shown) \<in> set cs.
      goes_back sample_cookies t setter raw 10 (sample_url ''https'' ''m.ex.io'' ''/a/b'') shown"
    by fast
  then show ?thesis using cs sample_headers(2) by blast
qed

end
