(* ===== verification/Lrc.thy ===== *)
theory Lrc
  imports Case_Mapping
begin

text \<open>
  Timed lyrics (\<open>crates/core/src/lyrics/lrc.rs\<close> and the types of \<open>lyrics.rs\<close>): the LRC reader and writer,
  usability checks and timestamps. The patterns of \<open>lrc.rs\<close> are written as matchers on bytes: every bounded
  run of digits is followed by a byte that is no digit, so the longest run is the only way to match. Under
  the flag \<open>i\<close> the regular expressions fold case as Unicode does: the letters s and k also stand for the long
  s (\<open>C5 BF\<close>) and the Kelvin sign (\<open>E2 84 AA\<close>). The JSON and base64 encoders are arguments.
\<close>

section \<open>Data\<close>

record lyrics_word =
  lw_text :: string
  lw_start_time_ms :: int
  lw_end_time_ms :: int

record lyrics_line =
  ll_start_time_ms :: int
  ll_words :: string
  ll_end_time_ms :: int
  ll_romanization :: "string option"
  ll_romanization_words :: "lyrics_word list option"
  ll_translation :: "string option"

definition lyrics_line_default :: lyrics_line where
  "lyrics_line_default =
     \<lparr>ll_start_time_ms = 0, ll_words = [], ll_end_time_ms = 0, ll_romanization = None, ll_romanization_words = None,
      ll_translation = None\<rparr>"

record lyrics_response =
  lr_lines :: "lyrics_line list option"
  lr_sync_type :: string
  lr_instrumental :: bool
  lr_plain_lyrics :: string
  lr_provider :: string
  lr_source :: string

definition lyrics_response_default :: lyrics_response where
  "lyrics_response_default =
     \<lparr>lr_lines = None, lr_sync_type = [], lr_instrumental = False, lr_plain_lyrics = [], lr_provider = [],
      lr_source = []\<rparr>"

definition response_lines :: "lyrics_response \<Rightarrow> lyrics_line list" where
  "response_lines r = (case lr_lines r of None \<Rightarrow> [] | Some ls \<Rightarrow> ls)"

record lyrics_env =
  le_low :: "nat \<Rightarrow> nat list"
  le_json :: "lyrics_word list \<Rightarrow> string option"
  le_base64 :: "string \<Rightarrow> string"

section \<open>Patterns\<close>

definition digit_run :: "nat \<Rightarrow> nat \<Rightarrow> string \<Rightarrow> (string \<times> string) option" where
  "digit_run lo hi s =
     (let d = takeWhile is_ascii_digit s in
      if lo \<le> length d \<and> length d \<le> hi then Some (d, drop (length d) s) else None)"

definition then_char :: "char \<Rightarrow> string \<Rightarrow> string option" where
  "then_char c s = (case s of [] \<Rightarrow> None | x # r \<Rightarrow> if x = c then Some r else None)"

text \<open>\<open>TIMED_LINE\<close> at one position, with its four captures.\<close>

definition timed_at :: "string \<Rightarrow> (string \<times> string \<times> string \<times> string) option" where
  "timed_at s =
     Option.bind (then_char (CHR ''['') s) (\<lambda>s.
     Option.bind (digit_run 2 2 s) (\<lambda>(m, s).
     Option.bind (then_char (CHR '':'') s) (\<lambda>s.
     Option.bind (digit_run 2 2 s) (\<lambda>(sec, s).
     Option.bind (then_char (CHR ''.'') s) (\<lambda>s.
     Option.bind (digit_run 2 3 s) (\<lambda>(f, s).
     Option.bind (then_char (CHR '']'') s) (\<lambda>s.
     Some (m, sec, f, takeWhile (\<lambda>c. c \<noteq> CHR 0x0A) s))))))))"

fun timed_line :: "string \<Rightarrow> (string \<times> string \<times> string \<times> string) option" where
  "timed_line [] = None"
| "timed_line (c # s) = (case timed_at (c # s) of Some m \<Rightarrow> Some m | None \<Rightarrow> timed_line s)"

text \<open>\<open>LEADING_TIME\<close> and \<open>INLINE_TIME\<close> at one position: what follows the match.\<close>

definition time_at :: "char \<Rightarrow> char \<Rightarrow> string \<Rightarrow> string option" where
  "time_at opening closing s =
     Option.bind (then_char opening s) (\<lambda>s.
     Option.bind (digit_run 1 3 s) (\<lambda>(_, s).
     Option.bind (then_char (CHR '':'') s) (\<lambda>s.
     Option.bind (digit_run 1 2 s) (\<lambda>(_, s).
     case s of
       [] \<Rightarrow> None
     | c # r \<Rightarrow>
         if c \<in> {CHR ''.'', CHR '':''}
         then Option.bind (digit_run 1 3 r) (\<lambda>(_, s). then_char closing s)
         else then_char closing s))))"

abbreviation leading_time :: "string \<Rightarrow> string option" where
  "leading_time \<equiv> time_at (CHR ''['') (CHR '']'')"

abbreviation inline_time :: "string \<Rightarrow> string option" where
  "inline_time \<equiv> time_at (CHR ''<'') (CHR ''>'')"

fun match_ci :: "string \<Rightarrow> string \<Rightarrow> string option" where
  "match_ci [] s = Some s"
| "match_ci (p # ps) [] = None"
| "match_ci (p # ps) (c # s) =
     (if ascii_lower c = p then match_ci ps s
      else if p = CHR ''s'' \<and> c = CHR 0xC5 \<and> starts_with s [CHR 0xBF] then match_ci ps (drop 1 s)
      else if p = CHR ''k'' \<and> c = CHR 0xE2 \<and> starts_with s [CHR 0x84, CHR 0xAA] then match_ci ps (drop 2 s)
      else None)"

fun skip_class :: "string \<Rightarrow> string" where
  "skip_class [] = []"
| "skip_class (c # s) =
     (if is_ascii_alphanumeric c \<or> c = CHR ''_'' \<or> c = CHR ''-'' then skip_class s
      else if c = CHR 0xC5 \<and> starts_with s [CHR 0xBF] then skip_class (drop 1 s)
      else if c = CHR 0xE2 \<and> starts_with s [CHR 0x84, CHR 0xAA] then skip_class (drop 2 s)
      else c # s)"

definition letter_at :: "string \<Rightarrow> bool" where
  "letter_at s \<longleftrightarrow>
     (case s of [] \<Rightarrow> False | c # _ \<Rightarrow> is_ascii_alphabetic c) \<or> starts_with s [CHR 0xC5, CHR 0xBF] \<or>
     starts_with s [CHR 0xE2, CHR 0x84, CHR 0xAA]"

definition one_line :: "string \<Rightarrow> bool" where
  "one_line s \<longleftrightarrow> CHR 0x0A \<notin> set s"

definition is_metadata :: "string \<Rightarrow> bool" where
  "is_metadata s =
     (case then_char (CHR ''['') s of
        None \<Rightarrow> False
      | Some r \<Rightarrow>
          letter_at r \<and>
          (case then_char (CHR '':'') (skip_class r) of None \<Rightarrow> False | Some t \<Rightarrow> one_line t \<and> ends_with t '']''))"

definition background :: "string \<Rightarrow> string option" where
  "background s =
     Option.bind (match_ci ''[bg:'' s) (\<lambda>r. if one_line r then strip_suffix '']'' r else None)"

definition voice_prefix :: "string \<Rightarrow> string option" where
  "voice_prefix s =
     Option.bind (match_ci ''v'' s) (\<lambda>r.
       case r of
         [] \<Rightarrow> None
       | c # t \<Rightarrow>
           if is_ascii_digit c \<and> c \<noteq> CHR ''0'' then then_char (CHR '':'') (dropWhile is_ascii_digit t) else None)"

definition writer_credit :: "string \<Rightarrow> bool" where
  "writer_credit s =
     (case match_ci ''written'' s of
        None \<Rightarrow> False
      | Some r \<Rightarrow>
          trim_start r \<noteq> r \<and>
          (case match_ci ''by'' (trim_start r) of
             None \<Rightarrow> False
           | Some t \<Rightarrow>
               (case then_char (CHR '':'') (trim_start t) of None \<Rightarrow> False | Some u \<Rightarrow> u \<noteq> [] \<and> one_line u)))"

lemma digit_run_shorter: "digit_run lo hi s = Some (d, r) \<Longrightarrow> length r \<le> length s"
  by (auto simp: digit_run_def Let_def split: if_splits)

lemma then_char_shorter: "then_char c s = Some r \<Longrightarrow> length r < length s"
  by (auto simp: then_char_def split: list.splits if_splits)

lemma time_at_shorter: "time_at a b s = Some r \<Longrightarrow> length r < length s"
proof -
  assume "time_at a b s = Some r"
  then obtain s1 d1 s2 s3 d2 s4 where parts: "then_char a s = Some s1" "digit_run 1 3 s1 = Some (d1, s2)"
      "then_char (CHR '':'') s2 = Some s3" "digit_run 1 2 s3 = Some (d2, s4)"
    and tail: "(case s4 of [] \<Rightarrow> None
       | c # r \<Rightarrow> if c \<in> {CHR ''.'', CHR '':''} then Option.bind (digit_run 1 3 r) (\<lambda>(_, s). then_char b s)
                 else then_char b s4) = Some r"
    by (auto simp: time_at_def bind_eq_Some_conv)
  from tail have "length r < length s4"
    by (auto simp: bind_eq_Some_conv split: list.splits if_splits dest!: digit_run_shorter then_char_shorter)
  then show ?thesis
    using then_char_shorter [OF parts(1)] digit_run_shorter [OF parts(2)] then_char_shorter [OF parts(3)]
      digit_run_shorter [OF parts(4)] by linarith
qed

lemma length_trim: "length (trim s) \<le> length s"
proof -
  have "length (trim_end_rev t) \<le> length t" for t
    by (induction t rule: trim_end_rev.induct) auto
  from this [of "rev (trim_start s)"] show ?thesis
    using length_trim_start [of s] by (simp add: trim_def trim_end_def)
qed

section \<open>Usability\<close>

function strip_leading_times :: "string \<Rightarrow> string" where
  "strip_leading_times s = (case leading_time s of None \<Rightarrow> s | Some r \<Rightarrow> strip_leading_times (trim r))"
  by pat_completeness auto
termination
  by (relation "measure length") (auto dest: time_at_shorter intro: le_less_trans [OF length_trim])

declare strip_leading_times.simps [simp del]

function strip_inline_times :: "string \<Rightarrow> string" where
  "strip_inline_times s =
     (case inline_time s of
        Some r \<Rightarrow> strip_inline_times r
      | None \<Rightarrow> (case s of [] \<Rightarrow> [] | c # t \<Rightarrow> c # strip_inline_times t))"
  by pat_completeness auto
termination
  by (relation "measure length") (auto dest: time_at_shorter)

declare strip_inline_times.simps [simp del]

definition is_instrumental_marker :: "string \<Rightarrow> bool" where
  "is_instrumental_marker raw \<longleftrightarrow> match_ci ''[instrumental:true]'' (trim raw) = Some []"

definition usable_text :: "string \<Rightarrow> bool" where
  "usable_text s =
     (let s1 = trim (strip_inline_times (strip_leading_times s));
          s2 = (case voice_prefix s1 of None \<Rightarrow> s1 | Some r \<Rightarrow> trim r)
      in s2 \<noteq> [])"

definition usable_line :: "string \<Rightarrow> bool" where
  "usable_line line =
     (let cleaned = trim line in
      if cleaned = [] then False
      else case background cleaned of
        Some b \<Rightarrow> usable_text (trim b)
      | None \<Rightarrow> if is_metadata cleaned then False else usable_text cleaned)"

definition has_usable_content :: "string \<Rightarrow> bool" where
  "has_usable_content raw \<longleftrightarrow> is_instrumental_marker raw \<or> list_ex usable_line (split_char (CHR 0x0A) raw)"

section \<open>Reading\<close>

definition captured_number :: "string \<Rightarrow> int" where
  "captured_number d = fold (\<lambda>c n. 10 * n + int (byte_of c - 48)) d 0"

definition captured_time :: "string \<Rightarrow> string \<Rightarrow> string \<Rightarrow> int" where
  "captured_time m sec f =
     captured_number m * 60000 + captured_number sec * 1000 +
     (if length f = 2 then captured_number f * 10 else captured_number f)"

definition parse_line :: "string \<Rightarrow> lyrics_line list \<Rightarrow> lyrics_line list" where
  "parse_line line ls =
     (if line = [] then ls
      else if starts_with line ''[bg:'' \<and> ls \<noteq> []
      then butlast ls @ [(last ls)\<lparr>ll_words := ll_words (last ls) @ [CHR 0x0A] @ line\<rparr>]
      else case timed_line line of
        None \<Rightarrow> ls
      | Some (m, sec, f, rest) \<Rightarrow>
          (let words = trim rest in
           if words = [] then ls
           else ls @ [lyrics_line_default\<lparr>ll_start_time_ms := captured_time m sec f, ll_words := words\<rparr>]))"

fun set_ends :: "lyrics_line list \<Rightarrow> lyrics_line list" where
  "set_ends [] = []"
| "set_ends [l] = [l\<lparr>ll_end_time_ms := ll_start_time_ms l + 5000\<rparr>]"
| "set_ends (l # k # ls) = l\<lparr>ll_end_time_ms := ll_start_time_ms k\<rparr> # set_ends (k # ls)"

definition parse_synced :: "string \<Rightarrow> lyrics_line list option" where
  "parse_synced raw =
     (let ls = set_ends (fold parse_line (map trim (split_char (CHR 0x0A) raw)) []) in
      if ls = [] then None else Some ls)"

definition plain_text_lines :: "string \<Rightarrow> lyrics_line list option" where
  "plain_text_lines raw =
     (let ls = map (\<lambda>w. lyrics_line_default\<lparr>ll_words := w\<rparr>)
                 (filter (\<lambda>w. w \<noteq> []) (map trim (split_char (CHR 0x0A) raw)))
      in if ls = [] then None else Some ls)"

definition plain_from_timed_lines :: "lyrics_line list \<Rightarrow> string" where
  "plain_from_timed_lines ls = join_char (CHR 0x0A) (filter (\<lambda>w. w \<noteq> []) (map (\<lambda>l. trim (ll_words l)) ls))"

section \<open>Timing\<close>

text \<open>Whether some inline time of a text has a digit other than zero.\<close>

function nonzero_inline_time :: "string \<Rightarrow> bool" where
  "nonzero_inline_time s =
     (case inline_time s of
        Some r \<Rightarrow>
          list_ex (\<lambda>c. is_ascii_digit c \<and> c \<noteq> CHR ''0'') (take (length s - length r) s) \<or> nonzero_inline_time r
      | None \<Rightarrow> (case s of [] \<Rightarrow> False | c # t \<Rightarrow> nonzero_inline_time t))"
  by pat_completeness auto
termination
  by (relation "measure length") (auto dest: time_at_shorter)

declare nonzero_inline_time.simps [simp del]

definition timed_usably :: "bool \<Rightarrow> lyrics_line \<Rightarrow> bool" where
  "timed_usably is_last l \<longleftrightarrow>
     has_usable_content (ll_words l) \<and> \<not> (is_last \<and> writer_credit (trim (ll_words l))) \<and>
     (ll_start_time_ms l > 0 \<or> nonzero_inline_time (ll_words l))"

definition has_usable_timing :: "lyrics_line list \<Rightarrow> bool" where
  "has_usable_timing ls \<longleftrightarrow> list_ex (\<lambda>(i, l). timed_usably (Suc i = length ls) l) (enumerate 0 ls)"

definition untimed_text :: "lyrics_line list \<Rightarrow> string" where
  "untimed_text ls = strip_inline_times (plain_from_timed_lines ls)"

definition is_synced :: "lyrics_response \<Rightarrow> bool" where
  "is_synced r \<longleftrightarrow> lr_sync_type r = ''LINE_SYNCED'' \<and> has_usable_timing (response_lines r)"

definition has_usable_text :: "lyrics_response \<Rightarrow> bool" where
  "has_usable_text r \<longleftrightarrow>
     lr_instrumental r \<or> trim (lr_plain_lyrics r) \<noteq> [] \<or>
     list_ex (\<lambda>l. trim (ll_words l) \<noteq> []) (response_lines r)"

definition normalize_timing :: "lyrics_response \<Rightarrow> lyrics_response" where
  "normalize_timing r =
     (if lr_sync_type r = ''LINE_SYNCED'' \<and> \<not> is_synced r
      then (if response_lines r \<noteq> []
            then r\<lparr>lr_sync_type := ''UNSYNCED'', lr_plain_lyrics := untimed_text (response_lines r)\<rparr>
            else r\<lparr>lr_sync_type := ''UNSYNCED''\<rparr>)
      else r)"

definition from_text :: "string \<Rightarrow> string \<Rightarrow> string \<Rightarrow> lyrics_response" where
  "from_text raw provider source =
     (let r = lyrics_response_default\<lparr>lr_provider := provider, lr_source := source\<rparr> in
      normalize_timing
        (case parse_synced raw of
           Some ls \<Rightarrow>
             r\<lparr>lr_plain_lyrics := plain_from_timed_lines ls, lr_lines := Some ls, lr_sync_type := ''LINE_SYNCED''\<rparr>
         | None \<Rightarrow>
             (case plain_text_lines raw of
                Some ls \<Rightarrow> r\<lparr>lr_lines := Some ls, lr_sync_type := ''UNSYNCED'', lr_plain_lyrics := raw\<rparr>
              | None \<Rightarrow> r)))"

section \<open>Writing\<close>

definition pad_digits :: "nat \<Rightarrow> nat \<Rightarrow> string" where
  "pad_digits w n = replicate (w - length (show_nat n)) (CHR ''0'') @ show_nat n"

definition timestamp_inline :: "int \<Rightarrow> string" where
  "timestamp_inline ms =
     (let ms = nat (max ms 0);
          seconds = ms div 1000;
          fraction = (if ms mod 10 = 0 then pad_digits 2 (ms mod 1000 div 10) else pad_digits 3 (ms mod 1000))
      in pad_digits 2 (seconds div 60) @ '':'' @ pad_digits 2 (seconds mod 60) @ ''.'' @ fraction)"

definition timestamp :: "int \<Rightarrow> string" where
  "timestamp ms = ''['' @ timestamp_inline ms @ '']''"

definition first_party_sources :: "string list" where
  "first_party_sources =
     [''lrclib'', ''zarz-lrc'', ''mornye lyrics'', ''spotiflac-mobile lyrics'', ''kugou direct'', ''qq music direct'',
      ''genius direct'', ''lrc.red'', ''betterlyrics'', ''extension:'', ''heuristic'']"

definition source_uses_proxy :: "lyrics_env \<Rightarrow> string \<Rightarrow> bool" where
  "source_uses_proxy env source =
     (let s = lowercase (le_low env) (trim source) in s \<noteq> [] \<and> \<not> list_ex (starts_with s) first_party_sources)"

definition source_of_line :: "string \<Rightarrow> string" where
  "source_of_line line =
     (case split_once_str ''(source: '' line of
        None \<Rightarrow> []
      | Some (_, s) \<Rightarrow>
          (let s1 = trim s;
               s2 = (case strip_suffix '']'' s1 of None \<Rightarrow> s1 | Some r \<Rightarrow> r);
               s3 = (case strip_suffix '')'' s2 of None \<Rightarrow> s2 | Some r \<Rightarrow> r)
           in trim s3))"

definition extract_source :: "lyrics_env \<Rightarrow> string \<Rightarrow> string" where
  "extract_source env raw =
     (case List.find (\<lambda>line. starts_with (lowercase (le_low env) line) ''[by:'') (map trim (split_char (CHR 0x0A) raw)) of
        None \<Rightarrow> []
      | Some line \<Rightarrow> source_of_line line)"

definition credited_source :: "lyrics_response \<Rightarrow> string" where
  "credited_source r = (if trim (lr_source r) = [] then trim (lr_provider r) else trim (lr_source r))"

definition encoded_tag :: "lyrics_env \<Rightarrow> string \<Rightarrow> int \<Rightarrow> string \<Rightarrow> string" where
  "encoded_tag env tag start s = ''['' @ tag @ '':'' @ show_int start @ '':'' @ le_base64 env s @ '']''"

definition optional_tag :: "lyrics_env \<Rightarrow> string \<Rightarrow> int \<Rightarrow> string option \<Rightarrow> string list" where
  "optional_tag env tag start t =
     (case t of None \<Rightarrow> [] | Some s \<Rightarrow> if trim s = [] then [] else [encoded_tag env tag start (trim s)])"

definition reading_tags :: "lyrics_env \<Rightarrow> lyrics_line \<Rightarrow> string list" where
  "reading_tags env l =
     (case ll_romanization_words l of
        None \<Rightarrow> []
      | Some ws \<Rightarrow>
          if ws = [] then []
          else case le_json env ws of None \<Rightarrow> [] | Some j \<Rightarrow> [encoded_tag env ''x-romaji-words'' (ll_start_time_ms l) j]) @
     optional_tag env ''x-romaji'' (ll_start_time_ms l) (ll_romanization l) @
     optional_tag env ''x-translation'' (ll_start_time_ms l) (ll_translation l)"

definition song_lines :: "bool \<Rightarrow> lyrics_line list \<Rightarrow> string list" where
  "song_lines synced ls =
     map (\<lambda>l. if synced then timestamp (ll_start_time_ms l) @ ll_words l else strip_inline_times (ll_words l))
       (filter (\<lambda>l. ll_words l \<noteq> []) ls)"

definition header_lines :: "lyrics_env \<Rightarrow> lyrics_response \<Rightarrow> string \<Rightarrow> string \<Rightarrow> string list" where
  "header_lines env r track artist =
     (let source = credited_source r;
          credit = (if source_uses_proxy env source then ''Mornye via Paxsenix API'' else ''Mornye'') in
      [''[ti:'' @ track @ '']'', ''[ar:'' @ artist @ '']'',
       ''[by:'' @ credit @ (if source = [] then [] else '' (source: '' @ source @ '')'') @ '']'', []])"

text \<open>Every line that the writer pushes ends with a line feed.\<close>

definition end_lines :: "string list \<Rightarrow> string" where
  "end_lines ls = concat (map (\<lambda>l. l @ [CHR 0x0A]) ls)"

definition with_metadata :: "lyrics_env \<Rightarrow> lyrics_response \<Rightarrow> string \<Rightarrow> string \<Rightarrow> string" where
  "with_metadata env r track artist =
     (if response_lines r = [] then []
      else end_lines (header_lines env r track artist @
        (if is_synced r then concat (map (reading_tags env) (response_lines r)) else []) @
        song_lines (is_synced r) (response_lines r)))"

end
