(* ===== verification/Lrc_Round_Trip.thy ===== *)
theory Lrc_Round_Trip
  imports Lrc
begin

text \<open>
  What the LRC reader and writer promise each other: a timestamp that is written is read as the same time, and
  synced lyrics that are saved are read back with their times and words. The words of a line are its verse and
  the background lines that follow it.
\<close>

section \<open>Specification\<close>

definition verse :: "string \<Rightarrow> bool" where
  "verse w \<longleftrightarrow> w \<noteq> [] \<and> trim w = w"

definition sung_words :: "string \<Rightarrow> bool" where
  "sung_words s =
     (let parts = split_char (CHR 0x0A) s in
      list_all verse parts \<and> list_all (\<lambda>b. starts_with b ''[bg:'') (tl parts))"

definition sung_line :: "lyrics_line \<Rightarrow> bool" where
  "sung_line l \<longleftrightarrow> sung_words (ll_words l) \<and> 0 \<le> ll_start_time_ms l \<and> ll_start_time_ms l < 6000000"

definition timed_part :: "lyrics_line \<Rightarrow> lyrics_line" where
  "timed_part l = lyrics_line_default\<lparr>ll_start_time_ms := ll_start_time_ms l, ll_words := ll_words l\<rparr>"

definition clean_name :: "string \<Rightarrow> bool" where
  "clean_name s \<longleftrightarrow> CHR ''['' \<notin> set s \<and> one_line s"

section \<open>Trimming\<close>

lemma trim_start_ws: "is_ws1 (byte_of a) \<Longrightarrow> trim_start (a # t) = trim_start t"
  by (cases "a # t" rule: trim_start.cases) auto

lemma trim_start_prefix: "trim_start (s @ t) = s @ t \<Longrightarrow> trim_start s = s"
proof (induction s rule: trim_start.induct)
  case (2 a)
  have "\<not> is_ws1 (byte_of a)"
  proof
    assume "is_ws1 (byte_of a)"
    with 2 have "length (a # t) = length (trim_start t)" by (simp add: trim_start_ws)
    with length_trim_start [of t] show False by simp
  qed
  then show ?case by simp
next
  case (3 a b)
  have *: "length (trim_start x) \<le> length x" for x by (rule length_trim_start)
  show ?case
  proof (cases t)
    case Nil
    with 3 show ?thesis by simp
  next
    case (Cons c u)
    with 3 * [of "b # c # u"] * [of "c # u"] show ?thesis
      by (auto split: if_splits dest!: arg_cong [where f = length])
  qed
next
  case (4 a b c s)
  have *: "length (trim_start x) \<le> length x" for x by (rule length_trim_start)
  from 4 * [of "b # c # s @ t"] * [of "c # s @ t"] * [of "s @ t"] show ?case
    by (auto split: if_splits dest!: arg_cong [where f = length])
qed simp

lemma trim_start_idem: "trim_start (trim_start s) = trim_start s"
  by (induction s rule: trim_start.induct) auto

lemma trim_end_rev_idem: "trim_end_rev (trim_end_rev s) = trim_end_rev s"
  by (induction s rule: trim_end_rev.induct) auto

lemma trim_end_rev_suffix: "\<exists>p. s = p @ trim_end_rev s"
  by (induction s rule: trim_end_rev.induct) (auto, (metis append_Cons)+)

lemma trim_end_prefix: "\<exists>p. s = trim_end s @ p"
  using trim_end_rev_suffix [of "rev s"] unfolding trim_end_def by (metis rev_append rev_rev_ident)

lemma trim_idem: "trim (trim s) = trim s"
proof -
  obtain p where "trim_start s = trim_end (trim_start s) @ p" using trim_end_prefix by blast
  then have "trim_start (trim_end (trim_start s)) = trim_end (trim_start s)"
    using trim_start_prefix trim_start_idem by metis
  then show ?thesis
    by (simp add: trim_def trim_end_def trim_end_rev_idem)
qed

lemma trim_verse: "trim s \<noteq> [] \<Longrightarrow> verse (trim s)"
  by (simp add: verse_def trim_idem)

text \<open>A closing bracket in front does not change where a text ends.\<close>

lemma trim_end_rev_behind:
  assumes "trim_end_rev r = r" "r \<noteq> []" "graphic c"
  shows "trim_end_rev (r @ c # s) = r @ c # s"
proof (cases r rule: trim_end_rev.cases)
  case (2 a)
  with assms show ?thesis
    by (cases s) (auto simp: graphic_def is_ws2_def is_ws3_def split: if_splits)
next
  case (3 a b)
  with assms show ?thesis
    by (auto simp: graphic_def is_ws2_def is_ws3_def split: if_splits)
next
  case (4 a b d u)
  have *: "length (trim_end_rev x) \<le> length x" for x
    by (induction x rule: trim_end_rev.induct) auto
  from 4 assms * [of "b # d # u"] * [of "d # u"] * [of u] show ?thesis
    by (auto split: if_splits dest!: arg_cong [where f = length])
qed (use assms in simp)

lemma trim_timestamped:
  assumes "verse w" "graphic a" "graphic c"
  shows "trim (a # s @ c # w) = a # s @ c # w"
proof -
  obtain p where p: "trim_start w = trim_end (trim_start w) @ p" using trim_end_prefix by blast
  have w: "trim_end_rev (rev w) = rev w" "w \<noteq> []"
    using assms(1) trim_end_rev_idem by (auto simp: verse_def trim_def trim_end_def) (metis rev_rev_ident)
  have "trim_end_rev (rev w @ c # rev s @ [a]) = rev w @ c # rev s @ [a]"
    using w assms(3) by (intro trim_end_rev_behind) auto
  then show ?thesis
    using trim_start_graphic [OF assms(2), of "s @ c # w"] by (simp add: trim_def trim_end_def)
qed

section \<open>Times\<close>

lemma digit_run_append:
  assumes "list_all is_ascii_digit d" "lo \<le> length d" "length d \<le> hi" "\<not> is_ascii_digit c"
  shows "digit_run lo hi (d @ c # s) = Some (d, c # s)"
proof -
  have "takeWhile is_ascii_digit (d @ c # s) = d"
    using assms(1,4) by (induction d) auto
  then show ?thesis using assms(2,3) by (simp add: digit_run_def)
qed

lemma digit_run_Some:
  "digit_run lo hi s = Some (d, r) \<Longrightarrow> s = d @ r \<and> list_all is_ascii_digit d \<and> lo \<le> length d \<and> length d \<le> hi"
  by (auto simp: digit_run_def Let_def list_all_iff dropWhile_eq_drop [symmetric] split: if_splits dest: set_takeWhileD)

lemma captured_number_digits: "digits_value 0 d = Some v \<Longrightarrow> captured_number d = int v"
proof -
  have "digits_value n d = Some v \<Longrightarrow> fold (\<lambda>c n. 10 * n + int (byte_of c - 48)) d (int n) = int v" for n
  proof (induction d arbitrary: n)
    case (Cons c d)
    from Cons.IH [of "10 * n + (byte_of c - 48)"] Cons.prems show ?case by (simp split: if_splits)
  qed simp
  from this [of 0] show "digits_value 0 d = Some v \<Longrightarrow> captured_number d = int v"
    by (simp add: captured_number_def)
qed

lemma pad_digits_props:
  assumes "n < 10 ^ w" "0 < w"
  shows "length (pad_digits w n) = w" "list_all is_ascii_digit (pad_digits w n)"
    "captured_number (pad_digits w n) = int n"
proof -
  have "length (show_nat n) \<le> w" using length_show_nat [OF assms] .
  then show "length (pad_digits w n) = w" by (simp add: pad_digits_def)
  show "list_all is_ascii_digit (pad_digits w n)"
    using show_nat_all_digits [of n] by (auto simp: pad_digits_def list_all_iff is_ascii_digit_def byte_of_def)
  have "digits_value 0 (replicate k (CHR ''0'')) = Some 0" for k
    by (induction k) (simp_all add: is_ascii_digit_def byte_of_def)
  then show "captured_number (pad_digits w n) = int n"
    using show_nat_digits [of n] by (intro captured_number_digits) (simp add: pad_digits_def digits_value_append)
qed

definition minutes_of :: "int \<Rightarrow> string" where
  "minutes_of ms = pad_digits 2 (nat ms div 1000 div 60)"

definition seconds_of :: "int \<Rightarrow> string" where
  "seconds_of ms = pad_digits 2 (nat ms div 1000 mod 60)"

definition fraction_of :: "int \<Rightarrow> string" where
  "fraction_of ms =
     (if nat ms mod 10 = 0 then pad_digits 2 (nat ms mod 1000 div 10) else pad_digits 3 (nat ms mod 1000))"

lemma timestamp_parts:
  "0 \<le> ms \<Longrightarrow> timestamp ms = CHR ''['' # minutes_of ms @ CHR '':'' # seconds_of ms @ CHR ''.'' # fraction_of ms @ '']''"
  by (simp add: timestamp_def timestamp_inline_def Let_def minutes_of_def seconds_of_def fraction_of_def max_def)

lemma parts_digits:
  assumes "0 \<le> ms" "ms < 6000000"
  shows "length (minutes_of ms) = 2" "list_all is_ascii_digit (minutes_of ms)"
    "length (seconds_of ms) = 2" "list_all is_ascii_digit (seconds_of ms)"
    "length (fraction_of ms) = (if nat ms mod 10 = 0 then 2 else 3)" "list_all is_ascii_digit (fraction_of ms)"
proof -
  have m: "nat ms div 1000 div 60 < 10 ^ 2" "nat ms div 1000 mod 60 < 10 ^ 2" "nat ms mod 1000 div 10 < 10 ^ 2"
    "nat ms mod 1000 < 10 ^ 3"
    using assms by auto
  show "length (minutes_of ms) = 2" "list_all is_ascii_digit (minutes_of ms)"
    "length (seconds_of ms) = 2" "list_all is_ascii_digit (seconds_of ms)"
    "length (fraction_of ms) = (if nat ms mod 10 = 0 then 2 else 3)" "list_all is_ascii_digit (fraction_of ms)"
    using m by (simp_all add: minutes_of_def seconds_of_def fraction_of_def pad_digits_props)
qed

lemma captured_timestamp:
  assumes "0 \<le> ms" "ms < 6000000"
  shows "captured_time (minutes_of ms) (seconds_of ms) (fraction_of ms) = ms"
proof -
  define n where "n = nat ms"
  have ms: "ms = int n" using assms by (simp add: n_def)
  have n: "n div 1000 div 60 < 10 ^ 2" "n div 1000 mod 60 < 10 ^ 2" "n mod 1000 div 10 < 10 ^ 2" "n mod 1000 < 10 ^ 3"
    using assms ms by auto
  have f: "(if length (fraction_of ms) = 2 then captured_number (fraction_of ms) * 10 else captured_number (fraction_of ms)) =
      int (n mod 1000)"
  proof (cases "n mod 10 = 0")
    case True
    then have "n mod 1000 mod 10 = 0" by (simp add: mod_mod_cancel)
    then have "n mod 1000 div 10 * 10 = n mod 1000" by auto
    then show ?thesis using True n by (simp add: ms fraction_of_def pad_digits_props)
  qed (use n in \<open>simp add: ms fraction_of_def pad_digits_props\<close>)
  have "n div 1000 div 60 * 60 + n div 1000 mod 60 = n div 1000" "n div 1000 * 1000 + n mod 1000 = n"
    by (rule div_mult_mod_eq)+
  then have "int (n div 1000 div 60) * 60000 + int (n div 1000 mod 60) * 1000 + int (n mod 1000) = int n"
    by linarith
  then show ?thesis
    using n unfolding captured_time_def f by (simp add: ms minutes_of_def seconds_of_def pad_digits_props)
qed

lemma not_digits [simp]:
  "\<not> is_ascii_digit (CHR '':'')" "\<not> is_ascii_digit (CHR ''.'')" "\<not> is_ascii_digit (CHR '']'')"
  by (simp_all add: is_ascii_digit_def byte_of_def)

lemma then_char_Cons [simp]: "then_char c (x # s) = (if x = c then Some s else None)"
  by (simp add: then_char_def)

lemma timed_at_timestamp:
  assumes "0 \<le> ms" "ms < 6000000"
  shows "timed_at (timestamp ms @ w) = Some (minutes_of ms, seconds_of ms, fraction_of ms, takeWhile (\<lambda>c. c \<noteq> CHR 0x0A) w)"
  using parts_digits [OF assms] by (simp add: timestamp_parts [OF assms(1)] timed_at_def digit_run_append)

lemma timed_line_timestamp:
  assumes "0 \<le> ms" "ms < 6000000"
  shows "timed_line (timestamp ms @ w) = Some (minutes_of ms, seconds_of ms, fraction_of ms, takeWhile (\<lambda>c. c \<noteq> CHR 0x0A) w)"
  using timed_at_timestamp [OF assms, of w] by (simp add: timestamp_def)

lemma timestamp_not_background: "0 \<le> ms \<Longrightarrow> ms < 6000000 \<Longrightarrow> \<not> starts_with (timestamp ms @ w) ''[bg:''"
proof -
  assume ms: "0 \<le> ms" "ms < 6000000"
  obtain c d where "minutes_of ms = c # d" "is_ascii_digit c"
    using parts_digits(1,2) [OF ms] by (cases "minutes_of ms") auto
  then show ?thesis
    by (auto simp: timestamp_parts [OF ms(1)] is_ascii_digit_def byte_of_def)
qed

section \<open>Reading what was written\<close>

lemma takeWhile_one_line: "one_line s \<Longrightarrow> takeWhile (\<lambda>c. c \<noteq> CHR 0x0A) s = s"
  by (auto simp: one_line_def takeWhile_eq_all_conv)

lemma parse_verse:
  assumes "0 \<le> ms" "ms < 6000000" "verse w" "one_line w"
  shows "parse_line (timestamp ms @ w) ls = ls @ [lyrics_line_default\<lparr>ll_start_time_ms := ms, ll_words := w\<rparr>]"
  using assms timestamp_not_background [OF assms(1,2), of w]
  by (simp add: parse_line_def timed_line_timestamp captured_timestamp takeWhile_one_line verse_def)

lemma parse_backgrounds:
  assumes "\<forall>b \<in> set bs. starts_with b ''[bg:''"
  shows "fold parse_line bs (ls @ [l]) = ls @ [l\<lparr>ll_words := ll_words l @ concat (map (\<lambda>b. CHR 0x0A # b) bs)\<rparr>]"
  using assms
proof (induction bs arbitrary: l)
  case (Cons b bs)
  then have "b \<noteq> []" by auto
  with Cons show ?case by (simp add: parse_line_def)
qed simp

lemma join_char_concat: "join_char c (w # ws) = w @ concat (map (\<lambda>b. c # b) ws)"
  by (induction ws arbitrary: w) (auto simp: join_char_Cons)

lemma join_split_char: "join_char c (split_char c s) = s"
proof -
  obtain w ws where "split_char c s = w # ws" by (cases "split_char c s") simp_all
  with concat_split_char [of c s] show ?thesis by (simp add: join_char_concat)
qed

definition song_parts :: "lyrics_line \<Rightarrow> string list" where
  "song_parts l =
     (let parts = split_char (CHR 0x0A) (ll_words l) in (timestamp (ll_start_time_ms l) @ hd parts) # tl parts)"

lemma split_one_line: "w \<in> set (split_char (CHR 0x0A) s) \<Longrightarrow> one_line w"
  unfolding one_line_def using split_by_no_sep by fastforce

lemma parse_song:
  assumes "sung_line l"
  shows "fold parse_line (song_parts l) ls = ls @ [timed_part l]"
proof -
  obtain w bs where parts: "split_char (CHR 0x0A) (ll_words l) = w # bs"
    by (cases "split_char (CHR 0x0A) (ll_words l)") simp_all
  have "verse w" "\<forall>b \<in> set bs. starts_with b ''[bg:''" "one_line w"
    using assms parts split_one_line [of w "ll_words l"] by (auto simp: sung_line_def sung_words_def list_all_iff)
  moreover have "w @ concat (map (\<lambda>b. CHR 0x0A # b) bs) = ll_words l"
    using join_split_char [of "CHR 0x0A" "ll_words l"] by (simp add: parts join_char_concat)
  ultimately show ?thesis
    using assms by (simp add: song_parts_def parts parse_verse parse_backgrounds sung_line_def timed_part_def)
qed

lemma parse_songs: "list_all sung_line ks \<Longrightarrow> fold parse_line (concat (map song_parts ks)) ls = ls @ map timed_part ks"
  by (induction ks arbitrary: ls) (simp_all add: parse_song)

lemma trim_song_parts:
  assumes "sung_line l"
  shows "map trim (song_parts l) = song_parts l"
proof -
  obtain w bs where parts: "split_char (CHR 0x0A) (ll_words l) = w # bs"
    by (cases "split_char (CHR 0x0A) (ll_words l)") simp_all
  have v: "verse w" "\<forall>b \<in> set bs. trim b = b"
    using assms parts by (auto simp: sung_line_def sung_words_def list_all_iff verse_def)
  have "graphic (CHR ''['')" "graphic (CHR '']'')" by (simp_all add: graphic_def byte_of_def)
  then have "trim (timestamp (ll_start_time_ms l) @ w) = timestamp (ll_start_time_ms l) @ w"
    using trim_timestamped [OF v(1), of "CHR ''[''" "CHR '']''" "timestamp_inline (ll_start_time_ms l)"]
    by (simp add: timestamp_def)
  then show ?thesis using v(2) by (simp add: song_parts_def parts map_idI)
qed

section \<open>Lines of a text\<close>

lemma end_lines_append: "end_lines (a @ b) = end_lines a @ end_lines b"
  by (simp add: end_lines_def)

lemma end_lines_join: "ws \<noteq> [] \<Longrightarrow> end_lines ws = join_char (CHR 0x0A) ws @ [CHR 0x0A]"
  by (induction ws rule: list_nonempty_induct) (auto simp: end_lines_def join_char_Cons)

lemma split_end_lines: "\<forall>l \<in> set ls. one_line l \<Longrightarrow> split_char (CHR 0x0A) (end_lines ls) = ls @ [[]]"
  by (induction ls) (auto simp: end_lines_def one_line_def split_char_sep)

lemma end_song_parts: "end_lines (song_parts l) = timestamp (ll_start_time_ms l) @ ll_words l @ [CHR 0x0A]"
proof -
  obtain w bs where parts: "split_char (CHR 0x0A) (ll_words l) = w # bs"
    by (cases "split_char (CHR 0x0A) (ll_words l)") simp_all
  have "join_char (CHR 0x0A) (w # bs) = ll_words l"
    using join_split_char [of "CHR 0x0A" "ll_words l"] by (simp add: parts)
  then show ?thesis
    by (simp add: song_parts_def parts end_lines_join join_char_concat)
qed

lemma sung_words_nonempty: "sung_words s \<Longrightarrow> s \<noteq> []"
  by (auto simp: sung_words_def verse_def)

lemma end_song_lines:
  assumes "list_all sung_line ls"
  shows "end_lines (song_lines True ls) = end_lines (concat (map song_parts ls))"
proof -
  have "filter (\<lambda>l. ll_words l \<noteq> []) ls = ls"
    using assms sung_words_nonempty by (auto simp: filter_id_conv list_all_iff sung_line_def)
  then have "end_lines (song_lines True ls) = concat (map (\<lambda>l. timestamp (ll_start_time_ms l) @ ll_words l @ [CHR 0x0A]) ls)"
    by (simp add: song_lines_def end_lines_def comp_def)
  also have "\<dots> = end_lines (concat (map song_parts ls))"
    by (induction ls) (simp_all add: end_lines_append end_song_parts, simp add: end_lines_def)
  finally show ?thesis .
qed

lemma one_line_append [simp]: "one_line (a @ b) \<longleftrightarrow> one_line a \<and> one_line b"
  by (auto simp: one_line_def)

lemma one_line_timestamp: "0 \<le> ms \<Longrightarrow> ms < 6000000 \<Longrightarrow> one_line (timestamp ms)"
proof -
  assume ms: "0 \<le> ms" "ms < 6000000"
  have "one_line d" if "list_all is_ascii_digit d" for d
    using that by (auto simp: one_line_def list_all_iff is_ascii_digit_def byte_of_def)
  then have "one_line (minutes_of ms)" "one_line (seconds_of ms)" "one_line (fraction_of ms)"
    using parts_digits [OF ms] by auto
  then show ?thesis by (simp add: timestamp_parts [OF ms(1)] one_line_def)
qed

lemma one_line_song_parts: "sung_line l \<Longrightarrow> p \<in> set (song_parts l) \<Longrightarrow> one_line p"
proof -
  assume l: "sung_line l" and p: "p \<in> set (song_parts l)"
  obtain w bs where parts: "split_char (CHR 0x0A) (ll_words l) = w # bs"
    by (cases "split_char (CHR 0x0A) (ll_words l)") simp_all
  then have "one_line q" if "q \<in> set (w # bs)" for q
    using split_one_line [of q "ll_words l"] that by simp
  with l p parts show ?thesis
    by (auto simp: song_parts_def sung_line_def one_line_timestamp)
qed

section \<open>Header lines are not lyrics\<close>

lemma timed_at_other: "\<not> starts_with s ''['' \<Longrightarrow> timed_at s = None"
  by (cases s) (auto simp: timed_at_def then_char_def)

lemma no_timed_line: "CHR ''['' \<notin> set s \<Longrightarrow> timed_line s = None"
  by (induction s) (auto simp: timed_at_other)

definition tag_line :: "string \<Rightarrow> bool" where
  "tag_line h \<longleftrightarrow> (\<exists>c s. h = CHR ''['' # c # s @ '']'' \<and> \<not> is_ascii_digit c \<and> clean_name (c # s))"

lemma tag_line_not_timed:
  assumes "tag_line h"
  shows "trim h = h" "timed_line h = None" "one_line h"
proof -
  obtain c s where h: "h = CHR ''['' # c # s @ '']''" and c: "\<not> is_ascii_digit c" and clean: "clean_name (c # s)"
    using assms unfolding tag_line_def by blast
  show "trim h = h" by (rule trim_graphic) (simp_all add: h graphic_def byte_of_def)
  have "digit_run 2 2 (c # s @ '']'') = None" using c by (simp add: digit_run_def)
  then have "timed_at h = None" by (simp add: h timed_at_def)
  moreover have "timed_line (c # s @ '']'') = None" using clean by (intro no_timed_line) (auto simp: clean_name_def)
  ultimately show "timed_line h = None" by (simp only: h timed_line.simps) simp
  show "one_line h" using clean by (auto simp: h clean_name_def one_line_def)
qed

lemma trim_Nil [simp]: "trim [] = []"
  by (simp add: trim_def trim_end_def)

lemma parse_headers: "\<forall>h \<in> set hs. tag_line h \<or> h = [] \<Longrightarrow> fold parse_line (map trim hs) [] = []"
proof (induction hs)
  case (Cons h hs)
  have "parse_line (trim h) [] = []"
    using Cons.prems tag_line_not_timed [of h] by (auto simp: parse_line_def)
  with Cons show ?case by simp
qed simp

lemma clean_name_append [simp]: "clean_name (a @ b) \<longleftrightarrow> clean_name a \<and> clean_name b"
  by (auto simp: clean_name_def)

lemma clean_digits: "list_all is_ascii_digit d \<Longrightarrow> clean_name d"
  by (auto simp: clean_name_def one_line_def list_all_iff is_ascii_digit_def byte_of_def)

lemma clean_show_int: "clean_name (show_int n)"
  using clean_digits [OF show_nat_all_digits] by (simp add: show_int_def clean_name_def one_line_def)

lemma clean_trim: "clean_name s \<Longrightarrow> clean_name (trim s)"
  using set_trim [of s] by (auto simp: clean_name_def one_line_def)

lemma tag_lineI: "\<not> is_ascii_digit c \<Longrightarrow> clean_name (c # s) \<Longrightarrow> h = CHR ''['' # c # s @ '']'' \<Longrightarrow> tag_line h"
  unfolding tag_line_def by blast

lemma header_tag_lines:
  assumes "clean_name track" "clean_name artist" "clean_name (lr_source r)" "clean_name (lr_provider r)"
  shows "\<forall>h \<in> set (header_lines env r track artist). tag_line h \<or> h = []"
proof -
  have source: "clean_name (credited_source r)" using assms clean_trim by (simp add: credited_source_def)
  define credit where
    "credit = (if source_uses_proxy env (credited_source r) then ''Mornye via Paxsenix API'' else ''Mornye'')"
  have credit: "clean_name credit" by (simp add: credit_def clean_name_def one_line_def)
  have "tag_line (''[ti:'' @ track @ '']'')"
    using assms(1) by (intro tag_lineI [of "CHR ''t''" "''i:'' @ track"]) (auto simp: clean_name_def one_line_def is_ascii_digit_def byte_of_def)
  moreover have "tag_line (''[ar:'' @ artist @ '']'')"
    using assms(2) by (intro tag_lineI [of "CHR ''a''" "''r:'' @ artist"]) (auto simp: clean_name_def one_line_def is_ascii_digit_def byte_of_def)
  moreover have "tag_line (''[by:'' @ credit @ e @ '']'')" if "clean_name e" for e
    using that credit by (intro tag_lineI [of "CHR ''b''" "''y:'' @ credit @ e"])
      (auto simp: clean_name_def one_line_def is_ascii_digit_def byte_of_def)
  moreover have "clean_name (if credited_source r = [] then [] else '' (source: '' @ credited_source r @ '')'')"
    using source by (auto simp: clean_name_def one_line_def)
  ultimately show ?thesis
    unfolding header_lines_def Let_def credit_def [symmetric] by auto
qed

lemma encoded_tag_line:
  assumes "\<And>s. clean_name (le_base64 env s)" "clean_name tag" "tag = c # t" "\<not> is_ascii_digit c"
  shows "tag_line (encoded_tag env tag n s)"
  using assms clean_show_int [of n] assms(1) [of s]
  by (intro tag_lineI [of c "t @ '':'' @ show_int n @ '':'' @ le_base64 env s"])
     (auto simp: encoded_tag_def clean_name_def one_line_def)

lemma reading_tag_lines:
  assumes "\<And>s. clean_name (le_base64 env s)"
  shows "\<forall>h \<in> set (reading_tags env l). tag_line h"
proof -
  have x: "\<not> is_ascii_digit (CHR ''x'')" by (simp add: is_ascii_digit_def byte_of_def)
  have names: "clean_name ''x-romaji-words''" "clean_name ''x-romaji''" "clean_name ''x-translation''"
    by (simp_all add: clean_name_def one_line_def)
  have opt: "\<forall>h \<in> set (optional_tag env tag n t). tag_line h" if "clean_name tag" "tag = CHR ''x'' # u" for tag n t u
    using encoded_tag_line [OF assms that x] by (auto simp: optional_tag_def split: option.splits)
  have "tag_line (encoded_tag env ''x-romaji-words'' n s)" for n s
    by (rule encoded_tag_line [OF assms names(1) _ x]) simp_all
  then show ?thesis
    using opt [OF names(2)] opt [OF names(3)] by (auto simp: reading_tags_def split: option.splits)
qed

section \<open>Saved lyrics are read back\<close>

text \<open>
  C14. Saving synced lyrics loses nothing that is sung: for every response whose lines start before 100
  minutes and whose words are verses with background lines, the reader finds in the text that the writer
  produced exactly these lines, with the same times to the millisecond and the same words in the same order.
  The header, the credit and the encoded readings and translations are never taken for lyrics, as long as
  title, artist, source, provider and the base64 text hold no line feed and no opening bracket. (Lines from 100
  minutes on are lost, \<open>long_times_are_not_read\<close>, and a title such as \<open>[00:10.00]x\<close> would be read as a line.)
\<close>

theorem saved_lyrics_read_back:
  assumes "is_synced r" "list_all sung_line (response_lines r)"
    and "clean_name track" "clean_name artist" "clean_name (lr_source r)" "clean_name (lr_provider r)"
    and "\<And>s. clean_name (le_base64 env s)"
  shows "parse_synced (with_metadata env r track artist) = Some (set_ends (map timed_part (response_lines r)))"
proof -
  let ?ls = "response_lines r"
  let ?heads = "header_lines env r track artist @ concat (map (reading_tags env) ?ls)"
  let ?songs = "concat (map song_parts ?ls)"
  have some: "?ls \<noteq> []" using assms(1) by (auto simp: is_synced_def has_usable_timing_def)
  have heads: "\<forall>h \<in> set ?heads. tag_line h \<or> h = []"
    using header_tag_lines [OF assms(3-6), of env] reading_tag_lines [OF assms(7)] by auto
  have songs: "map trim ?songs = ?songs"
    using assms(2) trim_song_parts by (induction ?ls) (auto simp: list_all_iff map_concat comp_def intro!: arg_cong [where f = concat] map_cong)
  have "one_line []" by (simp add: one_line_def)
  then have "\<forall>l \<in> set ?heads. one_line l" using heads tag_line_not_timed(3) by metis
  moreover have "\<forall>l \<in> set ?songs. one_line l"
    using assms(2) one_line_song_parts by (auto simp: list_all_iff)
  ultimately have "\<forall>l \<in> set (?heads @ ?songs). one_line l" by auto
  then have split: "split_char (CHR 0x0A) (end_lines (?heads @ ?songs)) = ?heads @ ?songs @ [[]]"
    using split_end_lines [of "?heads @ ?songs"] by simp
  have "with_metadata env r track artist = end_lines (?heads @ ?songs)"
    using some assms(1) by (simp add: with_metadata_def end_lines_append end_song_lines [OF assms(2)])
  then have "map trim (split_char (CHR 0x0A) (with_metadata env r track artist)) = map trim ?heads @ ?songs @ [[]]"
    by (simp only: split map_append songs trim_Nil list.map)
  moreover have "fold parse_line (map trim ?heads @ ?songs @ [[]]) [] = map timed_part ?ls"
    using parse_headers [OF heads] parse_songs [OF assms(2), of "[]"] by (simp add: parse_line_def)
  ultimately have "fold parse_line (map trim (split_char (CHR 0x0A) (with_metadata env r track artist))) [] =
      map timed_part ?ls" by (simp only:)
  moreover have "set_ends (map timed_part ?ls) \<noteq> []"
    using some by (cases "map timed_part ?ls" rule: set_ends.cases) auto
  ultimately show ?thesis by (simp add: parse_synced_def Let_def)
qed

section \<open>What the reader produces\<close>

definition read_line_ok :: "lyrics_line \<Rightarrow> bool" where
  "read_line_ok l \<longleftrightarrow>
     sung_words (ll_words l) \<and> 0 \<le> ll_start_time_ms l \<and> ll_start_time_ms l < 6040000 \<and>
     ll_romanization l = None \<and> ll_romanization_words l = None \<and> ll_translation l = None"

lemma captured_number_bounds:
  "list_all is_ascii_digit d \<Longrightarrow> 0 \<le> captured_number d \<and> captured_number d < 10 ^ length d"
proof (induction d rule: rev_induct)
  case (snoc c d)
  have "int (byte_of c - 48) \<le> 9" using snoc.prems by (auto simp: is_ascii_digit_def)
  with snoc show ?case by (simp add: captured_number_def)
qed (simp add: captured_number_def)

lemma timed_at_Some:
  assumes "timed_at s = Some (m, sec, f, rest)"
  shows "0 \<le> captured_time m sec f \<and> captured_time m sec f < 6040000 \<and> one_line rest"
proof -
  have d: "list_all is_ascii_digit m" "length m = 2" "list_all is_ascii_digit sec" "length sec = 2"
    "list_all is_ascii_digit f" "length f = 2 \<or> length f = 3" "\<exists>t. rest = takeWhile (\<lambda>c. c \<noteq> CHR 0x0A) t"
    using assms by (auto simp: timed_at_def bind_eq_Some_conv dest!: digit_run_Some)
  have "0 \<le> captured_number m" "captured_number m < 100" "0 \<le> captured_number sec" "captured_number sec < 100"
    using captured_number_bounds [OF d(1)] captured_number_bounds [OF d(3)] d(2,4) by simp_all
  moreover have "0 \<le> captured_number f" "length f = 2 \<Longrightarrow> captured_number f < 100" "length f \<noteq> 2 \<Longrightarrow> captured_number f < 1000"
    using captured_number_bounds [OF d(5)] d(6) by auto
  ultimately have "0 \<le> captured_time m sec f \<and> captured_time m sec f < 6040000"
    unfolding captured_time_def by (cases "length f = 2") simp_all
  moreover have "one_line rest" using d(7) by (auto simp: one_line_def dest: set_takeWhileD)
  ultimately show ?thesis by simp
qed

lemma timed_line_Some:
  "timed_line s = Some (m, sec, f, rest) \<Longrightarrow> 0 \<le> captured_time m sec f \<and> captured_time m sec f < 6040000 \<and> one_line rest"
  by (induction s) (auto split: option.splits dest: timed_at_Some)

lemma sung_words_verse: "verse w \<Longrightarrow> one_line w \<Longrightarrow> sung_words w"
  by (simp add: sung_words_def one_line_def split_char_none)

lemma split_char_snoc: "c \<notin> set b \<Longrightarrow> split_char c (s @ c # b) = split_char c s @ [b]"
proof (induction s)
  case (Cons x s)
  then show ?case by (cases "split_char c s") auto
qed (simp add: split_char_none)

lemma sung_words_background:
  assumes "sung_words s" "verse b" "one_line b" "starts_with b ''[bg:''"
  shows "sung_words (s @ [CHR 0x0A] @ b)"
proof -
  have "split_char (CHR 0x0A) (s @ [CHR 0x0A] @ b) = split_char (CHR 0x0A) s @ [b]"
    using assms(3) split_char_snoc [of "CHR 0x0A" b s] by (simp add: one_line_def)
  then show ?thesis using assms unfolding sung_words_def Let_def by (cases "split_char (CHR 0x0A) s") auto
qed

lemma parse_line_ok:
  assumes "list_all read_line_ok ls" "one_line line" "trim line = line"
  shows "list_all read_line_ok (parse_line line ls)"
proof (cases "line = []")
  case False
  show ?thesis
  proof (cases "starts_with line ''[bg:'' \<and> ls \<noteq> []")
    case True
    then have "list_all read_line_ok (butlast ls)" "read_line_ok (last ls)"
      using assms(1) by (auto simp: list_all_iff dest: in_set_butlastD)
    with True False assms(2,3) show ?thesis
      using sung_words_background [of "ll_words (last ls)" line]
      by (simp add: parse_line_def read_line_ok_def verse_def)
  next
    case no_bg: False
    show ?thesis
    proof (cases "timed_line line")
      case (Some q)
      obtain m sec f rest where q: "q = (m, sec, f, rest)" by (cases q) auto
      note facts = timed_line_Some [OF Some [unfolded q]]
      have "one_line (trim rest)" using facts set_trim [of rest] by (auto simp: one_line_def)
      then have "sung_words (trim rest)" if "trim rest \<noteq> []"
        using that by (intro sung_words_verse trim_verse)
      with Some q facts no_bg False assms(1) show ?thesis
        by (auto simp: parse_line_def read_line_ok_def lyrics_line_default_def Let_def)
    qed (use no_bg False assms(1) in \<open>auto simp: parse_line_def\<close>)
  qed
qed (use assms in \<open>simp add: parse_line_def\<close>)

lemma parse_lines_ok: "list_all read_line_ok (fold parse_line (map trim (split_char (CHR 0x0A) raw)) [])"
proof -
  have "list_all read_line_ok (fold parse_line (map trim ps) ls)"
    if "\<forall>p \<in> set ps. one_line p" "list_all read_line_ok ls" for ps ls
    using that
  proof (induction ps arbitrary: ls)
    case (Cons p ps)
    have "one_line (trim p)" using Cons.prems(1) set_trim [of p] by (auto simp: one_line_def)
    then show ?case using Cons parse_line_ok [of ls "trim p"] by (simp add: trim_idem)
  qed simp
  then show ?thesis using split_one_line by simp
qed

lemma set_ends_ok: "list_all read_line_ok ls \<Longrightarrow> list_all read_line_ok (set_ends ls)"
  by (induction ls rule: set_ends.induct) (auto simp: read_line_ok_def)

lemma set_ends_start: "map ll_start_time_ms (set_ends ls) = map ll_start_time_ms ls"
  by (induction ls rule: set_ends.induct) auto

lemma set_ends_idem: "set_ends (set_ends ls) = set_ends ls"
proof (induction ls rule: set_ends.induct)
  case (3 l k ls)
  obtain j js where j: "set_ends (k # ls) = j # js" "ll_start_time_ms j = ll_start_time_ms k"
    using set_ends_start [of "k # ls"] by (cases "set_ends (k # ls)") auto
  with 3 show ?case by simp
qed simp_all

lemma parse_synced_ok: "parse_synced raw = Some ls \<Longrightarrow> ls \<noteq> [] \<and> list_all read_line_ok ls \<and> set_ends ls = ls"
  using set_ends_ok [OF parse_lines_ok] by (auto simp: parse_synced_def Let_def set_ends_idem split: if_splits)

lemma plain_text_ok: "plain_text_lines raw = Some ls \<Longrightarrow> ls \<noteq> [] \<and> list_all (\<lambda>l. verse (ll_words l)) ls"
  by (auto simp: plain_text_lines_def Let_def list_all_iff trim_verse split: if_splits)

definition blank :: "string \<Rightarrow> bool" where
  "blank raw = list_all (\<lambda>l. trim l = []) (split_char (CHR 0x0A) raw)"

lemma blank_no_lines: "blank raw \<Longrightarrow> parse_synced raw = None \<and> plain_text_lines raw = None"
proof -
  assume b: "blank raw"
  have "fold parse_line (map trim ps) [] = []" if "list_all (\<lambda>l. trim l = []) ps" for ps
    using that by (induction ps) (simp_all add: parse_line_def)
  with b show ?thesis
    by (auto simp: blank_def parse_synced_def plain_text_lines_def Let_def list_all_iff filter_empty_conv)
qed

lemma not_blank_lines: "\<not> blank raw \<Longrightarrow> plain_text_lines raw \<noteq> None"
  by (auto simp: blank_def plain_text_lines_def Let_def list_all_iff filter_empty_conv)

lemma normalize_timing_cases:
  "response_lines (normalize_timing r) = response_lines r" "lr_provider (normalize_timing r) = lr_provider r"
  "lr_source (normalize_timing r) = lr_source r" "lr_lines (normalize_timing r) = lr_lines r"
  "lr_sync_type (normalize_timing r) = ''LINE_SYNCED'' \<longleftrightarrow> is_synced (normalize_timing r)"
  "lr_sync_type (normalize_timing r) = (if lr_sync_type r = ''LINE_SYNCED'' \<and> \<not> is_synced r then ''UNSYNCED'' else lr_sync_type r)"
  by (auto simp: normalize_timing_def is_synced_def response_lines_def)

definition stamped :: "string \<Rightarrow> bool" where
  "stamped l = (case timed_line (trim l) of None \<Rightarrow> False | Some (_, _, _, rest) \<Rightarrow> trim rest \<noteq> [])"

definition holds_timed_line :: "string \<Rightarrow> bool" where
  "holds_timed_line raw = list_ex stamped (split_char (CHR 0x0A) raw)"

lemma parse_line_some: "ls \<noteq> [] \<Longrightarrow> parse_line l ls \<noteq> []"
  by (auto simp: parse_line_def Let_def split: option.splits)

lemma parse_lines_some: "ls \<noteq> [] \<Longrightarrow> fold parse_line ps ls \<noteq> []"
  by (induction ps arbitrary: ls) (simp_all add: parse_line_some)

lemma parse_line_first: "parse_line (trim l) [] = [] \<longleftrightarrow> \<not> stamped l"
  by (auto simp: parse_line_def stamped_def Let_def split: option.splits)

lemma parse_lines_none: "fold parse_line (map trim ps) [] = [] \<longleftrightarrow> \<not> list_ex stamped ps"
proof (induction ps)
  case (Cons p ps)
  then show ?case
    using parse_lines_some [of "parse_line (trim p) []" "map trim ps"] parse_line_first [of p] by (cases "stamped p") simp_all
qed simp

lemma parse_synced_iff: "parse_synced raw = None \<longleftrightarrow> \<not> holds_timed_line raw"
proof -
  have "set_ends ls = [] \<longleftrightarrow> ls = []" for ls by (cases ls rule: set_ends.cases) auto
  then show ?thesis by (simp add: parse_synced_def Let_def parse_lines_none holds_timed_line_def)
qed

lemma normalized_mark:
  assumes "lr_sync_type r = ''LINE_SYNCED''"
  shows "lr_sync_type (normalize_timing r) = (if has_usable_timing (response_lines r) then ''LINE_SYNCED'' else ''UNSYNCED'')"
  using assms normalize_timing_cases(6) [of r] by (simp add: is_synced_def)

text \<open>
  C15. Whatever text is read, the response is well formed. It has lines exactly when some line of the text is
  not blank. It is marked as synced exactly when some line of the text carries a time stamp with words after
  it and the lines that were read from such text have usable timing; any other text that is not blank is marked
  unsynced, and blank text gets no mark. Provider and source are kept. Lines read from text with time stamps
  have non-negative times below 100 minutes and 40 seconds, each ends where the next one starts, and their
  words are verses with background lines; text without time stamps gives its trimmed lines that are not
  blank, in their order, at time zero.
\<close>

theorem read_lyrics_are_well_formed:
  fixes raw provider source
  defines "r \<equiv> from_text raw provider source"
  shows "lr_provider r = provider \<and> lr_source r = source \<and> (response_lines r = [] \<longleftrightarrow> blank raw) \<and>
     lr_sync_type r =
       (if blank raw then []
        else if holds_timed_line raw \<and> has_usable_timing (response_lines r) then ''LINE_SYNCED'' else ''UNSYNCED'') \<and>
     (if holds_timed_line raw
      then list_all read_line_ok (response_lines r) \<and> set_ends (response_lines r) = response_lines r
      else response_lines r = map (\<lambda>w. lyrics_line_default\<lparr>ll_words := w\<rparr>)
             (filter (\<lambda>w. w \<noteq> []) (map trim (split_char (CHR 0x0A) raw)))) \<and>
     list_all (\<lambda>l. ll_words l \<noteq> [] \<and> 0 \<le> ll_start_time_ms l) (response_lines r)"
proof -
  let ?r0 = "lyrics_response_default\<lparr>lr_provider := provider, lr_source := source\<rparr>"
  have words: "list_all (\<lambda>l. ll_words l \<noteq> [] \<and> 0 \<le> ll_start_time_ms l) ls" if "list_all read_line_ok ls" for ls
    using that sung_words_nonempty by (auto simp: list_all_iff read_line_ok_def)
  show ?thesis
  proof (cases "parse_synced raw")
    case (Some ls)
    then have ok: "ls \<noteq> []" "list_all read_line_ok ls" "set_ends ls = ls" and nb: "\<not> blank raw" and timed: "holds_timed_line raw"
      using parse_synced_ok [OF Some] blank_no_lines [of raw] parse_synced_iff [of raw] by auto
    let ?r1 = "?r0\<lparr>lr_plain_lyrics := plain_from_timed_lines ls, lr_lines := Some ls, lr_sync_type := ''LINE_SYNCED''\<rparr>"
    have r: "r = normalize_timing ?r1" by (simp add: r_def from_text_def Let_def Some)
    have lines: "response_lines ?r1 = ls" by (simp add: response_lines_def)
    have "lr_sync_type r = (if has_usable_timing ls then ''LINE_SYNCED'' else ''UNSYNCED'')"
      unfolding r using normalized_mark [of ?r1] lines by simp
    moreover have "response_lines r = ls" "lr_provider r = provider" "lr_source r = source"
      unfolding r normalize_timing_cases lines by simp_all
    ultimately show ?thesis using ok nb timed words [OF ok(2)] by simp
  next
    case None
    then have untimed: "\<not> holds_timed_line raw" using parse_synced_iff by simp
    show ?thesis
    proof (cases "plain_text_lines raw")
      case (Some ls)
      then have ok: "ls \<noteq> []" "list_all (\<lambda>l. verse (ll_words l)) ls" and nb: "\<not> blank raw"
        using plain_text_ok [OF Some] blank_no_lines [of raw] by auto
      have ls: "ls = map (\<lambda>w. lyrics_line_default\<lparr>ll_words := w\<rparr>) (filter (\<lambda>w. w \<noteq> []) (map trim (split_char (CHR 0x0A) raw)))"
        using Some by (simp add: plain_text_lines_def Let_def split: if_splits)
      have filled: "list_all (\<lambda>l. ll_words l \<noteq> [] \<and> 0 \<le> ll_start_time_ms l) (map (\<lambda>w. lyrics_line_default\<lparr>ll_words := w\<rparr>) ws)"
        if "[] \<notin> set ws" for ws
        using that by (auto simp: list_all_iff lyrics_line_default_def)
      have "list_all (\<lambda>l. ll_words l \<noteq> [] \<and> 0 \<le> ll_start_time_ms l) ls"
        unfolding ls by (rule filled) simp
      moreover
      have r: "r = ?r0\<lparr>lr_lines := Some ls, lr_sync_type := ''UNSYNCED'', lr_plain_lyrics := raw\<rparr>"
        by (simp add: r_def from_text_def Let_def None Some normalize_timing_def)
      have "response_lines r = ls" "lr_sync_type r = ''UNSYNCED''" "lr_provider r = provider" "lr_source r = source"
        unfolding r by (simp_all add: response_lines_def)
      ultimately show ?thesis
        unfolding ls [symmetric] using ok(1) nb untimed by (simp only: if_False simp_thms)
    next
      case none: None
      then have "blank raw" "filter (\<lambda>w. w \<noteq> []) (map trim (split_char (CHR 0x0A) raw)) = []"
        using not_blank_lines by (blast, simp add: plain_text_lines_def Let_def split: if_splits)
      moreover have "r = ?r0"
        by (simp add: r_def from_text_def Let_def None none normalize_timing_def lyrics_response_default_def)
      ultimately show ?thesis using untimed
        by (simp add: response_lines_def lyrics_response_default_def)
    qed
  qed
qed

section \<open>Hour-long recordings\<close>

text \<open>
  From 100 minutes on the writer needs three digits for the minutes, which the reader's pattern refuses: the
  line is dropped when the saved lyrics are read again.
\<close>

lemma long_times_are_not_read:
  assumes "6000000 \<le> ms" "CHR ''['' \<notin> set w"
  shows "parse_line (timestamp ms @ w) [] = []"
proof -
  define m where "m = nat ms div 1000 div 60"
  have "100 \<le> m" using assms(1) by (simp add: m_def div_mult2_eq [symmetric] nat_le_iff less_eq_div_iff_mult_less_eq)
  have "\<not> length (show_nat m) \<le> 2"
  proof
    assume short: "length (show_nat m) \<le> 2"
    have "0 \<le> captured_number (show_nat m) \<and> captured_number (show_nat m) < 10 ^ length (show_nat m)"
      by (rule captured_number_bounds [OF show_nat_all_digits])
    moreover have "captured_number (show_nat m) = int m" using show_nat_digits captured_number_digits by blast
    moreover have "(10::int) ^ length (show_nat m) \<le> 10 ^ 2" using short by (intro power_increasing) auto
    ultimately have "int m < 10 ^ 2" by linarith
    then show False using \<open>100 \<le> m\<close> by simp
  qed
  then have long: "pad_digits 2 m = show_nat m" "2 < length (show_nat m)" by (simp_all add: pad_digits_def)
  obtain rest where rest: "timestamp ms = CHR ''['' # show_nat m @ CHR '':'' # rest" "CHR ''['' \<notin> set rest"
  proof
    show "timestamp ms = CHR ''['' # show_nat m @ CHR '':'' # seconds_of ms @ CHR ''.'' # fraction_of ms @ '']''"
      using assms(1) long by (simp add: timestamp_parts minutes_of_def m_def)
    have "clean_name (pad_digits k n)" for k n
      using show_nat_all_digits [of n] by (intro clean_digits) (auto simp: pad_digits_def list_all_iff is_ascii_digit_def byte_of_def)
    then show "CHR ''['' \<notin> set (seconds_of ms @ CHR ''.'' # fraction_of ms @ '']'')"
      by (simp add: seconds_of_def fraction_of_def clean_name_def)
  qed
  have "takeWhile is_ascii_digit (show_nat m @ CHR '':'' # rest @ w) = show_nat m"
    using show_nat_all_digits [of m] by (induction "show_nat m") (auto simp: takeWhile_append2 list_all_iff)
  then have "timed_at (timestamp ms @ w) = None"
    using long by (simp add: rest timed_at_def digit_run_def)
  moreover have "CHR ''['' \<notin> set (show_nat m)"
    using clean_digits [OF show_nat_all_digits] by (simp add: clean_name_def)
  then have "timed_line (show_nat m @ CHR '':'' # rest @ w) = None"
    using rest(2) assms(2) by (intro no_timed_line) auto
  ultimately show ?thesis by (simp add: parse_line_def rest)
qed

section \<open>A concrete song\<close>

definition sample_lyrics_env :: lyrics_env where
  "sample_lyrics_env =
     \<lparr>le_low = (\<lambda>c. [if between 65 90 c then c + 32 else c]), le_json = (\<lambda>_. Some ''[]''), le_base64 = (\<lambda>_. ''W10='')\<rparr>"

definition sample_lyrics :: lyrics_response where
  "sample_lyrics =
     lyrics_response_default\<lparr>lr_lines := Some
       [lyrics_line_default\<lparr>ll_words := ''One'' @ [CHR 0x0A] @ ''[bg:oh]'', ll_translation := Some ''Eins''\<rparr>,
        lyrics_line_default\<lparr>ll_start_time_ms := 61009, ll_words := ''Two''\<rparr>],
      lr_sync_type := ''LINE_SYNCED'', lr_provider := ''Lrclib''\<rparr>"

lemma sample_lyrics_synced: "is_synced sample_lyrics" "list_all sung_line (response_lines sample_lyrics)"
  by code_simp+

theorem saved_lyrics_read_back_witness:
  "parse_synced (with_metadata sample_lyrics_env sample_lyrics ''T'' ''A'') =
     Some [lyrics_line_default\<lparr>ll_words := ''One'' @ [CHR 0x0A] @ ''[bg:oh]'', ll_end_time_ms := 61009\<rparr>,
           lyrics_line_default\<lparr>ll_start_time_ms := 61009, ll_words := ''Two'', ll_end_time_ms := 66009\<rparr>]"
proof -
  have clean: "clean_name ''T''" "clean_name ''A''" "clean_name (lr_source sample_lyrics)" "clean_name (lr_provider sample_lyrics)"
    "\<And>s. clean_name (le_base64 sample_lyrics_env s)"
    by (simp_all add: clean_name_def one_line_def sample_lyrics_def sample_lyrics_env_def lyrics_response_default_def)
  show ?thesis
    unfolding saved_lyrics_read_back [OF sample_lyrics_synced clean]
    by (simp add: sample_lyrics_def response_lines_def timed_part_def lyrics_line_default_def)
qed

theorem read_lyrics_are_well_formed_witness:
  "lr_sync_type (from_text ''[00:01.00]La'' ''P'' ''S'') = ''LINE_SYNCED'' \<and>
   lr_sync_type (from_text ''<00:01.00>La'' ''P'' ''S'') = ''UNSYNCED'' \<and>
   list_all read_line_ok (response_lines (from_text ''[00:01.00]La'' ''P'' ''S''))"
proof -
  have "\<not> blank ''[00:01.00]La''" "holds_timed_line ''[00:01.00]La''"
    "has_usable_timing (response_lines (from_text ''[00:01.00]La'' ''P'' ''S''))" by code_simp+
  moreover have "\<not> blank ''<00:01.00>La''" "\<not> holds_timed_line ''<00:01.00>La''" by code_simp+
  ultimately show ?thesis
    using read_lyrics_are_well_formed [of "''[00:01.00]La''" "''P''" "''S''"]
      read_lyrics_are_well_formed [of "''<00:01.00>La''" "''P''" "''S''"] by simp
qed

end
