(* ===== verification/Spec2Isabelle.thy ===== *)
theory Spec2Isabelle
  imports
    Request_Cancellation Progress Musicbrainz_Client Rate_Limiter Resolution_Budget Pairing Link_Auth Received_Files Link_Api
    Cast_Proto Url Query Network_Policy Transfer_Policy Download_Engine Segment_Download Chunked_Download
    Windows_Path Usb_Descriptors Flac_Round_Trip Storage_Theorems Sandbox Output_Locks Cookie_Sessions
    Lrc_Round_Trip
begin

text \<open>
  A verification library for the Rust backend of the lossless music player and downloader
  (\<open>src/rust_backend/crates\<close>). The backend is a set of crates behind one application: \<open>core\<close> (requests,
  metadata, lyrics, tags), \<open>network\<close> (URLs, address policy, DNS, HTTP client), \<open>providers\<close> (metadata
  services over the network), \<open>extensions\<close> (JavaScript provider extensions and the files they
  download), \<open>link\<close> (the LAN server that lets a phone use the desktop's library), \<open>cast\<close> (Chromecast),
  and the \<open>desktop\<close> and \<open>mobile\<close> bindings.

  \<^bold>\<open>How the parts interact.\<close> A request of the application is registered in the cancellation
  registry; every long operation holds a lease of it and asks it whether to go on. Providers look up
  metadata through clients that share one flight per key (the coalescer), keep a bounded cache and are
  spaced by a rate limiter. An extension resolves a track within a resolution budget and then downloads
  it: the URL is validated by the network policy, each attempt follows the transfer policy of the
  extension's manifest, and the bytes are staged next to the target, which is replaced only at the end;
  names an extension chooses pass the Windows path rules. The extension keeps settings and credentials in
  its storage, reaches files only below the directories granted to it, writes an output under its lock, and
  its HTTP client carries a cookie jar. The link server routes each HTTP request,
  authenticates it against the device store, pairs new devices by PIN, and receives song files. The tags
  of a downloaded file are edited by streaming it into a copy whose metadata sections are replaced; its lyrics are saved as LRC
  text and read back.

  \<^bold>\<open>The theories.\<close>
  \<^item> \<open>Prelude\<close>: result types (\<open>Inl\<close> is the error), the try operator, lemma collections and the
    list, option and word facts that the components share. \<open>Rust_Text\<close>: the operations of Rust's
    \<open>str\<close> on byte strings (trim, split, prefix, ASCII case, number parsing). \<open>BTree_Map\<close>: ordered maps,
    with the locale \<open>ordered_map\<close> of their laws. \<open>Json_Value\<close>: the JSON values of \<open>serde_json\<close>.
  \<^item> \<open>Request_Cancellation\<close> (\<open>core/src/cancellation.rs\<close>): registry, leases, batch cancel and reset, shutdown and
    bounded waits. Reachable registries count their leases; cancelling reaches exactly the live leases of the
    ID and the one acquired next; a retry after the last release starts afresh; shutdown is terminal.
  \<^item> \<open>Progress\<close> (\<open>core/src/progress.rs\<close>): items with revisions, tombstones, deltas and waiting listeners;
    a listener is refined to the registry's visible state. \<open>Float64\<close> holds the floating-point values.
  \<^item> \<open>Coalescer\<close> (\<open>providers/src/coalescer.rs\<close>), \<open>Ttl_Cache\<close> and \<open>Musicbrainz_Client\<close>
    (\<open>providers/src/musicbrainz.rs\<close>): flights are addresses in an explicit heap because waiters and the
    worker share them; the client is a step relation whose steps are its critical sections, so the
    invariants hold for every interleaving of callers and workers; a cached outcome is served until its time to
    live ends, unless the full cache drops it to make room. The locale \<open>flight_table\<close> states what
    the client relies on in the coalescer, \<open>bounded_cache\<close> what it relies on in its cache.
  \<^item> \<open>Rate_Limiter\<close> (\<open>providers/src/resolver/rate.rs\<close>): rounds of the waiting loop; no window of the
    configured length holds more admissions than configured.
  \<^item> \<open>Resolution_Budget\<close> (\<open>extensions/src/resolution.rs\<close>): pausable allowance, refined to the count of
    instants at which the clock runs.
  \<^item> \<open>Link_Store\<close>, \<open>Link_Auth\<close>, \<open>Pairing\<close>, \<open>Received_Files\<close>, \<open>Link_Api\<close> (\<open>link/src\<close>): the device store
    with its files on disk, Subsonic and bearer credentials, pairing windows, received song files, and
    the router that composes them. The locale \<open>key_directory\<close> is the interface between the credentials
    and the store.
  \<^item> \<open>Cast_Proto\<close> (\<open>cast/src/proto.rs\<close>): the hand-written protobuf codec and the frame reader, over the
    locale \<open>prefix_codec\<close>.
  \<^item> \<open>Url\<close>, \<open>Query\<close> (\<open>network/src/url.rs\<close>, \<open>query.rs\<close>): parser, serialiser, reference resolution and
    percent coding, over the locale \<open>escape_codec\<close>. \<open>Network_Policy\<close> (\<open>policy.rs\<close>, \<open>dns.rs\<close>): URL
    validation, the private address ranges of IPv4, IPv6 and the mapped addresses as lists of networks, the
    fallback resolver and its cache.
  \<^item> \<open>Transfer_Policy\<close> (\<open>extensions/src/transfer_policy.rs\<close>): the policy of a manifest and its bounds.
    \<open>Download_Store\<close>, \<open>Download_Engine\<close> (\<open>extensions/src/download/store.rs\<close>, \<open>download.rs\<close>): the staged
    file with its checkpoint, and the single-stream download with retries and resume. \<open>Segment_Store\<close>,
    \<open>Segment_Download\<close> (\<open>segment_store.rs\<close>, \<open>segments.rs\<close>): segments fetched by parallel workers and
    appended in order; the threads are a step relation over their channels, with an executable schedule.
    \<open>Chunked_Download\<close> (\<open>chunked.rs\<close>): the probe and the ranges that follow it. What a download publishes is
    claimed for servers that label their versions and for a checkpoint that is missing or honest at the start.
  \<^item> \<open>Fallible_State\<close>: the state and error monad of code that changes files through calls that may fail, with
    the judgement \<open>runs\<close> over it. \<open>Extension_Storage\<close> (\<open>extensions/src/storage.rs\<close>, \<open>write_atomic\<close> of
    \<open>core/src/fs.rs\<close>): encrypted and plain stores of an extension with their migrations, the shared caches
    and the registry of open files. \<open>Storage_Coherence\<close> proves that a cached snapshot is what the file holds, for files whose versions differ
    in modification time or inode and for foreign changes that fall between the operations of a handle,
    \<open>Storage_Sessions\<close> that any session of handles refines the locale \<open>durable_map\<close>, and \<open>Storage_Theorems\<close>
    that writes are whole, read back and succeed when no call fails.
  \<^item> \<open>Unix_Path\<close> (\<open>clean\<close> of \<open>core/src/fs.rs\<close> and the components of \<open>std::path\<close>), \<open>File_Grants\<close>, \<open>Sandbox\<close>
    (\<open>extensions/src/files.rs\<close>): directories granted to an extension, with the reference counts that keep them
    alive, and the resolution of the paths it names. A relative path resolves exactly when its place is inside
    the extension's own directory, an absolute one exactly when its place is below a granted directory. \<open>Output_Locks\<close>: the locks of output files as a step relation of threads.
  \<^item> \<open>Cookie_Jar\<close>, \<open>Cookie_Sessions\<close> (\<open>network/src/cookies.rs\<close>): the cookies of an extension's HTTP client. A
    header holds exactly the cookies in force, longer paths first and older cookies before younger ones; each of
    them goes back only where its \<open>Set-Cookie\<close> header and the answer it came with allow.
  \<^item> \<open>Windows_Path\<close> (\<open>extensions/src/windows_path.rs\<close>): names of files below a directory. An accepted name is
    walked as Windows reads it, where a leading separator, a drive or a device name leaves the directory.
  \<^item> \<open>Case_Mapping\<close> (\<open>core/src/metadata/matching.rs\<close>, \<open>text.rs\<close>), \<open>Tag_Io\<close>, \<open>Vorbis_Comments\<close>, \<open>Flac_Tags\<close>
    (\<open>core/src/tags\<close>): the streaming reader and writer with the faults and short transfers of the system,
    the comment block, the editor of its fields, and the FLAC reader and rewriter over them.
    \<open>Comment_Views\<close>, \<open>Comment_Edits\<close>, \<open>Flac_Edit\<close>, \<open>Flac_Round_Trip\<close> prove what an edit does: it keeps the
    audio, each field reads back as the edit determines it, succeeds on every file of the FLAC shape when no call fails, and is
    idempotent. The locale \<open>tag_store\<close> is what the editor relies on in a comment block.
  \<^item> \<open>Lrc\<close>, \<open>Lrc_Round_Trip\<close> (\<open>core/src/lyrics.rs\<close>, \<open>lyrics/lrc.rs\<close>): timed lyrics, with the patterns of the code
    as matchers on bytes. Saved lyrics are read back, and a response read from text is marked by the timed lines that the text holds.
  \<^item> \<open>Usb_Descriptors\<close> (\<open>mobile/src/usb_audio\<close>): the USB audio descriptor parser and the choice of formats;
    every format offered belongs to an alternate setting that can play it.

  \<^bold>\<open>Conventions.\<close> Text and \<open>Vec<u8>\<close> used as text are \<open>string\<close> (bytes), binary buffers are \<open>u8 list\<close>.
  Unsigned counters are \<open>nat\<close>, with the wrap-around or the saturation written out where the code can
  reach it; bytes, ports and addresses keep their width as words. A Rust panic or an index out of range
  is an error value. Mutable state is a record that each operation returns updated; a lock is the
  atomicity of the operation. Clock readings, random bytes, answers of the file system and of servers,
  digests and ciphers, JSON, form and cookie parsers, Unicode case mapping, IDNA, regular expressions and
  image decoding are parameters: code outside the repository is never given a definition of our own.

  \<^bold>\<open>Bounds and fuel.\<close> No definition runs on fuel that a theorem could exhaust silently. Waiting loops
  consume the list of clock readings they would make; the download consumes one environment per attempt
  and \<open>download_ends_within_its_attempts\<close> proves that \<open>max_attempts\<close> environments are enough. Parsers
  recurse on the remaining input with a measure.

  \<^bold>\<open>Not modelled.\<close> The JavaScript engine embedding and the desktop and mobile bindings (FFI and operating
  system glue); the Ogg, ID3, MP4, APE and RIFF tag containers; audio analysis and the USB
  packet clock (floating point); opening, staging and publishing files through directory capabilities; the
  payloads of lyrics providers; the Subsonic catalogue; WebSocket sessions; the HTTP client and its TLS set-up;
  the generated MusicBrainz case table.
\<close>

end
